(* ===== verification/Dm02_Prelude.thy ===== *)
theory Dm02_Prelude
  imports Main "HOL-Library.Word" "HOL-Library.Monad_Syntax"
begin

text \<open>
  Shared vocabulary of the development: the C integer types as words, a model of byte
  memory whose accesses are checked, and the cursor that the packers of the link protocol
  advance through an output buffer.

  A C object that the code accesses through a \<^verbatim>\<open>uint8_t *\<close> is the list of its bytes, from
  the pointer to the end of the object. Every access is checked: a result \<open>None\<close> means that
  the C program would read or write outside the object, which C leaves undefined. A theorem
  that an operation returns \<open>Some\<close> is therefore a memory-safety theorem. Lengths and
  positions inside a buffer are natural numbers; the truncations that the source performs
  when it stores a length in a 16-bit field are written out where they happen.
\<close>

unbundle bit_operations_syntax

section \<open>Machine types\<close>

type_synonym u8 = "8 word"
type_synonym u16 = "16 word"
type_synonym u32 = "32 word"
type_synonym u64 = "64 word"

text \<open>Signed integers keep their two's complement representation; \<open>sint\<close> reads them.\<close>

type_synonym i16 = "16 word"
type_synonym i32 = "32 word"
type_synonym i64 = "64 word"

text \<open>Opaque pointers to code and to user data.\<close>

type_synonym fn_ptr = nat
type_synonym user_ptr = nat
type_synonym addr = nat

named_theorems mem_simps \<open>checked memory accesses inside the bounds of an object\<close>
named_theorems wire_lengths \<open>lengths of the wire images\<close>
named_theorems wire_defs \<open>definitions of the wire images\<close>

section \<open>Checked byte memory\<close>

definition mem_get :: "u8 list \<Rightarrow> nat \<Rightarrow> u8 option" where
  "mem_get m i = (if i < length m then Some (m ! i) else None)"

definition mem_read :: "u8 list \<Rightarrow> nat \<Rightarrow> nat \<Rightarrow> u8 list option" where
  "mem_read m i n = (if i + n \<le> length m then Some (take n (drop i m)) else None)"

definition mem_write :: "u8 list \<Rightarrow> nat \<Rightarrow> u8 list \<Rightarrow> u8 list option" where
  "mem_write m i bs =
     (if i + length bs \<le> length m then Some (take i m @ bs @ drop (i + length bs) m) else None)"

definition mem_set :: "u8 list \<Rightarrow> nat \<Rightarrow> u8 \<Rightarrow> u8 list option" where
  "mem_set m i b = (if i < length m then Some (m[i := b]) else None)"

lemma mem_get_in [mem_simps]: "i < length m \<Longrightarrow> mem_get m i = Some (m ! i)"
  by (simp add: mem_get_def)

lemma mem_get_out: "length m \<le> i \<Longrightarrow> mem_get m i = None"
  by (simp add: mem_get_def)

lemma mem_read_in [mem_simps]:
  "i + n \<le> length m \<Longrightarrow> mem_read m i n = Some (take n (drop i m))"
  by (simp add: mem_read_def)

lemma mem_read_zero [simp]: "i \<le> length m \<Longrightarrow> mem_read m i 0 = Some []"
  by (simp add: mem_read_def)

lemma mem_write_in [mem_simps]:
  "i + length bs \<le> length m \<Longrightarrow>
     mem_write m i bs = Some (take i m @ bs @ drop (i + length bs) m)"
  by (simp add: mem_write_def)

lemma mem_set_write: "mem_set m i b = mem_write m i [b]"
  by (auto simp: mem_set_def mem_write_def upd_conv_take_nth_drop)

lemma mem_write_length: "mem_write m i bs = Some m' \<Longrightarrow> length m' = length m"
  by (auto simp: mem_write_def split: if_splits)

lemma mem_write_write_consecutive:
  "Option.bind (mem_write m i xs) (\<lambda>m'. mem_write m' (i + length xs) ys) = mem_write m i (xs @ ys)"
  by (auto simp: mem_write_def ac_simps)

lemma mem_write_set_consecutive:
  assumes "j = i + length xs"
  shows "Option.bind (mem_write m i xs) (\<lambda>m'. mem_set m' j b) = mem_write m i (xs @ [b])"
  using mem_write_write_consecutive [of m i xs "[b]"] assms by (simp add: mem_set_write)

lemma mem_read_after_write:
  "mem_write m i bs = Some m' \<Longrightarrow> mem_read m' i (length bs) = Some bs"
  by (auto simp: mem_write_def mem_read_def split: if_splits)

lemma mem_read_after_write_disjoint:
  assumes "mem_write m i bs = Some m'" and "j + n \<le> i \<or> i + length bs \<le> j"
  shows "mem_read m' j n = mem_read m j n"
proof -
  from assms(1) have le: "i + length bs \<le> length m"
    and m': "m' = take i m @ bs @ drop (i + length bs) m"
    by (auto simp: mem_write_def split: if_splits)
  have len: "length m' = length m" using le by (simp add: m')
  have "take n (drop j m') = take n (drop j m)"
  proof (rule nth_equalityI)
    show "length (take n (drop j m')) = length (take n (drop j m))" by (simp add: len)
  next
    fix k assume "k < length (take n (drop j m'))"
    then have k: "k < n" "j + k < length m" by (auto simp: len)
    then show "take n (drop j m') ! k = take n (drop j m) ! k"
      using assms(2) le by (auto simp: m' nth_append)
  qed
  then show ?thesis by (simp add: mem_read_def len)
qed

lemma mem_read_append [simp]:
  "mem_read (xs @ ys @ zs) (length xs) (length ys) = Some ys"
  by (simp add: mem_read_def)

lemma mem_read_split:
  assumes "mem_read m i n = Some bs"
  shows "\<exists>xs zs. m = xs @ bs @ zs \<and> length xs = i \<and> length bs = n"
proof -
  from assms have le: "i + n \<le> length m" and bs: "bs = take n (drop i m)"
    by (auto simp: mem_read_def split: if_splits)
  have "m = take i m @ bs @ drop (i + n) m"
    by (metis append_take_drop_id bs drop_drop add.commute)
  with le bs show ?thesis by (intro exI [of _ "take i m"] exI [of _ "drop (i + n) m"]) auto
qed

lemma mem_read_join:
  "mem_read m i a = Some xs \<Longrightarrow> mem_read m (i + a) b = Some ys \<Longrightarrow> mem_read m i (a + b) = Some (xs @ ys)"
  by (auto simp: mem_read_def take_add add.commute split: if_splits)

lemma mem_get_read: "mem_get m i = Some b \<longleftrightarrow> mem_read m i 1 = Some [b]"
  by (auto simp: mem_get_def mem_read_def take_Suc_conv_app_nth hd_drop_conv_nth split: if_splits)

text \<open>Consecutive reads give the concatenation of what they found.\<close>

fun reads_at :: "u8 list \<Rightarrow> nat \<Rightarrow> u8 list list \<Rightarrow> bool" where
  "reads_at m i [] \<longleftrightarrow> True"
| "reads_at m i (bs # bss) \<longleftrightarrow> mem_read m i (length bs) = Some bs \<and> reads_at m (i + length bs) bss"

lemma mem_read_concat:
  "i \<le> length m \<Longrightarrow> reads_at m i bss \<Longrightarrow> mem_read m i (length (concat bss)) = Some (concat bss)"
proof (induction bss arbitrary: i)
  case (Cons bs bss)
  then have "i + length bs \<le> length m" by (auto simp: mem_read_def split: if_splits)
  with Cons show ?case by (auto intro: mem_read_join)
qed simp

lemma mem_read_drop: "i \<le> length m \<Longrightarrow> mem_read (drop i m) j n = mem_read m (i + j) n"
  by (auto simp: mem_read_def add.commute)

lemma mem_read_prefix: "mem_read m 0 n = Some bs \<longleftrightarrow> n \<le> length m \<and> take n m = bs"
  by (auto simp: mem_read_def)

section \<open>Emitting bytes at a cursor\<close>

text \<open>
  \<^verbatim>\<open>out[pos++] = b\<close> on the pair of the output buffer and the running position. A buffer into
  which the bytes \<open>bs\<close> have been emitted from position 0 is \<open>cursor out bs\<close>.
\<close>

definition emit8 :: "u8 list \<times> nat \<Rightarrow> u8 \<Rightarrow> (u8 list \<times> nat) option" where
  "emit8 s b = (case s of (out, pos) \<Rightarrow> do { out' \<leftarrow> mem_set out pos b; Some (out', pos + 1) })"

definition cursor :: "u8 list \<Rightarrow> u8 list \<Rightarrow> u8 list \<times> nat" where
  "cursor out bs = (bs @ drop (length bs) out, length bs)"

lemma cursor_start: "(out, 0) = cursor out []"
  by (simp add: cursor_def)

lemma mem_write_cursor [mem_simps]:
  assumes "length bs + length cs \<le> length out"
  shows "mem_write (bs @ drop (length bs) out) (length bs) cs =
           Some ((bs @ cs) @ drop (length (bs @ cs)) out)"
  using assms by (simp add: mem_write_def add.commute)

lemma emit8_cursor [mem_simps]:
  "length bs < length out \<Longrightarrow> emit8 (cursor out bs) b = Some (cursor out (bs @ [b]))"
  by (simp add: emit8_def cursor_def mem_set_write mem_write_cursor)

section \<open>Lists and options\<close>

lemma nth_drop_list: "i + j < length xs \<Longrightarrow> drop i xs ! j = xs ! (i + j)"
  by simp

lemma take_drop_Suc: "i < length xs \<Longrightarrow> take (Suc n) (drop i xs) = xs ! i # take n (drop (Suc i) xs)"
  by (simp add: Cons_nth_drop_Suc [symmetric])

lemma bind_Some_iff: "Option.bind x f = Some y \<longleftrightarrow> (\<exists>a. x = Some a \<and> f a = Some y)"
  by (cases x) auto

lemma bind_None_iff: "Option.bind x f = None \<longleftrightarrow> x = None \<or> (\<exists>a. x = Some a \<and> f a = None)"
  by (cases x) auto

lemma list_eq_at_length:
  "length xs = length ys \<Longrightarrow> xs @ us = ys @ vs \<longleftrightarrow> xs = ys \<and> us = vs"
  by simp

section \<open>Words\<close>

lemma word_xor_right_cancel: "(a :: 'a::len word) XOR c = b XOR c \<longleftrightarrow> a = b"
  by (metis xor.assoc xor_self_eq xor.right_neutral)

lemma word_xor_exchange:
  assumes "(a :: 'a::len word) XOR b = c XOR d"
  shows "a XOR c = b XOR d"
proof (rule bit_word_eqI)
  fix n
  have "bit (a XOR b) n = bit (c XOR d) n" by (simp add: assms)
  then show "bit (a XOR c) n = bit (b XOR d) n" by (auto simp: bit_simps)
qed

lemma drop_bit_1_parity:
  assumes "odd a = odd b" "drop_bit 1 a = drop_bit 1 b"
  shows "(a :: 'a::len word) = b"
proof (rule bit_word_eqI)
  fix n
  have "bit (drop_bit 1 a) k = bit (drop_bit 1 b) k" for k by (simp only: assms(2))
  then show "bit a n = bit b n"
    using assms(1) by (cases n) (auto simp: bit_0 bit_drop_bit_eq)
qed

lemma unat_u8_lt: "unat (d :: u8) < 256"
  using unsigned_less [of d, where 'a = nat] by simp

lemma unat_ucast_u8 [simp]: "unat (ucast (d :: u8) :: u16) = unat d"
  using unat_u8_lt [of d] by (simp add: unsigned_ucast_eq take_bit_nat_eq_self)

end
