(* ===== verification/Le_Bytes.thy ===== *)
theory Le_Bytes
  imports Dm02_Prelude
begin

text \<open>
  The little-endian helpers of \<^verbatim>\<open>core/comm_utils.h\<close> and the two static ones of
  \<^verbatim>\<open>core/uproto.c\<close>. The contract every reader/writer pair meets is the locale
  \<open>le_codec\<close>: a writer stores the fixed-width wire image of its value, a reader returns
  the value of the image it finds. Each pair of the source is an interpretation.
\<close>

section \<open>The helpers of the source\<close>

definition read_u16_le :: "u8 list \<Rightarrow> nat \<Rightarrow> u16 option" where
  "read_u16_le p i = do {
     b0 \<leftarrow> mem_get p i;
     b1 \<leftarrow> mem_get p (i + 1);
     Some (ucast b0 OR push_bit 8 (ucast b1))
   }"

definition write_u16_le :: "u8 list \<Rightarrow> nat \<Rightarrow> u16 \<Rightarrow> u8 list option" where
  "write_u16_le p i val = do {
     p \<leftarrow> mem_set p i (ucast (val AND 0xFF));
     mem_set p (i + 1) (ucast (drop_bit 8 val AND 0xFF))
   }"

definition comm_read_u16_le :: "u8 list \<Rightarrow> nat \<Rightarrow> u16 option" where
  "comm_read_u16_le p i = do {
     b0 \<leftarrow> mem_get p i;
     b1 \<leftarrow> mem_get p (i + 1);
     Some (ucast b0 OR push_bit 8 (ucast b1))
   }"

definition comm_write_u16_le :: "u8 list \<Rightarrow> nat \<Rightarrow> u16 \<Rightarrow> u8 list option" where
  "comm_write_u16_le p i value = do {
     p \<leftarrow> mem_set p i (ucast (value AND 0xFF));
     mem_set p (i + 1) (ucast (drop_bit 8 value AND 0xFF))
   }"

definition comm_read_u32_le :: "u8 list \<Rightarrow> nat \<Rightarrow> u32 option" where
  "comm_read_u32_le p i = do {
     b0 \<leftarrow> mem_get p i;
     b1 \<leftarrow> mem_get p (i + 1);
     b2 \<leftarrow> mem_get p (i + 2);
     b3 \<leftarrow> mem_get p (i + 3);
     Some (ucast b0 OR push_bit 8 (ucast b1) OR push_bit 16 (ucast b2) OR push_bit 24 (ucast b3))
   }"

definition comm_write_u32_le :: "u8 list \<Rightarrow> nat \<Rightarrow> u32 \<Rightarrow> u8 list option" where
  "comm_write_u32_le p i value = do {
     p \<leftarrow> mem_set p i (ucast (value AND 0xFF));
     p \<leftarrow> mem_set p (i + 1) (ucast (drop_bit 8 value AND 0xFF));
     p \<leftarrow> mem_set p (i + 2) (ucast (drop_bit 16 value AND 0xFF));
     mem_set p (i + 3) (ucast (drop_bit 24 value AND 0xFF))
   }"

text \<open>The 64-bit helpers loop over the bytes: the reader from the last to the first.\<close>

fun read_u64_loop :: "u8 list \<Rightarrow> nat \<Rightarrow> nat \<Rightarrow> u64 \<Rightarrow> u64 option" where
  "read_u64_loop p i 0 value = Some value"
| "read_u64_loop p i (Suc k) value = do {
     b \<leftarrow> mem_get p (i + k);
     read_u64_loop p i k (push_bit 8 value OR ucast b)
   }"

definition comm_read_u64_le :: "u8 list \<Rightarrow> nat \<Rightarrow> u64 option" where
  "comm_read_u64_le p i = read_u64_loop p i 8 0"

fun write_u64_loop :: "u8 list \<Rightarrow> nat \<Rightarrow> nat list \<Rightarrow> u64 \<Rightarrow> u8 list option" where
  "write_u64_loop p i [] value = Some p"
| "write_u64_loop p i (k # ks) value = do {
     p \<leftarrow> mem_set p (i + k) (ucast (drop_bit (8 * k) value AND 0xFF));
     write_u64_loop p i ks value
   }"

definition comm_write_u64_le :: "u8 list \<Rightarrow> nat \<Rightarrow> u64 \<Rightarrow> u8 list option" where
  "comm_write_u64_le p i value = write_u64_loop p i [0..<8] value"

text \<open>The signed 32-bit helpers reinterpret the same 32 bits.\<close>

definition comm_read_i32_le :: "u8 list \<Rightarrow> nat \<Rightarrow> i32 option" where
  "comm_read_i32_le p i = comm_read_u32_le p i"

definition comm_write_i32_le :: "u8 list \<Rightarrow> nat \<Rightarrow> i32 \<Rightarrow> u8 list option" where
  "comm_write_i32_le p i value = comm_write_u32_le p i value"

section \<open>Wire images\<close>

text \<open>
  The little-endian image of a word, its \<open>n\<close> low bytes from the least significant one, and
  the value of an image: the specification of all the helpers, at any width.
\<close>

fun le_bytes :: "nat \<Rightarrow> 'a::len word \<Rightarrow> u8 list" where
  "le_bytes 0 v = []"
| "le_bytes (Suc n) v = ucast v # le_bytes n (drop_bit 8 v)"

fun le_value :: "u8 list \<Rightarrow> 'a::len word" where
  "le_value [] = 0"
| "le_value (b # bs) = ucast b OR push_bit 8 (le_value bs)"

abbreviation le16 :: "u16 \<Rightarrow> u8 list" where "le16 \<equiv> le_bytes 2"
abbreviation le32 :: "u32 \<Rightarrow> u8 list" where "le32 \<equiv> le_bytes 4"
abbreviation le64 :: "u64 \<Rightarrow> u8 list" where "le64 \<equiv> le_bytes 8"

lemma le_bytes_length [simp, wire_lengths]: "length (le_bytes n v) = n"
  by (induction n v rule: le_bytes.induct) auto

lemma le_value_le_bytes: "le_value (le_bytes n v) = take_bit (8 * n) v"
proof (induction n v rule: le_bytes.induct)
  case (1 v)
  then show ?case by simp
next
  case (2 n v)
  have "ucast (ucast v :: u8) OR push_bit 8 (take_bit (8 * n) (drop_bit 8 v)) =
      take_bit (8 * Suc n) v"
    by (rule bit_word_eqI) (auto simp: bit_simps)
  with 2 show ?case by simp
qed

lemma le_value_bound: "bit (le_value bs) k \<Longrightarrow> k < 8 * length bs"
proof (induction bs arbitrary: k)
  case (Cons b bs)
  then show ?case by (auto simp: bit_simps dest!: bit_imp_le_length Cons.IH)
qed simp

lemma le_bytes_le_value:
  "8 * length bs \<le> LENGTH('a) \<Longrightarrow> le_bytes (length bs) (le_value bs :: 'a::len word) = bs"
proof (induction bs)
  case Nil
  then show ?case by simp
next
  case (Cons b bs)
  let ?x = "le_value bs :: 'a word"
  have "ucast (ucast b OR push_bit 8 ?x) = b"
    using Cons.prems by (intro bit_word_eqI) (auto simp: bit_simps)
  moreover have "drop_bit 8 (ucast b OR push_bit 8 ?x) = ?x"
  proof (rule bit_word_eqI)
    fix k assume "k < LENGTH('a)"
    show "bit (drop_bit 8 (ucast b OR push_bit 8 ?x)) k = bit ?x k"
      using Cons.prems le_value_bound [where bs = bs and 'a = 'a and k = k]
      by (auto simp: bit_simps dest: bit_imp_le_length)
  qed
  ultimately show ?case using Cons by simp
qed

lemma ucast_and_255 [simp]: "ucast ((v :: 'a::len word) AND 255) = (ucast v :: u8)"
proof -
  have m: "(255 :: 'a word) = mask 8" by (simp add: mask_eq_exp_minus_1)
  show ?thesis
    unfolding m by (rule bit_word_eqI) (auto simp: bit_simps dest: bit_imp_le_length)
qed

section \<open>Storing a field at a cursor\<close>

text \<open>\<^verbatim>\<open>comm_write_u16_le(&buf[pos], v); pos += 2\<close>, and the like for the other widths.\<close>

definition put :: "(u8 list \<Rightarrow> nat \<Rightarrow> 'a \<Rightarrow> u8 list option) \<Rightarrow> nat \<Rightarrow> 'a \<Rightarrow> u8 list \<times> nat \<Rightarrow> (u8 list \<times> nat) option" where
  "put wr n v s = (case s of (buf, pos) \<Rightarrow> do { buf \<leftarrow> wr buf pos v; Some (buf, pos + n) })"

section \<open>The contract of a codec\<close>

locale le_codec =
  fixes wr :: "u8 list \<Rightarrow> nat \<Rightarrow> 'a \<Rightarrow> u8 list option"
    and rd :: "u8 list \<Rightarrow> nat \<Rightarrow> 'a option"
    and img :: "'a \<Rightarrow> u8 list"
    and val :: "u8 list \<Rightarrow> 'a"
    and w :: nat
  assumes img_length: "length (img v) = w"
    and val_img: "val (img v) = v"
    and img_val: "length bs = w \<Longrightarrow> img (val bs) = bs"
    and wr_eq: "wr m i v = mem_write m i (img v)"
    and rd_eq: "rd m i = map_option val (mem_read m i w)"
begin

lemma read_after_write: "wr m i v = Some m' \<Longrightarrow> rd m' i = Some v"
  using mem_read_after_write [of m i "img v" m'] by (simp add: wr_eq rd_eq img_length val_img)

lemma read_disjoint:
  "wr m i v = Some m' \<Longrightarrow> j + w \<le> i \<or> i + w \<le> j \<Longrightarrow> rd m' j = rd m j"
  by (simp add: wr_eq rd_eq mem_read_after_write_disjoint img_length)

lemma write_defined: "i + w \<le> length m \<longleftrightarrow> (\<exists>m'. wr m i v = Some m')"
  by (simp add: wr_eq mem_write_def img_length)

lemma read_defined: "i + w \<le> length m \<longleftrightarrow> (\<exists>v. rd m i = Some v)"
  by (simp add: rd_eq mem_read_def)

lemma read_image: "length xs = i \<Longrightarrow> rd (xs @ img v @ zs) i = Some v"
  using mem_read_append [of xs "img v" zs] by (simp add: rd_eq img_length val_img)

lemma read_at:
  "i + w \<le> length m \<Longrightarrow> take w (drop i m) = img v \<Longrightarrow> rd m i = Some v"
  by (simp add: rd_eq mem_read_def val_img)

lemma read_value:
  assumes "rd m i = Some v"
  shows "mem_read m i w = Some (img v)"
proof -
  from assms obtain bs where "mem_read m i w = Some bs" and "v = val bs"
    by (auto simp: rd_eq)
  then show ?thesis using mem_read_split [of m i w bs] img_val [of bs] by auto
qed

lemma img_inject: "img v = img v' \<longleftrightarrow> v = v'"
  by (metis val_img)

lemma write_cursor:
  assumes "length bs + w \<le> length out"
  shows "wr (bs @ drop (length bs) out) (length bs) v =
           Some ((bs @ img v) @ drop (length (bs @ img v)) out)"
  using assms mem_write_cursor [of bs "img v" out] by (simp only: wr_eq img_length)

lemma put_cursor: "length bs + w \<le> length out \<Longrightarrow> put wr w v (cursor out bs) = Some (cursor out (bs @ img v))"
  using write_cursor [of bs out v] by (simp add: put_def cursor_def img_length)

end

section \<open>The helpers meet the contract\<close>

lemma mem_read_Suc:
  "mem_read m i (Suc n) = do { b \<leftarrow> mem_get m i; bs \<leftarrow> mem_read m (Suc i) n; Some (b # bs) }"
  by (auto simp: mem_read_def mem_get_def take_drop_Suc)

lemma mem_read_numeral:
  "mem_read m i (numeral k) =
     do { b \<leftarrow> mem_get m i; bs \<leftarrow> mem_read m (Suc i) (pred_numeral k); Some (b # bs) }"
  by (simp add: numeral_eq_Suc mem_read_Suc)

lemma mem_read_one: "mem_read m i 1 = map_option (\<lambda>b. [b]) (mem_get m i)"
  by (auto simp: mem_read_def mem_get_def take_drop_Suc)

lemma le_bytes_numeral:
  "le_bytes (numeral k) v = ucast v # le_bytes (pred_numeral k) (drop_bit 8 v)"
  by (simp add: numeral_eq_Suc)

lemma mem_set_set_consecutive:
  "Option.bind (mem_set m i a) (\<lambda>m'. mem_set m' (Suc i) b) = mem_write m i [a, b]"
  using mem_write_set_consecutive [of "Suc i" i "[a]" m b] by (simp add: mem_set_write)

lemma read_u16_le_eq: "read_u16_le m i = map_option le_value (mem_read m i 2)"
  by (simp add: read_u16_le_def numeral_2_eq_2 mem_read_Suc) (auto simp: mem_get_def mem_read_def)

lemma comm_read_u16_le_eq: "comm_read_u16_le m i = map_option le_value (mem_read m i 2)"
  by (simp add: comm_read_u16_le_def read_u16_le_eq [symmetric] read_u16_le_def)

lemma write_u16_le_eq: "write_u16_le m i v = mem_write m i (le16 v)"
  by (simp add: write_u16_le_def mem_set_set_consecutive le_bytes_numeral)

lemma comm_write_u16_le_eq: "comm_write_u16_le m i v = mem_write m i (le16 v)"
  by (simp add: comm_write_u16_le_def mem_set_set_consecutive le_bytes_numeral)

lemma comm_read_u32_le_eq: "comm_read_u32_le m i = map_option le_value (mem_read m i 4)"
  by (auto simp: comm_read_u32_le_def mem_read_numeral mem_read_Suc mem_get_def
      push_bit_or ac_simps numeral_3_eq_3)

lemma comm_write_u32_le_eq: "comm_write_u32_le m i v = mem_write m i (le32 v)"
proof -
  have "comm_write_u32_le m i v = do {
     p \<leftarrow> mem_set m i (ucast v); p \<leftarrow> mem_set p (Suc i) (ucast (drop_bit 8 v));
     p \<leftarrow> mem_set p (i + 2) (ucast (drop_bit 16 v)); mem_set p (i + 3) (ucast (drop_bit 24 v)) }"
    by (simp add: comm_write_u32_le_def)
  also have "\<dots> = do {
     p \<leftarrow> mem_write m i [ucast v, ucast (drop_bit 8 v)];
     p \<leftarrow> mem_set p (i + 2) (ucast (drop_bit 16 v)); mem_set p (i + 3) (ucast (drop_bit 24 v)) }"
    by (simp flip: mem_set_set_consecutive Option.bind_assoc)
  also have "\<dots> = mem_write m i (le32 v)"
    by (simp add: le_bytes_numeral mem_write_set_consecutive flip: Option.bind_assoc)
  finally show ?thesis .
qed

lemma read_u64_loop_eq:
  "i + k \<le> length m \<Longrightarrow>
     read_u64_loop m i k x = Some (foldr (\<lambda>b v. ucast b OR push_bit 8 v) (take k (drop i m)) x)"
proof (induction k arbitrary: x)
  case (Suc k)
  then have "take (Suc k) (drop i m) = take k (drop i m) @ [m ! (i + k)]"
    by (simp add: take_Suc_conv_app_nth)
  with Suc show ?case by (simp add: mem_get_in or.commute)
qed simp

lemma le_value_foldr: "le_value bs = foldr (\<lambda>b v. ucast b OR push_bit 8 v) bs 0"
  by (induction bs) simp_all

lemma read_u64_loop_out: "length m < i + k \<Longrightarrow> k \<noteq> 0 \<Longrightarrow> read_u64_loop m i k x = None"
  by (cases k) (auto simp: mem_get_out)

lemma comm_read_u64_le_eq: "comm_read_u64_le m i = map_option le_value (mem_read m i 8)"
  by (cases "i + 8 \<le> length m")
     (simp_all add: comm_read_u64_le_def read_u64_loop_eq read_u64_loop_out mem_read_def le_value_foldr)

lemma le_bytes_snoc: "le_bytes (Suc k) v = le_bytes k v @ [ucast (drop_bit (8 * k) v)]"
proof (induction k arbitrary: v)
  case (Suc k)
  from Suc [of "drop_bit 8 v"] show ?case
    by (simp only: le_bytes.simps(2) [of "Suc k"] append_Cons) (simp add: ac_simps)
qed simp

lemma write_u64_loop_eq:
  "Option.bind (mem_write m i (le_bytes k v)) (\<lambda>m'. write_u64_loop m' i [k..<k + n] v) =
     mem_write m i (le_bytes (k + n) v)"
proof (induction n arbitrary: k)
  case (Suc n)
  have "[k..<k + Suc n] = k # [Suc k..<Suc k + n]" by (simp add: upt_conv_Cons)
  moreover have "Option.bind (mem_write m i (le_bytes k v))
      (\<lambda>m'. mem_set m' (i + k) (ucast (drop_bit (8 * k) v))) = mem_write m i (le_bytes (Suc k) v)"
    by (simp only: le_bytes_snoc) (rule mem_write_set_consecutive, simp)
  ultimately show ?case
    using Suc [of "Suc k"] by (simp del: le_bytes.simps flip: Option.bind_assoc)
qed (simp add: Option.bind_eq_Some_conv split: bind_splits)

lemma comm_write_u64_le_eq: "comm_write_u64_le m i v = mem_write m i (le64 v)"
proof (cases "i \<le> length m")
  case True
  then show ?thesis
    using write_u64_loop_eq [of m i 0 v 8] by (simp add: comm_write_u64_le_def mem_write_def)
next
  case False
  then have "[0..<8] = 0 # [1..<8]" by (simp add: upt_conv_Cons)
  with False show ?thesis by (simp add: comm_write_u64_le_def mem_set_def mem_write_def)
qed

lemmas le_read_eqs = read_u16_le_eq comm_read_u16_le_eq comm_read_u32_le_eq comm_read_u64_le_eq
lemmas le_write_eqs = write_u16_le_eq comm_write_u16_le_eq comm_write_u32_le_eq comm_write_u64_le_eq

lemma le16_le_value: "length bs = 2 \<Longrightarrow> le16 (le_value bs) = bs"
  using le_bytes_le_value [where bs = bs and 'a = 16] by simp

lemma le32_le_value: "length bs = 4 \<Longrightarrow> le32 (le_value bs) = bs"
  using le_bytes_le_value [where bs = bs and 'a = 32] by simp

lemma le64_le_value: "length bs = 8 \<Longrightarrow> le64 (le_value bs) = bs"
  using le_bytes_le_value [where bs = bs and 'a = 64] by simp

lemma le_value_le16 [simp]: "le_value (le16 v) = v"
  by (simp add: le_value_le_bytes take_bit_word_eq_self)

lemma le_value_le32 [simp]: "le_value (le32 v) = v"
  by (simp add: le_value_le_bytes take_bit_word_eq_self)

lemma le_value_le64 [simp]: "le_value (le64 v) = v"
  by (simp add: le_value_le_bytes take_bit_word_eq_self)

interpretation up16: le_codec write_u16_le read_u16_le le16 le_value 2
  by unfold_locales (simp_all add: le_read_eqs le_write_eqs le16_le_value)

interpretation le16: le_codec comm_write_u16_le comm_read_u16_le le16 le_value 2
  by unfold_locales (simp_all add: le_read_eqs le_write_eqs le16_le_value)

interpretation le32: le_codec comm_write_u32_le comm_read_u32_le le32 le_value 4
  by unfold_locales (simp_all add: le_read_eqs le_write_eqs le32_le_value)

interpretation le64: le_codec comm_write_u64_le comm_read_u64_le le64 le_value 8
  by unfold_locales (simp_all add: le_read_eqs le_write_eqs le64_le_value)

interpretation lei32: le_codec comm_write_i32_le comm_read_i32_le le32 le_value 4
  by unfold_locales
     (simp_all add: le_read_eqs le_write_eqs le32_le_value comm_write_i32_le_def comm_read_i32_le_def)

lemmas put_cursors [mem_simps] = le16.put_cursor le32.put_cursor le64.put_cursor lei32.put_cursor

text \<open>Reading a field out of a concatenation of images.\<close>

lemmas read_images = le16.read_image le32.read_image le64.read_image lei32.read_image

end
