(* ===== verification/Crc.thy ===== *)
theory Crc
  imports Le_Bytes
begin

text \<open>
  The table-driven checksums of \<^verbatim>\<open>core/CRC8_CRC16.c\<close>. The tables are transcribed from the
  source. They are proved to be the byte tables of the reflected polynomials, the loops to
  be bitwise polynomial division, and the checksum to detect every corruption confined to two
  adjacent bytes.
\<close>

section \<open>Tables and initial values\<close>

definition CRC8_INIT :: u8 where
  "CRC8_INIT = 0xff"

definition CRC8_table :: "u8 list" where
  "CRC8_table = [
    0x00, 0x5e, 0xbc, 0xe2, 0x61, 0x3f, 0xdd, 0x83, 0xc2, 0x9c, 0x7e, 0x20, 0xa3, 0xfd, 0x1f, 0x41,
    0x9d, 0xc3, 0x21, 0x7f, 0xfc, 0xa2, 0x40, 0x1e, 0x5f, 0x01, 0xe3, 0xbd, 0x3e, 0x60, 0x82, 0xdc,
    0x23, 0x7d, 0x9f, 0xc1, 0x42, 0x1c, 0xfe, 0xa0, 0xe1, 0xbf, 0x5d, 0x03, 0x80, 0xde, 0x3c, 0x62,
    0xbe, 0xe0, 0x02, 0x5c, 0xdf, 0x81, 0x63, 0x3d, 0x7c, 0x22, 0xc0, 0x9e, 0x1d, 0x43, 0xa1, 0xff,
    0x46, 0x18, 0xfa, 0xa4, 0x27, 0x79, 0x9b, 0xc5, 0x84, 0xda, 0x38, 0x66, 0xe5, 0xbb, 0x59, 0x07,
    0xdb, 0x85, 0x67, 0x39, 0xba, 0xe4, 0x06, 0x58, 0x19, 0x47, 0xa5, 0xfb, 0x78, 0x26, 0xc4, 0x9a,
    0x65, 0x3b, 0xd9, 0x87, 0x04, 0x5a, 0xb8, 0xe6, 0xa7, 0xf9, 0x1b, 0x45, 0xc6, 0x98, 0x7a, 0x24,
    0xf8, 0xa6, 0x44, 0x1a, 0x99, 0xc7, 0x25, 0x7b, 0x3a, 0x64, 0x86, 0xd8, 0x5b, 0x05, 0xe7, 0xb9,
    0x8c, 0xd2, 0x30, 0x6e, 0xed, 0xb3, 0x51, 0x0f, 0x4e, 0x10, 0xf2, 0xac, 0x2f, 0x71, 0x93, 0xcd,
    0x11, 0x4f, 0xad, 0xf3, 0x70, 0x2e, 0xcc, 0x92, 0xd3, 0x8d, 0x6f, 0x31, 0xb2, 0xec, 0x0e, 0x50,
    0xaf, 0xf1, 0x13, 0x4d, 0xce, 0x90, 0x72, 0x2c, 0x6d, 0x33, 0xd1, 0x8f, 0x0c, 0x52, 0xb0, 0xee,
    0x32, 0x6c, 0x8e, 0xd0, 0x53, 0x0d, 0xef, 0xb1, 0xf0, 0xae, 0x4c, 0x12, 0x91, 0xcf, 0x2d, 0x73,
    0xca, 0x94, 0x76, 0x28, 0xab, 0xf5, 0x17, 0x49, 0x08, 0x56, 0xb4, 0xea, 0x69, 0x37, 0xd5, 0x8b,
    0x57, 0x09, 0xeb, 0xb5, 0x36, 0x68, 0x8a, 0xd4, 0x95, 0xcb, 0x29, 0x77, 0xf4, 0xaa, 0x48, 0x16,
    0xe9, 0xb7, 0x55, 0x0b, 0x88, 0xd6, 0x34, 0x6a, 0x2b, 0x75, 0x97, 0xc9, 0x4a, 0x14, 0xf6, 0xa8,
    0x74, 0x2a, 0xc8, 0x96, 0x15, 0x4b, 0xa9, 0xf7, 0xb6, 0xe8, 0x0a, 0x54, 0xd7, 0x89, 0x6b, 0x35]"

definition CRC16_INIT :: u16 where
  "CRC16_INIT = 0xffff"

definition wCRC_table :: "u16 list" where
  "wCRC_table = [
    0x0000, 0x1189, 0x2312, 0x329b, 0x4624, 0x57ad, 0x6536, 0x74bf, 0x8c48, 0x9dc1, 0xaf5a, 0xbed3,
    0xca6c, 0xdbe5, 0xe97e, 0xf8f7, 0x1081, 0x0108, 0x3393, 0x221a, 0x56a5, 0x472c, 0x75b7, 0x643e,
    0x9cc9, 0x8d40, 0xbfdb, 0xae52, 0xdaed, 0xcb64, 0xf9ff, 0xe876, 0x2102, 0x308b, 0x0210, 0x1399,
    0x6726, 0x76af, 0x4434, 0x55bd, 0xad4a, 0xbcc3, 0x8e58, 0x9fd1, 0xeb6e, 0xfae7, 0xc87c, 0xd9f5,
    0x3183, 0x200a, 0x1291, 0x0318, 0x77a7, 0x662e, 0x54b5, 0x453c, 0xbdcb, 0xac42, 0x9ed9, 0x8f50,
    0xfbef, 0xea66, 0xd8fd, 0xc974, 0x4204, 0x538d, 0x6116, 0x709f, 0x0420, 0x15a9, 0x2732, 0x36bb,
    0xce4c, 0xdfc5, 0xed5e, 0xfcd7, 0x8868, 0x99e1, 0xab7a, 0xbaf3, 0x5285, 0x430c, 0x7197, 0x601e,
    0x14a1, 0x0528, 0x37b3, 0x263a, 0xdecd, 0xcf44, 0xfddf, 0xec56, 0x98e9, 0x8960, 0xbbfb, 0xaa72,
    0x6306, 0x728f, 0x4014, 0x519d, 0x2522, 0x34ab, 0x0630, 0x17b9, 0xef4e, 0xfec7, 0xcc5c, 0xddd5,
    0xa96a, 0xb8e3, 0x8a78, 0x9bf1, 0x7387, 0x620e, 0x5095, 0x411c, 0x35a3, 0x242a, 0x16b1, 0x0738,
    0xffcf, 0xee46, 0xdcdd, 0xcd54, 0xb9eb, 0xa862, 0x9af9, 0x8b70, 0x8408, 0x9581, 0xa71a, 0xb693,
    0xc22c, 0xd3a5, 0xe13e, 0xf0b7, 0x0840, 0x19c9, 0x2b52, 0x3adb, 0x4e64, 0x5fed, 0x6d76, 0x7cff,
    0x9489, 0x8500, 0xb79b, 0xa612, 0xd2ad, 0xc324, 0xf1bf, 0xe036, 0x18c1, 0x0948, 0x3bd3, 0x2a5a,
    0x5ee5, 0x4f6c, 0x7df7, 0x6c7e, 0xa50a, 0xb483, 0x8618, 0x9791, 0xe32e, 0xf2a7, 0xc03c, 0xd1b5,
    0x2942, 0x38cb, 0x0a50, 0x1bd9, 0x6f66, 0x7eef, 0x4c74, 0x5dfd, 0xb58b, 0xa402, 0x9699, 0x8710,
    0xf3af, 0xe226, 0xd0bd, 0xc134, 0x39c3, 0x284a, 0x1ad1, 0x0b58, 0x7fe7, 0x6e6e, 0x5cf5, 0x4d7c,
    0xc60c, 0xd785, 0xe51e, 0xf497, 0x8028, 0x91a1, 0xa33a, 0xb2b3, 0x4a44, 0x5bcd, 0x6956, 0x78df,
    0x0c60, 0x1de9, 0x2f72, 0x3efb, 0xd68d, 0xc704, 0xf59f, 0xe416, 0x90a9, 0x8120, 0xb3bb, 0xa232,
    0x5ac5, 0x4b4c, 0x79d7, 0x685e, 0x1ce1, 0x0d68, 0x3ff3, 0x2e7a, 0xe70e, 0xf687, 0xc41c, 0xd595,
    0xa12a, 0xb0a3, 0x8238, 0x93b1, 0x6b46, 0x7acf, 0x4854, 0x59dd, 0x2d62, 0x3ceb, 0x0e70, 0x1ff9,
    0xf78f, 0xe606, 0xd49d, 0xc514, 0xb1ab, 0xa022, 0x92b9, 0x8330, 0x7bc7, 0x6a4e, 0x58d5, 0x495c,
    0x3de3, 0x2c6a, 0x1ef1, 0x0f78]"

section \<open>The checksum functions\<close>

text \<open>
  A message pointer is \<open>None\<close> for \<^verbatim>\<open>NULL\<close>, or the bytes from the pointer to the end of the
  object. The loops consume \<open>dw_length\<close> bytes and are undefined past the end.
\<close>

fun crc8_loop :: "u8 list \<Rightarrow> nat \<Rightarrow> u8 \<Rightarrow> u8 option" where
  "crc8_loop m 0 ucCRC8 = Some ucCRC8"
| "crc8_loop [] (Suc n) ucCRC8 = None"
| "crc8_loop (b # m) (Suc n) ucCRC8 = crc8_loop m n (CRC8_table ! unat (ucCRC8 XOR b))"

definition get_CRC8_check_sum :: "u8 list \<Rightarrow> nat \<Rightarrow> u8 \<Rightarrow> u8 option" where
  "get_CRC8_check_sum pch_message dw_length ucCRC8 = crc8_loop pch_message dw_length ucCRC8"

definition verify_CRC8_check_sum :: "u8 list option \<Rightarrow> nat \<Rightarrow> u32 option" where
  "verify_CRC8_check_sum pch_message dw_length =
     (case pch_message of
        None \<Rightarrow> Some 0
      | Some m \<Rightarrow>
          if dw_length \<le> 2 then Some 0
          else do {
            ucExpected \<leftarrow> get_CRC8_check_sum m (dw_length - 1) CRC8_INIT;
            b \<leftarrow> mem_get m (dw_length - 1);
            Some (of_bool (ucExpected = b))
          })"

definition append_CRC8_check_sum :: "u8 list option \<Rightarrow> nat \<Rightarrow> u8 list option option" where
  "append_CRC8_check_sum pch_message dw_length =
     (case pch_message of
        None \<Rightarrow> Some None
      | Some m \<Rightarrow>
          if dw_length \<le> 2 then Some (Some m)
          else do {
            ucCRC \<leftarrow> get_CRC8_check_sum m (dw_length - 1) CRC8_INIT;
            m' \<leftarrow> mem_set m (dw_length - 1) ucCRC;
            Some (Some m')
          })"

definition crc16_step :: "u16 \<Rightarrow> u8 \<Rightarrow> u16" where
  "crc16_step wCRC chData =
     drop_bit 8 wCRC XOR wCRC_table ! unat ((wCRC XOR ucast chData) AND 0x00ff)"

fun crc16_loop :: "u8 list \<Rightarrow> nat \<Rightarrow> u16 \<Rightarrow> u16 option" where
  "crc16_loop m 0 wCRC = Some wCRC"
| "crc16_loop [] (Suc n) wCRC = None"
| "crc16_loop (b # m) (Suc n) wCRC = crc16_loop m n (crc16_step wCRC b)"

definition get_CRC16_check_sum :: "u8 list option \<Rightarrow> nat \<Rightarrow> u16 \<Rightarrow> u16 option" where
  "get_CRC16_check_sum pch_message dw_length wCRC =
     (case pch_message of
        None \<Rightarrow> Some 0xFFFF
      | Some m \<Rightarrow> crc16_loop m dw_length wCRC)"

definition verify_CRC16_check_sum :: "u8 list option \<Rightarrow> nat \<Rightarrow> u32 option" where
  "verify_CRC16_check_sum pchMessage dwLength =
     (case pchMessage of
        None \<Rightarrow> Some 0
      | Some m \<Rightarrow>
          if dwLength \<le> 2 then Some 0
          else do {
            wExpected \<leftarrow> get_CRC16_check_sum (Some m) (dwLength - 2) CRC16_INIT;
            b0 \<leftarrow> mem_get m (dwLength - 2);
            b1 \<leftarrow> mem_get m (dwLength - 1);
            Some (of_bool (wExpected AND 0xff = ucast b0 \<and>
                           drop_bit 8 wExpected AND 0xff = ucast b1))
          })"

definition append_CRC16_check_sum :: "u8 list option \<Rightarrow> nat \<Rightarrow> u8 list option option" where
  "append_CRC16_check_sum pchMessage dwLength =
     (case pchMessage of
        None \<Rightarrow> Some None
      | Some m \<Rightarrow>
          if dwLength \<le> 2 then Some (Some m)
          else do {
            wCRC \<leftarrow> get_CRC16_check_sum (Some m) (dwLength - 2) CRC16_INIT;
            m \<leftarrow> mem_set m (dwLength - 2) (ucast (wCRC AND 0x00ff));
            m \<leftarrow> mem_set m (dwLength - 1) (ucast (drop_bit 8 wCRC AND 0x00ff));
            Some (Some m)
          })"

section \<open>Bitwise polynomial division\<close>

text \<open>
  The specification: one shift of the reflected division register, by
  \<open>x^16 + x^12 + x^5 + 1\<close> (reflected: 8408) and by \<open>x^8 + x^5 + x^4 + 1\<close>
  (reflected: 8C), eight shifts per message byte.
\<close>

definition crc16_shift :: "u16 \<Rightarrow> u16" where
  "crc16_shift c = (if odd c then drop_bit 1 c XOR 0x8408 else drop_bit 1 c)"

definition crc8_shift :: "u8 \<Rightarrow> u8" where
  "crc8_shift c = (if odd c then drop_bit 1 c XOR 0x8C else drop_bit 1 c)"

definition crc16_bits :: "u8 list \<Rightarrow> u16 \<Rightarrow> u16" where
  "crc16_bits = fold (\<lambda>b c. (crc16_shift ^^ 8) (c XOR ucast b))"

definition crc8_bits :: "u8 list \<Rightarrow> u8 \<Rightarrow> u8" where
  "crc8_bits = fold (\<lambda>b c. (crc8_shift ^^ 8) (c XOR b))"

lemma funpow_8: "(f ^^ 8) x = f (f (f (f (f (f (f (f x)))))))"
  by (simp add: eval_nat_numeral)

text \<open>A table holds the values of a function at successive words.\<close>

fun tabulates :: "('a::len word \<Rightarrow> 'b) \<Rightarrow> 'a word \<Rightarrow> 'b list \<Rightarrow> bool" where
  "tabulates f i [] = True"
| "tabulates f i (x # xs) = (x = f i \<and> tabulates f (i + 1) xs)"

lemma tabulates_nth: "tabulates f i xs \<Longrightarrow> k < length xs \<Longrightarrow> xs ! k = f (i + word_of_nat k)"
  by (induction f i xs arbitrary: k rule: tabulates.induct)
     (auto simp: nth_Cons ac_simps split: nat.splits)

lemma wCRC_table_tabulates: "tabulates (crc16_shift ^^ 8) 0 wCRC_table"
  by (simp add: wCRC_table_def crc16_shift_def funpow_8)

lemma CRC8_table_tabulates: "tabulates (crc8_shift ^^ 8) 0 CRC8_table"
  by (simp add: CRC8_table_def crc8_shift_def funpow_8)

lemma wCRC_table_length: "length wCRC_table = 256"
  by (simp add: wCRC_table_def)

lemma CRC8_table_length: "length CRC8_table = 256"
  by (simp add: CRC8_table_def)

lemma wCRC_table_nth: "wCRC_table ! unat (c AND 255) = (crc16_shift ^^ 8) (c AND (255 :: u16))"
proof -
  have "unat (c AND 255) \<le> unat (255 :: u16)"
    by (rule word_and_le1 [THEN word_le_nat_alt [THEN iffD1]])
  then have "unat (c AND 255) < length wCRC_table" by (simp add: wCRC_table_length)
  from tabulates_nth [OF wCRC_table_tabulates this] show ?thesis by simp
qed

lemma CRC8_table_nth: "CRC8_table ! unat c = (crc8_shift ^^ 8) (c :: u8)"
proof -
  have "unat c < length CRC8_table" using unsigned_less [of c] by (simp add: CRC8_table_length)
  from tabulates_nth [OF CRC8_table_tabulates this] show ?thesis by simp
qed

section \<open>The loops are polynomial division\<close>

lemma crc16_shift_xor: "crc16_shift (a XOR b) = crc16_shift a XOR crc16_shift b"
  by (auto simp: crc16_shift_def even_xor_iff drop_bit_xor ac_simps)

lemma crc16_shifts_xor: "(crc16_shift ^^ n) (a XOR b) = (crc16_shift ^^ n) a XOR (crc16_shift ^^ n) b"
  by (induction n) (simp_all add: crc16_shift_xor)

lemma crc16_shifts_high: "(\<And>k. k < n \<Longrightarrow> \<not> bit x k) \<Longrightarrow> (crc16_shift ^^ n) x = drop_bit n x"
proof (induction n arbitrary: x)
  case (Suc n)
  have "crc16_shift x = drop_bit 1 x"
    using Suc.prems [of 0] by (simp add: crc16_shift_def bit_0)
  moreover have "(crc16_shift ^^ n) (drop_bit 1 x) = drop_bit n (drop_bit 1 x)"
    using Suc.prems by (intro Suc.IH) (auto simp: bit_drop_bit_eq)
  ultimately show ?case by (simp add: funpow_Suc_right del: funpow.simps)
qed simp

lemma word16_split: "(x :: u16) = push_bit 8 (drop_bit 8 x) XOR (x AND 255)"
proof -
  have m: "(255 :: u16) = mask 8" by (simp add: mask_eq_exp_minus_1)
  show ?thesis unfolding m by (rule bit_word_eqI) (auto simp: bit_simps)
qed

lemma crc16_step_shifts: "crc16_step c b = (crc16_shift ^^ 8) (c XOR ucast b)"
proof -
  let ?x = "c XOR ucast b"
  have "(crc16_shift ^^ 8) (push_bit 8 (drop_bit 8 ?x)) = drop_bit 8 (push_bit 8 (drop_bit 8 ?x))"
    by (rule crc16_shifts_high) (simp add: bit_simps)
  also have "\<dots> = drop_bit 8 c"
    by (rule bit_word_eqI) (auto simp: bit_simps dest: bit_imp_le_length)
  finally have "(crc16_shift ^^ 8) ?x = drop_bit 8 c XOR (crc16_shift ^^ 8) (?x AND 255)"
    by (subst word16_split) (simp only: crc16_shifts_xor)
  then show ?thesis by (simp add: crc16_step_def wCRC_table_nth)
qed

lemma crc16_loop_eq:
  "crc16_loop m n c = (if n \<le> length m then Some (crc16_bits (take n m) c) else None)"
  by (induction m n c rule: crc16_loop.induct) (auto simp: crc16_bits_def crc16_step_shifts)

lemma crc8_loop_eq:
  "crc8_loop m n c = (if n \<le> length m then Some (crc8_bits (take n m) c) else None)"
  by (induction m n c rule: crc8_loop.induct) (auto simp: crc8_bits_def CRC8_table_nth)

lemma get_CRC16_check_sum_in [mem_simps]:
  "n \<le> length m \<Longrightarrow> get_CRC16_check_sum (Some m) n c = Some (crc16_bits (take n m) c)"
  by (simp add: get_CRC16_check_sum_def crc16_loop_eq)

lemma crc16_bits_append: "crc16_bits (xs @ ys) c = crc16_bits ys (crc16_bits xs c)"
  by (simp add: crc16_bits_def)

section \<open>Error detection\<close>

lemma crc16_shift_inject: "crc16_shift a = crc16_shift b \<longleftrightarrow> a = b"
proof
  assume eq: "crc16_shift a = crc16_shift b"
  have top: "bit (crc16_shift x) 15 = odd x" for x
    by (simp add: crc16_shift_def bit_simps) (simp add: impossible_bit)
  from top [of a] top [of b] eq have par: "odd a = odd b" by simp
  with eq have "drop_bit 1 a = drop_bit 1 b"
    by (auto simp: crc16_shift_def word_xor_right_cancel split: if_splits)
  with par show "a = b"
    by (rule drop_bit_1_parity)
qed simp

lemma crc16_shifts_inject: "(crc16_shift ^^ n) a = (crc16_shift ^^ n) b \<longleftrightarrow> a = b"
  by (induction n) (simp_all add: crc16_shift_inject)

lemma crc16_bits_state_inject: "crc16_bits bs a = crc16_bits bs b \<longleftrightarrow> a = b"
  by (induction bs arbitrary: a b) (auto simp: crc16_bits_def crc16_shifts_inject word_xor_right_cancel)


lemma wCRC_table_high_byte: "list_all (\<lambda>x. drop_bit 8 x \<noteq> 0) (tl wCRC_table)"
  by (simp add: wCRC_table_def)

lemma crc16_shifts_high_byte:
  assumes "d \<noteq> 0"
  shows "drop_bit 8 ((crc16_shift ^^ 8) (ucast (d :: u8))) \<noteq> 0"
proof -
  have low: "ucast d AND (255 :: u16) = ucast d"
  proof -
    have m: "(255 :: u16) = mask 8" by (simp add: mask_eq_exp_minus_1)
    show ?thesis unfolding m by (rule bit_word_eqI) (auto simp: bit_simps dest: bit_imp_le_length)
  qed
  have lt: "unat d < 256" by (rule unat_u8_lt)
  from assms have "0 < unat d" by (simp add: unat_gt_0)
  then obtain k where k: "unat d = Suc k" by (cases "unat d") auto
  then have "wCRC_table ! unat d \<in> set (tl wCRC_table)"
    using lt by (simp add: nth_tl [symmetric] wCRC_table_length)
  then have "drop_bit 8 (wCRC_table ! unat d) \<noteq> 0"
    using wCRC_table_high_byte by (auto simp: list_all_iff)
  then show ?thesis using wCRC_table_nth [of "ucast d"] by (simp add: low)
qed

lemma crc16_bits_burst:
  assumes "length bs = 2" "length bs' = 2" "bs \<noteq> bs'"
  shows "crc16_bits bs c \<noteq> crc16_bits bs' c"
proof
  obtain a1 a2 b1 b2 where bs: "bs = [a1, a2]" "bs' = [b1, b2]"
    using assms(1,2) by (auto simp: length_Suc_conv numeral_2_eq_2)
  let ?S = "crc16_shift ^^ 8"
  assume "crc16_bits bs c = crc16_bits bs' c"
  then have "?S (c XOR ucast a1) XOR ucast a2 = ?S (c XOR ucast b1) XOR ucast b2"
    by (simp add: bs crc16_bits_def crc16_shifts_inject)
  then have eq: "?S (c XOR ucast a1) XOR ?S (c XOR ucast b1) = ucast a2 XOR ucast b2"
    by (rule word_xor_exchange)
  have "?S (c XOR ucast a1) XOR ?S (c XOR ucast b1) = ?S ((c XOR ucast a1) XOR (c XOR ucast b1))"
    by (simp only: crc16_shifts_xor)
  also have "(c XOR ucast a1) XOR (c XOR ucast b1) = ucast (a1 XOR b1)"
    by (rule bit_word_eqI) (auto simp: bit_simps)
  finally have S: "?S (ucast (a1 XOR b1)) = ucast a2 XOR ucast b2" using eq by simp
  have "drop_bit 8 (ucast a2 XOR ucast b2 :: u16) = 0"
    by (rule bit_word_eqI) (auto simp: bit_simps dest: bit_imp_le_length)
  with S crc16_shifts_high_byte [of "a1 XOR b1"] have "a1 XOR b1 = 0" by force
  then have a1: "a1 = b1" using word_xor_right_cancel [of a1 b1 b1] by simp
  with eq have "(ucast a2 :: u16) XOR ucast b2 = ucast b2 XOR ucast b2" by simp
  then have "(ucast a2 :: u16) = ucast b2" by (simp only: word_xor_right_cancel)
  then have "a2 = b2" by (metis unat_ucast_u8 word_unat_eq_iff)
  with a1 assms(3) bs show False by simp
qed

lemma crc16_bits_differ:
  assumes "length bs = 2" "length bs' = 2" "bs \<noteq> bs'"
  shows "crc16_bits (xs @ bs @ ys) c \<noteq> crc16_bits (xs @ bs' @ ys) c"
  using crc16_bits_burst [OF assms] by (simp add: crc16_bits_append crc16_bits_state_inject)

lemma crc16_bits_differ_byte:
  assumes "b \<noteq> b'"
  shows "crc16_bits (xs @ b # ys) c \<noteq> crc16_bits (xs @ b' # ys) c"
proof -
  have "crc16_bits [b] d \<noteq> crc16_bits [b'] d" for d
  proof
    assume "crc16_bits [b] d = crc16_bits [b'] d"
    then have "(ucast b :: u16) XOR d = ucast b' XOR d"
      by (simp add: crc16_bits_def crc16_shifts_inject xor.commute)
    then have "b = b'" by (metis unat_ucast_u8 word_unat_eq_iff word_xor_right_cancel)
    with assms show False ..
  qed
  moreover have "crc16_bits (b # ys) d = crc16_bits ys (crc16_bits [b] d)" for b d
    by (simp add: crc16_bits_def)
  ultimately show ?thesis
    by (simp add: crc16_bits_append crc16_bits_state_inject)
qed

lemma split_checksum:
  assumes "2 < n" "n \<le> length m"
  obtains xs a b zs where "m = xs @ a # b # zs" "n = Suc (Suc (length xs))" "xs \<noteq> []"
proof -
  obtain k where k: "n = Suc (Suc k)" "0 < k"
    using assms(1) by (metis add_2_eq_Suc less_iff_Suc_add zero_less_Suc add_Suc_right)
  have "drop k m = m ! k # m ! Suc k # drop n m"
    using assms(2) k by (simp add: Cons_nth_drop_Suc)
  then have "m = take k m @ m ! k # m ! Suc k # drop n m"
    by (metis append_take_drop_id)
  with k assms(2) show ?thesis by (intro that [of "take k m"]) auto
qed

lemma and_255_eq_ucast: "(w :: u16) AND 255 = ucast (b :: u8) \<longleftrightarrow> b = ucast w"
proof -
  have m: "(255 :: u16) = mask 8" by (simp add: mask_eq_exp_minus_1)
  have low: "w AND 255 = ucast (ucast w :: u8)"
    unfolding m by (rule bit_word_eqI) (auto simp: bit_simps)
  show ?thesis by (metis low unat_ucast_u8 word_unat_eq_iff)
qed

lemma append_CRC16_eq:
  assumes "xs \<noteq> []"
  shows "append_CRC16_check_sum (Some (xs @ a # b # zs)) (Suc (Suc (length xs))) =
           Some (Some (xs @ le16 (crc16_bits xs CRC16_INIT) @ zs))"
  using assms
  by (simp add: append_CRC16_check_sum_def get_CRC16_check_sum_in mem_set_def le_bytes_numeral
      list_update_append nth_append)

lemma verify_CRC16_eq:
  assumes "xs \<noteq> []"
  shows "verify_CRC16_check_sum (Some (xs @ a # b # zs)) (Suc (Suc (length xs))) =
           Some (of_bool ([a, b] = le16 (crc16_bits xs CRC16_INIT)))"
  using assms
  by (simp add: verify_CRC16_check_sum_def get_CRC16_check_sum_in mem_get_def le_bytes_numeral
      nth_append and_255_eq_ucast)

lemma append_CRC8_eq:
  assumes "xs \<noteq> []"
  shows "append_CRC8_check_sum (Some (xs @ a # b # zs)) (Suc (Suc (length xs))) =
           Some (Some (xs @ a # crc8_bits (xs @ [a]) CRC8_INIT # zs))"
  using assms
  by (simp add: append_CRC8_check_sum_def get_CRC8_check_sum_def crc8_loop_eq mem_set_def
      list_update_append)

lemma verify_CRC8_eq:
  assumes "xs \<noteq> []"
  shows "verify_CRC8_check_sum (Some (xs @ a # b # zs)) (Suc (Suc (length xs))) =
           Some (of_bool (crc8_bits (xs @ [a]) CRC8_INIT = b))"
  using assms
  by (simp add: verify_CRC8_check_sum_def get_CRC8_check_sum_def crc8_loop_eq mem_get_def nth_append)

section \<open>Codewords\<close>

text \<open>
  A message followed by its little-endian checksum leaves the division register at zero, and
  only its own checksum does. The corruption window of an error is a range of positions.
\<close>

lemma crc16_bits_le16: "crc16_bits (le16 c) c = 0"
proof -
  have "c XOR ucast (ucast c :: u8) = push_bit 8 (drop_bit 8 c)"
    by (rule bit_word_eqI) (auto simp: bit_simps)
  moreover have "(crc16_shift ^^ 8) (push_bit 8 (drop_bit 8 c)) = drop_bit 8 (push_bit 8 (drop_bit 8 c))"
    by (rule crc16_shifts_high) (simp add: bit_simps)
  moreover have "drop_bit 8 (push_bit 8 (drop_bit 8 c)) = ucast (ucast (drop_bit 8 c) :: u8)"
    by (rule bit_word_eqI) (auto simp: bit_simps dest: bit_imp_le_length)
  moreover have "(crc16_shift ^^ n) 0 = 0" for n
    by (induction n) (simp_all add: crc16_shift_def)
  ultimately show ?thesis by (simp add: crc16_bits_def le_bytes_numeral)
qed

lemma crc16_codeword:
  assumes "length t = 2"
  shows "crc16_bits (m @ t) c = 0 \<longleftrightarrow> t = le16 (crc16_bits m c)"
  using crc16_bits_burst [OF assms, of "le16 (crc16_bits m c)"] crc16_bits_le16
  by (metis crc16_bits_append le_bytes_length)

definition differ_within :: "nat \<Rightarrow> nat \<Rightarrow> 'a list \<Rightarrow> 'a list \<Rightarrow> bool" where
  "differ_within i w xs ys \<longleftrightarrow>
     length xs = length ys \<and> (\<forall>j < length xs. j < i \<or> i + w \<le> j \<longrightarrow> xs ! j = ys ! j)"

lemma differ_within_length: "differ_within i w xs ys \<Longrightarrow> length xs = length ys"
  by (simp add: differ_within_def)

lemma differ_within_take: "differ_within i w xs ys \<Longrightarrow> differ_within i w (take n xs) (take n ys)"
  by (simp add: differ_within_def)

lemma differ_within_drop:
  "differ_within i w xs ys \<Longrightarrow> differ_within (i - d) w (drop d xs) (drop d ys)"
  by (auto simp: differ_within_def)

lemma crc16_detects_within:
  assumes diff: "differ_within i 2 xs ys" and crc: "crc16_bits xs c = crc16_bits ys c"
  shows "xs = ys"
proof -
  have len: "length xs = length ys" using diff by (rule differ_within_length)
  have pre: "take i xs = take i ys"
    using diff by (intro nth_equalityI) (auto simp: differ_within_def)
  have post: "drop (i + 2) xs = drop (i + 2) ys"
    using diff by (intro nth_equalityI) (auto simp: differ_within_def)
  have split: "zs = take i zs @ take 2 (drop i zs) @ drop (i + 2) zs" for zs :: "u8 list"
    by (metis append_take_drop_id drop_drop add.commute)
  define bs bs' where "bs = take 2 (drop i xs)" and "bs' = take 2 (drop i ys)"
  have xs: "xs = take i xs @ bs @ drop (i + 2) xs" and ys: "ys = take i xs @ bs' @ drop (i + 2) xs"
    using split [of xs] split [of ys] pre post by (simp_all add: bs_def bs'_def)
  have "length bs = length bs'" "length bs \<le> 2" using len by (simp_all add: bs_def bs'_def)
  then consider "bs = []" "bs' = []" | b b' where "bs = [b]" "bs' = [b']" | "length bs = 2" "length bs' = 2"
    by (cases bs; cases bs') (auto simp: le_Suc_eq numeral_2_eq_2)
  then show ?thesis
  proof cases
    case 1
    then show ?thesis using xs ys by metis
  next
    case 2
    then show ?thesis
      using crc crc16_bits_differ_byte [of b b' "take i xs" "drop (i + 2) xs" c] xs ys
      by (metis append_Cons append_Nil)
  next
    case 3
    then show ?thesis using crc crc16_bits_differ [of bs bs'] xs ys by metis
  qed
qed

section \<open>Properties\<close>

text \<open>C40. The table-driven CRC16 of the link is bitwise division by the reflected polynomial
  \<open>x^16 + x^12 + x^5 + 1\<close>, for every message, length and initial value; it reads outside the
  message exactly when the length exceeds it.\<close>

theorem crc16_is_division:
  "get_CRC16_check_sum (Some m) n c = (if n \<le> length m then Some (crc16_bits (take n m) c) else None)"
  by (simp add: get_CRC16_check_sum_def crc16_loop_eq)

text \<open>The table-driven CRC8 is bitwise division by \<open>x^8 + x^5 + x^4 + 1\<close>, the generator
  polynomial the source names, in reflected form.\<close>

theorem crc8_is_division:
  "get_CRC8_check_sum m n c = (if n \<le> length m then Some (crc8_bits (take n m) c) else None)"
  by (simp add: get_CRC8_check_sum_def crc8_loop_eq)

text \<open>Two messages that agree outside two adjacent bytes and differ there have different
  CRC16 checksums, whatever surrounds the corrupted bytes: the checksum detects every burst of
  up to sixteen bits that lies within two bytes.\<close>

theorem crc16_detects_burst:
  assumes "length bs = 2" and "length bs' = 2" and "bs \<noteq> bs'"
  shows "get_CRC16_check_sum (Some (xs @ bs @ ys)) (length (xs @ bs @ ys)) c \<noteq>
         get_CRC16_check_sum (Some (xs @ bs' @ ys)) (length (xs @ bs' @ ys)) c"
  using crc16_bits_differ [OF assms] assms by (simp add: get_CRC16_check_sum_in)

theorem crc16_detects_burst_witness:
  "get_CRC16_check_sum (Some [1, 2, 3, 4]) (length [1, 2, 3, 4 :: u8]) 0xFFFF \<noteq>
   get_CRC16_check_sum (Some [1, 7, 9, 4]) (length [1, 7, 9, 4 :: u8]) 0xFFFF"
  using crc16_detects_burst [of "[2, 3]" "[7, 9]" "[1]" "[4]" "0xFFFF"] by simp

text \<open>Appending the CRC16 to a message of more than two bytes changes only the last two
  bytes of the message, stays inside the buffer, and the result verifies.\<close>

theorem append_verify_CRC16:
  assumes "2 < n" and "n \<le> length m"
  shows "\<exists>m'. append_CRC16_check_sum (Some m) n = Some (Some m') \<and> length m' = length m \<and>
           take (n - 2) m' = take (n - 2) m \<and> drop n m' = drop n m \<and>
           verify_CRC16_check_sum (Some m') n = Some 1"
proof -
  from assms obtain xs a b zs where m: "m = xs @ a # b # zs" "n = Suc (Suc (length xs))" "xs \<noteq> []"
    by (rule split_checksum)
  obtain a' b' where "le16 (crc16_bits xs CRC16_INIT) = [a', b']"
    by (simp add: le_bytes_numeral)
  with m show ?thesis by (simp add: append_CRC16_eq verify_CRC16_eq)
qed

theorem append_verify_CRC16_witness:
  "\<exists>m'. append_CRC16_check_sum (Some [1, 2, 3, 0, 0]) 5 = Some (Some m') \<and>
     take 3 m' = [1, 2, 3] \<and> verify_CRC16_check_sum (Some m') 5 = Some 1"
  using append_verify_CRC16 [of 5 "[1, 2, 3, 0, 0]"] by auto

text \<open>Appending the CRC8 to a message of more than two bytes changes only its last byte and
  the result verifies.\<close>

theorem append_verify_CRC8:
  assumes "2 < n" and "n \<le> length m"
  shows "\<exists>m'. append_CRC8_check_sum (Some m) n = Some (Some m') \<and> length m' = length m \<and>
           take (n - 1) m' = take (n - 1) m \<and> drop n m' = drop n m \<and>
           verify_CRC8_check_sum (Some m') n = Some 1"
proof -
  from assms obtain xs a b zs where "m = xs @ a # b # zs" "n = Suc (Suc (length xs))" "xs \<noteq> []"
    by (rule split_checksum)
  then show ?thesis by (simp add: append_CRC8_eq verify_CRC8_eq)
qed

theorem append_verify_CRC8_witness:
  "\<exists>m'. append_CRC8_check_sum (Some [1, 2, 3, 0]) 4 = Some (Some m') \<and>
     take 3 m' = [1, 2, 3] \<and> verify_CRC8_check_sum (Some m') 4 = Some 1"
  using append_verify_CRC8 [of 4 "[1, 2, 3, 0]"] by auto

end
