(* ===== verification/Platform.thy ===== *)
theory Platform
  imports Dm02_Prelude
begin

text \<open>
  The platform layer of the link (\<^verbatim>\<open>core/platform.h\<close>, implemented by
  \<^verbatim>\<open>impl/platform_posix.cpp\<close>): the memory and string primitives as checked operations on byte
  lists, and the millisecond tick.
\<close>

section \<open>Memory primitives\<close>

text \<open>\<^verbatim>\<open>memcpy\<close> into \<open>dst\<close> from the first \<open>n\<close> bytes of \<open>src\<close>.\<close>

definition platform_memcpy :: "u8 list \<Rightarrow> u8 list \<Rightarrow> nat \<Rightarrow> u8 list option" where
  "platform_memcpy dst src n = do { bs \<leftarrow> mem_read src 0 n; mem_write dst 0 bs }"

definition platform_memset :: "u8 list \<Rightarrow> u8 \<Rightarrow> nat \<Rightarrow> u8 list option" where
  "platform_memset s c n = mem_write s 0 (replicate n c)"

text \<open>
  \<^verbatim>\<open>memmove\<close> inside one object, from offset \<open>src\<close> to offset \<open>dst\<close>; the regions may overlap.
\<close>

definition platform_memmove :: "u8 list \<Rightarrow> nat \<Rightarrow> nat \<Rightarrow> nat \<Rightarrow> u8 list option" where
  "platform_memmove m dst src n = do { bs \<leftarrow> mem_read m src n; mem_write m dst bs }"

text \<open>Only the sign of \<^verbatim>\<open>memcmp\<close> is specified.\<close>

fun bytes_cmp :: "u8 list \<Rightarrow> u8 list \<Rightarrow> int" where
  "bytes_cmp (a # as) (b # bs) = (if a = b then bytes_cmp as bs else if a < b then - 1 else 1)"
| "bytes_cmp _ _ = 0"

definition platform_memcmp :: "u8 list \<Rightarrow> u8 list \<Rightarrow> nat \<Rightarrow> int option" where
  "platform_memcmp s1 s2 n = do { a \<leftarrow> mem_read s1 0 n; b \<leftarrow> mem_read s2 0 n; Some (bytes_cmp a b) }"

section \<open>Strings\<close>

text \<open>
  A C string is a byte object with a terminating zero byte; a null pointer counts as the empty
  string, as the implementation substitutes one.
\<close>

fun c_string :: "u8 list \<Rightarrow> u8 list option" where
  "c_string [] = None"
| "c_string (b # bs) = (if b = 0 then Some [] else map_option ((#) b) (c_string bs))"

definition string_or_empty :: "u8 list option \<Rightarrow> u8 list" where
  "string_or_empty s = (case s of None \<Rightarrow> [0] | Some m \<Rightarrow> m)"

definition platform_strlen :: "u8 list option \<Rightarrow> u32 option" where
  "platform_strlen s = map_option (\<lambda>cs. word_of_nat (length cs)) (c_string (string_or_empty s))"

definition platform_strcpy :: "u8 list \<Rightarrow> u8 list option \<Rightarrow> u8 list option" where
  "platform_strcpy dst src = do { cs \<leftarrow> c_string (string_or_empty src); mem_write dst 0 (cs @ [0]) }"

definition platform_strcmp :: "u8 list option \<Rightarrow> u8 list option \<Rightarrow> int option" where
  "platform_strcmp s1 s2 = do {
     a \<leftarrow> c_string (string_or_empty s1);
     b \<leftarrow> c_string (string_or_empty s2);
     Some (bytes_cmp (a @ [0]) (b @ [0]))
   }"

section \<open>Time\<close>

text \<open>The tick is the monotonic time \<open>(tv_sec, tv_nsec)\<close> in milliseconds, truncated to 32 bits;
  the delay is the time specification passed to \<^verbatim>\<open>nanosleep\<close>.\<close>

definition platform_get_tick_ms :: "nat \<Rightarrow> nat \<Rightarrow> u32" where
  "platform_get_tick_ms tv_sec tv_nsec = word_of_nat (tv_sec * 1000 + tv_nsec div 1000000)"

definition platform_delay_ms :: "u32 \<Rightarrow> nat \<times> nat" where
  "platform_delay_ms ms = (unat ms div 1000, (unat ms mod 1000) * 1000000)"

section \<open>Laws\<close>

lemma platform_memcpy_in [mem_simps]:
  "n \<le> length src \<Longrightarrow> n \<le> length dst \<Longrightarrow>
     platform_memcpy dst src n = Some (take n src @ drop n dst)"
  by (simp add: platform_memcpy_def mem_simps)

lemma platform_memmove_front [mem_simps]:
  "s + n \<le> length m \<Longrightarrow> platform_memmove m 0 s n = Some (take n (drop s m) @ drop n m)"
  by (simp add: platform_memmove_def mem_simps)

lemma platform_memset_in [mem_simps]:
  "n \<le> length s \<Longrightarrow> platform_memset s c n = Some (replicate n c @ drop n s)"
  by (simp add: platform_memset_def mem_simps)

lemma bytes_cmp_eq: "length a = length b \<Longrightarrow> bytes_cmp a b = 0 \<longleftrightarrow> a = b"
  by (induction a b rule: bytes_cmp.induct) auto

lemma c_string_append: "0 \<notin> set cs \<Longrightarrow> c_string (cs @ 0 # zs) = Some cs"
  by (induction cs) auto

lemma c_string_no_zero: "c_string m = Some cs \<Longrightarrow> 0 \<notin> set cs"
  by (induction m arbitrary: cs) (auto split: if_splits)

lemma bytes_cmp_strings:
  "0 \<notin> set a \<Longrightarrow> 0 \<notin> set b \<Longrightarrow> bytes_cmp (a @ [0]) (b @ [0]) = 0 \<longleftrightarrow> a = b"
proof (induction a arbitrary: b)
  case Nil
  then show ?case by (cases b) auto
next
  case (Cons x a)
  then show ?case by (cases b) auto
qed

text \<open>A copied string reads back, and compares equal to its source.\<close>

lemma strcpy_strcmp:
  assumes "platform_strcpy dst src = Some dst'"
  shows "platform_strcmp (Some dst') src = Some 0"
proof -
  from assms obtain cs where cs: "c_string (string_or_empty src) = Some cs"
    and w: "mem_write dst 0 (cs @ [0]) = Some dst'"
    by (auto simp: platform_strcpy_def bind_Some_iff)
  from cs have nz: "0 \<notin> set cs" by (rule c_string_no_zero)
  from w have "dst' = cs @ 0 # drop (Suc (length cs)) dst"
    by (auto simp: mem_write_def split: if_splits)
  then have "c_string (string_or_empty (Some dst')) = Some cs"
    using nz by (simp add: string_or_empty_def c_string_append)
  with cs nz show ?thesis by (simp add: platform_strcmp_def bytes_cmp_strings)
qed

end
