(* ===== verification/Uproto_Frame.thy ===== *)
theory Uproto_Frame
  imports Crc Platform
begin

text \<open>
  The frame layer of \<^verbatim>\<open>core/uproto.c\<close>: \<^verbatim>\<open>uproto_encode_frame\<close> and \<^verbatim>\<open>uproto_decode_frame\<close>
  on checked memory, against the wire format \<open>frame_image\<close>. The encoder produces the image and
  nothing outside it; the decoder accepts exactly the images, and no frame with a corruption
  confined to two adjacent bytes.
\<close>

section \<open>Constants and data\<close>

abbreviation UPROTO_MAX_PAYLOAD :: nat where "UPROTO_MAX_PAYLOAD \<equiv> 256"
abbreviation UPROTO_MAX_TRANSACTIONS :: nat where "UPROTO_MAX_TRANSACTIONS \<equiv> 8"
abbreviation UPROTO_RX_BUFFER_SIZE :: nat where "UPROTO_RX_BUFFER_SIZE \<equiv> 512"
abbreviation UPROTO_MAX_HANDLERS :: nat where "UPROTO_MAX_HANDLERS \<equiv> 16"

abbreviation UPROTO_MAGIC_0 :: u8 where "UPROTO_MAGIC_0 \<equiv> 0xAA"
abbreviation UPROTO_MAGIC_1 :: u8 where "UPROTO_MAGIC_1 \<equiv> 0x55"
abbreviation UPROTO_VERSION :: u8 where "UPROTO_VERSION \<equiv> 0x01"
abbreviation UPROTO_HEADER_SIZE :: nat where "UPROTO_HEADER_SIZE \<equiv> 16"

abbreviation UPROTO_FLAG_REQUEST :: u8 where "UPROTO_FLAG_REQUEST \<equiv> 0x01"
abbreviation UPROTO_FLAG_RESPONSE :: u8 where "UPROTO_FLAG_RESPONSE \<equiv> 0x02"
abbreviation UPROTO_FLAG_ACK :: u8 where "UPROTO_FLAG_ACK \<equiv> 0x04"
abbreviation UPROTO_FLAG_FRAG :: u8 where "UPROTO_FLAG_FRAG \<equiv> 0x10"
abbreviation UPROTO_FLAG_LAST_FRAG :: u8 where "UPROTO_FLAG_LAST_FRAG \<equiv> 0x20"

abbreviation UPROTO_MSG_HELLO :: u8 where "UPROTO_MSG_HELLO \<equiv> 0x01"
abbreviation UPROTO_MSG_HELLO_ACK :: u8 where "UPROTO_MSG_HELLO_ACK \<equiv> 0x02"
abbreviation UPROTO_MSG_PING :: u8 where "UPROTO_MSG_PING \<equiv> 0x03"
abbreviation UPROTO_MSG_PONG :: u8 where "UPROTO_MSG_PONG \<equiv> 0x04"
abbreviation UPROTO_MSG_ERROR :: u8 where "UPROTO_MSG_ERROR \<equiv> 0x0F"
abbreviation UPROTO_MSG_CONTROL :: u8 where "UPROTO_MSG_CONTROL \<equiv> 0x11"
abbreviation UPROTO_MSG_USER_BASE :: u8 where "UPROTO_MSG_USER_BASE \<equiv> 0x10"

datatype uproto_error =
    UPROTO_OK
  | UPROTO_ERR_INVALID_PARAM
  | UPROTO_ERR_NO_MEMORY
  | UPROTO_ERR_TIMEOUT
  | UPROTO_ERR_CRC
  | UPROTO_ERR_LENGTH
  | UPROTO_ERR_VERSION
  | UPROTO_ERR_NO_HANDLER
  | UPROTO_ERR_TX_FULL
  | UPROTO_ERR_BUSY

record uproto_frame =
  fr_magic :: "u8 list"
  fr_version :: u8
  fr_flags :: u8
  fr_type :: u8
  fr_reserved :: u8
  fr_txn_id :: u16
  fr_seq :: u16
  fr_ack :: u16
  fr_len :: u16
  fr_hdr_crc :: u16
  fr_payload :: "u8 list"
  fr_frame_crc :: u16

section \<open>Encoder and decoder\<close>

definition crc16_ccitt :: "u8 list \<Rightarrow> nat \<Rightarrow> u16 option" where
  "crc16_ccitt data len = get_CRC16_check_sum (Some data) len 0xFFFF"

text \<open>\<^verbatim>\<open>write_u16_le(&out[pos], v); pos += 2;\<close>\<close>

definition emit_u16 :: "u8 list \<times> nat \<Rightarrow> u16 \<Rightarrow> (u8 list \<times> nat) option" where
  "emit_u16 s v = (case s of (out, pos) \<Rightarrow> do { out' \<leftarrow> write_u16_le out pos v; Some (out', pos + 2) })"

text \<open>\<^verbatim>\<open>platform_memcpy(&out[pos], payload, n); pos += n;\<close>\<close>

definition emit_bytes :: "u8 list \<times> nat \<Rightarrow> u8 list \<Rightarrow> nat \<Rightarrow> (u8 list \<times> nat) option" where
  "emit_bytes s src n =
     (case s of (out, pos) \<Rightarrow> do {
        tail \<leftarrow> platform_memcpy (drop pos out) src n;
        Some (take pos out @ tail, pos + n) })"

definition uproto_encode_frame ::
  "u8 list \<Rightarrow> u8 \<Rightarrow> u8 \<Rightarrow> u16 \<Rightarrow> u16 \<Rightarrow> u16 \<Rightarrow> u8 list option \<Rightarrow> nat \<Rightarrow> (u8 list \<times> nat) option" where
  "uproto_encode_frame out flags type txn_id seq ack payload payload_len = do {
     s \<leftarrow> emit8 (out, 0) UPROTO_MAGIC_0;
     s \<leftarrow> emit8 s UPROTO_MAGIC_1;
     s \<leftarrow> emit8 s UPROTO_VERSION;
     s \<leftarrow> emit8 s flags;
     s \<leftarrow> emit8 s type;
     s \<leftarrow> emit8 s 0;
     s \<leftarrow> emit_u16 s txn_id;
     s \<leftarrow> emit_u16 s seq;
     s \<leftarrow> emit_u16 s ack;
     s \<leftarrow> emit_u16 s (word_of_nat payload_len);
     hdr_crc \<leftarrow> crc16_ccitt (drop 2 (fst s)) 12;
     s \<leftarrow> emit_u16 s hdr_crc;
     s \<leftarrow> (case payload of
            Some p \<Rightarrow> if payload_len > 0 then emit_bytes s p payload_len else Some s
          | None \<Rightarrow> Some s);
     frame_crc \<leftarrow> crc16_ccitt (drop 2 (fst s)) (snd s - 2);
     s \<leftarrow> emit_u16 s frame_crc;
     Some s
   }"

definition uproto_decode_frame ::
  "u8 list \<Rightarrow> nat \<Rightarrow> uproto_frame \<Rightarrow> (uproto_error \<times> uproto_frame) option" where
  "uproto_decode_frame data len frame =
     (if len < UPROTO_HEADER_SIZE + 2 then Some (UPROTO_ERR_LENGTH, frame) else do {
       m0 \<leftarrow> mem_get data 0;
       m1 \<leftarrow> mem_get data 1;
       if m0 \<noteq> UPROTO_MAGIC_0 \<or> m1 \<noteq> UPROTO_MAGIC_1 then Some (UPROTO_ERR_LENGTH, frame) else do {
       version \<leftarrow> mem_get data 2;
       flags \<leftarrow> mem_get data 3;
       type \<leftarrow> mem_get data 4;
       reserved \<leftarrow> mem_get data 5;
       txn_id \<leftarrow> read_u16_le data 6;
       seq \<leftarrow> read_u16_le data 8;
       ack \<leftarrow> read_u16_le data 10;
       flen \<leftarrow> read_u16_le data 12;
       let frame = frame\<lparr>fr_version := version, fr_flags := flags, fr_type := type,
         fr_reserved := reserved, fr_txn_id := txn_id, fr_seq := seq, fr_ack := ack, fr_len := flen\<rparr>;
       hdr_crc_rx \<leftarrow> read_u16_le data 14;
       hdr_crc_calc \<leftarrow> crc16_ccitt (drop 2 data) 12;
       if hdr_crc_rx \<noteq> hdr_crc_calc then Some (UPROTO_ERR_CRC, frame)
       else if unat flen > UPROTO_MAX_PAYLOAD then Some (UPROTO_ERR_LENGTH, frame)
       else if len < UPROTO_HEADER_SIZE + unat flen + 2 then Some (UPROTO_ERR_LENGTH, frame)
       else do {
         payload \<leftarrow> (if flen > 0
           then platform_memcpy (fr_payload frame) (drop 16 data) (unat flen)
           else Some (fr_payload frame));
         let frame = frame\<lparr>fr_payload := payload\<rparr>;
         frame_crc_rx \<leftarrow> read_u16_le data (16 + unat flen);
         frame_crc_calc \<leftarrow> crc16_ccitt (drop 2 data) (UPROTO_HEADER_SIZE - 2 + unat flen);
         if frame_crc_rx \<noteq> frame_crc_calc then Some (UPROTO_ERR_CRC, frame)
         else Some (UPROTO_OK, frame)
       }}})"

text \<open>
  The receiver's local frame is not initialised; \<open>blank_frame\<close> stands for it, and no byte of it
  reaches a handler.
\<close>

definition blank_frame :: uproto_frame where
  "blank_frame = \<lparr>fr_magic = [0, 0], fr_version = 0, fr_flags = 0, fr_type = 0, fr_reserved = 0,
     fr_txn_id = 0, fr_seq = 0, fr_ack = 0, fr_len = 0, fr_hdr_crc = 0,
     fr_payload = replicate 256 0, fr_frame_crc = 0\<rparr>"

section \<open>The wire format\<close>

text \<open>
  The image of a frame, its version and reserved bytes as parameters: the encoder sends 1 and 0,
  the decoder looks at neither.
\<close>

definition frame_head :: "u8 \<Rightarrow> u8 \<Rightarrow> u8 \<Rightarrow> u8 \<Rightarrow> u16 \<Rightarrow> u16 \<Rightarrow> u16 \<Rightarrow> u16 \<Rightarrow> u8 list" where
  "frame_head ver flags type rsv txn_id seq ack len =
     [UPROTO_MAGIC_0, UPROTO_MAGIC_1, ver, flags, type, rsv] @ le16 txn_id @ le16 seq @ le16 ack @ le16 len"

definition with_crc :: "u8 list \<Rightarrow> u8 list" where
  "with_crc bs = bs @ le16 (crc16_bits (drop 2 bs) 0xFFFF)"

definition frame_image ::
  "u8 \<Rightarrow> u8 \<Rightarrow> u8 \<Rightarrow> u8 \<Rightarrow> u16 \<Rightarrow> u16 \<Rightarrow> u16 \<Rightarrow> u16 \<Rightarrow> u8 list \<Rightarrow> u8 list" where
  "frame_image ver flags type rsv txn_id seq ack len pl =
     with_crc (with_crc (frame_head ver flags type rsv txn_id seq ack len) @ pl)"

lemma frame_head_length [simp, wire_lengths]:
  "length (frame_head ver flags type rsv txn_id seq ack len) = 14"
  by (simp add: frame_head_def)

lemma with_crc_length [simp, wire_lengths]: "length (with_crc bs) = length bs + 2"
  by (simp add: with_crc_def)

lemma frame_image_length [simp, wire_lengths]:
  "length (frame_image ver flags type rsv txn_id seq ack len pl) = 18 + length pl"
  by (simp add: frame_image_def)

section \<open>The encoder writes the image\<close>

lemma emit_u16_cursor [mem_simps]:
  "length bs + 2 \<le> length out \<Longrightarrow> emit_u16 (cursor out bs) v = Some (cursor out (bs @ le16 v))"
  using up16.write_cursor [of bs out v] by (simp add: emit_u16_def cursor_def)

lemma emit_bytes_cursor [mem_simps]:
  "length bs + n \<le> length out \<Longrightarrow> n \<le> length p \<Longrightarrow>
     emit_bytes (cursor out bs) p n = Some (cursor out (bs @ take n p))"
  by (simp add: emit_bytes_def cursor_def mem_simps add.commute)

lemma crc16_ccitt_cursor [mem_simps]:
  "2 \<le> length bs \<Longrightarrow> n = length bs - 2 \<Longrightarrow> length bs \<le> length out \<Longrightarrow>
     crc16_ccitt (drop 2 (fst (cursor out bs))) n = Some (crc16_bits (drop 2 bs) 0xFFFF)"
  by (simp add: crc16_ccitt_def cursor_def get_CRC16_check_sum_in)

lemma emit_crc:
  "length bs + 2 \<le> length out \<Longrightarrow>
     emit_u16 (cursor out bs) (crc16_bits (drop 2 bs) 0xFFFF) = Some (cursor out (with_crc bs))"
  by (simp add: emit_u16_cursor with_crc_def)

lemma encode_head:
  assumes "14 \<le> length out"
  shows "do {
     s \<leftarrow> emit8 (out, 0) UPROTO_MAGIC_0; s \<leftarrow> emit8 s UPROTO_MAGIC_1; s \<leftarrow> emit8 s ver;
     s \<leftarrow> emit8 s flags; s \<leftarrow> emit8 s type; s \<leftarrow> emit8 s rsv; s \<leftarrow> emit_u16 s txn_id;
     s \<leftarrow> emit_u16 s seq; s \<leftarrow> emit_u16 s ack; s \<leftarrow> emit_u16 s len; f s
   } = f (cursor out (frame_head ver flags type rsv txn_id seq ack len))"
proof -
  have "out \<noteq> []" using assms by auto
  with assms show ?thesis by (simp add: cursor_start mem_simps frame_head_def)
qed

text \<open>The bytes the encoder copies: none without a payload pointer.\<close>

definition sent_payload :: "u8 list option \<Rightarrow> nat \<Rightarrow> u8 list" where
  "sent_payload payload n = (case payload of None \<Rightarrow> [] | Some p \<Rightarrow> take n p)"

lemma encode_frame_cursor:
  assumes room: "18 + n \<le> length out" and src: "\<And>p. payload = Some p \<Longrightarrow> n \<le> length p"
  shows "uproto_encode_frame out flags type txn_id seq ack payload n =
    Some (cursor out (frame_image UPROTO_VERSION flags type 0 txn_id seq ack (word_of_nat n)
      (sent_payload payload n)))"
proof -
  let ?h = "frame_head UPROTO_VERSION flags type 0 txn_id seq ack (word_of_nat n)"
  let ?hc = "with_crc ?h"
  let ?pl = "sent_payload payload n"
  have pl: "length ?pl \<le> n" by (simp add: sent_payload_def split: option.splits)
  have crc: "crc16_ccitt (drop 2 (fst (cursor out ?h))) 12 = Some (crc16_bits (drop 2 ?h) 0xFFFF)"
    using room by (intro crc16_ccitt_cursor) simp_all
  have hdr: "emit_u16 (cursor out ?h) (crc16_bits (drop 2 ?h) 0xFFFF) = Some (cursor out ?hc)"
    using room by (intro emit_crc) simp
  have copy: "(case payload of
        Some p \<Rightarrow> if n > 0 then emit_bytes (cursor out ?hc) p n else Some (cursor out ?hc)
      | None \<Rightarrow> Some (cursor out ?hc)) = Some (cursor out (?hc @ ?pl))"
    using room src by (auto simp: sent_payload_def emit_bytes_cursor split: option.splits)
  have crc2: "crc16_ccitt (drop 2 (fst (cursor out (?hc @ ?pl)))) (snd (cursor out (?hc @ ?pl)) - 2)
      = Some (crc16_bits (drop 2 (?hc @ ?pl)) 0xFFFF)"
    using room pl by (intro crc16_ccitt_cursor) (simp_all add: cursor_def)
  have tail: "emit_u16 (cursor out (?hc @ ?pl)) (crc16_bits (drop 2 (?hc @ ?pl)) 0xFFFF) =
      Some (cursor out (with_crc (?hc @ ?pl)))"
    using room pl by (intro emit_crc) simp
  show ?thesis
    unfolding uproto_encode_frame_def
    using room by (simp only: encode_head crc hdr copy crc2 tail Option.bind.simps frame_image_def) 
qed

section \<open>The decoder accepts the images\<close>

lemma crc16_ccitt_in [mem_simps]:
  "n \<le> length m \<Longrightarrow> crc16_ccitt m n = Some (crc16_bits (take n m) 0xFFFF)"
  by (simp add: crc16_ccitt_def get_CRC16_check_sum_in)

lemma decode_defined:
  assumes "len \<le> length data" and "length (fr_payload frame) = UPROTO_MAX_PAYLOAD"
  shows "\<exists>err f. uproto_decode_frame data len frame = Some (err, f) \<and>
           length (fr_payload f) = UPROTO_MAX_PAYLOAD"
proof (cases "len < 18")
  case True
  then show ?thesis using assms by (simp add: uproto_decode_frame_def)
next
  case False
  with assms have d: "18 \<le> length data" "0 < length data" by (simp_all del: length_greater_0_conv)
  have rd: "\<exists>v. read_u16_le data i = Some v" if "i + 2 \<le> length data" for i
    using up16.read_defined [of i data] that by simp
  from d rd [of 6] rd [of 8] rd [of 10] rd [of 12] rd [of 14]
  obtain t s a n h where r: "read_u16_le data 6 = Some t" "read_u16_le data 8 = Some s"
    "read_u16_le data 10 = Some a" "read_u16_le data 12 = Some n" "read_u16_le data 14 = Some h"
    by auto
  show ?thesis
  proof (cases "unat n > 256 \<or> len < 18 + unat n")
    case True
    then show ?thesis using False d r assms
      by (auto simp: uproto_decode_frame_def mem_simps Let_def)
  next
    case fit: False
    with assms obtain c where c: "read_u16_le data (16 + unat n) = Some c"
      using rd [of "16 + unat n"] by auto
    from fit False d r c assms show ?thesis
      by (auto simp: uproto_decode_frame_def mem_simps Let_def platform_memcpy_in)
  qed
qed

lemma frame_image_split:
  "frame_image ver flags type rsv txn_id seq ack len pl =
     (let h = frame_head ver flags type rsv txn_id seq ack len;
          hc = crc16_bits (drop 2 h) 0xFFFF
      in h @ le16 hc @ pl @ le16 (crc16_bits (drop 2 (h @ le16 hc @ pl)) 0xFFFF))"
  by (simp add: frame_image_def with_crc_def Let_def)

text \<open>The decoder on a buffer that starts with an intact header.\<close>

lemma decode_head:
  assumes len: "18 \<le> len" and data: "data = with_crc (frame_head ver flags type rsv txn_id seq ack n) @ rest"
  shows "uproto_decode_frame data len frame =
    (let frame = frame\<lparr>fr_version := ver, fr_flags := flags, fr_type := type, fr_reserved := rsv,
           fr_txn_id := txn_id, fr_seq := seq, fr_ack := ack, fr_len := n\<rparr>
     in if unat n > UPROTO_MAX_PAYLOAD \<or> len < 18 + unat n then Some (UPROTO_ERR_LENGTH, frame)
        else do {
          payload \<leftarrow> (if n > 0 then platform_memcpy (fr_payload frame) (drop 16 data) (unat n)
                     else Some (fr_payload frame));
          frame_crc_rx \<leftarrow> read_u16_le data (16 + unat n);
          frame_crc_calc \<leftarrow> crc16_ccitt (drop 2 data) (14 + unat n);
          if frame_crc_rx \<noteq> frame_crc_calc then Some (UPROTO_ERR_CRC, frame\<lparr>fr_payload := payload\<rparr>)
          else Some (UPROTO_OK, frame\<lparr>fr_payload := payload\<rparr>)
        })"
proof -
  let ?h = "frame_head ver flags type rsv txn_id seq ack n"
  define hc where "hc = crc16_bits (drop 2 ?h) 0xFFFF"
  have split: "data = ?h @ le16 hc @ rest" by (simp add: data with_crc_def hc_def)
  then have hd: "data = [0xAA, 0x55, ver, flags, type, rsv] @ le16 txn_id @ le16 seq @ le16 ack @
      le16 n @ le16 hc @ rest"
    by (simp add: frame_head_def)
  have b: "mem_get data 0 = Some 0xAA" "mem_get data 1 = Some 0x55" "mem_get data 2 = Some ver"
    "mem_get data 3 = Some flags" "mem_get data 4 = Some type" "mem_get data 5 = Some rsv"
    by (simp_all add: hd mem_get_def)
  have r: "read_u16_le data 6 = Some txn_id" "read_u16_le data 8 = Some seq"
    "read_u16_le data 10 = Some ack" "read_u16_le data 12 = Some n" "read_u16_le data 14 = Some hc"
    by (rule up16.read_at; simp add: hd)+
  have c: "crc16_ccitt (drop 2 data) 12 = Some hc"
    by (simp add: crc16_ccitt_in split hc_def)
  show ?thesis
    using len
    by (simp add: uproto_decode_frame_def b r c Let_def del: One_nat_def split del: if_split)
      (simp add: Let_def)
qed

lemma decode_image:
  assumes "length pl \<le> UPROTO_MAX_PAYLOAD" and "18 + length pl \<le> len"
    and "length (fr_payload frame) = UPROTO_MAX_PAYLOAD" and n: "n = word_of_nat (length pl)"
  shows "uproto_decode_frame (frame_image ver flags type rsv txn_id seq ack n pl @ rest) len frame =
    Some (UPROTO_OK, frame\<lparr>fr_version := ver, fr_flags := flags, fr_type := type,
         fr_reserved := rsv, fr_txn_id := txn_id, fr_seq := seq, fr_ack := ack, fr_len := n,
         fr_payload := pl @ drop (length pl) (fr_payload frame)\<rparr>)"
proof -
  let ?hc = "with_crc (frame_head ver flags type rsv txn_id seq ack n)"
  define fc where "fc = crc16_bits (drop 2 (?hc @ pl)) 0xFFFF"
  define data where "data = ?hc @ pl @ le16 fc @ rest"
  have img: "frame_image ver flags type rsv txn_id seq ack n pl @ rest = data"
    by (simp add: frame_image_def with_crc_def [of "?hc @ pl"] data_def fc_def)
  have un: "unat n = length pl"
    using assms(1) by (simp add: n unat_of_nat)
  have n0: "n > 0 \<longleftrightarrow> pl \<noteq> []"
    by (metis un length_0_conv unat_0 unat_eq_zero word_neq_0_conv)
  have p: "(if n > 0 then platform_memcpy (fr_payload frame) (drop 16 data) (length pl)
      else Some (fr_payload frame)) = Some (pl @ drop (length pl) (fr_payload frame))"
    using assms(1,3) n0 by (auto simp: platform_memcpy_in data_def)
  have r: "read_u16_le data (16 + length pl) = Some fc"
    using up16.read_image [of "?hc @ pl" "16 + length pl" fc rest] by (simp add: data_def)
  have c: "crc16_ccitt (drop 2 data) (14 + length pl) = Some fc"
    by (simp add: crc16_ccitt_in data_def fc_def)
  show ?thesis
    unfolding img
    by (subst decode_head [OF _ data_def]) (use assms(1,2) p in \<open>simp_all add: un r c Let_def cong: if_cong\<close>)
qed

section \<open>Soundness of the decoder\<close>

lemma read_u16_le_bytes:
  "read_u16_le data i = Some v \<Longrightarrow> mem_read data i 2 = Some (le16 v)"
  by (rule up16.read_value)

lemma platform_memcpy_Some:
  "platform_memcpy dst src n = Some d \<Longrightarrow> mem_read src 0 n = Some (take n d)"
  by (auto simp: platform_memcpy_def bind_Some_iff mem_write_def mem_read_def split: if_splits)

lemma decode_ok_reads:
  assumes "uproto_decode_frame data len frame = Some (UPROTO_OK, f)"
  shows "\<exists>hc fc. 18 + unat (fr_len f) \<le> len \<and> unat (fr_len f) \<le> UPROTO_MAX_PAYLOAD
    \<and> mem_get data 0 = Some UPROTO_MAGIC_0 \<and> mem_get data 1 = Some UPROTO_MAGIC_1
    \<and> mem_get data 2 = Some (fr_version f) \<and> mem_get data 3 = Some (fr_flags f)
    \<and> mem_get data 4 = Some (fr_type f) \<and> mem_get data 5 = Some (fr_reserved f)
    \<and> read_u16_le data 6 = Some (fr_txn_id f) \<and> read_u16_le data 8 = Some (fr_seq f)
    \<and> read_u16_le data 10 = Some (fr_ack f) \<and> read_u16_le data 12 = Some (fr_len f)
    \<and> read_u16_le data 14 = Some hc \<and> crc16_ccitt (drop 2 data) 12 = Some hc
    \<and> read_u16_le data (16 + unat (fr_len f)) = Some fc
    \<and> crc16_ccitt (drop 2 data) (14 + unat (fr_len f)) = Some fc
    \<and> (fr_len f > 0 \<longrightarrow> mem_read (drop 16 data) 0 (unat (fr_len f)) =
          Some (take (unat (fr_len f)) (fr_payload f)))"
  using assms unfolding uproto_decode_frame_def Let_def
  by (auto simp: bind_Some_iff platform_memcpy_Some split: if_splits)

lemma decode_ok_image:
  assumes "uproto_decode_frame data len frame = Some (UPROTO_OK, f)"
  shows "18 + unat (fr_len f) \<le> len \<and> unat (fr_len f) \<le> UPROTO_MAX_PAYLOAD \<and>
    18 + unat (fr_len f) \<le> length data \<and>
    take (18 + unat (fr_len f)) data = frame_image (fr_version f) (fr_flags f) (fr_type f)
      (fr_reserved f) (fr_txn_id f) (fr_seq f) (fr_ack f) (fr_len f)
      (take (unat (fr_len f)) (fr_payload f))"
proof -
  let ?n = "unat (fr_len f)" and ?pl = "take (unat (fr_len f)) (fr_payload f)"
  let ?h = "frame_head (fr_version f) (fr_flags f) (fr_type f) (fr_reserved f) (fr_txn_id f)
    (fr_seq f) (fr_ack f) (fr_len f)"
  from decode_ok_reads [OF assms] obtain hc fc where
    le: "18 + ?n \<le> len" "?n \<le> UPROTO_MAX_PAYLOAD"
    and g: "mem_get data 0 = Some UPROTO_MAGIC_0" "mem_get data 1 = Some UPROTO_MAGIC_1"
      "mem_get data 2 = Some (fr_version f)" "mem_get data 3 = Some (fr_flags f)"
      "mem_get data 4 = Some (fr_type f)" "mem_get data 5 = Some (fr_reserved f)"
    and r: "read_u16_le data 6 = Some (fr_txn_id f)" "read_u16_le data 8 = Some (fr_seq f)"
      "read_u16_le data 10 = Some (fr_ack f)" "read_u16_le data 12 = Some (fr_len f)"
      "read_u16_le data 14 = Some hc" "read_u16_le data (16 + ?n) = Some fc"
    and c: "crc16_ccitt (drop 2 data) 12 = Some hc" "crc16_ccitt (drop 2 data) (14 + ?n) = Some fc"
    and p: "fr_len f > 0 \<longrightarrow> mem_read (drop 16 data) 0 ?n = Some ?pl"
    by blast
  note rb = r [THEN up16.read_value]
  have long: "18 + ?n \<le> length data"
    using rb(6) by (auto simp: mem_read_def split: if_splits)
  have pl: "mem_read data 16 ?n = Some ?pl"
    using p long by (cases "fr_len f = 0") (auto simp: mem_read_drop word_neq_0_conv)
  let ?bss = "[[UPROTO_MAGIC_0], [UPROTO_MAGIC_1], [fr_version f], [fr_flags f], [fr_type f],
    [fr_reserved f], le16 (fr_txn_id f), le16 (fr_seq f), le16 (fr_ack f), le16 (fr_len f)]"
  have "reads_at data 0 ?bss"
    using g [unfolded mem_get_read] rb by (simp add: eval_nat_numeral del: le_bytes.simps)
  from mem_read_concat [OF _ this] have h: "take 14 data = ?h"
    by (simp add: mem_read_prefix frame_head_def)
  have pn: "length ?pl = ?n" using mem_read_split [OF pl] by blast
  then have "reads_at data 0 (?bss @ [le16 hc, ?pl, le16 fc])"
    using g [unfolded mem_get_read] rb pl long
    by (simp add: eval_nat_numeral del: le_bytes.simps length_take)
  from mem_read_concat [OF _ this] have t: "take (18 + ?n) data = ?h @ le16 hc @ ?pl @ le16 fc"
    using pn by (simp add: mem_read_prefix frame_head_def eval_nat_numeral
        del: le_bytes.simps length_take)
  have "drop 2 ?h = take 12 (drop 2 data)" by (simp add: drop_take flip: h)
  then have hc: "hc = crc16_bits (drop 2 ?h) 0xFFFF" using c(1) long by (simp add: crc16_ccitt_in)
  have "take (16 + ?n) (take (18 + ?n) data) = ?h @ le16 hc @ ?pl"
    using pn unfolding t by simp
  then have "drop 2 (?h @ le16 hc @ ?pl) = drop 2 (take (16 + ?n) data)" by simp
  then have "drop 2 (?h @ le16 hc @ ?pl) = take (14 + ?n) (drop 2 data)" by (simp add: drop_take)
  then have fc: "fc = crc16_bits (drop 2 (?h @ le16 hc @ ?pl)) 0xFFFF"
    using c(2) long by (simp add: crc16_ccitt_in)
  show ?thesis using le long t by (simp add: frame_image_split Let_def fc flip: hc)
qed

section \<open>Corrupted frames\<close>

lemma with_crc_codeword: "2 \<le> length bs \<Longrightarrow> crc16_bits (drop 2 (with_crc bs)) 0xFFFF = 0"
  by (simp add: with_crc_def crc16_codeword)

lemma take_2_with_crc: "2 \<le> length bs \<Longrightarrow> take 2 (with_crc bs) = take 2 bs"
  by (simp add: with_crc_def)

lemma with_crc_unique:
  assumes "differ_within i 2 (with_crc bs) (with_crc bs')" and "take 2 bs = take 2 bs'"
    and "2 \<le> length bs" and "2 \<le> length bs'"
  shows "with_crc bs = with_crc bs'"
proof -
  have "drop 2 (with_crc bs) = drop 2 (with_crc bs')"
    using differ_within_drop [OF assms(1), of 2] assms(3,4)
    by (intro crc16_detects_within [of "i - 2" _ _ "0xFFFF"]) (simp_all add: with_crc_codeword)
  moreover have "take 2 (with_crc bs) = take 2 (with_crc bs')"
    using assms(2-4) by (simp add: take_2_with_crc)
  ultimately show ?thesis by (metis append_take_drop_id)
qed

lemma frame_image_take_head:
  "take 16 (frame_image ver flags type rsv txn_id seq ack len pl) =
     with_crc (frame_head ver flags type rsv txn_id seq ack len)"
  by (simp add: frame_image_def with_crc_def)

lemma frame_head_take_2: "take 2 (frame_head ver flags type rsv txn_id seq ack len) = [0xAA, 0x55]"
  by (simp add: frame_head_def)

lemma frame_head_inject:
  "frame_head ver flags type rsv txn_id seq ack len = frame_head ver' flags' type' rsv' txn_id' seq' ack' len'
   \<longleftrightarrow> ver = ver' \<and> flags = flags' \<and> type = type' \<and> rsv = rsv' \<and> txn_id = txn_id' \<and> seq = seq'
     \<and> ack = ack' \<and> len = len'"
  by (simp add: frame_head_def list_eq_at_length up16.img_inject)

lemma with_crc_inject: "with_crc bs = with_crc bs' \<longleftrightarrow> bs = bs'"
  by (auto simp: with_crc_def append_eq_append_conv)

lemma corrupted_not_ok:
  assumes diff: "differ_within i 2 data (frame_image ver flags type rsv txn_id seq ack n pl)"
    and n: "unat n = length pl"
    and ok: "uproto_decode_frame data (length data) frame = Some (UPROTO_OK, f)"
  shows "data = frame_image ver flags type rsv txn_id seq ack n pl"
proof -
  let ?img = "frame_image ver flags type rsv txn_id seq ack n pl"
  let ?h = "frame_head ver flags type rsv txn_id seq ack n"
  let ?n' = "unat (fr_len f)"
  let ?h' = "frame_head (fr_version f) (fr_flags f) (fr_type f) (fr_reserved f) (fr_txn_id f)
    (fr_seq f) (fr_ack f) (fr_len f)"
  from decode_ok_image [OF ok] have le: "18 + ?n' \<le> length data" and
    t: "take (18 + ?n') data = frame_image (fr_version f) (fr_flags f) (fr_type f)
      (fr_reserved f) (fr_txn_id f) (fr_seq f) (fr_ack f) (fr_len f) (take ?n' (fr_payload f))"
    by simp_all
  have len: "length data = 18 + length pl" using differ_within_length [OF diff] by simp
  have "take 16 data = take 16 (take (18 + ?n') data)" by simp
  then have h': "take 16 data = with_crc ?h'" unfolding t frame_image_take_head .
  have "with_crc ?h' = with_crc ?h"
    using differ_within_take [OF diff, of 16]
    by (intro with_crc_unique [of i]) (simp_all add: h' frame_image_take_head frame_head_take_2)
  then have "fr_len f = n" by (simp add: with_crc_inject frame_head_inject)
  then have data: "data = with_crc (with_crc ?h' @ take ?n' (fr_payload f))"
    using t len n by (simp add: frame_image_def)
  have "differ_within i 2 (with_crc (with_crc ?h' @ take ?n' (fr_payload f))) (with_crc (with_crc ?h @ pl))"
    using diff by (simp only: frame_image_def flip: data)
  then show ?thesis
    unfolding data frame_image_def
    by (rule with_crc_unique) (simp_all add: take_2_with_crc frame_head_take_2)
qed

section \<open>Properties\<close>

text \<open>
  Called with an output buffer with room for the frame and a payload of at least the given
  length, \<^verbatim>\<open>uproto_encode_frame\<close> stays inside its objects, returns 18 plus the payload length, writes
  exactly the wire image there, and leaves the rest of the buffer as it was.
\<close>

theorem encode_frame_writes_image:
  assumes "18 + length p \<le> length out"
  shows "uproto_encode_frame out flags type txn_id seq ack (Some p) (length p) =
    Some (frame_image UPROTO_VERSION flags type 0 txn_id seq ack (word_of_nat (length p)) p
            @ drop (18 + length p) out, 18 + length p)"
  using encode_frame_cursor [of "length p" out "Some p" flags type txn_id seq ack] assms
  by (simp add: cursor_def sent_payload_def)

theorem encode_frame_writes_image_witness:
  "uproto_encode_frame (replicate 21 0) 1 0x10 7 9 0 (Some [1, 2]) 2 =
    Some (frame_image 1 1 0x10 0 7 9 0 2 [1, 2] @ [0], 20)"
  using encode_frame_writes_image [of "[1, 2]" "replicate 21 0" 1 "0x10" 7 9 0]
  by (simp add: numeral_2_eq_2)

text \<open>
  \<^verbatim>\<open>uproto_decode_frame\<close> stays inside its objects on every input whatsoever, as long as the length it
  is given does not exceed the buffer, and the frame's payload array keeps its size.
\<close>

theorem decode_frame_memory_safe:
  assumes "len \<le> length data" and "length (fr_payload frame) = UPROTO_MAX_PAYLOAD"
  shows "\<exists>err f. uproto_decode_frame data len frame = Some (err, f) \<and>
           length (fr_payload f) = UPROTO_MAX_PAYLOAD"
  using assms by (rule decode_defined)

theorem decode_frame_memory_safe_witness:
  "\<exists>err f. uproto_decode_frame [0xAA, 0x55] 2 blank_frame = Some (err, f) \<and>
     length (fr_payload f) = UPROTO_MAX_PAYLOAD"
  using decode_frame_memory_safe [of 2 "[0xAA, 0x55]" blank_frame] by (simp add: blank_frame_def)

text \<open>
  Round trip: what \<^verbatim>\<open>uproto_encode_frame\<close> writes, \<^verbatim>\<open>uproto_decode_frame\<close> accepts and returns with every
  header field and the payload, whatever follows the frame in the buffer.
\<close>

theorem decode_encode_frame:
  assumes "length p \<le> UPROTO_MAX_PAYLOAD" and "18 + length p \<le> length out"
    and "length (fr_payload frame) = UPROTO_MAX_PAYLOAD"
  shows "\<exists>buf n f. uproto_encode_frame out flags type txn_id seq ack (Some p) (length p) = Some (buf, n) \<and>
    uproto_decode_frame (buf @ rest) n frame = Some (UPROTO_OK, f) \<and>
    fr_version f = UPROTO_VERSION \<and> fr_flags f = flags \<and> fr_type f = type \<and> fr_txn_id f = txn_id \<and>
    fr_seq f = seq \<and> fr_ack f = ack \<and> unat (fr_len f) = length p \<and> take (length p) (fr_payload f) = p"
  using assms encode_frame_cursor [of "length p" out "Some p" flags type txn_id seq ack]
    decode_image [OF assms(1) order_refl assms(3) refl]
  by (simp add: cursor_def sent_payload_def unat_of_nat)

theorem decode_encode_frame_witness:
  "\<exists>buf n f. uproto_encode_frame (replicate 20 0) 1 0x10 7 9 0 (Some [1, 2]) 2 = Some (buf, n) \<and>
    uproto_decode_frame (buf @ [5]) n blank_frame = Some (UPROTO_OK, f) \<and>
    fr_txn_id f = 7 \<and> take 2 (fr_payload f) = [1, 2]"
  using decode_encode_frame [of "[1, 2]" "replicate 20 0" blank_frame 1 "0x10" 7 9 0 "[5]"]
  by (fastforce simp: blank_frame_def numeral_2_eq_2)

text \<open>
  Soundness: a buffer that \<^verbatim>\<open>uproto_decode_frame\<close> accepts begins with the wire image of the fields
  and the payload it returns, and the declared payload length is within the limit.
\<close>

theorem decode_frame_sound:
  assumes "uproto_decode_frame data len frame = Some (UPROTO_OK, f)"
  shows "unat (fr_len f) \<le> UPROTO_MAX_PAYLOAD \<and>
    take (18 + unat (fr_len f)) data = frame_image (fr_version f) (fr_flags f) (fr_type f)
      (fr_reserved f) (fr_txn_id f) (fr_seq f) (fr_ack f) (fr_len f)
      (take (unat (fr_len f)) (fr_payload f))"
  using decode_ok_image [OF assms] by simp

theorem decode_frame_sound_witness:
  "\<exists>f. uproto_decode_frame (frame_image 1 2 3 0 4 5 6 1 [9]) 19 blank_frame = Some (UPROTO_OK, f) \<and>
    take (18 + unat (fr_len f)) (frame_image 1 2 3 0 4 5 6 1 [9]) = frame_image (fr_version f)
      (fr_flags f) (fr_type f) (fr_reserved f) (fr_txn_id f) (fr_seq f) (fr_ack f) (fr_len f)
      (take (unat (fr_len f)) (fr_payload f))"
proof -
  have "\<exists>f. uproto_decode_frame (frame_image 1 2 3 0 4 5 6 1 [9]) 19 blank_frame = Some (UPROTO_OK, f)"
    using decode_image [of "[9]" 19 blank_frame 1 1 2 3 0 4 5 6 "[]"] by (simp add: blank_frame_def)
  then show ?thesis using decode_frame_sound by blast
qed

text \<open>
  C36. Error detection: no corruption of a frame confined to two adjacent bytes (a burst of up to 16 bits,
  in the magic, the header, the length field, either CRC or the payload) is accepted by \<^verbatim>\<open>uproto_decode_frame\<close>.
\<close>

theorem decode_frame_rejects_corruption:
  assumes "unat n = length pl"
    and "differ_within i 2 data (frame_image ver flags type rsv txn_id seq ack n pl)"
    and "data \<noteq> frame_image ver flags type rsv txn_id seq ack n pl"
  shows "uproto_decode_frame data (length data) frame \<noteq> Some (UPROTO_OK, f)"
  using corrupted_not_ok [OF assms(2,1)] assms(3) by blast

theorem decode_frame_rejects_corruption_witness:
  "\<forall>f. uproto_decode_frame ((frame_image 1 2 3 0 4 5 6 0 [])[12 := 7, 13 := 1]) 18 blank_frame \<noteq>
     Some (UPROTO_OK, f)"
proof
  fix f
  let ?img = "frame_image 1 2 3 0 4 5 6 0 []"
  have "?img ! 12 = 0"
    by (simp add: frame_image_def with_crc_def frame_head_def nth_append le_bytes_numeral)
  then have "?img[12 := 7, 13 := 1] ! 12 \<noteq> ?img ! 12" by simp
  then have "?img[12 := 7, 13 := 1] \<noteq> ?img" by metis
  moreover have "differ_within 12 2 (?img[12 := 7, 13 := 1]) ?img"
    by (auto simp: differ_within_def nth_list_update)
  ultimately show "uproto_decode_frame (?img[12 := 7, 13 := 1]) 18 blank_frame \<noteq> Some (UPROTO_OK, f)"
    using decode_frame_rejects_corruption [of 0 "[]" 12 "?img[12 := 7, 13 := 1]" 1 2 3 0 4 5 6 blank_frame f]
    by simp
qed

text \<open>
  A request to send \<open>n > 0\<close> bytes with a null payload pointer produces a frame whose header declares
  \<open>n\<close> bytes and that carries none: the decoder rejects it at the length the encoder returns.
\<close>

theorem encode_null_payload_rejected:
  assumes "0 < n" and "n \<le> UPROTO_MAX_PAYLOAD" and "18 + n \<le> length out"
    and "length (fr_payload frame) = UPROTO_MAX_PAYLOAD"
  shows "\<exists>buf f. uproto_encode_frame out flags type txn_id seq ack None n = Some (buf, 18) \<and>
    uproto_decode_frame buf 18 frame = Some (UPROTO_ERR_LENGTH, f)"
proof -
  have un: "unat (word_of_nat n :: u16) = n" using assms(2) by (simp add: unat_of_nat)
  show ?thesis
    using assms encode_frame_cursor [of n out None flags type txn_id seq ack]
      decode_head [OF order_refl, of _ UPROTO_VERSION flags type 0 txn_id seq ack "word_of_nat n"]
    by (simp add: cursor_def sent_payload_def frame_image_def with_crc_def [of "with_crc _"] un Let_def)
qed

theorem encode_null_payload_rejected_witness:
  "\<exists>buf f. uproto_encode_frame (replicate 23 0) 1 0x10 7 9 0 None 5 = Some (buf, 18) \<and>
    uproto_decode_frame buf 18 blank_frame = Some (UPROTO_ERR_LENGTH, f)"
  using encode_null_payload_rejected [of 5 "replicate 23 0" blank_frame 1 "0x10" 7 9 0]
  by (simp add: blank_frame_def)

end
