(* ===== verification/Uproto.thy ===== *)
theory Uproto
  imports Uproto_Frame
begin

text \<open>
  The protocol engine of \<^verbatim>\<open>core/uproto.c\<close>: the context with its transaction table, handler table and
  receive buffer, the senders, the frame dispatcher, the stream decoder and the periodic tick.

  The operations pass the pair of the context and a world \<open>'w\<close> on; the world is whatever the port,
  the clock and the callbacks behind the function pointers act on. These are code outside the engine,
  the record \<open>'w uproto_env\<close>, a parameter of every operation that calls them. A result
  \<open>None\<close> is an access outside an object, a call through a null pointer or a loop that does not end.
\<close>

section \<open>Data\<close>

datatype uproto_state = UPROTO_STATE_IDLE | UPROTO_STATE_HANDSHAKING | UPROTO_STATE_ESTABLISHED

datatype txn_state = TXN_STATE_FREE | TXN_STATE_WAITING | TXN_STATE_COMPLETED | TXN_STATE_TIMEOUT

record uproto_transaction =
  tr_state :: txn_state
  tr_txn_id :: u16
  tr_type :: u8
  tr_retry_count :: u8
  tr_max_retries :: u8
  tr_timeout_ms :: u32
  tr_start_time :: u32
  tr_last_tx_time :: u32
  tr_callback :: "fn_ptr option"
  tr_user :: user_ptr
  tr_tx_data :: "u8 list"
  tr_tx_len :: nat

record uproto_handler_entry =
  he_type :: u8
  he_handler :: "fn_ptr option"
  he_user :: user_ptr

record uproto_port_ops =
  po_write :: "fn_ptr option"
  po_flush :: "fn_ptr option"
  po_get_mtu :: "fn_ptr option"
  po_user :: user_ptr

record uproto_time_ops =
  ti_now_ms :: "fn_ptr option"
  ti_user :: user_ptr

record uproto_config =
  cf_handshake_timeout_ms :: u32
  cf_heartbeat_interval_ms :: u32
  cf_default_timeout_ms :: u32
  cf_default_retries :: u8
  cf_enable_auto_handshake :: bool
  cf_event_cb :: "fn_ptr option"
  cf_event_user :: user_ptr

record uproto_stats =
  st_tx_frames :: u32
  st_rx_frames :: u32
  st_crc_errors :: u32
  st_timeouts :: u32
  st_retries :: u32

record uproto_context =
  cx_state :: uproto_state
  cx_local_seq :: u16
  cx_remote_seq :: u16
  cx_last_rx_time :: u32
  cx_last_tx_time :: u32
  cx_handshake_start_time :: u32
  cx_config :: uproto_config
  cx_port :: uproto_port_ops
  cx_time :: uproto_time_ops
  cx_transactions :: "uproto_transaction list"
  cx_next_txn_id :: u16
  cx_handlers :: "uproto_handler_entry list"
  cx_handler_count :: nat
  cx_rx_buffer :: "u8 list"
  cx_rx_pos :: nat
  cx_stats :: uproto_stats

text \<open>
  The code behind the function pointers, by pointer. \<^verbatim>\<open>write\<close> returns the number of bytes it took; the
  callbacks may call the engine again and so return a new context.
\<close>

record 'w uproto_env =
  env_write :: "fn_ptr \<Rightarrow> user_ptr \<Rightarrow> u8 list \<Rightarrow> 'w \<Rightarrow> nat \<times> 'w"
  env_flush :: "fn_ptr \<Rightarrow> user_ptr \<Rightarrow> 'w \<Rightarrow> 'w"
  env_now :: "fn_ptr \<Rightarrow> user_ptr \<Rightarrow> 'w \<Rightarrow> u32 \<times> 'w"
  env_event :: "fn_ptr \<Rightarrow> string \<Rightarrow> user_ptr \<Rightarrow> uproto_context \<times> 'w \<Rightarrow> (uproto_context \<times> 'w) option"
  env_txn_callback :: "fn_ptr \<Rightarrow> user_ptr \<Rightarrow> uproto_error \<Rightarrow> u8 list option \<Rightarrow> nat \<Rightarrow>
     uproto_context \<times> 'w \<Rightarrow> (uproto_context \<times> 'w) option"
  env_msg_handler :: "fn_ptr \<Rightarrow> u16 \<Rightarrow> u8 list \<Rightarrow> nat \<Rightarrow> user_ptr \<Rightarrow>
     uproto_context \<times> 'w \<Rightarrow> (uproto_context \<times> 'w) option"

section \<open>Helpers\<close>

definition uproto_now :: "'w uproto_env \<Rightarrow> uproto_context \<times> 'w \<Rightarrow> u32 \<times> 'w" where
  "uproto_now env s = (case s of (ctx, w) \<Rightarrow>
     (case ti_now_ms (cx_time ctx) of
        Some f \<Rightarrow> env_now env f (ti_user (cx_time ctx)) w
      | None \<Rightarrow> (0, w)))"

definition uproto_fire_event ::
  "'w uproto_env \<Rightarrow> string \<Rightarrow> uproto_context \<times> 'w \<Rightarrow> (uproto_context \<times> 'w) option" where
  "uproto_fire_event env event s = (case s of (ctx, w) \<Rightarrow>
     (case cf_event_cb (cx_config ctx) of
        Some f \<Rightarrow> env_event env f event (cf_event_user (cx_config ctx)) (ctx, w)
      | None \<Rightarrow> Some (ctx, w)))"

text \<open>\<^verbatim>\<open>if (ctx->port.flush) ctx->port.flush(ctx->port.user);\<close>\<close>

definition uproto_flush :: "'w uproto_env \<Rightarrow> uproto_context \<Rightarrow> 'w \<Rightarrow> 'w" where
  "uproto_flush env ctx w = (case po_flush (cx_port ctx) of
     Some f \<Rightarrow> env_flush env f (po_user (cx_port ctx)) w | None \<Rightarrow> w)"

section \<open>Transactions\<close>

text \<open>A pointer into the transaction table is the index of its slot.\<close>

definition uproto_alloc_transaction :: "uproto_context \<Rightarrow> nat option" where
  "uproto_alloc_transaction ctx =
     find (\<lambda>i. tr_state (cx_transactions ctx ! i) = TXN_STATE_FREE) [0..<UPROTO_MAX_TRANSACTIONS]"

definition uproto_find_transaction :: "uproto_context \<Rightarrow> u16 \<Rightarrow> nat option" where
  "uproto_find_transaction ctx txn_id =
     find (\<lambda>i. tr_state (cx_transactions ctx ! i) \<noteq> TXN_STATE_FREE \<and>
               tr_txn_id (cx_transactions ctx ! i) = txn_id) [0..<UPROTO_MAX_TRANSACTIONS]"

definition update_txn ::
  "nat \<Rightarrow> (uproto_transaction \<Rightarrow> uproto_transaction) \<Rightarrow> uproto_context \<Rightarrow> uproto_context" where
  "update_txn i f ctx =
     ctx\<lparr>cx_transactions := (cx_transactions ctx)[i := f (cx_transactions ctx ! i)]\<rparr>"

definition uproto_complete_transaction ::
  "'w uproto_env \<Rightarrow> nat \<Rightarrow> uproto_error \<Rightarrow> u8 list option \<Rightarrow> nat \<Rightarrow>
     uproto_context \<times> 'w \<Rightarrow> (uproto_context \<times> 'w) option" where
  "uproto_complete_transaction env txn err rsp_data rsp_len s = do {
     (ctx, w) \<leftarrow> (case tr_callback (cx_transactions (fst s) ! txn) of
        Some f \<Rightarrow> env_txn_callback env f (tr_user (cx_transactions (fst s) ! txn)) err rsp_data rsp_len s
      | None \<Rightarrow> Some s);
     Some (update_txn txn (\<lambda>t. t\<lparr>tr_state := TXN_STATE_FREE\<rparr>) ctx, w)
   }"

section \<open>Sending\<close>

text \<open>
  The stack buffer of \<^verbatim>\<open>uproto_send_frame\<close> starts with unspecified contents; the port gets only the
  bytes the encoder wrote.
\<close>

abbreviation tx_buffer :: "u8 list" where
  "tx_buffer \<equiv> replicate (UPROTO_MAX_PAYLOAD + UPROTO_HEADER_SIZE + 2) 0"

definition uproto_send_frame ::
  "'w uproto_env \<Rightarrow> u8 \<Rightarrow> u8 \<Rightarrow> u16 \<Rightarrow> u8 list option \<Rightarrow> nat \<Rightarrow>
     uproto_context \<times> 'w \<Rightarrow> (uproto_error \<times> uproto_context \<times> 'w) option" where
  "uproto_send_frame env flags type txn_id payload payload_len s = (case s of (ctx, w) \<Rightarrow>
     (case po_write (cx_port ctx) of
        None \<Rightarrow> Some (UPROTO_ERR_INVALID_PARAM, ctx, w)
      | Some wr \<Rightarrow> do {
          (buffer, frame_len) \<leftarrow>
            uproto_encode_frame tx_buffer flags type txn_id (cx_local_seq ctx) 0 payload payload_len;
          let ctx = ctx\<lparr>cx_local_seq := cx_local_seq ctx + 1\<rparr>;
          let (sent, w) = env_write env wr (po_user (cx_port ctx)) (take frame_len buffer) w;
          if sent = frame_len then do {
            let w = uproto_flush env ctx w;
            let ctx = ctx\<lparr>cx_stats := (cx_stats ctx)\<lparr>st_tx_frames := st_tx_frames (cx_stats ctx) + 1\<rparr>\<rparr>;
            let (now, w) = uproto_now env (ctx, w);
            Some (UPROTO_OK, ctx\<lparr>cx_last_tx_time := now\<rparr>, w)
          } else Some (UPROTO_ERR_TX_FULL, ctx, w)
        }))"

definition uproto_send_request ::
  "'w uproto_env \<Rightarrow> u8 \<Rightarrow> u8 list option \<Rightarrow> nat \<Rightarrow> u32 \<Rightarrow> u8 \<Rightarrow> fn_ptr option \<Rightarrow> user_ptr \<Rightarrow>
     uproto_context \<times> 'w \<Rightarrow> (uproto_error \<times> uproto_context \<times> 'w) option" where
  "uproto_send_request env type payload len timeout_ms retries callback user s = (case s of (ctx, w) \<Rightarrow>
     if len > UPROTO_MAX_PAYLOAD then Some (UPROTO_ERR_LENGTH, ctx, w)
     else (case uproto_alloc_transaction ctx of
        None \<Rightarrow> Some (UPROTO_ERR_NO_MEMORY, ctx, w)
      | Some txn \<Rightarrow> do {
          let txn_id = cx_next_txn_id ctx;
          let ctx = ctx\<lparr>cx_next_txn_id := cx_next_txn_id ctx + 1\<rparr>;
          (tx_data, tx_len) \<leftarrow>
            uproto_encode_frame (tr_tx_data (cx_transactions ctx ! txn)) UPROTO_FLAG_REQUEST type txn_id
              (cx_local_seq ctx) 0 payload len;
          let ctx = ctx\<lparr>cx_local_seq := cx_local_seq ctx + 1\<rparr>;
          let ctx = update_txn txn (\<lambda>t. t\<lparr>tr_tx_data := tx_data, tr_tx_len := tx_len\<rparr>) ctx;
          wr \<leftarrow> po_write (cx_port ctx);
          let (sent, w) = env_write env wr (po_user (cx_port ctx)) (take tx_len tx_data) w;
          if sent \<noteq> tx_len
          then Some (UPROTO_ERR_TX_FULL, update_txn txn (\<lambda>t. t\<lparr>tr_state := TXN_STATE_FREE\<rparr>) ctx, w)
          else do {
            let w = uproto_flush env ctx w;
            let (now, w) = uproto_now env (ctx, w);
            let ctx = update_txn txn (\<lambda>t. t\<lparr>tr_state := TXN_STATE_WAITING, tr_txn_id := txn_id,
              tr_type := type, tr_retry_count := 0, tr_max_retries := retries,
              tr_timeout_ms := (if timeout_ms > 0 then timeout_ms else cf_default_timeout_ms (cx_config ctx)),
              tr_start_time := now, tr_last_tx_time := now, tr_callback := callback, tr_user := user\<rparr>) ctx;
            Some (UPROTO_OK, ctx\<lparr>
              cx_stats := (cx_stats ctx)\<lparr>st_tx_frames := st_tx_frames (cx_stats ctx) + 1\<rparr>,
              cx_last_tx_time := now\<rparr>, w)
          }
        }))"

definition uproto_send_response ::
  "'w uproto_env \<Rightarrow> u16 \<Rightarrow> u8 \<Rightarrow> u8 list option \<Rightarrow> nat \<Rightarrow>
     uproto_context \<times> 'w \<Rightarrow> (uproto_error \<times> uproto_context \<times> 'w) option" where
  "uproto_send_response env txn_id type payload len s =
     (if len > UPROTO_MAX_PAYLOAD then Some (UPROTO_ERR_LENGTH, s)
      else uproto_send_frame env UPROTO_FLAG_RESPONSE type txn_id payload len s)"

definition uproto_send_notify ::
  "'w uproto_env \<Rightarrow> u8 \<Rightarrow> u8 list option \<Rightarrow> nat \<Rightarrow>
     uproto_context \<times> 'w \<Rightarrow> (uproto_error \<times> uproto_context \<times> 'w) option" where
  "uproto_send_notify env type payload len s =
     (if len > UPROTO_MAX_PAYLOAD then Some (UPROTO_ERR_LENGTH, s)
      else uproto_send_frame env 0 type 0 payload len s)"

section \<open>Dispatching a frame\<close>

text \<open>The loop over \<^verbatim>\<open>handlers[0..handler_count)\<close>: the first entry with the frame's type.\<close>

definition find_handler :: "uproto_context \<Rightarrow> u8 \<Rightarrow> nat option" where
  "find_handler ctx type = find (\<lambda>i. he_type (cx_handlers ctx ! i) = type) [0..<cx_handler_count ctx]"

text \<open>\<^verbatim>\<open>if (txn) uproto_complete_transaction(ctx, txn, UPROTO_OK, rsp, rsp_len);\<close>\<close>

definition complete_found ::
  "'w uproto_env \<Rightarrow> u16 \<Rightarrow> u8 list option \<Rightarrow> nat \<Rightarrow> uproto_context \<times> 'w \<Rightarrow> (uproto_context \<times> 'w) option" where
  "complete_found env txn_id rsp rsp_len s =
     (case uproto_find_transaction (fst s) txn_id of
        Some txn \<Rightarrow> uproto_complete_transaction env txn UPROTO_OK rsp rsp_len s
      | None \<Rightarrow> Some s)"

definition call_handler ::
  "'w uproto_env \<Rightarrow> nat \<Rightarrow> u16 \<Rightarrow> u8 list \<Rightarrow> nat \<Rightarrow> uproto_context \<times> 'w \<Rightarrow> (uproto_context \<times> 'w) option" where
  "call_handler env i txn_id data len s = do {
     f \<leftarrow> he_handler (cx_handlers (fst s) ! i);
     env_msg_handler env f txn_id data len (he_user (cx_handlers (fst s) ! i)) s
   }"

definition uproto_handle_frame ::
  "'w uproto_env \<Rightarrow> uproto_frame \<Rightarrow> uproto_context \<times> 'w \<Rightarrow> (uproto_context \<times> 'w) option" where
  "uproto_handle_frame env frame s = (case s of (ctx, w) \<Rightarrow> do {
     let ctx = ctx\<lparr>cx_stats := (cx_stats ctx)\<lparr>st_rx_frames := st_rx_frames (cx_stats ctx) + 1\<rparr>\<rparr>;
     let (now, w) = uproto_now env (ctx, w);
     let ctx = ctx\<lparr>cx_last_rx_time := now, cx_remote_seq := fr_seq frame\<rparr>;
     let len = unat (fr_len frame);
     let payload = take len (fr_payload frame);
     if fr_type frame = UPROTO_MSG_HELLO then do {
       (_, ctx, w) \<leftarrow> uproto_send_frame env UPROTO_FLAG_RESPONSE UPROTO_MSG_HELLO_ACK (fr_txn_id frame) None 0 (ctx, w);
       if cx_state ctx = UPROTO_STATE_IDLE \<or> cx_state ctx = UPROTO_STATE_HANDSHAKING
       then uproto_fire_event env ''handshake_completed'' (ctx\<lparr>cx_state := UPROTO_STATE_ESTABLISHED\<rparr>, w)
       else Some (ctx, w)
     }
     else if fr_type frame = UPROTO_MSG_HELLO_ACK then do {
       s \<leftarrow> (if cx_state ctx = UPROTO_STATE_HANDSHAKING
             then uproto_fire_event env ''handshake_completed'' (ctx\<lparr>cx_state := UPROTO_STATE_ESTABLISHED\<rparr>, w)
             else Some (ctx, w));
       complete_found env (fr_txn_id frame) (Some payload) len s
     }
     else if fr_type frame = UPROTO_MSG_PING then do {
       (_, s) \<leftarrow> uproto_send_frame env UPROTO_FLAG_RESPONSE UPROTO_MSG_PONG (fr_txn_id frame) None 0 (ctx, w);
       Some s
     }
     else if fr_type frame = UPROTO_MSG_PONG then complete_found env (fr_txn_id frame) None 0 (ctx, w)
     else if fr_flags frame AND UPROTO_FLAG_RESPONSE \<noteq> 0
     then complete_found env (fr_txn_id frame) (Some payload) len (ctx, w)
     else if fr_flags frame AND UPROTO_FLAG_REQUEST = 0
     then (case find_handler ctx (fr_type frame) of
        Some i \<Rightarrow> call_handler env i (fr_txn_id frame) payload len (ctx, w)
      | None \<Rightarrow> Some (ctx, w))
     else (case find_handler ctx (fr_type frame) of
        Some i \<Rightarrow> call_handler env i (fr_txn_id frame) payload len (ctx, w)
      | None \<Rightarrow> do {
          (_, s) \<leftarrow> uproto_send_frame env UPROTO_FLAG_RESPONSE UPROTO_MSG_ERROR (fr_txn_id frame) None 0 (ctx, w);
          Some s
        })
   })"

section \<open>The stream decoder\<close>

text \<open>The search for the magic: \<open>k\<close> positions left, from position \<open>i\<close>.\<close>

fun find_magic :: "u8 list \<Rightarrow> nat \<Rightarrow> nat \<Rightarrow> nat option option" where
  "find_magic buf i 0 = Some None"
| "find_magic buf i (Suc k) = do {
     b0 \<leftarrow> mem_get buf i;
     if b0 = UPROTO_MAGIC_0 then do {
       b1 \<leftarrow> mem_get buf (i + 1);
       if b1 = UPROTO_MAGIC_1 then Some (Some i) else find_magic buf (i + 1) k
     } else find_magic buf (i + 1) k
   }"

text \<open>\<^verbatim>\<open>platform_memmove(rx_buffer, &rx_buffer[n], rx_pos - n); rx_pos -= n;\<close>\<close>

definition rx_discard :: "nat \<Rightarrow> uproto_context \<Rightarrow> uproto_context option" where
  "rx_discard n ctx = do {
     buf \<leftarrow> platform_memmove (cx_rx_buffer ctx) 0 n (cx_rx_pos ctx - n);
     Some (ctx\<lparr>cx_rx_buffer := buf, cx_rx_pos := cx_rx_pos ctx - n\<rparr>)
   }"

text \<open>One round of the loop, its test included; the flag says whether the loop goes on.\<close>

definition rx_step ::
  "'w uproto_env \<Rightarrow> uproto_context \<times> 'w \<Rightarrow> (bool \<times> uproto_context \<times> 'w) option" where
  "rx_step env s = (case s of (ctx, w) \<Rightarrow>
     if cx_rx_pos ctx < UPROTO_HEADER_SIZE + 2 then Some (False, ctx, w)
     else do {
       found \<leftarrow> find_magic (cx_rx_buffer ctx) 0 (cx_rx_pos ctx - 1);
       case found of
         None \<Rightarrow> Some (False, ctx\<lparr>cx_rx_pos := 0\<rparr>, w)
       | Some frame_start \<Rightarrow> do {
           ctx \<leftarrow> (if frame_start > 0 then rx_discard frame_start ctx else Some ctx);
           if cx_rx_pos ctx < UPROTO_HEADER_SIZE then Some (False, ctx, w)
           else do {
             payload_len \<leftarrow> read_u16_le (cx_rx_buffer ctx) 12;
             let total_len = UPROTO_HEADER_SIZE + unat payload_len + 2;
             if unat payload_len > UPROTO_MAX_PAYLOAD then do {
               ctx \<leftarrow> rx_discard 2 ctx;
               Some (True, ctx, w)
             }
             else if cx_rx_pos ctx < total_len then Some (False, ctx, w)
             else do {
               (err, frame) \<leftarrow> uproto_decode_frame (cx_rx_buffer ctx) total_len blank_frame;
               (ctx, w) \<leftarrow>
                 (if err = UPROTO_OK then uproto_handle_frame env frame (ctx, w)
                  else if err = UPROTO_ERR_CRC then
                    uproto_fire_event env ''crc_error''
                      (ctx\<lparr>cx_stats := (cx_stats ctx)\<lparr>st_crc_errors := st_crc_errors (cx_stats ctx) + 1\<rparr>\<rparr>, w)
                  else Some (ctx, w));
               ctx \<leftarrow> rx_discard total_len ctx;
               Some (True, ctx, w)
             }
           }
         }
     })"

partial_function (option) uproto_process_rx_buffer ::
  "'w uproto_env \<Rightarrow> uproto_context \<times> 'w \<Rightarrow> (uproto_context \<times> 'w) option" where
  "uproto_process_rx_buffer env s = do {
     (more, s') \<leftarrow> rx_step env s;
     if more then uproto_process_rx_buffer env s' else Some s'
   }"

fun rx_store :: "u8 list \<Rightarrow> uproto_context \<Rightarrow> uproto_context option" where
  "rx_store [] ctx = Some ctx"
| "rx_store (b # bs) ctx =
     (if cx_rx_pos ctx < UPROTO_RX_BUFFER_SIZE then do {
        buf \<leftarrow> mem_set (cx_rx_buffer ctx) (cx_rx_pos ctx) b;
        rx_store bs (ctx\<lparr>cx_rx_buffer := buf, cx_rx_pos := cx_rx_pos ctx + 1\<rparr>)
      } else rx_store bs (ctx\<lparr>cx_rx_pos := 0\<rparr>))"

definition uproto_on_rx_bytes ::
  "'w uproto_env \<Rightarrow> u8 list \<Rightarrow> nat \<Rightarrow> uproto_context \<times> 'w \<Rightarrow> (uproto_context \<times> 'w) option" where
  "uproto_on_rx_bytes env data len s = (case s of (ctx, w) \<Rightarrow> do {
     bs \<leftarrow> mem_read data 0 len;
     ctx \<leftarrow> rx_store bs ctx;
     uproto_process_rx_buffer env (ctx, w)
   })"

section \<open>Initialisation, handshake, tick\<close>

definition zero_transaction :: uproto_transaction where
  "zero_transaction = \<lparr>tr_state = TXN_STATE_FREE, tr_txn_id = 0, tr_type = 0, tr_retry_count = 0,
     tr_max_retries = 0, tr_timeout_ms = 0, tr_start_time = 0, tr_last_tx_time = 0, tr_callback = None,
     tr_user = 0, tr_tx_data = tx_buffer, tr_tx_len = 0\<rparr>"

definition zero_handler :: uproto_handler_entry where
  "zero_handler = \<lparr>he_type = 0, he_handler = None, he_user = 0\<rparr>"

definition default_config :: uproto_config where
  "default_config = \<lparr>cf_handshake_timeout_ms = 0, cf_heartbeat_interval_ms = 0,
     cf_default_timeout_ms = 3000, cf_default_retries = 3, cf_enable_auto_handshake = False,
     cf_event_cb = None, cf_event_user = 0\<rparr>"

definition uproto_init ::
  "uproto_port_ops \<Rightarrow> uproto_time_ops \<Rightarrow> uproto_config option \<Rightarrow> uproto_context" where
  "uproto_init port_ops time_ops config =
     \<lparr>cx_state = UPROTO_STATE_IDLE, cx_local_seq = 0, cx_remote_seq = 0, cx_last_rx_time = 0,
      cx_last_tx_time = 0, cx_handshake_start_time = 0,
      cx_config = (case config of Some c \<Rightarrow> c | None \<Rightarrow> default_config),
      cx_port = port_ops, cx_time = time_ops,
      cx_transactions = replicate UPROTO_MAX_TRANSACTIONS zero_transaction, cx_next_txn_id = 1,
      cx_handlers = replicate UPROTO_MAX_HANDLERS zero_handler, cx_handler_count = 0,
      cx_rx_buffer = replicate UPROTO_RX_BUFFER_SIZE 0, cx_rx_pos = 0,
      cx_stats = \<lparr>st_tx_frames = 0, st_rx_frames = 0, st_crc_errors = 0, st_timeouts = 0, st_retries = 0\<rparr>\<rparr>"

definition uproto_start_handshake ::
  "'w uproto_env \<Rightarrow> uproto_context \<times> 'w \<Rightarrow> (uproto_error \<times> uproto_context \<times> 'w) option" where
  "uproto_start_handshake env s = (case s of (ctx, w) \<Rightarrow>
     if cx_state ctx \<noteq> UPROTO_STATE_IDLE then Some (UPROTO_ERR_BUSY, ctx, w)
     else do {
       let ctx = ctx\<lparr>cx_state := UPROTO_STATE_HANDSHAKING\<rparr>;
       let (now, w) = uproto_now env (ctx, w);
       let ctx = ctx\<lparr>cx_handshake_start_time := now\<rparr>;
       uproto_send_request env UPROTO_MSG_HELLO None 0 (cf_handshake_timeout_ms (cx_config ctx))
         (cf_default_retries (cx_config ctx)) None 0 (ctx, w)
     })"

definition uproto_is_established :: "uproto_context \<Rightarrow> bool" where
  "uproto_is_established ctx \<longleftrightarrow> cx_state ctx = UPROTO_STATE_ESTABLISHED"

text \<open>One transaction slot of the tick.\<close>

definition tick_txn ::
  "'w uproto_env \<Rightarrow> u32 \<Rightarrow> nat \<Rightarrow> uproto_context \<times> 'w \<Rightarrow> (uproto_context \<times> 'w) option" where
  "tick_txn env now i s = (case s of (ctx, w) \<Rightarrow> do {
     let txn = cx_transactions ctx ! i;
     if tr_state txn \<noteq> TXN_STATE_WAITING then Some (ctx, w)
     else if now - tr_last_tx_time txn \<ge> tr_timeout_ms txn then
       (if tr_retry_count txn < tr_max_retries txn then do {
          let ctx = update_txn i (\<lambda>t. t\<lparr>tr_retry_count := tr_retry_count t + 1, tr_last_tx_time := now\<rparr>) ctx;
          wr \<leftarrow> po_write (cx_port ctx);
          data \<leftarrow> mem_read (tr_tx_data txn) 0 (tr_tx_len txn);
          let (_, w) = env_write env wr (po_user (cx_port ctx)) data w;
          let w = uproto_flush env ctx w;
          let ctx = ctx\<lparr>cx_stats := (cx_stats ctx)\<lparr>st_retries := st_retries (cx_stats ctx) + 1\<rparr>\<rparr>;
          uproto_fire_event env ''retry'' (ctx, w)
        } else do {
          let ctx = ctx\<lparr>cx_stats := (cx_stats ctx)\<lparr>st_timeouts := st_timeouts (cx_stats ctx) + 1\<rparr>\<rparr>;
          s \<leftarrow> uproto_fire_event env ''timeout'' (ctx, w);
          uproto_complete_transaction env i UPROTO_ERR_TIMEOUT None 0 s
        })
     else Some (ctx, w)
   })"

fun tick_txns ::
  "'w uproto_env \<Rightarrow> u32 \<Rightarrow> nat list \<Rightarrow> uproto_context \<times> 'w \<Rightarrow> (uproto_context \<times> 'w) option" where
  "tick_txns env now [] s = Some s"
| "tick_txns env now (i # is) s = do { s \<leftarrow> tick_txn env now i s; tick_txns env now is s }"

definition tick_handshake ::
  "'w uproto_env \<Rightarrow> u32 \<Rightarrow> uproto_context \<times> 'w \<Rightarrow> (uproto_context \<times> 'w) option" where
  "tick_handshake env now s = (case s of (ctx, w) \<Rightarrow>
     if cx_state ctx = UPROTO_STATE_HANDSHAKING \<and> cf_handshake_timeout_ms (cx_config ctx) > 0 \<and>
        now - cx_handshake_start_time ctx > cf_handshake_timeout_ms (cx_config ctx)
     then uproto_fire_event env ''handshake_timeout'' (ctx\<lparr>cx_state := UPROTO_STATE_IDLE\<rparr>, w)
     else Some (ctx, w))"

definition tick_heartbeat ::
  "'w uproto_env \<Rightarrow> u32 \<Rightarrow> uproto_context \<times> 'w \<Rightarrow> (uproto_context \<times> 'w) option" where
  "tick_heartbeat env now s = (case s of (ctx, w) \<Rightarrow>
     if cf_heartbeat_interval_ms (cx_config ctx) > 0 \<and> cx_state ctx = UPROTO_STATE_ESTABLISHED \<and>
        now - cx_last_tx_time ctx \<ge> cf_heartbeat_interval_ms (cx_config ctx)
     then do {
       (_, s) \<leftarrow> uproto_send_request env UPROTO_MSG_PING None 0 (cf_default_timeout_ms (cx_config ctx)) 0 None 0 (ctx, w);
       Some s
     }
     else Some (ctx, w))"

definition uproto_tick ::
  "'w uproto_env \<Rightarrow> uproto_context \<times> 'w \<Rightarrow> (uproto_context \<times> 'w) option" where
  "uproto_tick env s = (case s of (ctx, w) \<Rightarrow> do {
     let (now, w) = uproto_now env (ctx, w);
     s \<leftarrow> tick_handshake env now (ctx, w);
     s \<leftarrow> tick_txns env now [0..<UPROTO_MAX_TRANSACTIONS] s;
     tick_heartbeat env now s
   })"

section \<open>Handlers and statistics\<close>

definition uproto_register_handler ::
  "u8 \<Rightarrow> fn_ptr option \<Rightarrow> user_ptr \<Rightarrow> uproto_context \<Rightarrow> uproto_error \<times> uproto_context" where
  "uproto_register_handler type handler user ctx =
     (if cx_handler_count ctx \<ge> UPROTO_MAX_HANDLERS then (UPROTO_ERR_NO_MEMORY, ctx)
      else (UPROTO_OK, ctx\<lparr>
        cx_handlers := (cx_handlers ctx)[cx_handler_count ctx :=
          \<lparr>he_type = type, he_handler = handler, he_user = user\<rparr>],
        cx_handler_count := cx_handler_count ctx + 1\<rparr>))"

text \<open>The four output parameters: \<open>None\<close> a null pointer, \<open>Some\<close> the pointed-to value.\<close>

definition uproto_get_stats ::
  "uproto_context \<Rightarrow> u32 option \<Rightarrow> u32 option \<Rightarrow> u32 option \<Rightarrow> u32 option \<Rightarrow>
     u32 option \<times> u32 option \<times> u32 option \<times> u32 option" where
  "uproto_get_stats ctx tx_frames rx_frames crc_errors timeouts =
     (map_option (\<lambda>_. st_tx_frames (cx_stats ctx)) tx_frames,
      map_option (\<lambda>_. st_rx_frames (cx_stats ctx)) rx_frames,
      map_option (\<lambda>_. st_crc_errors (cx_stats ctx)) crc_errors,
      map_option (\<lambda>_. st_timeouts (cx_stats ctx)) timeouts)"

section \<open>Well-formed contexts\<close>

text \<open>
  The invariant of a context: the arrays have their declared sizes, the counts are within them, every
  registered handler and the port's \<^verbatim>\<open>write\<close> can be called. \<open>same_setup\<close> is what no operation changes.
\<close>

definition wf_txn :: "uproto_transaction \<Rightarrow> bool" where
  "wf_txn t \<longleftrightarrow> length (tr_tx_data t) = 274 \<and> tr_tx_len t \<le> 274"

definition wf_ctx :: "uproto_context \<Rightarrow> bool" where
  "wf_ctx ctx \<longleftrightarrow>
     length (cx_transactions ctx) = UPROTO_MAX_TRANSACTIONS \<and> list_all wf_txn (cx_transactions ctx) \<and>
     length (cx_handlers ctx) = UPROTO_MAX_HANDLERS \<and> cx_handler_count ctx \<le> UPROTO_MAX_HANDLERS \<and>
     list_all (\<lambda>h. he_handler h \<noteq> None) (take (cx_handler_count ctx) (cx_handlers ctx)) \<and>
     po_write (cx_port ctx) \<noteq> None \<and>
     length (cx_rx_buffer ctx) = UPROTO_RX_BUFFER_SIZE \<and> cx_rx_pos ctx \<le> UPROTO_RX_BUFFER_SIZE"

definition same_setup :: "uproto_context \<Rightarrow> uproto_context \<Rightarrow> bool" where
  "same_setup ctx ctx' \<longleftrightarrow>
     cx_config ctx' = cx_config ctx \<and> cx_port ctx' = cx_port ctx \<and> cx_time ctx' = cx_time ctx"

definition set_rx :: "u8 list \<Rightarrow> nat \<Rightarrow> uproto_context \<Rightarrow> uproto_context" where
  "set_rx b p ctx = ctx\<lparr>cx_rx_buffer := b, cx_rx_pos := p\<rparr>"

lemma wf_ctx_updates [simp]:
  "wf_ctx (ctx\<lparr>cx_state := st\<rparr>) = wf_ctx ctx"
  "wf_ctx (ctx\<lparr>cx_local_seq := q\<rparr>) = wf_ctx ctx"
  "wf_ctx (ctx\<lparr>cx_remote_seq := q\<rparr>) = wf_ctx ctx"
  "wf_ctx (ctx\<lparr>cx_last_rx_time := t\<rparr>) = wf_ctx ctx"
  "wf_ctx (ctx\<lparr>cx_last_tx_time := t\<rparr>) = wf_ctx ctx"
  "wf_ctx (ctx\<lparr>cx_handshake_start_time := t\<rparr>) = wf_ctx ctx"
  "wf_ctx (ctx\<lparr>cx_next_txn_id := q\<rparr>) = wf_ctx ctx"
  "wf_ctx (ctx\<lparr>cx_stats := ss\<rparr>) = wf_ctx ctx"
  by (simp_all add: wf_ctx_def)

lemma same_setup_refl [simp]: "same_setup ctx ctx"
  by (simp add: same_setup_def)

lemma same_setup_updates [simp]:
  "same_setup c (ctx\<lparr>cx_state := st\<rparr>) = same_setup c ctx"
  "same_setup c (ctx\<lparr>cx_local_seq := q\<rparr>) = same_setup c ctx"
  "same_setup c (ctx\<lparr>cx_remote_seq := q\<rparr>) = same_setup c ctx"
  "same_setup c (ctx\<lparr>cx_last_rx_time := t\<rparr>) = same_setup c ctx"
  "same_setup c (ctx\<lparr>cx_last_tx_time := t\<rparr>) = same_setup c ctx"
  "same_setup c (ctx\<lparr>cx_handshake_start_time := t\<rparr>) = same_setup c ctx"
  "same_setup c (ctx\<lparr>cx_next_txn_id := q\<rparr>) = same_setup c ctx"
  "same_setup c (ctx\<lparr>cx_stats := ss\<rparr>) = same_setup c ctx"
  "same_setup c (ctx\<lparr>cx_rx_buffer := b\<rparr>) = same_setup c ctx"
  "same_setup c (ctx\<lparr>cx_rx_pos := n\<rparr>) = same_setup c ctx"
  "same_setup c (update_txn i f ctx) = same_setup c ctx"
  by (simp_all add: same_setup_def update_txn_def)

lemma same_setup_trans: "same_setup a b \<Longrightarrow> same_setup b c \<Longrightarrow> same_setup a c"
  by (simp add: same_setup_def)

lemma update_txn_select [simp]:
  "cx_state (update_txn i f ctx) = cx_state ctx" "cx_local_seq (update_txn i f ctx) = cx_local_seq ctx"
  "cx_config (update_txn i f ctx) = cx_config ctx" "cx_port (update_txn i f ctx) = cx_port ctx"
  "cx_time (update_txn i f ctx) = cx_time ctx" "cx_stats (update_txn i f ctx) = cx_stats ctx"
  "cx_handlers (update_txn i f ctx) = cx_handlers ctx"
  "cx_handler_count (update_txn i f ctx) = cx_handler_count ctx"
  "cx_rx_buffer (update_txn i f ctx) = cx_rx_buffer ctx" "cx_rx_pos (update_txn i f ctx) = cx_rx_pos ctx"
  "cx_transactions (update_txn i f ctx) = (cx_transactions ctx)[i := f (cx_transactions ctx ! i)]"
  by (simp_all add: update_txn_def)

lemma wf_ctx_update_txn:
  "wf_ctx ctx \<Longrightarrow> (\<And>t. wf_txn t \<Longrightarrow> wf_txn (f t)) \<Longrightarrow> wf_ctx (update_txn i f ctx)"
  unfolding wf_ctx_def update_txn_def
  by (cases "i < length (cx_transactions ctx)") (auto simp: list_all_length nth_list_update)

lemma wf_ctx_txn: "wf_ctx ctx \<Longrightarrow> i < UPROTO_MAX_TRANSACTIONS \<Longrightarrow> wf_txn (cx_transactions ctx ! i)"
  by (simp add: wf_ctx_def list_all_length)

lemma wf_ctx_handler:
  "wf_ctx ctx \<Longrightarrow> i < cx_handler_count ctx \<Longrightarrow> he_handler (cx_handlers ctx ! i) \<noteq> None"
  by (auto simp: wf_ctx_def list_all_length)

lemma wf_ctx_write: "wf_ctx ctx \<Longrightarrow> \<exists>f. po_write (cx_port ctx) = Some f"
  by (simp add: wf_ctx_def)

lemma wf_ctx_set_rx:
  "wf_ctx ctx \<Longrightarrow> length b = UPROTO_RX_BUFFER_SIZE \<Longrightarrow> p \<le> UPROTO_RX_BUFFER_SIZE \<Longrightarrow> wf_ctx (set_rx b p ctx)"
  by (simp add: wf_ctx_def set_rx_def)

lemma find_Some_upt: "find P [0..<n] = Some i \<Longrightarrow> i < n \<and> P i"
  by (metis find_Some_iff add.left_neutral diff_zero length_upt nth_upt)

lemma alloc_Some:
  "uproto_alloc_transaction ctx = Some i \<Longrightarrow>
     i < UPROTO_MAX_TRANSACTIONS \<and> tr_state (cx_transactions ctx ! i) = TXN_STATE_FREE"
  unfolding uproto_alloc_transaction_def by (drule find_Some_upt) simp

lemma find_txn_Some:
  "uproto_find_transaction ctx tid = Some i \<Longrightarrow> i < UPROTO_MAX_TRANSACTIONS \<and>
     tr_state (cx_transactions ctx ! i) \<noteq> TXN_STATE_FREE \<and> tr_txn_id (cx_transactions ctx ! i) = tid"
  unfolding uproto_find_transaction_def by (drule find_Some_upt) simp

lemma find_handler_Some:
  "find_handler ctx t = Some i \<Longrightarrow> i < cx_handler_count ctx \<and> he_type (cx_handlers ctx ! i) = t"
  unfolding find_handler_def by (rule find_Some_upt)

section \<open>The contract of the callbacks\<close>

text \<open>
  \<open>keeps W f\<close>: from a well-formed context and a good world, \<open>f\<close> returns, with the same again.
  \<open>rx_free f\<close>: \<open>f\<close> neither reads nor writes the receive buffer.
\<close>

type_synonym 'w uproto_st = "uproto_context \<times> 'w"

definition keeps :: "('w \<Rightarrow> bool) \<Rightarrow> ('w uproto_st \<Rightarrow> 'w uproto_st option) \<Rightarrow> bool" where
  "keeps W f \<longleftrightarrow> (\<forall>ctx w. wf_ctx ctx \<longrightarrow> W w \<longrightarrow>
     (\<exists>ctx' w'. f (ctx, w) = Some (ctx', w') \<and> wf_ctx ctx' \<and> same_setup ctx ctx' \<and> W w'))"

definition rx_free :: "('w uproto_st \<Rightarrow> 'w uproto_st option) \<Rightarrow> bool" where
  "rx_free f \<longleftrightarrow> (\<forall>b p ctx w.
     f (set_rx b p ctx, w) = map_option (\<lambda>(ctx, w). (set_rx b p ctx, w)) (f (ctx, w)))"

definition drop_result :: "('w uproto_st \<Rightarrow> ('r \<times> 'w uproto_st) option) \<Rightarrow> 'w uproto_st \<Rightarrow> 'w uproto_st option" where
  "drop_result f s = map_option snd (f s)"

text \<open>The same, of one result: what a call from \<open>ctx\<close> returned.\<close>

definition safe :: "('w \<Rightarrow> bool) \<Rightarrow> uproto_context \<Rightarrow> 'w uproto_st option \<Rightarrow> bool" where
  "safe W ctx r \<longleftrightarrow> (\<exists>ctx' w'. r = Some (ctx', w') \<and> wf_ctx ctx' \<and> same_setup ctx ctx' \<and> W w')"

lemma keeps_safe: "keeps W f \<longleftrightarrow> (\<forall>ctx w. wf_ctx ctx \<longrightarrow> W w \<longrightarrow> safe W ctx (f (ctx, w)))"
  by (simp add: keeps_def safe_def)

lemma safe_Some [simp]: "safe W ctx (Some (ctx', w)) \<longleftrightarrow> wf_ctx ctx' \<and> same_setup ctx ctx' \<and> W w"
  by (simp add: safe_def)

lemma safe_from: "same_setup ctx c \<Longrightarrow> safe W c r \<Longrightarrow> safe W ctx r"
  unfolding safe_def by (metis same_setup_trans)

lemma safe_call: "keeps W f \<Longrightarrow> wf_ctx c \<Longrightarrow> W w \<Longrightarrow> same_setup ctx c \<Longrightarrow> safe W ctx (f (c, w))"
  unfolding keeps_safe by (metis safe_from)

lemma safe_bind:
  assumes "safe W ctx r" and "\<And>c w. wf_ctx c \<Longrightarrow> same_setup ctx c \<Longrightarrow> W w \<Longrightarrow> safe W ctx (g (c, w))"
  shows "safe W ctx (Option.bind r g)"
  using assms unfolding safe_def by auto

lemma safe_bind_result:
  assumes "safe W ctx (map_option snd r)"
    and "\<And>e c w. wf_ctx c \<Longrightarrow> same_setup ctx c \<Longrightarrow> W w \<Longrightarrow> safe W ctx (g (e, c, w))"
  shows "safe W ctx (Option.bind r g)"
  using assms unfolding safe_def by auto

text \<open>Moving a change of the receive buffer out of the other operations.\<close>

lemma set_rx_select [simp]:
  "cx_state (set_rx b p ctx) = cx_state ctx" "cx_local_seq (set_rx b p ctx) = cx_local_seq ctx"
  "cx_remote_seq (set_rx b p ctx) = cx_remote_seq ctx" "cx_last_rx_time (set_rx b p ctx) = cx_last_rx_time ctx"
  "cx_last_tx_time (set_rx b p ctx) = cx_last_tx_time ctx"
  "cx_handshake_start_time (set_rx b p ctx) = cx_handshake_start_time ctx"
  "cx_config (set_rx b p ctx) = cx_config ctx" "cx_port (set_rx b p ctx) = cx_port ctx"
  "cx_time (set_rx b p ctx) = cx_time ctx" "cx_transactions (set_rx b p ctx) = cx_transactions ctx"
  "cx_next_txn_id (set_rx b p ctx) = cx_next_txn_id ctx" "cx_handlers (set_rx b p ctx) = cx_handlers ctx"
  "cx_handler_count (set_rx b p ctx) = cx_handler_count ctx" "cx_stats (set_rx b p ctx) = cx_stats ctx"
  "cx_rx_buffer (set_rx b p ctx) = b" "cx_rx_pos (set_rx b p ctx) = p"
  by (simp_all add: set_rx_def)

lemma set_rx_update [simp]:
  "(set_rx b p ctx)\<lparr>cx_state := st\<rparr> = set_rx b p (ctx\<lparr>cx_state := st\<rparr>)"
  "(set_rx b p ctx)\<lparr>cx_local_seq := q\<rparr> = set_rx b p (ctx\<lparr>cx_local_seq := q\<rparr>)"
  "(set_rx b p ctx)\<lparr>cx_remote_seq := q\<rparr> = set_rx b p (ctx\<lparr>cx_remote_seq := q\<rparr>)"
  "(set_rx b p ctx)\<lparr>cx_last_rx_time := t\<rparr> = set_rx b p (ctx\<lparr>cx_last_rx_time := t\<rparr>)"
  "(set_rx b p ctx)\<lparr>cx_last_tx_time := t\<rparr> = set_rx b p (ctx\<lparr>cx_last_tx_time := t\<rparr>)"
  "(set_rx b p ctx)\<lparr>cx_handshake_start_time := t\<rparr> = set_rx b p (ctx\<lparr>cx_handshake_start_time := t\<rparr>)"
  "(set_rx b p ctx)\<lparr>cx_next_txn_id := q\<rparr> = set_rx b p (ctx\<lparr>cx_next_txn_id := q\<rparr>)"
  "(set_rx b p ctx)\<lparr>cx_stats := ss\<rparr> = set_rx b p (ctx\<lparr>cx_stats := ss\<rparr>)"
  "update_txn i f (set_rx b p ctx) = set_rx b p (update_txn i f ctx)"
  by (simp_all add: set_rx_def update_txn_def)

lemma set_rx_id [simp]: "set_rx (cx_rx_buffer ctx) (cx_rx_pos ctx) ctx = ctx"
  by (simp add: set_rx_def)

lemma set_rx_set_rx [simp]: "set_rx b p (set_rx b' p' ctx) = set_rx b p ctx"
  by (simp add: set_rx_def)

lemma set_rx_tables [simp]:
  "uproto_alloc_transaction (set_rx b p ctx) = uproto_alloc_transaction ctx"
  "uproto_find_transaction (set_rx b p ctx) tid = uproto_find_transaction ctx tid"
  "find_handler (set_rx b p ctx) t = find_handler ctx t"
  "uproto_now env (set_rx b p ctx, w) = uproto_now env (ctx, w)"
  "uproto_flush env (set_rx b p ctx) = uproto_flush env ctx"
  by (simp_all add: uproto_alloc_transaction_def uproto_find_transaction_def find_handler_def
      uproto_now_def uproto_flush_def fun_eq_iff split: option.splits)

lemma rx_freeD: "rx_free f \<Longrightarrow> f (set_rx b p ctx, w) = map_option (\<lambda>(ctx, w). (set_rx b p ctx, w)) (f (ctx, w))"
  by (simp add: rx_free_def)

lemma rx_free_same:
  assumes "rx_free f" and "f (ctx, w) = Some (ctx', w')"
  shows "cx_rx_buffer ctx' = cx_rx_buffer ctx \<and> cx_rx_pos ctx' = cx_rx_pos ctx"
proof -
  have "f (ctx, w) = map_option (\<lambda>(c, w). (set_rx (cx_rx_buffer ctx) (cx_rx_pos ctx) c, w)) (f (ctx, w))"
    using rx_freeD [OF assms(1), of "cx_rx_buffer ctx" "cx_rx_pos ctx" ctx w] by simp
  then have "ctx' = set_rx (cx_rx_buffer ctx) (cx_rx_pos ctx) ctx'" using assms(2) by simp
  then show ?thesis by (metis set_rx_select(15,16))
qed

lemma bind_map_option: "Option.bind (map_option h r) g = Option.bind r (\<lambda>x. g (h x))"
  by (cases r) simp_all

lemma map_option_bind: "map_option h (Option.bind r g) = Option.bind r (\<lambda>x. map_option h (g x))"
  by (cases r) simp_all

locale uproto_callbacks =
  fixes env :: "'w uproto_env" and W :: "'w \<Rightarrow> bool"
  assumes write_W: "W w \<Longrightarrow> W (snd (env_write env f u bs w))"
    and flush_W: "W w \<Longrightarrow> W (env_flush env f u w)"
    and now_W: "W w \<Longrightarrow> W (snd (env_now env f u w))"
    and event_keeps: "keeps W (env_event env f ev u)"
    and event_rx: "rx_free (env_event env f ev u)"
    and txn_keeps: "keeps W (env_txn_callback env f u err rsp n)"
    and txn_rx: "rx_free (env_txn_callback env f u err rsp n)"
    and handler_keeps: "length data = n \<Longrightarrow> n \<le> UPROTO_MAX_PAYLOAD \<Longrightarrow> keeps W (env_msg_handler env f tid data n u)"
    and handler_rx: "rx_free (env_msg_handler env f tid data n u)"
begin

lemma flush_keeps_W: "W w \<Longrightarrow> W (uproto_flush env ctx w)"
  by (simp add: uproto_flush_def flush_W split: option.splits)

lemma now_keeps_W: "W w \<Longrightarrow> uproto_now env (ctx, w) = (t, w') \<Longrightarrow> W w'"
  unfolding uproto_now_def by (auto split: option.splits) (metis now_W snd_conv)

lemma keeps_fire_event: "keeps W (uproto_fire_event env ev)"
  using event_keeps by (auto simp: keeps_def uproto_fire_event_def split: option.splits)

lemma send_frame_safe:
  assumes "n \<le> UPROTO_MAX_PAYLOAD" and "\<And>p. payload = Some p \<Longrightarrow> n \<le> length p"
    and wf: "wf_ctx c" and w: "W w" and "same_setup ctx c"
  shows "safe W ctx (map_option snd (uproto_send_frame env flags type tid payload n (c, w)))"
proof -
  from wf_ctx_write [OF wf] obtain wr where wr: "po_write (cx_port c) = Some wr" ..
  let ?img = "frame_image UPROTO_VERSION flags type 0 tid (cx_local_seq c) 0 (word_of_nat n) (sent_payload payload n)"
  obtain sent w1 where wrt: "env_write env wr (po_user (cx_port c)) ?img w = (sent, w1)" by fastforce
  have w1: "W w1" using write_W [OF w, of wr "po_user (cx_port c)" ?img] by (simp add: wrt)
  show ?thesis
    using encode_frame_cursor [of n tx_buffer payload flags type tid "cx_local_seq c" 0] assms wr wrt
      w1 now_keeps_W [OF flush_keeps_W [OF w1]]
    by (auto simp: uproto_send_frame_def cursor_def Let_def split: prod.splits)
qed

lemma send_request_safe:
  assumes "\<And>p. payload = Some p \<Longrightarrow> n \<le> length p" and wf: "wf_ctx c" and w: "W w" and ss: "same_setup ctx c"
  shows "safe W ctx (map_option snd (uproto_send_request env type payload n timeout retries cb user (c, w)))"
proof (cases "n > UPROTO_MAX_PAYLOAD \<or> uproto_alloc_transaction c = None")
  case True
  then show ?thesis using assms by (auto simp: uproto_send_request_def)
next
  case False
  then obtain i where i: "uproto_alloc_transaction c = Some i" and n: "n \<le> 256" by auto
  from wf_ctx_write [OF wf] obtain wr where wr: "po_write (cx_port c) = Some wr" ..
  let ?img = "frame_image UPROTO_VERSION UPROTO_FLAG_REQUEST type 0 (cx_next_txn_id c) (cx_local_seq c) 0
    (word_of_nat n) (sent_payload payload n)"
  let ?old = "tr_tx_data (cx_transactions c ! i)"
  obtain sent w1 where wrt: "env_write env wr (po_user (cx_port c)) ?img w = (sent, w1)" by fastforce
  have w1: "W w1" using write_W [OF w, of wr "po_user (cx_port c)" ?img] by (simp add: wrt)
  have len: "length ?old = 274" using wf_ctx_txn [OF wf] alloc_Some [OF i] by (auto simp: wf_txn_def)
  have pl: "length (sent_payload payload n) \<le> 256" using n by (auto simp: sent_payload_def split: option.splits)
  have enc: "uproto_encode_frame ?old UPROTO_FLAG_REQUEST type (cx_next_txn_id c) (cx_local_seq c) 0 payload n =
    Some (cursor ?old ?img)"
    using len n assms(1) by (intro encode_frame_cursor) auto
  show ?thesis
    using n i wr wrt w1 now_keeps_W [OF flush_keeps_W [OF w1]] wf ss len pl
    by (auto simp: uproto_send_request_def enc cursor_def Let_def split: prod.splits
        intro!: wf_ctx_update_txn simp: wf_txn_def)
qed

end

lemma bind_cong_fun: "(\<And>x. f x = g x) \<Longrightarrow> Option.bind r f = Option.bind r g"
  by (cases r) simp_all

text \<open>A frame as the decoder returns it: its length field within the payload array.\<close>

definition wf_frame :: "uproto_frame \<Rightarrow> bool" where
  "wf_frame f \<longleftrightarrow> length (fr_payload f) = UPROTO_MAX_PAYLOAD \<and> unat (fr_len f) \<le> UPROTO_MAX_PAYLOAD"

context uproto_callbacks
begin

lemma fire_event_safe: "wf_ctx c \<Longrightarrow> W w \<Longrightarrow> same_setup ctx c \<Longrightarrow> safe W ctx (uproto_fire_event env ev (c, w))"
  by (rule safe_call [OF keeps_fire_event])

lemma complete_transaction_safe:
  assumes "wf_ctx c" "W w" "same_setup ctx c"
  shows "safe W ctx (uproto_complete_transaction env i err rsp n (c, w))"
proof -
  have "safe W ctx (case tr_callback (cx_transactions c ! i) of
      Some f \<Rightarrow> env_txn_callback env f (tr_user (cx_transactions c ! i)) err rsp n (c, w)
    | None \<Rightarrow> Some (c, w))"
    using assms by (auto intro: safe_call [OF txn_keeps] split: option.splits)
  then show ?thesis
    unfolding uproto_complete_transaction_def fst_conv
    by (rule safe_bind) (auto intro: wf_ctx_update_txn simp: wf_txn_def)
qed

lemma complete_found_safe:
  "wf_ctx c \<Longrightarrow> W w \<Longrightarrow> same_setup ctx c \<Longrightarrow> safe W ctx (complete_found env tid rsp n (c, w))"
  by (auto simp: complete_found_def intro: complete_transaction_safe split: option.splits)

lemma call_handler_safe:
  assumes "wf_ctx c" "W w" "same_setup ctx c" "find_handler c t = Some i" "length data = n" "n \<le> UPROTO_MAX_PAYLOAD"
  shows "safe W ctx (call_handler env i tid data n (c, w))"
proof -
  from find_handler_Some [OF assms(4)] have "i < cx_handler_count c" ..
  from wf_ctx_handler [OF assms(1) this] obtain f where "he_handler (cx_handlers c ! i) = Some f" by auto
  then show ?thesis
    using assms by (auto simp: call_handler_def intro: safe_call [OF handler_keeps])
qed

lemma handle_frame_safe:
  assumes "wf_frame frame" "wf_ctx c" "W w"
  shows "safe W c (uproto_handle_frame env frame (c, w))"
proof -
  obtain t w1 where now: "uproto_now env (c\<lparr>cx_stats := (cx_stats c)\<lparr>st_rx_frames := st_rx_frames (cx_stats c) + 1\<rparr>\<rparr>, w) = (t, w1)"
    by fastforce
  let ?c = "c\<lparr>cx_stats := (cx_stats c)\<lparr>st_rx_frames := st_rx_frames (cx_stats c) + 1\<rparr>,
    cx_last_rx_time := t, cx_remote_seq := fr_seq frame\<rparr>"
  have base: "wf_ctx ?c" "W w1" "same_setup c ?c"
    using assms(2) now_keeps_W [OF assms(3) now] by simp_all
  have send: "safe W c (map_option snd (uproto_send_frame env flags type tid None 0 (?c, w1)))" for flags type tid
    using base by (intro send_frame_safe) simp_all
  have hello: "safe W c (if cx_state x = UPROTO_STATE_IDLE \<or> cx_state x = UPROTO_STATE_HANDSHAKING
       then uproto_fire_event env ''handshake_completed'' (x\<lparr>cx_state := UPROTO_STATE_ESTABLISHED\<rparr>, v)
       else Some (x, v))" if "wf_ctx x" "same_setup c x" "W v" for x v
    using that by (simp add: fire_event_safe)
  have len: "length (take (unat (fr_len frame)) (fr_payload frame)) = unat (fr_len frame)"
    "unat (fr_len frame) \<le> 256"
    using assms(1) by (simp_all add: wf_frame_def)
  show ?thesis
    unfolding uproto_handle_frame_def prod.case Let_def now
    using base len
    by (auto intro!: safe_bind_result [OF send] safe_bind [OF fire_event_safe] hello complete_found_safe
        call_handler_safe split: option.splits simp del: length_take)
qed

lemma rx_free_fire_event: "rx_free (uproto_fire_event env ev)"
  using event_rx by (simp add: rx_free_def uproto_fire_event_def split: option.splits)

lemma rx_send_frame:
  "uproto_send_frame env flags type tid payload n (set_rx b p ctx, w) =
     map_option (\<lambda>(e, ctx, w). (e, set_rx b p ctx, w)) (uproto_send_frame env flags type tid payload n (ctx, w))"
  unfolding uproto_send_frame_def prod.case
  by (auto simp: map_option_bind Let_def split: option.splits prod.splits intro!: bind_cong_fun)

lemma rx_free_complete_transaction: "rx_free (uproto_complete_transaction env i err rsp n)"
  unfolding rx_free_def uproto_complete_transaction_def
  by (auto simp: rx_freeD [OF txn_rx] map_option_bind bind_map_option split_beta split: option.splits)

lemma rx_free_complete_found: "rx_free (complete_found env tid rsp n)"
  using rx_free_complete_transaction by (simp add: rx_free_def complete_found_def split: option.splits)

lemma rx_free_call_handler: "rx_free (call_handler env i tid data n)"
  unfolding rx_free_def call_handler_def
  by (simp add: rx_freeD [OF handler_rx] map_option_bind)

lemmas rx_frees = rx_freeD [OF rx_free_fire_event] rx_send_frame rx_freeD [OF rx_free_complete_found]
  rx_freeD [OF rx_free_call_handler]

lemma rx_free_handle_frame: "rx_free (uproto_handle_frame env frame)"
  unfolding rx_free_def uproto_handle_frame_def Let_def
  by (auto simp: rx_frees map_option_bind bind_map_option split_beta split: option.splits
      intro!: bind_cong_fun)

end

section \<open>The stream decoder returns\<close>

text \<open>The bytes received and not yet consumed.\<close>

definition rx_pending :: "uproto_context \<Rightarrow> u8 list" where
  "rx_pending ctx = take (cx_rx_pos ctx) (cx_rx_buffer ctx)"

lemma rx_pending_length: "wf_ctx ctx \<Longrightarrow> length (rx_pending ctx) = cx_rx_pos ctx"
  by (simp add: rx_pending_def wf_ctx_def)

definition magic_at :: "u8 list \<Rightarrow> nat \<Rightarrow> bool" where
  "magic_at bs i \<longleftrightarrow> i + 1 < length bs \<and> bs ! i = UPROTO_MAGIC_0 \<and> bs ! (i + 1) = UPROTO_MAGIC_1"

lemma find_magic_spec:
  "i + k < length buf \<Longrightarrow>
     find_magic buf i k = Some (find (magic_at buf) [i..<i + k])"
proof (induction k arbitrary: i)
  case (Suc k)
  have "[i..<i + Suc k] = i # [Suc i..<Suc i + k]" by (simp add: upt_conv_Cons)
  with Suc.prems Suc.IH [of "Suc i"] show ?case
    by (auto simp: mem_get_in magic_at_def)
qed simp

lemma rx_discard_eq:
  assumes "wf_ctx ctx" and "n \<le> cx_rx_pos ctx"
  shows "rx_discard n ctx = Some (set_rx
    (drop n (rx_pending ctx) @ drop (cx_rx_pos ctx - n) (cx_rx_buffer ctx)) (cx_rx_pos ctx - n) ctx)"
  using assms unfolding rx_discard_def wf_ctx_def
  by (auto simp: platform_memmove_def mem_read_in mem_write_in set_rx_def rx_pending_def drop_take)

lemma rx_discard_wf:
  assumes "wf_ctx ctx" and "n \<le> cx_rx_pos ctx"
  obtains ctx' where "rx_discard n ctx = Some ctx'" "wf_ctx ctx'" "same_setup ctx ctx'"
    "cx_rx_pos ctx' = cx_rx_pos ctx - n" "rx_pending ctx' = drop n (rx_pending ctx)"
proof
  let ?b = "drop n (rx_pending ctx) @ drop (cx_rx_pos ctx - n) (cx_rx_buffer ctx)"
  let ?c = "set_rx ?b (cx_rx_pos ctx - n) ctx"
  have len: "length ?b = 512" "cx_rx_pos ctx \<le> 512"
    using assms rx_pending_length [OF assms(1)] by (auto simp: wf_ctx_def)
  show "rx_discard n ctx = Some ?c" by (rule rx_discard_eq [OF assms])
  show "wf_ctx ?c" using len by (intro wf_ctx_set_rx assms(1)) auto
  show "same_setup ctx ?c" by (simp add: same_setup_def)
  show "cx_rx_pos ?c = cx_rx_pos ctx - n" by simp
  show "rx_pending ?c = drop n (rx_pending ctx)"
    using rx_pending_length [OF assms(1)] by (simp add: rx_pending_def)
qed

lemma rx_skip_wf:
  assumes "wf_ctx ctx" and "i \<le> cx_rx_pos ctx"
  obtains c where "(if i > 0 then rx_discard i ctx else Some ctx) = Some c" "wf_ctx c" "same_setup ctx c"
    "cx_rx_pos c = cx_rx_pos ctx - i" "rx_pending c = drop i (rx_pending ctx)"
proof (cases "i > 0")
  case True
  then show thesis using rx_discard_wf [OF assms] that by auto
next
  case False
  then show thesis using assms that [of ctx] by simp
qed

lemma decode_wf_frame:
  assumes "n \<le> length data"
  obtains err f where "uproto_decode_frame data n blank_frame = Some (err, f)"
    and "err = UPROTO_OK \<longrightarrow> wf_frame f"
proof -
  have "length (fr_payload blank_frame) = 256" by (simp add: blank_frame_def)
  from decode_defined [OF assms this] obtain err f
    where d: "uproto_decode_frame data n blank_frame = Some (err, f)" and "length (fr_payload f) = 256" by auto
  moreover from d have "err = UPROTO_OK \<Longrightarrow> unat (fr_len f) \<le> 256"
    using decode_ok_image [of data n blank_frame f] by simp
  ultimately show thesis using that by (auto simp: wf_frame_def)
qed

context uproto_callbacks
begin

text \<open>What the loop does with a complete frame at the start of the buffer, before it is removed.\<close>

lemma frame_action_safe:
  assumes "wf_ctx c" "W w" "err = UPROTO_OK \<longrightarrow> wf_frame frame"
  obtains c' w' where
    "(if err = UPROTO_OK then uproto_handle_frame env frame (c, w)
      else if err = UPROTO_ERR_CRC then
        uproto_fire_event env ''crc_error''
          (c\<lparr>cx_stats := (cx_stats c)\<lparr>st_crc_errors := st_crc_errors (cx_stats c) + 1\<rparr>\<rparr>, w)
      else Some (c, w)) = Some (c', w')"
    "wf_ctx c'" "W w'" "same_setup c c'" "cx_rx_pos c' = cx_rx_pos c" "cx_rx_buffer c' = cx_rx_buffer c"
proof -
  let ?crc = "c\<lparr>cx_stats := (cx_stats c)\<lparr>st_crc_errors := st_crc_errors (cx_stats c) + 1\<rparr>\<rparr>"
  let ?r = "if err = UPROTO_OK then uproto_handle_frame env frame (c, w)
      else if err = UPROTO_ERR_CRC then uproto_fire_event env ''crc_error'' (?crc, w) else Some (c, w)"
  have "safe W c ?r"
    using assms by (auto intro: handle_frame_safe fire_event_safe)
  then obtain c' w' where r: "?r = Some (c', w')" and ok: "wf_ctx c'" "same_setup c c'" "W w'"
    unfolding safe_def by blast
  have "cx_rx_buffer c' = cx_rx_buffer c \<and> cx_rx_pos c' = cx_rx_pos c"
    using r rx_free_same [OF rx_free_handle_frame, of frame c w c' w']
      rx_free_same [OF rx_free_fire_event, of "''crc_error''" ?crc w c' w']
    by (auto split: if_splits)
  with r ok show thesis using that by blast
qed

lemma rx_step_ok:
  assumes wf: "wf_ctx ctx" and w: "W w"
  shows "\<exists>more ctx' w'. rx_step env (ctx, w) = Some (more, ctx', w') \<and> wf_ctx ctx' \<and>
    same_setup ctx ctx' \<and> W w' \<and> (more \<longrightarrow> cx_rx_pos ctx' < cx_rx_pos ctx)"
proof (cases "cx_rx_pos ctx < 18")
  case True
  then show ?thesis using assms by (auto simp: rx_step_def)
next
  case pos: False
  have bounds: "length (cx_rx_buffer ctx) = 512" "cx_rx_pos ctx \<le> 512" using wf by (auto simp: wf_ctx_def)
  let ?r = "find (magic_at (cx_rx_buffer ctx)) [0..<cx_rx_pos ctx - 1]"
  have find: "find_magic (cx_rx_buffer ctx) 0 (cx_rx_pos ctx - 1) = Some ?r"
    using find_magic_spec [of 0 "cx_rx_pos ctx - 1" "cx_rx_buffer ctx"] bounds pos by simp
  show ?thesis
  proof (cases ?r)
    case None
    then show ?thesis using assms pos find by (auto simp: rx_step_def wf_ctx_def)
  next
    case (Some i)
    then have i: "i < cx_rx_pos ctx - 1" using find_Some_upt by blast
    obtain c where c: "(if i > 0 then rx_discard i ctx else Some ctx) = Some c" "wf_ctx c" "same_setup ctx c"
      "cx_rx_pos c = cx_rx_pos ctx - i"
      by (rule rx_skip_wf [OF wf, of i]) (use i in auto)
    have "12 + 2 \<le> length (cx_rx_buffer c)" using c(2) by (simp add: wf_ctx_def)
    then obtain n where n: "read_u16_le (cx_rx_buffer c) 12 = Some n"
      using up16.read_defined by blast
    consider "cx_rx_pos c < 16" | "cx_rx_pos c \<ge> 16" "unat n > 256"
      | "cx_rx_pos c \<ge> 16" "unat n \<le> 256" "cx_rx_pos c < 18 + unat n"
      | "unat n \<le> 256" "cx_rx_pos c \<ge> 18 + unat n" by linarith
    then show ?thesis
    proof cases
      case 1
      then show ?thesis using pos find Some c w by (auto simp: rx_step_def)
    next
      case 2
      then obtain c2 where "rx_discard 2 c = Some c2" "wf_ctx c2" "same_setup c c2" "cx_rx_pos c2 = cx_rx_pos c - 2"
        using rx_discard_wf [OF c(2), of 2] by auto
      then show ?thesis using 2 pos find Some c n w same_setup_trans [OF c(3)]
        by (auto simp: rx_step_def Let_def)
    next
      case 3
      then show ?thesis using pos find Some c n w by (auto simp: rx_step_def Let_def)
    next
      case 4
      have "18 + unat n \<le> length (cx_rx_buffer c)" using 4 c(2) by (simp add: wf_ctx_def)
      then obtain err f where d: "uproto_decode_frame (cx_rx_buffer c) (18 + unat n) blank_frame = Some (err, f)"
        and f: "err = UPROTO_OK \<longrightarrow> wf_frame f" by (rule decode_wf_frame)
      obtain c' w' where a: "(if err = UPROTO_OK then uproto_handle_frame env f (c, w)
          else if err = UPROTO_ERR_CRC then uproto_fire_event env ''crc_error''
            (c\<lparr>cx_stats := (cx_stats c)\<lparr>st_crc_errors := st_crc_errors (cx_stats c) + 1\<rparr>\<rparr>, w)
          else Some (c, w)) = Some (c', w')" "wf_ctx c'" "W w'" "same_setup c c'" "cx_rx_pos c' = cx_rx_pos c"
        using frame_action_safe [OF c(2) w f] by metis
      obtain c2 where "rx_discard (18 + unat n) c' = Some c2" "wf_ctx c2" "same_setup c' c2"
        "cx_rx_pos c2 = cx_rx_pos c' - (18 + unat n)"
        using rx_discard_wf [OF a(2), of "18 + unat n"] a(5) 4 by auto
      then show ?thesis
        using 4 pos find Some c n d a same_setup_trans [OF same_setup_trans [OF c(3) a(4)], of c2]
        by (auto simp: rx_step_def Let_def)
    qed
  qed
qed

lemma process_rx_safe: "wf_ctx ctx \<Longrightarrow> W w \<Longrightarrow> safe W ctx (uproto_process_rx_buffer env (ctx, w))"
proof (induction "cx_rx_pos ctx" arbitrary: ctx w rule: less_induct)
  case less
  from rx_step_ok [OF less.prems] obtain more c v where step: "rx_step env (ctx, w) = Some (more, c, v)"
    "wf_ctx c" "same_setup ctx c" "W v" "more \<longrightarrow> cx_rx_pos c < cx_rx_pos ctx" by blast
  then have "more \<Longrightarrow> safe W ctx (uproto_process_rx_buffer env (c, v))"
    using less.hyps [of c v] safe_from by blast
  then show ?case
    using step by (subst uproto_process_rx_buffer.simps) auto
qed

end

lemma rx_store_append:
  assumes "wf_ctx ctx" and "cx_rx_pos ctx + length bs \<le> UPROTO_RX_BUFFER_SIZE"
  shows "rx_store bs ctx = Some (set_rx
    (rx_pending ctx @ bs @ drop (cx_rx_pos ctx + length bs) (cx_rx_buffer ctx)) (cx_rx_pos ctx + length bs) ctx)"
  using assms
proof (induction bs arbitrary: ctx)
  case Nil
  then show ?case by (simp add: rx_pending_def)
next
  case (Cons b bs)
  let ?c = "ctx\<lparr>cx_rx_buffer := (cx_rx_buffer ctx)[cx_rx_pos ctx := b], cx_rx_pos := cx_rx_pos ctx + 1\<rparr>"
  have len: "length (cx_rx_buffer ctx) = 512" "cx_rx_pos ctx < 512" using Cons.prems by (simp_all add: wf_ctx_def)
  have wf: "wf_ctx ?c" using Cons.prems len by (simp add: wf_ctx_def)
  have pend: "rx_pending ?c = rx_pending ctx @ [b]"
    using len by (simp add: rx_pending_def take_Suc_conv_app_nth)
  have "rx_store (b # bs) ctx = rx_store bs ?c" using len by (simp add: mem_set_def)
  also have "\<dots> = Some (set_rx (rx_pending ?c @ bs @ drop (cx_rx_pos ?c + length bs) (cx_rx_buffer ?c))
      (cx_rx_pos ?c + length bs) ?c)"
    using Cons.prems by (intro Cons.IH wf) simp
  also have "\<dots> = Some (set_rx (rx_pending ctx @ (b # bs) @ drop (cx_rx_pos ctx + length (b # bs)) (cx_rx_buffer ctx))
      (cx_rx_pos ctx + length (b # bs)) ctx)"
    by (simp only: pend) (simp add: set_rx_def)
  finally show ?case .
qed

lemma rx_store_wf:
  "wf_ctx ctx \<Longrightarrow> \<exists>ctx'. rx_store bs ctx = Some ctx' \<and> wf_ctx ctx' \<and> same_setup ctx ctx'"
proof (induction bs arbitrary: ctx)
  case (Cons b bs)
  let ?c = "if cx_rx_pos ctx < 512
    then ctx\<lparr>cx_rx_buffer := (cx_rx_buffer ctx)[cx_rx_pos ctx := b], cx_rx_pos := cx_rx_pos ctx + 1\<rparr>
    else ctx\<lparr>cx_rx_pos := 0\<rparr>"
  have "wf_ctx ?c" "same_setup ctx ?c" using Cons.prems by (simp_all add: wf_ctx_def)
  moreover have "rx_store (b # bs) ctx = rx_store bs ?c"
    using Cons.prems by (simp add: mem_set_def wf_ctx_def)
  moreover from calculation(1) obtain c' where "rx_store bs ?c = Some c'" "wf_ctx c'" "same_setup ?c c'"
    using Cons.IH by blast
  ultimately show ?case by (auto intro: same_setup_trans)
qed simp

context uproto_callbacks
begin

lemma on_rx_bytes_safe:
  assumes "wf_ctx ctx" "W w" "n \<le> length data"
  shows "safe W ctx (uproto_on_rx_bytes env data n (ctx, w))"
proof -
  from rx_store_wf [OF assms(1), of "take n data"] obtain c where
    "rx_store (take n data) ctx = Some c" "wf_ctx c" "same_setup ctx c" by blast
  then show ?thesis
    using assms process_rx_safe [of c w] safe_from [of ctx c]
    by (simp add: uproto_on_rx_bytes_def mem_read_in)
qed

lemma tick_txn_safe:
  assumes "wf_ctx c" "W w" "same_setup ctx c" "i < UPROTO_MAX_TRANSACTIONS"
  shows "safe W ctx (tick_txn env now i (c, w))"
proof -
  from wf_ctx_write [OF assms(1)] obtain wr where wr: "po_write (cx_port c) = Some wr" ..
  let ?t = "cx_transactions c ! i"
  have t: "tr_tx_len ?t \<le> length (tr_tx_data ?t)" using wf_ctx_txn [OF assms(1,4)] by (simp add: wf_txn_def)
  let ?data = "take (tr_tx_len ?t) (tr_tx_data ?t)"
  obtain sent w1 where wrt: "env_write env wr (po_user (cx_port c)) ?data w = (sent, w1)" by fastforce
  have w1: "W w1" using write_W [OF assms(2), of wr "po_user (cx_port c)" ?data] by (simp add: wrt)
  show ?thesis
    unfolding tick_txn_def prod.case Let_def
    using assms wr t wrt flush_keeps_W [OF w1]
    by (auto simp: mem_read_in intro!: fire_event_safe safe_bind [OF fire_event_safe] complete_transaction_safe
        wf_ctx_update_txn simp: wf_txn_def split: prod.splits)
qed

lemma tick_txns_safe:
  "wf_ctx c \<Longrightarrow> W w \<Longrightarrow> same_setup ctx c \<Longrightarrow> \<forall>i \<in> set is. i < UPROTO_MAX_TRANSACTIONS \<Longrightarrow>
     safe W ctx (tick_txns env now is (c, w))"
proof (induction "is" arbitrary: c w)
  case (Cons i "is")
  then have "safe W ctx (tick_txn env now i (c, w))" by (intro tick_txn_safe) auto
  then show ?case using Cons by (auto intro: safe_bind)
qed simp

lemma tick_safe:
  assumes "wf_ctx ctx" "W w"
  shows "safe W ctx (uproto_tick env (ctx, w))"
proof -
  obtain now w1 where now: "uproto_now env (ctx, w) = (now, w1)" by fastforce
  have w1: "W w1" using now_keeps_W [OF assms(2) now] .
  have hs: "safe W ctx (tick_handshake env now (ctx, w1))"
    using assms(1) w1 by (auto simp: tick_handshake_def intro!: fire_event_safe)
  have hb: "safe W ctx (tick_heartbeat env now (c, v))" if "wf_ctx c" "W v" "same_setup ctx c" for c v
    using that unfolding tick_heartbeat_def
    by (auto intro!: safe_bind_result [OF send_request_safe])
  have tt: "safe W ctx (tick_txns env now [0..<UPROTO_MAX_TRANSACTIONS] (c, v))"
    if "wf_ctx c" "W v" "same_setup ctx c" for c v
    using that by (intro tick_txns_safe) auto
  show ?thesis
    unfolding uproto_tick_def prod.case now Let_def
    by (intro safe_bind [OF hs] safe_bind [OF tt] hb)
qed

lemma start_handshake_safe:
  assumes "wf_ctx ctx" "W w"
  shows "safe W ctx (map_option snd (uproto_start_handshake env (ctx, w)))"
proof -
  obtain now w1 where now: "uproto_now env (ctx\<lparr>cx_state := UPROTO_STATE_HANDSHAKING\<rparr>, w) = (now, w1)" by fastforce
  have "W w1" using now_keeps_W [OF assms(2) now] .
  then show ?thesis
    using assms by (auto simp: uproto_start_handshake_def now Let_def intro!: send_request_safe)
qed

end

end
