(* ===== verification/Uproto_Stream.thy ===== *)
theory Uproto_Stream
  imports Uproto
begin

text \<open>
  The stream decoder of \<^verbatim>\<open>core/uproto.c\<close> against its specification: the byte stream of a sequence of
  frames, cut into chunks anyhow, is dispatched frame by frame, each frame once and in order.
\<close>

section \<open>The specification\<close>

definition frame_bytes :: "uproto_frame \<Rightarrow> u8 list" where
  "frame_bytes f = frame_image (fr_version f) (fr_flags f) (fr_type f) (fr_reserved f) (fr_txn_id f)
     (fr_seq f) (fr_ack f) (fr_len f) (take (unat (fr_len f)) (fr_payload f))"

fun handle_frames ::
  "'w uproto_env \<Rightarrow> uproto_frame list \<Rightarrow> uproto_context \<times> 'w \<Rightarrow> (uproto_context \<times> 'w) option" where
  "handle_frames env [] s = Some s"
| "handle_frames env (f # fs) s = do { s \<leftarrow> uproto_handle_frame env f s; handle_frames env fs s }"

text \<open>The receiver's loop: one call of \<^verbatim>\<open>uproto_on_rx_bytes\<close> for each chunk read from the port.\<close>

fun feed :: "'w uproto_env \<Rightarrow> u8 list list \<Rightarrow> uproto_context \<times> 'w \<Rightarrow> (uproto_context \<times> 'w) option" where
  "feed env [] s = Some s"
| "feed env (c # cs) s = do { s \<leftarrow> uproto_on_rx_bytes env c (length c) s; feed env cs s }"

lemma frame_bytes_length: "wf_frame f \<Longrightarrow> length (frame_bytes f) = 18 + unat (fr_len f)"
  by (simp add: frame_bytes_def wf_frame_def)

text \<open>The dispatcher looks only at the fields the wire carries.\<close>

lemma handle_frame_cong:
  assumes "fr_type f = fr_type g" "fr_flags f = fr_flags g" "fr_txn_id f = fr_txn_id g" "fr_seq f = fr_seq g"
    "fr_len f = fr_len g" "take (unat (fr_len g)) (fr_payload f) = take (unat (fr_len g)) (fr_payload g)"
  shows "uproto_handle_frame env f s = uproto_handle_frame env g s"
  unfolding uproto_handle_frame_def Let_def by (simp only: assms)

lemma decode_frame_bytes:
  assumes "wf_frame f"
  obtains g where "uproto_decode_frame (frame_bytes f @ rest) (18 + unat (fr_len f)) blank_frame = Some (UPROTO_OK, g)"
    and "\<And>env s. uproto_handle_frame env g s = uproto_handle_frame env f s"
proof -
  let ?pl = "take (unat (fr_len f)) (fr_payload f)"
  have len: "length ?pl = unat (fr_len f)" "unat (fr_len f) \<le> 256" using assms by (auto simp: wf_frame_def)
  have n: "fr_len f = word_of_nat (length ?pl)" by (simp only: len) simp
  have "uproto_decode_frame (frame_bytes f @ rest) (18 + unat (fr_len f)) blank_frame = Some (UPROTO_OK,
    blank_frame\<lparr>fr_version := fr_version f, fr_flags := fr_flags f, fr_type := fr_type f,
         fr_reserved := fr_reserved f, fr_txn_id := fr_txn_id f, fr_seq := fr_seq f, fr_ack := fr_ack f,
         fr_len := fr_len f, fr_payload := ?pl @ drop (length ?pl) (fr_payload blank_frame)\<rparr>)"
    unfolding frame_bytes_def
    by (intro decode_image n) (use len in \<open>simp_all add: blank_frame_def\<close>)
  moreover have "uproto_handle_frame env (blank_frame\<lparr>fr_version := fr_version f, fr_flags := fr_flags f,
      fr_type := fr_type f, fr_reserved := fr_reserved f, fr_txn_id := fr_txn_id f, fr_seq := fr_seq f,
      fr_ack := fr_ack f, fr_len := fr_len f, fr_payload := ?pl @ drop (length ?pl) (fr_payload blank_frame)\<rparr>) s =
    uproto_handle_frame env f s" for env s
    by (rule handle_frame_cong) (use len in \<open>simp_all del: length_take\<close>)
  ultimately show thesis by (rule that)
qed

section \<open>One round of the loop\<close>

lemma frame_bytes_magic: "magic_at (frame_bytes f @ rest) 0"
  by (simp add: frame_bytes_def frame_image_def with_crc_def frame_head_def magic_at_def)

lemma frame_bytes_len_field:
  assumes "14 \<le> k"
  shows "read_u16_le (take k (frame_bytes f) @ rest) 12 = Some (fr_len f)"
proof -
  let ?h = "frame_head (fr_version f) (fr_flags f) (fr_type f) (fr_reserved f) (fr_txn_id f) (fr_seq f) (fr_ack f) (fr_len f)"
  have "take k (frame_bytes f) @ rest = ?h @ take (k - 14) (drop 14 (frame_bytes f)) @ rest"
    using assms by (simp add: frame_bytes_def frame_image_def with_crc_def take_append)
  then have "take 2 (drop 12 (take k (frame_bytes f) @ rest)) = le16 (fr_len f)"
    by (simp add: frame_head_def)
  then show ?thesis
    using assms by (intro up16.read_at) (simp_all add: frame_bytes_def)
qed

text \<open>The receive buffer is the pending bytes followed by stale ones.\<close>

lemma rx_buffer_split: "cx_rx_buffer ctx = rx_pending ctx @ drop (cx_rx_pos ctx) (cx_rx_buffer ctx)"
  by (simp add: rx_pending_def)

lemma find_magic_pending:
  assumes "wf_ctx ctx" and "18 \<le> cx_rx_pos ctx"
  shows "find_magic (cx_rx_buffer ctx) 0 (cx_rx_pos ctx - 1) =
    Some (find (magic_at (rx_pending ctx)) [0..<cx_rx_pos ctx - 1])"
proof -
  have len: "length (cx_rx_buffer ctx) = 512" "cx_rx_pos ctx \<le> 512" using assms by (auto simp: wf_ctx_def)
  have "find (magic_at (cx_rx_buffer ctx)) [0..<cx_rx_pos ctx - 1] =
      find (magic_at (rx_pending ctx)) [0..<cx_rx_pos ctx - 1]"
    using len by (intro find_cong refl) (auto simp: magic_at_def rx_pending_def)
  then show ?thesis
    using find_magic_spec [of 0 "cx_rx_pos ctx - 1" "cx_rx_buffer ctx"] len assms(2) by simp
qed

lemma find_magic_first:
  assumes "wf_ctx ctx" and "rx_pending ctx = g @ frame" and "magic_at frame 0" and "18 \<le> cx_rx_pos ctx"
    and "\<forall>i < length g. \<not> magic_at (g @ frame) i"
  shows "find_magic (cx_rx_buffer ctx) 0 (cx_rx_pos ctx - 1) = Some (Some (length g))"
proof -
  have len: "length g + 1 < cx_rx_pos ctx"
    using rx_pending_length [OF assms(1)] assms(2,3) by (auto simp: magic_at_def)
  have "find (magic_at (g @ frame)) [0..<cx_rx_pos ctx - 1] = Some (length g)"
    unfolding find_Some_iff using assms(3,5) len
    by (intro exI [of _ "length g"]) (auto simp: magic_at_def nth_append)
  then show ?thesis using find_magic_pending [OF assms(1,4)] assms(2) by simp
qed

lemma rx_step_partial:
  assumes wf: "wf_ctx ctx" "wf_frame f" and p: "rx_pending ctx = take k (frame_bytes f)" "k < length (frame_bytes f)"
  shows "rx_step env (ctx, w) = Some (False, ctx, w)"
proof (cases "cx_rx_pos ctx < 18")
  case False
  have k: "cx_rx_pos ctx = k" using rx_pending_length [OF wf(1)] p by simp
  have "magic_at (take k (frame_bytes f)) 0"
    using frame_bytes_magic [of f "[]"] False k p(2) by (auto simp: magic_at_def)
  then have "find_magic (cx_rx_buffer ctx) 0 (cx_rx_pos ctx - 1) = Some (Some 0)"
    using find_magic_first [OF wf(1), of "[]" "take k (frame_bytes f)"] p(1) False by simp
  moreover have "read_u16_le (cx_rx_buffer ctx) 12 = Some (fr_len f)"
    by (subst rx_buffer_split, subst p(1), rule frame_bytes_len_field) (use False k in simp)
  ultimately show ?thesis
    using False k p(2) frame_bytes_length [OF wf(2)] wf(2) by (simp add: rx_step_def Let_def wf_frame_def)
qed (simp add: rx_step_def)

lemma rx_step_frame:
  fixes env :: "'w uproto_env"
  assumes wf: "wf_ctx ctx" "wf_frame f" and p: "rx_pending ctx = g @ frame_bytes f @ rest"
    and g: "\<forall>i < length g. \<not> magic_at (rx_pending ctx) i"
  shows "\<exists>b. rx_step env (ctx, w) = do {
      (c, w) \<leftarrow> uproto_handle_frame env f (set_rx b (cx_rx_pos ctx - length g) ctx, w);
      c \<leftarrow> rx_discard (length (frame_bytes f)) c;
      Some (True, c, w) } \<and> length b = UPROTO_RX_BUFFER_SIZE \<and>
      take (cx_rx_pos ctx - length g) b = frame_bytes f @ rest"
proof -
  let ?n = "unat (fr_len f)"
  have len: "cx_rx_pos ctx = length g + 18 + ?n + length rest" "length (frame_bytes f) = 18 + ?n" "?n \<le> 256"
    using rx_pending_length [OF wf(1)] p frame_bytes_length [OF wf(2)] wf(2) by (simp_all add: wf_frame_def)
  have find: "find_magic (cx_rx_buffer ctx) 0 (cx_rx_pos ctx - 1) = Some (Some (length g))"
    using g len by (intro find_magic_first [OF wf(1) p frame_bytes_magic]) (simp_all add: p)
  define b where "b = (if length g > 0 then drop (length g) (rx_pending ctx) @
    drop (cx_rx_pos ctx - length g) (cx_rx_buffer ctx) else cx_rx_buffer ctx)"
  let ?c = "set_rx b (cx_rx_pos ctx - length g) ctx"
  have skip: "(if length g > 0 then rx_discard (length g) ctx else Some ctx) = Some ?c"
    using rx_discard_eq [OF wf(1), of "length g"] len by (auto simp: b_def)
  have b: "b = frame_bytes f @ rest @ drop (cx_rx_pos ctx - length g) b" "length b = 512"
    using rx_buffer_split [of ctx] p wf(1) len by (auto simp: b_def wf_ctx_def add.assoc)
  have rd: "read_u16_le b 12 = Some (fr_len f)"
    using frame_bytes_len_field [of "18 + ?n" f "rest @ drop (cx_rx_pos ctx - length g) b"] len
    by (subst b(1)) simp
  obtain f' where d: "uproto_decode_frame b (18 + ?n) blank_frame = Some (UPROTO_OK, f')"
    and h: "\<And>s. uproto_handle_frame env f' s = uproto_handle_frame env f s"
    using decode_frame_bytes [OF wf(2), where 'a = 'w] b(1) by metis
  have "take (cx_rx_pos ctx - length g) b = frame_bytes f @ rest"
    by (subst b(1)) (simp add: len)
  then show ?thesis
    using find skip rd d h len b(2)
    by (intro exI [of _ b]) (simp add: rx_step_def Let_def split del: if_split)
qed

section \<open>Streams\<close>

text \<open>
  \<open>partial fs p\<close>: \<open>p\<close> is a proper beginning of the stream's next frame, or nothing when the stream is over.
\<close>

definition partial :: "uproto_frame list \<Rightarrow> u8 list \<Rightarrow> bool" where
  "partial fs p \<longleftrightarrow> (case fs of [] \<Rightarrow> p = []
     | f # _ \<Rightarrow> p = take (length p) (frame_bytes f) \<and> length p < length (frame_bytes f))"

abbreviation stream :: "uproto_frame list \<Rightarrow> u8 list" where
  "stream fs \<equiv> concat (map frame_bytes fs)"

lemma stream_split:
  assumes "xs @ rest = stream fs" and "list_all wf_frame fs"
  obtains ds ts p where "fs = ds @ ts" "xs = stream ds @ p" "partial ts p" "p @ rest = stream ts"
  using assms
proof (induction fs arbitrary: xs thesis)
  case Nil
  then show ?case using Nil.prems(1) [of "[]" "[]" "[]"] by (simp add: partial_def)
next
  case (Cons f fs)
  have "xs @ rest = frame_bytes f @ stream fs" using Cons.prems(2) by simp
  then obtain us where us: "xs = frame_bytes f @ us \<and> us @ rest = stream fs \<or>
      xs @ us = frame_bytes f \<and> rest = us @ stream fs"
    unfolding append_eq_append_conv2 by blast
  show ?case
  proof (cases "length xs < length (frame_bytes f)")
    case True
    with us have "frame_bytes f = xs @ us" by auto
    with True show ?thesis using Cons.prems(1) [of "[]" "f # fs" xs] Cons.prems(2) by (simp add: partial_def)
  next
    case False
    have "\<exists>ys. xs = frame_bytes f @ ys \<and> ys @ rest = stream fs"
      using us
    proof
      assume a: "xs @ us = frame_bytes f \<and> rest = us @ stream fs"
      then have "length xs + length us = length (frame_bytes f)" by (metis length_append)
      with False have "length us = 0" by linarith
      then have "us = []" by simp
      with a show ?thesis by auto
    qed blast
    then obtain ys where ys: "xs = frame_bytes f @ ys" "ys @ rest = stream fs" by blast
    obtain ds ts p where "fs = ds @ ts" "ys = stream ds @ p" "partial ts p" "p @ rest = stream ts"
      by (rule Cons.IH [OF _ ys(2)]) (use Cons.prems(3) in auto)
    then show ?thesis using Cons.prems(1) [of "f # ds" ts p] ys by simp
  qed
qed

context uproto_callbacks
begin

lemma rx_handle_frames:
  "handle_frames env fs (set_rx b p ctx, w) =
     map_option (\<lambda>(ctx, w). (set_rx b p ctx, w)) (handle_frames env fs (ctx, w))"
proof (induction fs arbitrary: ctx w)
  case (Cons f fs)
  then show ?case
    by (auto simp: rx_freeD [OF rx_free_handle_frame] bind_map_option map_option_bind split_beta
        intro!: bind_cong_fun)
qed simp

lemma handle_frames_safe:
  "list_all wf_frame fs \<Longrightarrow> wf_ctx c \<Longrightarrow> W w \<Longrightarrow> same_setup ctx c \<Longrightarrow> safe W ctx (handle_frames env fs (c, w))"
proof (induction fs arbitrary: c w)
  case (Cons f fs)
  then have "safe W ctx (uproto_handle_frame env f (c, w))"
    using safe_from [OF _ handle_frame_safe] by auto
  then show ?case using Cons by (auto intro: safe_bind)
qed simp

text \<open>The loop on pending bytes that start with complete frames.\<close>

lemma process_stream:
  assumes "wf_ctx ctx" "W w" "list_all wf_frame (ds @ ts)" "rx_pending ctx = stream ds @ p" "partial ts p"
  shows "\<exists>c w' b. handle_frames env ds (ctx, w) = Some (c, w') \<and> wf_ctx c \<and> W w' \<and> same_setup ctx c \<and>
    uproto_process_rx_buffer env (ctx, w) = Some (set_rx b (length p) c, w') \<and>
    length b = UPROTO_RX_BUFFER_SIZE \<and> take (length p) b = p \<and> length p \<le> UPROTO_RX_BUFFER_SIZE"
  using assms
proof (induction ds arbitrary: ctx w)
  case Nil
  have pos: "cx_rx_pos ctx = length p" "cx_rx_pos ctx \<le> 512" "length (cx_rx_buffer ctx) = 512"
    using rx_pending_length [OF Nil.prems(1)] Nil.prems(1,4) by (auto simp: wf_ctx_def)
  have "rx_step env (ctx, w) = Some (False, ctx, w)"
  proof (cases ts)
    case Nil
    then show ?thesis using Nil.prems(5) pos by (simp add: partial_def rx_step_def)
  next
    case (Cons f ts')
    then show ?thesis
      using Nil.prems by (intro rx_step_partial [of _ f "length p"]) (auto simp: partial_def)
  qed
  then have "uproto_process_rx_buffer env (ctx, w) = Some (ctx, w)"
    by (subst uproto_process_rx_buffer.simps) simp
  moreover have "ctx = set_rx (cx_rx_buffer ctx) (length p) ctx" using pos(1) by (metis set_rx_id)
  ultimately show ?case
    using Nil.prems pos by (intro exI [of _ ctx] exI [of _ w] exI [of _ "cx_rx_buffer ctx"])
      (simp add: rx_pending_def)
next
  case (Cons f ds)
  have f: "wf_frame f" "list_all wf_frame (ds @ ts)" using Cons.prems(3) by auto
  from rx_step_frame [OF Cons.prems(1) f(1), of "[]" "stream ds @ p" env w] Cons.prems(4)
  obtain b where step: "rx_step env (ctx, w) = do {
      (c, w) \<leftarrow> uproto_handle_frame env f (set_rx b (cx_rx_pos ctx) ctx, w);
      c \<leftarrow> rx_discard (length (frame_bytes f)) c; Some (True, c, w) }"
    and b: "length b = 512" "take (cx_rx_pos ctx) b = frame_bytes f @ stream ds @ p" by auto
  obtain c v where h: "uproto_handle_frame env f (ctx, w) = Some (c, v)" "wf_ctx c" "W v" "same_setup ctx c"
    using handle_frame_safe [OF f(1) Cons.prems(1,2)] unfolding safe_def by auto
  let ?c = "set_rx b (cx_rx_pos ctx) c"
  have "cx_rx_pos ctx \<le> 512" using Cons.prems(1) by (simp add: wf_ctx_def)
  moreover have "cx_rx_pos ctx = length (frame_bytes f) + length (stream ds @ p)"
    using rx_pending_length [OF Cons.prems(1)] Cons.prems(4) by simp
  ultimately have c: "wf_ctx ?c" "length (frame_bytes f) \<le> cx_rx_pos ?c" "rx_pending ?c = frame_bytes f @ stream ds @ p"
    using h(2) b by (auto intro: wf_ctx_set_rx simp: rx_pending_def)
  from rx_discard_wf [OF c(1,2)] obtain c2 where c2: "rx_discard (length (frame_bytes f)) ?c = Some c2"
    "wf_ctx c2" "rx_pending c2 = stream ds @ p" using c(3) by auto
  then obtain b2 p2 where c2_eq: "c2 = set_rx b2 p2 c" using rx_discard_eq [OF c(1,2)] by auto
  have "rx_step env (ctx, w) = Some (True, c2, v)"
    using step h(1) c2(1) by (simp add: rx_freeD [OF rx_free_handle_frame])
  then have run: "uproto_process_rx_buffer env (ctx, w) = uproto_process_rx_buffer env (c2, v)"
    by (subst uproto_process_rx_buffer.simps) simp
  from Cons.IH [OF c2(2) h(3) f(2) c2(3) Cons.prems(5)] obtain c' w' b' where ih:
    "handle_frames env ds (c2, v) = Some (c', w')" "wf_ctx c'" "W w'" "same_setup c2 c'"
    "uproto_process_rx_buffer env (c2, v) = Some (set_rx b' (length p) c', w')"
    "length b' = 512" "take (length p) b' = p" "length p \<le> 512" by blast
  then obtain c0 where c0: "handle_frames env ds (c, v) = Some (c0, w')" "c' = set_rx b2 p2 c0"
    unfolding c2_eq rx_handle_frames by auto
  have "safe W ctx (handle_frames env ds (c, v))" using f(2) h by (intro handle_frames_safe) auto
  then have "wf_ctx c0" "same_setup ctx c0" using c0 by simp_all
  then show ?case
    using h(1) c0 ih run by (intro exI [of _ c0] exI [of _ w'] exI [of _ b']) simp
qed

end

context uproto_callbacks
begin

lemma on_rx_stream:
  assumes "wf_ctx ctx" "W w" "list_all wf_frame (ds @ ts)" "rx_pending ctx @ xs = stream ds @ p" "partial ts p"
    "length (rx_pending ctx) + length xs \<le> UPROTO_RX_BUFFER_SIZE"
  shows "\<exists>c w' b. handle_frames env ds (ctx, w) = Some (c, w') \<and> wf_ctx c \<and> W w' \<and> same_setup ctx c \<and>
    uproto_on_rx_bytes env xs (length xs) (ctx, w) = Some (set_rx b (length p) c, w') \<and>
    length b = UPROTO_RX_BUFFER_SIZE \<and> take (length p) b = p \<and> length p \<le> UPROTO_RX_BUFFER_SIZE"
proof -
  let ?n = "cx_rx_pos ctx + length xs"
  let ?b = "rx_pending ctx @ xs @ drop ?n (cx_rx_buffer ctx)"
  let ?c = "set_rx ?b ?n ctx"
  have pos: "length (rx_pending ctx) = cx_rx_pos ctx" "length (cx_rx_buffer ctx) = 512"
    using rx_pending_length [OF assms(1)] assms(1) by (auto simp: wf_ctx_def)
  have st: "rx_store xs ctx = Some ?c" using rx_store_append [OF assms(1), of xs] assms(6) pos by simp
  have wf: "wf_ctx ?c" using assms(6) pos by (intro wf_ctx_set_rx assms(1)) auto
  have pend: "rx_pending ?c = stream ds @ p" using assms(4) pos by (simp add: rx_pending_def [of ?c])
  from process_stream [OF wf assms(2,3) pend assms(5)] obtain c' w' b where r:
    "handle_frames env ds (?c, w) = Some (c', w')" "W w'"
    "uproto_process_rx_buffer env (?c, w) = Some (set_rx b (length p) c', w')"
    "length b = 512" "take (length p) b = p" "length p \<le> 512" by blast
  then obtain c where c: "handle_frames env ds (ctx, w) = Some (c, w')" "c' = set_rx ?b ?n c"
    unfolding rx_handle_frames by auto
  have "safe W ctx (handle_frames env ds (ctx, w))" using assms(1-3) by (intro handle_frames_safe) auto
  with c r st show ?thesis
    by (intro exI [of _ c] exI [of _ w'] exI [of _ b])
      (simp add: uproto_on_rx_bytes_def mem_read_in)
qed

lemma feed_stream:
  assumes "wf_ctx ctx" "W w" "list_all wf_frame fs" "rx_pending ctx @ concat chunks = stream fs"
    "partial fs (rx_pending ctx)" "\<forall>c \<in> set chunks. length c \<le> 239"
  shows "\<exists>c w' b. handle_frames env fs (ctx, w) = Some (c, w') \<and> wf_ctx c \<and> W w' \<and>
    feed env chunks (ctx, w) = Some (set_rx b 0 c, w')"
  using assms
proof (induction chunks arbitrary: ctx w fs)
  case Nil
  have "fs = []"
    using Nil.prems(4,5) by (cases fs) (auto simp: partial_def)
  moreover have "cx_rx_pos ctx = 0"
    using calculation Nil.prems(4) rx_pending_length [OF Nil.prems(1)] by simp
  moreover have "ctx = set_rx (cx_rx_buffer ctx) (cx_rx_pos ctx) ctx" by simp
  ultimately show ?case
    using Nil.prems by (intro exI [of _ ctx] exI [of _ w] exI [of _ "cx_rx_buffer ctx"]) simp
next
  case (Cons x xs)
  have "(rx_pending ctx @ x) @ concat xs = stream fs" using Cons.prems(4) by simp
  from stream_split [OF this Cons.prems(3)] obtain ds ts p where s: "fs = ds @ ts"
    "rx_pending ctx @ x = stream ds @ p" "partial ts p" "p @ concat xs = stream ts" by blast
  have "length (rx_pending ctx) \<le> 273"
    using Cons.prems(3,5) frame_bytes_length
    by (cases fs) (fastforce simp: partial_def wf_frame_def)+
  then have "length (rx_pending ctx) + length x \<le> 512" using Cons.prems(6) by auto
  from on_rx_stream [OF Cons.prems(1,2) Cons.prems(3) [unfolded s(1)] s(2,3) this] obtain c v b where r:
    "handle_frames env ds (ctx, w) = Some (c, v)" "wf_ctx c" "W v"
    "uproto_on_rx_bytes env x (length x) (ctx, w) = Some (set_rx b (length p) c, v)"
    "length b = 512" "take (length p) b = p" "length p \<le> 512" by blast
  let ?c = "set_rx b (length p) c"
  have wf: "wf_ctx ?c" using r by (intro wf_ctx_set_rx)
  have pend: "rx_pending ?c = p" using r(6) by (simp add: rx_pending_def)
  from Cons.IH [OF wf r(3), of ts] s Cons.prems(3,6) pend obtain c' w' b' where ih:
    "handle_frames env ts (?c, v) = Some (c', w')" "wf_ctx c'" "W w'" "feed env xs (?c, v) = Some (set_rx b' 0 c', w')"
    by auto
  then obtain c0 where c0: "handle_frames env ts (c, v) = Some (c0, w')" "c' = set_rx b (length p) c0"
    unfolding rx_handle_frames by auto
  have "safe W c (handle_frames env ts (c, v))"
    using r Cons.prems(3) s(1) by (intro handle_frames_safe) auto
  moreover have "handle_frames env (ds @ ts) (ctx, w) = Option.bind (handle_frames env ds (ctx, w)) (handle_frames env ts)" for ctx w
    by (induction ds arbitrary: ctx w) (auto simp: split_beta intro!: bind_cong_fun)
  ultimately show ?case
    using r c0 ih s(1) by (intro exI [of _ c0] exI [of _ w'] exI [of _ b']) simp
qed

end

lemma process_rx_more: "rx_step env s = Some (True, s') \<Longrightarrow> uproto_process_rx_buffer env s = uproto_process_rx_buffer env s'"
  by (subst uproto_process_rx_buffer.simps) simp

lemma process_rx_stop: "rx_step env s = Some (False, s') \<Longrightarrow> uproto_process_rx_buffer env s = Some s'"
  by (subst uproto_process_rx_buffer.simps) simp

section \<open>Resynchronisation\<close>

context uproto_callbacks
begin

lemma on_rx_resync:
  assumes wf: "wf_ctx ctx" "W w" "wf_frame f" and empty: "cx_rx_pos ctx = 0"
    and room: "length g + length (frame_bytes f) \<le> UPROTO_RX_BUFFER_SIZE"
    and g: "\<forall>i < length g. \<not> magic_at (g @ frame_bytes f) i"
  shows "\<exists>c w' b. uproto_handle_frame env f (ctx, w) = Some (c, w') \<and>
    uproto_on_rx_bytes env (g @ frame_bytes f) (length g + length (frame_bytes f)) (ctx, w) = Some (set_rx b 0 c, w')"
proof -
  let ?xs = "g @ frame_bytes f"
  let ?n = "length g + length (frame_bytes f)"
  let ?c = "set_rx (?xs @ drop ?n (cx_rx_buffer ctx)) ?n ctx"
  have e: "rx_pending ctx = []" using empty by (simp add: rx_pending_def)
  have len: "length (cx_rx_buffer ctx) = 512" using wf(1) by (simp add: wf_ctx_def)
  have st: "rx_store ?xs ctx = Some ?c" using rx_store_append [OF wf(1), of ?xs] empty e room by simp
  have wfc: "wf_ctx ?c" using len room by (intro wf_ctx_set_rx wf(1)) auto
  have pend: "rx_pending ?c = g @ frame_bytes f @ []" by (simp add: rx_pending_def)
  obtain b where step: "rx_step env (?c, w) = do {
      (c, w) \<leftarrow> uproto_handle_frame env f (set_rx b (length (frame_bytes f)) ctx, w);
      c \<leftarrow> rx_discard (length (frame_bytes f)) c; Some (True, c, w) }" and b: "length b = 512"
    using rx_step_frame [OF wfc wf(3) pend, of env w] g pend by auto
  obtain c v where h: "uproto_handle_frame env f (ctx, w) = Some (c, v)" "wf_ctx c" "W v"
    using handle_frame_safe [OF wf(3,1,2)] unfolding safe_def by auto
  let ?d = "set_rx b (length (frame_bytes f)) c"
  have "wf_ctx ?d" using h(2) b room by (intro wf_ctx_set_rx) auto
  from rx_discard_eq [OF this, of "length (frame_bytes f)"] obtain b2
    where d: "rx_discard (length (frame_bytes f)) ?d = Some (set_rx b2 0 c)" by auto
  have "rx_step env (?c, w) = Some (True, set_rx b2 0 c, v)"
    using step h(1) d by (simp add: rx_freeD [OF rx_free_handle_frame])
  moreover have "rx_step env (set_rx b2 0 c, v) = Some (False, set_rx b2 0 c, v)" by (simp add: rx_step_def)
  ultimately have "uproto_process_rx_buffer env (?c, w) = Some (set_rx b2 0 c, v)"
    by (metis process_rx_more process_rx_stop)
  with st h(1) show ?thesis
    by (intro exI [of _ c] exI [of _ v] exI [of _ b2]) (simp add: uproto_on_rx_bytes_def mem_read_in)
qed

end

section \<open>A lossless port\<close>

text \<open>
  A concrete environment: a port that takes every byte offered, a clock that stands still between
  calls, and callbacks that record their arguments.
\<close>

record pipe =
  pi_out :: "u8 list"
  pi_clock :: u32
  pi_events :: "string list"
  pi_replies :: "(user_ptr \<times> uproto_error \<times> u8 list option) list"
  pi_messages :: "(u16 \<times> u8 list) list"

definition pipe_env :: "pipe uproto_env" where
  "pipe_env = \<lparr>
     env_write = (\<lambda>_ _ bs w. (length bs, w\<lparr>pi_out := pi_out w @ bs\<rparr>)),
     env_flush = (\<lambda>_ _ w. w),
     env_now = (\<lambda>_ _ w. (pi_clock w, w)),
     env_event = (\<lambda>_ ev _ (ctx, w). Some (ctx, w\<lparr>pi_events := pi_events w @ [ev]\<rparr>)),
     env_txn_callback = (\<lambda>_ u err rsp n (ctx, w). Some (ctx, w\<lparr>pi_replies := pi_replies w @ [(u, err, rsp)]\<rparr>)),
     env_msg_handler = (\<lambda>_ tid data n _ (ctx, w). Some (ctx, w\<lparr>pi_messages := pi_messages w @ [(tid, data)]\<rparr>))\<rparr>"

definition pipe0 :: pipe where
  "pipe0 = \<lparr>pi_out = [], pi_clock = 0, pi_events = [], pi_replies = [], pi_messages = []\<rparr>"

lemma pipe_callbacks: "uproto_callbacks pipe_env (\<lambda>_. True)"
  by unfold_locales (auto simp: pipe_env_def keeps_def rx_free_def)

interpretation pipe: uproto_callbacks pipe_env "\<lambda>_. True"
  by (rule pipe_callbacks)

definition pipe_ctx :: uproto_context where
  "pipe_ctx = snd (uproto_register_handler 0x20 (Some 3) 0
     (uproto_init \<lparr>po_write = Some 1, po_flush = None, po_get_mtu = None, po_user = 0\<rparr>
        \<lparr>ti_now_ms = Some 2, ti_user = 0\<rparr> None))"

definition note_frame :: "u8 \<Rightarrow> u8 list \<Rightarrow> uproto_frame" where
  "note_frame t pl = blank_frame\<lparr>fr_version := UPROTO_VERSION, fr_type := t, fr_len := word_of_nat (length pl),
     fr_payload := pl @ replicate (UPROTO_MAX_PAYLOAD - length pl) 0\<rparr>"

lemma init_wf:
  "po_write port \<noteq> None \<Longrightarrow> wf_ctx (uproto_init port time config)"
  by (simp add: uproto_init_def wf_ctx_def wf_txn_def zero_transaction_def list_all_length)

lemma register_handler_wf:
  assumes "wf_ctx ctx"
  shows "wf_ctx (snd (uproto_register_handler t (Some h) u ctx))"
  using assms unfolding wf_ctx_def uproto_register_handler_def
  by (auto simp: take_Suc_conv_app_nth list_all_length nth_append less_Suc_eq)

lemma pipe_ctx_wf: "wf_ctx pipe_ctx"
  unfolding pipe_ctx_def by (intro register_handler_wf init_wf) simp

lemma pipe_ctx_rx_pos: "cx_rx_pos pipe_ctx = 0"
  by (simp add: pipe_ctx_def uproto_register_handler_def uproto_init_def)

lemma note_frame_wf: "length pl \<le> UPROTO_MAX_PAYLOAD \<Longrightarrow> wf_frame (note_frame t pl)"
  by (simp add: wf_frame_def note_frame_def unat_of_nat)

section \<open>Properties\<close>

text \<open>
  C17. Whatever bytes arrive, in whatever state a well-formed context is, \<^verbatim>\<open>uproto_on_rx_bytes\<close> returns: the
  decoding loop ends, no access leaves an array and no null pointer is called; the context stays well-formed.
\<close>

theorem on_rx_bytes_total:
  assumes "uproto_callbacks env W" and "wf_ctx ctx" and "W w" and "n \<le> length data"
  shows "\<exists>ctx' w'. uproto_on_rx_bytes env data n (ctx, w) = Some (ctx', w') \<and> wf_ctx ctx' \<and>
    same_setup ctx ctx' \<and> W w'"
  using uproto_callbacks.on_rx_bytes_safe [OF assms] unfolding safe_def .

theorem on_rx_bytes_total_witness:
  "\<exists>ctx' w'. uproto_on_rx_bytes pipe_env (replicate 20 0xAA) 20 (pipe_ctx, pipe0) = Some (ctx', w') \<and> wf_ctx ctx'"
  using on_rx_bytes_total [OF pipe_callbacks pipe_ctx_wf TrueI, where n = 20 and data = "replicate 20 0xAA" and w = pipe0]
  by auto

text \<open>
  C1. Stream reassembly: the bytes of a sequence of frames, cut into chunks of at most 239 bytes in any
  way at all and fed one after the other to an empty receiver, have the effect of dispatching the frames
  one after the other, each once and in order; nothing is left in the buffer.
\<close>

theorem feed_dispatches_frames:
  assumes "uproto_callbacks env W" and "wf_ctx ctx" and "W w" and "cx_rx_pos ctx = 0"
    and "list_all wf_frame fs" and "concat chunks = concat (map frame_bytes fs)"
    and "\<forall>c \<in> set chunks. length c \<le> 239"
  shows "\<exists>c w' b. handle_frames env fs (ctx, w) = Some (c, w') \<and> feed env chunks (ctx, w) = Some (set_rx b 0 c, w')"
proof -
  have pend: "rx_pending ctx = []" using assms(4) by (simp add: rx_pending_def)
  have "partial fs []" using frame_bytes_length assms(5) by (cases fs) (auto simp: partial_def)
  then show ?thesis
    using uproto_callbacks.feed_stream [OF assms(1-3,5), of chunks] assms(6,7) pend by auto
qed

theorem feed_dispatches_frames_witness:
  "\<exists>c w' b. handle_frames pipe_env [note_frame 0x20 [1, 2], note_frame 0x20 [3]] (pipe_ctx, pipe0) = Some (c, w') \<and>
    feed pipe_env [take 5 (frame_bytes (note_frame 0x20 [1, 2])),
      drop 5 (frame_bytes (note_frame 0x20 [1, 2])) @ frame_bytes (note_frame 0x20 [3])] (pipe_ctx, pipe0) =
        Some (set_rx b 0 c, w')"
proof (rule feed_dispatches_frames [OF pipe_callbacks pipe_ctx_wf _ pipe_ctx_rx_pos])
  have wf: "wf_frame (note_frame 0x20 [1, 2])" "wf_frame (note_frame 0x20 [3])"
    by (rule note_frame_wf; simp)+
  then show "list_all wf_frame [note_frame 0x20 [1, 2], note_frame 0x20 [3]]" by simp
  show "\<forall>c \<in> set [take 5 (frame_bytes (note_frame 0x20 [1, 2])),
      drop 5 (frame_bytes (note_frame 0x20 [1, 2])) @ frame_bytes (note_frame 0x20 [3])]. length c \<le> 239"
    using wf [THEN frame_bytes_length] by (simp add: note_frame_def)
qed simp_all

text \<open>
  Resynchronisation: garbage in front of a frame in which the magic does not occur before the frame
  starts is skipped, and the frame is dispatched.
\<close>

theorem on_rx_bytes_resyncs:
  assumes "uproto_callbacks env W" and "wf_ctx ctx" and "W w" and "wf_frame f" and "cx_rx_pos ctx = 0"
    and "length g + length (frame_bytes f) \<le> UPROTO_RX_BUFFER_SIZE"
    and "\<forall>i < length g. \<not> magic_at (g @ frame_bytes f) i"
  shows "\<exists>c w' b. uproto_handle_frame env f (ctx, w) = Some (c, w') \<and>
    uproto_on_rx_bytes env (g @ frame_bytes f) (length g + length (frame_bytes f)) (ctx, w) = Some (set_rx b 0 c, w')"
  by (rule uproto_callbacks.on_rx_resync [OF assms])

theorem on_rx_bytes_resyncs_witness:
  "\<exists>c w' b. uproto_handle_frame pipe_env (note_frame 0x20 [1]) (pipe_ctx, pipe0) = Some (c, w') \<and>
    uproto_on_rx_bytes pipe_env ([7, 0xAA, 9] @ frame_bytes (note_frame 0x20 [1]))
      (length [7, 0xAA, 9 :: u8] + length (frame_bytes (note_frame 0x20 [1]))) (pipe_ctx, pipe0) = Some (set_rx b 0 c, w')"
proof (rule on_rx_bytes_resyncs [OF pipe_callbacks pipe_ctx_wf _ _ pipe_ctx_rx_pos])
  show wf: "wf_frame (note_frame 0x20 [1])" by (rule note_frame_wf) simp
  show "length [7, 0xAA, 9 :: u8] + length (frame_bytes (note_frame 0x20 [1])) \<le> 512"
    using frame_bytes_length [OF wf] by (simp add: note_frame_def)
  show "\<forall>i < length [7, 0xAA, 9 :: u8]. \<not> magic_at ([7, 0xAA, 9] @ frame_bytes (note_frame 0x20 [1])) i"
    by (auto simp: magic_at_def less_Suc_eq)
qed simp

text \<open>
  A frame cut between its two magic bytes after at least 17 bytes without a magic is lost: the
  decoder empties the buffer, the first half of the magic with it.
\<close>

theorem split_magic_discarded:
  assumes "wf_ctx ctx" and "cx_rx_pos ctx = 0" and "17 \<le> length g" and "length g < UPROTO_RX_BUFFER_SIZE"
    and "\<forall>i < length g. \<not> magic_at (g @ [UPROTO_MAGIC_0]) i"
  shows "\<exists>b. uproto_on_rx_bytes env (g @ [UPROTO_MAGIC_0]) (length g + 1) (ctx, w) = Some (set_rx b 0 ctx, w)"
proof -
  let ?xs = "g @ [UPROTO_MAGIC_0]"
  let ?b = "?xs @ drop (length ?xs) (cx_rx_buffer ctx)"
  let ?c = "set_rx ?b (length ?xs) ctx"
  have pend: "rx_pending ctx = []" using assms(2) by (simp add: rx_pending_def)
  have st: "rx_store ?xs ctx = Some ?c"
    using rx_store_append [OF assms(1), of ?xs] assms(2,4) pend by simp
  have wf: "wf_ctx ?c" using assms(1,4) by (intro wf_ctx_set_rx) (simp_all add: wf_ctx_def)
  have p: "rx_pending ?c = ?xs" by (simp add: rx_pending_def)
  have "find_magic ?b 0 (length g) = Some (find (magic_at ?xs) [0..<length g])"
    using find_magic_pending [OF wf] assms(3) p by simp
  also have "find (magic_at ?xs) [0..<length g] = None"
    using assms(5) by (simp add: find_None_iff)
  finally have "rx_step env (?c, w) = Some (False, set_rx ?b 0 ctx, w)"
    using assms(3) by (simp add: rx_step_def set_rx_def)
  from process_rx_stop [OF this] show ?thesis
    using st by (auto simp: uproto_on_rx_bytes_def mem_read_in)
qed

theorem split_magic_discarded_witness:
  "\<exists>b. uproto_on_rx_bytes pipe_env (replicate 17 0 @ [0xAA]) 18 (pipe_ctx, pipe0) = Some (set_rx b 0 pipe_ctx, pipe0)"
  using split_magic_discarded [OF pipe_ctx_wf pipe_ctx_rx_pos, of "replicate 17 0" pipe_env pipe0]
  by (auto simp: magic_at_def nth_append)

end
