(* ===== verification/Comm.thy ===== *)
theory Comm
  imports Uproto_Stream
begin

text \<open>
  The channel layer of \<^verbatim>\<open>core/comm.c\<close>: channel objects and their manager, the MUX packet codec, the
  binding of a manager to a protocol context, its queue of pending notifications and the arbiter that
  sends them.

  Objects live in typed heaps indexed by address (\<open>hp_chan\<close>, \<open>hp_mgr\<close>, \<open>hp_bind\<close>); a channel embedded in
  a larger object is kept under that object's address. The application state behind ports and callbacks
  is \<open>hp_ext\<close>. The link has one protocol context, carried beside the heap; a context pointer is null or
  points to it. Null pointers are \<open>None\<close>; in an untyped \<^verbatim>\<open>user\<close> argument null is 0.
\<close>

section \<open>Data\<close>

abbreviation CH_MAX :: nat where "CH_MAX \<equiv> 8"
abbreviation CH_ARB_FAIR_AGE :: u16 where "CH_ARB_FAIR_AGE \<equiv> 10"
abbreviation COMM_CHANNEL_PENDING_PAYLOAD_SIZE :: nat where "COMM_CHANNEL_PENDING_PAYLOAD_SIZE \<equiv> 128"
abbreviation COMM_MUX_TX_BUFFER_SIZE :: nat where "COMM_MUX_TX_BUFFER_SIZE \<equiv> 520"

definition MUX_SOF :: u8 where "MUX_SOF = 0xA5"
definition MUX_VER :: u8 where "MUX_VER = 0x01"

record channel_manager =
  mg_slots :: "addr option list"
  mg_count :: nat

datatype ch_mode = CH_MODE_QA | CH_MODE_PUSH

record channel_cfg =
  cc_mode :: ch_mode
  cc_reliable :: u8
  cc_expect_reply :: u8
  cc_priority :: u8
  cc_period_ms :: u32

record channel_hooks =
  ck_on_rx :: "fn_ptr option"
  ck_on_tick :: "fn_ptr option"
  ck_on_cfg_change :: "fn_ptr option"

record channel =
  ch_id :: u8
  ch_cfg :: channel_cfg
  ch_hooks :: channel_hooks
  ch_user :: user_ptr
  ch_transport :: "addr option"
  ch_msg_type :: u8
  ch_handshake_done :: u8

record mux_hdr =
  mx_sof :: u8
  mx_ver :: u8
  mx_channel :: u8
  mx_flags :: u8
  mx_len :: u16
  mx_sid :: u16
  mx_seq :: u32
  mx_rsv :: u16

record pending_item =
  pd_used :: bool
  pd_ch_id :: u8
  pd_sid :: u16
  pd_flags :: u8
  pd_len :: u16
  pd_payload :: "u8 list"
  pd_age :: u16

record ch_uproto_bind =
  bd_ctx :: "addr option"
  bd_msg_type :: u8
  bd_mgr :: "addr option"
  bd_seq_counters :: "u32 list"
  bd_pending :: "pending_item list"
  bd_rr_cursor :: u8

record 'p comm_heap =
  hp_chan :: "addr \<Rightarrow> channel"
  hp_mgr :: "addr \<Rightarrow> channel_manager"
  hp_bind :: "addr \<Rightarrow> ch_uproto_bind"
  hp_ext :: 'p

text \<open>The code behind the hook pointers of the channels, by pointer.\<close>

record 'w comm_hooks =
  hk_on_rx :: "fn_ptr \<Rightarrow> addr \<Rightarrow> u8 list \<Rightarrow> nat \<Rightarrow> user_ptr \<Rightarrow> uproto_context \<times> 'w \<Rightarrow> (uproto_context \<times> 'w) option"
  hk_on_tick :: "fn_ptr \<Rightarrow> addr \<Rightarrow> user_ptr \<Rightarrow> uproto_context \<times> 'w \<Rightarrow> (uproto_context \<times> 'w) option"
  hk_on_cfg_change :: "fn_ptr \<Rightarrow> addr \<Rightarrow> channel_cfg \<Rightarrow> user_ptr \<Rightarrow> uproto_context \<times> 'w \<Rightarrow> (uproto_context \<times> 'w) option"

section \<open>Channels\<close>

definition zero_channel :: channel where
  "zero_channel = \<lparr>ch_id = 0,
     ch_cfg = \<lparr>cc_mode = CH_MODE_QA, cc_reliable = 0, cc_expect_reply = 0, cc_priority = 0, cc_period_ms = 0\<rparr>,
     ch_hooks = \<lparr>ck_on_rx = None, ck_on_tick = None, ck_on_cfg_change = None\<rparr>,
     ch_user = 0, ch_transport = None, ch_msg_type = 0, ch_handshake_done = 0\<rparr>"

text \<open>The pointer to \<^verbatim>\<open>channel_default_hooks_on_cfg_change\<close>, which does nothing.\<close>

abbreviation fn_default_on_cfg_change :: fn_ptr where "fn_default_on_cfg_change \<equiv> 1"

definition channel_default_hooks_on_cfg_change ::
  "addr \<Rightarrow> channel_cfg \<Rightarrow> user_ptr \<Rightarrow> uproto_context \<times> 'w \<Rightarrow> (uproto_context \<times> 'w) option" where
  "channel_default_hooks_on_cfg_change ch cfg user s = Some s"

definition channel_init ::
  "addr option \<Rightarrow> u8 \<Rightarrow> channel_cfg option \<Rightarrow> channel_hooks option \<Rightarrow> user_ptr \<Rightarrow>
     ('p, 'x) comm_heap_scheme \<Rightarrow> ('p, 'x) comm_heap_scheme" where
  "channel_init ch cid cfg hooks user h = (case ch of None \<Rightarrow> h | Some a \<Rightarrow>
     (let c = zero_channel\<lparr>ch_id := cid\<rparr>;
          c = (case cfg of Some g \<Rightarrow> c\<lparr>ch_cfg := g\<rparr> | None \<Rightarrow> c);
          c = (case hooks of Some k \<Rightarrow> c\<lparr>ch_hooks := k\<rparr> | None \<Rightarrow> c);
          c = c\<lparr>ch_user := user\<rparr>;
          c = (if ck_on_cfg_change (ch_hooks c) = None
               then c\<lparr>ch_hooks := (ch_hooks c)\<lparr>ck_on_cfg_change := Some fn_default_on_cfg_change\<rparr>\<rparr> else c)
      in h\<lparr>hp_chan := (hp_chan h)(a := c)\<rparr>))"

definition channel_bind_transport ::
  "addr option \<Rightarrow> addr option \<Rightarrow> u8 \<Rightarrow> ('p, 'x) comm_heap_scheme \<Rightarrow> ('p, 'x) comm_heap_scheme" where
  "channel_bind_transport ch transport_ctx msg_type h = (case ch of None \<Rightarrow> h | Some a \<Rightarrow>
     h\<lparr>hp_chan := (hp_chan h)(a := (hp_chan h a)\<lparr>ch_transport := transport_ctx, ch_msg_type := msg_type\<rparr>)\<rparr>)"

definition channel_set_cfg ::
  "('p, 'x) comm_heap_scheme comm_hooks \<Rightarrow> addr option \<Rightarrow> channel_cfg option \<Rightarrow>
     uproto_context \<times> ('p, 'x) comm_heap_scheme \<Rightarrow> (uproto_context \<times> ('p, 'x) comm_heap_scheme) option" where
  "channel_set_cfg hk ch cfg s = (case (ch, cfg) of
       (Some a, Some g) \<Rightarrow>
         (let (ctx, h) = s; h = h\<lparr>hp_chan := (hp_chan h)(a := (hp_chan h a)\<lparr>ch_cfg := g\<rparr>)\<rparr>
          in case ck_on_cfg_change (ch_hooks (hp_chan h a)) of
               Some f \<Rightarrow> (if f = fn_default_on_cfg_change
                          then channel_default_hooks_on_cfg_change a (ch_cfg (hp_chan h a)) (ch_user (hp_chan h a)) (ctx, h)
                          else hk_on_cfg_change hk f a (ch_cfg (hp_chan h a)) (ch_user (hp_chan h a)) (ctx, h))
             | None \<Rightarrow> Some (ctx, h))
     | _ \<Rightarrow> Some s)"

definition channel_is_ready :: "addr option \<Rightarrow> ('p, 'x) comm_heap_scheme \<Rightarrow> bool" where
  "channel_is_ready ch h = (case ch of None \<Rightarrow> False | Some a \<Rightarrow> ch_handshake_done (hp_chan h a) \<noteq> 0)"

definition channel_mark_handshake_done ::
  "addr option \<Rightarrow> ('p, 'x) comm_heap_scheme \<Rightarrow> ('p, 'x) comm_heap_scheme" where
  "channel_mark_handshake_done ch h = (case ch of None \<Rightarrow> h | Some a \<Rightarrow>
     h\<lparr>hp_chan := (hp_chan h)(a := (hp_chan h a)\<lparr>ch_handshake_done := 1\<rparr>)\<rparr>)"

section \<open>The channel manager\<close>

definition zero_manager :: channel_manager where
  "zero_manager = \<lparr>mg_slots = replicate CH_MAX None, mg_count = 0\<rparr>"

definition chmgr_init :: "addr option \<Rightarrow> ('p, 'x) comm_heap_scheme \<Rightarrow> ('p, 'x) comm_heap_scheme" where
  "chmgr_init m h = (case m of None \<Rightarrow> h | Some a \<Rightarrow> h\<lparr>hp_mgr := (hp_mgr h)(a := zero_manager)\<rparr>)"

definition chmgr_register ::
  "addr option \<Rightarrow> addr option \<Rightarrow> ('p, 'x) comm_heap_scheme \<Rightarrow> bool \<times> ('p, 'x) comm_heap_scheme" where
  "chmgr_register m ch h = (case (m, ch) of
       (Some a, Some c) \<Rightarrow>
         (if mg_count (hp_mgr h a) \<ge> CH_MAX then (False, h)
          else (True, h\<lparr>hp_mgr := (hp_mgr h)(a :=
            \<lparr>mg_slots = (mg_slots (hp_mgr h a))[mg_count (hp_mgr h a) := Some c],
             mg_count = mg_count (hp_mgr h a) + 1\<rparr>)\<rparr>))
     | _ \<Rightarrow> (False, h))"

text \<open>\<^verbatim>\<open>m->slots[i] && m->slots[i]->id == id\<close>\<close>

definition slot_has_id :: "('p, 'x) comm_heap_scheme \<Rightarrow> addr option \<Rightarrow> u8 \<Rightarrow> bool" where
  "slot_has_id h slot cid = (case slot of None \<Rightarrow> False | Some c \<Rightarrow> ch_id (hp_chan h c) = cid)"

definition chmgr_find :: "addr option \<Rightarrow> u8 \<Rightarrow> ('p, 'x) comm_heap_scheme \<Rightarrow> addr option" where
  "chmgr_find m cid h = (case m of None \<Rightarrow> None | Some a \<Rightarrow>
     (case find (\<lambda>i. slot_has_id h (mg_slots (hp_mgr h a) ! i) cid) [0..<mg_count (hp_mgr h a)] of
        Some i \<Rightarrow> mg_slots (hp_mgr h a) ! i | None \<Rightarrow> None))"

definition chmgr_dispatch_rx ::
  "('p, 'x) comm_heap_scheme comm_hooks \<Rightarrow> addr option \<Rightarrow> u8 \<Rightarrow> u8 list \<Rightarrow> nat \<Rightarrow>
     uproto_context \<times> ('p, 'x) comm_heap_scheme \<Rightarrow> (uproto_context \<times> ('p, 'x) comm_heap_scheme) option" where
  "chmgr_dispatch_rx hk m cid payload len s = (case chmgr_find m cid (snd s) of
       None \<Rightarrow> Some s
     | Some c \<Rightarrow> (case ck_on_rx (ch_hooks (hp_chan (snd s) c)) of
         None \<Rightarrow> Some s
       | Some f \<Rightarrow> hk_on_rx hk f c payload len (ch_user (hp_chan (snd s) c)) s))"

text \<open>The loop of \<^verbatim>\<open>chmgr_tick\<close> reads the count again in every round, since a hook may register channels.\<close>

definition tick_slot ::
  "('p, 'x) comm_heap_scheme comm_hooks \<Rightarrow> addr \<Rightarrow> nat \<Rightarrow>
     uproto_context \<times> ('p, 'x) comm_heap_scheme \<Rightarrow> (uproto_context \<times> ('p, 'x) comm_heap_scheme) option" where
  "tick_slot hk a i s = (case mg_slots (hp_mgr (snd s) a) ! i of
       None \<Rightarrow> Some s
     | Some c \<Rightarrow> (case ck_on_tick (ch_hooks (hp_chan (snd s) c)) of
         None \<Rightarrow> Some s
       | Some f \<Rightarrow> hk_on_tick hk f c (ch_user (hp_chan (snd s) c)) s))"

fun tick_slots ::
  "('p, 'x) comm_heap_scheme comm_hooks \<Rightarrow> addr \<Rightarrow> nat list \<Rightarrow>
     uproto_context \<times> ('p, 'x) comm_heap_scheme \<Rightarrow> (uproto_context \<times> ('p, 'x) comm_heap_scheme) option" where
  "tick_slots hk a [] s = Some s"
| "tick_slots hk a (i # is) s =
     (if i < mg_count (hp_mgr (snd s) a) then do { s \<leftarrow> tick_slot hk a i s; tick_slots hk a is s } else Some s)"

definition chmgr_tick ::
  "('p, 'x) comm_heap_scheme comm_hooks \<Rightarrow> addr option \<Rightarrow>
     uproto_context \<times> ('p, 'x) comm_heap_scheme \<Rightarrow> (uproto_context \<times> ('p, 'x) comm_heap_scheme) option" where
  "chmgr_tick hk m s = (case m of None \<Rightarrow> Some s | Some a \<Rightarrow> tick_slots hk a [0..<CH_MAX] s)"

section \<open>The MUX packet\<close>

text \<open>The packed header in memory, on a little-endian machine.\<close>

definition mux_hdr_bytes :: "mux_hdr \<Rightarrow> u8 list" where
  "mux_hdr_bytes hdr = [mx_sof hdr, mx_ver hdr, mx_channel hdr, mx_flags hdr] @ le16 (mx_len hdr) @
     le16 (mx_sid hdr) @ le32 (mx_seq hdr) @ le16 (mx_rsv hdr)"

abbreviation sizeof_mux_hdr :: nat where "sizeof_mux_hdr \<equiv> 14"

definition mux_hdr_of :: "u8 list \<Rightarrow> mux_hdr option" where
  "mux_hdr_of data = do {
     bs \<leftarrow> mem_read data 0 sizeof_mux_hdr;
     Some \<lparr>mx_sof = bs ! 0, mx_ver = bs ! 1, mx_channel = bs ! 2, mx_flags = bs ! 3,
           mx_len = le_value (take 2 (drop 4 bs)), mx_sid = le_value (take 2 (drop 6 bs)),
           mx_seq = le_value (take 4 (drop 8 bs)), mx_rsv = le_value (take 2 (drop 12 bs))\<rparr>
   }"

definition mux_encode ::
  "u8 list option \<Rightarrow> nat \<Rightarrow> mux_hdr option \<Rightarrow> u8 list option \<Rightarrow> (nat \<times> u8 list option) option" where
  "mux_encode out out_cap hdr payload = (case (out, hdr) of
       (Some o', Some h) \<Rightarrow>
         (if mx_sof h \<noteq> MUX_SOF \<or> mx_ver h \<noteq> MUX_VER then Some (0, out)
          else let len = unat (mx_len h); need = sizeof_mux_hdr + len + 2
          in if out_cap < need then Some (0, out)
          else do {
            m \<leftarrow> mem_write o' 0 (mux_hdr_bytes h);
            m \<leftarrow> (case payload of
                   Some p \<Rightarrow> (if len \<noteq> 0 then do { bs \<leftarrow> mem_read p 0 len; mem_write m sizeof_mux_hdr bs } else Some m)
                 | None \<Rightarrow> Some m);
            crc \<leftarrow> get_CRC16_check_sum (Some (drop 1 m)) (sizeof_mux_hdr - 1 + len) 0xFFFF;
            m \<leftarrow> mem_set m (sizeof_mux_hdr + len + 0) (ucast (crc AND 0xFF));
            m \<leftarrow> mem_set m (sizeof_mux_hdr + len + 1) (ucast (drop_bit 8 crc));
            Some (need, Some m)
          })
     | _ \<Rightarrow> Some (0, out))"

text \<open>
  The output parameters: a header object and a payload pointer, either possibly null. On success the
  payload pointer is set to the rest of the data from its byte 14.
\<close>

definition mux_decode ::
  "u8 list option \<Rightarrow> nat \<Rightarrow> mux_hdr option \<Rightarrow> u8 list option option \<Rightarrow>
     (bool \<times> mux_hdr option \<times> u8 list option option) option" where
  "mux_decode data len out_hdr out_payload = (case (data, out_hdr) of
       (Some d, Some _) \<Rightarrow>
         (if len < sizeof_mux_hdr + 2 then Some (False, out_hdr, out_payload)
          else do {
            hdr \<leftarrow> mux_hdr_of d;
            if mx_sof hdr \<noteq> MUX_SOF \<or> mx_ver hdr \<noteq> MUX_VER then Some (False, out_hdr, out_payload)
            else let hlen = unat (mx_len hdr)
            in if len < sizeof_mux_hdr + hlen + 2 then Some (False, out_hdr, out_payload)
            else do {
              b0 \<leftarrow> mem_get d (sizeof_mux_hdr + hlen + 0);
              b1 \<leftarrow> mem_get d (sizeof_mux_hdr + hlen + 1);
              let crc_rx = ucast b0 OR push_bit 8 (ucast b1);
              crc_calc \<leftarrow> get_CRC16_check_sum (Some (drop 1 d)) (sizeof_mux_hdr - 1 + hlen) 0xFFFF;
              if crc_rx \<noteq> crc_calc then Some (False, out_hdr, out_payload)
              else Some (True, Some hdr, map_option (\<lambda>_. Some (drop sizeof_mux_hdr d)) out_payload)
            }
          })
     | _ \<Rightarrow> Some (False, out_hdr, out_payload))"

definition zero_mux_hdr :: mux_hdr where
  "zero_mux_hdr = \<lparr>mx_sof = 0, mx_ver = 0, mx_channel = 0, mx_flags = 0, mx_len = 0, mx_sid = 0, mx_seq = 0, mx_rsv = 0\<rparr>"

section \<open>The binding to a protocol context\<close>

definition on_mux_rx ::
  "('p, 'x) comm_heap_scheme comm_hooks \<Rightarrow> u16 \<Rightarrow> u8 list \<Rightarrow> nat \<Rightarrow> user_ptr \<Rightarrow>
     uproto_context \<times> ('p, 'x) comm_heap_scheme \<Rightarrow> (uproto_context \<times> ('p, 'x) comm_heap_scheme) option" where
  "on_mux_rx hk txn_id data len user s =
     (if user = 0 then Some s
      else (case bd_mgr (hp_bind (snd s) user) of
        None \<Rightarrow> Some s
      | Some m \<Rightarrow> do {
          r \<leftarrow> mux_decode (Some data) len (Some zero_mux_hdr) (Some None);
          case r of
            (True, Some hdr, Some (Some pl)) \<Rightarrow> chmgr_dispatch_rx hk (Some m) (mx_channel hdr) pl (unat (mx_len hdr)) s
          | _ \<Rightarrow> Some s
        }))"

definition zero_pending :: pending_item where
  "zero_pending = \<lparr>pd_used = False, pd_ch_id = 0, pd_sid = 0, pd_flags = 0, pd_len = 0,
     pd_payload = replicate COMM_CHANNEL_PENDING_PAYLOAD_SIZE 0, pd_age = 0\<rparr>"

definition ch_uproto_bind_init ::
  "addr option \<Rightarrow> addr option \<Rightarrow> u8 \<Rightarrow> addr option \<Rightarrow> ('p, 'x) comm_heap_scheme \<Rightarrow> ('p, 'x) comm_heap_scheme" where
  "ch_uproto_bind_init b ctx msg_type mgr h = (case b of None \<Rightarrow> h | Some a \<Rightarrow>
     h\<lparr>hp_bind := (hp_bind h)(a := \<lparr>bd_ctx = ctx, bd_msg_type = msg_type, bd_mgr = mgr,
       bd_seq_counters = replicate CH_MAX 0, bd_pending = replicate CH_MAX zero_pending, bd_rr_cursor = 0\<rparr>)\<rparr>)"

abbreviation fn_on_mux_rx :: fn_ptr where "fn_on_mux_rx \<equiv> 2"

definition ch_uproto_register_rx ::
  "addr option \<Rightarrow> uproto_context \<times> ('p, 'x) comm_heap_scheme \<Rightarrow> uproto_context \<times> ('p, 'x) comm_heap_scheme" where
  "ch_uproto_register_rx b s = (case b of None \<Rightarrow> s | Some a \<Rightarrow>
     (if bd_ctx (hp_bind (snd s) a) = None then s
      else (snd (uproto_register_handler (bd_msg_type (hp_bind (snd s) a)) (Some fn_on_mux_rx) a (fst s)), snd s)))"

text \<open>\<^verbatim>\<open>hdr.seq = ++b->seq_counters[ch_id % CH_MAX]\<close> on the binding at \<open>a\<close>.\<close>

definition next_seq :: "addr \<Rightarrow> u8 \<Rightarrow> ('p, 'x) comm_heap_scheme \<Rightarrow> u32 \<times> ('p, 'x) comm_heap_scheme" where
  "next_seq a cid h =
     (let b = hp_bind h a; k = unat cid mod CH_MAX; q = bd_seq_counters b ! k + 1
      in (q, h\<lparr>hp_bind := (hp_bind h)(a := b\<lparr>bd_seq_counters := (bd_seq_counters b)[k := q]\<rparr>)\<rparr>))"

text \<open>
  The two senders build a MUX packet on the stack, in a buffer of unspecified contents, and pass what
  \<^verbatim>\<open>mux_encode\<close> wrote on to the protocol engine. The result says whether a packet was built and whether
  it was sent.
\<close>

definition send_mux ::
  "('p, 'x) comm_heap_scheme uproto_env \<Rightarrow> addr \<Rightarrow> u8 \<Rightarrow> u16 \<Rightarrow> u8 \<Rightarrow> u8 list option \<Rightarrow> u16 \<Rightarrow>
     uproto_context \<times> ('p, 'x) comm_heap_scheme \<Rightarrow>
     (bool \<times> bool \<times> uproto_context \<times> ('p, 'x) comm_heap_scheme) option" where
  "send_mux env a cid sid flags payload len s = (case s of (ctx, h) \<Rightarrow> do {
     let (q, h) = next_seq a cid h;
     let hdr = zero_mux_hdr\<lparr>mx_sof := MUX_SOF, mx_ver := MUX_VER, mx_channel := cid, mx_flags := flags,
                 mx_len := len, mx_sid := sid, mx_seq := q\<rparr>;
     (wrote, buf) \<leftarrow> mux_encode (Some (replicate COMM_MUX_TX_BUFFER_SIZE 0)) COMM_MUX_TX_BUFFER_SIZE (Some hdr) payload;
     if wrote = 0 then Some (False, False, ctx, h)
     else do {
       (err, s) \<leftarrow> uproto_send_notify env (bd_msg_type (hp_bind h a)) buf wrote (ctx, h);
       Some (True, err = UPROTO_OK, s)
     }
   })"

definition ch_uproto_send_notify ::
  "('p, 'x) comm_heap_scheme uproto_env \<Rightarrow> addr option \<Rightarrow> u8 \<Rightarrow> u16 \<Rightarrow> u8 \<Rightarrow> u8 list option \<Rightarrow> u16 \<Rightarrow>
     uproto_context \<times> ('p, 'x) comm_heap_scheme \<Rightarrow>
     (bool \<times> uproto_context \<times> ('p, 'x) comm_heap_scheme) option" where
  "ch_uproto_send_notify env b cid sid flags payload len s = (case b of None \<Rightarrow> Some (False, s) | Some a \<Rightarrow>
     (if bd_ctx (hp_bind (snd s) a) = None then Some (False, s)
      else do { (_, sent, s) \<leftarrow> send_mux env a cid sid flags payload len s; Some (sent, s) }))"

definition update_pending ::
  "addr \<Rightarrow> nat \<Rightarrow> (pending_item \<Rightarrow> pending_item) \<Rightarrow> ('p, 'x) comm_heap_scheme \<Rightarrow> ('p, 'x) comm_heap_scheme" where
  "update_pending a i f h =
     h\<lparr>hp_bind := (hp_bind h)(a := (hp_bind h a)\<lparr>bd_pending :=
        (bd_pending (hp_bind h a))[i := f (bd_pending (hp_bind h a) ! i)]\<rparr>)\<rparr>"

definition ch_uproto_queue_notify ::
  "addr option \<Rightarrow> u8 \<Rightarrow> u16 \<Rightarrow> u8 \<Rightarrow> u8 list option \<Rightarrow> u16 \<Rightarrow> ('p, 'x) comm_heap_scheme \<Rightarrow>
     (bool \<times> ('p, 'x) comm_heap_scheme) option" where
  "ch_uproto_queue_notify b cid sid flags payload len h = (case b of None \<Rightarrow> Some (False, h) | Some a \<Rightarrow>
     (case bd_mgr (hp_bind h a) of None \<Rightarrow> Some (False, h) | Some m \<Rightarrow>
       (case find (\<lambda>i. slot_has_id h (mg_slots (hp_mgr h m) ! i) cid) [0..<CH_MAX] of
          None \<Rightarrow> Some (False, h)
        | Some i \<Rightarrow>
            (let it = bd_pending (hp_bind h a) ! i
             in if unat len > length (pd_payload it) then Some (False, h)
             else do {
               let prev_age = (if pd_used it then pd_age it else 0);
               pl \<leftarrow> (case payload of
                       Some p \<Rightarrow> (if len \<noteq> 0 then platform_memcpy (pd_payload it) p (unat len) else Some (pd_payload it))
                     | None \<Rightarrow> Some (pd_payload it));
               Some (True, update_pending a i (\<lambda>_. \<lparr>pd_used = True, pd_ch_id = cid, pd_sid = sid, pd_flags = flags,
                 pd_len = len, pd_payload = pl, pd_age = prev_age\<rparr>) h)
             }))))"

section \<open>The arbiter\<close>

fun bump_ages :: "nat list \<Rightarrow> pending_item list \<Rightarrow> pending_item list" where
  "bump_ages [] ps = ps"
| "bump_ages (i # is) ps =
     bump_ages is (if pd_used (ps ! i) \<and> pd_age (ps ! i) < 0xFFFF
                   then ps[i := (ps ! i)\<lparr>pd_age := pd_age (ps ! i) + 1\<rparr>] else ps)"

text \<open>The first pass: the first of the pending slots with the highest priority.\<close>

fun best_pending ::
  "(nat \<Rightarrow> u8 option) \<Rightarrow> pending_item list \<Rightarrow> nat list \<Rightarrow> nat option \<times> u8 \<Rightarrow> nat option \<times> u8" where
  "best_pending prio ps [] acc = acc"
| "best_pending prio ps (i # is) (best, best_prio) =
     best_pending prio ps is
       (if \<not> pd_used (ps ! i) then (best, best_prio)
        else case prio i of None \<Rightarrow> (best, best_prio)
             | Some pr \<Rightarrow> (if best = None \<or> pr > best_prio then (Some i, pr) else (best, best_prio)))"

text \<open>The starvation guard: the oldest of the slots of lower priority that are old enough.\<close>

fun aged_pending ::
  "(nat \<Rightarrow> u8 option) \<Rightarrow> u8 \<Rightarrow> pending_item list \<Rightarrow> nat list \<Rightarrow> nat option \<times> u16 \<Rightarrow> nat option \<times> u16" where
  "aged_pending prio best_prio ps [] acc = acc"
| "aged_pending prio best_prio ps (i # is) (aged_idx, max_age) =
     aged_pending prio best_prio ps is
       (if \<not> pd_used (ps ! i) then (aged_idx, max_age)
        else case prio i of None \<Rightarrow> (aged_idx, max_age)
             | Some pr \<Rightarrow> (if pr < best_prio \<and> pd_age (ps ! i) \<ge> CH_ARB_FAIR_AGE \<and> pd_age (ps ! i) > max_age
                           then (Some i, pd_age (ps ! i)) else (aged_idx, max_age)))"

definition slot_priority :: "('p, 'x) comm_heap_scheme \<Rightarrow> addr \<Rightarrow> nat \<Rightarrow> u8 option" where
  "slot_priority h m i = map_option (\<lambda>c. cc_priority (ch_cfg (hp_chan h c))) (mg_slots (hp_mgr h m) ! i)"

text \<open>
  The choice among the pending slots after the ages have been bumped: the slot and the new round-robin
  cursor, or nothing when no slot is pending.
\<close>

definition arb_choose :: "(nat \<Rightarrow> u8 option) \<Rightarrow> pending_item list \<Rightarrow> nat \<Rightarrow> u8 \<Rightarrow> (nat \<times> u8) option" where
  "arb_choose prio ps count rr_cursor =
     (let (best, best_prio) = best_pending prio ps [0..<count] (None, 0)
      in case best of None \<Rightarrow> None | Some bi \<Rightarrow>
        (case fst (aged_pending prio best_prio ps [0..<count] (None, 0)) of
           Some ai \<Rightarrow> Some (ai, rr_cursor)
         | None \<Rightarrow>
             (let start = unat rr_cursor mod count
              in case find (\<lambda>off. pd_used (ps ! ((start + off) mod count)) \<and>
                                  prio ((start + off) mod count) = Some best_prio) [0..<count] of
                   Some off \<Rightarrow> (let idx = (start + off) mod count in Some (idx, word_of_nat (idx + 1)))
                 | None \<Rightarrow> Some (bi, rr_cursor))))"

definition find_next_ready_index ::
  "addr option \<Rightarrow> ('p, 'x) comm_heap_scheme \<Rightarrow> nat option \<times> ('p, 'x) comm_heap_scheme" where
  "find_next_ready_index b h = (case b of None \<Rightarrow> (None, h) | Some a \<Rightarrow>
     (case bd_mgr (hp_bind h a) of None \<Rightarrow> (None, h) | Some m \<Rightarrow>
       (let count = mg_count (hp_mgr h m);
            ps = bump_ages [0..<count] (bd_pending (hp_bind h a));
            bd = (hp_bind h a)\<lparr>bd_pending := ps\<rparr>
        in case arb_choose (slot_priority h m) ps count (bd_rr_cursor bd) of
             None \<Rightarrow> (None, h\<lparr>hp_bind := (hp_bind h)(a := bd)\<rparr>)
           | Some (idx, rr) \<Rightarrow> (Some idx, h\<lparr>hp_bind := (hp_bind h)(a := bd\<lparr>bd_rr_cursor := rr\<rparr>)\<rparr>))))"

definition ch_uproto_arbiter_tick ::
  "('p, 'x) comm_heap_scheme uproto_env \<Rightarrow> addr option \<Rightarrow>
     uproto_context \<times> ('p, 'x) comm_heap_scheme \<Rightarrow> (uproto_context \<times> ('p, 'x) comm_heap_scheme) option" where
  "ch_uproto_arbiter_tick env b s = (case b of None \<Rightarrow> Some s | Some a \<Rightarrow>
     (if bd_ctx (hp_bind (snd s) a) = None \<or> bd_mgr (hp_bind (snd s) a) = None then Some s
      else (case find_next_ready_index b (snd s) of
        (None, h) \<Rightarrow> Some (fst s, h)
      | (Some idx, h) \<Rightarrow> do {
          let it = bd_pending (hp_bind h a) ! idx;
          (built, sent, ctx, h) \<leftarrow>
            send_mux env a (pd_ch_id it) (pd_sid it) (pd_flags it) (Some (pd_payload it)) (pd_len it) (fst s, h);
          if \<not> built \<or> sent
          then Some (ctx, update_pending a idx (\<lambda>p. p\<lparr>pd_used := False, pd_age := 0\<rparr>) h)
          else Some (ctx, h)
        })))"

section \<open>The MUX codec\<close>

lemma mux_hdr_bytes_length [simp, wire_lengths]: "length (mux_hdr_bytes h) = 14"
  by (simp add: mux_hdr_bytes_def)

definition mux_image :: "mux_hdr \<Rightarrow> u8 list \<Rightarrow> u8 list" where
  "mux_image h pl = (let m = mux_hdr_bytes h @ pl in m @ le16 (crc16_bits (drop 1 m) 0xFFFF))"

lemma mux_image_length [simp, wire_lengths]: "length (mux_image h pl) = 16 + length pl"
  by (simp add: mux_image_def Let_def)

lemma mux_hdr_of_bytes: "mux_hdr_of (mux_hdr_bytes h @ rest) = Some h"
  by (simp add: mux_hdr_of_def mux_hdr_bytes_def mem_read_def)

lemma list14_split:
  assumes "length bs = 14"
  shows "bs = [bs ! 0, bs ! 1, bs ! 2, bs ! 3] @ take 2 (drop 4 bs) @ take 2 (drop 6 bs) @ take 4 (drop 8 bs) @ take 2 (drop 12 bs)"
proof -
  have "bs = take 4 bs @ take 2 (drop 4 bs) @ take 2 (drop 6 bs) @ take 4 (drop 8 bs) @ take 2 (drop 12 bs)"
    using assms by (simp flip: take_add append_assoc)
  moreover have "take 4 bs = [bs ! 0, bs ! 1, bs ! 2, bs ! 3]"
    using assms by (simp add: eval_nat_numeral take_Suc_conv_app_nth)
  ultimately show ?thesis by simp
qed

lemma mux_hdr_of_Some:
  assumes "mux_hdr_of d = Some h"
  shows "14 \<le> length d \<and> take 14 d = mux_hdr_bytes h"
proof -
  from assms have len: "14 \<le> length d" by (auto simp: mux_hdr_of_def mem_read_def bind_Some_iff split: if_splits)
  let ?bs = "take 14 d"
  have "length ?bs = 14" using len by simp
  moreover have "h = \<lparr>mx_sof = ?bs ! 0, mx_ver = ?bs ! 1, mx_channel = ?bs ! 2, mx_flags = ?bs ! 3,
           mx_len = le_value (take 2 (drop 4 ?bs)), mx_sid = le_value (take 2 (drop 6 ?bs)),
           mx_seq = le_value (take 4 (drop 8 ?bs)), mx_rsv = le_value (take 2 (drop 12 ?bs))\<rparr>"
    using assms len by (simp add: mux_hdr_of_def mem_read_def)
  ultimately show ?thesis
    using list14_split [of ?bs] len by (simp add: mux_hdr_bytes_def le16_le_value le32_le_value)
qed

lemma mux_hdr_of_defined: "14 \<le> length d \<Longrightarrow> \<exists>h. mux_hdr_of d = Some h"
  by (simp add: mux_hdr_of_def mem_read_def)

lemma crc_bytes_le16: "[ucast (c AND 0xFF), ucast (drop_bit 8 c)] = le16 c"
  by (simp add: le_bytes_numeral)

text \<open>The payload bytes of the packet; without a payload pointer, what the buffer held.\<close>

definition mux_body :: "u8 list \<Rightarrow> u8 list option \<Rightarrow> nat \<Rightarrow> u8 list" where
  "mux_body out payload n = (case payload of None \<Rightarrow> take n (drop 14 out) | Some p \<Rightarrow> take n p)"

lemma mux_encode_gen:
  assumes hdr: "mx_sof h = MUX_SOF" "mx_ver h = MUX_VER" and n: "unat (mx_len h) = n"
    and src: "\<And>p. payload = Some p \<Longrightarrow> n \<le> length p" and room: "16 + n \<le> cap" "cap \<le> length out"
  shows "mux_encode (Some out) cap (Some h) payload =
    Some (16 + n, Some (mux_image h (mux_body out payload n) @ drop (16 + n) out))"
proof -
  let ?p = "mux_body out payload n"
  let ?m = "(mux_hdr_bytes h @ ?p) @ drop (14 + n) out"
  have pn: "length ?p = n" using room src by (auto simp: mux_body_def split: option.splits)
  have w1: "mem_write out 0 (mux_hdr_bytes h) = Some (mux_hdr_bytes h @ drop 14 out)"
    using room by (simp add: mem_write_def)
  have w2: "mem_write (mux_hdr_bytes h @ drop 14 out) 14 ?p = Some ?m"
    using mem_write_cursor [of "mux_hdr_bytes h" ?p out] room pn by (simp add: add.commute)
  have cp: "(case payload of
      Some p \<Rightarrow> (if n \<noteq> 0 then do { bs \<leftarrow> mem_read p 0 n; mem_write (mux_hdr_bytes h @ drop 14 out) 14 bs }
                 else Some (mux_hdr_bytes h @ drop 14 out))
    | None \<Rightarrow> Some (mux_hdr_bytes h @ drop 14 out)) = Some ?m"
  proof (cases payload)
    case None
    then show ?thesis by (simp add: mux_body_def) (metis append_take_drop_id drop_drop add.commute)
  next
    case (Some p)
    then show ?thesis using w2 src by (auto simp: mem_read_def mux_body_def)
  qed
  define crc where "crc = crc16_bits (drop 1 (mux_hdr_bytes h @ ?p)) 0xFFFF"
  have c: "get_CRC16_check_sum (Some (drop 1 ?m)) (13 + n) 0xFFFF = Some crc"
    using room pn by (simp add: get_CRC16_check_sum_in crc_def)
  have "Option.bind (mem_set ?m (14 + n) (ucast (crc AND 0xFF))) (\<lambda>m. mem_set m (Suc (14 + n)) (ucast (drop_bit 8 crc)))
      = mem_write ?m (14 + n) (le16 crc)"
    by (subst mem_set_set_consecutive) (simp only: crc_bytes_le16)
  also have "\<dots> = Some (mux_image h ?p @ drop (16 + n) out)"
    using mem_write_cursor [of "mux_hdr_bytes h @ ?p" "le16 crc" out] room pn
    by (simp add: mux_image_def Let_def crc_def add.commute)
  finally have "Option.bind (mem_set ?m (14 + n) (ucast (crc AND 0xFF)))
      (\<lambda>m. Option.bind (mem_set m (Suc (14 + n)) (ucast (drop_bit 8 crc))) (\<lambda>m. Some (k, Some m)))
      = Some (k, Some (mux_image h ?p @ drop (16 + n) out))" for k :: nat
    by (simp flip: Option.bind_assoc)
  then show ?thesis
    using room cp c by (simp add: mux_encode_def hdr n Let_def w1 split del: if_split)
qed

lemma mux_encode_eq:
  assumes "mx_sof h = MUX_SOF" "mx_ver h = MUX_VER" "unat (mx_len h) = length p" "16 + length p \<le> cap" "cap \<le> length out"
  shows "mux_encode (Some out) cap (Some h) (Some p) =
    Some (16 + length p, Some (mux_image h p @ drop (16 + length p) out))"
  using mux_encode_gen [OF assms(1-3), of "Some p" cap out] assms(4,5) by (simp add: mux_body_def)

lemma mux_crc_bytes:
  "mem_get d i = Some b0 \<Longrightarrow> mem_get d (i + 1) = Some b1 \<Longrightarrow>
     comm_read_u16_le d i = Some (ucast b0 OR push_bit 8 (ucast b1))"
  by (simp add: comm_read_u16_le_def)

text \<open>The decoder with its checks in one condition: complete, intact and of this version.\<close>

definition mux_accepts :: "u8 list \<Rightarrow> nat \<Rightarrow> mux_hdr \<Rightarrow> bool" where
  "mux_accepts d len h \<longleftrightarrow> mux_hdr_of d = Some h \<and> mx_sof h = MUX_SOF \<and> mx_ver h = MUX_VER \<and>
     16 + unat (mx_len h) \<le> len \<and> take (16 + unat (mx_len h)) d = mux_image h (take (unat (mx_len h)) (drop 14 d))"

lemma mux_image_iff:
  assumes h: "mux_hdr_of d = Some h" and n: "16 + n \<le> length d"
  shows "take (16 + n) d = mux_image h (take n (drop 14 d)) \<longleftrightarrow>
    comm_read_u16_le d (14 + n) = Some (crc16_bits (take (13 + n) (drop 1 d)) 0xFFFF)"
proof -
  have m: "take (14 + n) d = mux_hdr_bytes h @ take n (drop 14 d)"
    using mux_hdr_of_Some [OF h] by (simp add: take_add)
  have split: "take (16 + n) d = take (14 + n) d @ take 2 (drop (14 + n) d)"
    using take_add [of "14 + n" 2 d] by (simp add: add.commute)
  have crc: "drop 1 (mux_hdr_bytes h @ take n (drop 14 d)) = take (13 + n) (drop 1 d)"
    unfolding m [symmetric] by (simp add: drop_take)
  have rd: "comm_read_u16_le d (14 + n) = Some c \<longleftrightarrow> take 2 (drop (14 + n) d) = le16 c" for c
    using le16.read_at [of "14 + n" d c] le16.read_value [of d "14 + n" c] n by (auto simp: mem_read_def)
  show ?thesis
    unfolding split m mux_image_def Let_def crc rd by simp
qed

lemma mux_decode_eq:
  assumes "len \<le> length d"
  shows "mux_decode (Some d) len (Some oh) op =
    (case mux_hdr_of d of
       Some h \<Rightarrow> (if mux_accepts d len h then Some (True, Some h, map_option (\<lambda>_. Some (drop 14 d)) op)
                 else Some (False, Some oh, op))
     | None \<Rightarrow> Some (False, Some oh, op))"
proof (cases "len < 16")
  case True
  then show ?thesis by (simp add: mux_decode_def mux_accepts_def split: option.splits)
next
  case False
  with assms obtain h where h: "mux_hdr_of d = Some h" using mux_hdr_of_defined [of d] by auto
  let ?n = "unat (mx_len h)"
  show ?thesis
  proof (cases "16 + ?n \<le> len")
    case True
    with assms have n: "16 + ?n \<le> length d" by simp
    then have b: "mem_get d (14 + ?n) = Some (d ! (14 + ?n))" "mem_get d (Suc (14 + ?n)) = Some (d ! (Suc (14 + ?n)))"
      by (simp_all add: mem_get_def)
    have "comm_read_u16_le d (14 + ?n) = Some (ucast (d ! (14 + ?n)) OR push_bit 8 (ucast (d ! Suc (14 + ?n))))"
      using b by (simp add: comm_read_u16_le_def)
    moreover have "get_CRC16_check_sum (Some (drop 1 d)) (13 + ?n) 0xFFFF = Some (crc16_bits (take (13 + ?n) (drop 1 d)) 0xFFFF)"
      using n by (simp add: get_CRC16_check_sum_in)
    ultimately show ?thesis
      using False True h b mux_image_iff [OF h n] by (simp add: mux_decode_def mux_accepts_def Let_def)
  next
    case short: False
    then show ?thesis using False h by (simp add: mux_decode_def mux_accepts_def Let_def)
  qed
qed

lemma mux_accepts_image:
  assumes "mx_sof h = MUX_SOF" "mx_ver h = MUX_VER" "unat (mx_len h) = length p" "16 + length p \<le> len"
  shows "mux_accepts (mux_image h p @ rest) len h"
proof -
  have "mux_image h p @ rest = mux_hdr_bytes h @ (drop 14 (mux_image h p) @ rest)"
    by (simp add: mux_image_def Let_def)
  then have "mux_hdr_of (mux_image h p @ rest) = Some h" by (metis mux_hdr_of_bytes)
  moreover have "take (length p) (drop 14 (mux_image h p @ rest)) = p"
    by (simp add: mux_image_def Let_def)
  ultimately show ?thesis using assms by (simp add: mux_accepts_def)
qed

lemma mux_image_codeword: "crc16_bits (drop 1 (mux_image h p)) 0xFFFF = 0"
  by (simp add: mux_image_def Let_def crc16_codeword flip: append_assoc)

lemma mux_hdr_bytes_nth: "mux_hdr_bytes h ! 0 = mx_sof h" "take 2 (drop 4 (mux_hdr_bytes h)) = le16 (mx_len h)"
  by (simp_all add: mux_hdr_bytes_def)

lemma mux_corrupted_not_accepted:
  assumes diff: "differ_within i 2 d (mux_image h p)" and len: "unat (mx_len h) = length p" "mx_sof h = MUX_SOF"
    and keep: "take 2 (drop 4 d) = take 2 (drop 4 (mux_image h p))" and acc: "mux_accepts d (length d) h'"
  shows "d = mux_image h p"
proof -
  have dl: "length d = 16 + length p" using differ_within_length [OF diff] by simp
  from acc have h': "mux_hdr_of d = Some h'" and sof: "mx_sof h' = MUX_SOF"
    and img: "take (16 + unat (mx_len h')) d = mux_image h' (take (unat (mx_len h')) (drop 14 d))"
    by (simp_all add: mux_accepts_def)
  have t14: "take 14 d = mux_hdr_bytes h'" "take 14 (mux_image h p) = mux_hdr_bytes h"
    using mux_hdr_of_Some [OF h'] by (simp_all add: mux_image_def Let_def)
  have at4: "take 2 (drop 4 (take 14 x)) = take 2 (drop 4 x)" for x :: "u8 list"
    by (simp add: drop_take)
  have "le16 (mx_len h') = le16 (mx_len h)"
    using keep at4 [of d] at4 [of "mux_image h p"] by (simp add: t14 mux_hdr_bytes_nth)
  then have "mx_len h' = mx_len h" by (simp add: le16.img_inject)
  then have d: "d = mux_image h' (take (length p) (drop 14 d))" using img dl len(1) by simp
  have "drop 1 d = drop 1 (mux_image h p)"
    using differ_within_drop [OF diff, of 1] d mux_image_codeword
    by (intro crc16_detects_within [of "i - 1" _ _ "0xFFFF"]) (simp, metis)
  moreover have "take 1 d = take 1 (mux_image h p)"
  proof -
    have "take 1 d = take 1 (take 14 d)" by simp
    also have "\<dots> = take 1 (take 14 (mux_image h p))"
      unfolding t14 using sof len(2) by (simp add: mux_hdr_bytes_def)
    finally show ?thesis by simp
  qed
  ultimately show ?thesis by (metis append_take_drop_id)
qed

section \<open>Properties of the MUX codec\<close>

definition sample_hdr :: mux_hdr where
  "sample_hdr = \<lparr>mx_sof = MUX_SOF, mx_ver = MUX_VER, mx_channel = 4, mx_flags = 0, mx_len = 2, mx_sid = 0x0201, mx_seq = 7, mx_rsv = 0\<rparr>"

lemma sample_hdr_ok:
  "mx_sof sample_hdr = MUX_SOF" "mx_ver sample_hdr = MUX_VER" "unat (mx_len sample_hdr) = length [8, 9 :: u8]"
  by (simp_all add: sample_hdr_def)

text \<open>
  MUX round trip: a packet that \<^verbatim>\<open>mux_encode\<close> builds from a header of this version and a payload of the
  declared length is its wire image, and \<^verbatim>\<open>mux_decode\<close> accepts it with the same header and the payload, whatever
  follows it.
\<close>

theorem mux_roundtrip:
  assumes "mx_sof h = MUX_SOF" and "mx_ver h = MUX_VER" and "unat (mx_len h) = length p"
    and "16 + length p \<le> cap" and "cap \<le> length out"
  shows "\<exists>buf. mux_encode (Some out) cap (Some h) (Some p) = Some (16 + length p, Some buf) \<and>
    length buf = length out \<and> take (16 + length p) buf = mux_image h p \<and>
    mux_decode (Some buf) (16 + length p) (Some oh) (Some op) = Some (True, Some h, Some (Some (drop 14 buf))) \<and>
    take (length p) (drop 14 buf) = p"
proof -
  let ?buf = "mux_image h p @ drop (16 + length p) out"
  have "mux_accepts ?buf (16 + length p) h" using assms by (intro mux_accepts_image) auto
  then have "mux_decode (Some ?buf) (16 + length p) (Some oh) (Some op) = Some (True, Some h, Some (Some (drop 14 ?buf)))"
    by (subst mux_decode_eq) (auto simp: mux_accepts_def)
  moreover have "take (length p) (drop 14 ?buf) = p" by (simp add: mux_image_def Let_def)
  ultimately show ?thesis using mux_encode_eq [OF assms] assms(4,5) by (intro exI [of _ ?buf]) simp
qed

theorem mux_roundtrip_witness:
  "\<exists>buf. mux_encode (Some (replicate 20 0)) 20 (Some sample_hdr) (Some [8, 9]) = Some (18, Some buf) \<and>
    mux_decode (Some buf) 18 (Some zero_mux_hdr) (Some None) = Some (True, Some sample_hdr, Some (Some (drop 14 buf))) \<and>
    take 2 (drop 14 buf) = [8, 9]"
  using mux_roundtrip [OF sample_hdr_ok, of 20 "replicate 20 0" zero_mux_hdr None] by (auto simp: numeral_2_eq_2)

text \<open>
  \<^verbatim>\<open>mux_decode\<close> stays inside the data for every input; it succeeds only on a complete packet of this
  version whose bytes are the image of the header it returns and of the payload behind it, and otherwise
  leaves its output parameters alone.
\<close>

theorem mux_decode_sound:
  assumes "len \<le> length d"
  shows "(\<exists>h. mux_decode (Some d) len (Some oh) (Some op) = Some (True, Some h, Some (Some (drop 14 d))) \<and>
            mx_sof h = MUX_SOF \<and> mx_ver h = MUX_VER \<and> 16 + unat (mx_len h) \<le> len \<and>
            take (16 + unat (mx_len h)) d = mux_image h (take (unat (mx_len h)) (drop 14 d)))
    \<or> mux_decode (Some d) len (Some oh) (Some op) = Some (False, Some oh, Some op)"
  using mux_decode_eq [OF assms, of oh "Some op"] by (auto simp: mux_accepts_def split: option.splits if_splits)

theorem mux_decode_sound_witness:
  "(\<exists>h. mux_decode (Some (replicate 16 0)) 16 (Some zero_mux_hdr) (Some None) =
          Some (True, Some h, Some (Some (drop 14 (replicate 16 0))))) \<or>
   mux_decode (Some (replicate 16 0)) 16 (Some zero_mux_hdr) (Some None) = Some (False, Some zero_mux_hdr, Some None)"
  using mux_decode_sound [of 16 "replicate 16 0" zero_mux_hdr None] by auto

text \<open>
  Error detection of the MUX layer: a packet changed within two adjacent bytes, its length field apart,
  is not accepted.
\<close>

theorem mux_decode_rejects_corruption:
  assumes "mx_sof h = MUX_SOF" and "unat (mx_len h) = length p" and "differ_within i 2 d (mux_image h p)"
    and "d \<noteq> mux_image h p" and "take 2 (drop 4 d) = take 2 (drop 4 (mux_image h p))"
  shows "mux_decode (Some d) (length d) (Some oh) op = Some (False, Some oh, op)"
  using mux_decode_eq [OF order_refl, of d oh op] mux_corrupted_not_accepted [OF assms(3,2,1,5)] assms(4)
  by (auto split: option.splits)

theorem mux_decode_rejects_corruption_witness:
  "mux_decode (Some ((mux_image sample_hdr [8, 9])[14 := 1, 15 := 1])) 18 (Some zero_mux_hdr) None = Some (False, Some zero_mux_hdr, None)"
proof -
  let ?d = "(mux_image sample_hdr [8, 9])[14 := 1, 15 := 1]"
  have i: "mux_image sample_hdr [8, 9] ! 14 = 8"
    by (simp add: mux_image_def Let_def nth_append)
  have "?d ! 14 \<noteq> mux_image sample_hdr [8, 9] ! 14" unfolding i by simp
  then have ne: "?d \<noteq> mux_image sample_hdr [8, 9]" by metis
  have "differ_within 14 2 ?d (mux_image sample_hdr [8, 9])" by (auto simp: differ_within_def nth_list_update)
  moreover have "take 2 (drop 4 ?d) = take 2 (drop 4 (mux_image sample_hdr [8, 9]))"
    by (simp add: drop_update_swap)
  ultimately show ?thesis
    using mux_decode_rejects_corruption [OF sample_hdr_ok(1,3), of 14 ?d zero_mux_hdr None] ne by simp
qed

end
