(* ===== verification/Comm_Link.thy ===== *)
theory Comm_Link
  imports Comm
begin

text \<open>
  The heap invariant of the channel layer and the environment it gives the protocol engine: the
  receive handler \<^verbatim>\<open>on_mux_rx\<close>, ports and application callbacks. Channels whose hooks keep the invariant and
  leave the receive buffer alone (the locale \<open>comm_callbacks\<close>) make the environment meet the engine's
  contract \<open>uproto_callbacks\<close>.
\<close>

section \<open>The heap invariant\<close>

definition wf_mgr :: "channel_manager \<Rightarrow> bool" where
  "wf_mgr m \<longleftrightarrow> length (mg_slots m) = CH_MAX \<and> mg_count m \<le> CH_MAX \<and>
     (\<forall>i < CH_MAX. mg_slots m ! i \<noteq> None \<longleftrightarrow> i < mg_count m)"

definition wf_pending :: "pending_item \<Rightarrow> bool" where
  "wf_pending p \<longleftrightarrow> length (pd_payload p) = COMM_CHANNEL_PENDING_PAYLOAD_SIZE \<and>
     (pd_used p \<longrightarrow> unat (pd_len p) \<le> COMM_CHANNEL_PENDING_PAYLOAD_SIZE)"

definition wf_bind :: "ch_uproto_bind \<Rightarrow> bool" where
  "wf_bind b \<longleftrightarrow> length (bd_seq_counters b) = CH_MAX \<and> length (bd_pending b) = CH_MAX \<and>
     list_all wf_pending (bd_pending b)"

text \<open>The objects that other components add to the heap come with an invariant \<open>I\<close> of their own.\<close>

definition wf_heap :: "('x \<Rightarrow> bool) \<Rightarrow> ('p, 'x) comm_heap_scheme \<Rightarrow> bool" where
  "wf_heap I h \<longleftrightarrow> (\<forall>a. wf_mgr (hp_mgr h a)) \<and> (\<forall>a. wf_bind (hp_bind h a)) \<and> I (comm_heap.more h)"

lemma wf_heap_mgr: "wf_heap I h \<Longrightarrow> wf_mgr (hp_mgr h a)"
  and wf_heap_bind: "wf_heap I h \<Longrightarrow> wf_bind (hp_bind h a)"
  by (simp_all add: wf_heap_def)

lemma wf_heap_updates [simp]:
  "wf_heap I (h\<lparr>hp_chan := c\<rparr>) = wf_heap I h"
  "wf_heap I (h\<lparr>hp_ext := e\<rparr>) = wf_heap I h"
  by (simp_all add: wf_heap_def)

lemma wf_heap_set_mgr: "wf_heap I h \<Longrightarrow> wf_mgr m \<Longrightarrow> wf_heap I (h\<lparr>hp_mgr := (hp_mgr h)(a := m)\<rparr>)"
  by (simp add: wf_heap_def)

lemma wf_heap_set_bind: "wf_heap I h \<Longrightarrow> wf_bind b \<Longrightarrow> wf_heap I (h\<lparr>hp_bind := (hp_bind h)(a := b)\<rparr>)"
  by (simp add: wf_heap_def)

lemma wf_mgr_slot: "wf_mgr m \<Longrightarrow> i < CH_MAX \<Longrightarrow> mg_slots m ! i \<noteq> None \<longleftrightarrow> i < mg_count m"
  by (simp add: wf_mgr_def)

lemma wf_bind_update:
  "wf_bind b \<Longrightarrow> length q = CH_MAX \<Longrightarrow> wf_bind (b\<lparr>bd_seq_counters := q\<rparr>)"
  "wf_bind b \<Longrightarrow> wf_bind (b\<lparr>bd_rr_cursor := r\<rparr>)"
  "wf_bind b \<Longrightarrow> length ps = CH_MAX \<Longrightarrow> list_all wf_pending ps \<Longrightarrow> wf_bind (b\<lparr>bd_pending := ps\<rparr>)"
  by (simp_all add: wf_bind_def)

lemma wf_heap_update_pending:
  assumes "wf_heap I h" and "\<And>p. wf_pending p \<Longrightarrow> wf_pending (f p)"
  shows "wf_heap I (update_pending a i f h)"
proof -
  have b: "wf_bind (hp_bind h a)" using assms(1) by (rule wf_heap_bind)
  have "list_all wf_pending ((bd_pending (hp_bind h a))[i := f (bd_pending (hp_bind h a) ! i)])"
    using b assms(2) unfolding wf_bind_def
    by (cases "i < length (bd_pending (hp_bind h a))") (auto simp: list_all_length nth_list_update)
  then show ?thesis
    unfolding update_pending_def using b by (intro wf_heap_set_bind [OF assms(1)] wf_bind_update) (auto simp: wf_bind_def)
qed

section \<open>Every operation keeps it\<close>

lemma wf_channel_ops [simp]:
  "wf_heap I (channel_init ch cid cfg hooks user h) = wf_heap I h"
  "wf_heap I (channel_bind_transport ch t m h) = wf_heap I h"
  "wf_heap I (channel_mark_handshake_done ch h) = wf_heap I h"
  by (simp_all add: channel_init_def channel_bind_transport_def channel_mark_handshake_done_def Let_def
      split: option.splits)

lemma zero_manager_wf: "wf_mgr zero_manager"
  by (simp add: wf_mgr_def zero_manager_def)

lemma chmgr_init_wf: "wf_heap I h \<Longrightarrow> wf_heap I (chmgr_init m h)"
  by (auto simp: chmgr_init_def intro: wf_heap_set_mgr zero_manager_wf split: option.splits)

lemma register_wf_mgr:
  "wf_mgr m \<Longrightarrow> mg_count m < CH_MAX \<Longrightarrow>
     wf_mgr \<lparr>mg_slots = (mg_slots m)[mg_count m := Some c], mg_count = mg_count m + 1\<rparr>"
  by (auto simp: wf_mgr_def nth_list_update less_Suc_eq)

lemma chmgr_register_wf: "wf_heap I h \<Longrightarrow> wf_heap I (snd (chmgr_register m ch h))"
  by (auto simp: chmgr_register_def intro!: wf_heap_set_mgr register_wf_mgr [simplified] intro: wf_heap_mgr
      split: option.splits)

lemma zero_pending_wf: "wf_pending zero_pending"
  by (simp add: wf_pending_def zero_pending_def)

lemma bind_init_wf: "wf_heap I h \<Longrightarrow> wf_heap I (ch_uproto_bind_init b ctx t m h)"
  by (auto simp: ch_uproto_bind_init_def wf_bind_def list_all_length zero_pending_wf intro!: wf_heap_set_bind
      split: option.splits)

lemma next_seq_wf: "wf_heap I h \<Longrightarrow> wf_heap I (snd (next_seq a cid h))"
  unfolding next_seq_def Let_def snd_conv
  by (intro wf_heap_set_bind wf_bind_update) (auto intro: wf_heap_bind simp: wf_bind_def dest: wf_heap_bind [of I h a])

lemma find_slot_bound: "find P [0..<n] = Some i \<Longrightarrow> i < n"
  using find_Some_upt by blast

lemma queue_notify_ok:
  assumes wf: "wf_heap I h" and p: "\<And>p. payload = Some p \<Longrightarrow> unat len \<le> length p"
  shows "\<exists>r h'. ch_uproto_queue_notify b cid sid flags payload len h = Some (r, h') \<and> wf_heap I h'"
proof -
  have item: "wf_pending (bd_pending (hp_bind h a) ! i)" if "i < 8" for a i
    using wf_heap_bind [OF wf, of a] that by (simp add: wf_bind_def list_all_length)
  show ?thesis
    unfolding ch_uproto_queue_notify_def Let_def
    using wf p item
    by (auto dest!: find_slot_bound simp: wf_pending_def platform_memcpy_in
        intro!: wf_heap_update_pending split: option.splits)
qed

lemma bump_ages_wf:
  "length ps = CH_MAX \<Longrightarrow> list_all wf_pending ps \<Longrightarrow> \<forall>i \<in> set is. i < CH_MAX \<Longrightarrow>
     length (bump_ages is ps) = CH_MAX \<and> list_all wf_pending (bump_ages is ps)"
proof (induction "is" arbitrary: ps)
  case (Cons i "is")
  let ?ps = "if pd_used (ps ! i) \<and> pd_age (ps ! i) < 0xFFFF
    then ps[i := (ps ! i)\<lparr>pd_age := pd_age (ps ! i) + 1\<rparr>] else ps"
  have "length ?ps = CH_MAX" "list_all wf_pending ?ps"
    using Cons.prems by (auto simp: list_all_length nth_list_update wf_pending_def)
  then show ?case using Cons.IH [of ?ps] Cons.prems(3) by simp
qed simp

text \<open>What the two passes over the slots compute.\<close>

lemma best_pending_spec:
  assumes "best_pending prio ps is (best, bp) = (best', bp')"
    and "best = None \<Longrightarrow> bp = 0"
  shows "(best' = None \<longleftrightarrow> best = None \<and> (\<forall>j \<in> set is. pd_used (ps ! j) \<longrightarrow> prio j = None)) \<and>
    (best' \<noteq> None \<longrightarrow> best' = best \<and> bp' = bp \<or>
       (\<exists>i \<in> set is. best' = Some i \<and> pd_used (ps ! i) \<and> prio i = Some bp')) \<and>
    (best \<noteq> None \<longrightarrow> bp \<le> bp') \<and>
    (\<forall>j \<in> set is. \<forall>q. pd_used (ps ! j) \<longrightarrow> prio j = Some q \<longrightarrow> q \<le> bp')"
  using assms
proof (induction "is" arbitrary: best bp)
  case (Cons i "is")
  let ?acc = "if \<not> pd_used (ps ! i) then (best, bp) else case prio i of None \<Rightarrow> (best, bp)
             | Some pr \<Rightarrow> (if best = None \<or> pr > bp then (Some i, pr) else (best, bp))"
  obtain b2 p2 where acc: "?acc = (b2, p2)" by fastforce
  have "best_pending prio ps is (b2, p2) = (best', bp')" using Cons.prems(1) by (simp add: acc)
  moreover have "b2 = None \<Longrightarrow> p2 = 0" using acc Cons.prems(2) by (auto split: if_splits option.splits)
  ultimately have ih: "(best' = None \<longleftrightarrow> b2 = None \<and> (\<forall>j \<in> set is. pd_used (ps ! j) \<longrightarrow> prio j = None)) \<and>
    (best' \<noteq> None \<longrightarrow> best' = b2 \<and> bp' = p2 \<or>
       (\<exists>i \<in> set is. best' = Some i \<and> pd_used (ps ! i) \<and> prio i = Some bp')) \<and>
    (b2 \<noteq> None \<longrightarrow> p2 \<le> bp') \<and>
    (\<forall>j \<in> set is. \<forall>q. pd_used (ps ! j) \<longrightarrow> prio j = Some q \<longrightarrow> q \<le> bp')"
    using Cons.IH by blast
  show ?case
  proof (cases "pd_used (ps ! i) \<and> prio i \<noteq> None \<and> (best = None \<or> the (prio i) > bp)")
    case True
    then have "b2 = Some i" "prio i = Some p2" "best \<noteq> None \<longrightarrow> bp < p2" using acc by auto
    then show ?thesis using ih True by auto
  next
    case False
    then have "b2 = best" "p2 = bp" using acc by (auto split: if_splits option.splits)
    then show ?thesis using ih False by auto
  qed
qed auto

lemma aged_pending_spec:
  assumes "aged_pending prio bp ps is (aged, age) = (aged', age')"
  defines "cand \<equiv> \<lambda>j. pd_used (ps ! j) \<and> (\<exists>pr. prio j = Some pr \<and> pr < bp) \<and> CH_ARB_FAIR_AGE \<le> pd_age (ps ! j)"
  shows "age \<le> age' \<and> (\<forall>j \<in> set is. cand j \<longrightarrow> pd_age (ps ! j) \<le> age') \<and>
    (aged' = aged \<and> age' = age \<or> (\<exists>i \<in> set is. aged' = Some i \<and> cand i \<and> pd_age (ps ! i) = age' \<and> age < age'))"
  using assms(1)
proof (induction "is" arbitrary: aged age)
  case (Cons i "is")
  show ?case
  proof (cases "cand i \<and> pd_age (ps ! i) > age")
    case True
    then have "aged_pending prio bp ps is (Some i, pd_age (ps ! i)) = (aged', age')"
      using Cons.prems by (auto simp: cand_def)
    from Cons.IH [OF this] True show ?thesis by auto
  next
    case False
    then have "aged_pending prio bp ps is (aged, age) = (aged', age')"
      using Cons.prems by (auto simp: cand_def split: if_splits option.splits)
    from Cons.IH [OF this] False show ?thesis by auto
  qed
qed auto

text \<open>
  What the arbiter promises of its choice: a pending slot; of the highest pending priority, unless some
  slot of lower priority has waited \<open>CH_ARB_FAIR_AGE\<close> rounds, and then the one of these that waited longest.
\<close>

definition starved :: "(nat \<Rightarrow> u8 option) \<Rightarrow> pending_item list \<Rightarrow> nat \<Rightarrow> nat \<Rightarrow> bool" where
  "starved prio ps count j \<longleftrightarrow> j < count \<and> pd_used (ps ! j) \<and> CH_ARB_FAIR_AGE \<le> pd_age (ps ! j) \<and>
     (\<exists>pr k q. prio j = Some pr \<and> k < count \<and> pd_used (ps ! k) \<and> prio k = Some q \<and> pr < q)"

lemma not_ten_le_zero: "CH_ARB_FAIR_AGE \<le> a \<Longrightarrow> a \<le> (0 :: u16) \<Longrightarrow> False"
  by (simp add: word_le_nat_alt)

lemma arb_choose_None:
  "arb_choose prio ps count rr = None \<longleftrightarrow> (\<forall>j < count. pd_used (ps ! j) \<longrightarrow> prio j = None)"
proof -
  obtain best bp where b: "best_pending prio ps [0..<count] (None, 0) = (best, bp)" by fastforce
  show ?thesis
    using best_pending_spec [OF b] by (auto simp: arb_choose_def b Let_def split: option.splits)
qed

lemma arb_choose_spec:
  assumes "arb_choose prio ps count rr = Some (idx, rr')"
  shows "idx < count \<and> pd_used (ps ! idx) \<and> prio idx \<noteq> None \<and>
    ((\<exists>j. starved prio ps count j) \<longrightarrow> starved prio ps count idx \<and>
        (\<forall>j. starved prio ps count j \<longrightarrow> pd_age (ps ! j) \<le> pd_age (ps ! idx))) \<and>
    (\<not> (\<exists>j. starved prio ps count j) \<longrightarrow>
        (\<forall>j < count. pd_used (ps ! j) \<longrightarrow> (\<forall>q. prio j = Some q \<longrightarrow> q \<le> the (prio idx))))"
proof -
  obtain best bp where b: "best_pending prio ps [0..<count] (None, 0) = (best, bp)" by fastforce
  from assms obtain bi where "best = Some bi" by (auto simp: arb_choose_def b Let_def split: option.splits)
  with best_pending_spec [OF b] have bi: "bi < count" "pd_used (ps ! bi)" "prio bi = Some bp"
    and max: "\<And>j q. j < count \<Longrightarrow> pd_used (ps ! j) \<Longrightarrow> prio j = Some q \<Longrightarrow> q \<le> bp"
    by auto
  have starved: "starved prio ps count j \<longleftrightarrow> j < count \<and> pd_used (ps ! j) \<and>
      (\<exists>pr. prio j = Some pr \<and> pr < bp) \<and> CH_ARB_FAIR_AGE \<le> pd_age (ps ! j)" for j
    unfolding starved_def using bi max by (blast intro: order.strict_trans2)
  obtain aged age where a: "aged_pending prio bp ps [0..<count] (None, 0) = (aged, age)" by fastforce
  note as = aged_pending_spec [OF a]
  show ?thesis
  proof (cases aged)
    case (Some ai)
    then have "idx = ai" using assms \<open>best = Some bi\<close> by (simp add: arb_choose_def b a Let_def)
    then show ?thesis using as Some starved by auto
  next
    case None
    then have "age = 0" using as by auto
    then have none: "\<not> starved prio ps count j" for j
      using as unfolding starved by (metis atLeastLessThan_iff atLeast_upt lessThan_iff not_ten_le_zero)
    let ?start = "unat rr mod count"
    let ?P = "\<lambda>off. pd_used (ps ! ((?start + off) mod count)) \<and> prio ((?start + off) mod count) = Some bp"
    show ?thesis
    proof (cases "find ?P [0..<count]")
      case None
      then have "idx = bi" using assms \<open>best = Some bi\<close> \<open>aged = None\<close> by (simp add: arb_choose_def b a Let_def)
      then show ?thesis using bi none max by auto
    next
      case (Some off)
      then have "idx = (?start + off) mod count"
        using assms \<open>best = Some bi\<close> \<open>aged = None\<close> by (simp add: arb_choose_def b a Let_def)
      moreover have "?P off" using find_Some_upt [OF Some] by blast
      ultimately show ?thesis using none max bi by auto
    qed
  qed
qed

section \<open>The arbiter on the heap\<close>

lemma find_next_cases:
  assumes "bd_mgr (hp_bind h a) = Some m"
  defines "count \<equiv> mg_count (hp_mgr h m)"
  defines "ps \<equiv> bump_ages [0..<count] (bd_pending (hp_bind h a))"
  shows "find_next_ready_index (Some a) h =
    (case arb_choose (slot_priority h m) ps count (bd_rr_cursor (hp_bind h a)) of
       None \<Rightarrow> (None, h\<lparr>hp_bind := (hp_bind h)(a := (hp_bind h a)\<lparr>bd_pending := ps\<rparr>)\<rparr>)
     | Some (idx, rr) \<Rightarrow> (Some idx, h\<lparr>hp_bind := (hp_bind h)(a := (hp_bind h a)\<lparr>bd_pending := ps, bd_rr_cursor := rr\<rparr>)\<rparr>))"
  unfolding ps_def count_def using assms(1) by (simp add: find_next_ready_index_def Let_def)

lemma bumped_wf:
  assumes "wf_heap I h"
  shows "length (bump_ages [0..<mg_count (hp_mgr h m)] (bd_pending (hp_bind h a))) = CH_MAX"
    and "list_all wf_pending (bump_ages [0..<mg_count (hp_mgr h m)] (bd_pending (hp_bind h a)))"
proof -
  have "mg_count (hp_mgr h m) \<le> 8" using wf_heap_mgr [OF assms(1), of m] by (simp add: wf_mgr_def)
  then show "length (bump_ages [0..<mg_count (hp_mgr h m)] (bd_pending (hp_bind h a))) = CH_MAX"
    and "list_all wf_pending (bump_ages [0..<mg_count (hp_mgr h m)] (bd_pending (hp_bind h a)))"
    using bump_ages_wf [of "bd_pending (hp_bind h a)" "[0..<mg_count (hp_mgr h m)]"] wf_heap_bind [OF assms(1), of a]
    by (auto simp: wf_bind_def)
qed

lemma find_next_wf:
  assumes "wf_heap I h"
  shows "wf_heap I (snd (find_next_ready_index b h))"
proof (cases "\<exists>a m. b = Some a \<and> bd_mgr (hp_bind h a) = Some m")
  case True
  then obtain a m where b: "b = Some a" and m: "bd_mgr (hp_bind h a) = Some m" by blast
  show ?thesis
    unfolding b find_next_cases [OF m]
    using wf_heap_bind [OF assms, of a] bumped_wf [OF assms, of m a]
    by (auto intro!: wf_heap_set_bind [OF assms] wf_bind_update split: option.splits)
next
  case False
  then show ?thesis using assms by (auto simp: find_next_ready_index_def split: option.splits)
qed

lemma find_next_Some:
  assumes wf: "wf_heap I h" and r: "find_next_ready_index (Some a) h = (Some idx, h')"
  shows "idx < CH_MAX \<and> pd_used (bd_pending (hp_bind h' a) ! idx) \<and> wf_pending (bd_pending (hp_bind h' a) ! idx)"
proof -
  from r obtain m where m: "bd_mgr (hp_bind h a) = Some m"
    by (cases "bd_mgr (hp_bind h a)") (auto simp: find_next_ready_index_def)
  let ?ps = "bump_ages [0..<mg_count (hp_mgr h m)] (bd_pending (hp_bind h a))"
  from r obtain rr where c: "arb_choose (slot_priority h m) ?ps (mg_count (hp_mgr h m)) (bd_rr_cursor (hp_bind h a)) = Some (idx, rr)"
    and ps: "bd_pending (hp_bind h' a) = ?ps"
    unfolding find_next_cases [OF m] by (auto split: option.splits)
  have "mg_count (hp_mgr h m) \<le> 8" using wf_heap_mgr [OF wf, of m] by (simp add: wf_mgr_def)
  moreover from arb_choose_spec [OF c] have "idx < mg_count (hp_mgr h m)" "pd_used (?ps ! idx)" by simp_all
  ultimately show ?thesis using bumped_wf [OF wf, of m a] ps by (simp add: list_all_length)
qed

context uproto_callbacks
begin

lemma send_notify_safe:
  "(\<And>p. payload = Some p \<Longrightarrow> n \<le> length p) \<Longrightarrow> wf_ctx c \<Longrightarrow> W w \<Longrightarrow> same_setup ctx c \<Longrightarrow>
     safe W ctx (map_option snd (uproto_send_notify env type payload n (c, w)))"
  by (auto simp: uproto_send_notify_def intro!: send_frame_safe)

end

text \<open>The environment on heaps: every application callback acts on the heap through its part of it.\<close>

locale heap_env = uproto_callbacks env "wf_heap I"
  for env :: "('p, 'x) comm_heap_scheme uproto_env" and I :: "'x \<Rightarrow> bool"
begin

lemma send_mux_safe:
  assumes "wf_ctx c" "wf_heap I h" "same_setup ctx c" "\<And>p. payload = Some p \<Longrightarrow> unat len \<le> length p"
  shows "safe (wf_heap I) ctx (map_option (snd \<circ> snd) (send_mux env a cid sid flags payload len (c, h)))"
proof -
  obtain q h1 where q: "next_seq a cid h = (q, h1)" by fastforce
  have h1: "wf_heap I h1" using next_seq_wf [OF assms(2), of a cid] by (simp add: q)
  let ?hdr = "zero_mux_hdr\<lparr>mx_sof := MUX_SOF, mx_ver := MUX_VER, mx_channel := cid, mx_flags := flags,
                 mx_len := len, mx_sid := sid, mx_seq := q\<rparr>"
  let ?out = "replicate COMM_MUX_TX_BUFFER_SIZE 0 :: u8 list"
  show ?thesis
  proof (cases "16 + unat len \<le> 520")
    case True
    let ?b = "mux_image ?hdr (mux_body ?out payload (unat len)) @ drop (16 + unat len) ?out"
    have enc: "mux_encode (Some ?out) 520 (Some ?hdr) payload = Some (16 + unat len, Some ?b)"
      using True assms(4) by (intro mux_encode_gen) auto
    have "length (mux_body ?out payload (unat len)) = unat len"
      using True assms(4) by (auto simp: mux_body_def split: option.splits)
    then have "length ?b = 520" using True by simp
    then have "safe (wf_heap I) ctx (map_option snd (uproto_send_notify env (bd_msg_type (hp_bind h1 a)) (Some ?b) (16 + unat len) (c, h1)))"
      using True assms(1,3) h1 by (intro send_notify_safe) auto
    then show ?thesis
      unfolding send_mux_def by (auto simp: q enc Let_def safe_def)
  next
    case False
    then have "mux_encode (Some ?out) 520 (Some ?hdr) payload = Some (0, Some ?out)"
      by (simp add: mux_encode_def Let_def)
    then show ?thesis using assms(1,3) h1 by (simp add: send_mux_def q Let_def)
  qed
qed

lemma arbiter_tick_safe:
  assumes "wf_ctx c" "wf_heap I h" "same_setup ctx c"
  shows "safe (wf_heap I) ctx (ch_uproto_arbiter_tick env b (c, h))"
proof (cases "\<exists>a. b = Some a \<and> bd_ctx (hp_bind h a) \<noteq> None \<and> bd_mgr (hp_bind h a) \<noteq> None")
  case False
  then show ?thesis using assms by (auto simp: ch_uproto_arbiter_tick_def split: option.splits)
next
  case True
  then obtain a where b: "b = Some a" "bd_ctx (hp_bind h a) \<noteq> None" "bd_mgr (hp_bind h a) \<noteq> None" by blast
  obtain r h1 where f: "find_next_ready_index b h = (r, h1)" by fastforce
  have h1: "wf_heap I h1" using find_next_wf [OF assms(2), of b] by (simp add: f)
  show ?thesis
  proof (cases r)
    case None
    then show ?thesis using b f h1 assms by (auto simp: ch_uproto_arbiter_tick_def)
  next
    case (Some idx)
    let ?it = "bd_pending (hp_bind h1 a) ! idx"
    have it: "wf_pending ?it" "pd_used ?it" using find_next_Some [OF assms(2), of a idx h1] f b Some by auto
    have "safe (wf_heap I) ctx (map_option (snd \<circ> snd) (send_mux env a (pd_ch_id ?it) (pd_sid ?it) (pd_flags ?it)
        (Some (pd_payload ?it)) (pd_len ?it) (c, h1)))"
      using assms h1 it by (intro send_mux_safe) (auto simp: wf_pending_def)
    then show ?thesis
      unfolding ch_uproto_arbiter_tick_def b(1) option.case snd_conv fst_conv
      using b f Some
      by (auto simp: safe_def Let_def intro!: wf_heap_update_pending simp: wf_pending_def)
  qed
qed

lemma ch_send_notify_safe:
  assumes "wf_ctx c" "wf_heap I h" "same_setup ctx c" "\<And>p. payload = Some p \<Longrightarrow> unat len \<le> length p"
  shows "safe (wf_heap I) ctx (map_option snd (ch_uproto_send_notify env b cid sid flags payload len (c, h)))"
proof (cases "\<exists>a. b = Some a \<and> bd_ctx (hp_bind h a) \<noteq> None")
  case False
  then show ?thesis using assms by (auto simp: ch_uproto_send_notify_def split: option.splits)
next
  case True
  then obtain a where b: "b = Some a" "bd_ctx (hp_bind h a) \<noteq> None" by blast
  then show ?thesis
    using send_mux_safe [OF assms(1-3), of payload len a cid sid flags] assms(4)
    by (auto simp: ch_uproto_send_notify_def safe_def)
qed

end

section \<open>The environment of the engine\<close>

text \<open>Ports, clock and application callbacks, acting on the application's part of the heap.\<close>

record 'p app =
  ap_write :: "fn_ptr \<Rightarrow> user_ptr \<Rightarrow> u8 list \<Rightarrow> 'p \<Rightarrow> nat \<times> 'p"
  ap_flush :: "fn_ptr \<Rightarrow> user_ptr \<Rightarrow> 'p \<Rightarrow> 'p"
  ap_now :: "fn_ptr \<Rightarrow> user_ptr \<Rightarrow> 'p \<Rightarrow> u32 \<times> 'p"
  ap_event :: "fn_ptr \<Rightarrow> string \<Rightarrow> user_ptr \<Rightarrow> 'p \<Rightarrow> 'p"
  ap_txn :: "fn_ptr \<Rightarrow> user_ptr \<Rightarrow> uproto_error \<Rightarrow> u8 list option \<Rightarrow> nat \<Rightarrow> 'p \<Rightarrow> 'p"
  ap_handler :: "fn_ptr \<Rightarrow> u16 \<Rightarrow> u8 list \<Rightarrow> nat \<Rightarrow> user_ptr \<Rightarrow> 'p \<Rightarrow> 'p"

abbreviation on_ext :: "('p \<Rightarrow> 'p) \<Rightarrow> ('p, 'x) comm_heap_scheme \<Rightarrow> ('p, 'x) comm_heap_scheme" where
  "on_ext f h \<equiv> h\<lparr>hp_ext := f (hp_ext h)\<rparr>"

text \<open>The handler pointer that \<^verbatim>\<open>ch_uproto_register_rx\<close> registers is \<^verbatim>\<open>on_mux_rx\<close>; any other belongs to the application.\<close>

definition comm_env ::
  "'p app \<Rightarrow> ('p, 'x) comm_heap_scheme comm_hooks \<Rightarrow> ('p, 'x) comm_heap_scheme uproto_env" where
  "comm_env P hk = \<lparr>
     env_write = (\<lambda>f u bs h. let (n, e) = ap_write P f u bs (hp_ext h) in (n, h\<lparr>hp_ext := e\<rparr>)),
     env_flush = (\<lambda>f u. on_ext (ap_flush P f u)),
     env_now = (\<lambda>f u h. let (t, e) = ap_now P f u (hp_ext h) in (t, h\<lparr>hp_ext := e\<rparr>)),
     env_event = (\<lambda>f ev u (ctx, h). Some (ctx, on_ext (ap_event P f ev u) h)),
     env_txn_callback = (\<lambda>f u err rsp n (ctx, h). Some (ctx, on_ext (ap_txn P f u err rsp n) h)),
     env_msg_handler = (\<lambda>f tid data n u (ctx, h).
       if f = fn_on_mux_rx then on_mux_rx hk tid data n u (ctx, h)
       else Some (ctx, on_ext (ap_handler P f tid data n u) h))\<rparr>"

locale comm_callbacks =
  fixes P :: "'p app" and hk :: "('p, 'x) comm_heap_scheme comm_hooks" and I :: "'x \<Rightarrow> bool"
  assumes on_rx_keeps: "n \<le> length payload \<Longrightarrow> keeps (wf_heap I) (hk_on_rx hk f c payload n u)"
    and on_rx_rx: "rx_free (hk_on_rx hk f c payload n u)"
    and on_tick_keeps: "keeps (wf_heap I) (hk_on_tick hk f c u)"
    and on_tick_rx: "rx_free (hk_on_tick hk f c u)"
begin

lemma dispatch_rx_keeps: "n \<le> length payload \<Longrightarrow> keeps (wf_heap I) (chmgr_dispatch_rx hk m cid payload n)"
  using on_rx_keeps unfolding keeps_def chmgr_dispatch_rx_def by (auto split: option.splits)

lemma dispatch_rx_rx: "rx_free (chmgr_dispatch_rx hk m cid payload n)"
  using on_rx_rx unfolding rx_free_def chmgr_dispatch_rx_def by (auto split: option.splits)

lemma on_mux_rx_eq:
  assumes "u \<noteq> 0" and "bd_mgr (hp_bind h u) = Some m"
  shows "on_mux_rx hk tid data (length data) u (ctx, h) =
    (case mux_hdr_of data of
       Some hdr \<Rightarrow> (if mux_accepts data (length data) hdr
                   then chmgr_dispatch_rx hk (Some m) (mx_channel hdr) (drop 14 data) (unat (mx_len hdr)) (ctx, h)
                   else Some (ctx, h))
     | None \<Rightarrow> Some (ctx, h))"
  using assms by (simp add: on_mux_rx_def mux_decode_eq [OF order_refl] split: option.splits)

lemma on_mux_rx_keeps: "keeps (wf_heap I) (on_mux_rx hk tid data (length data) u)"
  unfolding keeps_def
proof (intro allI impI)
  fix ctx and h :: "('p, 'x) comm_heap_scheme" assume wf: "wf_ctx ctx" "wf_heap I h"
  show "\<exists>ctx' h'. on_mux_rx hk tid data (length data) u (ctx, h) = Some (ctx', h') \<and> wf_ctx ctx' \<and>
      same_setup ctx ctx' \<and> wf_heap I h'"
  proof (cases "u \<noteq> 0 \<and> (\<exists>m. bd_mgr (hp_bind h u) = Some m)")
    case True
    then obtain m where u: "u \<noteq> 0" "bd_mgr (hp_bind h u) = Some m" by blast
    have "keeps (wf_heap I) (chmgr_dispatch_rx hk (Some m) (mx_channel hdr) (drop 14 data) (unat (mx_len hdr)))"
      if "mux_accepts data (length data) hdr" for hdr
      using that by (intro dispatch_rx_keeps) (auto simp: mux_accepts_def)
    then show ?thesis
      using wf unfolding on_mux_rx_eq [OF u] keeps_def by (auto split: option.splits)
  qed (use wf in \<open>auto simp: on_mux_rx_def split: option.splits\<close>)
qed

lemma on_mux_rx_rx: "rx_free (on_mux_rx hk tid data n u)"
  unfolding rx_free_def on_mux_rx_def
  by (auto simp: rx_freeD [OF dispatch_rx_rx] map_option_bind split: option.splits bool.splits intro!: bind_cong_fun)

end

sublocale comm_callbacks \<subseteq> heap_env "comm_env P hk" I
proof unfold_locales
  show "keeps (wf_heap I) (env_msg_handler (comm_env P hk) f tid data n u)" if "length data = n" for f tid data n u
    using on_mux_rx_keeps [of tid data u] that by (auto simp: comm_env_def keeps_def)
  show "rx_free (env_msg_handler (comm_env P hk) f tid data n u)" for f tid data n u
    using on_mux_rx_rx [of tid data n u] by (auto simp: comm_env_def rx_free_def)
qed (auto simp: comm_env_def keeps_def rx_free_def Let_def split_beta)

context comm_callbacks
begin

lemma tick_slot_safe:
  "wf_ctx c \<Longrightarrow> wf_heap I h \<Longrightarrow> same_setup ctx c \<Longrightarrow> safe (wf_heap I) ctx (tick_slot hk m i (c, h))"
  by (auto simp: tick_slot_def intro: safe_call [OF on_tick_keeps] split: option.splits)

lemma tick_slots_safe:
  "wf_ctx c \<Longrightarrow> wf_heap I h \<Longrightarrow> same_setup ctx c \<Longrightarrow> safe (wf_heap I) ctx (tick_slots hk m is (c, h))"
proof (induction "is" arbitrary: c h)
  case (Cons i "is")
  then show ?case by (auto intro!: safe_bind [OF tick_slot_safe])
qed simp

lemma chmgr_tick_safe: "wf_ctx c \<Longrightarrow> wf_heap I h \<Longrightarrow> safe (wf_heap I) c (chmgr_tick hk m (c, h))"
  by (auto simp: chmgr_tick_def intro!: tick_slots_safe split: option.splits)

end

end
