(* ===== verification/Comm_Props.thy ===== *)
theory Comm_Props
  imports Comm_Link
begin

text \<open>
  What the channel layer promises: lookup after registration, keep-latest queueing, the arbiter's choice,
  the bytes one arbiter round puts on the wire, and the path of a queued payload from the sender's queue
  to the receiver's hook.
\<close>

section \<open>A lossless link\<close>

text \<open>Ports that take every byte and hooks that record what they get.\<close>

definition pipe_app :: "pipe app" where
  "pipe_app = \<lparr>
     ap_write = (\<lambda>_ _ bs e. (length bs, e\<lparr>pi_out := pi_out e @ bs\<rparr>)),
     ap_flush = (\<lambda>_ _ e. e),
     ap_now = (\<lambda>_ _ e. (pi_clock e, e)),
     ap_event = (\<lambda>_ ev _ e. e\<lparr>pi_events := pi_events e @ [ev]\<rparr>),
     ap_txn = (\<lambda>_ u err rsp _ e. e\<lparr>pi_replies := pi_replies e @ [(u, err, rsp)]\<rparr>),
     ap_handler = (\<lambda>_ tid data _ _ e. e\<lparr>pi_messages := pi_messages e @ [(tid, data)]\<rparr>)\<rparr>"

definition record_hooks :: "pipe comm_heap comm_hooks" where
  "record_hooks = \<lparr>
     hk_on_rx = (\<lambda>_ c payload n _ (ctx, h).
       Some (ctx, on_ext (\<lambda>e. e\<lparr>pi_messages := pi_messages e @ [(word_of_nat c, take n payload)]\<rparr>) h)),
     hk_on_tick = (\<lambda>_ _ _ s. Some s),
     hk_on_cfg_change = (\<lambda>_ _ _ _ s. Some s)\<rparr>"

lemma record_callbacks: "comm_callbacks record_hooks (\<lambda>_. True)"
  by unfold_locales (auto simp: record_hooks_def keeps_def rx_free_def)

text \<open>A link with a manager at 10, a binding at 20 and a gimbal channel (id 4) at 30.\<close>

definition empty_heap :: "'p \<Rightarrow> 'p comm_heap" where
  "empty_heap e = \<lparr>hp_chan = (\<lambda>_. zero_channel), hp_mgr = (\<lambda>_. zero_manager),
     hp_bind = (\<lambda>_. \<lparr>bd_ctx = None, bd_msg_type = 0, bd_mgr = None, bd_seq_counters = replicate CH_MAX 0,
        bd_pending = replicate CH_MAX zero_pending, bd_rr_cursor = 0\<rparr>), hp_ext = e\<rparr>"

definition sample_heap :: "pipe comm_heap" where
  "sample_heap =
     snd (chmgr_register (Some 10) (Some 30)
       (channel_init (Some 30) 4 None (Some \<lparr>ck_on_rx = Some 7, ck_on_tick = None, ck_on_cfg_change = None\<rparr>) 0
       (ch_uproto_bind_init (Some 20) (Some 1) 0x20 (Some 10) (empty_heap pipe0))))"

lemma empty_heap_wf: "wf_heap (\<lambda>_. True) (empty_heap e)"
  by (simp add: empty_heap_def wf_heap_def zero_manager_wf wf_bind_def list_all_length zero_pending_wf)

lemma sample_heap_wf: "wf_heap (\<lambda>_. True) sample_heap"
  by (simp add: sample_heap_def chmgr_register_wf bind_init_wf empty_heap_wf)

lemmas sample_heap_defs = sample_heap_def empty_heap_def chmgr_register_def ch_uproto_bind_init_def
  channel_init_def zero_manager_def zero_channel_def Let_def

section \<open>Registration\<close>

lemma find_append_Some: "find P (xs @ ys) = (case find P xs of Some x \<Rightarrow> Some x | None \<Rightarrow> find P ys)"
  by (induction xs) auto

text \<open>
  Registration: a manager takes a channel exactly as long as it has fewer than \<^verbatim>\<open>CH_MAX\<close>; afterwards a lookup
  finds the same channel as before, or else the new one if it has the id; a refused registration changes nothing.
\<close>

theorem register_find:
  assumes "wf_heap I h"
  shows "(mg_count (hp_mgr h m) < CH_MAX \<longrightarrow>
      (\<exists>h'. chmgr_register (Some m) (Some c) h = (True, h') \<and> wf_heap I h' \<and>
        chmgr_find (Some m) cid h' = (case chmgr_find (Some m) cid h of
          Some c' \<Rightarrow> Some c' | None \<Rightarrow> (if ch_id (hp_chan h c) = cid then Some c else None)))) \<and>
    (mg_count (hp_mgr h m) = CH_MAX \<longrightarrow> chmgr_register (Some m) (Some c) h = (False, h))"
proof (intro conjI impI)
  let ?g = "hp_mgr h m"
  assume lt: "mg_count ?g < CH_MAX"
  obtain h' where r: "chmgr_register (Some m) (Some c) h = (True, h')"
    using lt by (simp add: chmgr_register_def)
  then have h': "h' = h\<lparr>hp_mgr := (hp_mgr h)(m := \<lparr>mg_slots = (mg_slots ?g)[mg_count ?g := Some c], mg_count = mg_count ?g + 1\<rparr>)\<rparr>"
    using lt by (simp add: chmgr_register_def)
  have len: "length (mg_slots ?g) = 8" using wf_heap_mgr [OF assms, of m] by (simp add: wf_mgr_def)
  let ?P = "\<lambda>i. slot_has_id h (mg_slots ?g ! i) cid"
  have same: "slot_has_id h' = slot_has_id h" by (simp add: h' slot_has_id_def fun_eq_iff split: option.splits)
  have old: "find (\<lambda>i. slot_has_id h' (mg_slots (hp_mgr h' m) ! i) cid) [0..<mg_count ?g] = find ?P [0..<mg_count ?g]"
    unfolding same by (intro find_cong refl) (simp add: h')
  have "slot_has_id h' (mg_slots (hp_mgr h' m) ! mg_count ?g) cid \<longleftrightarrow> ch_id (hp_chan h c) = cid"
    using lt len by (simp add: h' slot_has_id_def)
  then have step: "find (\<lambda>i. slot_has_id h' (mg_slots (hp_mgr h' m) ! i) cid) [0..<mg_count (hp_mgr h' m)] =
      (case find ?P [0..<mg_count ?g] of Some i \<Rightarrow> Some i
       | None \<Rightarrow> (if ch_id (hp_chan h c) = cid then Some (mg_count ?g) else None))"
    using old by (simp add: find_append_Some h' split: option.splits)
  have "chmgr_find (Some m) cid h' = (case chmgr_find (Some m) cid h of
      Some c' \<Rightarrow> Some c' | None \<Rightarrow> (if ch_id (hp_chan h c) = cid then Some c else None))"
  proof (cases "find ?P [0..<mg_count ?g]")
    case None
    then show ?thesis using step lt len by (simp add: chmgr_find_def) (simp add: h')
  next
    case (Some i)
    from find_Some_upt [OF Some] obtain c' where i: "i < mg_count ?g" "mg_slots ?g ! i = Some c'"
      by (auto simp: slot_has_id_def split: option.splits)
    then have "mg_slots (hp_mgr h' m) ! i = Some c'" by (simp add: h')
    then show ?thesis using step Some i by (simp add: chmgr_find_def)
  qed
  moreover have "wf_heap I h'" using chmgr_register_wf [OF assms, of "Some m" "Some c"] r by simp
  ultimately show "\<exists>h'. chmgr_register (Some m) (Some c) h = (True, h') \<and> wf_heap I h' \<and>
      chmgr_find (Some m) cid h' = (case chmgr_find (Some m) cid h of
        Some c' \<Rightarrow> Some c' | None \<Rightarrow> (if ch_id (hp_chan h c) = cid then Some c else None))"
    using r by blast
qed (simp add: chmgr_register_def)

theorem register_find_witness:
  "\<exists>h'. chmgr_register (Some 10) (Some 31) sample_heap = (True, h') \<and>
     chmgr_find (Some 10) 0 h' = (case chmgr_find (Some 10) 0 sample_heap of Some c \<Rightarrow> Some c
       | None \<Rightarrow> (if ch_id (hp_chan sample_heap 31) = 0 then Some 31 else None))"
  using register_find [OF sample_heap_wf, of 10 31 0]
  by (auto simp: sample_heap_defs)

section \<open>The queue\<close>

text \<open>The slot \<open>i\<close> of the binding at \<open>b\<close> belongs to the registered channel \<open>cid\<close>.\<close>

definition queue_slot :: "('p, 'x) comm_heap_scheme \<Rightarrow> addr \<Rightarrow> u8 \<Rightarrow> nat \<Rightarrow> bool" where
  "queue_slot h b cid i \<longleftrightarrow> (\<exists>m. bd_mgr (hp_bind h b) = Some m \<and>
     find (\<lambda>i. slot_has_id h (mg_slots (hp_mgr h m) ! i) cid) [0..<CH_MAX] = Some i)"

definition queued_item :: "pending_item \<Rightarrow> u8 \<Rightarrow> u16 \<Rightarrow> u8 \<Rightarrow> u8 list \<Rightarrow> u16 \<Rightarrow> pending_item" where
  "queued_item old cid sid flags p len = \<lparr>pd_used = True, pd_ch_id = cid, pd_sid = sid, pd_flags = flags, pd_len = len,
     pd_payload = take (unat len) p @ drop (unat len) (pd_payload old), pd_age = (if pd_used old then pd_age old else 0)\<rparr>"

lemma queue_notify_eq:
  assumes wf: "wf_heap I h" and slot: "queue_slot h a cid i"
    and len: "unat len \<le> length p" "unat len \<le> COMM_CHANNEL_PENDING_PAYLOAD_SIZE"
  shows "ch_uproto_queue_notify (Some a) cid sid flags (Some p) len h =
    Some (True, update_pending a i (\<lambda>old. queued_item old cid sid flags p len) h)"
proof -
  let ?old = "bd_pending (hp_bind h a) ! i"
  from slot obtain m where m: "bd_mgr (hp_bind h a) = Some m"
    and f: "find (\<lambda>i. slot_has_id h (mg_slots (hp_mgr h m) ! i) cid) [0..<CH_MAX] = Some i" by (auto simp: queue_slot_def)
  have "length (pd_payload ?old) = 128"
    using wf_heap_bind [OF wf, of a] find_slot_bound [OF f] by (simp add: wf_bind_def list_all_length wf_pending_def)
  moreover have "(if len \<noteq> 0 then platform_memcpy (pd_payload ?old) p (unat len) else Some (pd_payload ?old)) =
      Some (take (unat len) p @ drop (unat len) (pd_payload ?old))"
    using len calculation by (auto simp: platform_memcpy_in unsigned_eq_0_iff)
  ultimately show ?thesis
    using m f len(2) by (simp add: ch_uproto_queue_notify_def update_pending_def Let_def queued_item_def)
qed

text \<open>A pending item that holds a notification with the payload \<open>bs\<close>.\<close>

definition holds_notify :: "pending_item \<Rightarrow> u8 \<Rightarrow> u16 \<Rightarrow> u8 list \<Rightarrow> bool" where
  "holds_notify it cid sid bs \<longleftrightarrow> pd_used it \<and> pd_ch_id it = cid \<and> pd_sid it = sid \<and> unat (pd_len it) = length bs \<and>
     take (length bs) (pd_payload it) = bs"

lemma queue_slot_bound: "queue_slot h b cid i \<Longrightarrow> i < CH_MAX"
  using find_slot_bound by (auto simp: queue_slot_def)

lemma queue_holds:
  assumes wf: "wf_heap I h" and slot: "queue_slot h b cid i" and len: "length bs \<le> COMM_CHANNEL_PENDING_PAYLOAD_SIZE"
  shows "\<exists>h'. ch_uproto_queue_notify (Some b) cid sid flags (Some (bs @ rest)) (word_of_nat (length bs)) h = Some (True, h') \<and>
    wf_heap I h' \<and> holds_notify (bd_pending (hp_bind h' b) ! i) cid sid bs"
proof -
  have un: "unat (word_of_nat (length bs) :: u16) = length bs" using len by (simp add: unat_of_nat)
  obtain r h' where q: "ch_uproto_queue_notify (Some b) cid sid flags (Some (bs @ rest)) (word_of_nat (length bs)) h = Some (r, h')" "wf_heap I h'"
    using queue_notify_ok [OF wf, of "Some (bs @ rest)" "word_of_nat (length bs)" "Some b" cid sid flags] un by auto
  have "i < length (bd_pending (hp_bind h b))"
    using wf_heap_bind [OF wf, of b] queue_slot_bound [OF slot] by (simp add: wf_bind_def)
  then show ?thesis
    using q queue_notify_eq [OF wf slot, of "word_of_nat (length bs)" "bs @ rest" sid flags] un len
    by (auto simp: update_pending_def queued_item_def holds_notify_def)
qed

text \<open>
  Keep-latest queueing: queueing a notification for a registered channel replaces whatever that channel had
  pending by the new one, in the channel's own slot, keeps the age of a replaced notification, and touches
  no other slot.
\<close>

theorem queue_keeps_latest:
  assumes "wf_heap I h" and "bd_mgr (hp_bind h a) = Some m"
    and "find (\<lambda>i. slot_has_id h (mg_slots (hp_mgr h m) ! i) cid) [0..<CH_MAX] = Some i"
    and "length p = unat len" and "unat len \<le> COMM_CHANNEL_PENDING_PAYLOAD_SIZE"
  defines "old \<equiv> bd_pending (hp_bind h a)"
  shows "\<exists>h'. ch_uproto_queue_notify (Some a) cid sid flags (Some p) len h = Some (True, h') \<and> wf_heap I h' \<and>
    (let new = bd_pending (hp_bind h' a) in
       length new = CH_MAX \<and> (\<forall>j < CH_MAX. j \<noteq> i \<longrightarrow> new ! j = old ! j) \<and>
       pd_used (new ! i) \<and> pd_ch_id (new ! i) = cid \<and> pd_sid (new ! i) = sid \<and> pd_flags (new ! i) = flags \<and>
       pd_len (new ! i) = len \<and> take (unat len) (pd_payload (new ! i)) = p \<and>
       pd_age (new ! i) = (if pd_used (old ! i) then pd_age (old ! i) else 0))"
proof -
  have slot: "queue_slot h a cid i" using assms(2,3) by (auto simp: queue_slot_def)
  have i: "i < length old" "length old = 8"
    using wf_heap_bind [OF assms(1), of a] queue_slot_bound [OF slot] by (simp_all add: wf_bind_def old_def)
  obtain r h' where q: "ch_uproto_queue_notify (Some a) cid sid flags (Some p) len h = Some (r, h')" "wf_heap I h'"
    using queue_notify_ok [OF assms(1), of "Some p" len "Some a" cid sid flags] assms(4) by auto
  then show ?thesis
    using queue_notify_eq [OF assms(1) slot, of len p sid flags] assms(4,5) i
    by (auto simp: update_pending_def queued_item_def old_def [symmetric] Let_def)
qed

theorem queue_keeps_latest_witness:
  "\<exists>h'. ch_uproto_queue_notify (Some 20) 4 0x0201 0 (Some [1, 2]) 2 sample_heap = Some (True, h') \<and>
     take 2 (pd_payload (bd_pending (hp_bind h' 20) ! 0)) = [1, 2]"
proof -
  have "find (\<lambda>i. slot_has_id sample_heap (mg_slots (hp_mgr sample_heap 10) ! i) 4) [0..<8] = Some 0"
    by (simp add: sample_heap_defs slot_has_id_def upt_conv_Cons)
  moreover have "bd_mgr (hp_bind sample_heap 20) = Some 10" by (simp add: sample_heap_defs)
  ultimately show ?thesis
    using queue_keeps_latest [OF sample_heap_wf, of 20 10 4 0 "[1, 2]" 2 "0x0201" 0] by (auto simp: Let_def)
qed

section \<open>The arbiter\<close>

text \<open>
  C24. The arbiter's choice: nothing exactly when no registered channel has a notification pending; otherwise a
  pending slot, and as long as no slot of lower priority has waited \<open>CH_ARB_FAIR_AGE\<close> rounds, one of the highest
  pending priority; if some have, the one of them that waited longest.
\<close>

theorem arbiter_choice:
  assumes "wf_heap I h" and "bd_mgr (hp_bind h a) = Some m" and "find_next_ready_index (Some a) h = (r, h')"
  defines "ps \<equiv> bd_pending (hp_bind h' a)" and "count \<equiv> mg_count (hp_mgr h m)" and "prio \<equiv> slot_priority h m"
  shows "(r = None \<longleftrightarrow> (\<forall>j < count. \<not> pd_used (ps ! j))) \<and>
    (\<forall>idx. r = Some idx \<longrightarrow> idx < count \<and> pd_used (ps ! idx) \<and>
      (if \<exists>j. starved prio ps count j
       then starved prio ps count idx \<and> (\<forall>j. starved prio ps count j \<longrightarrow> pd_age (ps ! j) \<le> pd_age (ps ! idx))
       else \<forall>j < count. pd_used (ps ! j) \<longrightarrow> the (prio j) \<le> the (prio idx)))"
proof -
  have "mg_count (hp_mgr h m) \<le> 8" using wf_heap_mgr [OF assms(1), of m] by (simp add: wf_mgr_def)
  then have some: "prio j \<noteq> None" if "j < count" for j
    using wf_mgr_slot [OF wf_heap_mgr [OF assms(1), of m], of j] that by (auto simp: prio_def count_def slot_priority_def)
  let ?ps = "bump_ages [0..<count] (bd_pending (hp_bind h a))"
  let ?c = "arb_choose prio ?ps count (bd_rr_cursor (hp_bind h a))"
  have ps: "ps = ?ps" and r: "r = map_option fst ?c"
    using assms(3) unfolding find_next_cases [OF assms(2)] ps_def count_def prio_def
    by (auto split: option.splits)
  show ?thesis
  proof (cases ?c)
    case None
    then show ?thesis using arb_choose_None [of prio ?ps count] some unfolding ps r by auto
  next
    case (Some x)
    obtain idx rr where x: "x = (idx, rr)" by fastforce
    note spec = arb_choose_spec [OF Some [unfolded x]]
    from spec have "\<exists>j < count. pd_used (?ps ! j)" by auto
    then show ?thesis using spec Some some unfolding ps r x by fastforce
  qed
qed

text \<open>The sample link with one notification of the gimbal channel pending.\<close>

definition queued_heap :: "pipe comm_heap" where
  "queued_heap = update_pending 20 0 (\<lambda>p. p\<lparr>pd_used := True, pd_ch_id := 4, pd_sid := 0x0201, pd_len := 2\<rparr>) sample_heap"

lemma queued_heap_wf: "wf_heap (\<lambda>_. True) queued_heap"
  unfolding queued_heap_def by (rule wf_heap_update_pending [OF sample_heap_wf]) (simp add: wf_pending_def)

lemma queued_heap_bind: "bd_mgr (hp_bind queued_heap 20) = Some 10" "bd_ctx (hp_bind queued_heap 20) = Some 1"
  by (simp_all add: queued_heap_def update_pending_def sample_heap_defs)

theorem arbiter_choice_witness:
  "\<exists>r h'. find_next_ready_index (Some 20) queued_heap = (r, h') \<and>
     (r = None \<longleftrightarrow> (\<forall>j < mg_count (hp_mgr queued_heap 10). \<not> pd_used (bd_pending (hp_bind h' 20) ! j)))"
proof -
  obtain r h' where "find_next_ready_index (Some 20) queued_heap = (r, h')" by fastforce
  then show ?thesis
    using arbiter_choice [OF queued_heap_wf queued_heap_bind(1), of r h'] by blast
qed

lemma send_frame_pipe:
  assumes "po_write (cx_port ctx) = Some wr" and "n \<le> UPROTO_MAX_PAYLOAD" and "n \<le> length p"
  shows "\<exists>ctx'. uproto_send_frame (comm_env pipe_app hk) flags type tid (Some p) n (ctx, h) =
    Some (UPROTO_OK, ctx', on_ext (\<lambda>e. e\<lparr>pi_out := pi_out e @ frame_image UPROTO_VERSION flags type 0 tid
      (cx_local_seq ctx) 0 (word_of_nat n) (take n p)\<rparr>) h) \<and> cx_local_seq ctx' = cx_local_seq ctx + 1"
proof -
  have enc: "uproto_encode_frame tx_buffer flags type tid (cx_local_seq ctx) 0 (Some p) n =
      Some (cursor tx_buffer (frame_image UPROTO_VERSION flags type 0 tid (cx_local_seq ctx) 0 (word_of_nat n) (take n p)))"
    using encode_frame_cursor [of n tx_buffer "Some p" flags type tid "cx_local_seq ctx" 0] assms
    by (simp add: sent_payload_def)
  show ?thesis
    using assms(1) enc
    by (simp add: uproto_send_frame_def cursor_def Let_def comm_env_def pipe_app_def uproto_flush_def uproto_now_def
        split: option.splits)
qed

text \<open>The MUX header of a notification, with the sequence number that the binding gives it.\<close>

definition notify_hdr :: "u8 \<Rightarrow> u16 \<Rightarrow> u8 \<Rightarrow> u16 \<Rightarrow> u32 \<Rightarrow> mux_hdr" where
  "notify_hdr cid sid flags len q = \<lparr>mx_sof = MUX_SOF, mx_ver = MUX_VER, mx_channel = cid, mx_flags = flags,
     mx_len = len, mx_sid = sid, mx_seq = q, mx_rsv = 0\<rparr>"

abbreviation notify_image :: "u8 \<Rightarrow> u16 \<Rightarrow> mux_hdr \<Rightarrow> u8 list \<Rightarrow> u8 list" where
  "notify_image type seq hdr pl \<equiv>
     frame_image UPROTO_VERSION 0 type 0 0 seq 0 (word_of_nat (16 + length pl)) (mux_image hdr pl)"

lemma send_mux_pipe:
  fixes a :: addr and cid :: u8
  assumes "po_write (cx_port ctx) = Some wr" and "unat len \<le> 240" and "unat len \<le> length p" and "wf_heap I h"
  defines "q \<equiv> bd_seq_counters (hp_bind h a) ! (unat cid mod CH_MAX) + 1"
  shows "\<exists>ctx' h'. send_mux (comm_env pipe_app hk) a cid sid flags (Some p) len (ctx, h) = Some (True, True, ctx', h') \<and>
    pi_out (hp_ext h') = pi_out (hp_ext h) @
      notify_image (bd_msg_type (hp_bind h a)) (cx_local_seq ctx) (notify_hdr cid sid flags len q) (take (unat len) p) \<and>
    hp_bind h' = (hp_bind h)(a := (hp_bind h a)\<lparr>bd_seq_counters := (bd_seq_counters (hp_bind h a))[unat cid mod CH_MAX := q]\<rparr>) \<and>
    hp_chan h' = hp_chan h \<and> hp_mgr h' = hp_mgr h"
proof -
  obtain q' h1 where n: "next_seq a cid h = (q', h1)" by fastforce
  then have q': "q' = q" and h1: "h1 = h\<lparr>hp_bind := (hp_bind h)(a := (hp_bind h a)\<lparr>bd_seq_counters :=
      (bd_seq_counters (hp_bind h a))[unat cid mod CH_MAX := q]\<rparr>)\<rparr>"
    by (auto simp: next_seq_def Let_def q_def)
  let ?hdr = "notify_hdr cid sid flags len q"
  let ?out = "replicate COMM_MUX_TX_BUFFER_SIZE 0 :: u8 list"
  let ?b = "mux_image ?hdr (take (unat len) p) @ drop (16 + unat len) ?out"
  have enc: "mux_encode (Some ?out) 520 (Some ?hdr) (Some p) = Some (16 + unat len, Some ?b)"
    using mux_encode_gen [of ?hdr "unat len" "Some p" 520 ?out] assms(2,3) by (simp add: notify_hdr_def mux_body_def)
  have hdr: "zero_mux_hdr\<lparr>mx_sof := MUX_SOF, mx_ver := MUX_VER, mx_channel := cid, mx_flags := flags,
                 mx_len := len, mx_sid := sid, mx_seq := q\<rparr> = ?hdr"
    by (simp add: zero_mux_hdr_def notify_hdr_def)
  have "16 + unat len \<le> length ?b" using assms(3) by simp
  with send_frame_pipe [OF assms(1), of "16 + unat len" ?b hk 0 "bd_msg_type (hp_bind h1 a)" 0 h1] assms(2,3)
  obtain ctx' where "uproto_send_notify (comm_env pipe_app hk) (bd_msg_type (hp_bind h1 a)) (Some ?b) (16 + unat len) (ctx, h1) =
      Some (UPROTO_OK, ctx', on_ext (\<lambda>e. e\<lparr>pi_out := pi_out e @ notify_image (bd_msg_type (hp_bind h1 a)) (cx_local_seq ctx) ?hdr
        (take (unat len) p)\<rparr>) h1)"
    by (auto simp: uproto_send_notify_def min_absorb2)
  then show ?thesis
    unfolding send_mux_def using n q' enc hdr h1 by (simp add: Let_def)
qed

lemma find_next_keeps:
  assumes "find_next_ready_index (Some a) h = (r, h1)"
  shows "hp_ext h1 = hp_ext h" "bd_seq_counters (hp_bind h1 a) = bd_seq_counters (hp_bind h a)"
    "bd_msg_type (hp_bind h1 a) = bd_msg_type (hp_bind h a)" "hp_chan h1 = hp_chan h" "hp_mgr h1 = hp_mgr h"
  using assms by (auto simp: find_next_ready_index_def Let_def split: option.splits)

lemma arbiter_sends:
  assumes "wf_ctx ctx" and "wf_heap I h" and "bd_ctx (hp_bind h a) \<noteq> None"
    and f: "find_next_ready_index (Some a) h = (Some idx, h1)"
  defines "it \<equiv> bd_pending (hp_bind h1 a) ! idx"
  defines "q \<equiv> bd_seq_counters (hp_bind h a) ! (unat (pd_ch_id it) mod CH_MAX) + 1"
  shows "\<exists>ctx' h'. ch_uproto_arbiter_tick (comm_env pipe_app hk) (Some a) (ctx, h) = Some (ctx', h') \<and>
    pi_out (hp_ext h') = pi_out (hp_ext h) @ notify_image (bd_msg_type (hp_bind h a)) (cx_local_seq ctx)
      (notify_hdr (pd_ch_id it) (pd_sid it) (pd_flags it) (pd_len it) q) (take (unat (pd_len it)) (pd_payload it)) \<and>
    bd_pending (hp_bind h' a) = (bd_pending (hp_bind h1 a))[idx := it\<lparr>pd_used := False, pd_age := 0\<rparr>]"
proof -
  have m: "bd_mgr (hp_bind h a) \<noteq> None" using f by (cases "bd_mgr (hp_bind h a)") (auto simp: find_next_ready_index_def)
  obtain wr where wr: "po_write (cx_port ctx) = Some wr" using wf_ctx_write [OF assms(1)] by blast
  have it: "wf_pending it" "pd_used it" using find_next_Some [OF assms(2) f] by (simp_all add: it_def)
  then have len: "unat (pd_len it) \<le> 128" "length (pd_payload it) = 128" by (auto simp: wf_pending_def)
  have wf1: "wf_heap I h1" using find_next_wf [OF assms(2), of "Some a"] f by simp
  note keep = find_next_keeps [OF f]
  have "unat (pd_len it) \<le> 240" "unat (pd_len it) \<le> length (pd_payload it)" using len by auto
  from send_mux_pipe [OF wr this wf1, of hk a "pd_ch_id it" "pd_sid it" "pd_flags it"]
  obtain ctx' h' where s: "send_mux (comm_env pipe_app hk) a (pd_ch_id it) (pd_sid it) (pd_flags it) (Some (pd_payload it)) (pd_len it) (ctx, h1) =
      Some (True, True, ctx', h')"
    and out: "pi_out (hp_ext h') = pi_out (hp_ext h) @ notify_image (bd_msg_type (hp_bind h a)) (cx_local_seq ctx)
      (notify_hdr (pd_ch_id it) (pd_sid it) (pd_flags it) (pd_len it) q) (take (unat (pd_len it)) (pd_payload it))"
    and b: "bd_pending (hp_bind h' a) = bd_pending (hp_bind h1 a)"
    by (auto simp: keep q_def)
  show ?thesis
    using assms(3) m f s out b
    by (auto simp: ch_uproto_arbiter_tick_def it_def [symmetric] Let_def update_pending_def)
qed

context comm_callbacks
begin

lemma heap_env_comm: "heap_env (comm_env P hk) I"
  by unfold_locales

end

lemmas comm_heap_env = comm_callbacks.heap_env_comm

section \<open>From the wire to the hook\<close>

definition notify_frame :: "u8 \<Rightarrow> u16 \<Rightarrow> u8 list \<Rightarrow> uproto_frame" where
  "notify_frame type seq pl = blank_frame\<lparr>fr_version := UPROTO_VERSION, fr_type := type, fr_seq := seq,
     fr_len := word_of_nat (length pl), fr_payload := pl @ replicate (UPROTO_MAX_PAYLOAD - length pl) 0\<rparr>"

lemma notify_frame_bytes:
  assumes "length pl \<le> UPROTO_MAX_PAYLOAD"
  shows "wf_frame (notify_frame type seq pl)"
    "frame_bytes (notify_frame type seq pl) = frame_image UPROTO_VERSION 0 type 0 0 seq 0 (word_of_nat (length pl)) pl"
  using assms by (simp_all add: notify_frame_def wf_frame_def frame_bytes_def blank_frame_def unat_of_nat)

text \<open>The effect of one message for a registered \<^verbatim>\<open>on_mux_rx\<close> on the context, before the hook runs.\<close>

definition rx_noted :: "u16 \<Rightarrow> uproto_context \<Rightarrow> uproto_context \<Rightarrow> bool" where
  "rx_noted seq ctx ctx' \<longleftrightarrow> (\<exists>t. ctx' = ctx\<lparr>
     cx_stats := (cx_stats ctx)\<lparr>st_rx_frames := st_rx_frames (cx_stats ctx) + 1\<rparr>, cx_last_rx_time := t, cx_remote_seq := seq\<rparr>)"

definition same_objects :: "('p, 'x) comm_heap_scheme \<Rightarrow> ('p, 'x) comm_heap_scheme \<Rightarrow> bool" where
  "same_objects h h' \<longleftrightarrow> hp_chan h' = hp_chan h \<and> hp_mgr h' = hp_mgr h \<and> hp_bind h' = hp_bind h \<and>
     comm_heap.more h' = comm_heap.more h"

lemma now_same_objects: "uproto_now (comm_env P hk) (ctx, h) = (t, h') \<Longrightarrow> same_objects h h'"
  by (auto simp: uproto_now_def comm_env_def same_objects_def Let_def split: option.splits prod.splits)

text \<open>A receiver: an empty buffer, and the binding at \<open>a\<close> registered for the message type.\<close>

definition receives :: "('x \<Rightarrow> bool) \<Rightarrow> u8 \<Rightarrow> addr \<Rightarrow> addr \<Rightarrow> uproto_context \<times> ('p, 'x) comm_heap_scheme \<Rightarrow> bool" where
  "receives I type a m s \<longleftrightarrow> wf_ctx (fst s) \<and> wf_heap I (snd s) \<and> cx_rx_pos (fst s) = 0 \<and> a \<noteq> 0 \<and>
     bd_mgr (hp_bind (snd s) a) = Some m \<and>
     (\<exists>i. find_handler (fst s) type = Some i \<and> cx_handlers (fst s) ! i =
        \<lparr>he_type = type, he_handler = Some fn_on_mux_rx, he_user = a\<rparr>)"

definition user_type :: "u8 \<Rightarrow> bool" where
  "user_type t \<longleftrightarrow> t \<notin> {UPROTO_MSG_HELLO, UPROTO_MSG_HELLO_ACK, UPROTO_MSG_PING, UPROTO_MSG_PONG}"

lemma handle_notify:
  assumes cb: "comm_callbacks hk I" and r: "receives I type a m (ctx, h)" and t: "user_type type"
    and hdr: "mx_sof hdr = MUX_SOF" "mx_ver hdr = MUX_VER" "unat (mx_len hdr) = length pl" and len: "length pl \<le> 240"
  shows "\<exists>ctx1 h1. rx_noted seq ctx ctx1 \<and> same_objects h h1 \<and>
    uproto_handle_frame (comm_env P hk) (notify_frame type seq (mux_image hdr pl)) (ctx, h) =
      chmgr_dispatch_rx hk (Some m) (mx_channel hdr) (drop 14 (mux_image hdr pl)) (length pl) (ctx1, h1)"
proof -
  let ?f = "notify_frame type seq (mux_image hdr pl)"
  let ?c0 = "ctx\<lparr>cx_stats := (cx_stats ctx)\<lparr>st_rx_frames := st_rx_frames (cx_stats ctx) + 1\<rparr>\<rparr>"
  obtain now h1 where n: "uproto_now (comm_env P hk) (?c0, h) = (now, h1)" by fastforce
  let ?c = "?c0\<lparr>cx_last_rx_time := now, cx_remote_seq := seq\<rparr>"
  have same: "same_objects h h1" by (rule now_same_objects [OF n])
  from r obtain i where i: "find_handler ?c type = Some i"
      "cx_handlers ?c ! i = \<lparr>he_type = type, he_handler = Some fn_on_mux_rx, he_user = a\<rparr>"
    by (auto simp: receives_def find_handler_def)
  have b: "a \<noteq> 0" "bd_mgr (hp_bind h1 a) = Some m" using r same by (simp_all add: receives_def same_objects_def)
  have un: "unat (word_of_nat (16 + length pl) :: u16) = 16 + length pl" using len by (simp only: unat_of_nat) simp
  have acc: "mux_accepts (mux_image hdr pl) (length (mux_image hdr pl)) hdr"
    using mux_accepts_image [OF hdr, of "16 + length pl" "[]"] by simp
  then have "mux_hdr_of (mux_image hdr pl) = Some hdr" by (simp add: mux_accepts_def)
  then have d: "on_mux_rx hk 0 (mux_image hdr pl) (16 + length pl) a (?c, h1) =
      chmgr_dispatch_rx hk (Some m) (mx_channel hdr) (drop 14 (mux_image hdr pl)) (length pl) (?c, h1)"
    using comm_callbacks.on_mux_rx_eq [OF cb b, of 0 "mux_image hdr pl" ?c] acc hdr(3) by simp
  have "uproto_handle_frame (comm_env P hk) ?f (ctx, h) = on_mux_rx hk 0 (mux_image hdr pl) (16 + length pl) a (?c, h1)"
    using t i n un unfolding uproto_handle_frame_def prod.case Let_def
    by (simp add: notify_frame_def blank_frame_def user_type_def call_handler_def)
      (simp add: comm_env_def)
  moreover have "rx_noted seq ctx ?c" by (auto simp: rx_noted_def)
  ultimately show ?thesis using d same by auto
qed

lemma feed_notify:
  assumes cb: "comm_callbacks hk I" and r: "receives I type a m (ctx, h)" and t: "user_type type"
    and hdr: "mx_sof hdr = MUX_SOF" "mx_ver hdr = MUX_VER" "unat (mx_len hdr) = length pl" and len: "length pl \<le> 240"
    and ch: "concat chunks = notify_image type seq hdr pl" "\<forall>c \<in> set chunks. length c \<le> 239"
  shows "\<exists>ctx1 h1 c h' b. rx_noted seq ctx ctx1 \<and> same_objects h h1 \<and>
    chmgr_dispatch_rx hk (Some m) (mx_channel hdr) (drop 14 (mux_image hdr pl)) (length pl) (ctx1, h1) = Some (c, h') \<and>
    feed (comm_env P hk) chunks (ctx, h) = Some (set_rx b 0 c, h')"
proof -
  let ?f = "notify_frame type seq (mux_image hdr pl)"
  have sz: "length (mux_image hdr pl) \<le> 256" using len by simp
  have env: "uproto_callbacks (comm_env P hk) (wf_heap I)"
    using comm_heap_env [OF cb] by (rule heap_env.axioms)
  have rr: "wf_ctx ctx" "wf_heap I h" "cx_rx_pos ctx = 0" using r by (simp_all add: receives_def)
  have pend: "rx_pending ctx = []" using rr(3) by (simp add: rx_pending_def)
  have str: "concat chunks = stream [?f]" using ch(1) notify_frame_bytes [OF sz] by simp
  have "partial [?f] []" using frame_bytes_length [OF notify_frame_bytes(1) [OF sz]] by (simp add: partial_def)
  then obtain c h' b where hf: "handle_frames (comm_env P hk) [?f] (ctx, h) = Some (c, h')"
    and fd: "feed (comm_env P hk) chunks (ctx, h) = Some (set_rx b 0 c, h')"
    using uproto_callbacks.feed_stream [OF env rr(1,2), of "[?f]" chunks] ch(2) notify_frame_bytes(1) [OF sz] str pend by auto
  from handle_notify [OF cb r t hdr len, of seq P] obtain ctx1 h1 where "rx_noted seq ctx ctx1" "same_objects h h1"
    "uproto_handle_frame (comm_env P hk) ?f (ctx, h) =
       chmgr_dispatch_rx hk (Some m) (mx_channel hdr) (drop 14 (mux_image hdr pl)) (length pl) (ctx1, h1)" by blast
  moreover have "uproto_handle_frame (comm_env P hk) ?f (ctx, h) = Some (c, h')"
    using hf by (cases "uproto_handle_frame (comm_env P hk) ?f (ctx, h)") simp_all
  ultimately show ?thesis using fd by metis
qed

section \<open>Properties of the link\<close>

text \<open>
  The link is safe as a whole: with channel hooks that keep the heap invariant, receiving any bytes, ticking
  the channels and a round of the arbiter return and keep both the context and the heap well-formed.
\<close>

theorem link_operations_safe:
  assumes "comm_callbacks hk I" and "wf_ctx ctx" and "wf_heap I h" and "n \<le> length data"
  shows "(\<exists>ctx' h'. uproto_on_rx_bytes (comm_env P hk) data n (ctx, h) = Some (ctx', h') \<and> wf_ctx ctx' \<and> wf_heap I h') \<and>
    (\<exists>ctx' h'. chmgr_tick hk m (ctx, h) = Some (ctx', h') \<and> wf_ctx ctx' \<and> wf_heap I h') \<and>
    (\<exists>ctx' h'. ch_uproto_arbiter_tick (comm_env P hk) b (ctx, h) = Some (ctx', h') \<and> wf_ctx ctx' \<and> wf_heap I h')"
proof -
  note env = comm_heap_env [OF assms(1), of P]
  have "safe (wf_heap I) ctx (uproto_on_rx_bytes (comm_env P hk) data n (ctx, h))"
    using assms by (intro uproto_callbacks.on_rx_bytes_safe [OF heap_env.axioms [OF env]])
  moreover have "safe (wf_heap I) ctx (chmgr_tick hk m (ctx, h))"
    using assms by (intro comm_callbacks.chmgr_tick_safe)
  moreover have "safe (wf_heap I) ctx (ch_uproto_arbiter_tick (comm_env P hk) b (ctx, h))"
    using assms by (intro heap_env.arbiter_tick_safe [OF env]) simp_all
  ultimately show ?thesis unfolding safe_def by blast
qed

theorem link_operations_safe_witness:
  "(\<exists>ctx' h'. ch_uproto_arbiter_tick (comm_env pipe_app record_hooks) (Some 20) (pipe_ctx, queued_heap) = Some (ctx', h') \<and>
     wf_ctx ctx' \<and> wf_heap (\<lambda>_. True) h')"
  using link_operations_safe [OF record_callbacks pipe_ctx_wf queued_heap_wf, of 0 "[]" pipe_app None "Some 20"] by auto

text \<open>
  C16. From queue to hook: over a port that takes every byte, a round of the arbiter with something pending frees the
  chosen slot and writes bytes that, cut into chunks of at most 239 bytes anyhow and fed to a receiver bound to
  the same message type, lead to exactly one dispatch: to the channel named by the slot, with the slot's payload.
\<close>

theorem arbiter_to_hook:
  assumes "wf_ctx ctx" and "wf_heap I h" and "bd_ctx (hp_bind h a) \<noteq> None"
    and "find_next_ready_index (Some a) h = (Some idx, h1)" and "user_type (bd_msg_type (hp_bind h a))"
    and "comm_callbacks hk' I'" and "receives I' (bd_msg_type (hp_bind h a)) a' m' (ctx', g)"
  defines "it \<equiv> bd_pending (hp_bind h1 a) ! idx"
  shows "\<exists>c2 h2 bytes. ch_uproto_arbiter_tick (comm_env pipe_app hk) (Some a) (ctx, h) = Some (c2, h2) \<and>
    pi_out (hp_ext h2) = pi_out (hp_ext h) @ bytes \<and> \<not> pd_used (bd_pending (hp_bind h2 a) ! idx) \<and>
    (\<forall>chunks. concat chunks = bytes \<and> (\<forall>c \<in> set chunks. length c \<le> 239) \<longrightarrow>
      (\<exists>ctx1 g1 pl c g' b. rx_noted (cx_local_seq ctx) ctx' ctx1 \<and> same_objects g g1 \<and>
        take (unat (pd_len it)) pl = take (unat (pd_len it)) (pd_payload it) \<and>
        chmgr_dispatch_rx hk' (Some m') (pd_ch_id it) pl (unat (pd_len it)) (ctx1, g1) = Some (c, g') \<and>
        feed (comm_env P hk') chunks (ctx', g) = Some (set_rx b 0 c, g')))"
proof -
  let ?q = "bd_seq_counters (hp_bind h a) ! (unat (pd_ch_id it) mod CH_MAX) + 1"
  let ?hdr = "notify_hdr (pd_ch_id it) (pd_sid it) (pd_flags it) (pd_len it) ?q"
  let ?pl = "take (unat (pd_len it)) (pd_payload it)"
  let ?bytes = "notify_image (bd_msg_type (hp_bind h a)) (cx_local_seq ctx) ?hdr ?pl"
  from arbiter_sends [OF assms(1-4), of hk] obtain c2 h2 where
    s: "ch_uproto_arbiter_tick (comm_env pipe_app hk) (Some a) (ctx, h) = Some (c2, h2)"
      "pi_out (hp_ext h2) = pi_out (hp_ext h) @ ?bytes"
      "bd_pending (hp_bind h2 a) = (bd_pending (hp_bind h1 a))[idx := it\<lparr>pd_used := False, pd_age := 0\<rparr>]"
    unfolding it_def by blast
  have it: "idx < 8" "wf_pending it" "pd_used it" using find_next_Some [OF assms(2,4)] by (simp_all add: it_def)
  have wf1: "wf_heap I h1" using find_next_wf [OF assms(2), of "Some a"] assms(4) by simp
  have free: "\<not> pd_used (bd_pending (hp_bind h2 a) ! idx)"
    using s(3) it(1) wf_heap_bind [OF wf1, of a] by (simp add: wf_bind_def)
  have len: "length ?pl = unat (pd_len it)" "length ?pl \<le> 240" using it by (auto simp: wf_pending_def)
  have hdr: "mx_sof ?hdr = MUX_SOF" "mx_ver ?hdr = MUX_VER" "unat (mx_len ?hdr) = length ?pl"
    using len(1) by (simp_all add: notify_hdr_def)
  have "\<exists>ctx1 g1 pl c g' b. rx_noted (cx_local_seq ctx) ctx' ctx1 \<and> same_objects g g1 \<and>
        take (unat (pd_len it)) pl = ?pl \<and>
        chmgr_dispatch_rx hk' (Some m') (pd_ch_id it) pl (unat (pd_len it)) (ctx1, g1) = Some (c, g') \<and>
        feed (comm_env P hk') chunks (ctx', g) = Some (set_rx b 0 c, g')"
    if ch: "concat chunks = ?bytes" "\<forall>c \<in> set chunks. length c \<le> 239" for chunks
  proof -
    have tk: "take (unat (pd_len it)) (drop 14 (mux_image ?hdr ?pl)) = ?pl"
      using len(1) by (simp add: mux_image_def Let_def)
    have cid: "mx_channel ?hdr = pd_ch_id it" by (simp add: notify_hdr_def)
    show ?thesis
      using feed_notify [OF assms(6,7,5) hdr len(2) ch, of P] tk unfolding cid len(1) by blast
  qed
  with s free show ?thesis by blast
qed

text \<open>A receiver with the handler of the sample link registered.\<close>

definition rx_ctx :: uproto_context where
  "rx_ctx = uproto_init \<lparr>po_write = Some 1, po_flush = None, po_get_mtu = None, po_user = 0\<rparr>
     \<lparr>ti_now_ms = Some 2, ti_user = 0\<rparr> None"

definition rx_side :: uproto_context where
  "rx_side = fst (ch_uproto_register_rx (Some 20) (rx_ctx, sample_heap))"

lemma rx_side_eq: "rx_side = snd (uproto_register_handler 0x20 (Some fn_on_mux_rx) 20 rx_ctx)"
  by (simp add: rx_side_def ch_uproto_register_rx_def sample_heap_defs)

lemma rx_side_receives: "receives (\<lambda>_. True) 0x20 20 10 (rx_side, sample_heap)"
proof -
  have "wf_ctx rx_side" unfolding rx_side_eq rx_ctx_def by (intro register_handler_wf init_wf) simp
  moreover have "find_handler rx_side 0x20 = Some 0" "cx_handlers rx_side ! 0 = \<lparr>he_type = 0x20, he_handler = Some fn_on_mux_rx, he_user = 20\<rparr>"
    "cx_rx_pos rx_side = 0"
    by (simp_all add: rx_side_eq rx_ctx_def uproto_register_handler_def uproto_init_def find_handler_def)
  moreover have "bd_mgr (hp_bind sample_heap 20) = Some 10" by (simp add: sample_heap_defs)
  ultimately show ?thesis using sample_heap_wf by (simp add: receives_def)
qed

lemma queued_heap_chosen:
  "find_next_ready_index (Some 20) queued_heap \<in> {Some 0} \<times> UNIV" "bd_msg_type (hp_bind queued_heap 20) = 0x20"
  by (simp_all add: queued_heap_def update_pending_def sample_heap_defs find_next_ready_index_def arb_choose_def
      slot_priority_def zero_pending_def)

theorem arbiter_to_hook_witness:
  "\<exists>c2 h2 bytes. ch_uproto_arbiter_tick (comm_env pipe_app record_hooks) (Some 20) (pipe_ctx, queued_heap) = Some (c2, h2) \<and>
    pi_out (hp_ext h2) = pi_out (hp_ext queued_heap) @ bytes \<and> \<not> pd_used (bd_pending (hp_bind h2 20) ! 0)"
proof -
  obtain h1 where "find_next_ready_index (Some 20) queued_heap = (Some 0, h1)" using queued_heap_chosen(1) by auto
  then show ?thesis
    using arbiter_to_hook [OF pipe_ctx_wf queued_heap_wf _ _ _ record_callbacks, of 20 0 h1 20 10 rx_side sample_heap record_hooks pipe_app]
      rx_side_receives queued_heap_bind queued_heap_chosen(2)
    by (auto simp: user_type_def)
qed

end
