(* ===== verification/Camera_Channel.thy ===== *)
theory Camera_Channel
  imports Comm_Props
begin

text \<open>
  The camera channel of \<^verbatim>\<open>channel/camera\<close>: trigger events with their frame counter, diagnostic FIFO and
  notification, and the reset command of the host with its delayed acknowledgement.

  The channel object lives in a heap component of its own; the \<^verbatim>\<open>channel_t\<close> embedded in it is the channel at
  the same address. The compile-time switches of \<^verbatim>\<open>camera_config.h\<close> are the record \<open>camera_build\<close>, with the
  defaults of the source in \<open>camera_config\<close>.
\<close>

section \<open>Data\<close>

definition CAM_SID_EVENT :: u16 where "CAM_SID_EVENT = 0x0001"
definition CAM_SID_RESET :: u16 where "CAM_SID_RESET = 0x0002"

abbreviation CAM_CH_ID :: u8 where "CAM_CH_ID \<equiv> 1"
abbreviation CAM_PRIORITY :: u8 where "CAM_PRIORITY \<equiv> 2"
abbreviation CAM_FIFO_CAP :: nat where "CAM_FIFO_CAP \<equiv> 10"

record camera_build =
  CAM_PAYLOAD_HAS_FRAME_ID :: bool
  CAM_PAYLOAD_HAS_TS_US :: bool
  CAM_EVENT_PUBLISH_ENABLE :: bool

definition camera_config :: camera_build where
  "camera_config = \<lparr>CAM_PAYLOAD_HAS_FRAME_ID = True, CAM_PAYLOAD_HAS_TS_US = True, CAM_EVENT_PUBLISH_ENABLE = False\<rparr>"

record camera_channel_hooks =
  ck_on_event :: "fn_ptr option"
  ck_on_reset :: "fn_ptr option"
  ck_hook_user :: user_ptr

record cam_evt =
  ev_frame_id :: u32
  ev_ts_us :: u64

record camera_channel =
  cam_bind :: "addr option"
  cam_ch_id :: u8
  cam_mgr :: "addr option"
  cam_now_us :: "fn_ptr option"
  cam_time_user :: user_ptr
  cam_hooks :: camera_channel_hooks
  cam_next_frame_id :: u32
  cam_ack_pending :: u8
  cam_fifo :: "cam_evt list"
  cam_fifo_count :: nat

record camera_channel_cfg =
  kc_ch_id :: u8
  kc_priority :: u8

record 'p cam_heap = "'p comm_heap" +
  hp_cam :: "addr \<Rightarrow> camera_channel"

text \<open>The code behind the function pointers of the application, acting on its own state.\<close>

record 'p cam_app =
  ca_now_us :: "fn_ptr \<Rightarrow> user_ptr \<Rightarrow> 'p \<Rightarrow> u64 \<times> 'p"
  ca_on_event :: "fn_ptr \<Rightarrow> addr \<Rightarrow> u32 \<Rightarrow> u64 \<Rightarrow> user_ptr \<Rightarrow> 'p \<Rightarrow> 'p"
  ca_on_reset :: "fn_ptr \<Rightarrow> addr \<Rightarrow> user_ptr \<Rightarrow> 'p \<Rightarrow> 'p"

definition zero_evt :: cam_evt where
  "zero_evt = \<lparr>ev_frame_id = 0, ev_ts_us = 0\<rparr>"

definition zero_camera_hooks :: camera_channel_hooks where
  "zero_camera_hooks = \<lparr>ck_on_event = None, ck_on_reset = None, ck_hook_user = 0\<rparr>"

definition zero_camera :: camera_channel where
  "zero_camera = \<lparr>cam_bind = None, cam_ch_id = 0, cam_mgr = None, cam_now_us = None, cam_time_user = 0,
     cam_hooks = zero_camera_hooks, cam_next_frame_id = 0, cam_ack_pending = 0,
     cam_fifo = replicate CAM_FIFO_CAP zero_evt, cam_fifo_count = 0\<rparr>"

definition update_cam ::
  "addr \<Rightarrow> (camera_channel \<Rightarrow> camera_channel) \<Rightarrow> ('p, 'x) cam_heap_scheme \<Rightarrow> ('p, 'x) cam_heap_scheme" where
  "update_cam a f h = h\<lparr>hp_cam := (hp_cam h)(a := f (hp_cam h a))\<rparr>"

text \<open>A call of a clock of the application through a possibly null pointer, which gives 0.\<close>

definition app_now_us ::
  "('p, 'y) cam_app_scheme \<Rightarrow> fn_ptr option \<Rightarrow> user_ptr \<Rightarrow> ('p, 'x) comm_heap_scheme \<Rightarrow> u64 \<times> ('p, 'x) comm_heap_scheme" where
  "app_now_us A f user h = (case f of None \<Rightarrow> (0, h)
     | Some g \<Rightarrow> (let (t, e) = ca_now_us A g user (hp_ext h) in (t, h\<lparr>hp_ext := e\<rparr>)))"

section \<open>Operations\<close>

definition camera_pack_event :: "camera_build \<Rightarrow> u8 list \<Rightarrow> u16 \<Rightarrow> u32 \<Rightarrow> u64 \<Rightarrow> (u8 list \<times> nat) option" where
  "camera_pack_event B buf sid frame_id ts_us = do {
     s \<leftarrow> put comm_write_u16_le 2 sid (buf, 0);
     s \<leftarrow> (if CAM_PAYLOAD_HAS_FRAME_ID B then put comm_write_u32_le 4 frame_id s else Some s);
     (if CAM_PAYLOAD_HAS_TS_US B then put comm_write_u64_le 8 ts_us s else Some s)
   }"

definition cam_fifo_clear :: "camera_channel \<Rightarrow> camera_channel" where
  "cam_fifo_clear cam = cam\<lparr>cam_fifo_count := 0,
     cam_fifo := foldl (\<lambda>fifo i. fifo[i := zero_evt]) (cam_fifo cam) [0..<CAM_FIFO_CAP]\<rparr>"

definition camera_on_rx ::
  "('p, 'y) cam_app_scheme \<Rightarrow> u8 list option \<Rightarrow> nat \<Rightarrow> user_ptr \<Rightarrow> ('p, 'x) cam_heap_scheme \<Rightarrow> ('p, 'x) cam_heap_scheme option" where
  "camera_on_rx A payload len user h = (case payload of None \<Rightarrow> Some h | Some p \<Rightarrow>
     (if len < 2 \<or> user = 0 then Some h
      else do {
        b0 \<leftarrow> mem_get p 0;
        b1 \<leftarrow> mem_get p 1;
        let sid = ucast b0 OR push_bit 8 (ucast b1);
        if sid = CAM_SID_RESET then do {
          let h = update_cam user (\<lambda>c. (cam_fifo_clear c)\<lparr>cam_next_frame_id := 1, cam_ack_pending := 1\<rparr>) h;
          let k = cam_hooks (hp_cam h user);
          Some (case ck_on_reset k of None \<Rightarrow> h | Some f \<Rightarrow> on_ext (ca_on_reset A f user (ck_hook_user k)) h)
        } else Some h
      }))"

abbreviation fn_camera_on_rx :: fn_ptr where "fn_camera_on_rx \<equiv> 11"

text \<open>The last steps of every \<^verbatim>\<open>..._channel_init\<close>: initialise the embedded channel, bind and register it.\<close>

definition channel_attach ::
  "addr \<Rightarrow> addr \<Rightarrow> addr \<Rightarrow> u8 \<Rightarrow> channel_cfg \<Rightarrow> channel_hooks \<Rightarrow> ('p, 'x) comm_heap_scheme \<Rightarrow> ('p, 'x) comm_heap_scheme" where
  "channel_attach a bnd mgr cid cfg hooks h =
     (let h = channel_init (Some a) cid (Some cfg) (Some hooks) a h;
          h = channel_bind_transport (Some a) (Some bnd) (bd_msg_type (hp_bind h bnd)) h
      in snd (chmgr_register (Some mgr) (Some a) h))"

definition camera_channel_init_ex ::
  "addr option \<Rightarrow> addr option \<Rightarrow> addr option \<Rightarrow> camera_channel_cfg option \<Rightarrow> fn_ptr option \<Rightarrow> user_ptr \<Rightarrow>
     camera_channel_hooks option \<Rightarrow> ('p, 'x) cam_heap_scheme \<Rightarrow> ('p, 'x) cam_heap_scheme" where
  "camera_channel_init_ex cam bnd mgr cfg now_us time_user hooks h = (case (cam, bnd, mgr, cfg) of
       (Some a, Some b, Some m, Some g) \<Rightarrow>
         (let c = zero_camera\<lparr>cam_bind := bnd, cam_mgr := mgr, cam_ch_id := kc_ch_id g, cam_now_us := now_us,
                    cam_time_user := time_user,
                    cam_hooks := (case hooks of Some k \<Rightarrow> k | None \<Rightarrow> zero_camera_hooks),
                    cam_next_frame_id := 1\<rparr>;
              h = update_cam a (\<lambda>_. cam_fifo_clear c) h
          in channel_attach a b m (kc_ch_id g)
               \<lparr>cc_mode = CH_MODE_PUSH, cc_reliable = 0, cc_expect_reply = 0, cc_priority = kc_priority g, cc_period_ms = 0\<rparr>
               \<lparr>ck_on_rx = Some fn_camera_on_rx, ck_on_tick = None, ck_on_cfg_change = None\<rparr> h)
     | _ \<Rightarrow> h)"

definition camera_channel_init ::
  "addr option \<Rightarrow> addr option \<Rightarrow> addr option \<Rightarrow> u8 \<Rightarrow> fn_ptr option \<Rightarrow> user_ptr \<Rightarrow>
     camera_channel_hooks option \<Rightarrow> ('p, 'x) cam_heap_scheme \<Rightarrow> ('p, 'x) cam_heap_scheme" where
  "camera_channel_init cam bnd mgr cid now_us time_user hooks h =
     camera_channel_init_ex cam bnd mgr (Some \<lparr>kc_ch_id = cid, kc_priority = CAM_PRIORITY\<rparr>) now_us time_user hooks h"

text \<open>The packet buffer on the stack, of unspecified contents.\<close>

abbreviation stack_buffer :: "nat \<Rightarrow> u8 list" where "stack_buffer n \<equiv> replicate n 0"

text \<open>\<^verbatim>\<open>if (cam->fifo_count < CAM_FIFO_CAP) cam->fifo[cam->fifo_count++] = evt\<close>\<close>

definition log_event :: "cam_evt \<Rightarrow> camera_channel \<Rightarrow> camera_channel" where
  "log_event evt c = (if cam_fifo_count c < CAM_FIFO_CAP
     then c\<lparr>cam_fifo := (cam_fifo c)[cam_fifo_count c := evt], cam_fifo_count := cam_fifo_count c + 1\<rparr> else c)"

definition camera_channel_trigger ::
  "camera_build \<Rightarrow> ('p, 'y) cam_app_scheme \<Rightarrow> addr option \<Rightarrow> ('p, 'x) cam_heap_scheme \<Rightarrow> ('p, 'x) cam_heap_scheme option" where
  "camera_channel_trigger B A cam h = (case cam of None \<Rightarrow> Some h | Some a \<Rightarrow>
     (if \<not> CAM_EVENT_PUBLISH_ENABLE B then Some h
      else do {
        let (ts, h) = app_now_us A (cam_now_us (hp_cam h a)) (cam_time_user (hp_cam h a)) h;
        let evt = \<lparr>ev_frame_id = cam_next_frame_id (hp_cam h a), ev_ts_us = ts\<rparr>;
        let h = update_cam a (\<lambda>c. c\<lparr>cam_next_frame_id := cam_next_frame_id c + 1\<rparr>) h;
        let h = update_cam a (log_event evt) h;
        (buf, len) \<leftarrow> camera_pack_event B (stack_buffer 14) CAM_SID_EVENT (ev_frame_id evt) (ev_ts_us evt);
        (_, h) \<leftarrow> ch_uproto_queue_notify (cam_bind (hp_cam h a)) (cam_ch_id (hp_cam h a)) CAM_SID_EVENT 0
                   (Some buf) (word_of_nat len) h;
        let k = cam_hooks (hp_cam h a);
        Some (case ck_on_event k of None \<Rightarrow> h
              | Some f \<Rightarrow> on_ext (ca_on_event A f a (ev_frame_id evt) (ev_ts_us evt) (ck_hook_user k)) h)
      }))"

definition camera_channel_tick :: "addr option \<Rightarrow> ('p, 'x) cam_heap_scheme \<Rightarrow> ('p, 'x) cam_heap_scheme option" where
  "camera_channel_tick cam h = (case cam of None \<Rightarrow> Some h | Some a \<Rightarrow>
     (if cam_ack_pending (hp_cam h a) \<noteq> 0 then do {
        ack \<leftarrow> comm_write_u16_le (stack_buffer 2) 0 CAM_SID_RESET;
        (queued, h) \<leftarrow> ch_uproto_queue_notify (cam_bind (hp_cam h a)) (cam_ch_id (hp_cam h a)) CAM_SID_RESET 0
                         (Some ack) 2 h;
        Some (if queued then update_cam a (\<lambda>c. c\<lparr>cam_ack_pending := 0\<rparr>) h else h)
      } else Some h))"

definition camera_channel_reset :: "addr option \<Rightarrow> ('p, 'x) cam_heap_scheme \<Rightarrow> ('p, 'x) cam_heap_scheme" where
  "camera_channel_reset cam h = (case cam of None \<Rightarrow> h
     | Some a \<Rightarrow> update_cam a (\<lambda>c. (cam_fifo_clear c)\<lparr>cam_next_frame_id := 1\<rparr>) h)"

definition camera_channel_next_frame_id :: "addr option \<Rightarrow> ('p, 'x) cam_heap_scheme \<Rightarrow> u32" where
  "camera_channel_next_frame_id cam h = (case cam of None \<Rightarrow> 0 | Some a \<Rightarrow> cam_next_frame_id (hp_cam h a))"

section \<open>Packing\<close>

definition event_image :: "camera_build \<Rightarrow> u16 \<Rightarrow> u32 \<Rightarrow> u64 \<Rightarrow> u8 list" where
  "event_image B sid frame_id ts_us = le16 sid @
     (if CAM_PAYLOAD_HAS_FRAME_ID B then le32 frame_id else []) @ (if CAM_PAYLOAD_HAS_TS_US B then le64 ts_us else [])"

lemma event_image_length: "length (event_image B sid f t) \<le> 14"
  by (simp add: event_image_def)

lemma camera_pack_event_eq:
  assumes "14 \<le> length buf"
  shows "camera_pack_event B buf sid f t = Some (cursor buf (event_image B sid f t))"
  using assms unfolding camera_pack_event_def event_image_def cursor_start
  by (simp add: put_cursors)

section \<open>The camera object\<close>

text \<open>The FIFO array has its declared size and the count stays inside it.\<close>

definition cam_ok :: "camera_channel \<Rightarrow> bool" where
  "cam_ok c \<longleftrightarrow> length (cam_fifo c) = CAM_FIFO_CAP \<and> cam_fifo_count c \<le> CAM_FIFO_CAP"

lemma foldl_update_length [simp]: "length (foldl (\<lambda>f i. f[i := g i]) xs is) = length xs"
  by (induction "is" arbitrary: xs) auto

lemma foldl_update_all:
  "n \<le> length xs \<Longrightarrow> foldl (\<lambda>f i. f[i := z]) xs [0..<n] = replicate n z @ drop n xs"
proof (induction n)
  case (Suc n)
  then show ?case
    by (simp add: list_update_append replicate_append_same [symmetric])
      (simp add: Cons_nth_drop_Suc [symmetric])
qed simp

lemma cam_fifo_clear_eq:
  "cam_ok c \<Longrightarrow> cam_fifo_clear c = c\<lparr>cam_fifo_count := 0, cam_fifo := replicate CAM_FIFO_CAP zero_evt\<rparr>"
  by (simp add: cam_fifo_clear_def cam_ok_def foldl_update_all)

lemma cam_fifo_clear_ok: "cam_ok c \<Longrightarrow> cam_ok (cam_fifo_clear c)"
  by (simp add: cam_fifo_clear_eq) (simp add: cam_ok_def)

lemma update_cam_simps [simp]:
  "hp_cam (update_cam a f h) = (hp_cam h)(a := f (hp_cam h a))"
  "hp_bind (update_cam a f h) = hp_bind h" "hp_mgr (update_cam a f h) = hp_mgr h"
  "hp_chan (update_cam a f h) = hp_chan h" "hp_ext (update_cam a f h) = hp_ext h"
  by (simp_all add: update_cam_def)

lemma wf_heap_True: "wf_heap I h \<Longrightarrow> wf_heap (\<lambda>_. True) h"
  by (simp add: wf_heap_def)

lemma wf_heap_update_cam [simp]: "wf_heap (\<lambda>_. True) (update_cam a f h) = wf_heap (\<lambda>_. True) h"
  by (simp add: wf_heap_def)

lemma app_now_us_keeps:
  assumes "app_now_us A f u h = (t, h')"
  shows "hp_bind h' = hp_bind h" "hp_mgr h' = hp_mgr h" "hp_chan h' = hp_chan h" "comm_heap.more h' = comm_heap.more h"
  using assms by (auto simp: app_now_us_def Let_def split: option.splits prod.splits)

lemma app_now_us_wf [simp]: "wf_heap I (snd (app_now_us A f u h)) = wf_heap I h"
  by (auto simp: app_now_us_def Let_def split: option.splits prod.splits)

lemma queue_notify_more:
  assumes "ch_uproto_queue_notify b cid sid flags pl len h = Some (r, h')"
  shows "comm_heap.more h' = comm_heap.more h" "hp_chan h' = hp_chan h" "hp_mgr h' = hp_mgr h" "hp_ext h' = hp_ext h"
  using assms by (auto simp: ch_uproto_queue_notify_def update_pending_def Let_def bind_Some_iff split: option.splits if_splits)

lemma same_more_cam: "comm_heap.more h' = comm_heap.more h \<Longrightarrow> hp_cam h' = hp_cam h"
  by (cases h; cases h') simp

section \<open>Trigger events\<close>

lemma update_cam_update_cam [simp]: "update_cam a g (update_cam a f h) = update_cam a (\<lambda>c. g (f c)) h"
  by (simp add: update_cam_def)

lemma log_event_keeps [simp]:
  "cam_bind (log_event e c) = cam_bind c" "cam_ch_id (log_event e c) = cam_ch_id c" "cam_hooks (log_event e c) = cam_hooks c"
  "cam_next_frame_id (log_event e c) = cam_next_frame_id c" "cam_ack_pending (log_event e c) = cam_ack_pending c"
  by (simp_all add: log_event_def)

lemma log_event_ok: "cam_ok c \<Longrightarrow> cam_ok (log_event e c)"
  by (simp add: log_event_def cam_ok_def)

lemma trigger_step:
  fixes a :: addr
  assumes en: "CAM_EVENT_PUBLISH_ENABLE B" and wf: "wf_heap I h"
  defines "c \<equiv> hp_cam h a"
  shows "\<exists>ts h0 r h1 h'. app_now_us A (cam_now_us c) (cam_time_user c) h = (ts, h0) \<and>
    ch_uproto_queue_notify (cam_bind c) (cam_ch_id c) CAM_SID_EVENT 0
      (Some (event_image B CAM_SID_EVENT (cam_next_frame_id c) ts @ drop (length (event_image B CAM_SID_EVENT (cam_next_frame_id c) ts)) (stack_buffer 14)))
      (word_of_nat (length (event_image B CAM_SID_EVENT (cam_next_frame_id c) ts)))
      (update_cam a (\<lambda>c. log_event \<lparr>ev_frame_id = cam_next_frame_id c, ev_ts_us = ts\<rparr>
         (c\<lparr>cam_next_frame_id := cam_next_frame_id c + 1\<rparr>)) h0) = Some (r, h1) \<and>
    camera_channel_trigger B A (Some a) h = Some h' \<and> wf_heap (\<lambda>_. True) h' \<and> hp_bind h' = hp_bind h1 \<and>
    hp_cam h' = (hp_cam h)(a := log_event \<lparr>ev_frame_id = cam_next_frame_id c, ev_ts_us = ts\<rparr>
       (c\<lparr>cam_next_frame_id := cam_next_frame_id c + 1\<rparr>))"
proof -
  obtain ts h0 where now: "app_now_us A (cam_now_us c) (cam_time_user c) h = (ts, h0)" by fastforce
  have same: "hp_cam h0 = hp_cam h" by (rule same_more_cam [OF app_now_us_keeps(4) [OF now]])
  have wf0: "wf_heap (\<lambda>_. True) h0"
    using app_now_us_wf [of "\<lambda>_. True" A "cam_now_us c" "cam_time_user c" h] wf_heap_True [OF wf] by (simp add: now)
  let ?evt = "\<lparr>ev_frame_id = cam_next_frame_id c, ev_ts_us = ts\<rparr>"
  let ?img = "event_image B CAM_SID_EVENT (cam_next_frame_id c) ts"
  let ?buf = "?img @ drop (length ?img) (stack_buffer 14)"
  let ?h = "update_cam a (\<lambda>c. log_event \<lparr>ev_frame_id = cam_next_frame_id c, ev_ts_us = ts\<rparr>
         (c\<lparr>cam_next_frame_id := cam_next_frame_id c + 1\<rparr>)) h0"
  have hf: "update_cam a (\<lambda>c. log_event ?evt (c\<lparr>cam_next_frame_id := cam_next_frame_id c + 1\<rparr>)) h0 = ?h"
    using same by (simp add: update_cam_def c_def)
  have len: "unat (word_of_nat (length ?img) :: u16) \<le> length ?buf"
    using event_image_length [of B CAM_SID_EVENT "cam_next_frame_id c" ts] by (simp add: unat_of_nat)
  obtain r h1 where q: "ch_uproto_queue_notify (cam_bind c) (cam_ch_id c) CAM_SID_EVENT 0 (Some ?buf)
      (word_of_nat (length ?img)) ?h = Some (r, h1)" and wf1: "wf_heap (\<lambda>_. True) h1"
    using queue_notify_ok [of "\<lambda>_. True" ?h "Some ?buf" "word_of_nat (length ?img)" "cam_bind c" "cam_ch_id c" CAM_SID_EVENT 0]
      wf0 len by (simp only: wf_heap_update_cam option.inject) blast
  have cam1: "hp_cam h1 = (hp_cam h)(a := log_event ?evt (c\<lparr>cam_next_frame_id := cam_next_frame_id c + 1\<rparr>))"
    using same_more_cam [OF queue_notify_more(1) [OF q]] same by (simp add: c_def)
  define h' where "h' = (case ck_on_event (cam_hooks (hp_cam h1 a)) of None \<Rightarrow> h1
              | Some f \<Rightarrow> on_ext (ca_on_event A f a (cam_next_frame_id c) ts (ck_hook_user (cam_hooks (hp_cam h1 a)))) h1)"
  have t: "camera_channel_trigger B A (Some a) h = Some h'"
    unfolding camera_channel_trigger_def option.case
    using en now q hf same
    by (simp add: camera_pack_event_eq cursor_def Let_def c_def h'_def split: option.split)
  have "wf_heap (\<lambda>_. True) h'" "hp_bind h' = hp_bind h1" "hp_cam h' = hp_cam h1"
    using wf1 by (auto simp: h'_def split: option.splits)
  then show ?thesis using now q t cam1 by auto
qed

text \<open>The trigger edge, \<open>n\<close> times.\<close>

fun triggers ::
  "camera_build \<Rightarrow> ('p, 'y) cam_app_scheme \<Rightarrow> addr \<Rightarrow> nat \<Rightarrow> ('p, 'x) cam_heap_scheme \<Rightarrow> ('p, 'x) cam_heap_scheme option" where
  "triggers B A a 0 h = Some h"
| "triggers B A a (Suc n) h = do { h \<leftarrow> triggers B A a n h; camera_channel_trigger B A (Some a) h }"

lemma fifo_frames_step:
  assumes "cam_ok c" and "map ev_frame_id (take (cam_fifo_count c) (cam_fifo c)) = map word_of_nat [1..<Suc (min n CAM_FIFO_CAP)]"
    and "cam_fifo_count c = min n CAM_FIFO_CAP" and "ev_frame_id e = word_of_nat (Suc n)"
  shows "map ev_frame_id (take (cam_fifo_count (log_event e c)) (cam_fifo (log_event e c))) =
      map word_of_nat [1..<Suc (min (Suc n) CAM_FIFO_CAP)]"
    and "cam_fifo_count (log_event e c) = min (Suc n) CAM_FIFO_CAP"
proof -
  have "map ev_frame_id (take (cam_fifo_count (log_event e c)) (cam_fifo (log_event e c))) =
      map word_of_nat [1..<Suc (min (Suc n) CAM_FIFO_CAP)] \<and> cam_fifo_count (log_event e c) = min (Suc n) CAM_FIFO_CAP"
  proof (cases "n < CAM_FIFO_CAP")
    case True
    then show ?thesis using assms by (simp add: log_event_def cam_ok_def take_Suc_conv_app_nth)
  next
    case False
    then have "min (Suc n) CAM_FIFO_CAP = min n CAM_FIFO_CAP" "log_event e c = c"
      using assms(3) by (simp_all add: log_event_def)
    then show ?thesis using assms by metis
  qed
  then show "map ev_frame_id (take (cam_fifo_count (log_event e c)) (cam_fifo (log_event e c))) =
      map word_of_nat [1..<Suc (min (Suc n) CAM_FIFO_CAP)]"
    and "cam_fifo_count (log_event e c) = min (Suc n) CAM_FIFO_CAP" by blast+
qed

lemma camera_triggers:
  assumes "CAM_EVENT_PUBLISH_ENABLE B" and "wf_heap I h" and "cam_ok (hp_cam h a)"
  shows "\<exists>h'. triggers B A a n (camera_channel_reset (Some a) h) = Some h' \<and> wf_heap (\<lambda>_. True) h' \<and>
    (let c = hp_cam h' a in cam_ok c \<and> cam_next_frame_id c = word_of_nat (Suc n) \<and>
       cam_fifo_count c = min n CAM_FIFO_CAP \<and>
       map ev_frame_id (take (cam_fifo_count c) (cam_fifo c)) = map word_of_nat [1..<Suc (min n CAM_FIFO_CAP)])"
proof (induction n)
  case 0
  have "cam_ok (cam_fifo_clear (hp_cam h a))" by (rule cam_fifo_clear_ok [OF assms(3)])
  then show ?case
    using wf_heap_True [OF assms(2)] assms(3) by (simp add: camera_channel_reset_def Let_def cam_fifo_clear_eq) (simp add: cam_ok_def)
next
  case (Suc n)
  then obtain g where g: "triggers B A a n (camera_channel_reset (Some a) h) = Some g" "wf_heap (\<lambda>_. True) g"
    and c: "cam_ok (hp_cam g a)" "cam_next_frame_id (hp_cam g a) = word_of_nat (Suc n)" "cam_fifo_count (hp_cam g a) = min n CAM_FIFO_CAP"
      "map ev_frame_id (take (cam_fifo_count (hp_cam g a)) (cam_fifo (hp_cam g a))) = map word_of_nat [1..<Suc (min n CAM_FIFO_CAP)]"
    by (auto simp: Let_def)
  from trigger_step [OF assms(1) g(2), where a = a and A = A] obtain ts g' where
    t: "camera_channel_trigger B A (Some a) g = Some g'" "wf_heap (\<lambda>_. True) g'"
    and g': "hp_cam g' a = log_event \<lparr>ev_frame_id = word_of_nat (Suc n), ev_ts_us = ts\<rparr>
       ((hp_cam g a)\<lparr>cam_next_frame_id := word_of_nat (Suc (Suc n))\<rparr>)"
    using c(2) by (auto simp: add.commute)
  let ?c = "(hp_cam g a)\<lparr>cam_next_frame_id := word_of_nat (Suc (Suc n))\<rparr>"
  have "cam_ok ?c" using c(1) by (simp add: cam_ok_def)
  then show ?case
    using g(1) t g' fifo_frames_step [of ?c n "\<lparr>ev_frame_id = word_of_nat (Suc n), ev_ts_us = ts\<rparr>"] c(3,4) log_event_ok [of ?c]
    by (simp add: Let_def)
qed

section \<open>Registration of a channel object\<close>

lemma attach_wf: "wf_heap I h \<Longrightarrow> wf_heap I (channel_attach a b m cid cfg hooks h)"
  by (simp add: channel_attach_def Let_def chmgr_register_wf)

lemma attach_channel:
  "hp_chan (channel_attach a b m cid cfg hooks h) a =
     \<lparr>ch_id = cid, ch_cfg = cfg, ch_hooks = (if ck_on_cfg_change hooks = None
        then hooks\<lparr>ck_on_cfg_change := Some fn_default_on_cfg_change\<rparr> else hooks),
      ch_user = a, ch_transport = Some b, ch_msg_type = bd_msg_type (hp_bind h b), ch_handshake_done = 0\<rparr>"
  "comm_heap.more (channel_attach a b m cid cfg hooks h) = comm_heap.more h"
  "hp_bind (channel_attach a b m cid cfg hooks h) = hp_bind h"
  by (simp_all add: channel_attach_def channel_init_def channel_bind_transport_def chmgr_register_def Let_def zero_channel_def)

text \<open>A fresh object on a manager with room becomes the channel of the manager's next slot.\<close>

lemma attach_registered:
  assumes "wf_heap I h" and "mg_count (hp_mgr h m) < CH_MAX"
  shows "hp_mgr (channel_attach a b m cid cfg hooks h) m =
    \<lparr>mg_slots = (mg_slots (hp_mgr h m))[mg_count (hp_mgr h m) := Some a], mg_count = mg_count (hp_mgr h m) + 1\<rparr>"
  using assms(2) by (simp add: channel_attach_def channel_init_def channel_bind_transport_def chmgr_register_def Let_def)

lemma queue_slot_cong:
  "hp_bind h' = hp_bind h \<Longrightarrow> hp_mgr h' = hp_mgr h \<Longrightarrow> hp_chan h' = hp_chan h \<Longrightarrow> queue_slot h' = queue_slot h"
  unfolding queue_slot_def slot_has_id_def by (intro ext) (simp only:)

lemma queue_slot_update_cam [simp]: "queue_slot (update_cam a f h) = queue_slot h"
  by (rule queue_slot_cong) simp_all

lemma trigger_queues:
  assumes "CAM_EVENT_PUBLISH_ENABLE B" and wf: "wf_heap I h"
    and b: "cam_bind (hp_cam h a) = Some b" "queue_slot h b (cam_ch_id (hp_cam h a)) i"
  shows "\<exists>ts h0 h'. app_now_us A (cam_now_us (hp_cam h a)) (cam_time_user (hp_cam h a)) h = (ts, h0) \<and>
    camera_channel_trigger B A (Some a) h = Some h' \<and>
    holds_notify (bd_pending (hp_bind h' b) ! i) (cam_ch_id (hp_cam h a)) CAM_SID_EVENT
      (event_image B CAM_SID_EVENT (cam_next_frame_id (hp_cam h a)) ts)"
proof -
  let ?img = "event_image B CAM_SID_EVENT (cam_next_frame_id (hp_cam h a))"
  let ?upd = "\<lambda>ts. update_cam a (\<lambda>c. log_event \<lparr>ev_frame_id = cam_next_frame_id c, ev_ts_us = ts\<rparr>
         (c\<lparr>cam_next_frame_id := cam_next_frame_id c + 1\<rparr>))"
  from trigger_step [OF assms(1) wf, where a = a and A = A] obtain ts h0 r h1 h' where
    now: "app_now_us A (cam_now_us (hp_cam h a)) (cam_time_user (hp_cam h a)) h = (ts, h0)"
    and q: "ch_uproto_queue_notify (cam_bind (hp_cam h a)) (cam_ch_id (hp_cam h a)) CAM_SID_EVENT 0
      (Some (?img ts @ drop (length (?img ts)) (stack_buffer 14))) (word_of_nat (length (?img ts))) (?upd ts h0) = Some (r, h1)"
    and t: "camera_channel_trigger B A (Some a) h = Some h'" "hp_bind h' = hp_bind h1"
    by blast
  have "wf_heap (\<lambda>_. True) (?upd ts h0)"
    using app_now_us_wf [of "\<lambda>_. True" A "cam_now_us (hp_cam h a)" "cam_time_user (hp_cam h a)" h] wf_heap_True [OF wf]
    by (simp add: now)
  moreover have "queue_slot (?upd ts h0) b (cam_ch_id (hp_cam h a)) i"
    using b(2) queue_slot_cong [OF app_now_us_keeps(1-3) [OF now]] by simp
  moreover have "length (?img ts) \<le> 128" using event_image_length [of B CAM_SID_EVENT "cam_next_frame_id (hp_cam h a)" ts] by simp
  ultimately show ?thesis
    using queue_holds [of "\<lambda>_. True" "?upd ts h0" b "cam_ch_id (hp_cam h a)" i "?img ts" CAM_SID_EVENT 0 "drop (length (?img ts)) (stack_buffer 14)"]
      now q t b(1) by auto
qed

section \<open>Reset and its acknowledgement\<close>

lemma le16_reset: "le16 CAM_SID_RESET = [2, 0]"
  by (simp add: CAM_SID_RESET_def le_bytes_numeral)

lemma camera_on_rx_reset:
  assumes "a \<noteq> 0"
  shows "\<exists>h'. camera_on_rx A (Some (le16 CAM_SID_RESET @ rest)) (2 + length rest) a h = Some h' \<and>
    hp_cam h' = (hp_cam h)(a := (cam_fifo_clear (hp_cam h a))\<lparr>cam_next_frame_id := 1, cam_ack_pending := 1\<rparr>) \<and>
    hp_bind h' = hp_bind h \<and> hp_mgr h' = hp_mgr h \<and> hp_chan h' = hp_chan h"
  unfolding le16_reset using assms by (auto simp: camera_on_rx_def mem_get_def CAM_SID_RESET_def Let_def split: option.split)

lemma cam_fifo_clear_keeps [simp]:
  "cam_bind (cam_fifo_clear c) = cam_bind c" "cam_ch_id (cam_fifo_clear c) = cam_ch_id c" "cam_fifo_count (cam_fifo_clear c) = 0"
  by (simp_all add: cam_fifo_clear_def)

lemma ack_buffer: "comm_write_u16_le (stack_buffer 2) 0 CAM_SID_RESET = Some (le16 CAM_SID_RESET)"
  by (simp add: le_write_eqs mem_write_def)

lemma camera_tick_acks:
  assumes wf: "wf_heap I h" and "cam_ack_pending (hp_cam h a) \<noteq> 0"
    and b: "cam_bind (hp_cam h a) = Some b" "queue_slot h b (cam_ch_id (hp_cam h a)) i"
  shows "\<exists>h'. camera_channel_tick (Some a) h = Some h' \<and> cam_ack_pending (hp_cam h' a) = 0 \<and>
    holds_notify (bd_pending (hp_bind h' b) ! i) (cam_ch_id (hp_cam h a)) CAM_SID_RESET (le16 CAM_SID_RESET)"
proof -
  have "length (le16 CAM_SID_RESET) \<le> 128" by simp
  from queue_holds [OF wf b(2) this, of CAM_SID_RESET 0 "[]"] obtain g where
    "ch_uproto_queue_notify (Some b) (cam_ch_id (hp_cam h a)) CAM_SID_RESET 0 (Some (le16 CAM_SID_RESET)) 2 h = Some (True, g)"
    "holds_notify (bd_pending (hp_bind g b) ! i) (cam_ch_id (hp_cam h a)) CAM_SID_RESET (le16 CAM_SID_RESET)"
    by auto
  then show ?thesis using assms(2) b(1) by (simp add: camera_channel_tick_def ack_buffer)
qed

section \<open>A camera on the sample link\<close>

definition cam_build_on :: camera_build where
  "cam_build_on = camera_config\<lparr>CAM_EVENT_PUBLISH_ENABLE := True\<rparr>"

definition pipe_cam_app :: "pipe cam_app" where
  "pipe_cam_app = \<lparr>ca_now_us = (\<lambda>_ _ e. (ucast (pi_clock e), e)), ca_on_event = (\<lambda>_ _ _ _ _ e. e), ca_on_reset = (\<lambda>_ _ _ e. e)\<rparr>"

definition cam_link :: "pipe cam_heap" where
  "cam_link = camera_channel_init (Some 30) (Some 20) (Some 10) CAM_CH_ID (Some 5) 0 None
     (ch_uproto_bind_init (Some 20) (Some 1) 0x35 (Some 10)
       (comm_heap.extend (empty_heap pipe0) (cam_heap.fields (\<lambda>_. zero_camera))))"

lemmas cam_link_defs = cam_link_def camera_channel_init_def camera_channel_init_ex_def channel_attach_def
  ch_uproto_bind_init_def channel_init_def channel_bind_transport_def chmgr_register_def empty_heap_def
  comm_heap.defs cam_heap.defs zero_manager_def zero_channel_def Let_def

lemma zero_camera_ok: "cam_ok zero_camera"
  by (simp add: cam_ok_def zero_camera_def)

lemma attach_cam [simp]: "hp_cam (channel_attach a b m cid cfg hooks h) = hp_cam h"
  by (rule same_more_cam [OF attach_channel(2)])

lemma camera_init_ok:
  "cam_ok (hp_cam (camera_channel_init_ex (Some a) (Some b) (Some m) (Some g) now u k h) a)"
  by (simp add: camera_channel_init_ex_def Let_def cam_fifo_clear_def cam_ok_def zero_camera_def)

lemma cam_link_wf: "wf_heap (\<lambda>_. True) cam_link"
proof -
  have "wf_heap (\<lambda>_. True) (comm_heap.extend (empty_heap pipe0) (cam_heap.fields (\<lambda>_. zero_camera)))"
    by (simp add: comm_heap.defs empty_heap_def wf_heap_def zero_manager_wf wf_bind_def list_all_length zero_pending_wf)
  then show ?thesis
    by (simp add: cam_link_def camera_channel_init_def camera_channel_init_ex_def Let_def attach_wf bind_init_wf)
qed

lemma cam_link_camera:
  "cam_ok (hp_cam cam_link 30)" "cam_bind (hp_cam cam_link 30) = Some 20" "cam_ch_id (hp_cam cam_link 30) = CAM_CH_ID"
  "queue_slot cam_link 20 CAM_CH_ID 0"
  by (simp_all add: cam_link_defs cam_ok_def zero_camera_def update_cam_def cam_fifo_clear_def queue_slot_def slot_has_id_def upt_conv_Cons)

section \<open>Properties of the camera channel\<close>

text \<open>
  Frame numbering: after a reset, \<open>n\<close> trigger edges all return, number the frames 1, 2, ..., \<open>n\<close> modulo \<open>2\<^sup>3\<^sup>2\<close>,
  and leave in the diagnostic FIFO the first ten of them: later events are not recorded, although the
  configuration describes the FIFO as holding the most recent ones.
\<close>

theorem camera_frame_numbers:
  assumes "CAM_EVENT_PUBLISH_ENABLE B" and "wf_heap I h" and "cam_ok (hp_cam h a)"
  shows "\<exists>h'. triggers B A a n (camera_channel_reset (Some a) h) = Some h' \<and>
    camera_channel_next_frame_id (Some a) h' = word_of_nat (n + 1) \<and>
    cam_fifo_count (hp_cam h' a) = min n CAM_FIFO_CAP \<and>
    map ev_frame_id (take (min n CAM_FIFO_CAP) (cam_fifo (hp_cam h' a))) = map word_of_nat [1..<min n CAM_FIFO_CAP + 1]"
  using camera_triggers [OF assms, of A n] by (auto simp: Let_def camera_channel_next_frame_id_def simp del: upt_Suc)

theorem camera_frame_numbers_witness:
  "\<exists>h'. triggers cam_build_on pipe_cam_app 30 25 (camera_channel_reset (Some 30) cam_link) = Some h' \<and>
    camera_channel_next_frame_id (Some 30) h' = 26 \<and> cam_fifo_count (hp_cam h' 30) = 10"
  using camera_frame_numbers [of cam_build_on, OF _ cam_link_wf cam_link_camera(1), of pipe_cam_app 25]
  by (auto simp: cam_build_on_def)

text \<open>
  A trigger edge queues its event: the slot of the camera channel then holds a notification with the
  frame number and the time stamp of the edge in the layout that the build switches select, whatever it held before.
\<close>

theorem camera_trigger_queues_event:
  assumes "CAM_EVENT_PUBLISH_ENABLE B" and "wf_heap I h" and "cam_bind (hp_cam h a) = Some b"
    and "queue_slot h b (cam_ch_id (hp_cam h a)) i"
  shows "\<exists>h'. camera_channel_trigger B A (Some a) h = Some h' \<and>
    holds_notify (bd_pending (hp_bind h' b) ! i) (cam_ch_id (hp_cam h a)) CAM_SID_EVENT
      (event_image B CAM_SID_EVENT (cam_next_frame_id (hp_cam h a))
        (fst (app_now_us A (cam_now_us (hp_cam h a)) (cam_time_user (hp_cam h a)) h)))"
  using trigger_queues [OF assms, of A] by auto

theorem camera_trigger_queues_event_witness:
  "\<exists>h'. camera_channel_trigger cam_build_on pipe_cam_app (Some 30) cam_link = Some h' \<and>
    pd_sid (bd_pending (hp_bind h' 20) ! 0) = CAM_SID_EVENT"
  using camera_trigger_queues_event [of cam_build_on, OF _ cam_link_wf cam_link_camera(2), of 0 pipe_cam_app] cam_link_camera(3,4)
  by (auto simp: cam_build_on_def holds_notify_def)

text \<open>
  Reset by the host: the command restarts the frame numbers at 1, empties the FIFO and makes the next tick
  queue the acknowledgement; the tick after that queues nothing more.
\<close>

theorem camera_reset_acknowledged:
  assumes "wf_heap I h" and "a \<noteq> 0" and "cam_bind (hp_cam h a) = Some b" and "queue_slot h b (cam_ch_id (hp_cam h a)) i"
  shows "\<exists>h1 h2. camera_on_rx A (Some (le16 CAM_SID_RESET @ rest)) (2 + length rest) a h = Some h1 \<and>
    camera_channel_next_frame_id (Some a) h1 = 1 \<and> cam_fifo_count (hp_cam h1 a) = 0 \<and>
    camera_channel_tick (Some a) h1 = Some h2 \<and>
    holds_notify (bd_pending (hp_bind h2 b) ! i) (cam_ch_id (hp_cam h a)) CAM_SID_RESET (le16 CAM_SID_RESET) \<and>
    camera_channel_tick (Some a) h2 = Some h2"
proof -
  from camera_on_rx_reset [OF assms(2), of A rest h] obtain h1 where
    rx: "camera_on_rx A (Some (le16 CAM_SID_RESET @ rest)) (2 + length rest) a h = Some h1"
    and cam: "hp_cam h1 = (hp_cam h)(a := (cam_fifo_clear (hp_cam h a))\<lparr>cam_next_frame_id := 1, cam_ack_pending := 1\<rparr>)"
    and same: "hp_bind h1 = hp_bind h" "hp_mgr h1 = hp_mgr h" "hp_chan h1 = hp_chan h" by blast
  have "wf_heap (\<lambda>_. True) h1" using assms(1) same by (simp add: wf_heap_def)
  from camera_tick_acks [OF this, of a b i] obtain h2 where
    "camera_channel_tick (Some a) h1 = Some h2" "cam_ack_pending (hp_cam h2 a) = 0"
    "holds_notify (bd_pending (hp_bind h2 b) ! i) (cam_ch_id (hp_cam h a)) CAM_SID_RESET (le16 CAM_SID_RESET)"
    using assms(3,4) cam queue_slot_cong [OF same] by auto
  moreover from this(2) have "camera_channel_tick (Some a) h2 = Some h2" by (simp add: camera_channel_tick_def)
  ultimately show ?thesis using rx cam by (auto simp: camera_channel_next_frame_id_def)
qed

theorem camera_reset_acknowledged_witness:
  "\<exists>h1 h2. camera_on_rx pipe_cam_app (Some [2, 0]) 2 30 cam_link = Some h1 \<and> camera_channel_tick (Some 30) h1 = Some h2 \<and>
    pd_sid (bd_pending (hp_bind h2 20) ! 0) = CAM_SID_RESET"
  using camera_reset_acknowledged [OF cam_link_wf _ cam_link_camera(2), of 0 pipe_cam_app "[]"] cam_link_camera(3,4)
  by (auto simp: holds_notify_def le16_reset)

end
