(* ===== verification/Gimbal_Channel.thy ===== *)
theory Gimbal_Channel
  imports Camera_Channel
begin

text \<open>
  The gimbal channel of \<^verbatim>\<open>channel/gimbal\<close>: commands of the host (aim deltas, fire, chassis, referee query),
  periodic publication of the gimbal state, range and referee reports, and the mailbox of the latest command.

  What the channel uses of \<^verbatim>\<open>auto_aim.h\<close>, which is not part of the sources, is a field of the application
  record: whether auto-aim is on, and the call that applies a delta.
\<close>

section \<open>Data\<close>

definition GIMBAL_SID_STATE :: u16 where "GIMBAL_SID_STATE = 0x0201"
definition GIMBAL_SID_DELTA :: u16 where "GIMBAL_SID_DELTA = 0x0202"
definition GIMBAL_SID_TFMINI :: u16 where "GIMBAL_SID_TFMINI = 0x0203"
definition GIMBAL_SID_REFEREE :: u16 where "GIMBAL_SID_REFEREE = 0x0204"
definition GIMBAL_SID_FIRE :: u16 where "GIMBAL_SID_FIRE = 0x0205"
definition GIMBAL_SID_CHASSIS :: u16 where "GIMBAL_SID_CHASSIS = 0x0206"
definition GIMBAL_SID_REFEREE_QUERY :: u16 where "GIMBAL_SID_REFEREE_QUERY = 0x0207"

lemmas gimbal_sids = GIMBAL_SID_STATE_def GIMBAL_SID_DELTA_def GIMBAL_SID_TFMINI_def GIMBAL_SID_REFEREE_def
  GIMBAL_SID_FIRE_def GIMBAL_SID_CHASSIS_def GIMBAL_SID_REFEREE_QUERY_def

abbreviation GIMBAL_CH_ID :: u8 where "GIMBAL_CH_ID \<equiv> 4"
abbreviation GIMBAL_PRIORITY :: u8 where "GIMBAL_PRIORITY \<equiv> 3"
abbreviation GIMBAL_PUB_PERIOD_MS :: u32 where "GIMBAL_PUB_PERIOD_MS \<equiv> 10"

record gimbal_state =
  gs_enc_yaw :: i32
  gs_enc_pitch :: i32
  gs_yaw_udeg :: i32
  gs_pitch_udeg :: i32
  gs_roll_udeg :: i32
  gs_ts_us :: u64

record gimbal_delta =
  gd_delta_yaw_udeg :: i32
  gd_delta_pitch_udeg :: i32
  gd_status :: u16
  gd_ts_us :: u64

record gimbal_tfmini =
  gt_distance_cm :: u16
  gt_strength :: u16
  gt_temp_cdeg :: i16
  gt_status :: u16
  gt_ts_us :: u64

record gimbal_referee =
  gr_enemy_team :: i32
  gr_fire_allowed :: i32
  gr_robot_id :: i32
  gr_game_stage :: i32
  gr_status :: u16
  gr_ts_us :: u64

record gimbal_fire_cmd =
  gf_fire_on :: i32
  gf_fire_mode :: i32
  gf_burst_count :: i32
  gf_status :: u16
  gf_ts_us :: u64

record gimbal_chassis_cmd =
  gc_vx_mm_s :: i32
  gc_vy_mm_s :: i32
  gc_wz_mdeg_s :: i32
  gc_mode :: i32
  gc_status :: u16
  gc_ts_us :: u64

record gimbal_source_ops =
  so_get_state :: "fn_ptr option"
  so_user :: user_ptr
  so_period_ms :: u32

record gimbal_hooks =
  gh_on_delta :: "fn_ptr option"
  gh_on_fire :: "fn_ptr option"
  gh_on_chassis :: "fn_ptr option"
  gh_on_referee_query :: "fn_ptr option"
  gh_user :: user_ptr

record gimbal_channel =
  gm_bind :: "addr option"
  gm_mgr :: "addr option"
  gm_ch_id :: u8
  gm_src :: gimbal_source_ops
  gm_hooks :: gimbal_hooks
  gm_last_pub_us :: u64
  gm_now_us :: "fn_ptr option"
  gm_time_user :: user_ptr

record gimbal_channel_cfg =
  gg_ch_id :: u8
  gg_priority :: u8
  gg_period_ms :: u32

record gimbal_cmd =
  cm_delta_yaw_udeg :: i32
  cm_delta_pitch_udeg :: i32
  cm_status :: u16
  cm_ts_us :: u64
  cm_version :: u32

text \<open>
  The switches of \<^verbatim>\<open>gimbal_config.h\<close>. The extension macro stores bytes of its own behind the state and
  returns their number; the default stores none.
\<close>

record gimbal_build =
  GIMBAL_STATE_HAS_ENCODERS :: bool
  GIMBAL_STATE_HAS_IMU :: bool
  GIMBAL_DELTA_ACK_ENABLE :: bool
  GIMBAL_TFMINI_PUBLISH_ENABLE :: bool
  GIMBAL_REFEREE_PUBLISH_ENABLE :: bool
  GIMBAL_STATE_PACK_EXT :: "gimbal_state \<Rightarrow> u8 list"

definition gimbal_config :: gimbal_build where
  "gimbal_config = \<lparr>GIMBAL_STATE_HAS_ENCODERS = True, GIMBAL_STATE_HAS_IMU = True, GIMBAL_DELTA_ACK_ENABLE = False,
     GIMBAL_TFMINI_PUBLISH_ENABLE = False, GIMBAL_REFEREE_PUBLISH_ENABLE = True, GIMBAL_STATE_PACK_EXT = (\<lambda>_. [])\<rparr>"

record 'p gimbal_heap = "'p cam_heap" +
  hp_gimbal :: "addr \<Rightarrow> gimbal_channel"

record 'p gimbal_app = "'p cam_app" +
  ga_get_state :: "fn_ptr \<Rightarrow> user_ptr \<Rightarrow> 'p \<Rightarrow> gimbal_state option \<times> 'p"
  ga_on_delta :: "fn_ptr \<Rightarrow> gimbal_delta \<Rightarrow> user_ptr \<Rightarrow> 'p \<Rightarrow> 'p"
  ga_on_fire :: "fn_ptr \<Rightarrow> gimbal_fire_cmd \<Rightarrow> user_ptr \<Rightarrow> 'p \<Rightarrow> 'p"
  ga_on_chassis :: "fn_ptr \<Rightarrow> gimbal_chassis_cmd \<Rightarrow> user_ptr \<Rightarrow> 'p \<Rightarrow> 'p"
  ga_on_referee_query :: "fn_ptr \<Rightarrow> user_ptr \<Rightarrow> 'p \<Rightarrow> 'p"
  ga_aim_on :: "'p \<Rightarrow> bool"
  ga_apply_delta :: "i32 \<Rightarrow> i32 \<Rightarrow> u16 \<Rightarrow> u64 \<Rightarrow> 'p \<Rightarrow> 'p"

definition zero_gimbal :: gimbal_channel where
  "zero_gimbal = \<lparr>gm_bind = None, gm_mgr = None, gm_ch_id = 0,
     gm_src = \<lparr>so_get_state = None, so_user = 0, so_period_ms = 0\<rparr>,
     gm_hooks = \<lparr>gh_on_delta = None, gh_on_fire = None, gh_on_chassis = None, gh_on_referee_query = None, gh_user = 0\<rparr>,
     gm_last_pub_us = 0, gm_now_us = None, gm_time_user = 0\<rparr>"

definition zero_cmd :: gimbal_cmd where
  "zero_cmd = \<lparr>cm_delta_yaw_udeg = 0, cm_delta_pitch_udeg = 0, cm_status = 0, cm_ts_us = 0, cm_version = 0\<rparr>"

definition update_gimbal ::
  "addr \<Rightarrow> (gimbal_channel \<Rightarrow> gimbal_channel) \<Rightarrow> ('p, 'x) gimbal_heap_scheme \<Rightarrow> ('p, 'x) gimbal_heap_scheme" where
  "update_gimbal a f h = h\<lparr>hp_gimbal := (hp_gimbal h)(a := f (hp_gimbal h a))\<rparr>"

text \<open>A call of an application hook through a possibly null pointer.\<close>

definition call_hook :: "fn_ptr option \<Rightarrow> (fn_ptr \<Rightarrow> 'p \<Rightarrow> 'p) \<Rightarrow> ('p, 'x) comm_heap_scheme \<Rightarrow> ('p, 'x) comm_heap_scheme" where
  "call_hook f g h = (case f of None \<Rightarrow> h | Some p \<Rightarrow> on_ext (g p) h)"

section \<open>Commands from the host\<close>

definition read_delta :: "u8 list \<Rightarrow> gimbal_delta option" where
  "read_delta payload = do {
     yaw \<leftarrow> comm_read_i32_le payload 2;
     pitch \<leftarrow> comm_read_i32_le payload 6;
     status \<leftarrow> comm_read_u16_le payload 10;
     ts \<leftarrow> comm_read_u64_le payload 12;
     Some \<lparr>gd_delta_yaw_udeg = yaw, gd_delta_pitch_udeg = pitch, gd_status = status, gd_ts_us = ts\<rparr>
   }"

definition read_fire :: "u8 list \<Rightarrow> gimbal_fire_cmd option" where
  "read_fire payload = do {
     fire_on \<leftarrow> comm_read_i32_le payload 2;
     fire_mode \<leftarrow> comm_read_i32_le payload 6;
     burst_count \<leftarrow> comm_read_i32_le payload 10;
     status \<leftarrow> comm_read_u16_le payload 14;
     ts \<leftarrow> comm_read_u64_le payload 16;
     Some \<lparr>gf_fire_on = fire_on, gf_fire_mode = fire_mode, gf_burst_count = burst_count, gf_status = status, gf_ts_us = ts\<rparr>
   }"

definition read_chassis :: "u8 list \<Rightarrow> gimbal_chassis_cmd option" where
  "read_chassis payload = do {
     vx \<leftarrow> comm_read_i32_le payload 2;
     vy \<leftarrow> comm_read_i32_le payload 6;
     wz \<leftarrow> comm_read_i32_le payload 10;
     mode \<leftarrow> comm_read_i32_le payload 14;
     status \<leftarrow> comm_read_u16_le payload 18;
     ts \<leftarrow> comm_read_u64_le payload 20;
     Some \<lparr>gc_vx_mm_s = vx, gc_vy_mm_s = vy, gc_wz_mdeg_s = wz, gc_mode = mode, gc_status = status, gc_ts_us = ts\<rparr>
   }"

definition gimbal_on_rx ::
  "gimbal_build \<Rightarrow> ('p, 'y) gimbal_app_scheme \<Rightarrow> u8 list option \<Rightarrow> nat \<Rightarrow> user_ptr \<Rightarrow>
     ('p, 'x) gimbal_heap_scheme \<Rightarrow> ('p, 'x) gimbal_heap_scheme option" where
  "gimbal_on_rx B A payload len user h = (case payload of None \<Rightarrow> Some h | Some p \<Rightarrow>
     (if user = 0 \<or> len < 2 then Some h
      else do {
        sid \<leftarrow> comm_read_u16_le p 0;
        let k = gm_hooks (hp_gimbal h user);
        if sid = GIMBAL_SID_DELTA then
          (if len < 2 + 4 + 4 + 2 + 8 then Some h
           else do {
             d \<leftarrow> read_delta p;
             let h = (if ga_aim_on A (hp_ext h)
                      then call_hook (gh_on_delta k) (\<lambda>f. ga_on_delta A f d (gh_user k))
                             (on_ext (ga_apply_delta A (gd_delta_yaw_udeg d) (gd_delta_pitch_udeg d) (gd_status d) (gd_ts_us d)) h)
                      else h);
             if GIMBAL_DELTA_ACK_ENABLE B then do {
               ack \<leftarrow> comm_write_u16_le (stack_buffer 2) 0 GIMBAL_SID_DELTA;
               (_, h) \<leftarrow> ch_uproto_queue_notify (gm_bind (hp_gimbal h user)) (gm_ch_id (hp_gimbal h user))
                          GIMBAL_SID_DELTA 0 (Some ack) 2 h;
               Some h
             } else Some h
           })
        else if sid = GIMBAL_SID_FIRE then
          (if len < 2 + 4 + 4 + 4 + 2 + 8 then Some h
           else do { cmd \<leftarrow> read_fire p; Some (call_hook (gh_on_fire k) (\<lambda>f. ga_on_fire A f cmd (gh_user k)) h) })
        else if sid = GIMBAL_SID_CHASSIS then
          (if len < 2 + 4 + 4 + 4 + 4 + 2 + 8 then Some h
           else do { cmd \<leftarrow> read_chassis p; Some (call_hook (gh_on_chassis k) (\<lambda>f. ga_on_chassis A f cmd (gh_user k)) h) })
        else if sid = GIMBAL_SID_REFEREE_QUERY then
          Some (call_hook (gh_on_referee_query k) (\<lambda>f. ga_on_referee_query A f (gh_user k)) h)
        else Some h
      }))"

section \<open>Publication\<close>

definition gimbal_pack_state :: "gimbal_build \<Rightarrow> u8 list \<Rightarrow> u16 \<Rightarrow> gimbal_state \<Rightarrow> (u8 list \<times> nat) option" where
  "gimbal_pack_state B buf sid st = do {
     s \<leftarrow> put comm_write_u16_le 2 sid (buf, 0);
     s \<leftarrow> (if GIMBAL_STATE_HAS_ENCODERS B
           then do { s \<leftarrow> put comm_write_i32_le 4 (gs_enc_yaw st) s; put comm_write_i32_le 4 (gs_enc_pitch st) s }
           else Some s);
     s \<leftarrow> (if GIMBAL_STATE_HAS_IMU B
           then do {
             s \<leftarrow> put comm_write_i32_le 4 (gs_yaw_udeg st) s;
             s \<leftarrow> put comm_write_i32_le 4 (gs_pitch_udeg st) s;
             put comm_write_i32_le 4 (gs_roll_udeg st) s
           } else Some s);
     (buf, pos) \<leftarrow> put comm_write_u64_le 8 (gs_ts_us st) s;
     buf \<leftarrow> mem_write buf pos (GIMBAL_STATE_PACK_EXT B st);
     Some (buf, (pos + length (GIMBAL_STATE_PACK_EXT B st)) mod 0x10000)
   }"

text \<open>The state to publish: the caller's, or the one of the source, stamped with the clock if it has no time.\<close>

definition publish_source ::
  "('p, 'y) gimbal_app_scheme \<Rightarrow> gimbal_channel \<Rightarrow> gimbal_state option \<Rightarrow> ('p, 'x) gimbal_heap_scheme \<Rightarrow>
     gimbal_state option \<times> ('p, 'x) gimbal_heap_scheme" where
  "publish_source A c opt h = (case opt of Some st \<Rightarrow> (Some st, h) | None \<Rightarrow>
     (case so_get_state (gm_src c) of None \<Rightarrow> (None, h) | Some f \<Rightarrow>
       (let (r, e) = ga_get_state A f (so_user (gm_src c)) (hp_ext h); h = h\<lparr>hp_ext := e\<rparr>
        in case r of None \<Rightarrow> (None, h)
           | Some st \<Rightarrow>
               (if gs_ts_us st = 0 \<and> gm_now_us c \<noteq> None
                then let (t, h) = app_now_us A (gm_now_us c) (gm_time_user c) h in (Some (st\<lparr>gs_ts_us := t\<rparr>), h)
                else (Some st, h)))))"

definition gimbal_channel_publish ::
  "gimbal_build \<Rightarrow> ('p, 'y) gimbal_app_scheme \<Rightarrow> addr option \<Rightarrow> gimbal_state option \<Rightarrow>
     ('p, 'x) gimbal_heap_scheme \<Rightarrow> (bool \<times> ('p, 'x) gimbal_heap_scheme) option" where
  "gimbal_channel_publish B A gc opt h = (case gc of None \<Rightarrow> Some (False, h) | Some a \<Rightarrow>
     (case publish_source A (hp_gimbal h a) opt h of
        (None, h) \<Rightarrow> Some (False, h)
      | (Some st, h) \<Rightarrow> do {
          (buf, len) \<leftarrow> gimbal_pack_state B (stack_buffer (2 + 4 + 4 + 4 + 4 + 4 + 8)) GIMBAL_SID_STATE st;
          ch_uproto_queue_notify (gm_bind (hp_gimbal h a)) (gm_ch_id (hp_gimbal h a)) GIMBAL_SID_STATE 0
            (Some buf) (word_of_nat len) h
        }))"

definition gimbal_on_tick ::
  "gimbal_build \<Rightarrow> ('p, 'y) gimbal_app_scheme \<Rightarrow> user_ptr \<Rightarrow> ('p, 'x) gimbal_heap_scheme \<Rightarrow> ('p, 'x) gimbal_heap_scheme option" where
  "gimbal_on_tick B A user h =
     (if user = 0 then Some h
      else if so_get_state (gm_src (hp_gimbal h user)) = None \<or> so_period_ms (gm_src (hp_gimbal h user)) = 0 then Some h
      else do {
        let (now, h) = app_now_us A (gm_now_us (hp_gimbal h user)) (gm_time_user (hp_gimbal h user)) h;
        let c = hp_gimbal h user;
        if gm_last_pub_us c = 0 \<or> now - gm_last_pub_us c \<ge> ucast (so_period_ms (gm_src c)) * 1000 then do {
          (_, h) \<leftarrow> gimbal_channel_publish B A (Some user) None h;
          Some (update_gimbal user (\<lambda>c. c\<lparr>gm_last_pub_us := now\<rparr>) h)
        } else Some h
      })"

definition gimbal_channel_publish_tfmini ::
  "gimbal_build \<Rightarrow> addr option \<Rightarrow> gimbal_tfmini option \<Rightarrow> ('p, 'x) gimbal_heap_scheme \<Rightarrow>
     (bool \<times> ('p, 'x) gimbal_heap_scheme) option" where
  "gimbal_channel_publish_tfmini B gc data h =
     (if \<not> GIMBAL_TFMINI_PUBLISH_ENABLE B then Some (False, h)
      else case (gc, data) of
        (Some a, Some d) \<Rightarrow> do {
          buf \<leftarrow> comm_write_u16_le (stack_buffer (2 + 2 + 2 + 2 + 2 + 8)) 0 GIMBAL_SID_TFMINI;
          buf \<leftarrow> comm_write_u16_le buf 2 (gt_distance_cm d);
          buf \<leftarrow> comm_write_u16_le buf 4 (gt_strength d);
          buf \<leftarrow> comm_write_u16_le buf 6 (gt_temp_cdeg d);
          buf \<leftarrow> comm_write_u16_le buf 8 (gt_status d);
          buf \<leftarrow> comm_write_u64_le buf 10 (gt_ts_us d);
          ch_uproto_queue_notify (gm_bind (hp_gimbal h a)) (gm_ch_id (hp_gimbal h a)) GIMBAL_SID_TFMINI 0 (Some buf) 18 h
        }
      | _ \<Rightarrow> Some (False, h))"

definition gimbal_channel_publish_referee ::
  "gimbal_build \<Rightarrow> addr option \<Rightarrow> gimbal_referee option \<Rightarrow> ('p, 'x) gimbal_heap_scheme \<Rightarrow>
     (bool \<times> ('p, 'x) gimbal_heap_scheme) option" where
  "gimbal_channel_publish_referee B gc data h =
     (if \<not> GIMBAL_REFEREE_PUBLISH_ENABLE B then Some (False, h)
      else case (gc, data) of
        (Some a, Some d) \<Rightarrow> do {
          buf \<leftarrow> comm_write_u16_le (stack_buffer (2 + 4 + 4 + 4 + 4 + 2 + 8)) 0 GIMBAL_SID_REFEREE;
          buf \<leftarrow> comm_write_i32_le buf 2 (gr_enemy_team d);
          buf \<leftarrow> comm_write_i32_le buf 6 (gr_fire_allowed d);
          buf \<leftarrow> comm_write_i32_le buf 10 (gr_robot_id d);
          buf \<leftarrow> comm_write_i32_le buf 14 (gr_game_stage d);
          buf \<leftarrow> comm_write_u16_le buf 18 (gr_status d);
          buf \<leftarrow> comm_write_u64_le buf 20 (gr_ts_us d);
          ch_uproto_queue_notify (gm_bind (hp_gimbal h a)) (gm_ch_id (hp_gimbal h a)) GIMBAL_SID_REFEREE 0 (Some buf) 28 h
        }
      | _ \<Rightarrow> Some (False, h))"

section \<open>Initialisation\<close>

abbreviation fn_gimbal_on_rx :: fn_ptr where "fn_gimbal_on_rx \<equiv> 12"
abbreviation fn_gimbal_on_tick :: fn_ptr where "fn_gimbal_on_tick \<equiv> 13"

definition gimbal_channel_init ::
  "addr option \<Rightarrow> addr option \<Rightarrow> addr option \<Rightarrow> u8 \<Rightarrow> gimbal_source_ops option \<Rightarrow> gimbal_hooks option \<Rightarrow>
     fn_ptr option \<Rightarrow> user_ptr \<Rightarrow> u8 \<Rightarrow> ('p, 'x) gimbal_heap_scheme \<Rightarrow> ('p, 'x) gimbal_heap_scheme" where
  "gimbal_channel_init gc bnd mgr cid src hooks now_us time_user priority h = (case (gc, bnd, mgr, src) of
       (Some a, Some b, Some m, Some s) \<Rightarrow>
         (let c = zero_gimbal\<lparr>gm_bind := bnd, gm_mgr := mgr, gm_ch_id := cid, gm_src := s\<rparr>;
              c = (case hooks of Some k \<Rightarrow> c\<lparr>gm_hooks := k\<rparr> | None \<Rightarrow> c);
              c = c\<lparr>gm_now_us := now_us, gm_time_user := time_user\<rparr>
          in channel_attach a b m cid
               \<lparr>cc_mode = CH_MODE_PUSH, cc_reliable = 0, cc_expect_reply = 0, cc_priority = priority, cc_period_ms = 0\<rparr>
               \<lparr>ck_on_rx = Some fn_gimbal_on_rx, ck_on_tick = Some fn_gimbal_on_tick, ck_on_cfg_change = None\<rparr>
               (update_gimbal a (\<lambda>_. c) h))
     | _ \<Rightarrow> h)"

definition gimbal_channel_init_ex ::
  "addr option \<Rightarrow> addr option \<Rightarrow> addr option \<Rightarrow> gimbal_channel_cfg option \<Rightarrow> gimbal_source_ops option \<Rightarrow> gimbal_hooks option \<Rightarrow>
     fn_ptr option \<Rightarrow> user_ptr \<Rightarrow> ('p, 'x) gimbal_heap_scheme \<Rightarrow> ('p, 'x) gimbal_heap_scheme" where
  "gimbal_channel_init_ex gc bnd mgr cfg src hooks now_us time_user h = (case cfg of None \<Rightarrow> h | Some g \<Rightarrow>
     (let s = (case src of Some s \<Rightarrow> s | None \<Rightarrow> \<lparr>so_get_state = None, so_user = 0, so_period_ms = 0\<rparr>);
          s = (if gg_period_ms g \<noteq> 0 then s\<lparr>so_period_ms := gg_period_ms g\<rparr> else s)
      in gimbal_channel_init gc bnd mgr (gg_ch_id g) (Some s) hooks now_us time_user (gg_priority g) h))"

section \<open>The mailbox\<close>

definition gimbal_mailbox_set :: "gimbal_cmd option \<Rightarrow> gimbal_cmd \<Rightarrow> gimbal_cmd" where
  "gimbal_mailbox_set cmd latest = (case cmd of None \<Rightarrow> latest | Some c \<Rightarrow>
     latest\<lparr>cm_delta_yaw_udeg := cm_delta_yaw_udeg c, cm_delta_pitch_udeg := cm_delta_pitch_udeg c,
       cm_status := cm_status c, cm_ts_us := cm_ts_us c, cm_version := cm_version latest + 1\<rparr>)"

text \<open>The result, the caller's command and the caller's version after the call.\<close>

definition gimbal_mailbox_get ::
  "gimbal_cmd option \<Rightarrow> u32 option \<Rightarrow> gimbal_cmd \<Rightarrow> bool \<times> gimbal_cmd option \<times> u32 option" where
  "gimbal_mailbox_get out io_version latest = (case (out, io_version) of
       (Some o', Some v) \<Rightarrow>
         (if cm_version latest = v then (False, out, io_version)
          else (True, Some \<lparr>cm_delta_yaw_udeg = cm_delta_yaw_udeg latest, cm_delta_pitch_udeg = cm_delta_pitch_udeg latest,
                       cm_status = cm_status latest, cm_ts_us = cm_ts_us latest, cm_version = cm_version latest\<rparr>,
                Some (cm_version latest)))
     | _ \<Rightarrow> (False, out, io_version))"

section \<open>Wire images of the messages\<close>

definition delta_image :: "gimbal_delta \<Rightarrow> u8 list" where
  "delta_image d = le16 GIMBAL_SID_DELTA @ le32 (gd_delta_yaw_udeg d) @ le32 (gd_delta_pitch_udeg d) @
     le16 (gd_status d) @ le64 (gd_ts_us d)"

definition fire_image :: "gimbal_fire_cmd \<Rightarrow> u8 list" where
  "fire_image c = le16 GIMBAL_SID_FIRE @ le32 (gf_fire_on c) @ le32 (gf_fire_mode c) @ le32 (gf_burst_count c) @
     le16 (gf_status c) @ le64 (gf_ts_us c)"

definition chassis_image :: "gimbal_chassis_cmd \<Rightarrow> u8 list" where
  "chassis_image c = le16 GIMBAL_SID_CHASSIS @ le32 (gc_vx_mm_s c) @ le32 (gc_vy_mm_s c) @ le32 (gc_wz_mdeg_s c) @
     le32 (gc_mode c) @ le16 (gc_status c) @ le64 (gc_ts_us c)"

definition state_image :: "gimbal_build \<Rightarrow> gimbal_state \<Rightarrow> u8 list" where
  "state_image B st = le16 GIMBAL_SID_STATE @
     (if GIMBAL_STATE_HAS_ENCODERS B then le32 (gs_enc_yaw st) @ le32 (gs_enc_pitch st) else []) @
     (if GIMBAL_STATE_HAS_IMU B then le32 (gs_yaw_udeg st) @ le32 (gs_pitch_udeg st) @ le32 (gs_roll_udeg st) else []) @
     le64 (gs_ts_us st)"

definition tfmini_image :: "gimbal_tfmini \<Rightarrow> u8 list" where
  "tfmini_image d = le16 GIMBAL_SID_TFMINI @ le16 (gt_distance_cm d) @ le16 (gt_strength d) @ le16 (gt_temp_cdeg d) @
     le16 (gt_status d) @ le64 (gt_ts_us d)"

definition referee_image :: "gimbal_referee \<Rightarrow> u8 list" where
  "referee_image d = le16 GIMBAL_SID_REFEREE @ le32 (gr_enemy_team d) @ le32 (gr_fire_allowed d) @ le32 (gr_robot_id d) @
     le32 (gr_game_stage d) @ le16 (gr_status d) @ le64 (gr_ts_us d)"

lemma image_lengths [simp]:
  "length (delta_image d) = 20" "length (fire_image f) = 24" "length (chassis_image c) = 28"
  "length (tfmini_image t) = 18" "length (referee_image r) = 28"
  by (simp_all add: delta_image_def fire_image_def chassis_image_def tfmini_image_def referee_image_def)

lemma state_image_length: "length (state_image B st) \<le> 30"
  by (simp add: state_image_def)

lemmas field_reads = le_read_eqs comm_read_i32_le_def mem_read_def

lemma read_sid:
  "comm_read_u16_le (delta_image d @ rest) 0 = Some GIMBAL_SID_DELTA"
  "comm_read_u16_le (fire_image f @ rest) 0 = Some GIMBAL_SID_FIRE"
  "comm_read_u16_le (chassis_image c @ rest) 0 = Some GIMBAL_SID_CHASSIS"
  "comm_read_u16_le (le16 sid @ rest) 0 = Some sid"
  by (simp_all add: delta_image_def fire_image_def chassis_image_def field_reads)

lemma read_delta_image: "read_delta (delta_image d @ rest) = Some d"
  by (simp add: read_delta_def delta_image_def field_reads)

lemma read_fire_image: "read_fire (fire_image c @ rest) = Some c"
  by (simp add: read_fire_def fire_image_def field_reads)

lemma read_chassis_image: "read_chassis (chassis_image c @ rest) = Some c"
  by (simp add: read_chassis_def chassis_image_def field_reads)

lemma reads_defined:
  "20 \<le> length p \<Longrightarrow> \<exists>d. read_delta p = Some d"
  "24 \<le> length p \<Longrightarrow> \<exists>c. read_fire p = Some c"
  "28 \<le> length p \<Longrightarrow> \<exists>g. read_chassis p = Some g"
  "2 \<le> length p \<Longrightarrow> \<exists>sid. comm_read_u16_le p 0 = Some sid"
  by (simp_all add: read_delta_def read_fire_def read_chassis_def field_reads)

lemma gimbal_pack_state_eq:
  assumes "30 \<le> length buf" and "GIMBAL_STATE_PACK_EXT B st = []"
  shows "gimbal_pack_state B buf GIMBAL_SID_STATE st = Some (cursor buf (state_image B st))"
  using assms unfolding gimbal_pack_state_def state_image_def cursor_start
  by (simp add: put_cursors) (simp add: cursor_def mem_write_def)

lemma tfmini_buffer:
  "do {
     buf \<leftarrow> comm_write_u16_le (stack_buffer 18) 0 GIMBAL_SID_TFMINI;
     buf \<leftarrow> comm_write_u16_le buf 2 (gt_distance_cm d);
     buf \<leftarrow> comm_write_u16_le buf 4 (gt_strength d);
     buf \<leftarrow> comm_write_u16_le buf 6 (gt_temp_cdeg d);
     buf \<leftarrow> comm_write_u16_le buf 8 (gt_status d);
     buf \<leftarrow> comm_write_u64_le buf 10 (gt_ts_us d);
     k buf } = k (tfmini_image d)"
  by (simp add: le_write_eqs mem_write_def tfmini_image_def)

lemma referee_buffer:
  "do {
     buf \<leftarrow> comm_write_u16_le (stack_buffer 28) 0 GIMBAL_SID_REFEREE;
     buf \<leftarrow> comm_write_i32_le buf 2 (gr_enemy_team d);
     buf \<leftarrow> comm_write_i32_le buf 6 (gr_fire_allowed d);
     buf \<leftarrow> comm_write_i32_le buf 10 (gr_robot_id d);
     buf \<leftarrow> comm_write_i32_le buf 14 (gr_game_stage d);
     buf \<leftarrow> comm_write_u16_le buf 18 (gr_status d);
     buf \<leftarrow> comm_write_u64_le buf 20 (gr_ts_us d);
     k buf } = k (referee_image d)"
  by (simp add: le_write_eqs comm_write_i32_le_def mem_write_def referee_image_def)

section \<open>The operations are total\<close>

lemma update_gimbal_simps [simp]:
  "hp_gimbal (update_gimbal a f h) = (hp_gimbal h)(a := f (hp_gimbal h a))" "hp_cam (update_gimbal a f h) = hp_cam h"
  "hp_bind (update_gimbal a f h) = hp_bind h" "hp_mgr (update_gimbal a f h) = hp_mgr h"
  "hp_chan (update_gimbal a f h) = hp_chan h" "hp_ext (update_gimbal a f h) = hp_ext h"
  by (simp_all add: update_gimbal_def)

lemma wf_heap_update_gimbal [simp]: "wf_heap (\<lambda>_. True) (update_gimbal a f h) = wf_heap (\<lambda>_. True) h"
  by (simp add: wf_heap_def)

lemma same_more_gimbal: "comm_heap.more h' = comm_heap.more h \<Longrightarrow> hp_gimbal h' = hp_gimbal h"
  by (cases h; cases h') simp

lemma call_hook_keeps [simp]:
  "wf_heap I (call_hook f g h) = wf_heap I h" "hp_bind (call_hook f g h) = hp_bind h"
  "hp_mgr (call_hook f g h) = hp_mgr h" "hp_chan (call_hook f g h) = hp_chan h" "comm_heap.more (call_hook f g h) = comm_heap.more h"
  by (simp_all add: call_hook_def split: option.splits)

lemma call_hook_gimbal [simp]: "hp_gimbal (call_hook f g h) = hp_gimbal h"
  by (rule same_more_gimbal) simp

lemma ack_buffer_delta: "comm_write_u16_le (stack_buffer 2) 0 GIMBAL_SID_DELTA = Some (le16 GIMBAL_SID_DELTA)"
  by (simp add: le_write_eqs mem_write_def)

lemma gimbal_on_rx_total:
  assumes "wf_heap I h" and "len \<le> length p"
  shows "\<exists>h'. gimbal_on_rx B A (Some p) len user h = Some h' \<and> wf_heap I h'"
proof (cases "user = 0 \<or> len < 2")
  case True
  then show ?thesis using assms(1) by (auto simp: gimbal_on_rx_def)
next
  case False
  then obtain sid where sid: "comm_read_u16_le p 0 = Some sid" using reads_defined(4) [of p] assms(2) by auto
  have q: "\<exists>h'. do { (_, h) \<leftarrow> ch_uproto_queue_notify b cid GIMBAL_SID_DELTA 0 (Some (le16 GIMBAL_SID_DELTA)) 2 g; Some h } = Some h' \<and>
      wf_heap I h'" if "wf_heap I g" for b cid g
    using queue_notify_ok [OF that, of "Some (le16 GIMBAL_SID_DELTA)" 2 b cid GIMBAL_SID_DELTA 0] by auto
  consider "sid = GIMBAL_SID_DELTA" | "sid = GIMBAL_SID_FIRE" | "sid = GIMBAL_SID_CHASSIS"
    | "sid \<notin> {GIMBAL_SID_DELTA, GIMBAL_SID_FIRE, GIMBAL_SID_CHASSIS}" by blast
  then show ?thesis
  proof cases
    case 1
    show ?thesis
    proof (cases "len < 20")
      case False
      then obtain d where "read_delta p = Some d" using reads_defined(1) [of p] assms(2) by auto
      then show ?thesis
        using \<open>\<not> (user = 0 \<or> len < 2)\<close> sid 1 False assms(1)
        by (simp add: gimbal_on_rx_def Let_def ack_buffer_delta q)
    qed (use \<open>\<not> (user = 0 \<or> len < 2)\<close> sid 1 assms(1) in \<open>simp add: gimbal_on_rx_def\<close>)
  next
    case 2
    then show ?thesis
      using \<open>\<not> (user = 0 \<or> len < 2)\<close> sid assms reads_defined(2) [of p] by (auto simp: gimbal_on_rx_def gimbal_sids Let_def)
  next
    case 3
    then show ?thesis
      using \<open>\<not> (user = 0 \<or> len < 2)\<close> sid assms reads_defined(3) [of p] by (auto simp: gimbal_on_rx_def gimbal_sids Let_def)
  next
    case 4
    then show ?thesis
      using \<open>\<not> (user = 0 \<or> len < 2)\<close> sid assms(1) by (auto simp: gimbal_on_rx_def Let_def)
  qed
qed

lemma publish_source_keeps:
  assumes "publish_source A c opt h = (r, h')"
  shows "comm_heap.more h' = comm_heap.more h" "hp_bind h' = hp_bind h" "hp_mgr h' = hp_mgr h" "hp_chan h' = hp_chan h"
    "wf_heap I h' = wf_heap I h"
  using assms
  by (auto simp: publish_source_def app_now_us_def Let_def split: option.splits prod.splits if_splits)

lemma publish_total:
  assumes "wf_heap I h" and ext: "\<And>st. GIMBAL_STATE_PACK_EXT B st = []"
  shows "\<exists>r h'. gimbal_channel_publish B A gc opt h = Some (r, h') \<and> wf_heap I h' \<and> comm_heap.more h' = comm_heap.more h"
proof (cases gc)
  case None
  then show ?thesis using assms(1) by (auto simp: gimbal_channel_publish_def)
next
  case (Some a)
  obtain r h1 where src: "publish_source A (hp_gimbal h a) opt h = (r, h1)" by fastforce
  have wf1: "wf_heap I h1" using publish_source_keeps(5) [OF src] assms(1) by simp
  show ?thesis
  proof (cases r)
    case None
    then show ?thesis using src Some wf1 publish_source_keeps(1) [OF src] by (auto simp: gimbal_channel_publish_def)
  next
    case r: (Some st)
    let ?img = "state_image B st"
    let ?buf = "?img @ drop (length ?img) (stack_buffer 30)"
    have len: "unat (word_of_nat (length ?img) :: u16) \<le> length ?buf"
      using state_image_length [of B st] by (simp add: unat_of_nat)
    obtain x h' where q: "ch_uproto_queue_notify (gm_bind (hp_gimbal h1 a)) (gm_ch_id (hp_gimbal h1 a)) GIMBAL_SID_STATE 0
        (Some ?buf) (word_of_nat (length ?img)) h1 = Some (x, h')" "wf_heap I h'"
      using queue_notify_ok [OF wf1, of "Some ?buf" "word_of_nat (length ?img)" "gm_bind (hp_gimbal h1 a)" "gm_ch_id (hp_gimbal h1 a)"
          GIMBAL_SID_STATE 0] len by (simp only: option.inject) blast
    then show ?thesis
      using src Some r ext queue_notify_more(1) [OF q(1)] publish_source_keeps(1) [OF src]
      by (simp add: gimbal_channel_publish_def gimbal_pack_state_eq cursor_def)
  qed
qed

lemma publish_queues:
  assumes wf: "wf_heap I h" and ext: "\<And>st. GIMBAL_STATE_PACK_EXT B st = []"
    and src: "publish_source A (hp_gimbal h a) opt h = (Some st, h1)"
    and b: "gm_bind (hp_gimbal h a) = Some b" "queue_slot h b (gm_ch_id (hp_gimbal h a)) i"
  shows "\<exists>h'. gimbal_channel_publish B A (Some a) opt h = Some (True, h') \<and>
    holds_notify (bd_pending (hp_bind h' b) ! i) (gm_ch_id (hp_gimbal h a)) GIMBAL_SID_STATE (state_image B st)"
proof -
  let ?img = "state_image B st"
  have same: "hp_gimbal h1 = hp_gimbal h" by (rule same_more_gimbal [OF publish_source_keeps(1) [OF src]])
  have slot: "queue_slot h1 b (gm_ch_id (hp_gimbal h a)) i"
    using b(2) queue_slot_cong [OF publish_source_keeps(2-4) [OF src]] by simp
  have wf1: "wf_heap I h1" using publish_source_keeps(5) [OF src] wf by simp
  have "length ?img \<le> 128" using state_image_length [of B st] by simp
  from queue_holds [OF wf1 slot this, of GIMBAL_SID_STATE 0 "drop (length ?img) (stack_buffer 30)"]
  show ?thesis using src ext b(1) same by (auto simp: gimbal_channel_publish_def gimbal_pack_state_eq cursor_def)
qed

lemma gimbal_tick_cases:
  assumes "wf_heap I h" and ext: "\<And>st. GIMBAL_STATE_PACK_EXT B st = []" and "user \<noteq> 0"
    and src: "so_get_state (gm_src (hp_gimbal h user)) \<noteq> None" "so_period_ms (gm_src (hp_gimbal h user)) \<noteq> 0"
    and now: "app_now_us A (gm_now_us (hp_gimbal h user)) (gm_time_user (hp_gimbal h user)) h = (now, h0)"
  defines "c \<equiv> hp_gimbal h user"
  defines "due \<equiv> gm_last_pub_us c = 0 \<or> now - gm_last_pub_us c \<ge> ucast (so_period_ms (gm_src c)) * 1000"
  shows "due \<Longrightarrow> \<exists>r h1. gimbal_channel_publish B A (Some user) None h0 = Some (r, h1) \<and> wf_heap I h1 \<and> hp_gimbal h1 = hp_gimbal h \<and>
      gimbal_on_tick B A user h = Some (update_gimbal user (\<lambda>c. c\<lparr>gm_last_pub_us := now\<rparr>) h1)"
    and "\<not> due \<Longrightarrow> gimbal_on_tick B A user h = Some h0"
proof -
  have wf0: "wf_heap I h0" using app_now_us_wf [of I A "gm_now_us (hp_gimbal h user)" "gm_time_user (hp_gimbal h user)" h] now assms(1) by simp
  have same: "hp_gimbal h0 = hp_gimbal h" by (rule same_more_gimbal [OF app_now_us_keeps(4) [OF now]])
  have eq: "gimbal_on_tick B A user h = (if due then do {
      (_, h) \<leftarrow> gimbal_channel_publish B A (Some user) None h0;
      Some (update_gimbal user (\<lambda>c. c\<lparr>gm_last_pub_us := now\<rparr>) h) } else Some h0)"
    using assms(3) src now same by (auto simp: gimbal_on_tick_def Let_def due_def c_def)
  obtain r h1 where "gimbal_channel_publish B A (Some user) None h0 = Some (r, h1)" "wf_heap I h1" "comm_heap.more h1 = comm_heap.more h0"
    using publish_total [OF wf0 ext, of A "Some user" None] by auto
  moreover from this(3) same have "hp_gimbal h1 = hp_gimbal h" using same_more_gimbal [of h1 h0] by simp
  ultimately show "due \<Longrightarrow> \<exists>r h1. gimbal_channel_publish B A (Some user) None h0 = Some (r, h1) \<and> wf_heap I h1 \<and> hp_gimbal h1 = hp_gimbal h \<and>
      gimbal_on_tick B A user h = Some (update_gimbal user (\<lambda>c. c\<lparr>gm_last_pub_us := now\<rparr>) h1)"
    and "\<not> due \<Longrightarrow> gimbal_on_tick B A user h = Some h0"
    using eq by auto
qed

section \<open>A gimbal on the sample link\<close>

definition pipe_gimbal_app :: "pipe gimbal_app" where
  "pipe_gimbal_app = \<lparr>ca_now_us = (\<lambda>_ _ e. (ucast (pi_clock e), e)), ca_on_event = (\<lambda>_ _ _ _ _ e. e), ca_on_reset = (\<lambda>_ _ _ e. e),
     ga_get_state = (\<lambda>_ _ e. (Some \<lparr>gs_enc_yaw = 1, gs_enc_pitch = 2, gs_yaw_udeg = 3, gs_pitch_udeg = 4, gs_roll_udeg = 5, gs_ts_us = 0\<rparr>, e)),
     ga_on_delta = (\<lambda>_ d _ e. e\<lparr>pi_messages := pi_messages e @ [(gd_status d, delta_image d)]\<rparr>),
     ga_on_fire = (\<lambda>_ c _ e. e\<lparr>pi_messages := pi_messages e @ [(gf_status c, fire_image c)]\<rparr>),
     ga_on_chassis = (\<lambda>_ c _ e. e\<lparr>pi_messages := pi_messages e @ [(gc_status c, chassis_image c)]\<rparr>),
     ga_on_referee_query = (\<lambda>_ _ e. e\<lparr>pi_messages := pi_messages e @ [(0, [])]\<rparr>),
     ga_aim_on = (\<lambda>e. pi_clock e \<noteq> 0), ga_apply_delta = (\<lambda>_ _ _ _ e. e)\<rparr>"

definition empty_gimbal_heap :: "'p \<Rightarrow> 'p gimbal_heap" where
  "empty_gimbal_heap e = \<lparr>hp_chan = hp_chan (empty_heap e), hp_mgr = hp_mgr (empty_heap e), hp_bind = hp_bind (empty_heap e),
     hp_ext = e, hp_cam = (\<lambda>_. zero_camera), hp_gimbal = (\<lambda>_. zero_gimbal)\<rparr>"

definition gimbal_link :: "pipe gimbal_heap" where
  "gimbal_link = gimbal_channel_init_ex (Some 40) (Some 20) (Some 10)
     (Some \<lparr>gg_ch_id = GIMBAL_CH_ID, gg_priority = GIMBAL_PRIORITY, gg_period_ms = GIMBAL_PUB_PERIOD_MS\<rparr>)
     (Some \<lparr>so_get_state = Some 6, so_user = 0, so_period_ms = 0\<rparr>)
     (Some \<lparr>gh_on_delta = Some 7, gh_on_fire = Some 8, gh_on_chassis = Some 9, gh_on_referee_query = None, gh_user = 0\<rparr>) (Some 5) 0
     (ch_uproto_bind_init (Some 20) (Some 1) 0x35 (Some 10) (empty_gimbal_heap pipe0))"

lemmas gimbal_link_defs = gimbal_link_def gimbal_channel_init_ex_def gimbal_channel_init_def channel_attach_def
  ch_uproto_bind_init_def channel_init_def channel_bind_transport_def chmgr_register_def empty_gimbal_heap_def empty_heap_def
  zero_manager_def zero_channel_def zero_gimbal_def update_gimbal_def Let_def

lemma gimbal_link_wf: "wf_heap (\<lambda>_. True) gimbal_link"
proof -
  have "wf_heap (\<lambda>_. True) (empty_gimbal_heap pipe0)"
    by (simp add: empty_gimbal_heap_def empty_heap_def wf_heap_def zero_manager_wf wf_bind_def list_all_length zero_pending_wf)
  then show ?thesis
    by (simp add: gimbal_link_def gimbal_channel_init_ex_def gimbal_channel_init_def Let_def attach_wf bind_init_wf)
qed

lemma gimbal_link_gimbal:
  "gm_bind (hp_gimbal gimbal_link 40) = Some 20" "gm_ch_id (hp_gimbal gimbal_link 40) = GIMBAL_CH_ID"
  "queue_slot gimbal_link 20 GIMBAL_CH_ID 0" "so_get_state (gm_src (hp_gimbal gimbal_link 40)) = Some 6"
  "so_period_ms (gm_src (hp_gimbal gimbal_link 40)) = GIMBAL_PUB_PERIOD_MS" "gm_now_us (hp_gimbal gimbal_link 40) = Some 5"
  by (simp_all add: gimbal_link_defs queue_slot_def slot_has_id_def upt_conv_Cons)

section \<open>Properties of the gimbal channel\<close>

text \<open>
  Commands arrive as sent: the wire image of a fire, chassis or aim command, with anything behind it, makes the
  channel call exactly the hook of that command once, with exactly its fields; an aim command also goes to the aim controller.
\<close>

theorem gimbal_commands_dispatch:
  assumes "a \<noteq> 0" and "ga_aim_on A (hp_ext h)" and "\<not> GIMBAL_DELTA_ACK_ENABLE B"
  defines "k \<equiv> gm_hooks (hp_gimbal h a)"
  shows "gimbal_on_rx B A (Some (fire_image f @ rest)) (24 + length rest) a h =
      Some (call_hook (gh_on_fire k) (\<lambda>p. ga_on_fire A p f (gh_user k)) h) \<and>
    gimbal_on_rx B A (Some (chassis_image c @ rest)) (28 + length rest) a h =
      Some (call_hook (gh_on_chassis k) (\<lambda>p. ga_on_chassis A p c (gh_user k)) h) \<and>
    gimbal_on_rx B A (Some (delta_image d @ rest)) (20 + length rest) a h =
      Some (call_hook (gh_on_delta k) (\<lambda>p. ga_on_delta A p d (gh_user k))
        (on_ext (ga_apply_delta A (gd_delta_yaw_udeg d) (gd_delta_pitch_udeg d) (gd_status d) (gd_ts_us d)) h))"
  using assms by (simp add: gimbal_on_rx_def read_sid read_fire_image read_chassis_image read_delta_image Let_def)
    (simp add: gimbal_sids)

definition sample_fire :: gimbal_fire_cmd where
  "sample_fire = \<lparr>gf_fire_on = 1, gf_fire_mode = 2, gf_burst_count = 3, gf_status = 0, gf_ts_us = 99\<rparr>"

theorem gimbal_commands_dispatch_witness:
  "\<exists>h'. gimbal_on_rx gimbal_config pipe_gimbal_app (Some (fire_image sample_fire)) 24 40 (on_ext (pi_clock_update (\<lambda>_. 1)) gimbal_link) = Some h' \<and>
    pi_messages (hp_ext h') = [(0, fire_image sample_fire)]"
proof -
  let ?h = "on_ext (pi_clock_update (\<lambda>_. 1)) gimbal_link"
  have "gm_hooks (hp_gimbal ?h 40) = \<lparr>gh_on_delta = Some 7, gh_on_fire = Some 8, gh_on_chassis = Some 9, gh_on_referee_query = None, gh_user = 0\<rparr>"
    "pi_messages (hp_ext ?h) = []"
    by (simp_all add: gimbal_link_defs pipe0_def)
  then show ?thesis
    using gimbal_commands_dispatch [of 40 pipe_gimbal_app ?h gimbal_config sample_fire "[]"]
    by (auto simp: pipe_gimbal_app_def gimbal_config_def call_hook_def sample_fire_def)
qed

text \<open>
  The aim gate: while auto-aim is off, no message whatever that names the aim service reaches the aim
  controller or the application; at most an acknowledgement is queued.
\<close>

theorem gimbal_delta_gated:
  assumes "wf_heap I h" and "len \<le> length p" and "\<not> ga_aim_on A (hp_ext h)" and "comm_read_u16_le p 0 = Some GIMBAL_SID_DELTA"
  shows "\<exists>h'. gimbal_on_rx B A (Some p) len user h = Some h' \<and> hp_ext h' = hp_ext h \<and>
    (\<not> GIMBAL_DELTA_ACK_ENABLE B \<longrightarrow> h' = h)"
proof (cases "user = 0 \<or> len < 20")
  case True
  then show ?thesis using assms by (auto simp: gimbal_on_rx_def)
next
  case False
  then obtain d where d: "read_delta p = Some d" using reads_defined(1) [of p] assms(2) by auto
  obtain r h' where q: "ch_uproto_queue_notify (gm_bind (hp_gimbal h user)) (gm_ch_id (hp_gimbal h user)) GIMBAL_SID_DELTA 0
      (Some (le16 GIMBAL_SID_DELTA)) 2 h = Some (r, h')"
    using queue_notify_ok [OF assms(1), of "Some (le16 GIMBAL_SID_DELTA)" 2] by fastforce
  show ?thesis
    using False d q assms(3,4) queue_notify_more(4) [OF q] by (simp add: gimbal_on_rx_def ack_buffer_delta Let_def)
qed

definition sample_delta :: gimbal_delta where
  "sample_delta = \<lparr>gd_delta_yaw_udeg = 7, gd_delta_pitch_udeg = -7, gd_status = 1, gd_ts_us = 99\<rparr>"

theorem gimbal_delta_gated_witness:
  "gimbal_on_rx gimbal_config pipe_gimbal_app (Some (delta_image sample_delta)) 20 40 gimbal_link = Some gimbal_link"
proof -
  have "\<not> ga_aim_on pipe_gimbal_app (hp_ext gimbal_link)" by (simp add: gimbal_link_defs pipe_gimbal_app_def pipe0_def)
  then show ?thesis
    using gimbal_delta_gated [OF gimbal_link_wf, of 20 "delta_image sample_delta" pipe_gimbal_app gimbal_config 40]
      read_sid(1) [of sample_delta "[]"] by (auto simp: gimbal_config_def)
qed

text \<open>
  Publication: when the caller or the state source gives a state, publishing queues its wire image in the slot
  of the channel; a state of the source without a time is stamped with the clock of the channel.
\<close>

theorem gimbal_publish_queues_state:
  assumes "wf_heap I h" and "\<forall>st. GIMBAL_STATE_PACK_EXT B st = []"
    and "gm_bind (hp_gimbal h a) = Some b" and "queue_slot h b (gm_ch_id (hp_gimbal h a)) i"
    and "so_get_state (gm_src (hp_gimbal h a)) = Some f"
    and "ga_get_state A f (so_user (gm_src (hp_gimbal h a))) (hp_ext h) = (Some st, e)"
  shows "\<exists>h' st'. gimbal_channel_publish B A (Some a) None h = Some (True, h') \<and>
    holds_notify (bd_pending (hp_bind h' b) ! i) (gm_ch_id (hp_gimbal h a)) GIMBAL_SID_STATE (state_image B st') \<and>
    st' = (if gs_ts_us st = 0 \<and> gm_now_us (hp_gimbal h a) \<noteq> None
           then st\<lparr>gs_ts_us := fst (app_now_us A (gm_now_us (hp_gimbal h a)) (gm_time_user (hp_gimbal h a)) (h\<lparr>hp_ext := e\<rparr>))\<rparr>
           else st)"
proof -
  obtain t h2 where now: "app_now_us A (gm_now_us (hp_gimbal h a)) (gm_time_user (hp_gimbal h a)) (h\<lparr>hp_ext := e\<rparr>) = (t, h2)"
    by fastforce
  let ?st = "if gs_ts_us st = 0 \<and> gm_now_us (hp_gimbal h a) \<noteq> None then st\<lparr>gs_ts_us := t\<rparr> else st"
  have "\<exists>h1. publish_source A (hp_gimbal h a) None h = (Some ?st, h1)"
    using assms(5,6) now by (auto simp: publish_source_def Let_def)
  then obtain h1 where "publish_source A (hp_gimbal h a) None h = (Some ?st, h1)" ..
  from publish_queues [OF assms(1) _ this assms(3,4), of B] assms(2) show ?thesis by (auto simp: now)
qed

theorem gimbal_publish_queues_state_witness:
  "\<exists>h'. gimbal_channel_publish gimbal_config pipe_gimbal_app (Some 40) None gimbal_link = Some (True, h') \<and>
    pd_sid (bd_pending (hp_bind h' 20) ! 0) = GIMBAL_SID_STATE"
proof -
  have "\<forall>st. GIMBAL_STATE_PACK_EXT gimbal_config st = []" by (simp add: gimbal_config_def)
  from gimbal_publish_queues_state [OF gimbal_link_wf this gimbal_link_gimbal(1), of 0 6 pipe_gimbal_app]
  show ?thesis using gimbal_link_gimbal by (auto simp: holds_notify_def pipe_gimbal_app_def)
qed

text \<open>
  The state buffer has room for the five fields only: a build that enables both field groups and uses the
  documented extension macro to append even one byte writes past the end of the buffer on the stack.
\<close>

theorem gimbal_pack_ext_overruns:
  assumes "GIMBAL_STATE_HAS_ENCODERS B" and "GIMBAL_STATE_HAS_IMU B" and "GIMBAL_STATE_PACK_EXT B st \<noteq> []"
  shows "gimbal_channel_publish B A (Some a) (Some st) h = None"
proof -
  have "gimbal_pack_state B (stack_buffer 30) GIMBAL_SID_STATE st = None"
    using assms unfolding gimbal_pack_state_def cursor_start
    by (simp add: put_cursors) (simp add: cursor_def mem_write_def)
  then show ?thesis by (simp add: gimbal_channel_publish_def publish_source_def)
qed

theorem gimbal_pack_ext_overruns_witness:
  "gimbal_channel_publish (gimbal_config\<lparr>GIMBAL_STATE_PACK_EXT := (\<lambda>_. le32 25)\<rparr>) pipe_gimbal_app (Some 40)
     (Some \<lparr>gs_enc_yaw = 1, gs_enc_pitch = 2, gs_yaw_udeg = 3, gs_pitch_udeg = 4, gs_roll_udeg = 5, gs_ts_us = 6\<rparr>) gimbal_link = None"
  by (rule gimbal_pack_ext_overruns) (simp_all add: gimbal_config_def le_bytes_numeral)

text \<open>
  The publication period: a tick of a channel with a source and a period always returns; it publishes (moves the
  time of the last publication) only if nothing was published yet or the period has passed since, and then
  it does; otherwise the channel object is unchanged.
\<close>

theorem gimbal_tick_period:
  assumes "wf_heap I h" and "\<forall>st. GIMBAL_STATE_PACK_EXT B st = []" and "a \<noteq> 0"
    and "so_get_state (gm_src (hp_gimbal h a)) \<noteq> None" and "so_period_ms (gm_src (hp_gimbal h a)) \<noteq> 0"
  shows "\<exists>h'. gimbal_on_tick B A a h = Some h' \<and>
    (let now = fst (app_now_us A (gm_now_us (hp_gimbal h a)) (gm_time_user (hp_gimbal h a)) h);
         last = gm_last_pub_us (hp_gimbal h a); period_us = ucast (so_period_ms (gm_src (hp_gimbal h a))) * 1000
     in if last = 0 \<or> period_us \<le> now - last
        then hp_gimbal h' = (hp_gimbal h)(a := (hp_gimbal h a)\<lparr>gm_last_pub_us := now\<rparr>)
        else hp_gimbal h' = hp_gimbal h \<and> hp_bind h' = hp_bind h)"
proof -
  obtain now h0 where now: "app_now_us A (gm_now_us (hp_gimbal h a)) (gm_time_user (hp_gimbal h a)) h = (now, h0)" by fastforce
  note c = gimbal_tick_cases [OF assms(1) assms(2) [rule_format] assms(3-5) now]
  have h0: "hp_gimbal h0 = hp_gimbal h" "hp_bind h0 = hp_bind h"
    using same_more_gimbal [OF app_now_us_keeps(4) [OF now]] app_now_us_keeps(1) [OF now] by simp_all
  show ?thesis
  proof (cases "gm_last_pub_us (hp_gimbal h a) = 0 \<or> now - gm_last_pub_us (hp_gimbal h a) \<ge> ucast (so_period_ms (gm_src (hp_gimbal h a))) * 1000")
    case True
    from c(1) [OF this] obtain r h1 where "hp_gimbal h1 = hp_gimbal h"
      "gimbal_on_tick B A a h = Some (update_gimbal a (\<lambda>c. c\<lparr>gm_last_pub_us := now\<rparr>) h1)" by blast
    with True show ?thesis by (simp add: now Let_def)
  next
    case False
    with c(2) [OF this] h0 show ?thesis by (simp add: now Let_def)
  qed
qed

theorem gimbal_tick_period_witness:
  "\<exists>h'. gimbal_on_tick gimbal_config pipe_gimbal_app 40 gimbal_link = Some h'"
  using gimbal_tick_period [OF gimbal_link_wf, of gimbal_config 40 pipe_gimbal_app] gimbal_link_gimbal
  by (auto simp: gimbal_config_def)

text \<open>
  Reports: with reporting enabled, a referee report (and a range report) puts its wire image into the slot of the channel;
  with reporting disabled the call fails and changes nothing.
\<close>

theorem gimbal_reports_queue:
  assumes "wf_heap I h" and "gm_bind (hp_gimbal h a) = Some b" and "queue_slot h b (gm_ch_id (hp_gimbal h a)) i"
  shows "(if GIMBAL_REFEREE_PUBLISH_ENABLE B
      then \<exists>h'. gimbal_channel_publish_referee B (Some a) (Some r) h = Some (True, h') \<and>
        holds_notify (bd_pending (hp_bind h' b) ! i) (gm_ch_id (hp_gimbal h a)) GIMBAL_SID_REFEREE (referee_image r)
      else gimbal_channel_publish_referee B (Some a) (Some r) h = Some (False, h)) \<and>
    (if GIMBAL_TFMINI_PUBLISH_ENABLE B
      then \<exists>h'. gimbal_channel_publish_tfmini B (Some a) (Some t) h = Some (True, h') \<and>
        holds_notify (bd_pending (hp_bind h' b) ! i) (gm_ch_id (hp_gimbal h a)) GIMBAL_SID_TFMINI (tfmini_image t)
      else gimbal_channel_publish_tfmini B (Some a) (Some t) h = Some (False, h))"
  using queue_holds [OF assms(1,3), of "referee_image r" GIMBAL_SID_REFEREE 0 "[]"]
    queue_holds [OF assms(1,3), of "tfmini_image t" GIMBAL_SID_TFMINI 0 "[]"] assms(2)
  by (simp add: gimbal_channel_publish_referee_def gimbal_channel_publish_tfmini_def referee_buffer tfmini_buffer) blast

theorem gimbal_reports_queue_witness:
  "\<exists>h'. gimbal_channel_publish_referee gimbal_config (Some 40)
      (Some \<lparr>gr_enemy_team = 1, gr_fire_allowed = 1, gr_robot_id = 3, gr_game_stage = 4, gr_status = 1, gr_ts_us = 5\<rparr>) gimbal_link = Some (True, h') \<and>
    pd_sid (bd_pending (hp_bind h' 20) ! 0) = GIMBAL_SID_REFEREE"
  using gimbal_reports_queue [OF gimbal_link_wf gimbal_link_gimbal(1), of 0 gimbal_config
      "\<lparr>gr_enemy_team = 1, gr_fire_allowed = 1, gr_robot_id = 3, gr_game_stage = 4, gr_status = 1, gr_ts_us = 5\<rparr>"
      "\<lparr>gt_distance_cm = 0, gt_strength = 0, gt_temp_cdeg = 0, gt_status = 0, gt_ts_us = 0\<rparr>"] gimbal_link_gimbal(2,3)
  by (auto simp: gimbal_config_def holds_notify_def)

end
