(* ===== verification/Gimbal_Mailbox.thy ===== *)
theory Gimbal_Mailbox
  imports Gimbal_Channel
begin

text \<open>
  The mailbox of \<^verbatim>\<open>gimbal_channel.c\<close> under preemption. The writer stores the four fields of the shared command and
  then increments its version; the reader reads the version and then copies the fields. One step of the
  machine is one access to a field of the shared object, so a writer may run between any two accesses of
  a reader and the other way round. Run without interruption the two programs are the sequential functions
  \<open>gimbal_mailbox_set\<close> and \<open>gimbal_mailbox_get\<close>.
\<close>

section \<open>The machine\<close>

text \<open>The next access of the writer, with the command it stores, and of the reader, with the version it has read.\<close>

datatype writer_pc = W_idle | W_yaw gimbal_cmd | W_pitch gimbal_cmd | W_status gimbal_cmd | W_ts gimbal_cmd | W_version gimbal_cmd

datatype reader_pc = R_idle | R_yaw u32 | R_pitch u32 | R_status u32 | R_ts u32 | R_done u32

record mbox =
  mb_latest :: gimbal_cmd
  mb_w :: writer_pc
  mb_out :: gimbal_cmd
  mb_io :: u32
  mb_r :: reader_pc
  mb_writes :: "gimbal_cmd list"

text \<open>\<open>mb_writes\<close> lists the commands whose write is complete; the program has no such variable.\<close>

definition writer_step :: "mbox \<Rightarrow> mbox" where
  "writer_step s = (case mb_w s of
       W_idle \<Rightarrow> s
     | W_yaw c \<Rightarrow> s\<lparr>mb_latest := (mb_latest s)\<lparr>cm_delta_yaw_udeg := cm_delta_yaw_udeg c\<rparr>, mb_w := W_pitch c\<rparr>
     | W_pitch c \<Rightarrow> s\<lparr>mb_latest := (mb_latest s)\<lparr>cm_delta_pitch_udeg := cm_delta_pitch_udeg c\<rparr>, mb_w := W_status c\<rparr>
     | W_status c \<Rightarrow> s\<lparr>mb_latest := (mb_latest s)\<lparr>cm_status := cm_status c\<rparr>, mb_w := W_ts c\<rparr>
     | W_ts c \<Rightarrow> s\<lparr>mb_latest := (mb_latest s)\<lparr>cm_ts_us := cm_ts_us c\<rparr>, mb_w := W_version c\<rparr>
     | W_version c \<Rightarrow> s\<lparr>mb_latest := (mb_latest s)\<lparr>cm_version := cm_version (mb_latest s) + 1\<rparr>, mb_w := W_idle,
                      mb_writes := mb_writes s @ [c]\<rparr>)"

text \<open>A call of the reader reads the version; it returns at once when the version is the one it has.\<close>

definition reader_call :: "mbox \<Rightarrow> mbox" where
  "reader_call s = (if cm_version (mb_latest s) = mb_io s then s else s\<lparr>mb_r := R_yaw (cm_version (mb_latest s))\<rparr>)"

definition reader_step :: "mbox \<Rightarrow> mbox" where
  "reader_step s = (case mb_r s of
       R_idle \<Rightarrow> s
     | R_yaw v \<Rightarrow> s\<lparr>mb_out := (mb_out s)\<lparr>cm_delta_yaw_udeg := cm_delta_yaw_udeg (mb_latest s)\<rparr>, mb_r := R_pitch v\<rparr>
     | R_pitch v \<Rightarrow> s\<lparr>mb_out := (mb_out s)\<lparr>cm_delta_pitch_udeg := cm_delta_pitch_udeg (mb_latest s)\<rparr>, mb_r := R_status v\<rparr>
     | R_status v \<Rightarrow> s\<lparr>mb_out := (mb_out s)\<lparr>cm_status := cm_status (mb_latest s)\<rparr>, mb_r := R_ts v\<rparr>
     | R_ts v \<Rightarrow> s\<lparr>mb_out := (mb_out s)\<lparr>cm_ts_us := cm_ts_us (mb_latest s)\<rparr>, mb_r := R_done v\<rparr>
     | R_done v \<Rightarrow> s\<lparr>mb_out := (mb_out s)\<lparr>cm_version := v\<rparr>, mb_io := v, mb_r := R_idle\<rparr>)"

inductive mb_step :: "mbox \<Rightarrow> mbox \<Rightarrow> bool" where
  set_call: "mb_w s = W_idle \<Longrightarrow> mb_step s (s\<lparr>mb_w := W_yaw c\<rparr>)"
| store: "mb_w s \<noteq> W_idle \<Longrightarrow> mb_step s (writer_step s)"
| get_call: "mb_r s = R_idle \<Longrightarrow> mb_step s (reader_call s)"
| load: "mb_r s \<noteq> R_idle \<Longrightarrow> mb_step s (reader_step s)"

inductive_cases mb_stepE: "mb_step s s'"

definition mb_init :: "gimbal_cmd \<Rightarrow> mbox" where
  "mb_init out = \<lparr>mb_latest = zero_cmd, mb_w = W_idle, mb_out = out, mb_io = 0, mb_r = R_idle, mb_writes = []\<rparr>"

inductive mb_reach :: "gimbal_cmd \<Rightarrow> mbox \<Rightarrow> bool" for out where
  init: "mb_reach out (mb_init out)"
| step: "mb_reach out s \<Longrightarrow> mb_step s s' \<Longrightarrow> mb_reach out s'"

section \<open>Uninterrupted runs\<close>

lemma mb_steps_step: "mb_step s t \<Longrightarrow> mb_step\<^sup>*\<^sup>* t u \<Longrightarrow> mb_step\<^sup>*\<^sup>* s u"
  by (rule converse_rtranclp_into_rtranclp)

lemma writer_run:
  assumes "mb_w s = W_idle"
  shows "mb_step\<^sup>*\<^sup>* s (s\<lparr>mb_latest := gimbal_mailbox_set (Some c) (mb_latest s), mb_writes := mb_writes s @ [c]\<rparr>)"
proof -
  define w where "w = (\<lambda>n. (writer_step ^^ n) (s\<lparr>mb_w := W_yaw c\<rparr>))"
  have "mb_step s (w 0)" unfolding w_def using assms by (simp add: set_call)
  moreover have "mb_step (w 0) (w 1)" "mb_step (w 1) (w 2)" "mb_step (w 2) (w 3)" "mb_step (w 3) (w 4)" "mb_step (w 4) (w 5)"
    using store [of "w 0"] store [of "w 1"] store [of "w 2"] store [of "w 3"] store [of "w 4"]
    by (simp_all add: w_def writer_step_def eval_nat_numeral)
  moreover have "w 5 = s\<lparr>mb_latest := gimbal_mailbox_set (Some c) (mb_latest s), mb_writes := mb_writes s @ [c]\<rparr>"
    using assms by (simp add: w_def writer_step_def gimbal_mailbox_set_def eval_nat_numeral)
  ultimately show ?thesis by (metis (no_types) mb_steps_step rtranclp.rtrancl_refl)
qed

lemma reader_run:
  assumes "mb_r s = R_idle" and "gimbal_mailbox_get (Some (mb_out s)) (Some (mb_io s)) (mb_latest s) = (ok, Some out, Some v)"
  shows "mb_step\<^sup>*\<^sup>* s (s\<lparr>mb_out := out, mb_io := v\<rparr>)"
proof (cases "cm_version (mb_latest s) = mb_io s")
  case True
  then have "s\<lparr>mb_out := out, mb_io := v\<rparr> = s" using assms by (auto simp: gimbal_mailbox_get_def)
  then show ?thesis by simp
next
  case False
  define r where "r = (\<lambda>n. (reader_step ^^ n) (reader_call s))"
  have "mb_step s (r 0)" unfolding r_def using assms(1) by (simp add: get_call)
  moreover have "mb_step (r 0) (r 1)" "mb_step (r 1) (r 2)" "mb_step (r 2) (r 3)" "mb_step (r 3) (r 4)" "mb_step (r 4) (r 5)"
    using load [of "r 0"] load [of "r 1"] load [of "r 2"] load [of "r 3"] load [of "r 4"] False
    by (simp_all add: r_def reader_step_def reader_call_def eval_nat_numeral)
  moreover have "r 5 = s\<lparr>mb_out := out, mb_io := v\<rparr>"
    using assms False by (auto simp: r_def reader_step_def reader_call_def gimbal_mailbox_get_def eval_nat_numeral)
  ultimately show ?thesis by (metis (no_types) mb_steps_step rtranclp.rtrancl_refl)
qed

section \<open>The invariant\<close>

text \<open>
  The version that the reader holds, and the fields it has copied since it read that version. What it
  copied is what the mailbox holds now as long as the version is current and no write is in progress.
\<close>

definition copied :: "mbox \<Rightarrow> bool" where
  "copied s \<longleftrightarrow> (let o' = mb_out s; l = mb_latest s in case mb_r s of
       R_idle \<Rightarrow> True
     | R_yaw v \<Rightarrow> True
     | R_pitch v \<Rightarrow> cm_delta_yaw_udeg o' = cm_delta_yaw_udeg l
     | R_status v \<Rightarrow> cm_delta_yaw_udeg o' = cm_delta_yaw_udeg l \<and> cm_delta_pitch_udeg o' = cm_delta_pitch_udeg l
     | R_ts v \<Rightarrow> cm_delta_yaw_udeg o' = cm_delta_yaw_udeg l \<and> cm_delta_pitch_udeg o' = cm_delta_pitch_udeg l \<and>
                 cm_status o' = cm_status l
     | R_done v \<Rightarrow> cm_delta_yaw_udeg o' = cm_delta_yaw_udeg l \<and> cm_delta_pitch_udeg o' = cm_delta_pitch_udeg l \<and>
                 cm_status o' = cm_status l \<and> cm_ts_us o' = cm_ts_us l)"

definition reading :: "reader_pc \<Rightarrow> u32 option" where
  "reading r = (case r of R_idle \<Rightarrow> None | R_yaw v \<Rightarrow> Some v | R_pitch v \<Rightarrow> Some v | R_status v \<Rightarrow> Some v
     | R_ts v \<Rightarrow> Some v | R_done v \<Rightarrow> Some v)"

text \<open>The fields that the writer has stored so far; between writes the last command written.\<close>

definition stored :: "mbox \<Rightarrow> bool" where
  "stored s \<longleftrightarrow> (let l = mb_latest s in case mb_w s of
       W_idle \<Rightarrow> mb_writes s \<noteq> [] \<longrightarrow> (\<exists>v. l = (last (mb_writes s))\<lparr>cm_version := v\<rparr>)
     | W_yaw c \<Rightarrow> True
     | W_pitch c \<Rightarrow> cm_delta_yaw_udeg l = cm_delta_yaw_udeg c
     | W_status c \<Rightarrow> cm_delta_yaw_udeg l = cm_delta_yaw_udeg c \<and> cm_delta_pitch_udeg l = cm_delta_pitch_udeg c
     | W_ts c \<Rightarrow> cm_delta_yaw_udeg l = cm_delta_yaw_udeg c \<and> cm_delta_pitch_udeg l = cm_delta_pitch_udeg c \<and>
                 cm_status l = cm_status c
     | W_version c \<Rightarrow> cm_delta_yaw_udeg l = cm_delta_yaw_udeg c \<and> cm_delta_pitch_udeg l = cm_delta_pitch_udeg c \<and>
                 cm_status l = cm_status c \<and> cm_ts_us l = cm_ts_us c)"

definition mb_inv :: "mbox \<Rightarrow> bool" where
  "mb_inv s \<longleftrightarrow> (let n = length (mb_writes s) in n < 2 ^ 32 \<longrightarrow>
     cm_version (mb_latest s) = word_of_nat n \<and> stored s \<and>
     (\<exists>m \<le> n. mb_io s = word_of_nat m) \<and>
     (\<forall>v. reading (mb_r s) = Some v \<longrightarrow> (\<exists>m \<le> n. v = word_of_nat m)) \<and>
     (\<forall>v. mb_w s = W_idle \<longrightarrow> reading (mb_r s) = Some v \<longrightarrow> v = cm_version (mb_latest s) \<longrightarrow> copied s) \<and>
     (mb_w s = W_idle \<longrightarrow> mb_r s = R_idle \<longrightarrow> mb_io s \<noteq> 0 \<longrightarrow> mb_io s = cm_version (mb_latest s) \<longrightarrow> mb_out s = mb_latest s))"

lemma old_version:
  assumes "\<exists>m \<le> n. v = (word_of_nat m :: u32)" and "Suc n < 2 ^ 32"
  shows "v \<noteq> word_of_nat n + 1" and "\<exists>m \<le> Suc n. v = (word_of_nat m :: u32)"
proof -
  from assms(1) obtain m where m: "m \<le> n" "v = word_of_nat m" by blast
  then show "\<exists>m \<le> Suc n. v = (word_of_nat m :: u32)" using le_SucI by blast
  have "unat v = m" "unat (word_of_nat (Suc n) :: u32) = Suc n" using m assms(2) by (simp_all add: unat_of_nat del: of_nat_Suc)
  then show "v \<noteq> word_of_nat n + 1" using m(1) by (metis Suc_n_not_le_n add.commute of_nat_Suc)
qed

lemma mb_inv_set_call: "mb_inv s \<Longrightarrow> mb_inv (s\<lparr>mb_w := W_yaw c\<rparr>)"
  by (simp add: mb_inv_def stored_def Let_def)

lemma mb_inv_version:
  assumes "mb_inv s" and w: "mb_w s = W_version c" and n: "Suc (length (mb_writes s)) < 2 ^ 32"
  shows "mb_inv (writer_step s)"
proof -
  let ?n = "length (mb_writes s)"
  have lt: "?n < 2 ^ 32" using n by simp
  have inv: "cm_version (mb_latest s) = word_of_nat ?n" "\<exists>m \<le> ?n. mb_io s = word_of_nat m"
      "\<And>v. reading (mb_r s) = Some v \<Longrightarrow> \<exists>m \<le> ?n. v = word_of_nat m" and st: "stored s"
    using assms(1) lt by (simp_all add: mb_inv_def Let_def)
  have "(mb_latest s)\<lparr>cm_version := v\<rparr> = c\<lparr>cm_version := v\<rparr>" for v
    using st w by (cases c; cases "mb_latest s") (simp add: stored_def Let_def)
  then have "stored (writer_step s)" using w by (auto simp: stored_def writer_step_def Let_def)
  moreover have "mb_io s \<noteq> word_of_nat ?n + 1" "\<exists>m \<le> Suc ?n. mb_io s = word_of_nat m"
    using old_version [OF inv(2) n] by blast+
  moreover have "v \<noteq> word_of_nat ?n + 1 \<and> (\<exists>m \<le> Suc ?n. v = word_of_nat m)" if "reading (mb_r s) = Some v" for v
    using old_version [OF inv(3) [OF that] n] by blast
  ultimately show ?thesis
    using w inv(1) unfolding mb_inv_def by (auto simp: writer_step_def Let_def add.commute)
qed

lemma mb_inv_writer: "mb_inv s \<Longrightarrow> mb_inv (writer_step s)"
proof (cases "mb_w s")
  case (W_version c)
  assume "mb_inv s"
  show ?thesis
  proof (cases "Suc (length (mb_writes s)) < 2 ^ 32")
    case True
    then show ?thesis by (rule mb_inv_version [OF \<open>mb_inv s\<close> W_version])
  qed (simp add: mb_inv_def writer_step_def W_version)
qed (simp_all add: mb_inv_def writer_step_def stored_def Let_def)

lemma stored_updates [simp]:
  "stored (s\<lparr>mb_r := r\<rparr>) = stored s" "stored (s\<lparr>mb_out := x\<rparr>) = stored s" "stored (s\<lparr>mb_io := v\<rparr>) = stored s"
  by (cases "mb_w s"; simp add: stored_def Let_def)+

lemma mb_inv_call: "mb_inv s \<Longrightarrow> mb_r s = R_idle \<Longrightarrow> mb_inv (reader_call s)"
  by (auto simp: mb_inv_def reader_call_def reading_def copied_def Let_def)

lemma stored_reader [simp]: "stored (reader_step s) = stored s"
  by (cases "mb_r s"; cases "mb_w s") (simp_all add: stored_def reader_step_def Let_def)

lemma mb_inv_reader: "mb_inv s \<Longrightarrow> mb_inv (reader_step s)"
proof (cases "mb_r s")
  case (R_done v)
  assume "mb_inv s"
  with R_done have "mb_inv s" "reading (mb_r s) = Some v" by (simp_all add: reading_def)
  then show ?thesis
    unfolding mb_inv_def stored_reader by (auto simp: reader_step_def R_done copied_def Let_def reading_def)
qed (simp_all add: mb_inv_def reader_step_def reading_def copied_def Let_def)

lemma mb_reach_inv: "mb_reach out s \<Longrightarrow> mb_inv s"
proof (induction rule: mb_reach.induct)
  case init
  then show ?case by (auto simp: mb_inv_def mb_init_def zero_cmd_def reading_def stored_def)
next
  case (step s s')
  from step.hyps(2) step.IH show ?case
    by (cases rule: mb_step.cases) (simp_all add: mb_inv_set_call mb_inv_writer mb_inv_call mb_inv_reader)
qed

lemma mb_reach_steps:
  assumes "mb_reach out s" and "mb_step\<^sup>*\<^sup>* s t"
  shows "mb_reach out t"
  using assms(2,1) by (induction rule: rtranclp_induct) (auto intro: mb_reach.step)

text \<open>The state after one undisturbed write, and after an undisturbed read of it.\<close>

definition after_set :: "gimbal_cmd \<Rightarrow> mbox" where
  "after_set c = (mb_init zero_cmd)\<lparr>mb_latest := gimbal_mailbox_set (Some c) zero_cmd, mb_writes := [c]\<rparr>"

lemma after_set_reach: "mb_reach zero_cmd (after_set c)"
  using mb_reach_steps [OF mb_reach.init writer_run, of zero_cmd c] by (simp add: mb_init_def after_set_def)

lemma after_set_simps [simp]:
  "mb_w (after_set c) = W_idle" "mb_r (after_set c) = R_idle" "mb_io (after_set c) = 0" "mb_writes (after_set c) = [c]"
  "mb_latest (after_set c) = c\<lparr>cm_version := 1\<rparr>" "mb_out (after_set c) = zero_cmd"
  by (simp_all add: after_set_def mb_init_def gimbal_mailbox_set_def zero_cmd_def)

lemma after_get_reach: "mb_reach zero_cmd ((after_set c)\<lparr>mb_out := c\<lparr>cm_version := 1\<rparr>, mb_io := 1\<rparr>)"
proof -
  have "gimbal_mailbox_get (Some (mb_out (after_set c))) (Some (mb_io (after_set c))) (mb_latest (after_set c)) =
      (True, Some (c\<lparr>cm_version := 1\<rparr>), Some 1)"
    by (simp add: gimbal_mailbox_get_def)
  from mb_reach_steps [OF after_set_reach reader_run [OF _ this]] show ?thesis by simp
qed

section \<open>Properties of the mailbox\<close>

text \<open>
  Set and get: a reader that has not seen the version after a write gets exactly the fields of that write and its
  version, once; a reader that has the current version gets nothing and keeps what it had.
\<close>

theorem mailbox_set_get:
  assumes "v \<noteq> cm_version latest + 1"
  shows "let l = gimbal_mailbox_set (Some c) latest; c' = c\<lparr>cm_version := cm_version latest + 1\<rparr>
    in gimbal_mailbox_get (Some out) (Some v) l = (True, Some c', Some (cm_version latest + 1)) \<and>
       gimbal_mailbox_get (Some c') (Some (cm_version latest + 1)) l = (False, Some c', Some (cm_version latest + 1))"
  using assms by (simp add: gimbal_mailbox_set_def gimbal_mailbox_get_def Let_def)

theorem mailbox_set_get_witness:
  "gimbal_mailbox_get (Some zero_cmd) (Some 0) (gimbal_mailbox_set (Some (zero_cmd\<lparr>cm_ts_us := 9\<rparr>)) zero_cmd) =
     (True, Some (zero_cmd\<lparr>cm_ts_us := 9, cm_version := 1\<rparr>), Some 1)"
  using mailbox_set_get [of 0 zero_cmd "zero_cmd\<lparr>cm_ts_us := 9\<rparr>" zero_cmd] by (simp add: zero_cmd_def Let_def)



text \<open>
  A read is not atomic: although the interface calls the mailbox thread-safe, a writer that runs between two accesses of
  a reader makes the reader return, as a new command, one that nobody wrote: the yaw of one and the pitch of another.
\<close>

theorem mailbox_torn_read:
  "\<exists>s. mb_reach zero_cmd s \<and> mb_r s = R_idle \<and> mb_io s = 1 \<and>
     (cm_delta_yaw_udeg (mb_out s), cm_delta_pitch_udeg (mb_out s)) \<notin>
       (\<lambda>c. (cm_delta_yaw_udeg c, cm_delta_pitch_udeg c)) ` set (mb_writes s)"
proof -
  let ?c1 = "zero_cmd\<lparr>cm_delta_yaw_udeg := 10, cm_delta_pitch_udeg := 11\<rparr>"
  let ?c2 = "zero_cmd\<lparr>cm_delta_yaw_udeg := 20, cm_delta_pitch_udeg := 22\<rparr>"
  define s2 where "s2 = reader_step (reader_call (after_set ?c1))"
  define s3 where "s3 = s2\<lparr>mb_latest := gimbal_mailbox_set (Some ?c2) (mb_latest s2), mb_writes := mb_writes s2 @ [?c2]\<rparr>"
  have call: "reader_call (after_set ?c1) = (after_set ?c1)\<lparr>mb_r := R_yaw 1\<rparr>"
    by (simp add: reader_call_def)
  have "mb_step (after_set ?c1) (reader_call (after_set ?c1))" "mb_step (reader_call (after_set ?c1)) s2"
    using get_call [of "after_set ?c1"] load [of "reader_call (after_set ?c1)"] by (simp_all add: s2_def call)
  then have "mb_reach zero_cmd s2" using after_set_reach [of ?c1] by (blast intro: mb_reach.step)
  moreover have s2: "mb_w s2 = W_idle" "mb_r s2 = R_pitch 1" "mb_writes s2 = [?c1]" "cm_delta_yaw_udeg (mb_out s2) = 10"
    by (simp_all add: s2_def call reader_step_def)
  ultimately have r0: "mb_reach zero_cmd s3" unfolding s3_def by (intro mb_reach_steps [OF _ writer_run])
  have r: "mb_reach zero_cmd s \<Longrightarrow> mb_r s \<noteq> R_idle \<Longrightarrow> mb_reach zero_cmd (reader_step s)" for s
    by (blast intro: mb_reach.step load)
  define s4 where "s4 = reader_step s3"
  have s4: "mb_r s4 = R_status 1" "cm_delta_yaw_udeg (mb_out s4) = 10" "cm_delta_pitch_udeg (mb_out s4) = 22" "mb_writes s4 = [?c1, ?c2]"
    by (simp_all add: s4_def s3_def s2 reader_step_def gimbal_mailbox_set_def)
  have "mb_reach zero_cmd s4" unfolding s4_def by (rule r [OF r0]) (simp add: s3_def s2)
  then have "mb_reach zero_cmd (reader_step (reader_step (reader_step s4)))"
    by (intro r) (simp_all add: reader_step_def s4)
  then show ?thesis
    by (intro exI [of _ "reader_step (reader_step (reader_step s4))"]) (simp add: reader_step_def s4)
qed

end
