(* ===== verification/Time_Sync.thy ===== *)
theory Time_Sync
  imports Gimbal_Channel "HOL-Library.Signed_Division"
begin

text \<open>
  The time-synchronisation channel of \<^verbatim>\<open>channel/time_sync\<close>: requests with their history ring, responses, and the
  estimate of the clock offset.

  Signed 64-bit arithmetic is checked: on overflow, which C leaves undefined, the result is \<open>None\<close>, unless
  the parameter \<open>wrapv\<close> says that the compiler makes signed arithmetic wrap around (\<^verbatim>\<open>-fwrapv\<close>).
\<close>

section \<open>Data\<close>

definition TS_SID_REQ :: u16 where "TS_SID_REQ = 0x1001"
definition TS_SID_RESP :: u16 where "TS_SID_RESP = 0x1002"

abbreviation TS_CH_ID :: u8 where "TS_CH_ID \<equiv> 3"
abbreviation TS_PRIORITY :: u8 where "TS_PRIORITY \<equiv> 1"
abbreviation TS_PERIOD_MS :: u32 where "TS_PERIOD_MS \<equiv> 1000"
abbreviation TS_INITIATOR :: u8 where "TS_INITIATOR \<equiv> 1"
abbreviation TS_MAX_RTT_US :: u32 where "TS_MAX_RTT_US \<equiv> 0"

record ts_time_ops =
  tt_now_us :: "fn_ptr option"
  tt_user :: user_ptr

record ts_hist_item =
  hi_seq :: u16
  hi_t0 :: u64

record time_sync_channel =
  ts_bind :: "addr option"
  ts_mgr :: "addr option"
  ts_ch_id :: u8
  ts_time :: ts_time_ops
  ts_period_ms :: u32
  ts_initiator :: u8
  ts_max_rtt_us :: u32
  ts_last_req_us :: u64
  ts_seq :: u16
  ts_hist :: "ts_hist_item list"
  ts_hist_pos :: u8
  ts_rtt_us_last :: u32
  ts_offset_us :: i64
  ts_offset_origin_us :: i64
  ts_offset_origin_valid :: u8
  ts_offset_display_us :: i64
  ts_last_device_time_us :: u64
  ts_last_host_time_us :: u64
  ts_mapping_valid :: u8
  ts_mapping_version :: u32

record ts_channel_cfg =
  tc_ch_id :: u8
  tc_period_ms :: u32
  tc_initiator :: u8
  tc_priority :: u8
  tc_max_rtt_us :: u32

record 'p link_heap = "'p gimbal_heap" +
  hp_ts :: "addr \<Rightarrow> time_sync_channel"

definition zero_ts :: time_sync_channel where
  "zero_ts = \<lparr>ts_bind = None, ts_mgr = None, ts_ch_id = 0, ts_time = \<lparr>tt_now_us = None, tt_user = 0\<rparr>, ts_period_ms = 0,
     ts_initiator = 0, ts_max_rtt_us = 0, ts_last_req_us = 0, ts_seq = 0,
     ts_hist = replicate 32 \<lparr>hi_seq = 0, hi_t0 = 0\<rparr>, ts_hist_pos = 0, ts_rtt_us_last = 0, ts_offset_us = 0,
     ts_offset_origin_us = 0, ts_offset_origin_valid = 0, ts_offset_display_us = 0, ts_last_device_time_us = 0,
     ts_last_host_time_us = 0, ts_mapping_valid = 0, ts_mapping_version = 0\<rparr>"

definition update_ts ::
  "addr \<Rightarrow> (time_sync_channel \<Rightarrow> time_sync_channel) \<Rightarrow> ('p, 'x) link_heap_scheme \<Rightarrow> ('p, 'x) link_heap_scheme" where
  "update_ts a f h = h\<lparr>hp_ts := (hp_ts h)(a := f (hp_ts h a))\<rparr>"

section \<open>Signed arithmetic\<close>

definition i64_result :: "bool \<Rightarrow> int \<Rightarrow> i64 option" where
  "i64_result wrapv x = (if wrapv \<or> - (2 ^ 63) \<le> x \<and> x < 2 ^ 63 then Some (word_of_int x) else None)"

definition i64_add :: "bool \<Rightarrow> i64 \<Rightarrow> i64 \<Rightarrow> i64 option" where
  "i64_add wrapv a b = i64_result wrapv (sint a + sint b)"

definition i64_sub :: "bool \<Rightarrow> i64 \<Rightarrow> i64 \<Rightarrow> i64 option" where
  "i64_sub wrapv a b = i64_result wrapv (sint a - sint b)"

definition i64_mul :: "bool \<Rightarrow> i64 \<Rightarrow> i64 \<Rightarrow> i64 option" where
  "i64_mul wrapv a b = i64_result wrapv (sint a * sint b)"

text \<open>Division truncates towards zero; the divisors of the source are positive constants, so it cannot overflow.\<close>

definition i64_div :: "i64 \<Rightarrow> int \<Rightarrow> i64" where
  "i64_div a d = word_of_int (sint a sdiv d)"

section \<open>The history of requests\<close>

definition now_us ::
  "('p, 'y) cam_app_scheme \<Rightarrow> time_sync_channel \<Rightarrow> ('p, 'x) comm_heap_scheme \<Rightarrow> u64 \<times> ('p, 'x) comm_heap_scheme" where
  "now_us A ts h = app_now_us A (tt_now_us (ts_time ts)) (tt_user (ts_time ts)) h"

definition hist_put :: "u16 \<Rightarrow> u64 \<Rightarrow> time_sync_channel \<Rightarrow> time_sync_channel option" where
  "hist_put seq t0 ts =
     (if unat (ts_hist_pos ts) < length (ts_hist ts)
      then Some (ts\<lparr>ts_hist := (ts_hist ts)[unat (ts_hist_pos ts) := \<lparr>hi_seq = seq, hi_t0 = t0\<rparr>],
                    ts_hist_pos := (ts_hist_pos ts + 1) AND 0x1F\<rparr>)
      else None)"

text \<open>The time of the first entry with the sequence number, if there is one.\<close>

definition hist_get :: "u16 \<Rightarrow> time_sync_channel \<Rightarrow> u64 option" where
  "hist_get seq ts = (case find (\<lambda>i. hi_seq (ts_hist ts ! i) = seq) [0..<32] of
       Some i \<Rightarrow> Some (hi_t0 (ts_hist ts ! i)) | None \<Rightarrow> None)"

section \<open>Requests and responses\<close>

text \<open>The estimate from one exchange: sent at \<open>t0\<close>, received \<open>t1\<close> and answered \<open>t2\<close> by the peer's clock, back at \<open>t3\<close>.\<close>

definition ts_sample :: "bool \<Rightarrow> u64 \<Rightarrow> u64 \<Rightarrow> u64 \<Rightarrow> u64 \<Rightarrow> time_sync_channel \<Rightarrow> time_sync_channel option" where
  "ts_sample wrapv t0 t1 t2 t3 ts = do {
     let rtt = t3 - t0;
     let rtt = (if t2 \<ge> t1 then rtt - (t2 - t1) else rtt);
     let ts = ts\<lparr>ts_rtt_us_last := ucast rtt\<rparr>;
     sum \<leftarrow> i64_add wrapv (t1 - t0) (t2 - t3);
     let offset = i64_div sum 2;
     if ts_max_rtt_us ts = 0 \<or> rtt \<le> ucast (ts_max_rtt_us ts) then do {
       let ts = (if ts_offset_origin_valid ts = 0
                 then ts\<lparr>ts_offset_origin_us := offset, ts_offset_origin_valid := 1\<rparr> else ts);
       rel \<leftarrow> i64_sub wrapv offset (ts_offset_origin_us ts);
       nine \<leftarrow> i64_mul wrapv (ts_offset_us ts) 9;
       sum \<leftarrow> i64_add wrapv nine offset;
       let ts = ts\<lparr>ts_offset_us := i64_div sum 10\<rparr>;
       nine \<leftarrow> i64_mul wrapv (ts_offset_display_us ts) 9;
       sum \<leftarrow> i64_add wrapv nine rel;
       Some (ts\<lparr>ts_offset_display_us := i64_div sum 10, ts_last_device_time_us := t2, ts_last_host_time_us := t3,
                ts_mapping_valid := 1, ts_mapping_version := ts_mapping_version ts + 1\<rparr>)
     } else Some ts
   }"

definition ts_on_rx ::
  "bool \<Rightarrow> ('p, 'y) cam_app_scheme \<Rightarrow> u8 list option \<Rightarrow> nat \<Rightarrow> user_ptr \<Rightarrow> ('p, 'x) link_heap_scheme \<Rightarrow> ('p, 'x) link_heap_scheme option" where
  "ts_on_rx wrapv A payload len user h = (case payload of None \<Rightarrow> Some h | Some p \<Rightarrow>
     (if len < 2 \<or> user = 0 then Some h
      else do {
        sid \<leftarrow> comm_read_u16_le p 0;
        if sid = TS_SID_REQ then
          (if len < 2 + 2 + 8 then Some h
           else do {
             seq \<leftarrow> comm_read_u16_le p 2;
             let (t1, h) = now_us A (hp_ts h user) h;
             let (t2, h) = now_us A (hp_ts h user) h;
             buf \<leftarrow> comm_write_u16_le (stack_buffer (2 + 2 + 8 + 8)) 0 TS_SID_RESP;
             buf \<leftarrow> comm_write_u16_le buf 2 seq;
             buf \<leftarrow> comm_write_u64_le buf 4 t1;
             buf \<leftarrow> comm_write_u64_le buf 12 t2;
             (_, h) \<leftarrow> ch_uproto_queue_notify (ts_bind (hp_ts h user)) (ts_ch_id (hp_ts h user)) TS_SID_RESP 0 (Some buf) 20 h;
             Some h
           })
        else if sid = TS_SID_RESP then
          (if len < 2 + 2 + 8 + 8 then Some h
           else do {
             seq \<leftarrow> comm_read_u16_le p 2;
             t1 \<leftarrow> comm_read_u64_le p 4;
             t2 \<leftarrow> comm_read_u64_le p 12;
             let (t3, h) = now_us A (hp_ts h user) h;
             (case hist_get seq (hp_ts h user) of
                None \<Rightarrow> Some h
              | Some t0 \<Rightarrow> do {
                  ts \<leftarrow> ts_sample wrapv t0 t1 t2 t3 (hp_ts h user);
                  Some (update_ts user (\<lambda>_. ts) h)
                })
           })
        else Some h
      }))"

definition ts_on_tick ::
  "('p, 'y) cam_app_scheme \<Rightarrow> user_ptr \<Rightarrow> ('p, 'x) link_heap_scheme \<Rightarrow> ('p, 'x) link_heap_scheme option" where
  "ts_on_tick A user h =
     (if user = 0 \<or> ts_initiator (hp_ts h user) = 0 then Some h
      else do {
        let (now, h) = now_us A (hp_ts h user) h;
        let ts = hp_ts h user;
        if now - ts_last_req_us ts \<ge> ucast (ts_period_ms ts) * 1000 then do {
          let seq = ts_seq ts;
          let ts = ts\<lparr>ts_last_req_us := now, ts_seq := seq + 1\<rparr>;
          buf \<leftarrow> comm_write_u16_le (stack_buffer (2 + 2 + 8)) 0 TS_SID_REQ;
          buf \<leftarrow> comm_write_u16_le buf 2 seq;
          buf \<leftarrow> comm_write_u64_le buf 4 now;
          ts \<leftarrow> hist_put seq now ts;
          (_, h) \<leftarrow> ch_uproto_queue_notify (ts_bind ts) (ts_ch_id ts) TS_SID_REQ 0 (Some buf) 12 (update_ts user (\<lambda>_. ts) h);
          Some h
        } else Some h
      })"

section \<open>Initialisation and queries\<close>

abbreviation fn_ts_on_rx :: fn_ptr where "fn_ts_on_rx \<equiv> 14"
abbreviation fn_ts_on_tick :: fn_ptr where "fn_ts_on_tick \<equiv> 15"

definition time_sync_channel_init ::
  "addr option \<Rightarrow> addr option \<Rightarrow> addr option \<Rightarrow> u8 \<Rightarrow> ts_time_ops option \<Rightarrow> u32 \<Rightarrow> u8 \<Rightarrow> u8 \<Rightarrow>
     ('p, 'x) link_heap_scheme \<Rightarrow> ('p, 'x) link_heap_scheme" where
  "time_sync_channel_init ts bnd mgr cid time_ops period_ms initiator priority h = (case (ts, bnd, mgr, time_ops) of
       (Some a, Some b, Some m, Some t) \<Rightarrow>
         (let c = zero_ts\<lparr>ts_bind := bnd, ts_mgr := mgr, ts_ch_id := cid, ts_time := t,
                    ts_period_ms := (if period_ms = 0 then 1000 else period_ms),
                    ts_initiator := (if initiator \<noteq> 0 then 1 else 0), ts_max_rtt_us := 0, ts_last_req_us := 0\<rparr>
          in channel_attach a b m cid
               \<lparr>cc_mode = CH_MODE_QA, cc_reliable = 0, cc_expect_reply = 0, cc_priority = priority, cc_period_ms = 0\<rparr>
               \<lparr>ck_on_rx = Some fn_ts_on_rx, ck_on_tick = Some fn_ts_on_tick, ck_on_cfg_change = None\<rparr>
               (update_ts a (\<lambda>_. c) h))
     | _ \<Rightarrow> h)"

definition time_sync_channel_set_max_rtt_us :: "addr option \<Rightarrow> u32 \<Rightarrow> ('p, 'x) link_heap_scheme \<Rightarrow> ('p, 'x) link_heap_scheme" where
  "time_sync_channel_set_max_rtt_us ts max_rtt_us h = (case ts of None \<Rightarrow> h
     | Some a \<Rightarrow> update_ts a (\<lambda>c. c\<lparr>ts_max_rtt_us := max_rtt_us\<rparr>) h)"

definition time_sync_channel_init_ex ::
  "addr option \<Rightarrow> addr option \<Rightarrow> addr option \<Rightarrow> ts_channel_cfg option \<Rightarrow> ts_time_ops option \<Rightarrow>
     ('p, 'x) link_heap_scheme \<Rightarrow> ('p, 'x) link_heap_scheme" where
  "time_sync_channel_init_ex ts bnd mgr cfg time_ops h = (case cfg of None \<Rightarrow> h | Some g \<Rightarrow>
     (let h = time_sync_channel_init ts bnd mgr (tc_ch_id g) time_ops (tc_period_ms g) (tc_initiator g) (tc_priority g) h
      in if tc_max_rtt_us g \<noteq> 0 then time_sync_channel_set_max_rtt_us ts (tc_max_rtt_us g) h else h))"

definition time_sync_channel_tick ::
  "('p, 'y) cam_app_scheme \<Rightarrow> addr option \<Rightarrow> ('p, 'x) link_heap_scheme \<Rightarrow> ('p, 'x) link_heap_scheme option" where
  "time_sync_channel_tick A ts h = (case ts of None \<Rightarrow> Some h | Some a \<Rightarrow> ts_on_tick A a h)"

definition time_sync_channel_now_us ::
  "bool \<Rightarrow> ('p, 'y) cam_app_scheme \<Rightarrow> addr option \<Rightarrow> ('p, 'x) link_heap_scheme \<Rightarrow> (u64 \<times> ('p, 'x) link_heap_scheme) option" where
  "time_sync_channel_now_us wrapv A ts h = (case ts of None \<Rightarrow> Some (0, h) | Some a \<Rightarrow> do {
     let (n, h) = now_us A (hp_ts h a) h;
     if ts_mapping_valid (hp_ts h a) \<noteq> 0 then do { t \<leftarrow> i64_add wrapv n (ts_offset_us (hp_ts h a)); Some (t, h) }
     else Some (n, h)
   })"

section \<open>Signed arithmetic in range\<close>

lemma sint_word_of_int_i64: "- (2 ^ 63) \<le> x \<Longrightarrow> x < 2 ^ 63 \<Longrightarrow> sint (word_of_int x :: i64) = x"
  by (simp add: signed_of_int signed_take_bit_int_eq_self)

lemma i64_result_in: "- (2 ^ 63) \<le> x \<Longrightarrow> x < 2 ^ 63 \<Longrightarrow> i64_result w x = Some (word_of_int x)"
  by (simp add: i64_result_def)

lemma sint_i64_range: "- (2 ^ 63) \<le> sint (a :: i64)" "sint (a :: i64) < 2 ^ 63"
  using sint_greater_eq [of a] sint_less [of a] by simp_all

lemma int_sdiv_pos: "0 < d \<Longrightarrow> (x :: int) sdiv d = (if 0 \<le> x then x div d else - ((- x) div d))"
  by (auto simp: signed_divide_int_def sgn_if)

lemma int_sdiv_le:
  assumes "0 < d"
  shows "\<bar>(x :: int) sdiv d\<bar> \<le> \<bar>x\<bar>"
proof -
  have "0 \<le> y div d \<and> y div d \<le> y" if "0 \<le> y" for y
    using zdiv_mono2 [OF that, of 1 d] assms that by (simp add: pos_imp_zdiv_nonneg_iff)
  from this [of x] this [of "- x"] show ?thesis using assms by (auto simp: int_sdiv_pos abs_if)
qed

lemma sint_i64_div:
  assumes "0 < d"
  shows "sint (i64_div a d) = sint a sdiv d"
proof -
  have "\<bar>sint a sdiv d\<bar> \<le> \<bar>sint a\<bar>" by (rule int_sdiv_le [OF assms])
  moreover have "sint a < 0 \<Longrightarrow> sint a sdiv d \<le> 0" using assms by (simp add: int_sdiv_pos pos_imp_zdiv_nonneg_iff)
  ultimately have "- (2 ^ 63) \<le> sint a sdiv d" "sint a sdiv d < 2 ^ 63"
    using sint_i64_range [of a] by (auto simp: abs_if split: if_splits)
  then show ?thesis by (simp only: i64_div_def sint_word_of_int_i64)
qed

text \<open>The sample of the offset in one exchange, and the filter with weight one tenth, on integers.\<close>

definition sample_of :: "u64 \<Rightarrow> u64 \<Rightarrow> u64 \<Rightarrow> u64 \<Rightarrow> int" where
  "sample_of t0 t1 t2 t3 = (sint (t1 - t0) + sint (t2 - t3)) sdiv 2"

definition iir :: "int \<Rightarrow> int \<Rightarrow> int" where
  "iir x c = (9 * x + c) sdiv 10"

lemma iir_bound: "\<bar>x\<bar> \<le> M \<Longrightarrow> \<bar>c\<bar> \<le> M \<Longrightarrow> \<bar>iir x c\<bar> \<le> M"
  unfolding iir_def by (subst int_sdiv_pos) (auto simp: abs_le_iff)

lemma iir_contracts: "10 * \<bar>iir x c - c\<bar> \<le> 9 * \<bar>x - c\<bar> + 9"
  unfolding iir_def by (subst int_sdiv_pos) (auto simp: abs_if)

section \<open>The state of the estimate\<close>

text \<open>Bounds under which no operation of the estimate overflows: about 9000 years in microseconds.\<close>

definition ts_bounded :: "time_sync_channel \<Rightarrow> bool" where
  "ts_bounded ts \<longleftrightarrow> \<bar>sint (ts_offset_us ts)\<bar> \<le> 2 ^ 58 \<and> \<bar>sint (ts_offset_origin_us ts)\<bar> \<le> 2 ^ 58 \<and>
     \<bar>sint (ts_offset_display_us ts)\<bar> \<le> 2 ^ 59"

definition ts_origin :: "time_sync_channel \<Rightarrow> int \<Rightarrow> int" where
  "ts_origin ts c = (if ts_offset_origin_valid ts = 0 then c else sint (ts_offset_origin_us ts))"

lemma i64_result_sint:
  assumes "\<bar>x\<bar> < 2 ^ 63"
  shows "\<exists>r. i64_result w x = Some r \<and> sint r = x"
proof -
  have "- (2 ^ 63) \<le> x" "x < 2 ^ 63" using assms by linarith+
  then show ?thesis using i64_result_in [of x w] sint_word_of_int_i64 [of x] by blast
qed

lemma i64_ops_in:
  "\<bar>sint a + sint b\<bar> < 2 ^ 63 \<Longrightarrow> \<exists>r. i64_add w a b = Some r \<and> sint r = sint a + sint b"
  "\<bar>sint a - sint b\<bar> < 2 ^ 63 \<Longrightarrow> \<exists>r. i64_sub w a b = Some r \<and> sint r = sint a - sint b"
  "\<bar>sint a * sint b\<bar> < 2 ^ 63 \<Longrightarrow> \<exists>r. i64_mul w a b = Some r \<and> sint r = sint a * sint b"
  unfolding i64_add_def i64_sub_def i64_mul_def by (rule i64_result_sint, assumption)+

lemma iir_steps:
  assumes "\<bar>sint x\<bar> \<le> 2 ^ 59" and "\<bar>sint c\<bar> \<le> 2 ^ 59"
  shows "\<exists>nine sum. i64_mul w x 9 = Some nine \<and> i64_add w nine c = Some sum \<and> sint (i64_div sum 10) = iir (sint x) (sint c)"
proof -
  have "\<bar>sint x * sint (9 :: i64)\<bar> < 2 ^ 63" using assms(1) by (simp add: abs_le_iff abs_less_iff)
  from i64_ops_in(3) [OF this, of w] obtain nine where n: "i64_mul w x 9 = Some nine" "sint nine = sint x * 9" by auto
  have "\<bar>sint nine + sint c\<bar> < 2 ^ 63" using assms n(2) by (simp add: abs_le_iff abs_less_iff)
  from i64_ops_in(1) [OF this, of w] obtain sum where "i64_add w nine c = Some sum" "sint sum = sint nine + sint c" by auto
  with n show ?thesis by (auto simp: sint_i64_div iir_def mult.commute)
qed

text \<open>One exchange whose times are in range: defined, and the filters move towards the sample.\<close>

lemma ts_sample_accepted:
  assumes b: "ts_bounded ts" and r: "ts_max_rtt_us ts = 0"
    and t: "\<bar>sint (t1 - t0)\<bar> \<le> 2 ^ 58" "\<bar>sint (t2 - t3)\<bar> \<le> 2 ^ 58"
  defines "c \<equiv> sample_of t0 t1 t2 t3"
  shows "\<exists>ts'. ts_sample w t0 t1 t2 t3 ts = Some ts' \<and> ts_bounded ts' \<and>
    sint (ts_offset_us ts') = iir (sint (ts_offset_us ts)) c \<and>
    sint (ts_offset_origin_us ts') = ts_origin ts c \<and> ts_offset_origin_valid ts' \<noteq> 0 \<and>
    sint (ts_offset_display_us ts') = iir (sint (ts_offset_display_us ts)) (c - ts_origin ts c) \<and>
    ts_max_rtt_us ts' = 0 \<and> ts_mapping_valid ts' = 1 \<and> ts_mapping_version ts' = ts_mapping_version ts + 1 \<and>
    ts_rtt_us_last ts' = ucast (if t2 \<ge> t1 then t3 - t0 - (t2 - t1) else t3 - t0)"
proof -
  have "\<bar>sint (t1 - t0) + sint (t2 - t3)\<bar> < 2 ^ 63" using t by (simp add: abs_le_iff abs_less_iff)
  from i64_ops_in(1) [OF this, of w] obtain sum where sum: "i64_add w (t1 - t0) (t2 - t3) = Some sum"
    "sint sum = sint (t1 - t0) + sint (t2 - t3)" by blast
  let ?o = "i64_div sum 2"
  have o: "sint ?o = c" using sum(2) by (simp add: sint_i64_div c_def sample_of_def)
  have cb: "\<bar>c\<bar> \<le> 2 ^ 58" using t unfolding c_def sample_of_def by (subst int_sdiv_pos) (auto simp: abs_le_iff)
  let ?org = "if ts_offset_origin_valid ts = 0 then ?o else ts_offset_origin_us ts"
  have org: "sint ?org = ts_origin ts c" "\<bar>ts_origin ts c\<bar> \<le> 2 ^ 58"
    using o b cb by (auto simp: ts_origin_def ts_bounded_def)
  have "\<bar>sint ?o - sint ?org\<bar> < 2 ^ 63" using o org cb by (simp add: abs_le_iff abs_less_iff)
  from i64_ops_in(2) [OF this, of w] obtain rel where rel: "i64_sub w ?o ?org = Some rel" "sint rel = c - ts_origin ts c"
    using o org by auto
  have relb: "\<bar>sint rel\<bar> \<le> 2 ^ 59" using rel(2) cb org(2) by simp
  obtain n1 s1 where f1: "i64_mul w (ts_offset_us ts) 9 = Some n1" "i64_add w n1 ?o = Some s1"
      "sint (i64_div s1 10) = iir (sint (ts_offset_us ts)) c"
    using iir_steps [of "ts_offset_us ts" ?o w] b cb o by (auto simp: ts_bounded_def)
  obtain n2 s2 where f2: "i64_mul w (ts_offset_display_us ts) 9 = Some n2" "i64_add w n2 rel = Some s2"
      "sint (i64_div s2 10) = iir (sint (ts_offset_display_us ts)) (c - ts_origin ts c)"
    using iir_steps [of "ts_offset_display_us ts" rel w] b relb rel(2) by (auto simp: ts_bounded_def)
  have "\<bar>iir (sint (ts_offset_us ts)) c\<bar> \<le> 2 ^ 58" using iir_bound [of "sint (ts_offset_us ts)" "2 ^ 58" c] b cb by (simp add: ts_bounded_def)
  moreover have "\<bar>iir (sint (ts_offset_display_us ts)) (c - ts_origin ts c)\<bar> \<le> 2 ^ 59"
    using iir_bound [of "sint (ts_offset_display_us ts)" "2 ^ 59" "c - ts_origin ts c"] b relb rel(2) by (simp add: ts_bounded_def)
  ultimately show ?thesis
    using sum(1) rel(1) f1 f2 org r
    by (cases "ts_offset_origin_valid ts = 0") (auto simp: ts_sample_def Let_def ts_bounded_def)
qed

section \<open>Convergence of the filter\<close>

text \<open>A series of exchanges, each given by its four times.\<close>

fun ts_samples :: "bool \<Rightarrow> (u64 \<times> u64 \<times> u64 \<times> u64) list \<Rightarrow> time_sync_channel \<Rightarrow> time_sync_channel option" where
  "ts_samples w [] ts = Some ts"
| "ts_samples w ((t0, t1, t2, t3) # xs) ts = do { ts \<leftarrow> ts_sample w t0 t1 t2 t3 ts; ts_samples w xs ts }"

definition in_range :: "u64 \<times> u64 \<times> u64 \<times> u64 \<Rightarrow> bool" where
  "in_range x = (case x of (t0, t1, t2, t3) \<Rightarrow> \<bar>sint (t1 - t0)\<bar> \<le> 2 ^ 58 \<and> \<bar>sint (t2 - t3)\<bar> \<le> 2 ^ 58)"

definition sample_is :: "int \<Rightarrow> u64 \<times> u64 \<times> u64 \<times> u64 \<Rightarrow> bool" where
  "sample_is c x = (case x of (t0, t1, t2, t3) \<Rightarrow> sample_of t0 t1 t2 t3 = c)"

lemma iir_contracts_shifted: "10 * (\<bar>iir x c - c\<bar> - 9) \<le> 9 * (\<bar>x - c\<bar> - 9)"
  using iir_contracts [of x c] by simp

lemma ts_samples_converge:
  assumes "ts_bounded ts" and "ts_max_rtt_us ts = 0" and "list_all in_range xs" and "list_all (sample_is c) xs"
  shows "\<exists>ts'. ts_samples w xs ts = Some ts' \<and> ts_bounded ts' \<and>
    10 ^ length xs * (\<bar>sint (ts_offset_us ts') - c\<bar> - 9) \<le> 9 ^ length xs * (\<bar>sint (ts_offset_us ts) - c\<bar> - 9) \<and>
    ts_mapping_version ts' = ts_mapping_version ts + word_of_nat (length xs)"
  using assms
proof (induction xs arbitrary: ts)
  case (Cons x xs)
  obtain t0 t1 t2 t3 where x: "x = (t0, t1, t2, t3)" by (metis surj_pair)
  have c: "sample_of t0 t1 t2 t3 = c" and r: "\<bar>sint (t1 - t0)\<bar> \<le> 2 ^ 58" "\<bar>sint (t2 - t3)\<bar> \<le> 2 ^ 58"
    using Cons.prems(3,4) by (simp_all add: x in_range_def sample_is_def)
  from ts_sample_accepted [OF Cons.prems(1,2) r, of w] obtain ts1 where
    s: "ts_sample w t0 t1 t2 t3 ts = Some ts1" "ts_bounded ts1" "ts_max_rtt_us ts1 = 0"
      "sint (ts_offset_us ts1) = iir (sint (ts_offset_us ts)) c" "ts_mapping_version ts1 = ts_mapping_version ts + 1"
    by (auto simp: c)
  from Cons.IH [OF s(2,3)] Cons.prems(3,4) obtain ts' where
    t: "ts_samples w xs ts1 = Some ts'" "ts_bounded ts'"
      "10 ^ length xs * (\<bar>sint (ts_offset_us ts') - c\<bar> - 9) \<le> 9 ^ length xs * (\<bar>sint (ts_offset_us ts1) - c\<bar> - 9)"
      "ts_mapping_version ts' = ts_mapping_version ts1 + word_of_nat (length xs)"
    by auto
  have "10 * (10 ^ length xs * (\<bar>sint (ts_offset_us ts') - c\<bar> - 9)) \<le> 9 ^ length xs * (10 * (\<bar>sint (ts_offset_us ts1) - c\<bar> - 9))"
    using mult_left_mono [OF t(3), of 10] by (simp only: mult.left_commute)
  also have "\<dots> \<le> 9 ^ length xs * (9 * (\<bar>sint (ts_offset_us ts) - c\<bar> - 9))"
    unfolding s(4) by (intro mult_left_mono iir_contracts_shifted) simp
  finally have "10 ^ length (x # xs) * (\<bar>sint (ts_offset_us ts') - c\<bar> - 9) \<le> 9 ^ length (x # xs) * (\<bar>sint (ts_offset_us ts) - c\<bar> - 9)"
    by (simp only: length_Cons power_Suc mult.assoc mult.left_commute [of "9 ^ length xs"])
  moreover have "ts_mapping_version ts' = ts_mapping_version ts + word_of_nat (length (x # xs))"
    using s(5) t(4) by simp
  ultimately show ?case using s(1) t(1,2) by (intro exI [of _ ts']) (simp add: x)
qed simp

section \<open>The history ring\<close>

definition ts_ok :: "time_sync_channel \<Rightarrow> bool" where
  "ts_ok ts \<longleftrightarrow> length (ts_hist ts) = 32 \<and> unat (ts_hist_pos ts) < 32"

lemma and_1F: "unat ((p + 1) AND 0x1F :: u8) = (unat p + 1) mod 32"
proof -
  have "(p + 1) AND 0x1F = take_bit 5 (p + 1)" by (simp add: take_bit_eq_mask mask_eq_exp_minus_1)
  then have "unat ((p + 1) AND 0x1F) = take_bit 5 (unat (p + 1))" by (simp add: unsigned_take_bit_eq)
  also have "\<dots> = (unat p + 1) mod 256 mod 32" by (simp add: take_bit_nat_def unat_word_ariths)
  also have "\<dots> = (unat p + 1) mod 32" by (simp add: mod_mod_cancel)
  finally show ?thesis .
qed

lemma hist_put_ok:
  assumes "ts_ok ts"
  shows "\<exists>ts'. hist_put seq t0 ts = Some ts' \<and> ts_ok ts'"
  using assms by (auto simp: hist_put_def ts_ok_def and_1F)

text \<open>The requests \<open>0, 1, ..., n - 1\<close>, the \<open>j\<close>-th sent at \<open>f j\<close>, with their 16-bit sequence numbers.\<close>

fun hist_puts :: "(nat \<Rightarrow> u64) \<Rightarrow> nat \<Rightarrow> time_sync_channel \<Rightarrow> time_sync_channel option" where
  "hist_puts f 0 ts = Some ts"
| "hist_puts f (Suc n) ts = do { ts \<leftarrow> hist_puts f n ts; hist_put (word_of_nat n) (f n) ts }"

text \<open>After \<open>n\<close> requests the \<open>i\<close>-th entry holds the latest request congruent to \<open>i\<close> modulo 32, if there is one.\<close>

definition hist_holds :: "(nat \<Rightarrow> u64) \<Rightarrow> nat \<Rightarrow> time_sync_channel \<Rightarrow> bool" where
  "hist_holds f n ts \<longleftrightarrow> length (ts_hist ts) = 32 \<and> unat (ts_hist_pos ts) = n mod 32 \<and>
     (\<forall>j < n. n \<le> j + 32 \<longrightarrow> ts_hist ts ! (j mod 32) = \<lparr>hi_seq = word_of_nat j, hi_t0 = f j\<rparr>)"

lemma hist_put_holds:
  assumes "hist_holds f n ts"
  shows "\<exists>ts'. hist_put (word_of_nat n) (f n) ts = Some ts' \<and> hist_holds f (Suc n) ts'"
proof -
  have pos: "unat (ts_hist_pos ts) = n mod 32" and len: "length (ts_hist ts) = 32"
    and old: "\<And>j. j < n \<Longrightarrow> n \<le> j + 32 \<Longrightarrow> ts_hist ts ! (j mod 32) = \<lparr>hi_seq = word_of_nat j, hi_t0 = f j\<rparr>"
    using assms by (auto simp: hist_holds_def)
  have "unat (ts_hist_pos ts) < length (ts_hist ts)" using pos len by simp
  moreover have ne: "j mod 32 \<noteq> n mod 32" if "j < n" "Suc n \<le> j + 32" for j
  proof
    assume "j mod 32 = n mod 32"
    then have "(32 :: nat) dvd n - j" using that mod_eq_dvd_iff_nat [of j n 32] by simp
    then show False using that by (auto dest!: dvd_imp_le)
  qed
  ultimately obtain ts' where ts': "hist_put (word_of_nat n) (f n) ts = Some ts'"
      "ts_hist ts' = (ts_hist ts)[n mod 32 := \<lparr>hi_seq = word_of_nat n, hi_t0 = f n\<rparr>]" "unat (ts_hist_pos ts') = Suc n mod 32"
    using pos by (simp add: hist_put_def and_1F mod_Suc_eq)
  have "ts_hist ts' ! (j mod 32) = \<lparr>hi_seq = word_of_nat j, hi_t0 = f j\<rparr>" if "j < Suc n" "Suc n \<le> j + 32" for j
  proof (cases "j = n")
    case True
    then show ?thesis using ts'(2) len by simp
  next
    case False
    then have "j < n" using that(1) by simp
    then show ?thesis using ts'(2) len old [of j] ne [of j] that(2) by (simp add: nth_list_update)
  qed
  then show ?thesis using ts' len by (auto simp: hist_holds_def)
qed

lemma hist_puts_holds: "\<exists>ts'. hist_puts f n zero_ts = Some ts' \<and> hist_holds f n ts'"
proof (induction n)
  case 0
  then show ?case by (simp add: hist_holds_def zero_ts_def)
next
  case (Suc n)
  then show ?case using hist_put_holds by auto
qed

lemma window_index:
  fixes i j n :: nat
  assumes "i < 32" and "j < n" and "n \<le> j + 32" and "i < n"
  shows "\<exists>j'. j' < n \<and> n \<le> j' + 32 \<and> j' mod 32 = i"
proof -
  let ?j = "n - 1 - (n - 1 - i) mod 32"
  have "?j mod 32 = i"
  proof -
    have "n - 1 = i + (n - 1 - i)" using assms(4) by simp
    then have "?j = i + ((n - 1 - i) - (n - 1 - i) mod 32)" by (metis Nat.add_diff_assoc mod_less_eq_dividend)
    then have "?j = i + 32 * ((n - 1 - i) div 32)" by (simp add: minus_mod_eq_mult_div)
    then show ?thesis using assms(1) by simp
  qed
  moreover have "?j < n" "n \<le> ?j + 32" using assms(4) mod_less_divisor [of 32 "n - 1 - i"] by linarith+
  ultimately show ?thesis by blast
qed

lemma close_mod_eq:
  fixes k l q :: nat
  assumes "k \<le> l" "l < k + q" "k mod q = l mod q"
  shows "k = l"
proof (rule ccontr)
  assume "k \<noteq> l"
  then have "q \<le> l - k" using assms mod_eq_dvd_iff_nat [of k l q] by (intro dvd_imp_le) auto
  then show False using assms by linarith
qed

lemma window_seqs_differ:
  fixes j j' n :: nat
  assumes "j < n" "n \<le> j + 32" "j' < n" "n \<le> j' + 32" "(word_of_nat j :: u16) = word_of_nat j'"
  shows "j = j'"
proof -
  have m: "j mod 2 ^ 16 = j' mod 2 ^ 16" using assms(5) unfolding word_of_nat_eq_iff take_bit_nat_def by simp
  show ?thesis
  proof (cases "j \<le> j'")
    case True
    moreover have "j' < j + 2 ^ 16" using assms by simp
    ultimately show ?thesis using m by (rule close_mod_eq)
  next
    case False
    then have "j' \<le> j" "j < j' + 2 ^ 16" using assms by simp_all
    then show ?thesis using m [symmetric] by (rule close_mod_eq [symmetric])
  qed
qed

lemma hist_get_window:
  assumes "hist_holds f n ts" and j: "j < n" "n \<le> j + 32"
  shows "hist_get (word_of_nat j) ts = Some (f j)"
proof -
  let ?P = "\<lambda>i. hi_seq (ts_hist ts ! i) = word_of_nat j"
  have at: "\<And>k. k < n \<Longrightarrow> n \<le> k + 32 \<Longrightarrow> ts_hist ts ! (k mod 32) = \<lparr>hi_seq = word_of_nat k, hi_t0 = f k\<rparr>"
    using assms(1) by (auto simp: hist_holds_def)
  have hit: "?P (j mod 32)" using at [OF j] by simp
  have miss: "\<not> ?P i" if "i < j mod 32" for i
  proof -
    have "i < 32" "i < n" using that j(1) mod_less_eq_dividend [of j 32] mod_less_divisor [of 32 j] by linarith+
    then obtain j' where j': "j' < n" "n \<le> j' + 32" "j' mod 32 = i" using window_index j by blast
    then have "j' \<noteq> j" using that by auto
    then show ?thesis using at [OF j'(1,2)] j' window_seqs_differ [OF j'(1,2) j] by auto
  qed
  have "find ?P [0..<32] = Some (j mod 32)"
    using hit miss by (auto simp: find_Some_iff intro!: exI [of _ "j mod 32"])
  then show ?thesis using at [OF j] by (simp add: hist_get_def)
qed

section \<open>The operations are total\<close>

lemma update_ts_simps [simp]:
  "hp_ts (update_ts a f h) = (hp_ts h)(a := f (hp_ts h a))" "hp_cam (update_ts a f h) = hp_cam h" "hp_gimbal (update_ts a f h) = hp_gimbal h"
  "hp_bind (update_ts a f h) = hp_bind h" "hp_mgr (update_ts a f h) = hp_mgr h"
  "hp_chan (update_ts a f h) = hp_chan h" "hp_ext (update_ts a f h) = hp_ext h"
  by (simp_all add: update_ts_def)

lemma same_more_ts: "comm_heap.more h' = comm_heap.more h \<Longrightarrow> hp_ts h' = hp_ts h"
  by (cases h; cases h') simp

lemma queue_slot_update_ts [simp]: "queue_slot (update_ts a f h) = queue_slot h"
  by (rule queue_slot_cong) simp_all

lemma wf_heap_update_ts [simp]: "wf_heap (\<lambda>_. True) (update_ts a f h) = wf_heap (\<lambda>_. True) h"
  by (simp add: wf_heap_def)

lemma now_us_keeps:
  assumes "now_us A c h = (t, h')"
  shows "hp_bind h' = hp_bind h" "hp_mgr h' = hp_mgr h" "hp_chan h' = hp_chan h" "comm_heap.more h' = comm_heap.more h"
    "wf_heap I h' = wf_heap I h"
  using app_now_us_keeps [OF assms [unfolded now_us_def]]
    app_now_us_wf [of I A "tt_now_us (ts_time c)" "tt_user (ts_time c)" h] assms
  by (metis now_us_def snd_conv)+

definition req_image :: "u16 \<Rightarrow> u64 \<Rightarrow> u8 list" where
  "req_image seq t0 = le16 TS_SID_REQ @ le16 seq @ le64 t0"

definition resp_image :: "u16 \<Rightarrow> u64 \<Rightarrow> u64 \<Rightarrow> u8 list" where
  "resp_image seq t1 t2 = le16 TS_SID_RESP @ le16 seq @ le64 t1 @ le64 t2"

lemma ts_image_lengths [simp]: "length (req_image s t) = 12" "length (resp_image s t u) = 20"
  by (simp_all add: req_image_def resp_image_def)

lemma req_buffer:
  "do { buf \<leftarrow> comm_write_u16_le (stack_buffer 12) 0 TS_SID_REQ; buf \<leftarrow> comm_write_u16_le buf 2 seq;
        buf \<leftarrow> comm_write_u64_le buf 4 t0; k buf } = k (req_image seq t0)"
  by (simp add: le_write_eqs mem_write_def req_image_def)

lemma resp_buffer:
  "do { buf \<leftarrow> comm_write_u16_le (stack_buffer 20) 0 TS_SID_RESP; buf \<leftarrow> comm_write_u16_le buf 2 seq;
        buf \<leftarrow> comm_write_u64_le buf 4 t1; buf \<leftarrow> comm_write_u64_le buf 12 t2; k buf } = k (resp_image seq t1 t2)"
  by (simp add: le_write_eqs mem_write_def resp_image_def)

lemma ts_image_reads:
  "comm_read_u16_le (req_image s t @ rest) 0 = Some TS_SID_REQ" "comm_read_u16_le (req_image s t @ rest) 2 = Some s"
  "comm_read_u16_le (resp_image s t u @ rest) 0 = Some TS_SID_RESP" "comm_read_u16_le (resp_image s t u @ rest) 2 = Some s"
  "comm_read_u64_le (resp_image s t u @ rest) 4 = Some t" "comm_read_u64_le (resp_image s t u @ rest) 12 = Some u"
  by (simp_all add: req_image_def resp_image_def field_reads)

lemma ts_sample_hist: "ts_sample w t0 t1 t2 t3 ts = Some ts' \<Longrightarrow> ts_hist ts' = ts_hist ts \<and> ts_hist_pos ts' = ts_hist_pos ts"
  unfolding ts_sample_def Let_def
  by (cases "ts_offset_origin_valid ts = 0"; simp only: bind_Some_iff; elim exE conjE; simp only: if_True if_False split: if_split_asm)
    (auto simp: bind_Some_iff)

lemma ts_sample_wrapv: "\<exists>ts'. ts_sample True t0 t1 t2 t3 ts = Some ts'"
  by (simp add: ts_sample_def Let_def i64_add_def i64_sub_def i64_mul_def i64_result_def)

lemma ts_resp_defined:
  assumes "20 \<le> length p"
  shows "\<exists>s t u. comm_read_u16_le p 2 = Some s \<and> comm_read_u64_le p 4 = Some t \<and> comm_read_u64_le p 12 = Some u"
  using assms by (simp add: field_reads)

text \<open>A request: one response is queued and the channel objects stay as they are.\<close>

lemma ts_on_rx_req:
  assumes wf: "wf_heap I h" and u: "user \<noteq> 0" and len: "12 \<le> len" "len \<le> length p"
    and sid: "comm_read_u16_le p 0 = Some TS_SID_REQ" "comm_read_u16_le p 2 = Some seq"
  shows "\<exists>t1 h1 t2 h2 r h'. now_us A (hp_ts h user) h = (t1, h1) \<and> now_us A (hp_ts h user) h1 = (t2, h2) \<and>
    ch_uproto_queue_notify (ts_bind (hp_ts h user)) (ts_ch_id (hp_ts h user)) TS_SID_RESP 0 (Some (resp_image seq t1 t2)) 20 h2 = Some (r, h') \<and>
    ts_on_rx w A (Some p) len user h = Some h' \<and> wf_heap I h' \<and> comm_heap.more h' = comm_heap.more h"
proof -
  obtain t1 h1 where n1: "now_us A (hp_ts h user) h = (t1, h1)" by fastforce
  obtain t2 h2 where n2: "now_us A (hp_ts h user) h1 = (t2, h2)" by fastforce
  have m: "comm_heap.more h1 = comm_heap.more h" "comm_heap.more h2 = comm_heap.more h"
    using now_us_keeps(4) [OF n1] now_us_keeps(4) [OF n2] by simp_all
  have s1: "hp_ts h1 = hp_ts h" and s2: "hp_ts h2 = hp_ts h" by (rule same_more_ts [OF m(1)], rule same_more_ts [OF m(2)])
  have wf2: "wf_heap I h2" using wf now_us_keeps(5) [OF n1, of I] now_us_keeps(5) [OF n2, of I] by simp
  obtain r h' where q: "ch_uproto_queue_notify (ts_bind (hp_ts h user)) (ts_ch_id (hp_ts h user)) TS_SID_RESP 0
      (Some (resp_image seq t1 t2)) 20 h2 = Some (r, h')" "wf_heap I h'"
    using queue_notify_ok [OF wf2, of "Some (resp_image seq t1 t2)" 20 "ts_bind (hp_ts h user)" "ts_ch_id (hp_ts h user)" TS_SID_RESP 0] by auto
  have "ts_on_rx w A (Some p) len user h = Some h'"
    using u len sid n1 n2 s1 s2 q(1) by (simp add: ts_on_rx_def resp_buffer)
  then show ?thesis using n1 n2 q queue_notify_more(1) [OF q(1)] m(2) by auto
qed

text \<open>A response to a recorded request becomes a sample.\<close>

lemma ts_on_rx_resp:
  assumes u: "user \<noteq> 0" and len: "20 \<le> len"
    and sid: "comm_read_u16_le p 0 = Some TS_SID_RESP" "comm_read_u16_le p 2 = Some seq"
    and t: "comm_read_u64_le p 4 = Some t1" "comm_read_u64_le p 12 = Some t2" and now: "now_us A (hp_ts h user) h = (t3, h3)"
  shows "ts_on_rx w A (Some p) len user h = (case hist_get seq (hp_ts h user) of None \<Rightarrow> Some h3
    | Some t0 \<Rightarrow> map_option (\<lambda>ts. update_ts user (\<lambda>_. ts) h3) (ts_sample w t0 t1 t2 t3 (hp_ts h user)))"
proof -
  have "hp_ts h3 = hp_ts h" by (rule same_more_ts [OF now_us_keeps(4) [OF now]])
  moreover have "TS_SID_RESP \<noteq> TS_SID_REQ" by (simp add: TS_SID_REQ_def TS_SID_RESP_def)
  ultimately show ?thesis
    using u len sid t now by (simp add: ts_on_rx_def map_conv_bind_option comp_def split: option.split)
qed

text \<open>The ring as the code keeps it: \<open>n\<close> requests have been sent, and the next one carries number \<open>n\<close>.\<close>

definition requests_recorded :: "(nat \<Rightarrow> u64) \<Rightarrow> nat \<Rightarrow> time_sync_channel \<Rightarrow> bool" where
  "requests_recorded f n ts \<longleftrightarrow> hist_holds f n ts \<and> ts_seq ts = word_of_nat n"

lemma requests_recorded_ok: "requests_recorded f n ts \<Longrightarrow> ts_ok ts"
  by (simp add: requests_recorded_def hist_holds_def ts_ok_def)

lemma requests_recorded_zero: "requests_recorded f 0 zero_ts"
  by (simp add: requests_recorded_def hist_holds_def zero_ts_def)

lemma hist_holds_cong:
  assumes "hist_holds f n ts" and "\<And>j. j < n \<Longrightarrow> g j = f j" and "ts_hist ts' = ts_hist ts" "ts_hist_pos ts' = ts_hist_pos ts"
  shows "hist_holds g n ts'"
  using assms by (simp add: hist_holds_def)

lemma hist_put_fields:
  assumes "hist_put seq t0 ts = Some ts'"
  shows "ts_seq ts' = ts_seq ts" "ts_last_req_us ts' = ts_last_req_us ts" "ts_bind ts' = ts_bind ts" "ts_ch_id ts' = ts_ch_id ts"
  using assms by (auto simp: hist_put_def split: if_splits)

lemma record_request:
  assumes "requests_recorded f n ts"
  shows "\<exists>ts'. hist_put (ts_seq ts) now (ts\<lparr>ts_last_req_us := now, ts_seq := ts_seq ts + 1\<rparr>) = Some ts' \<and>
    requests_recorded (f(n := now)) (Suc n) ts' \<and> ts_last_req_us ts' = now \<and> ts_bind ts' = ts_bind ts \<and> ts_ch_id ts' = ts_ch_id ts"
proof -
  let ?ts = "ts\<lparr>ts_last_req_us := now, ts_seq := ts_seq ts + 1\<rparr>"
  have "hist_holds (f(n := now)) n ?ts"
    by (rule hist_holds_cong [of f n ts]) (use assms in \<open>simp_all add: requests_recorded_def\<close>)
  from hist_put_holds [OF this] assms obtain ts' where
    t: "hist_put (ts_seq ts) now ?ts = Some ts'" "hist_holds (f(n := now)) (Suc n) ts'" by (auto simp: requests_recorded_def)
  moreover have "ts_seq ts' = word_of_nat (Suc n)" using hist_put_fields(1) [OF t(1)] assms by (simp add: requests_recorded_def)
  ultimately show ?thesis using hist_put_fields [OF t(1)] by (simp add: requests_recorded_def)
qed

text \<open>The two outcomes of a tick of the initiator.\<close>

lemma ts_tick_cases:
  assumes a: "a \<noteq> 0" "ts_initiator (hp_ts h a) \<noteq> 0" and now: "now_us A (hp_ts h a) h = (now, h0)"
  defines "ts \<equiv> hp_ts h a"
  defines "due \<equiv> now - ts_last_req_us ts \<ge> ucast (ts_period_ms ts) * 1000"
  shows "\<not> due \<Longrightarrow> ts_on_tick A a h = Some h0"
    and "due \<Longrightarrow> hist_put (ts_seq ts) now (ts\<lparr>ts_last_req_us := now, ts_seq := ts_seq ts + 1\<rparr>) = Some ts' \<Longrightarrow>
      ts_on_tick A a h = map_option snd (ch_uproto_queue_notify (ts_bind ts) (ts_ch_id ts) TS_SID_REQ 0
        (Some (req_image (ts_seq ts) now)) 12 (update_ts a (\<lambda>_. ts') h0))"
proof -
  have same: "hp_ts h0 = hp_ts h" by (rule same_more_ts [OF now_us_keeps(4) [OF now]])
  show "ts_on_tick A a h = Some h0" if "\<not> due"
    using that a now same unfolding due_def ts_def by (simp add: ts_on_tick_def)
  assume due: due and put: "hist_put (ts_seq ts) now (ts\<lparr>ts_last_req_us := now, ts_seq := ts_seq ts + 1\<rparr>) = Some ts'"
  show "ts_on_tick A a h = map_option snd (ch_uproto_queue_notify (ts_bind ts) (ts_ch_id ts) TS_SID_REQ 0
        (Some (req_image (ts_seq ts) now)) 12 (update_ts a (\<lambda>_. ts') h0))"
    using due put hist_put_fields(3,4) [OF put] a now same unfolding due_def ts_def
    by (simp add: ts_on_tick_def Let_def req_buffer map_conv_bind_option comp_def case_prod_beta')
qed

lemma ts_on_tick_idle: "a = 0 \<or> ts_initiator (hp_ts h a) = 0 \<Longrightarrow> ts_on_tick A a h = Some h"
  by (auto simp: ts_on_tick_def)

lemma ts_tick_total:
  assumes wf: "wf_heap I h" and ok: "ts_ok (hp_ts h a)"
  shows "\<exists>h'. ts_on_tick A a h = Some h' \<and> wf_heap (\<lambda>_. True) h' \<and> (\<forall>x. x \<noteq> a \<longrightarrow> hp_ts h' x = hp_ts h x) \<and> hp_cam h' = hp_cam h \<and>
    (hp_ts h' a = hp_ts h a \<or>
     (\<exists>now. hist_put (ts_seq (hp_ts h a)) now ((hp_ts h a)\<lparr>ts_last_req_us := now, ts_seq := ts_seq (hp_ts h a) + 1\<rparr>) = Some (hp_ts h' a)))"
proof (cases "a = 0 \<or> ts_initiator (hp_ts h a) = 0")
  case True
  then show ?thesis using ts_on_tick_idle wf_heap_True [OF wf] by blast
next
  case False
  then have a: "a \<noteq> 0" "ts_initiator (hp_ts h a) \<noteq> 0" by simp_all
  obtain now h0 where now: "now_us A (hp_ts h a) h = (now, h0)" by fastforce
  have same: "hp_ts h0 = hp_ts h" by (rule same_more_ts [OF now_us_keeps(4) [OF now]])
  have cam: "hp_cam h0 = hp_cam h" by (rule same_more_cam [OF now_us_keeps(4) [OF now]])
  have wf0: "wf_heap (\<lambda>_. True) h0" using now_us_keeps(5) [OF now] wf_heap_True [OF wf] by blast
  show ?thesis
  proof (cases "now - ts_last_req_us (hp_ts h a) \<ge> ucast (ts_period_ms (hp_ts h a)) * 1000")
    case False
    then show ?thesis using ts_tick_cases(1) [OF a now] wf0 same cam by auto
  next
    case True
    have "ts_ok ((hp_ts h a)\<lparr>ts_last_req_us := now, ts_seq := ts_seq (hp_ts h a) + 1\<rparr>)" using ok by (simp add: ts_ok_def)
    from hist_put_ok [OF this] obtain ts' where
      put: "hist_put (ts_seq (hp_ts h a)) now ((hp_ts h a)\<lparr>ts_last_req_us := now, ts_seq := ts_seq (hp_ts h a) + 1\<rparr>) = Some ts'" by blast
    let ?h1 = "update_ts a (\<lambda>_. ts') h0"
    from queue_notify_ok [of "\<lambda>_. True" ?h1 "Some (req_image (ts_seq (hp_ts h a)) now)" 12] wf0
    obtain r h' where q: "ch_uproto_queue_notify (ts_bind (hp_ts h a)) (ts_ch_id (hp_ts h a)) TS_SID_REQ 0
        (Some (req_image (ts_seq (hp_ts h a)) now)) 12 ?h1 = Some (r, h')" "wf_heap (\<lambda>_. True) h'" by fastforce
    have "hp_ts h' = hp_ts ?h1" "hp_cam h' = hp_cam ?h1"
      by (rule same_more_ts [OF queue_notify_more(1) [OF q(1)]], rule same_more_cam [OF queue_notify_more(1) [OF q(1)]])
    then show ?thesis using ts_tick_cases(2) [OF a now True put] q same cam put by auto
  qed
qed

lemma ts_tick_keeps_ok:
  assumes "wf_heap I h" and ok: "ts_ok (hp_ts h a)"
  shows "\<exists>h'. ts_on_tick A a h = Some h' \<and> wf_heap (\<lambda>_. True) h' \<and> (\<forall>x. x \<noteq> a \<longrightarrow> hp_ts h' x = hp_ts h x) \<and> hp_cam h' = hp_cam h \<and>
    ts_ok (hp_ts h' a)"
proof -
  have "ts_ok ts'" if "hist_put (ts_seq (hp_ts h a)) now ((hp_ts h a)\<lparr>ts_last_req_us := now, ts_seq := ts_seq (hp_ts h a) + 1\<rparr>) = Some ts'" for now ts'
    using hist_put_ok [of "(hp_ts h a)\<lparr>ts_last_req_us := now, ts_seq := ts_seq (hp_ts h a) + 1\<rparr>" "ts_seq (hp_ts h a)" now] that ok
    by (auto simp: ts_ok_def)
  then show ?thesis using ts_tick_total [OF assms, of A] ok by metis
qed

lemma ts_rx_total:
  assumes wf: "wf_heap I h" and "len \<le> length p" and w: "w = True"
  shows "\<exists>h'. ts_on_rx w A (Some p) len user h = Some h' \<and> wf_heap (\<lambda>_. True) h' \<and> hp_cam h' = hp_cam h \<and>
    (\<forall>x. ts_hist (hp_ts h' x) = ts_hist (hp_ts h x) \<and> ts_hist_pos (hp_ts h' x) = ts_hist_pos (hp_ts h x))"
  (is "?G")
proof -
  consider (none) "ts_on_rx w A (Some p) len user h = Some h"
    | (req) seq where "user \<noteq> 0" "12 \<le> len" "comm_read_u16_le p 0 = Some TS_SID_REQ" "comm_read_u16_le p 2 = Some seq"
    | (resp) seq t1 t2 where "user \<noteq> 0" "20 \<le> len" "comm_read_u16_le p 0 = Some TS_SID_RESP" "comm_read_u16_le p 2 = Some seq"
        "comm_read_u64_le p 4 = Some t1" "comm_read_u64_le p 12 = Some t2"
  proof (cases "len < 2 \<or> user = 0")
    case True
    then show ?thesis using none by (auto simp: ts_on_rx_def)
  next
    case False
    then obtain sid where sid: "comm_read_u16_le p 0 = Some sid" using assms(2) by (simp add: field_reads)
    consider "sid = TS_SID_REQ" "12 \<le> len" | "sid = TS_SID_RESP" "20 \<le> len"
      | "sid = TS_SID_REQ \<longrightarrow> len < 12" "sid = TS_SID_RESP \<longrightarrow> len < 20" by linarith
    then show ?thesis
    proof cases
      case 1
      moreover obtain seq where "comm_read_u16_le p 2 = Some seq" using 1 assms(2) by (simp add: field_reads)
      ultimately show ?thesis using req sid False by blast
    next
      case 2
      then show ?thesis using resp sid False ts_resp_defined [of p] assms(2) by auto
    next
      case 3
      then show ?thesis using none sid False by (auto simp: ts_on_rx_def)
    qed
  qed
  then show ?G
  proof cases
    case none
    then show ?thesis using wf_heap_True [OF wf] by simp
  next
    case req
    from ts_on_rx_req [OF wf req(1,2) assms(2) req(3,4), of A w] obtain h' where
      h': "ts_on_rx w A (Some p) len user h = Some h'" "wf_heap I h'" "comm_heap.more h' = comm_heap.more h" by blast
    then show ?thesis using same_more_ts [OF h'(3)] same_more_cam [OF h'(3)] wf_heap_True by auto
  next
    case resp
    obtain t3 h3 where now: "now_us A (hp_ts h user) h = (t3, h3)" by fastforce
    have same: "hp_ts h3 = hp_ts h" "hp_cam h3 = hp_cam h"
      by (rule same_more_ts [OF now_us_keeps(4) [OF now]], rule same_more_cam [OF now_us_keeps(4) [OF now]])
    have wf3: "wf_heap (\<lambda>_. True) h3" using now_us_keeps(5) [OF now] wf_heap_True [OF wf] by blast
    show ?thesis
    proof (cases "hist_get seq (hp_ts h user)")
      case None
      then show ?thesis using ts_on_rx_resp [OF resp now, of w] same wf3 by simp
    next
      case (Some t0)
      from ts_sample_wrapv obtain ts' where "ts_sample w t0 t1 t2 t3 (hp_ts h user) = Some ts'" unfolding w by blast
      then show ?thesis using ts_on_rx_resp [OF resp now, of w] same wf3 Some ts_sample_hist by fastforce
    qed
  qed
qed

section \<open>Accuracy of one exchange\<close>

lemma sint_word_of_int_diff:
  assumes "\<bar>x - y\<bar> < 2 ^ 63"
  shows "sint (word_of_int x - word_of_int y :: i64) = x - y"
proof -
  have "word_of_int x - word_of_int y = (word_of_int (x - y) :: i64)" by simp
  then show ?thesis using assms sint_word_of_int_i64 [of "x - y"] by (simp add: abs_less_iff)
qed

lemma ucast_word_of_int: "ucast (word_of_int x :: u64) = (word_of_int x :: u32)"
  by transfer simp

lemma uint_word_of_int_u64: "0 \<le> x \<Longrightarrow> x < 2 ^ 64 \<Longrightarrow> uint (word_of_int x :: u64) = x"
  by (simp add: uint_word_of_int)

text \<open>
  One exchange with the true delays: request sent at \<open>T\<close>, forward delay \<open>d\<close>, processing time \<open>p\<close>, return delay
  \<open>d'\<close>, and a peer whose clock is ahead by \<open>\<theta>\<close>.
\<close>

definition plausible :: "int \<Rightarrow> int \<Rightarrow> int \<Rightarrow> int \<Rightarrow> int \<Rightarrow> bool" where
  "plausible T d p d' \<theta> \<longleftrightarrow> 0 \<le> d \<and> 0 \<le> p \<and> 0 \<le> d' \<and> d \<le> 2 ^ 57 \<and> d' \<le> 2 ^ 57 \<and> \<bar>\<theta>\<bar> \<le> 2 ^ 57 \<and>
     0 \<le> T + d + \<theta> \<and> T + d + \<theta> + p < 2 ^ 64"

lemma exchange_sample:
  assumes "plausible T d p d' \<theta>"
  defines "t0 \<equiv> word_of_int T" and "t1 \<equiv> word_of_int (T + d + \<theta>)" and "t2 \<equiv> word_of_int (T + d + \<theta> + p)"
    and "t3 \<equiv> word_of_int (T + d + p + d')"
  shows "\<bar>sint (t1 - t0)\<bar> \<le> 2 ^ 58" "\<bar>sint (t2 - t3)\<bar> \<le> 2 ^ 58" "t1 \<le> t2" "t3 - t0 - (t2 - t1) = word_of_int (d + d')"
    "2 * \<bar>sample_of t0 t1 t2 t3 - \<theta>\<bar> \<le> \<bar>d - d'\<bar> + 1"
proof -
  note b = assms(1) [unfolded plausible_def]
  have a: "sint (t1 - t0) = d + \<theta>"
    unfolding t0_def t1_def using sint_word_of_int_diff [of "T + d + \<theta>" T] b by (simp add: abs_le_iff abs_less_iff)
  have e: "sint (t2 - t3) = \<theta> - d'"
    unfolding t2_def t3_def using sint_word_of_int_diff [of "T + d + \<theta> + p" "T + d + p + d'"] b by (simp add: abs_le_iff abs_less_iff)
  show "\<bar>sint (t1 - t0)\<bar> \<le> 2 ^ 58" "\<bar>sint (t2 - t3)\<bar> \<le> 2 ^ 58" using a e b by (simp_all add: abs_le_iff)
  show "t1 \<le> t2" unfolding t1_def t2_def word_le_def
    using b uint_word_of_int_u64 [of "T + d + \<theta>"] uint_word_of_int_u64 [of "T + d + \<theta> + p"] by linarith
  show "t3 - t0 - (t2 - t1) = word_of_int (d + d')" unfolding t0_def t1_def t2_def t3_def by simp
  show "2 * \<bar>sample_of t0 t1 t2 t3 - \<theta>\<bar> \<le> \<bar>d - d'\<bar> + 1"
    unfolding sample_of_def a e by (subst int_sdiv_pos) (auto simp: abs_if)
qed

section \<open>A concrete channel\<close>

definition empty_link_heap :: "'p \<Rightarrow> 'p link_heap" where
  "empty_link_heap e = gimbal_heap.extend (empty_gimbal_heap e) (link_heap.fields (\<lambda>_. zero_ts))"

text \<open>An initialised channel at clock 1200, and the same after it sent its first request at clock 1000.\<close>

definition ts_link :: "pipe link_heap" where
  "ts_link = time_sync_channel_init (Some 50) (Some 20) (Some 10) TS_CH_ID (Some \<lparr>tt_now_us = Some 5, tt_user = 0\<rparr>)
     TS_PERIOD_MS TS_INITIATOR TS_PRIORITY
     (ch_uproto_bind_init (Some 20) (Some 1) 0x35 (Some 10) (empty_link_heap (pipe0\<lparr>pi_clock := 1200\<rparr>)))"

definition ts_link1 :: "pipe link_heap" where
  "ts_link1 = update_ts 50 (\<lambda>c. c\<lparr>ts_hist := (ts_hist c)[0 := \<lparr>hi_seq = 0, hi_t0 = 1000\<rparr>], ts_hist_pos := 1, ts_seq := 1\<rparr>) ts_link"

lemmas ts_link_defs = ts_link_def ts_link1_def time_sync_channel_init_def channel_attach_def
  ch_uproto_bind_init_def channel_init_def channel_bind_transport_def chmgr_register_def empty_link_heap_def empty_gimbal_heap_def empty_heap_def
  gimbal_heap.defs link_heap.defs zero_manager_def zero_channel_def zero_ts_def update_ts_def Let_def

lemma empty_link_heap_wf: "wf_heap (\<lambda>_. True) (empty_link_heap e)"
  by (simp add: empty_link_heap_def empty_gimbal_heap_def gimbal_heap.defs empty_heap_def wf_heap_def zero_manager_wf wf_bind_def
    list_all_length zero_pending_wf)

lemma ts_link_wf: "wf_heap (\<lambda>_. True) ts_link"
  by (simp add: ts_link_def time_sync_channel_init_def Let_def attach_wf bind_init_wf empty_link_heap_wf)

lemma ts_link_ts:
  "requests_recorded f 0 (hp_ts ts_link 50)" "requests_recorded (\<lambda>_. 1000) 1 (hp_ts ts_link1 50)"
  "ts_bounded (hp_ts ts_link1 50)" "ts_max_rtt_us (hp_ts ts_link1 50) = 0" "ts_offset_origin_valid (hp_ts ts_link1 50) = 0"
  "fst (now_us pipe_cam_app (hp_ts ts_link1 50) ts_link1) = 1200" "hist_get 0 (hp_ts ts_link1 50) = Some 1000"
  by (simp_all add: ts_link_defs requests_recorded_def hist_holds_def ts_bounded_def now_us_def app_now_us_def pipe_cam_app_def pipe0_def
    hist_get_def upt_conv_Cons)

section \<open>Properties of the time synchronisation channel\<close>

text \<open>
  Request history: started on an initialised channel, every tick of the initiator returns; it either leaves
  the channel as it is or records one more request, with the next 16-bit number and the time of the tick, so
  that the ring always holds the last 32 requests.
\<close>

theorem ts_tick_records:
  assumes "wf_heap I h" and "requests_recorded f n (hp_ts h a)"
  shows "\<exists>h'. ts_on_tick A a h = Some h' \<and> wf_heap (\<lambda>_. True) h' \<and>
    (hp_ts h' a = hp_ts h a \<or> requests_recorded (f(n := ts_last_req_us (hp_ts h' a))) (Suc n) (hp_ts h' a))"
proof -
  have "requests_recorded (f(n := ts_last_req_us ts')) (Suc n) ts'"
    if "hist_put (ts_seq (hp_ts h a)) now ((hp_ts h a)\<lparr>ts_last_req_us := now, ts_seq := ts_seq (hp_ts h a) + 1\<rparr>) = Some ts'" for now ts'
    using record_request [OF assms(2), of now] that by auto
  then show ?thesis using ts_tick_total [OF assms(1) requests_recorded_ok [OF assms(2)], of A] by metis
qed

theorem ts_tick_records_witness:
  "\<exists>h'. ts_on_tick pipe_cam_app 50 ts_link = Some h' \<and> ts_ok (hp_ts h' 50)"
  using ts_tick_records [OF ts_link_wf ts_link_ts(1) [of "\<lambda>_. 0"], of pipe_cam_app] requests_recorded_ok ts_link_ts(1) by metis



text \<open>
  C28. Convergence of the filter: a series of in-range exchanges with the same sample \<open>c\<close> is processed without
  overflow, the error of the filtered offset shrinks by nine tenths with each, down to the rounding error of 9
  microseconds, and once the factor has used up the initial error the offset stays within 9 microseconds.
\<close>

theorem ts_filter_converges:
  assumes "ts_bounded ts" and "ts_max_rtt_us ts = 0" and "list_all in_range xs" and "list_all (sample_is c) xs"
  shows "\<exists>ts'. ts_samples False xs ts = Some ts' \<and>
    10 ^ length xs * (\<bar>sint (ts_offset_us ts') - c\<bar> - 9) \<le> 9 ^ length xs * (\<bar>sint (ts_offset_us ts) - c\<bar> - 9) \<and>
    (9 ^ length xs * (\<bar>sint (ts_offset_us ts) - c\<bar> - 9) < 10 ^ length xs \<longrightarrow> \<bar>sint (ts_offset_us ts') - c\<bar> \<le> 9)"
proof -
  have "y \<le> 0" if "10 ^ n * y \<le> z" "z < 10 ^ n" for y z :: int and n
  proof (rule ccontr)
    assume "\<not> y \<le> 0"
    then have "10 ^ n \<le> 10 ^ n * y" using mult_left_mono [of 1 y "10 ^ n"] by simp
    then show False using that by linarith
  qed
  then show ?thesis using ts_samples_converge [OF assms, of False] by fastforce
qed

theorem ts_filter_converges_witness:
  "\<exists>ts'. ts_samples False (replicate 70 (0, 1000, 1000, 0)) zero_ts = Some ts' \<and> \<bar>sint (ts_offset_us ts') - 1000\<bar> \<le> 9"
  using ts_filter_converges [of zero_ts "replicate 70 (0, 1000, 1000, 0)" 1000]
  by (auto simp: ts_bounded_def zero_ts_def in_range_def sample_is_def sample_of_def int_sdiv_pos list_all_length)

text \<open>
  The first mapping: one accepted sample marks the mapping as valid, while the filtered offset that
  \<open>time_sync_channel_now_us\<close> adds is a tenth of the sample: the filter starts from zero and is not
  primed with the first sample.
\<close>

theorem ts_first_mapping_off:
  assumes "ts_bounded ts" and "ts_max_rtt_us ts = 0" and "ts_offset_us ts = 0"
    and "in_range (t0, t1, t2, t3)" and "10 \<le> sample_of t0 t1 t2 t3"
  shows "\<exists>ts'. ts_sample False t0 t1 t2 t3 ts = Some ts' \<and> ts_mapping_valid ts' = 1 \<and>
    sint (ts_offset_us ts') = sample_of t0 t1 t2 t3 div 10 \<and> sint (ts_offset_us ts') < sample_of t0 t1 t2 t3"
proof -
  have "\<bar>sint (t1 - t0)\<bar> \<le> 2 ^ 58" "\<bar>sint (t2 - t3)\<bar> \<le> 2 ^ 58" using assms(4) by (simp_all add: in_range_def)
  from ts_sample_accepted [OF assms(1,2) this, of False] show ?thesis using assms(3,5) by (auto simp: iir_def int_sdiv_pos)
qed

theorem ts_first_mapping_off_witness:
  "\<exists>ts'. ts_sample False 0 1000 1000 0 zero_ts = Some ts' \<and> ts_mapping_valid ts' = 1 \<and> sint (ts_offset_us ts') = 100"
  using ts_first_mapping_off [of zero_ts 0 1000 1000 0]
  by (auto simp: ts_bounded_def zero_ts_def in_range_def sample_of_def int_sdiv_pos)

text \<open>
  Signed overflow from the wire: a response that names a recorded request can choose its two time stamps
  so that the sum of the two differences overflows, which the C standard leaves undefined.
\<close>

theorem ts_response_overflow:
  assumes "a \<noteq> 0" and "hist_get seq (hp_ts h a) = Some t0" and "now_us A (hp_ts h a) h = (t3, h3)"
  shows "ts_on_rx False A (Some (resp_image seq (t0 + 0x7FFFFFFFFFFFFFFF) (t3 + 0x7FFFFFFFFFFFFFFF))) 20 a h = None"
proof -
  have "sint (0x7FFFFFFFFFFFFFFF :: i64) = 0x7FFFFFFFFFFFFFFF" by simp
  then have "ts_sample False t0 (t0 + 0x7FFFFFFFFFFFFFFF) (t3 + 0x7FFFFFFFFFFFFFFF) t3 (hp_ts h a) = None"
    by (simp add: ts_sample_def Let_def i64_add_def i64_result_def)
  then show ?thesis
    using ts_on_rx_resp [OF assms(1) order_refl ts_image_reads(3-6) assms(3), where w = False and rest1 = "[]"]
      assms(2) by simp
qed

theorem ts_response_overflow_witness:
  "ts_on_rx False pipe_cam_app (Some (resp_image 0 (1000 + 0x7FFFFFFFFFFFFFFF) (1200 + 0x7FFFFFFFFFFFFFFF))) 20 50 ts_link1 = None"
  using ts_response_overflow [of 50 0 ts_link1 1000 pipe_cam_app 1200 "snd (now_us pipe_cam_app (hp_ts ts_link1 50) ts_link1)"]
    ts_link_ts(6,7) by (simp add: prod_eq_iff)

end
