(* ===== verification/Link.thy ===== *)
theory Link
  imports Gimbal_Mailbox Time_Sync
begin

text \<open>
  The device side of the link as a whole: the hook pointers that the three channels register, resolved to the
  channels' own handlers, over one heap with all channel objects.
\<close>

section \<open>The hooks of the channels\<close>

text \<open>A handler that does not use the protocol context.\<close>

definition on_heap :: "('h \<Rightarrow> 'h option) \<Rightarrow> uproto_context \<times> 'h \<Rightarrow> (uproto_context \<times> 'h) option" where
  "on_heap f s = map_option (Pair (fst s)) (f (snd s))"

definition link_hooks ::
  "gimbal_build \<Rightarrow> bool \<Rightarrow> ('p, 'y) gimbal_app_scheme \<Rightarrow> 'p link_heap comm_hooks" where
  "link_hooks B wrapv A = \<lparr>
     hk_on_rx = (\<lambda>f c payload n user. on_heap (
       if f = fn_camera_on_rx then camera_on_rx A (Some payload) n user
       else if f = fn_gimbal_on_rx then gimbal_on_rx B A (Some payload) n user
       else if f = fn_ts_on_rx then ts_on_rx wrapv A (Some payload) n user
       else Some)),
     hk_on_tick = (\<lambda>f c user. on_heap (
       if f = fn_gimbal_on_tick then gimbal_on_tick B A user
       else if f = fn_ts_on_tick then ts_on_tick A user
       else Some)),
     hk_on_cfg_change = (\<lambda>f c cfg user. Some)\<rparr>"

text \<open>A build without the extension macro, which the configuration header leaves empty by default.\<close>

definition plain_build :: "gimbal_build \<Rightarrow> gimbal_build" where
  "plain_build B = B\<lparr>GIMBAL_STATE_PACK_EXT := \<lambda>_. []\<rparr>"

section \<open>The invariant of the channel objects\<close>

definition link_ok where
  "link_ok e \<longleftrightarrow> (let h = comm_heap.extend (empty_heap ()) e :: unit link_heap in (\<forall>a. cam_ok (hp_cam h a)) \<and> (\<forall>a. ts_ok (hp_ts h a)))"

lemma link_ok_more: "link_ok (comm_heap.more h) \<longleftrightarrow> (\<forall>a. cam_ok (hp_cam h a)) \<and> (\<forall>a. ts_ok (hp_ts h a))"
  by (cases h) (simp add: link_ok_def comm_heap.defs empty_heap_def)

lemma wf_link_iff: "wf_heap link_ok h \<longleftrightarrow> wf_heap (\<lambda>_. True) h \<and> (\<forall>a. cam_ok (hp_cam h a)) \<and> (\<forall>a. ts_ok (hp_ts h a))"
  using link_ok_more [of h] by (auto simp: wf_heap_def)

lemma camera_on_rx_total:
  assumes "wf_heap (\<lambda>_. True) h" and "\<forall>a. cam_ok (hp_cam h a)" and "len \<le> length p"
  shows "\<exists>h'. camera_on_rx A (Some p) len user h = Some h' \<and> wf_heap (\<lambda>_. True) h' \<and> (\<forall>a. cam_ok (hp_cam h' a)) \<and>
    cam_heap.more h' = cam_heap.more h"
proof (cases "len < 2 \<or> user = 0")
  case True
  then show ?thesis using assms by (auto simp: camera_on_rx_def)
next
  case False
  have "cam_ok ((cam_fifo_clear c)\<lparr>cam_next_frame_id := 1, cam_ack_pending := 1\<rparr>)" if "cam_ok c" for c
    using cam_fifo_clear_ok [OF that] by (simp add: cam_ok_def)
  then show ?thesis
    using False assms by (auto simp: camera_on_rx_def mem_get_def Let_def update_cam_def wf_heap_def split: option.split)
qed

lemma same_cam_more_ts: "cam_heap.more h' = cam_heap.more h \<Longrightarrow> hp_ts h' = hp_ts h"
  by (cases h; cases h') simp

lemma camera_rx_link:
  assumes "wf_heap link_ok h" and "n \<le> length p"
  shows "\<exists>h'. camera_on_rx A (Some p) n user h = Some h' \<and> wf_heap link_ok h'"
  using camera_on_rx_total [of h n p A user] assms same_cam_more_ts by (metis wf_link_iff)

lemma ts_rx_link:
  assumes "wf_heap link_ok h" and "n \<le> length p"
  shows "\<exists>h'. ts_on_rx True A (Some p) n user h = Some h' \<and> wf_heap link_ok h'"
  using ts_rx_total [OF assms refl, of A user] assms(1) unfolding wf_link_iff by (metis ts_ok_def)

lemma ts_tick_link:
  assumes "wf_heap link_ok h"
  shows "\<exists>h'. ts_on_tick A user h = Some h' \<and> wf_heap link_ok h'"
  using ts_tick_keeps_ok [OF assms, of user A] assms unfolding wf_link_iff by metis

lemma same_gimbal_fields: "hp_cam (update_gimbal a f h) = hp_cam h" "hp_ts (update_gimbal a f h) = hp_ts h"
  by (simp_all add: update_gimbal_def)

lemma gimbal_tick_link:
  assumes wf: "wf_heap link_ok h"
  shows "\<exists>h'. gimbal_on_tick (plain_build B) A user h = Some h' \<and> wf_heap link_ok h'"
proof -
  let ?c = "hp_gimbal h user"
  have ext: "\<And>st. GIMBAL_STATE_PACK_EXT (plain_build B) st = []" by (simp add: plain_build_def)
  obtain now h0 where now: "app_now_us A (gm_now_us ?c) (gm_time_user ?c) h = (now, h0)" by fastforce
  have wf0: "wf_heap link_ok h0" using app_now_us_wf [of link_ok A "gm_now_us ?c" "gm_time_user ?c" h] wf now by simp
  consider "user = 0" | "so_get_state (gm_src ?c) = None \<or> so_period_ms (gm_src ?c) = 0"
    | "user \<noteq> 0" "so_get_state (gm_src ?c) \<noteq> None" "so_period_ms (gm_src ?c) \<noteq> 0" by blast
  then show ?thesis
  proof cases
    case 3
    note cases = gimbal_tick_cases [OF wf ext 3 now]
    show ?thesis
    proof (cases "gm_last_pub_us ?c = 0 \<or> now - gm_last_pub_us ?c \<ge> ucast (so_period_ms (gm_src ?c)) * 1000")
      case True
      from cases(1) [OF this] obtain h1 where "wf_heap link_ok h1"
        "gimbal_on_tick (plain_build B) A user h = Some (update_gimbal user (\<lambda>c. c\<lparr>gm_last_pub_us := now\<rparr>) h1)" by blast
      then show ?thesis by (simp add: wf_link_iff same_gimbal_fields)
    next
      case False
      then show ?thesis using cases(2) wf0 by blast
    qed
  qed (use wf in \<open>auto simp: gimbal_on_tick_def\<close>)
qed

section \<open>The contract of the channel hooks\<close>

lemma on_heap_keeps: "(\<And>h. W h \<Longrightarrow> \<exists>h'. f h = Some h' \<and> W h') \<Longrightarrow> keeps W (on_heap f)"
  by (fastforce simp: keeps_def on_heap_def)

lemma on_heap_rx_free: "rx_free (on_heap f)"
  by (simp add: rx_free_def on_heap_def option.map_comp comp_def)

interpretation dm02: comm_callbacks P "link_hooks (plain_build B) True A" link_ok for P B A
proof unfold_locales
  show "keeps (wf_heap link_ok) (hk_on_rx (link_hooks (plain_build B) True A) f c payload n u)" if "n \<le> length payload" for n payload f c u
    unfolding link_hooks_def
    by (simp, intro conjI impI on_heap_keeps camera_rx_link gimbal_on_rx_total ts_rx_link that) (use that in auto)
  show "keeps (wf_heap link_ok) (hk_on_tick (link_hooks (plain_build B) True A) f c u)" for f c u
    unfolding link_hooks_def by (simp, intro conjI impI on_heap_keeps gimbal_tick_link ts_tick_link) auto
qed (simp_all add: link_hooks_def on_heap_rx_free)

section \<open>Any order of operations\<close>

text \<open>The operations that the main loop, the port and the interrupt handlers of a device call, in any order.\<close>

datatype link_op =
    Op_rx "u8 list"
  | Op_uproto_tick
  | Op_channels_tick
  | Op_arbiter_tick
  | Op_camera_trigger
  | Op_camera_tick
  | Op_publish "gimbal_state option"

record 'p device =
  dv_app :: "'p app"
  dv_hooks :: "'p gimbal_app"
  dv_camera_build :: camera_build
  dv_gimbal_build :: gimbal_build
  dv_mgr :: "addr option"
  dv_bind :: "addr option"
  dv_cam :: "addr option"
  dv_gimbal :: "addr option"

definition dv_link_hooks :: "'p device \<Rightarrow> 'p link_heap comm_hooks" where
  "dv_link_hooks D = link_hooks (plain_build (dv_gimbal_build D)) True (dv_hooks D)"

fun link_apply :: "'p device \<Rightarrow> link_op \<Rightarrow> uproto_context \<times> 'p link_heap \<Rightarrow> (uproto_context \<times> 'p link_heap) option" where
  "link_apply D (Op_rx data) s = uproto_on_rx_bytes (comm_env (dv_app D) (dv_link_hooks D)) data (length data) s"
| "link_apply D Op_uproto_tick s = uproto_tick (comm_env (dv_app D) (dv_link_hooks D)) s"
| "link_apply D Op_channels_tick s = chmgr_tick (dv_link_hooks D) (dv_mgr D) s"
| "link_apply D Op_arbiter_tick s = ch_uproto_arbiter_tick (comm_env (dv_app D) (dv_link_hooks D)) (dv_bind D) s"
| "link_apply D Op_camera_trigger s = on_heap (camera_channel_trigger (dv_camera_build D) (dv_hooks D) (dv_cam D)) s"
| "link_apply D Op_camera_tick s = on_heap (camera_channel_tick (dv_cam D)) s"
| "link_apply D (Op_publish st) s =
     on_heap (\<lambda>h. map_option snd (gimbal_channel_publish (plain_build (dv_gimbal_build D)) (dv_hooks D) (dv_gimbal D) st h)) s"

fun link_run :: "'p device \<Rightarrow> link_op list \<Rightarrow> uproto_context \<times> 'p link_heap \<Rightarrow> (uproto_context \<times> 'p link_heap) option" where
  "link_run D [] s = Some s"
| "link_run D (x # xs) s = do { s \<leftarrow> link_apply D x s; link_run D xs s }"

lemma more_cam_more: "comm_heap.more h' = comm_heap.more h \<Longrightarrow> cam_heap.more h' = cam_heap.more h"
  by (cases h; cases h') simp

lemma update_cam_more [simp]: "cam_heap.more (update_cam a f h) = cam_heap.more h"
  by (simp add: update_cam_def)

lemma trigger_more:
  assumes "camera_channel_trigger B A cam h = Some h'"
  shows "cam_heap.more h' = cam_heap.more h"
proof -
  have now: "cam_heap.more g' = cam_heap.more g" if "app_now_us A f u g = (t, g')" for f u t and g g' :: "('a, 'b) cam_heap_scheme"
    by (rule more_cam_more [OF app_now_us_keeps(4) [OF that]])
  have q: "cam_heap.more g' = cam_heap.more g" if "ch_uproto_queue_notify b c s fl p n g = Some (r, g')"
    for b c s fl p n r and g g' :: "('a, 'b) cam_heap_scheme"
    by (rule more_cam_more [OF queue_notify_more(1) [OF that]])
  show ?thesis using assms unfolding camera_channel_trigger_def
    by (auto simp: Let_def bind_Some_iff split: option.splits if_splits prod.splits dest!: now q)
qed

lemma trigger_link:
  assumes "wf_heap link_ok h"
  shows "\<exists>h'. camera_channel_trigger B A cam h = Some h' \<and> wf_heap link_ok h'"
proof (cases "CAM_EVENT_PUBLISH_ENABLE B \<and> cam \<noteq> None")
  case True
  then obtain a where a: "cam = Some a" and en: "CAM_EVENT_PUBLISH_ENABLE B" by auto
  from trigger_step [OF en assms, of A a] obtain ts h' where
    t: "camera_channel_trigger B A cam h = Some h'" "wf_heap (\<lambda>_. True) h'"
      "hp_cam h' = (hp_cam h)(a := log_event \<lparr>ev_frame_id = cam_next_frame_id (hp_cam h a), ev_ts_us = ts\<rparr>
         (hp_cam h a\<lparr>cam_next_frame_id := cam_next_frame_id (hp_cam h a) + 1\<rparr>))" unfolding a by blast
  have "cam_ok (hp_cam h' x)" for x
    using assms unfolding t(3) by (auto simp: wf_link_iff cam_ok_def intro!: log_event_ok [unfolded cam_ok_def])
  moreover have "hp_ts h' = hp_ts h" by (rule same_cam_more_ts [OF trigger_more [OF t(1)]])
  ultimately show ?thesis using t(1,2) assms by (simp add: wf_link_iff)
next
  case False
  then show ?thesis using assms by (auto simp: camera_channel_trigger_def split: option.splits)
qed

lemma camera_tick_link:
  assumes "wf_heap link_ok h"
  shows "\<exists>h'. camera_channel_tick cam h = Some h' \<and> wf_heap link_ok h'"
proof (cases "\<exists>a. cam = Some a \<and> cam_ack_pending (hp_cam h a) \<noteq> 0")
  case True
  then obtain a where a: "cam = Some a" "cam_ack_pending (hp_cam h a) \<noteq> 0" by blast
  from queue_notify_ok [OF assms, of "Some (le16 CAM_SID_RESET)" 2 "cam_bind (hp_cam h a)" "cam_ch_id (hp_cam h a)" CAM_SID_RESET 0]
  obtain r h' where q: "ch_uproto_queue_notify (cam_bind (hp_cam h a)) (cam_ch_id (hp_cam h a)) CAM_SID_RESET 0
      (Some (le16 CAM_SID_RESET)) 2 h = Some (r, h')" "wf_heap link_ok h'" by auto
  then have "wf_heap link_ok (update_cam a (\<lambda>c. c\<lparr>cam_ack_pending := 0\<rparr>) h')"
    by (simp add: wf_link_iff cam_ok_def) (simp add: update_cam_def)
  then show ?thesis using a q by (simp add: camera_channel_tick_def ack_buffer)
next
  case False
  then show ?thesis using assms by (auto simp: camera_channel_tick_def split: option.splits)
qed

lemma keeps_on_heap_safe: "(\<And>h. W h \<Longrightarrow> \<exists>h'. f h = Some h' \<and> W h') \<Longrightarrow> wf_ctx ctx \<Longrightarrow> W h \<Longrightarrow> safe W ctx (on_heap f (ctx, h))"
  using on_heap_keeps [of W f] by (simp add: keeps_safe)

lemma link_apply_safe:
  assumes wf: "wf_ctx ctx" "wf_heap link_ok h"
  shows "safe (wf_heap link_ok) ctx (link_apply D x (ctx, h))"
proof (cases x)
  case (Op_publish st)
  show ?thesis unfolding Op_publish link_apply.simps
  proof (rule keeps_on_heap_safe)
    fix g :: "'a link_heap" assume "wf_heap link_ok g"
    from publish_total [OF this, of "plain_build (dv_gimbal_build D)" "dv_hooks D" "dv_gimbal D" st]
    show "\<exists>h'. map_option snd (gimbal_channel_publish (plain_build (dv_gimbal_build D)) (dv_hooks D) (dv_gimbal D) st g) = Some h' \<and>
        wf_heap link_ok h'" by (auto simp: plain_build_def)
  qed (fact wf)+
qed (use wf in \<open>auto simp: dv_link_hooks_def simp del: on_heap_def intro!: dm02.on_rx_bytes_safe dm02.tick_safe dm02.chmgr_tick_safe
    dm02.arbiter_tick_safe keeps_on_heap_safe trigger_link camera_tick_link\<close>)

lemma link_run_safe: "wf_ctx ctx \<Longrightarrow> wf_heap link_ok h \<Longrightarrow> safe (wf_heap link_ok) ctx (link_run D xs (ctx, h))"
proof (induction xs arbitrary: ctx h)
  case (Cons x xs)
  show ?case unfolding link_run.simps
    by (rule safe_bind [OF link_apply_safe [OF Cons.prems]]) (metis Cons.IH safe_from)
qed simp

section \<open>Initialisation\<close>

lemma link_ok_same_more: "wf_heap link_ok h \<Longrightarrow> wf_heap (\<lambda>_. True) h' \<Longrightarrow> comm_heap.more h' = comm_heap.more h \<Longrightarrow> wf_heap link_ok h'"
  by (simp add: wf_heap_def)

lemma camera_init_link:
  assumes "wf_heap link_ok h"
  shows "wf_heap link_ok (camera_channel_init_ex cam bnd mgr cfg now u k h)"
proof -
  have ok: "cam_ok (cam_fifo_clear c)" if "cam_fifo c = replicate CAM_FIFO_CAP zero_evt" "cam_fifo_count c = 0" for c
    using that by (intro cam_fifo_clear_ok) (simp add: cam_ok_def)
  have "wf_heap link_ok (update_cam a (\<lambda>_. cam_fifo_clear (zero_camera\<lparr>cam_bind := b, cam_mgr := m, cam_ch_id := i, cam_now_us := f,
      cam_time_user := u, cam_hooks := k, cam_next_frame_id := 1\<rparr>)) h)" for a b m i f u k
    using assms ok by (simp add: wf_link_iff zero_camera_def) (simp add: update_cam_def)
  then show ?thesis using assms by (auto simp: camera_channel_init_ex_def Let_def attach_wf split: option.splits)
qed

lemma update_gimbal_link: "wf_heap link_ok h \<Longrightarrow> wf_heap link_ok (update_gimbal a f h)"
  by (simp add: wf_link_iff same_gimbal_fields)

lemma gimbal_init_link:
  assumes "wf_heap link_ok h"
  shows "wf_heap link_ok (gimbal_channel_init_ex gc bnd mgr cfg src k now u h)"
  using assms
  by (auto simp: gimbal_channel_init_ex_def gimbal_channel_init_def Let_def intro!: attach_wf update_gimbal_link split: option.splits)

lemma update_ts_link: "wf_heap link_ok h \<Longrightarrow> (\<And>c. ts_ok c \<Longrightarrow> ts_ok (f c)) \<Longrightarrow> wf_heap link_ok (update_ts a f h)"
  by (simp add: wf_link_iff)

lemma ts_init_link:
  assumes "wf_heap link_ok h"
  shows "wf_heap link_ok (time_sync_channel_init_ex ts bnd mgr cfg tt h)"
proof -
  have "wf_heap link_ok (time_sync_channel_init ts bnd mgr i tt p r q h)" for i p r q
    using assms
    by (auto simp: time_sync_channel_init_def Let_def intro!: attach_wf update_ts_link split: option.splits) (simp_all add: ts_ok_def zero_ts_def)
  then show ?thesis
    by (auto simp: time_sync_channel_init_ex_def time_sync_channel_set_max_rtt_us_def Let_def assms intro!: update_ts_link
      split: option.splits) (simp add: ts_ok_def)
qed

text \<open>A device: the binding and the three channels initialised with any configuration, each at its address.\<close>

record device_setup =
  su_ctx :: addr
  su_msg_type :: u8
  su_camera :: camera_channel_cfg
  su_camera_hooks :: "camera_channel_hooks option"
  su_gimbal :: gimbal_channel_cfg
  su_source :: "gimbal_source_ops option"
  su_gimbal_hooks :: "gimbal_hooks option"
  su_ts :: ts_channel_cfg
  su_time :: ts_time_ops

definition device_init :: "device_setup \<Rightarrow> 'p \<Rightarrow> 'p link_heap" where
  "device_init S e =
     time_sync_channel_init_ex (Some 50) (Some 20) (Some 10) (Some (su_ts S)) (Some (su_time S))
      (gimbal_channel_init_ex (Some 40) (Some 20) (Some 10) (Some (su_gimbal S)) (su_source S) (su_gimbal_hooks S)
        (tt_now_us (su_time S)) (tt_user (su_time S))
       (camera_channel_init_ex (Some 30) (Some 20) (Some 10) (Some (su_camera S)) (tt_now_us (su_time S)) (tt_user (su_time S)) (su_camera_hooks S)
         (ch_uproto_bind_init (Some 20) (Some (su_ctx S)) (su_msg_type S) (Some 10) (chmgr_init (Some 10) (empty_link_heap e)))))"

lemma device_init_wf: "wf_heap link_ok (device_init S e)"
proof -
  have "wf_heap link_ok (empty_link_heap e)"
    using empty_link_heap_wf [of e] requests_recorded_ok [OF requests_recorded_zero]
    by (simp add: wf_link_iff) (simp add: empty_link_heap_def gimbal_heap.defs link_heap.defs empty_gimbal_heap_def zero_camera_ok)
  then show ?thesis
    unfolding device_init_def by (intro ts_init_link gimbal_init_link camera_init_link bind_init_wf chmgr_init_wf)
qed

section \<open>Properties of the device\<close>


definition pipe_device :: "pipe device" where
  "pipe_device = \<lparr>dv_app = pipe_app, dv_hooks = pipe_gimbal_app, dv_camera_build = cam_build_on, dv_gimbal_build = gimbal_config,
     dv_mgr = Some 10, dv_bind = Some 20, dv_cam = Some 30, dv_gimbal = Some 40\<rparr>"

definition pipe_setup :: device_setup where
  "pipe_setup = \<lparr>su_ctx = 1, su_msg_type = 0x35, su_camera = \<lparr>kc_ch_id = CAM_CH_ID, kc_priority = CAM_PRIORITY\<rparr>, su_camera_hooks = None,
     su_gimbal = \<lparr>gg_ch_id = GIMBAL_CH_ID, gg_priority = GIMBAL_PRIORITY, gg_period_ms = GIMBAL_PUB_PERIOD_MS\<rparr>,
     su_source = Some \<lparr>so_get_state = Some 6, so_user = 0, so_period_ms = 0\<rparr>,
     su_gimbal_hooks = Some \<lparr>gh_on_delta = Some 7, gh_on_fire = Some 8, gh_on_chassis = Some 9, gh_on_referee_query = None, gh_user = 0\<rparr>,
     su_ts = \<lparr>tc_ch_id = TS_CH_ID, tc_period_ms = TS_PERIOD_MS, tc_initiator = 0, tc_priority = TS_PRIORITY, tc_max_rtt_us = TS_MAX_RTT_US\<rparr>,
     su_time = \<lparr>tt_now_us = Some 5, tt_user = 0\<rparr>\<rparr>"


end
