(* ===== verification/Host_Driver.thy ===== *)
theory Host_Driver
  imports Link
begin

text \<open>
  The host side of the link, \<^verbatim>\<open>impl/dm02_driver.cpp\<close>: the time synchronisation of the host, the dispatch of
  received packets to typed records and callbacks, and the commands.

  The world of the protocol engine is the implementation object: the transport behind its virtual interface,
  the steady clock and the application behind the callbacks form its component \<open>im_ext\<close>, on which the functions
  of a \<open>host_env\<close> act. The conversions between host and device time go through \<^verbatim>\<open>double\<close>; their arithmetic is a parameter,
  their guards are modelled. A driver that was moved from, whose \<open>impl_\<close> is null, is not modelled.
\<close>

section \<open>Data\<close>

record host_gimbal_state =
  hg_enc_yaw :: i32
  hg_enc_pitch :: i32
  hg_yaw_udeg :: i32
  hg_pitch_udeg :: i32
  hg_roll_udeg :: i32
  hg_yaw_cmd_current :: i32
  hg_pitch_cmd_current :: i32
  hg_yaw_meas_current :: i32
  hg_pitch_meas_current :: i32
  hg_gyro_yaw_udeps :: i32
  hg_gyro_pitch_udeps :: i32
  hg_bullet_speed_x100 :: i32
  hg_bullet_count :: i32
  hg_gimbal_mode :: i32
  hg_shoot_state :: i32
  hg_shooter_heat :: i32
  hg_shooter_heat_limit :: i32
  hg_projectile_allowance_17mm :: i32
  hg_projectile_allowance_42mm :: i32
  hg_device_ts_us :: u64
  hg_host_ts_ns :: u64

definition zero_host_gimbal :: host_gimbal_state where
  "zero_host_gimbal = \<lparr>hg_enc_yaw = 0, hg_enc_pitch = 0, hg_yaw_udeg = 0, hg_pitch_udeg = 0, hg_roll_udeg = 0,
     hg_yaw_cmd_current = 0, hg_pitch_cmd_current = 0, hg_yaw_meas_current = 0, hg_pitch_meas_current = 0,
     hg_gyro_yaw_udeps = 0, hg_gyro_pitch_udeps = 0, hg_bullet_speed_x100 = 0, hg_bullet_count = 0, hg_gimbal_mode = 0,
     hg_shoot_state = 0, hg_shooter_heat = 0, hg_shooter_heat_limit = 0, hg_projectile_allowance_17mm = 0,
     hg_projectile_allowance_42mm = 0, hg_device_ts_us = 0, hg_host_ts_ns = 0\<rparr>"

record host_gimbal_delta =
  hd_delta_yaw_udeg :: i32
  hd_delta_pitch_udeg :: i32
  hd_status :: u16
  hd_host_ts_ns :: u64
  hd_device_ts_us :: u64

record host_tfmini =
  ht_distance_cm :: u16
  ht_strength :: u16
  ht_temp_cdeg :: i16
  ht_status :: u16
  ht_device_ts_us :: u64
  ht_host_ts_ns :: u64

record host_camera_event =
  hc_frame_id :: u32
  hc_device_ts_us :: u64
  hc_host_ts_ns :: u64

record host_referee =
  hr_enemy_team :: i32
  hr_fire_allowed :: i32
  hr_robot_id :: i32
  hr_game_stage :: i32
  hr_status :: u16
  hr_device_ts_us :: u64
  hr_host_ts_ns :: u64

record host_fire =
  hf_fire_on :: i32
  hf_fire_mode :: i32
  hf_burst_count :: i32
  hf_status :: u16
  hf_host_ts_ns :: u64
  hf_device_ts_us :: u64

record host_chassis =
  hq_vx_mm_s :: i32
  hq_vy_mm_s :: i32
  hq_wz_mdeg_s :: i32
  hq_mode :: i32
  hq_status :: u16
  hq_host_ts_ns :: u64
  hq_device_ts_us :: u64

record time_sync_status =
  tst_valid :: bool
  tst_offset_us :: i64
  tst_rtt_us :: u32
  tst_version :: u32
  tst_last_device_time_us :: u64
  tst_last_host_time_us :: u64

record driver_config =
  dc_handshake_timeout_ms :: u32
  dc_heartbeat_interval_ms :: u32
  dc_default_timeout_ms :: u32
  dc_default_retries :: u8
  dc_auto_handshake :: bool
  dc_timesync_enable :: bool
  dc_timesync_period_ms :: u32
  dc_timesync_max_rtt_us :: u32
  dc_timesync_initiator :: bool
  dc_gimbal_has_encoders :: bool
  dc_gimbal_has_imu :: bool

text \<open>\<^verbatim>\<open>Config{}\<close>\<close>

definition default_driver_config :: driver_config where
  "default_driver_config = \<lparr>dc_handshake_timeout_ms = 1000, dc_heartbeat_interval_ms = 0, dc_default_timeout_ms = 3000,
     dc_default_retries = 1, dc_auto_handshake = True, dc_timesync_enable = True, dc_timesync_period_ms = 1000,
     dc_timesync_max_rtt_us = 0, dc_timesync_initiator = True, dc_gimbal_has_encoders = True, dc_gimbal_has_imu = True\<rparr>"

text \<open>The callbacks, each possibly empty, as functions on the state of the application.\<close>

record 'p driver_callbacks =
  on_gimbal_state :: "(host_gimbal_state \<Rightarrow> 'p \<Rightarrow> 'p) option"
  on_gimbal_tfmini :: "(host_tfmini \<Rightarrow> 'p \<Rightarrow> 'p) option"
  on_camera_event :: "(host_camera_event \<Rightarrow> 'p \<Rightarrow> 'p) option"
  on_referee_status :: "(host_referee \<Rightarrow> 'p \<Rightarrow> 'p) option"
  on_gimbal_delta_ack :: "(unit \<Rightarrow> 'p \<Rightarrow> 'p) option"
  on_timesync :: "(time_sync_status \<Rightarrow> 'p \<Rightarrow> 'p) option"
  on_mux_raw :: "(u8 \<times> u16 \<times> u8 list \<times> nat \<Rightarrow> 'p \<Rightarrow> 'p) option"
  on_uproto_event :: "(string \<Rightarrow> 'p \<Rightarrow> 'p) option"

text \<open>The transport interface, the steady clock in nanoseconds, and the \<^verbatim>\<open>double\<close> conversions given the offset.\<close>

record 'p host_env =
  tp_open :: "string \<Rightarrow> 'p \<Rightarrow> bool \<times> 'p"
  tp_close :: "'p \<Rightarrow> 'p"
  tp_write_all :: "u8 list \<Rightarrow> 'p \<Rightarrow> bool \<times> 'p"
  tp_read_some :: "nat \<Rightarrow> 'p \<Rightarrow> (int \<times> u8 list) \<times> 'p"
  tp_wait_readable :: "int \<Rightarrow> 'p \<Rightarrow> int \<times> 'p"
  steady_ns :: "'p \<Rightarrow> u64 \<times> 'p"
  ns_to_device_us :: "i64 \<Rightarrow> u64 \<Rightarrow> u64 option"
  us_to_host_ns :: "i64 \<Rightarrow> u64 \<Rightarrow> u64 option"
  fwrapv :: bool

record host_time_sync =
  hs_ch_id :: u8
  hs_period_ms :: u32
  hs_initiator :: bool
  hs_seq :: u16
  hs_last_req_us :: u64
  hs_hist :: "ts_hist_item list"
  hs_hist_pos :: u8
  hs_max_rtt_us :: u32
  hs_rtt_us_last :: u32
  hs_offset_us :: i64
  hs_mapping_valid :: bool
  hs_mapping_version :: u32
  hs_last_device_time_us :: u64
  hs_last_host_time_us :: u64

record 'p driver_impl =
  im_transport :: bool
  im_config :: driver_config
  im_callbacks :: "'p driver_callbacks"
  im_open :: bool
  im_seqs :: "u32 list"
  im_ts :: host_time_sync
  im_ts_version_seen :: u32
  im_last_gimbal :: "host_gimbal_state option"
  im_last_tfmini :: "host_tfmini option"
  im_last_camera :: "host_camera_event option"
  im_last_referee :: "host_referee option"
  im_ext :: 'p

type_synonym 'p driver = "uproto_context \<times> 'p driver_impl"

definition UPROTO_MSG_MUX :: u8 where "UPROTO_MSG_MUX = UPROTO_MSG_USER_BASE + 21"

section \<open>Clock and callbacks\<close>

definition now_ns_steady :: "'p host_env \<Rightarrow> 'p driver_impl \<Rightarrow> u64 \<times> 'p driver_impl" where
  "now_ns_steady E w = (let (t, e) = steady_ns E (im_ext w) in (t, w\<lparr>im_ext := e\<rparr>))"

definition now_us_steady :: "'p host_env \<Rightarrow> 'p driver_impl \<Rightarrow> u64 \<times> 'p driver_impl" where
  "now_us_steady E w = (let (t, w) = now_ns_steady E w in (t div 1000, w))"

definition call_back :: "('a \<Rightarrow> 'p \<Rightarrow> 'p) option \<Rightarrow> 'a \<Rightarrow> 'p driver_impl \<Rightarrow> 'p driver_impl" where
  "call_back f x w = (case f of None \<Rightarrow> w | Some g \<Rightarrow> w\<lparr>im_ext := g x (im_ext w)\<rparr>)"

section \<open>Sending\<close>

abbreviation fn_drv_write :: fn_ptr where "fn_drv_write \<equiv> 31"
abbreviation fn_drv_flush :: fn_ptr where "fn_drv_flush \<equiv> 32"
abbreviation fn_drv_get_mtu :: fn_ptr where "fn_drv_get_mtu \<equiv> 33"
abbreviation fn_drv_now_ms :: fn_ptr where "fn_drv_now_ms \<equiv> 34"
abbreviation fn_drv_event :: fn_ptr where "fn_drv_event \<equiv> 35"
abbreviation fn_drv_on_mux :: fn_ptr where "fn_drv_on_mux \<equiv> 36"

text \<open>The port, clock and event functions that \<^verbatim>\<open>init_uproto\<close> installs; the message handler is added below.\<close>

definition driver_port :: "'p host_env \<Rightarrow> 'p driver_impl uproto_env" where
  "driver_port E = \<lparr>
     env_write = (\<lambda>f u d w. if u = 0 \<or> \<not> im_transport w then (0, w)
        else let (ok, e) = tp_write_all E d (im_ext w) in (if ok then length d else 0, w\<lparr>im_ext := e\<rparr>)),
     env_flush = (\<lambda>f u w. w),
     env_now = (\<lambda>f u w. let (t, w) = now_ns_steady E w in (ucast (t div 1000000), w)),
     env_event = (\<lambda>f ev u (ctx, w). Some (ctx, if u = 0 then w else call_back (on_uproto_event (im_callbacks w)) ev w)),
     env_txn_callback = (\<lambda>f u err rsp n. Some),
     env_msg_handler = (\<lambda>f tid data n u. Some)\<rparr>"

definition drv_send_mux ::
  "'p host_env \<Rightarrow> u8 \<Rightarrow> u16 \<Rightarrow> u8 list option \<Rightarrow> u16 \<Rightarrow> 'p driver \<Rightarrow> (bool \<times> 'p driver) option" where
  "drv_send_mux E ch sid payload len s = (case s of (ctx, w) \<Rightarrow>
     if \<not> im_open w then Some (False, ctx, w)
     else do {
       let q = im_seqs w ! unat ch + 1;
       let w = w\<lparr>im_seqs := (im_seqs w)[unat ch := q]\<rparr>;
       let hdr = zero_mux_hdr\<lparr>mx_sof := MUX_SOF, mx_ver := MUX_VER, mx_channel := ch, mx_len := len, mx_sid := sid, mx_seq := q\<rparr>;
       (wrote, buf) \<leftarrow> mux_encode (Some (replicate COMM_MUX_TX_BUFFER_SIZE 0)) COMM_MUX_TX_BUFFER_SIZE (Some hdr) payload;
       if wrote = 0 then Some (False, ctx, w)
       else do {
         (err, s) \<leftarrow> uproto_send_notify (driver_port E) UPROTO_MSG_MUX buf wrote (ctx, w);
         Some (err = UPROTO_OK, s)
       }
     })"

section \<open>Time synchronisation of the host\<close>

definition host_send_req :: "'p host_env \<Rightarrow> 'p driver \<Rightarrow> 'p driver option" where
  "host_send_req E s = (case s of (ctx, w) \<Rightarrow> do {
     let ts = im_ts w;
     let seq = hs_seq ts;
     let (t0, w) = now_us_steady E w;
     buf \<leftarrow> comm_write_u16_le (stack_buffer (2 + 2 + 8)) 0 TS_SID_REQ;
     buf \<leftarrow> comm_write_u16_le buf 2 seq;
     buf \<leftarrow> comm_write_u64_le buf 4 t0;
     if unat (hs_hist_pos ts) < length (hs_hist ts) then do {
       let ts = ts\<lparr>hs_seq := seq + 1, hs_hist := (hs_hist ts)[unat (hs_hist_pos ts) := \<lparr>hi_seq = seq, hi_t0 = t0\<rparr>],
                   hs_hist_pos := (hs_hist_pos ts + 1) AND 0x1F\<rparr>;
       (_, s) \<leftarrow> drv_send_mux E (hs_ch_id ts) TS_SID_REQ (Some buf) 12 (ctx, w\<lparr>im_ts := ts\<rparr>);
       Some s
     } else None
   })"

definition host_ts_tick :: "'p host_env \<Rightarrow> 'p driver \<Rightarrow> 'p driver option" where
  "host_ts_tick E s = (case s of (ctx, w) \<Rightarrow>
     if \<not> hs_initiator (im_ts w) then Some s
     else let (now, w) = now_us_steady E w
     in if now - hs_last_req_us (im_ts w) \<ge> ucast (hs_period_ms (im_ts w)) * 1000
        then host_send_req E (ctx, w\<lparr>im_ts := (im_ts w)\<lparr>hs_last_req_us := now\<rparr>\<rparr>)
        else Some (ctx, w))"

text \<open>The time of the first entry with the number; 0 stands for no entry.\<close>

definition host_hist_get :: "u16 \<Rightarrow> host_time_sync \<Rightarrow> u64" where
  "host_hist_get seq ts = (case find (\<lambda>h. hi_seq h = seq) (hs_hist ts) of Some h \<Rightarrow> hi_t0 h | None \<Rightarrow> 0)"

definition host_ts_sample :: "bool \<Rightarrow> u64 \<Rightarrow> u64 \<Rightarrow> u64 \<Rightarrow> u64 \<Rightarrow> host_time_sync \<Rightarrow> host_time_sync option" where
  "host_ts_sample wrapv t0 t1 t2 t3 ts = do {
     let rtt = t3 - t0;
     let rtt = (if t2 \<ge> t1 then rtt - (t2 - t1) else rtt);
     let ts = ts\<lparr>hs_rtt_us_last := ucast rtt\<rparr>;
     sum \<leftarrow> i64_add wrapv (t1 - t0) (t2 - t3);
     let offset = i64_div sum 2;
     if hs_max_rtt_us ts \<noteq> 0 \<and> rtt > ucast (hs_max_rtt_us ts) then Some ts
     else do {
       nine \<leftarrow> i64_mul wrapv (hs_offset_us ts) 9;
       sum \<leftarrow> i64_add wrapv nine offset;
       Some (ts\<lparr>hs_offset_us := i64_div sum 10, hs_mapping_valid := True, hs_mapping_version := hs_mapping_version ts + 1,
                hs_last_device_time_us := t2, hs_last_host_time_us := t3\<rparr>)
     }
   }"

definition host_ts_on_mux :: "'p host_env \<Rightarrow> u8 list \<Rightarrow> nat \<Rightarrow> 'p driver \<Rightarrow> 'p driver option" where
  "host_ts_on_mux E pl len s = (case s of (ctx, w) \<Rightarrow>
     if len < 2 then Some s
     else do {
       sid \<leftarrow> comm_read_u16_le pl 0;
       if sid = TS_SID_REQ then
         (if len < 2 + 2 + 8 then Some s
          else do {
            seq \<leftarrow> comm_read_u16_le pl 2;
            let (t1, w) = now_us_steady E w;
            let (t2, w) = now_us_steady E w;
            buf \<leftarrow> comm_write_u16_le (stack_buffer (2 + 2 + 8 + 8)) 0 TS_SID_RESP;
            buf \<leftarrow> comm_write_u16_le buf 2 seq;
            buf \<leftarrow> comm_write_u64_le buf 4 t1;
            buf \<leftarrow> comm_write_u64_le buf 12 t2;
            (_, s) \<leftarrow> drv_send_mux E (hs_ch_id (im_ts w)) TS_SID_RESP (Some buf) 20 (ctx, w);
            Some s
          })
       else if sid \<noteq> TS_SID_RESP then Some s
       else if len < 2 + 2 + 8 + 8 then Some s
       else do {
         seq \<leftarrow> comm_read_u16_le pl 2;
         t1 \<leftarrow> comm_read_u64_le pl 4;
         t2 \<leftarrow> comm_read_u64_le pl 12;
         let (t3, w) = now_us_steady E w;
         let t0 = host_hist_get seq (im_ts w);
         if t0 = 0 then Some (ctx, w)
         else do { ts \<leftarrow> host_ts_sample (fwrapv E) t0 t1 t2 t3 (im_ts w); Some (ctx, w\<lparr>im_ts := ts\<rparr>) }
       }
     })"

definition now_device_us :: "'p host_env \<Rightarrow> 'p driver_impl \<Rightarrow> (u64 \<times> 'p driver_impl) option" where
  "now_device_us E w = (let (now, w) = now_us_steady E w
     in if \<not> hs_mapping_valid (im_ts w) then Some (now, w)
        else do { t \<leftarrow> i64_add (fwrapv E) now (hs_offset_us (im_ts w)); Some (t, w) })"

definition host_ts_status :: "host_time_sync \<Rightarrow> time_sync_status" where
  "host_ts_status ts = \<lparr>tst_valid = hs_mapping_valid ts, tst_offset_us = hs_offset_us ts, tst_rtt_us = hs_rtt_us_last ts,
     tst_version = hs_mapping_version ts, tst_last_device_time_us = hs_last_device_time_us ts,
     tst_last_host_time_us = hs_last_host_time_us ts\<rparr>"

definition host_ns_to_device_us :: "'p host_env \<Rightarrow> host_time_sync \<Rightarrow> u64 \<Rightarrow> u64 option" where
  "host_ns_to_device_us E ts host_ns = (if \<not> hs_mapping_valid ts then None else ns_to_device_us E (hs_offset_us ts) host_ns)"

definition device_us_to_host_ns :: "'p host_env \<Rightarrow> host_time_sync \<Rightarrow> u64 \<Rightarrow> u64 option" where
  "device_us_to_host_ns E ts device_us = (if \<not> hs_mapping_valid ts then None else us_to_host_ns E (hs_offset_us ts) device_us)"

section \<open>Dispatch of a received packet\<close>

text \<open>The optional words of a gimbal state, each read only if the packet still has a word.\<close>

fun read_ext :: "u8 list \<Rightarrow> nat \<Rightarrow> nat \<Rightarrow> nat \<Rightarrow> (i32 \<Rightarrow> host_gimbal_state \<Rightarrow> host_gimbal_state) list \<Rightarrow>
    host_gimbal_state \<Rightarrow> host_gimbal_state option" where
  "read_ext pl ext ext_words idx [] st = Some st"
| "read_ext pl ext ext_words idx (f # fs) st =
     (if ext_words > idx then do { v \<leftarrow> comm_read_i32_le pl (ext + 4 * idx); read_ext pl ext ext_words (idx + 1) fs (f v st) }
      else read_ext pl ext ext_words idx fs st)"

definition ext_fields :: "(i32 \<Rightarrow> host_gimbal_state \<Rightarrow> host_gimbal_state) list" where
  "ext_fields = [
     \<lambda>v st. st\<lparr>hg_yaw_cmd_current := v\<rparr>, \<lambda>v st. st\<lparr>hg_pitch_cmd_current := v\<rparr>,
     \<lambda>v st. st\<lparr>hg_yaw_meas_current := v\<rparr>, \<lambda>v st. st\<lparr>hg_pitch_meas_current := v\<rparr>,
     \<lambda>v st. st\<lparr>hg_gyro_yaw_udeps := v\<rparr>, \<lambda>v st. st\<lparr>hg_gyro_pitch_udeps := v\<rparr>,
     \<lambda>v st. st\<lparr>hg_bullet_speed_x100 := v\<rparr>, \<lambda>v st. st\<lparr>hg_bullet_count := v\<rparr>,
     \<lambda>v st. st\<lparr>hg_gimbal_mode := v\<rparr>, \<lambda>v st. st\<lparr>hg_shoot_state := v\<rparr>,
     \<lambda>v st. st\<lparr>hg_shooter_heat := v\<rparr>, \<lambda>v st. st\<lparr>hg_shooter_heat_limit := v\<rparr>,
     \<lambda>v st. st\<lparr>hg_projectile_allowance_17mm := v\<rparr>, \<lambda>v st. st\<lparr>hg_projectile_allowance_42mm := v\<rparr>]"

text \<open>The state in a packet of \<open>len\<close> bytes, \<open>None\<close> inside if it is too short.\<close>

definition read_gimbal_state :: "driver_config \<Rightarrow> u8 list \<Rightarrow> nat \<Rightarrow> host_gimbal_state option option" where
  "read_gimbal_state cfg pl len = do {
     let base_words = (if dc_gimbal_has_encoders cfg then 2 else 0) + (if dc_gimbal_has_imu cfg then 3 else 0);
     let base_bytes = base_words * 4;
     if len < 2 + base_bytes + 8 then Some None
     else do {
       let st = zero_host_gimbal;
       (st, idx) \<leftarrow> (if dc_gimbal_has_encoders cfg then do {
           a \<leftarrow> comm_read_i32_le pl (2 + 4 * 0);
           b \<leftarrow> comm_read_i32_le pl (2 + 4 * 1);
           Some (st\<lparr>hg_enc_yaw := a, hg_enc_pitch := b\<rparr>, 2) }
         else Some (st, 0));
       st \<leftarrow> (if dc_gimbal_has_imu cfg then do {
           a \<leftarrow> comm_read_i32_le pl (2 + 4 * idx);
           b \<leftarrow> comm_read_i32_le pl (2 + 4 * (idx + 1));
           c \<leftarrow> comm_read_i32_le pl (2 + 4 * (idx + 2));
           Some (st\<lparr>hg_yaw_udeg := a, hg_pitch_udeg := b, hg_roll_udeg := c\<rparr>) }
         else Some st);
       let ts_offset = 2 + base_bytes;
       t \<leftarrow> comm_read_u64_le pl ts_offset;
       let ext_offset = ts_offset + 8;
       let ext_words = (if len > ext_offset then len - ext_offset else 0) div 4;
       st \<leftarrow> read_ext pl ext_offset ext_words 0 ext_fields (st\<lparr>hg_device_ts_us := t\<rparr>);
       Some (Some st)
     }
   }"

definition handle_camera_event :: "'p host_env \<Rightarrow> u8 list \<Rightarrow> nat \<Rightarrow> 'p driver \<Rightarrow> 'p driver option" where
  "handle_camera_event E pl len s = (case s of (ctx, w) \<Rightarrow> do {
     let pos = 2;
     (frame_id, pos) \<leftarrow> (if len \<ge> pos + 4 then do { f \<leftarrow> comm_read_u32_le pl pos; Some (f, pos + 4) } else Some (0, pos));
     ts_us \<leftarrow> (if len \<ge> pos + 8 then comm_read_u64_le pl pos else Some 0);
     let (t, w) = now_ns_steady E w;
     let ev = \<lparr>hc_frame_id = frame_id, hc_device_ts_us = ts_us, hc_host_ts_ns = t\<rparr>;
     Some (ctx, call_back (on_camera_event (im_callbacks w)) ev (w\<lparr>im_last_camera := Some ev\<rparr>))
   })"

definition handle_gimbal_state :: "'p host_env \<Rightarrow> u8 list \<Rightarrow> nat \<Rightarrow> 'p driver \<Rightarrow> 'p driver option" where
  "handle_gimbal_state E pl len s = (case s of (ctx, w) \<Rightarrow> do {
     r \<leftarrow> read_gimbal_state (im_config w) pl len;
     case r of None \<Rightarrow> Some (ctx, w)
     | Some st \<Rightarrow>
         let (t, w) = now_ns_steady E w;
             st = st\<lparr>hg_host_ts_ns := t\<rparr>
         in Some (ctx, call_back (on_gimbal_state (im_callbacks w)) st (w\<lparr>im_last_gimbal := Some st\<rparr>))
   })"

definition handle_tfmini :: "'p host_env \<Rightarrow> u8 list \<Rightarrow> nat \<Rightarrow> 'p driver \<Rightarrow> 'p driver option" where
  "handle_tfmini E pl len s = (case s of (ctx, w) \<Rightarrow>
     if len < 2 + 2 + 2 + 2 + 2 + 8 then Some (ctx, w)
     else do {
       dist \<leftarrow> comm_read_u16_le pl 2;
       strength \<leftarrow> comm_read_u16_le pl 4;
       temp \<leftarrow> comm_read_u16_le pl 6;
       status \<leftarrow> comm_read_u16_le pl 8;
       ts_us \<leftarrow> comm_read_u64_le pl 10;
       let (t, w) = now_ns_steady E w;
       let tf = \<lparr>ht_distance_cm = dist, ht_strength = strength, ht_temp_cdeg = temp, ht_status = status,
                 ht_device_ts_us = ts_us, ht_host_ts_ns = t\<rparr>;
       Some (ctx, call_back (on_gimbal_tfmini (im_callbacks w)) tf (w\<lparr>im_last_tfmini := Some tf\<rparr>))
     })"

definition handle_referee :: "'p host_env \<Rightarrow> u8 list \<Rightarrow> nat \<Rightarrow> 'p driver \<Rightarrow> 'p driver option" where
  "handle_referee E pl len s = (case s of (ctx, w) \<Rightarrow>
     if len < 2 + 4 + 4 + 4 + 4 + 8 then Some (ctx, w)
     else do {
       team \<leftarrow> comm_read_i32_le pl 2;
       fire \<leftarrow> comm_read_i32_le pl 6;
       robot \<leftarrow> comm_read_i32_le pl 10;
       stage \<leftarrow> comm_read_i32_le pl 14;
       (status, ts_us) \<leftarrow> (if len \<ge> 2 + 4 + 4 + 4 + 4 + 2 + 8 then do {
           st \<leftarrow> comm_read_u16_le pl 18; t \<leftarrow> comm_read_u64_le pl 20; Some (st, t) }
         else do { t \<leftarrow> comm_read_u64_le pl 18; Some (0, t) });
       let (t, w) = now_ns_steady E w;
       let rs = \<lparr>hr_enemy_team = team, hr_fire_allowed = fire, hr_robot_id = robot, hr_game_stage = stage,
                 hr_status = status, hr_device_ts_us = ts_us, hr_host_ts_ns = t\<rparr>;
       Some (ctx, call_back (on_referee_status (im_callbacks w)) rs (w\<lparr>im_last_referee := Some rs\<rparr>))
     })"

definition handle_timesync :: "'p host_env \<Rightarrow> u8 list \<Rightarrow> nat \<Rightarrow> 'p driver \<Rightarrow> 'p driver option" where
  "handle_timesync E pl len s = do {
     (ctx, w) \<leftarrow> host_ts_on_mux E pl len s;
     Some (ctx,
       if on_timesync (im_callbacks w) \<noteq> None \<and> hs_mapping_version (im_ts w) \<noteq> im_ts_version_seen w
       then let w = w\<lparr>im_ts_version_seen := hs_mapping_version (im_ts w)\<rparr>
            in call_back (on_timesync (im_callbacks w)) (host_ts_status (im_ts w)) w
       else w)
   }"

definition handle_mux :: "'p host_env \<Rightarrow> u8 list \<Rightarrow> nat \<Rightarrow> 'p driver \<Rightarrow> 'p driver option" where
  "handle_mux E data len s = do {
     r \<leftarrow> mux_decode (Some data) len (Some zero_mux_hdr) (Some None);
     (case r of
        (True, Some hdr, Some (Some pl)) \<Rightarrow>
          (if unat (mx_len hdr) < 2 then Some s
           else do {
             sid \<leftarrow> comm_read_u16_le pl 0;
             let ch = mx_channel hdr;
             let n = unat (mx_len hdr);
             let raw = (\<lambda>(ctx, w). Some (ctx, call_back (on_mux_raw (im_callbacks w)) (ch, sid, pl, n) w));
             if ch = TS_CH_ID \<and> dc_timesync_enable (im_config (snd s)) then handle_timesync E pl n s
             else if ch = CAM_CH_ID then (if sid = CAM_SID_EVENT then handle_camera_event E pl n s else raw s)
             else if ch \<noteq> GIMBAL_CH_ID then raw s
             else if sid = GIMBAL_SID_STATE then handle_gimbal_state E pl n s
             else if sid = GIMBAL_SID_TFMINI then handle_tfmini E pl n s
             else if sid = GIMBAL_SID_REFEREE then handle_referee E pl n s
             else if sid = GIMBAL_SID_DELTA \<and> on_gimbal_delta_ack (im_callbacks (snd s)) \<noteq> None
               then (case s of (ctx, w) \<Rightarrow> Some (ctx, call_back (on_gimbal_delta_ack (im_callbacks w)) () w))
             else raw s
           })
      | _ \<Rightarrow> Some s)
   }"

text \<open>The complete environment of the engine, with \<^verbatim>\<open>on_mux_trampoline\<close> as its message handler.\<close>

definition driver_env :: "'p host_env \<Rightarrow> 'p driver_impl uproto_env" where
  "driver_env E = (driver_port E)\<lparr>env_msg_handler := (\<lambda>f tid data n u s. if u = 0 then Some s else handle_mux E data n s)\<rparr>"

section \<open>The driver\<close>

abbreviation the_impl :: user_ptr where "the_impl \<equiv> 1"

definition new_time_sync :: "u8 \<Rightarrow> u32 \<Rightarrow> bool \<Rightarrow> host_time_sync" where
  "new_time_sync cid period_ms initiator = \<lparr>hs_ch_id = cid, hs_period_ms = (if period_ms \<noteq> 0 then period_ms else 1000),
     hs_initiator = initiator, hs_seq = 0, hs_last_req_us = 0, hs_hist = replicate 32 \<lparr>hi_seq = 0, hi_t0 = 0\<rparr>, hs_hist_pos = 0,
     hs_max_rtt_us = 0, hs_rtt_us_last = 0, hs_offset_us = 0, hs_mapping_valid = False, hs_mapping_version = 0,
     hs_last_device_time_us = 0, hs_last_host_time_us = 0\<rparr>"

definition no_callbacks :: "'p driver_callbacks" where
  "no_callbacks = \<lparr>on_gimbal_state = None, on_gimbal_tfmini = None, on_camera_event = None, on_referee_status = None,
     on_gimbal_delta_ack = None, on_timesync = None, on_mux_raw = None, on_uproto_event = None\<rparr>"

definition new_driver_impl :: "bool \<Rightarrow> driver_config \<Rightarrow> 'p \<Rightarrow> 'p driver_impl" where
  "new_driver_impl transport cfg e = \<lparr>im_transport = transport, im_config = cfg, im_callbacks = no_callbacks, im_open = False,
     im_seqs = replicate 256 0, im_ts = new_time_sync TS_CH_ID 1000 True, im_ts_version_seen = 0, im_last_gimbal = None,
     im_last_tfmini = None, im_last_camera = None, im_last_referee = None, im_ext = e\<rparr>"

definition init_uproto :: "'p host_env \<Rightarrow> 'p driver_impl \<Rightarrow> 'p driver option" where
  "init_uproto E w = do {
     let pop = \<lparr>po_write = Some fn_drv_write, po_flush = Some fn_drv_flush, po_get_mtu = Some fn_drv_get_mtu, po_user = the_impl\<rparr>;
     let to = \<lparr>ti_now_ms = Some fn_drv_now_ms, ti_user = 0\<rparr>;
     let c = im_config w;
     let cfg = \<lparr>cf_handshake_timeout_ms = dc_handshake_timeout_ms c, cf_heartbeat_interval_ms = dc_heartbeat_interval_ms c,
                cf_default_timeout_ms = dc_default_timeout_ms c, cf_default_retries = dc_default_retries c,
                cf_enable_auto_handshake = dc_auto_handshake c, cf_event_cb = Some fn_drv_event, cf_event_user = the_impl\<rparr>;
     let ctx = uproto_init pop to (Some cfg);
     let (_, ctx) = uproto_register_handler UPROTO_MSG_MUX (Some fn_drv_on_mux) the_impl ctx;
     (_, ctx, w) \<leftarrow> uproto_start_handshake (driver_env E) (ctx, w);
     let ts = im_ts w;
     let ts = ts\<lparr>hs_period_ms := (if dc_timesync_period_ms c \<noteq> 0 then dc_timesync_period_ms c else 1000),
                 hs_initiator := dc_timesync_initiator c, hs_max_rtt_us := dc_timesync_max_rtt_us c\<rparr>;
     Some (ctx, w\<lparr>im_ts := ts\<rparr>)
   }"

definition Driver_open :: "'p host_env \<Rightarrow> string \<Rightarrow> 'p driver \<Rightarrow> (bool \<times> 'p driver) option" where
  "Driver_open E endpoint s = (case s of (ctx, w) \<Rightarrow>
     if \<not> im_transport w then Some (False, s)
     else let (ok, e) = tp_open E endpoint (im_ext w); w = w\<lparr>im_ext := e\<rparr>
     in if \<not> ok then Some (False, ctx, w)
        else do { s \<leftarrow> init_uproto E (w\<lparr>im_open := True\<rparr>); Some (True, s) })"

definition Driver_close :: "'p host_env \<Rightarrow> 'p driver \<Rightarrow> 'p driver" where
  "Driver_close E s = (case s of (ctx, w) \<Rightarrow>
     if \<not> im_transport w then s else (ctx, w\<lparr>im_ext := tp_close E (im_ext w), im_open := False\<rparr>))"

definition Driver_is_open :: "'p driver \<Rightarrow> bool" where
  "Driver_is_open s = im_open (snd s)"

definition Driver_established :: "'p driver \<Rightarrow> bool" where
  "Driver_established s = uproto_is_established (fst s)"

definition Driver_set_callbacks :: "'p driver_callbacks \<Rightarrow> 'p driver \<Rightarrow> 'p driver" where
  "Driver_set_callbacks cb s = (case s of (ctx, w) \<Rightarrow> (ctx, w\<lparr>im_callbacks := cb\<rparr>))"

text \<open>The reading loop ends only when the transport has nothing more.\<close>

partial_function (option) poll_loop :: "'p host_env \<Rightarrow> 'p driver \<Rightarrow> 'p driver option" where
  [code]: "poll_loop E s = (let ((n, buf), e) = tp_read_some E 1024 (im_ext (snd s)); s = (fst s, (snd s)\<lparr>im_ext := e\<rparr>)
     in if n > 0 then do { s \<leftarrow> uproto_on_rx_bytes (driver_env E) buf (nat n) s; poll_loop E s } else Some s)"

definition Driver_poll :: "'p host_env \<Rightarrow> int \<Rightarrow> 'p driver \<Rightarrow> 'p driver option" where
  "Driver_poll E timeout_ms s = (case s of (ctx, w) \<Rightarrow>
     if \<not> im_open w \<or> \<not> im_transport w then Some s
     else poll_loop E (ctx, w\<lparr>im_ext := snd (tp_wait_readable E timeout_ms (im_ext w))\<rparr>))"

definition Driver_tick :: "'p host_env \<Rightarrow> 'p driver \<Rightarrow> 'p driver option" where
  "Driver_tick E s =
     (if \<not> im_open (snd s) then Some s
      else do {
        s \<leftarrow> uproto_tick (driver_env E) s;
        if dc_timesync_enable (im_config (snd s)) then host_ts_tick E s else Some s
      })"

definition Driver_step :: "'p host_env \<Rightarrow> int \<Rightarrow> 'p driver \<Rightarrow> 'p driver option" where
  "Driver_step E timeout_ms s = do { s \<leftarrow> Driver_poll E timeout_ms s; Driver_tick E s }"

section \<open>Commands\<close>

text \<open>The device time of a command: given, mapped from a host time, or now on the device's clock.\<close>

definition command_ts :: "'p host_env \<Rightarrow> u64 \<Rightarrow> u64 \<Rightarrow> 'p driver_impl \<Rightarrow> (u64 \<times> 'p driver_impl) option" where
  "command_ts E device_ts_us host_ts_ns w =
     (if device_ts_us \<noteq> 0 then Some (device_ts_us, w)
      else if host_ts_ns \<noteq> 0 then Some (case host_ns_to_device_us E (im_ts w) host_ts_ns of Some m \<Rightarrow> m | None \<Rightarrow> 0, w)
      else if dc_timesync_enable (im_config w) \<and> tst_valid (host_ts_status (im_ts w)) then now_device_us E w
      else Some (0, w))"

definition send_gimbal_delta :: "'p host_env \<Rightarrow> host_gimbal_delta \<Rightarrow> 'p driver \<Rightarrow> (bool \<times> 'p driver) option" where
  "send_gimbal_delta E cmd s = (case s of (ctx, w) \<Rightarrow> do {
     (ts_us, w) \<leftarrow> command_ts E (hd_device_ts_us cmd) (hd_host_ts_ns cmd) w;
     buf \<leftarrow> comm_write_u16_le (stack_buffer (2 + 4 + 4 + 2 + 8)) 0 GIMBAL_SID_DELTA;
     buf \<leftarrow> comm_write_i32_le buf 2 (hd_delta_yaw_udeg cmd);
     buf \<leftarrow> comm_write_i32_le buf 6 (hd_delta_pitch_udeg cmd);
     buf \<leftarrow> comm_write_u16_le buf 10 (hd_status cmd);
     buf \<leftarrow> comm_write_u64_le buf 12 ts_us;
     drv_send_mux E GIMBAL_CH_ID GIMBAL_SID_DELTA (Some buf) 20 (ctx, w)
   })"

definition send_camera_reset :: "'p host_env \<Rightarrow> 'p driver \<Rightarrow> (bool \<times> 'p driver) option" where
  "send_camera_reset E s = do {
     buf \<leftarrow> comm_write_u16_le (stack_buffer 2) 0 CAM_SID_RESET;
     drv_send_mux E CAM_CH_ID CAM_SID_RESET (Some buf) 2 s
   }"

definition send_referee_query :: "'p host_env \<Rightarrow> 'p driver \<Rightarrow> (bool \<times> 'p driver) option" where
  "send_referee_query E s = do {
     buf \<leftarrow> comm_write_u16_le (stack_buffer 2) 0 GIMBAL_SID_REFEREE_QUERY;
     drv_send_mux E GIMBAL_CH_ID GIMBAL_SID_REFEREE_QUERY (Some buf) 2 s
   }"

definition send_fire_command :: "'p host_env \<Rightarrow> host_fire \<Rightarrow> 'p driver \<Rightarrow> (bool \<times> 'p driver) option" where
  "send_fire_command E cmd s = (case s of (ctx, w) \<Rightarrow> do {
     (ts_us, w) \<leftarrow> command_ts E (hf_device_ts_us cmd) (hf_host_ts_ns cmd) w;
     buf \<leftarrow> comm_write_u16_le (stack_buffer (2 + 4 + 4 + 4 + 2 + 8)) 0 GIMBAL_SID_FIRE;
     buf \<leftarrow> comm_write_i32_le buf 2 (hf_fire_on cmd);
     buf \<leftarrow> comm_write_i32_le buf 6 (hf_fire_mode cmd);
     buf \<leftarrow> comm_write_i32_le buf 10 (hf_burst_count cmd);
     buf \<leftarrow> comm_write_u16_le buf 14 (hf_status cmd);
     buf \<leftarrow> comm_write_u64_le buf 16 ts_us;
     drv_send_mux E GIMBAL_CH_ID GIMBAL_SID_FIRE (Some buf) 24 (ctx, w)
   })"

definition send_chassis_command :: "'p host_env \<Rightarrow> host_chassis \<Rightarrow> 'p driver \<Rightarrow> (bool \<times> 'p driver) option" where
  "send_chassis_command E cmd s = (case s of (ctx, w) \<Rightarrow> do {
     (ts_us, w) \<leftarrow> command_ts E (hq_device_ts_us cmd) (hq_host_ts_ns cmd) w;
     buf \<leftarrow> comm_write_u16_le (stack_buffer (2 + 4 + 4 + 4 + 4 + 2 + 8)) 0 GIMBAL_SID_CHASSIS;
     buf \<leftarrow> comm_write_i32_le buf 2 (hq_vx_mm_s cmd);
     buf \<leftarrow> comm_write_i32_le buf 6 (hq_vy_mm_s cmd);
     buf \<leftarrow> comm_write_i32_le buf 10 (hq_wz_mdeg_s cmd);
     buf \<leftarrow> comm_write_i32_le buf 14 (hq_mode cmd);
     buf \<leftarrow> comm_write_u16_le buf 18 (hq_status cmd);
     buf \<leftarrow> comm_write_u64_le buf 20 ts_us;
     drv_send_mux E GIMBAL_CH_ID GIMBAL_SID_CHASSIS (Some buf) 28 (ctx, w)
   })"

end
