(* ===== verification/Host_Driver_Props.thy ===== *)
theory Host_Driver_Props
  imports Host_Driver
begin

text \<open>
  Properties of the host driver: no received byte makes it leave its objects, the reports of the device arrive in its
  records field by field, its commands arrive at the hooks of the device, and its reading loop hands the
  protocol engine chunks that are larger than its receive buffer.
\<close>

section \<open>Well-formed drivers\<close>

text \<open>
  \<open>driver_ok cb J\<close>: the arrays of the driver have their sizes, its callbacks are \<open>cb\<close>, and transport and application satisfy \<open>J\<close>.
\<close>

definition keeps_ext :: "('p \<Rightarrow> bool) \<Rightarrow> ('a \<Rightarrow> 'p \<Rightarrow> 'p) option \<Rightarrow> bool" where
  "keeps_ext J f \<longleftrightarrow> (case f of None \<Rightarrow> True | Some g \<Rightarrow> \<forall>x e. J e \<longrightarrow> J (g x e))"

definition quiet_callbacks :: "('p \<Rightarrow> bool) \<Rightarrow> 'p driver_callbacks \<Rightarrow> bool" where
  "quiet_callbacks J cb \<longleftrightarrow> keeps_ext J (on_gimbal_state cb) \<and> keeps_ext J (on_gimbal_tfmini cb) \<and> keeps_ext J (on_camera_event cb) \<and>
     keeps_ext J (on_referee_status cb) \<and> keeps_ext J (on_gimbal_delta_ack cb) \<and> keeps_ext J (on_timesync cb) \<and>
     keeps_ext J (on_mux_raw cb) \<and> keeps_ext J (on_uproto_event cb)"

definition driver_ok :: "'p driver_callbacks \<Rightarrow> ('p \<Rightarrow> bool) \<Rightarrow> 'p driver_impl \<Rightarrow> bool" where
  "driver_ok cb J w \<longleftrightarrow> length (im_seqs w) = 256 \<and> length (hs_hist (im_ts w)) = 32 \<and> unat (hs_hist_pos (im_ts w)) < 32 \<and>
     im_callbacks w = cb \<and> J (im_ext w)"

lemma quiet_True [simp]: "quiet_callbacks (\<lambda>_. True) cb"
  by (simp add: quiet_callbacks_def keeps_ext_def split: option.split)

lemma driver_ok_updates [simp]:
  "driver_ok cb J (w\<lparr>im_open := b\<rparr>) = driver_ok cb J w" "driver_ok cb J (w\<lparr>im_ts_version_seen := v\<rparr>) = driver_ok cb J w"
  "driver_ok cb J (w\<lparr>im_last_gimbal := g\<rparr>) = driver_ok cb J w" "driver_ok cb J (w\<lparr>im_last_tfmini := t\<rparr>) = driver_ok cb J w"
  "driver_ok cb J (w\<lparr>im_last_camera := c\<rparr>) = driver_ok cb J w" "driver_ok cb J (w\<lparr>im_last_referee := r\<rparr>) = driver_ok cb J w"
  "driver_ok cb J w \<Longrightarrow> J e \<Longrightarrow> driver_ok cb J (w\<lparr>im_ext := e\<rparr>)"
  by (simp_all add: driver_ok_def)

lemma call_back_ok: "driver_ok cb J w \<Longrightarrow> keeps_ext J f \<Longrightarrow> driver_ok cb J (call_back f x w)"
  by (auto simp: call_back_def keeps_ext_def driver_ok_def split: option.splits)

lemma clock_keeps:
  assumes "now_us_steady E w = (t, w')"
  shows "im_ts w' = im_ts w" "im_seqs w' = im_seqs w" "im_open w' = im_open w"
    "im_config w' = im_config w" "im_callbacks w' = im_callbacks w"
  using assms by (auto simp: now_us_steady_def now_ns_steady_def Let_def split_beta)

text \<open>What the transport and the clock keep, however the driver uses them.\<close>

locale host_world =
  fixes E :: "'p host_env" and cb :: "'p driver_callbacks" and J :: "'p \<Rightarrow> bool"
  assumes write_J: "J e \<Longrightarrow> J (snd (tp_write_all E d e))"
    and clock_J: "J e \<Longrightarrow> J (snd (steady_ns E e))"
    and quiet: "quiet_callbacks J cb"
begin

lemma report_ok [simp]:
  assumes "driver_ok cb J w"
  shows "driver_ok cb J (call_back (on_gimbal_state (im_callbacks w)) a (w\<lparr>im_last_gimbal := g\<rparr>))"
    "driver_ok cb J (call_back (on_gimbal_tfmini (im_callbacks w)) b (w\<lparr>im_last_tfmini := t\<rparr>))"
    "driver_ok cb J (call_back (on_camera_event (im_callbacks w)) c (w\<lparr>im_last_camera := e\<rparr>))"
    "driver_ok cb J (call_back (on_referee_status (im_callbacks w)) d (w\<lparr>im_last_referee := r\<rparr>))"
    "driver_ok cb J (call_back (on_timesync (im_callbacks w)) s (w\<lparr>im_ts_version_seen := v\<rparr>))"
    "driver_ok cb J (call_back (on_gimbal_delta_ack (im_callbacks w)) u w)" "driver_ok cb J (call_back (on_mux_raw (im_callbacks w)) m w)"
    "driver_ok cb J (call_back (on_uproto_event (im_callbacks w)) ev w)"
proof -
  have "im_callbacks w = cb" using assms by (simp add: driver_ok_def)
  then show "driver_ok cb J (call_back (on_gimbal_state (im_callbacks w)) a (w\<lparr>im_last_gimbal := g\<rparr>))"
    "driver_ok cb J (call_back (on_gimbal_tfmini (im_callbacks w)) b (w\<lparr>im_last_tfmini := t\<rparr>))"
    "driver_ok cb J (call_back (on_camera_event (im_callbacks w)) c (w\<lparr>im_last_camera := e\<rparr>))"
    "driver_ok cb J (call_back (on_referee_status (im_callbacks w)) d (w\<lparr>im_last_referee := r\<rparr>))"
    "driver_ok cb J (call_back (on_timesync (im_callbacks w)) s (w\<lparr>im_ts_version_seen := v\<rparr>))"
    "driver_ok cb J (call_back (on_gimbal_delta_ack (im_callbacks w)) u w)" "driver_ok cb J (call_back (on_mux_raw (im_callbacks w)) m w)"
    "driver_ok cb J (call_back (on_uproto_event (im_callbacks w)) ev w)"
    using assms quiet by (auto intro!: call_back_ok simp: quiet_callbacks_def)
qed

lemma clock_ok:
  "now_ns_steady E w = (t, w') \<Longrightarrow> driver_ok cb J w \<Longrightarrow> driver_ok cb J w'"
  "now_us_steady E w = (t, w') \<Longrightarrow> driver_ok cb J w \<Longrightarrow> driver_ok cb J w'"
  using clock_J [of "im_ext w"] by (auto simp: now_ns_steady_def now_us_steady_def Let_def split_beta driver_ok_def)

lemma port_callbacks: "uproto_callbacks (driver_port E) (driver_ok cb J)"
proof unfold_locales
  show "driver_ok cb J (snd (env_write (driver_port E) f u bs w))" if "driver_ok cb J w" for f u bs w
    using that write_J [of "im_ext w" bs] by (simp add: driver_port_def Let_def split_beta driver_ok_def)
  show "driver_ok cb J (snd (env_now (driver_port E) f u w))" if "driver_ok cb J w" for f u w
    using that clock_J [of "im_ext w"] by (simp add: driver_port_def now_ns_steady_def Let_def split_beta driver_ok_def)
qed (auto simp: driver_port_def keeps_def rx_free_def)

end

sublocale host_world \<subseteq> port: uproto_callbacks "driver_port E" "driver_ok cb J"
  by (rule port_callbacks)

context host_world
begin

text \<open>A function that never looks at the receive buffer, built from others.\<close>

lemma rx_send_mux: "drv_send_mux E ch sid p n (set_rx b q ctx, w) = map_option (\<lambda>(r, ctx, w). (r, set_rx b q ctx, w)) (drv_send_mux E ch sid p n (ctx, w))"
  unfolding drv_send_mux_def uproto_send_notify_def
  by (auto simp: Let_def port.rx_send_frame map_option_bind bind_map_option split_beta intro!: bind_cong_fun)

lemma send_mux_safe:
  assumes "wf_ctx c" "driver_ok cb J w" "same_setup ctx c" "\<And>p. payload = Some p \<Longrightarrow> unat len \<le> length p" "unat len \<le> 240"
  shows "safe (driver_ok cb J) ctx (map_option snd (drv_send_mux E ch sid payload len (c, w)))"
proof (cases "im_open w")
  case True
  let ?q = "im_seqs w ! unat ch + 1"
  let ?w = "w\<lparr>im_seqs := (im_seqs w)[unat ch := ?q]\<rparr>"
  let ?hdr = "zero_mux_hdr\<lparr>mx_sof := MUX_SOF, mx_ver := MUX_VER, mx_channel := ch, mx_len := len, mx_sid := sid, mx_seq := ?q\<rparr>"
  let ?out = "replicate COMM_MUX_TX_BUFFER_SIZE 0 :: u8 list"
  let ?b = "mux_image ?hdr (mux_body ?out payload (unat len)) @ drop (16 + unat len) ?out"
  have w: "driver_ok cb J ?w" using assms(2) by (simp add: driver_ok_def)
  have enc: "mux_encode (Some ?out) 520 (Some ?hdr) payload = Some (16 + unat len, Some ?b)"
    using mux_encode_gen [of ?hdr "unat len" payload 520 ?out] assms(4,5) by simp
  have "16 + unat len \<le> length ?b" using assms(5) by simp
  then have "safe (driver_ok cb J) ctx (map_option snd (uproto_send_notify (driver_port E) UPROTO_MSG_MUX (Some ?b) (16 + unat len) (c, ?w)))"
    using assms(5) port.send_frame_safe [of "16 + unat len" "Some ?b" c ?w ctx] assms(1,3) w by (simp add: uproto_send_notify_def)
  then show ?thesis
    using True enc by (auto simp: drv_send_mux_def Let_def safe_def)
next
  case False
  then show ?thesis using assms by (simp add: drv_send_mux_def)
qed

section \<open>The handlers are total\<close>

lemma host_ts_sample_total:
  "\<exists>ts'. host_ts_sample True t0 t1 t2 t3 ts = Some ts' \<and> hs_hist ts' = hs_hist ts \<and> hs_hist_pos ts' = hs_hist_pos ts"
  by (simp add: host_ts_sample_def Let_def i64_add_def i64_mul_def i64_result_def)

lemma host_resp_buffer:
  "do { buf \<leftarrow> comm_write_u16_le (stack_buffer 20) 0 TS_SID_RESP; buf \<leftarrow> comm_write_u16_le buf 2 seq;
        buf \<leftarrow> comm_write_u64_le buf 4 t1; buf \<leftarrow> comm_write_u64_le buf 12 t2; k buf } = k (resp_image seq t1 t2)"
  by (rule resp_buffer)

lemma host_ts_on_mux_safe:
  assumes "wf_ctx c" "driver_ok cb J w" "n \<le> length pl" "fwrapv E"
  shows "safe (driver_ok cb J) c (host_ts_on_mux E pl n (c, w))"
proof (cases "n < 2")
  case False
  then obtain sid where sid: "comm_read_u16_le pl 0 = Some sid" using assms(3) by (simp add: field_reads)
  consider (req) "sid = TS_SID_REQ" "12 \<le> n" | (resp) "sid = TS_SID_RESP" "20 \<le> n"
    | "sid = TS_SID_REQ \<longrightarrow> n < 12" "sid = TS_SID_RESP \<longrightarrow> n < 20" by linarith
  then show ?thesis
  proof cases
    case req
    obtain seq where seq: "comm_read_u16_le pl 2 = Some seq" using req assms(3) by (simp add: field_reads)
    obtain t1 w1 where n1: "now_us_steady E w = (t1, w1)" by fastforce
    obtain t2 w2 where n2: "now_us_steady E w1 = (t2, w2)" by fastforce
    have ok: "driver_ok cb J w2" using assms(2) clock_ok(2) [OF n1] clock_ok(2) [OF n2] by simp
    have "safe (driver_ok cb J) c (map_option snd (drv_send_mux E (hs_ch_id (im_ts w2)) TS_SID_RESP (Some (resp_image seq t1 t2)) 20 (c, w2)))"
      by (rule send_mux_safe) (use assms(1) ok in simp_all)
    then show ?thesis
      using False sid req seq n1 n2 by (auto simp: host_ts_on_mux_def host_resp_buffer safe_def)
  next
    case resp
    obtain seq t1 t2 where r: "comm_read_u16_le pl 2 = Some seq" "comm_read_u64_le pl 4 = Some t1" "comm_read_u64_le pl 12 = Some t2"
      using ts_resp_defined [of pl] resp(2) assms(3) by auto
    obtain t3 w3 where n3: "now_us_steady E w = (t3, w3)" by fastforce
    obtain ts' where ts': "host_ts_sample (fwrapv E) (host_hist_get seq (im_ts w3)) t1 t2 t3 (im_ts w3) = Some ts'"
        "hs_hist ts' = hs_hist (im_ts w3)" "hs_hist_pos ts' = hs_hist_pos (im_ts w3)"
      using host_ts_sample_total [of "host_hist_get seq (im_ts w3)" t1 t2 t3 "im_ts w3"] assms(4) by auto
    have "driver_ok cb J w3" using assms(2) clock_ok(2) [OF n3] by simp
    moreover from this have "driver_ok cb J (w3\<lparr>im_ts := ts'\<rparr>)" using ts'(2,3) by (simp add: driver_ok_def)
    moreover have "TS_SID_RESP \<noteq> TS_SID_REQ" by (simp add: TS_SID_REQ_def TS_SID_RESP_def)
    ultimately show ?thesis using False sid resp r n3 ts'(1) assms(1) by (auto simp: host_ts_on_mux_def Let_def)
  qed (use False sid assms in \<open>auto simp: host_ts_on_mux_def\<close>)
qed (use assms in \<open>simp add: host_ts_on_mux_def\<close>)

lemma read_ext_defined:
  "ext + 4 * words \<le> length pl \<Longrightarrow> idx \<le> words \<Longrightarrow> \<exists>st'. read_ext pl ext words idx fs st = Some st'"
proof (induction fs arbitrary: idx st)
  case (Cons f fs)
  show ?case
  proof (cases "idx < words")
    case True
    then obtain v where "comm_read_i32_le pl (ext + 4 * idx) = Some v" using Cons.prems by (simp add: field_reads)
    then show ?thesis using True Cons by simp
  qed (use Cons in simp)
qed simp

lemma read_gimbal_state_defined:
  assumes "len \<le> length pl"
  shows "\<exists>r. read_gimbal_state cfg pl len = Some r"
proof -
  let ?b = "(if dc_gimbal_has_encoders cfg then 2 else 0) + (if dc_gimbal_has_imu cfg then 3 else 0 :: nat)"
  have "read_ext pl (2 + ?b * 4 + 8) ((if len > 2 + ?b * 4 + 8 then len - (2 + ?b * 4 + 8) else 0) div 4) 0 ext_fields st \<noteq> None"
    if "\<not> len < 2 + ?b * 4 + 8" for st
    using read_ext_defined [of "2 + ?b * 4 + 8" "(if len > 2 + ?b * 4 + 8 then len - (2 + ?b * 4 + 8) else 0) div 4" pl 0] that assms by auto
  moreover have "(\<exists>r. Option.bind x (\<lambda>st. Some (Some st)) = Some r) \<longleftrightarrow> x \<noteq> None" for x :: "host_gimbal_state option"
    by (cases x) simp_all
  ultimately show ?thesis
    unfolding read_gimbal_state_def Let_def using assms
    by (cases "dc_gimbal_has_encoders cfg"; cases "dc_gimbal_has_imu cfg") (auto simp: field_reads)
qed

lemma report_handlers_safe:
  assumes "wf_ctx c" "driver_ok cb J w" "n \<le> length pl" "2 \<le> n"
  shows "safe (driver_ok cb J) c (handle_camera_event E pl n (c, w))" "safe (driver_ok cb J) c (handle_gimbal_state E pl n (c, w))"
    "safe (driver_ok cb J) c (handle_tfmini E pl n (c, w))" "safe (driver_ok cb J) c (handle_referee E pl n (c, w))"
proof -
  have clock: "driver_ok cb J w'" if "now_ns_steady E w = (t, w')" for t w' using clock_ok(1) [OF that assms(2)] .
  show "safe (driver_ok cb J) c (handle_camera_event E pl n (c, w))"
    using assms by (auto simp: handle_camera_event_def field_reads Let_def dest: clock split: prod.split)
  obtain r where "read_gimbal_state (im_config w) pl n = Some r" using read_gimbal_state_defined [OF assms(3)] by blast
  then show "safe (driver_ok cb J) c (handle_gimbal_state E pl n (c, w))"
    using assms by (auto simp: handle_gimbal_state_def Let_def dest: clock split: prod.split option.split)
  show "safe (driver_ok cb J) c (handle_tfmini E pl n (c, w))" "safe (driver_ok cb J) c (handle_referee E pl n (c, w))"
    using assms by (auto simp: handle_tfmini_def handle_referee_def field_reads Let_def dest: clock split: prod.split)
qed

lemma handle_timesync_safe:
  assumes "wf_ctx c" "driver_ok cb J w" "n \<le> length pl" "fwrapv E"
  shows "safe (driver_ok cb J) c (handle_timesync E pl n (c, w))"
  unfolding handle_timesync_def by (rule safe_bind [OF host_ts_on_mux_safe [OF assms]]) (simp add: Let_def)

lemma handle_mux_keeps:
  assumes "fwrapv E" "n \<le> length data"
  shows "keeps (driver_ok cb J) (handle_mux E data n)"
  unfolding keeps_safe
proof (intro allI impI)
  fix c and w :: "'p driver_impl" assume wf: "wf_ctx c" "driver_ok cb J w"
  show "safe (driver_ok cb J) c (handle_mux E data n (c, w))"
  proof (cases "\<exists>hdr. mux_accepts data n hdr")
    case True
    then obtain hdr where acc: "mux_accepts data n hdr" by blast
    then have h: "mux_hdr_of data = Some hdr" and len: "unat (mx_len hdr) \<le> length (drop 14 data)"
      using assms(2) by (auto simp: mux_accepts_def)
    have d: "mux_decode (Some data) n (Some zero_mux_hdr) (Some None) = Some (True, Some hdr, Some (Some (drop 14 data)))"
      using mux_decode_eq [OF assms(2)] h acc by simp
    have sid: "\<exists>sid. comm_read_u16_le (drop 14 data) 0 = Some sid" if "2 \<le> unat (mx_len hdr)"
      using that len by (simp add: field_reads)
    note safe = report_handlers_safe [OF wf len] handle_timesync_safe [OF wf len assms(1)]
    show ?thesis
      unfolding handle_mux_def d
      using wf sid safe by (auto simp: Let_def split: option.split)
  next
    case False
    then have "\<not> mux_accepts data n hdr" for hdr by blast
    then show ?thesis using wf mux_decode_eq [OF assms(2)] by (auto simp: handle_mux_def split: option.split)
  qed
qed

section \<open>The handlers leave the receive buffer alone\<close>

lemma rx_free_bind_const: "(\<And>x. rx_free (g x)) \<Longrightarrow> rx_free (\<lambda>s. Option.bind r (\<lambda>x. g x s))"
  by (cases r) (simp_all add: rx_free_def)

lemma rx_free_Some [simp]: "rx_free Some"
  by (simp add: rx_free_def)

lemma report_handlers_rx:
  "rx_free (handle_camera_event E pl n)" "rx_free (handle_gimbal_state E pl n)"
  "rx_free (handle_tfmini E pl n)" "rx_free (handle_referee E pl n)"
  unfolding rx_free_def handle_camera_event_def handle_gimbal_state_def handle_tfmini_def handle_referee_def
  by (auto simp: Let_def split_beta map_option_bind intro!: bind_cong_fun split: option.split)

lemma host_ts_on_mux_rx: "rx_free (host_ts_on_mux E pl n)"
  unfolding rx_free_def host_ts_on_mux_def
  by (auto simp: Let_def split_beta map_option_bind bind_map_option rx_send_mux intro!: bind_cong_fun)

lemma handle_timesync_rx: "rx_free (handle_timesync E pl n)"
  unfolding rx_free_def handle_timesync_def
  by (auto simp: rx_freeD [OF host_ts_on_mux_rx] Let_def split_beta map_option_bind bind_map_option intro!: bind_cong_fun)

lemma handle_mux_rx: "rx_free (handle_mux E data n)"
  unfolding rx_free_def handle_mux_def
  by (auto simp: rx_freeD [OF report_handlers_rx(1)] rx_freeD [OF report_handlers_rx(2)] rx_freeD [OF report_handlers_rx(3)]
      rx_freeD [OF report_handlers_rx(4)] rx_freeD [OF handle_timesync_rx] Let_def map_option_bind
      split: option.split bool.split intro!: bind_cong_fun)

lemma driver_callbacks:
  assumes "fwrapv E"
  shows "uproto_callbacks (driver_env E) (driver_ok cb J)"
proof unfold_locales
  show "keeps (driver_ok cb J) (env_msg_handler (driver_env E) f tid data n u)" if "length data = n" for f tid data n u
    using handle_mux_keeps [OF assms, of n data] that by (auto simp: driver_env_def keeps_def)
  show "rx_free (env_msg_handler (driver_env E) f tid data n u)" for f tid data n u
    using handle_mux_rx [of data n] by (auto simp: driver_env_def rx_free_def)
qed (use port.write_W port.flush_W port.now_W port.event_keeps port.event_rx in
    \<open>auto simp: driver_env_def keeps_def rx_free_def driver_port_def\<close>)

end

text \<open>The host compiled with wrapping signed arithmetic.\<close>

locale wrapping_host = host_world +
  assumes wrapv: "fwrapv E"

sublocale wrapping_host \<subseteq> host: uproto_callbacks "driver_env E" "driver_ok cb J"
  by (rule driver_callbacks [OF wrapv])

context wrapping_host
begin

section \<open>The operations of the driver are total\<close>

lemma host_ts_tick_safe:
  assumes "wf_ctx c" "driver_ok cb J w" "same_setup ctx c"
  shows "safe (driver_ok cb J) ctx (host_ts_tick E (c, w))"
proof -
  have req: "safe (driver_ok cb J) ctx (host_send_req E (c, v))" if v: "driver_ok cb J v" for v
  proof -
    obtain t0 v1 where n: "now_us_steady E v = (t0, v1)" by fastforce
    let ?ts = "(im_ts v)\<lparr>hs_seq := hs_seq (im_ts v) + 1, hs_hist := (hs_hist (im_ts v))[unat (hs_hist_pos (im_ts v)) := \<lparr>hi_seq = hs_seq (im_ts v), hi_t0 = t0\<rparr>],
                   hs_hist_pos := (hs_hist_pos (im_ts v) + 1) AND 0x1F\<rparr>"
    have "driver_ok cb J (v1\<lparr>im_ts := ?ts\<rparr>)" using clock_ok(2) [OF n v] clock_keeps [OF n] v by (simp add: driver_ok_def and_1F)
    then have "safe (driver_ok cb J) ctx (map_option snd (drv_send_mux E (hs_ch_id ?ts) TS_SID_REQ (Some (req_image (hs_seq (im_ts v)) t0)) 12 (c, v1\<lparr>im_ts := ?ts\<rparr>)))"
      by (intro send_mux_safe) (use assms in auto)
    then show ?thesis
      using v n by (auto simp: host_send_req_def req_buffer Let_def safe_def driver_ok_def)
  qed
  have "driver_ok cb J (w'\<lparr>im_ts := (im_ts w')\<lparr>hs_last_req_us := now\<rparr>\<rparr>)" if "now_us_steady E w = (now, w')" for now w'
    using clock_ok(2) [OF that assms(2)] by (simp add: driver_ok_def)
  then show ?thesis
    using assms req clock_ok(2) by (auto simp: host_ts_tick_def Let_def split: prod.split)
qed

lemma command_ts_defined:
  assumes "driver_ok cb J w"
  shows "\<exists>t w'. command_ts E d n w = Some (t, w') \<and> driver_ok cb J w' \<and> im_open w' = im_open w"
proof -
  obtain t w' where n: "now_us_steady E w = (t, w')" by fastforce
  show ?thesis
    using assms n clock_keeps [OF n] clock_ok(2) [OF n] wrapv by (auto simp: command_ts_def now_device_us_def i64_add_def i64_result_def)
qed

end

abbreviation wrapping :: "'p host_env \<Rightarrow> 'p host_env" where "wrapping E \<equiv> E\<lparr>fwrapv := True\<rparr>"

text \<open>Any transport, clock and application.\<close>

interpretation any_host: wrapping_host "wrapping E" cb "\<lambda>_. True" for E cb
  by unfold_locales simp_all

section \<open>A transport that carries every byte\<close>

text \<open>
  What the driver relies on of the virtual interface: \<open>out\<close> is what has been written to the wire; \<^verbatim>\<open>write_all\<close> succeeds
  and appends the bytes, and reading the clock writes nothing.
\<close>

definition carries :: "'p host_env \<Rightarrow> ('p \<Rightarrow> u8 list) \<Rightarrow> bool" where
  "carries E out \<longleftrightarrow> (\<forall>d e. fst (tp_write_all E d e) \<and> out (snd (tp_write_all E d e)) = out e @ d) \<and>
     (\<forall>e. out (snd (steady_ns E e)) = out e)"

text \<open>What sending does to the transport: writes and readings of the clock.\<close>

inductive transport_step :: "'p host_env \<Rightarrow> 'p \<Rightarrow> 'p \<Rightarrow> bool" for E :: "'p host_env" where
  ts_write: "transport_step E e (snd (tp_write_all E d e))"
| ts_clock: "transport_step E e (snd (steady_ns E e))"

text \<open>The driver after sending: the context keeps its setup, only the sequence numbers and the transport have moved.\<close>

definition only_sent :: "'p host_env \<Rightarrow> 'p driver \<Rightarrow> 'p driver \<Rightarrow> bool" where
  "only_sent E s s' \<longleftrightarrow> (wf_ctx (fst s) \<longrightarrow> wf_ctx (fst s')) \<and> cx_port (fst s') = cx_port (fst s) \<and>
     (\<exists>q e. snd s' = (snd s)\<lparr>im_seqs := q, im_ext := e\<rparr> \<and> (transport_step E)\<^sup>*\<^sup>* (im_ext (snd s)) e)"

lemma only_sent_trans: "only_sent E a b \<Longrightarrow> only_sent E b c \<Longrightarrow> only_sent E a c"
  unfolding only_sent_def by (fastforce dest: rtranclp_trans)

lemma only_sent_clock:
  assumes "now_ns_steady E w = (t, w')"
  shows "only_sent E (ctx, w) (ctx, w')"
  using assms ts_clock [of E "im_ext w"] unfolding only_sent_def now_ns_steady_def
  by (cases w) (auto simp: Let_def split_beta)

lemma now_ns_out: "carries E out \<Longrightarrow> now_ns_steady E w = (t, w') \<Longrightarrow> out (im_ext w') = out (im_ext w)"
  by (auto simp: carries_def now_ns_steady_def Let_def split_beta)

lemma now_us_out: "carries E out \<Longrightarrow> now_us_steady E w = (t, w') \<Longrightarrow> out (im_ext w') = out (im_ext w)"
  unfolding now_us_steady_def by (cases "now_ns_steady E w") (auto dest: now_ns_out)

lemma send_frame_out:
  assumes c: "carries E out" and "po_write (cx_port ctx) = Some wr" "po_user (cx_port ctx) \<noteq> 0" "im_transport w" and n: "n \<le> UPROTO_MAX_PAYLOAD" "n \<le> length p"
  shows "\<exists>ctx' w'. uproto_send_frame (driver_port E) flags type tid (Some p) n (ctx, w) = Some (UPROTO_OK, ctx', w') \<and> only_sent E (ctx, w) (ctx', w') \<and>
    out (im_ext w') = out (im_ext w) @ frame_image UPROTO_VERSION flags type 0 tid (cx_local_seq ctx) 0 (word_of_nat n) (take n p)"
proof -
  let ?img = "frame_image UPROTO_VERSION flags type 0 tid (cx_local_seq ctx) 0 (word_of_nat n) (take n p)"
  have enc: "uproto_encode_frame tx_buffer flags type tid (cx_local_seq ctx) 0 (Some p) n = Some (cursor tx_buffer ?img)"
    using encode_frame_cursor [of n tx_buffer "Some p" flags type tid "cx_local_seq ctx" 0] n by (simp add: sent_payload_def)
  obtain ok e where wr: "tp_write_all E ?img (im_ext w) = (ok, e)" by fastforce
  have ok: "ok" "out e = out (im_ext w) @ ?img" using c unfolding carries_def by (metis fst_conv wr, metis snd_conv wr)
  let ?w = "w\<lparr>im_ext := e\<rparr>"
  have fl: "uproto_flush (driver_port E) c v = v" for c v by (simp add: uproto_flush_def driver_port_def split: option.split)
  have now: "out (im_ext v') = out (im_ext v)" if "uproto_now (driver_port E) (c, v) = (t, v')" for c v t v'
    using that now_ns_out [OF c, of v] by (auto simp: uproto_now_def driver_port_def Let_def split: option.splits prod.splits)
  let ?c = "ctx\<lparr>cx_local_seq := cx_local_seq ctx + 1\<rparr>"
  let ?c1 = "?c\<lparr>cx_stats := (cx_stats ?c)\<lparr>st_tx_frames := st_tx_frames (cx_stats ?c) + 1\<rparr>\<rparr>"
  obtain t w' where tt: "uproto_now (driver_port E) (?c1, ?w) = (t, w')" by fastforce
  have wt: "env_write (driver_port E) wr (po_user (cx_port ctx)) ?img w = (length ?img, ?w)"
    using assms(3,4) wr ok(1) by (simp add: driver_port_def)
  have "uproto_send_frame (driver_port E) flags type tid (Some p) n (ctx, w) = Some (UPROTO_OK, ?c1\<lparr>cx_last_tx_time := t\<rparr>, w')"
    using assms(2) enc wt fl tt by (simp add: uproto_send_frame_def cursor_def Let_def)
  moreover have "only_sent E (ctx, w) (?c1\<lparr>cx_last_tx_time := t\<rparr>, w')"
  proof (rule only_sent_trans)
    show "only_sent E (ctx, w) (?c1\<lparr>cx_last_tx_time := t\<rparr>, ?w)"
      using ts_write [of E "im_ext w" ?img] wr by (cases w) (auto simp: only_sent_def wf_ctx_def)
    show "only_sent E (?c1\<lparr>cx_last_tx_time := t\<rparr>, ?w) (?c1\<lparr>cx_last_tx_time := t\<rparr>, w')"
    proof (cases "ti_now_ms (cx_time ctx)")
      case None
      then show ?thesis using tt by (cases w) (auto simp: uproto_now_def only_sent_def)
    next
      case (Some f)
      then obtain t' where "now_ns_steady E ?w = (t', w')"
        using tt by (auto simp: uproto_now_def driver_port_def Let_def split: prod.splits)
      then show ?thesis by (rule only_sent_clock)
    qed
  qed
  ultimately show ?thesis using now [OF tt] ok(2) by auto
qed

lemma send_mux_out:
  fixes ch :: u8
  assumes c: "carries E out" and "po_write (cx_port ctx) = Some wr" "po_user (cx_port ctx) \<noteq> 0" "im_transport w" "im_open w"
    and "unat len \<le> 240" "unat len \<le> length p"
  defines "q \<equiv> im_seqs w ! unat ch + 1"
  shows "\<exists>ctx' w'. drv_send_mux E ch sid (Some p) len (ctx, w) = Some (True, ctx', w') \<and> only_sent E (ctx, w) (ctx', w') \<and>
    out (im_ext w') = out (im_ext w) @
      notify_image UPROTO_MSG_MUX (cx_local_seq ctx) (notify_hdr ch sid 0 len q) (take (unat len) p)"
proof -
  let ?w = "w\<lparr>im_seqs := (im_seqs w)[unat ch := q]\<rparr>"
  let ?hdr = "notify_hdr ch sid 0 len q"
  let ?out = "replicate COMM_MUX_TX_BUFFER_SIZE 0 :: u8 list"
  let ?b = "mux_image ?hdr (take (unat len) p) @ drop (16 + unat len) ?out"
  have hdr: "zero_mux_hdr\<lparr>mx_sof := MUX_SOF, mx_ver := MUX_VER, mx_channel := ch, mx_len := len, mx_sid := sid, mx_seq := q\<rparr> = ?hdr"
    by (simp add: zero_mux_hdr_def notify_hdr_def)
  have enc: "mux_encode (Some ?out) 520 (Some ?hdr) (Some p) = Some (16 + unat len, Some ?b)"
    using mux_encode_gen [of ?hdr "unat len" "Some p" 520 ?out] assms(6,7) by (simp add: notify_hdr_def mux_body_def)
  have "16 + unat len \<le> length ?b" using assms(7) by simp
  with send_frame_out [OF assms(1-3), of ?w "16 + unat len" ?b 0 UPROTO_MSG_MUX 0] assms(4,6,7)
  obtain ctx' w' where "uproto_send_notify (driver_port E) UPROTO_MSG_MUX (Some ?b) (16 + unat len) (ctx, ?w) = Some (UPROTO_OK, ctx', w')" "only_sent E (ctx, ?w) (ctx', w')"
      "out (im_ext w') = out (im_ext w) @ notify_image UPROTO_MSG_MUX (cx_local_seq ctx) ?hdr (take (unat len) p)"
    by (auto simp: uproto_send_notify_def min_absorb2)
  moreover have "only_sent E (ctx, w) (ctx, ?w)" by (cases w) (auto simp: only_sent_def)
  ultimately show ?thesis
    unfolding drv_send_mux_def using assms(5) enc hdr by (auto simp: Let_def q_def intro: only_sent_trans)
qed

section \<open>Commands\<close>

text \<open>The commands of the host to the gimbal, and what each is on the device at device time \<open>t\<close>.\<close>

datatype host_command =
    Cmd_delta host_gimbal_delta
  | Cmd_fire host_fire
  | Cmd_chassis host_chassis
  | Cmd_referee_query

fun send_command :: "'p host_env \<Rightarrow> host_command \<Rightarrow> 'p driver \<Rightarrow> (bool \<times> 'p driver) option" where
  "send_command E (Cmd_delta c) s = send_gimbal_delta E c s"
| "send_command E (Cmd_fire c) s = send_fire_command E c s"
| "send_command E (Cmd_chassis c) s = send_chassis_command E c s"
| "send_command E Cmd_referee_query s = send_referee_query E s"

definition delta_at :: "u64 \<Rightarrow> host_gimbal_delta \<Rightarrow> gimbal_delta" where
  "delta_at t c = \<lparr>gd_delta_yaw_udeg = hd_delta_yaw_udeg c, gd_delta_pitch_udeg = hd_delta_pitch_udeg c, gd_status = hd_status c, gd_ts_us = t\<rparr>"

definition fire_at :: "u64 \<Rightarrow> host_fire \<Rightarrow> gimbal_fire_cmd" where
  "fire_at t c = \<lparr>gf_fire_on = hf_fire_on c, gf_fire_mode = hf_fire_mode c, gf_burst_count = hf_burst_count c, gf_status = hf_status c, gf_ts_us = t\<rparr>"

definition chassis_at :: "u64 \<Rightarrow> host_chassis \<Rightarrow> gimbal_chassis_cmd" where
  "chassis_at t c = \<lparr>gc_vx_mm_s = hq_vx_mm_s c, gc_vy_mm_s = hq_vy_mm_s c, gc_wz_mdeg_s = hq_wz_mdeg_s c, gc_mode = hq_mode c,
     gc_status = hq_status c, gc_ts_us = t\<rparr>"

fun command_image :: "u64 \<Rightarrow> host_command \<Rightarrow> u8 list" where
  "command_image t (Cmd_delta c) = delta_image (delta_at t c)"
| "command_image t (Cmd_fire c) = fire_image (fire_at t c)"
| "command_image t (Cmd_chassis c) = chassis_image (chassis_at t c)"
| "command_image t Cmd_referee_query = le16 GIMBAL_SID_REFEREE_QUERY"

fun command_sid :: "host_command \<Rightarrow> u16" where
  "command_sid (Cmd_delta c) = GIMBAL_SID_DELTA"
| "command_sid (Cmd_fire c) = GIMBAL_SID_FIRE"
| "command_sid (Cmd_chassis c) = GIMBAL_SID_CHASSIS"
| "command_sid Cmd_referee_query = GIMBAL_SID_REFEREE_QUERY"

text \<open>The time that a command carries: the one it names, else the one mapped from its host time.\<close>

fun command_time :: "'p host_env \<Rightarrow> host_time_sync \<Rightarrow> host_command \<Rightarrow> u64 option" where
  "command_time E ts (Cmd_delta c) = (if hd_device_ts_us c \<noteq> 0 then Some (hd_device_ts_us c) else if hd_host_ts_ns c \<noteq> 0
     then Some (case host_ns_to_device_us E ts (hd_host_ts_ns c) of Some t \<Rightarrow> t | None \<Rightarrow> 0) else None)"
| "command_time E ts (Cmd_fire c) = (if hf_device_ts_us c \<noteq> 0 then Some (hf_device_ts_us c) else if hf_host_ts_ns c \<noteq> 0
     then Some (case host_ns_to_device_us E ts (hf_host_ts_ns c) of Some t \<Rightarrow> t | None \<Rightarrow> 0) else None)"
| "command_time E ts (Cmd_chassis c) = (if hq_device_ts_us c \<noteq> 0 then Some (hq_device_ts_us c) else if hq_host_ts_ns c \<noteq> 0
     then Some (case host_ns_to_device_us E ts (hq_host_ts_ns c) of Some t \<Rightarrow> t | None \<Rightarrow> 0) else None)"
| "command_time E ts Cmd_referee_query = Some 0"

lemma command_image_length: "length (command_image t c) \<le> 28"
  by (cases c) simp_all

lemma send_command_eq:
  assumes "command_time E (im_ts w) c = Some t"
  shows "send_command E c (ctx, w) =
    drv_send_mux E GIMBAL_CH_ID (command_sid c) (Some (command_image t c)) (word_of_nat (length (command_image t c))) (ctx, w)"
proof -
  have "command_ts E d n w = Some (t, w)"
    if "(if d \<noteq> 0 then Some d else if n \<noteq> 0 then Some (case host_ns_to_device_us E (im_ts w) n of Some t \<Rightarrow> t | None \<Rightarrow> 0) else None) = Some t" for d n
    using that by (auto simp: command_ts_def split: if_splits)
  then show ?thesis
    using assms
    by (cases c)
      (auto simp: send_gimbal_delta_def send_fire_command_def send_chassis_command_def send_referee_query_def
        le_write_eqs comm_write_i32_le_def mem_write_def delta_image_def fire_image_def chassis_image_def delta_at_def fire_at_def chassis_at_def)
qed

section \<open>From the host to the hooks of the device\<close>

fun command_effect :: "('p, 'y) gimbal_app_scheme \<Rightarrow> gimbal_hooks \<Rightarrow> u64 \<Rightarrow> host_command \<Rightarrow> 'p link_heap \<Rightarrow> 'p link_heap" where
  "command_effect A k t (Cmd_delta c) h = (if ga_aim_on A (hp_ext h)
     then call_hook (gh_on_delta k) (\<lambda>p. ga_on_delta A p (delta_at t c) (gh_user k))
       (on_ext (ga_apply_delta A (hd_delta_yaw_udeg c) (hd_delta_pitch_udeg c) (hd_status c) t) h) else h)"
| "command_effect A k t (Cmd_fire c) h = call_hook (gh_on_fire k) (\<lambda>p. ga_on_fire A p (fire_at t c) (gh_user k)) h"
| "command_effect A k t (Cmd_chassis c) h = call_hook (gh_on_chassis k) (\<lambda>p. ga_on_chassis A p (chassis_at t c) (gh_user k)) h"
| "command_effect A k t Cmd_referee_query h = call_hook (gh_on_referee_query k) (\<lambda>p. ga_on_referee_query A p (gh_user k)) h"

lemma gimbal_rx_command:
  assumes "a \<noteq> 0" and "\<not> GIMBAL_DELTA_ACK_ENABLE B"
  shows "gimbal_on_rx B A (Some (command_image t c @ rest)) (length (command_image t c)) a h =
    Some (command_effect A (gm_hooks (hp_gimbal h a)) t c h)"
proof (cases c)
  case Cmd_delta
  then show ?thesis using assms
    by (simp add: gimbal_on_rx_def read_sid read_delta_image Let_def) (simp add: delta_at_def)
next
  case Cmd_fire
  then show ?thesis using assms
    by (simp add: gimbal_on_rx_def read_sid read_fire_image Let_def) (simp add: gimbal_sids)
next
  case Cmd_chassis
  then show ?thesis using assms
    by (simp add: gimbal_on_rx_def read_sid read_chassis_image Let_def) (simp add: gimbal_sids)
next
  case Cmd_referee_query
  then show ?thesis using assms
    by (simp add: gimbal_on_rx_def read_sid Let_def) (simp add: gimbal_sids)
qed

text \<open>The gimbal channel at \<open>g\<close>, registered with the manager at \<open>m\<close>.\<close>

definition gimbal_at :: "'p link_heap \<Rightarrow> addr \<Rightarrow> addr \<Rightarrow> bool" where
  "gimbal_at h m g \<longleftrightarrow> chmgr_find (Some m) GIMBAL_CH_ID h = Some g \<and> ck_on_rx (ch_hooks (hp_chan h g)) = Some fn_gimbal_on_rx \<and>
     ch_user (hp_chan h g) = g \<and> g \<noteq> 0"

lemma gimbal_at_same:
  assumes "same_objects h h'" and "gimbal_at h m g"
  shows "gimbal_at h' m g"
proof -
  have eq: "hp_chan h' = hp_chan h" "hp_mgr h' = hp_mgr h" using assms(1) by (simp_all add: same_objects_def)
  show ?thesis using assms(2) unfolding gimbal_at_def chmgr_find_def slot_has_id_def eq .
qed

lemma dispatch_command:
  assumes "gimbal_at h m g" and "\<not> GIMBAL_DELTA_ACK_ENABLE B"
  shows "chmgr_dispatch_rx (link_hooks B True A) (Some m) GIMBAL_CH_ID (command_image t c @ rest) (length (command_image t c)) (ctx, h) =
    Some (ctx, command_effect A (gm_hooks (hp_gimbal h g)) t c h)"
  using assms gimbal_rx_command [of g B A t c rest h]
  by (simp add: chmgr_dispatch_rx_def gimbal_at_def link_hooks_def on_heap_def)

text \<open>A driver ready to send.\<close>

definition ready :: "'p driver \<Rightarrow> bool" where
  "ready s \<longleftrightarrow> wf_ctx (fst s) \<and> po_user (cx_port (fst s)) \<noteq> 0 \<and> im_transport (snd s) \<and> im_open (snd s)"

lemma device_callbacks: "comm_callbacks (link_hooks (plain_build B) True A) link_ok"
  by (rule dm02.comm_callbacks_axioms)

lemma command_sent:
  assumes "carries E out" and "ready (ctx, w)" and "command_time E (im_ts w) c = Some t"
  shows "\<exists>s'. send_command E c (ctx, w) = Some (True, s') \<and> only_sent E (ctx, w) s' \<and> out (im_ext (snd s')) = out (im_ext w) @
    notify_image UPROTO_MSG_MUX (cx_local_seq ctx) (notify_hdr GIMBAL_CH_ID (command_sid c) 0
      (word_of_nat (length (command_image t c))) (im_seqs w ! unat GIMBAL_CH_ID + 1)) (command_image t c)"
proof -
  obtain wr where wr: "po_write (cx_port ctx) = Some wr" using wf_ctx_write assms(2) by (auto simp: ready_def)
  have un: "unat (word_of_nat (length (command_image t c)) :: u16) = length (command_image t c)"
    using command_image_length [of t c] by (simp add: unat_of_nat)
  show ?thesis
    using send_mux_out [OF assms(1) wr, of w "word_of_nat (length (command_image t c))" "command_image t c" GIMBAL_CH_ID "command_sid c"]
      assms(2) un command_image_length [of t c] send_command_eq [OF assms(3), of ctx] by (auto simp: ready_def)
qed

lemma command_received:
  assumes "receives link_ok UPROTO_MSG_MUX a m (dctx, dh)" and "gimbal_at dh m g" and "\<not> GIMBAL_DELTA_ACK_ENABLE B"
    and "concat chunks = notify_image UPROTO_MSG_MUX seq (notify_hdr GIMBAL_CH_ID sid 0 (word_of_nat (length (command_image t c))) q) (command_image t c)"
    and "\<forall>x \<in> set chunks. length x \<le> 239"
  shows "\<exists>dctx' h1. same_objects dh h1 \<and> feed (comm_env P (link_hooks (plain_build B) True A)) chunks (dctx, dh) =
    Some (dctx', command_effect A (gm_hooks (hp_gimbal dh g)) t c h1)"
proof -
  let ?hdr = "notify_hdr GIMBAL_CH_ID sid 0 (word_of_nat (length (command_image t c))) q"
  have un: "unat (word_of_nat (length (command_image t c)) :: u16) = length (command_image t c)"
    using command_image_length [of t c] by (simp add: unat_of_nat)
  have hdr: "mx_sof ?hdr = MUX_SOF" "mx_ver ?hdr = MUX_VER" "unat (mx_len ?hdr) = length (command_image t c)" "mx_channel ?hdr = GIMBAL_CH_ID"
    using un by (simp_all add: notify_hdr_def)
  have ty: "user_type UPROTO_MSG_MUX" by (simp add: user_type_def UPROTO_MSG_MUX_def)
  have len: "length (command_image t c) \<le> 240" using command_image_length [of t c] by simp
  obtain rest where rest: "drop 14 (mux_image ?hdr (command_image t c)) = command_image t c @ rest" by (simp add: mux_image_def Let_def)
  from feed_notify [OF device_callbacks assms(1) ty hdr(1-3) len assms(4,5), where P = P] obtain ctx1 h1 d h' b where
    "same_objects dh h1"
    "chmgr_dispatch_rx (link_hooks (plain_build B) True A) (Some m) GIMBAL_CH_ID (command_image t c @ rest) (length (command_image t c)) (ctx1, h1) = Some (d, h')"
    "feed (comm_env P (link_hooks (plain_build B) True A)) chunks (dctx, dh) = Some (set_rx b 0 d, h')"
    unfolding hdr(4) rest by blast
  moreover from this(1) have "hp_gimbal h1 = hp_gimbal dh" by (intro same_more_gimbal) (simp add: same_objects_def)
  ultimately show ?thesis
    using dispatch_command [OF gimbal_at_same [OF _ assms(2)], of h1 "plain_build B" A t c rest ctx1] assms(3)
    by (auto simp: plain_build_def)
qed

section \<open>From the device to the records of the host\<close>

lemma mux_decode_image:
  assumes "mx_sof h = MUX_SOF" "mx_ver h = MUX_VER" "unat (mx_len h) = length p"
  shows "\<exists>rest. mux_decode (Some (mux_image h p)) (16 + length p) (Some oh) (Some op) = Some (True, Some h, Some (Some (p @ rest)))"
proof -
  have "mux_accepts (mux_image h p) (16 + length p) h" using mux_accepts_image [OF assms, of "16 + length p" "[]"] by simp
  moreover from this have "mux_hdr_of (mux_image h p) = Some h" by (simp add: mux_accepts_def)
  moreover have "drop 14 (mux_image h p) = p @ le16 (crc16_bits (drop 1 (mux_hdr_bytes h @ p)) 0xFFFF)"
    by (simp add: mux_image_def Let_def)
  ultimately show ?thesis by (subst mux_decode_eq) auto
qed

lemma read_ext_words:
  assumes "drop (ext + 4 * idx) pl = concat (map le32 ws) @ rest" and "words = idx + length ws"
    and "ext + 4 * idx \<le> length pl"
  shows "read_ext pl ext words idx fs st = Some (fold (\<lambda>(f, v). f v) (zip fs ws) st)"
  using assms
proof (induction ws arbitrary: idx fs st)
  case Nil
  then have "words = idx" by simp
  then show ?case by (induction fs arbitrary: st) simp_all
next
  case (Cons v ws)
  have "length (drop (ext + 4 * idx) pl) = 4 + length (concat (map le32 ws) @ rest)" using Cons.prems(1) by simp
  then have len: "ext + 4 * Suc idx \<le> length pl" using Cons.prems(3) by simp
  have read: "comm_read_i32_le pl (ext + 4 * idx) = Some v"
    using Cons.prems(1) len by (simp add: field_reads)
  have "drop (ext + 4 * Suc idx) pl = drop 4 (drop (ext + 4 * idx) pl)" by (simp add: add.commute add.left_commute)
  then have "drop (ext + 4 * Suc idx) pl = concat (map le32 ws) @ rest" using Cons.prems(1) by simp
  from Cons.IH [OF this _ len] Cons.prems(2) show ?case
    using read by (cases fs) simp_all
qed

lemma handle_mux_notify:
  fixes ch :: u8 and sid :: u16 and flags :: u8 and q :: u32
  assumes "2 \<le> length p" "length p < 0x10000" and sid: "take 2 p = le16 sid"
    and "ch \<noteq> TS_CH_ID"
  defines "hdr \<equiv> notify_hdr ch sid flags (word_of_nat (length p)) q"
  shows "\<exists>rest. handle_mux E (mux_image hdr p) (16 + length p) s =
    (if ch = CAM_CH_ID \<and> sid = CAM_SID_EVENT then handle_camera_event E (p @ rest) (length p) s
     else if ch = GIMBAL_CH_ID \<and> sid = GIMBAL_SID_STATE then handle_gimbal_state E (p @ rest) (length p) s
     else if ch = GIMBAL_CH_ID \<and> sid = GIMBAL_SID_TFMINI then handle_tfmini E (p @ rest) (length p) s
     else if ch = GIMBAL_CH_ID \<and> sid = GIMBAL_SID_REFEREE then handle_referee E (p @ rest) (length p) s
     else handle_mux E (mux_image hdr p) (16 + length p) s)"
proof -
  have n: "unat (mx_len hdr) = length p" using assms(2) by (simp add: hdr_def notify_hdr_def unat_of_nat)
  have hdr: "mx_sof hdr = MUX_SOF" "mx_ver hdr = MUX_VER" "mx_channel hdr = ch" by (simp_all add: hdr_def notify_hdr_def)
  obtain rest where d: "mux_decode (Some (mux_image hdr p)) (16 + length p) (Some zero_mux_hdr) (Some None) =
      Some (True, Some hdr, Some (Some (p @ rest)))" using mux_decode_image [OF hdr(1,2) n] by blast
  have "comm_read_u16_le (p @ rest) 0 = Some sid" using assms(1) sid by (simp add: field_reads)
  then show ?thesis
    using d n hdr assms(1,4) by (intro exI [of _ rest]) (simp add: handle_mux_def)
qed

text \<open>The record that a state with the given extension words should give.\<close>

definition sent_state :: "gimbal_build \<Rightarrow> gimbal_state \<Rightarrow> i32 list \<Rightarrow> host_gimbal_state" where
  "sent_state B st ws = fold (\<lambda>(f, v). f v) (zip ext_fields ws) (zero_host_gimbal\<lparr>
     hg_enc_yaw := if GIMBAL_STATE_HAS_ENCODERS B then gs_enc_yaw st else 0, hg_enc_pitch := if GIMBAL_STATE_HAS_ENCODERS B then gs_enc_pitch st else 0,
     hg_yaw_udeg := if GIMBAL_STATE_HAS_IMU B then gs_yaw_udeg st else 0, hg_pitch_udeg := if GIMBAL_STATE_HAS_IMU B then gs_pitch_udeg st else 0,
     hg_roll_udeg := if GIMBAL_STATE_HAS_IMU B then gs_roll_udeg st else 0, hg_device_ts_us := gs_ts_us st\<rparr>)"

lemma state_of_image:
  assumes "dc_gimbal_has_encoders cfg = GIMBAL_STATE_HAS_ENCODERS B" and "dc_gimbal_has_imu cfg = GIMBAL_STATE_HAS_IMU B"
  shows "read_gimbal_state cfg (state_image B st @ concat (map le32 ws) @ rest) (length (state_image B st) + 4 * length ws) =
    Some (Some (sent_state B st ws))"
proof -
  let ?pl = "state_image B st @ concat (map le32 ws) @ rest"
  have ext: "read_ext ?pl (length (state_image B st)) (length ws) 0 ext_fields s = Some (fold (\<lambda>(f, v). f v) (zip ext_fields ws) s)" for s
    by (rule read_ext_words [where rest = rest]) simp_all
  have words: "(if length (state_image B st) + 4 * length ws > length (state_image B st)
      then length (state_image B st) + 4 * length ws - length (state_image B st) else 0) div 4 = length ws" by simp
  show ?thesis
    using ext words assms unfolding read_gimbal_state_def
    by (cases "ws = []"; cases "GIMBAL_STATE_HAS_ENCODERS B"; cases "GIMBAL_STATE_HAS_IMU B")
      (simp_all add: state_image_def field_reads zero_host_gimbal_def sent_state_def)
qed

section \<open>Ticks, commands and the reading loop\<close>

context wrapping_host
begin

lemma driver_tick_safe:
  assumes "wf_ctx ctx" "driver_ok cb J w"
  shows "safe (driver_ok cb J) ctx (Driver_tick E (ctx, w))"
  unfolding Driver_tick_def using assms
  by (auto intro!: safe_bind [OF host.tick_safe] host_ts_tick_safe)

lemma rx_bytes_safe:
  "wf_ctx ctx \<Longrightarrow> driver_ok cb J w \<Longrightarrow> n \<le> length data \<Longrightarrow> safe (driver_ok cb J) ctx (uproto_on_rx_bytes (driver_env E) data n (ctx, w))"
  by (rule host.on_rx_bytes_safe)

lemma send_command_total:
  assumes "wf_ctx ctx" "driver_ok cb J w"
  shows "safe (driver_ok cb J) ctx (map_option snd (send_command E c (ctx, w)))"
proof -
  obtain d n where "send_command E c (ctx, w) = Option.bind (command_ts E d n w)
      (\<lambda>(t, w). drv_send_mux E GIMBAL_CH_ID (command_sid c) (Some (command_image t c)) (word_of_nat (length (command_image t c))) (ctx, w))"
  proof (cases c)
    case (Cmd_delta x)
    then show ?thesis by (intro that [of "hd_device_ts_us x" "hd_host_ts_ns x"])
      (simp add: send_gimbal_delta_def le_write_eqs comm_write_i32_le_def mem_write_def delta_image_def delta_at_def)
  next
    case (Cmd_fire x)
    then show ?thesis by (intro that [of "hf_device_ts_us x" "hf_host_ts_ns x"])
      (simp add: send_fire_command_def le_write_eqs comm_write_i32_le_def mem_write_def fire_image_def fire_at_def)
  next
    case (Cmd_chassis x)
    then show ?thesis by (intro that [of "hq_device_ts_us x" "hq_host_ts_ns x"])
      (simp add: send_chassis_command_def le_write_eqs comm_write_i32_le_def mem_write_def chassis_image_def chassis_at_def)
  next
    case Cmd_referee_query
    then show ?thesis by (intro that [of 1 0])
      (simp add: send_referee_query_def command_ts_def le_write_eqs mem_write_def)
  qed
  moreover obtain t w' where "command_ts E d n w = Some (t, w')" "driver_ok cb J w'" using command_ts_defined [OF assms(2)] by blast
  moreover have "unat (word_of_nat (length (command_image t c)) :: u16) = length (command_image t c)"
    using command_image_length [of t c] by (simp add: unat_of_nat)
  moreover have "safe (driver_ok cb J) ctx (map_option snd (drv_send_mux E GIMBAL_CH_ID (command_sid c) (Some (command_image t c))
      (word_of_nat (length (command_image t c))) (ctx, w')))"
    by (rule send_mux_safe) (use calculation(3,4) assms(1) command_image_length [of t c] in auto)
  ultimately show ?thesis by simp
qed

end

text \<open>
  A transport with finitely many unread bytes: a read that returns bytes returns at most what it stored and leaves
  fewer unread; writing, the clock and the callbacks add none.
\<close>

definition finite_input :: "'p host_env \<Rightarrow> 'p driver_callbacks \<Rightarrow> ('p \<Rightarrow> nat) \<Rightarrow> bool" where
  "finite_input E cb unread \<longleftrightarrow>
     (\<forall>e n buf e'. tp_read_some E 1024 e = ((n, buf), e') \<longrightarrow> n > 0 \<longrightarrow> nat n \<le> length buf \<and> unread e' < unread e) \<and>
     (\<forall>d e. unread (snd (tp_write_all E d e)) \<le> unread e) \<and> (\<forall>e. unread (snd (steady_ns E e)) \<le> unread e) \<and>
     (\<forall>k. quiet_callbacks (\<lambda>e. unread e \<le> k) cb)"

lemma quiet_conj: "quiet_callbacks I cb \<Longrightarrow> quiet_callbacks J cb \<Longrightarrow> quiet_callbacks (\<lambda>e. I e \<and> J e) cb"
  unfolding quiet_callbacks_def keeps_ext_def by (auto split: option.splits)

lemma finite_input_host:
  assumes "finite_input E cb unread" and "wrapping_host E cb J"
  shows "wrapping_host E cb (\<lambda>e. J e \<and> unread e \<le> k)"
proof -
  have fin: "unread (snd (tp_write_all E d e)) \<le> unread e" "unread (snd (steady_ns E e)) \<le> unread e" "quiet_callbacks (\<lambda>e. unread e \<le> k) cb" for d e
    using assms(1) by (auto simp: finite_input_def)
  have host: "J e \<Longrightarrow> J (snd (tp_write_all E d e))" "J e \<Longrightarrow> J (snd (steady_ns E e))" "quiet_callbacks J cb" "fwrapv E" for d e
    using assms(2) by (auto simp: wrapping_host_def host_world_def wrapping_host_axioms_def)
  show ?thesis
    by unfold_locales (use fin host in \<open>auto intro: order_trans quiet_conj\<close>)
qed

lemma poll_loop_returns:
  assumes fin: "finite_input E cb unread" and host: "wrapping_host E cb J" and read: "\<And>e. J e \<Longrightarrow> J (snd (tp_read_some E 1024 e))"
    and wf: "wf_ctx ctx" "driver_ok cb (\<lambda>e. J e \<and> unread e \<le> k) w"
  shows "\<exists>ctx' w'. poll_loop E (ctx, w) = Some (ctx', w') \<and> wf_ctx ctx' \<and> driver_ok cb J w'"
  using wf
proof (induction k arbitrary: ctx w rule: less_induct)
  case (less k)
  obtain n buf e where r: "tp_read_some E 1024 (im_ext w) = ((n, buf), e)" by (metis surj_pair)
  have J: "J e" using read [of "im_ext w"] less.prems(2) r by (simp add: driver_ok_def)
  show ?case
  proof (cases "n > 0")
    case True
    then have n: "nat n \<le> length buf" and e: "unread e < unread (im_ext w)" using fin r by (auto simp: finite_input_def)
    have k: "unread (im_ext w) \<le> k" using less.prems(2) by (simp add: driver_ok_def)
    have ok: "driver_ok cb (\<lambda>x. J x \<and> unread x \<le> unread e) (w\<lparr>im_ext := e\<rparr>)" using less.prems(2) J by (simp add: driver_ok_def)
    from wrapping_host.rx_bytes_safe [OF finite_input_host [OF fin host] less.prems(1) ok n]
    obtain c1 w1 where s: "uproto_on_rx_bytes (driver_env E) buf (nat n) (ctx, w\<lparr>im_ext := e\<rparr>) = Some (c1, w1)" "wf_ctx c1"
      "driver_ok cb (\<lambda>x. J x \<and> unread x \<le> unread e) w1" by (auto simp: safe_def)
    have "unread e < k" using e k by simp
    from less.IH [OF this s(2,3)] show ?thesis using True r s(1) by (subst poll_loop.simps) simp
  next
    case False
    then show ?thesis using r J less.prems by (subst poll_loop.simps) (simp add: driver_ok_def)
  qed
qed

section \<open>Opening and stepping\<close>

context wrapping_host
begin

lemma init_uproto_safe:
  assumes "driver_ok cb J w"
  shows "\<exists>ctx w'. init_uproto E w = Some (ctx, w') \<and> wf_ctx ctx \<and> driver_ok cb J w'"
proof -
  define pop where "pop = \<lparr>po_write = Some fn_drv_write, po_flush = Some fn_drv_flush, po_get_mtu = Some fn_drv_get_mtu, po_user = the_impl\<rparr>"
  define t where "t = \<lparr>ti_now_ms = Some fn_drv_now_ms, ti_user = 0\<rparr>"
  let ?ctx = "\<lambda>cfg. snd (uproto_register_handler UPROTO_MSG_MUX (Some fn_drv_on_mux) the_impl (uproto_init pop t (Some cfg)))"
  have "wf_ctx (?ctx cfg)" for cfg by (intro register_handler_wf init_wf) (simp add: pop_def)
  then have "safe (driver_ok cb J) (?ctx cfg) (map_option snd (uproto_start_handshake (driver_env E) (?ctx cfg, w)))" for cfg
    using host.start_handshake_safe assms by blast
  then have hs: "\<exists>r c v. uproto_start_handshake (driver_env E) (?ctx cfg, w) = Some (r, c, v) \<and> wf_ctx c \<and> driver_ok cb J v" for cfg
    by (fastforce simp: safe_def)
  show ?thesis
    unfolding init_uproto_def Let_def pop_def [symmetric] t_def [symmetric] split_beta
    using hs [of "\<lparr>cf_handshake_timeout_ms = dc_handshake_timeout_ms (im_config w), cf_heartbeat_interval_ms = dc_heartbeat_interval_ms (im_config w),
                cf_default_timeout_ms = dc_default_timeout_ms (im_config w), cf_default_retries = dc_default_retries (im_config w),
                cf_enable_auto_handshake = dc_auto_handshake (im_config w), cf_event_cb = Some fn_drv_event, cf_event_user = the_impl\<rparr>"]
    by (auto simp: driver_ok_def)
qed

lemma Driver_open_safe:
  assumes "wf_ctx ctx" and "driver_ok cb J w" and "\<And>ep e. J e \<Longrightarrow> J (snd (tp_open E ep e))"
  shows "\<exists>ok ctx' w'. Driver_open E ep (ctx, w) = Some (ok, ctx', w') \<and> wf_ctx ctx' \<and> driver_ok cb J w'"
proof -
  obtain ok e where o: "tp_open E ep (im_ext w) = (ok, e)" by fastforce
  then have "J e" using assms(3) [of "im_ext w" ep] assms(2) by (simp add: driver_ok_def)
  then have "driver_ok cb J (w\<lparr>im_ext := e\<rparr>)" using assms(2) by simp
  moreover from this have "\<exists>c v. init_uproto E (w\<lparr>im_ext := e, im_open := True\<rparr>) = Some (c, v) \<and> wf_ctx c \<and> driver_ok cb J v"
    using init_uproto_safe by simp
  ultimately show ?thesis using assms o by (auto simp: Driver_open_def Let_def)
qed

lemma Driver_step_returns:
  assumes "wf_ctx ctx" and "driver_ok cb J w" and "finite_input E cb unread"
    and "\<And>e. J e \<Longrightarrow> J (snd (tp_read_some E 1024 e))" and "\<And>ms e. J e \<Longrightarrow> J (snd (tp_wait_readable E ms e))"
  shows "\<exists>ctx' w'. Driver_step E ms (ctx, w) = Some (ctx', w') \<and> wf_ctx ctx' \<and> driver_ok cb J w'"
proof -
  let ?w = "w\<lparr>im_ext := snd (tp_wait_readable E ms (im_ext w))\<rparr>"
  have "driver_ok cb (\<lambda>e. J e \<and> unread e \<le> unread (im_ext ?w)) ?w" using assms(2,5) by (simp add: driver_ok_def)
  from poll_loop_returns [OF assms(3) wrapping_host_axioms assms(4,1) this]
  have "\<exists>c v. Driver_poll E ms (ctx, w) = Some (c, v) \<and> wf_ctx c \<and> driver_ok cb J v"
    using assms(1,2) by (auto simp: Driver_poll_def)
  then obtain c v where "Driver_poll E ms (ctx, w) = Some (c, v)" "wf_ctx c" "driver_ok cb J v" by blast
  then show ?thesis using driver_tick_safe [of c v] by (auto simp: Driver_step_def safe_def)
qed

end

lemma rx_store_overflow:
  assumes "wf_ctx ctx" "cx_rx_pos ctx = 0" "length data = 513"
  shows "\<exists>b. rx_store data ctx = Some (set_rx b 0 ctx)"
proof -
  obtain xs x where d: "data = xs @ [x]" "length xs = 512" using assms(3) by (cases data rule: rev_exhaust) auto
  have app: "rx_store (as @ bs) c = Option.bind (rx_store as c) (rx_store bs)" for as bs c
    by (induction as arbitrary: c) (auto simp: bind_eq_None_conv split: Option.bind_splits)
  have "rx_pending ctx = []" using assms(2) by (simp add: rx_pending_def)
  then obtain b where "rx_store xs ctx = Some (set_rx b 512 ctx)"
    using rx_store_append [OF assms(1), of xs] d(2) assms(2) by auto
  then have "rx_store data ctx = rx_store [x] (set_rx b 512 ctx)" by (simp add: d(1) app)
  also have "\<dots> = Some (set_rx b 0 ctx)" by (simp add: set_rx_def)
  finally show ?thesis by blast
qed

section \<open>A host and a device on one wire\<close>

definition pipe_host :: "pipe host_env" where
  "pipe_host = \<lparr>tp_open = (\<lambda>_ e. (True, e)), tp_close = (\<lambda>e. e), tp_write_all = (\<lambda>d e. (True, e\<lparr>pi_out := pi_out e @ d\<rparr>)),
     tp_read_some = (\<lambda>_ e. ((0, []), e)), tp_wait_readable = (\<lambda>_ e. (0, e)), steady_ns = (\<lambda>e. (ucast (pi_clock e), e)),
     ns_to_device_us = (\<lambda>_ _. None), us_to_host_ns = (\<lambda>_ _. None), fwrapv = True\<rparr>"

definition host_ctx :: uproto_context where
  "host_ctx = snd (uproto_register_handler UPROTO_MSG_MUX (Some fn_drv_on_mux) the_impl
     (uproto_init \<lparr>po_write = Some fn_drv_write, po_flush = Some fn_drv_flush, po_get_mtu = Some fn_drv_get_mtu, po_user = the_impl\<rparr>
        \<lparr>ti_now_ms = Some fn_drv_now_ms, ti_user = 0\<rparr> None))"

definition host_impl :: "pipe driver_impl" where
  "host_impl = (new_driver_impl True default_driver_config pipe0)\<lparr>im_open := True\<rparr>"

lemma host_ready: "carries pipe_host pi_out" "ready (host_ctx, host_impl)" "wf_ctx host_ctx" "cx_rx_pos host_ctx = 0"
  "driver_ok no_callbacks J host_impl \<longleftrightarrow> J pipe0" "im_callbacks host_impl = no_callbacks"
proof -
  show wf: "wf_ctx host_ctx" unfolding host_ctx_def by (intro register_handler_wf init_wf) simp
  show "ready (host_ctx, host_impl)"
    using wf by (simp add: ready_def host_impl_def new_driver_impl_def) (simp add: host_ctx_def uproto_register_handler_def uproto_init_def)
  show "cx_rx_pos host_ctx = 0" by (simp add: host_ctx_def uproto_register_handler_def uproto_init_def)
qed (simp_all add: carries_def pipe_host_def driver_ok_def host_impl_def new_driver_impl_def new_time_sync_def)

definition dev_ctx :: uproto_context where
  "dev_ctx = snd (uproto_register_handler UPROTO_MSG_MUX (Some fn_on_mux_rx) 20
     (uproto_init \<lparr>po_write = Some 1, po_flush = None, po_get_mtu = None, po_user = 0\<rparr> \<lparr>ti_now_ms = Some 2, ti_user = 0\<rparr> None))"

lemmas device_defs = device_init_def pipe_setup_def time_sync_channel_init_ex_def time_sync_channel_init_def
  time_sync_channel_set_max_rtt_us_def gimbal_channel_init_ex_def gimbal_channel_init_def camera_channel_init_ex_def channel_attach_def
  ch_uproto_bind_init_def channel_init_def channel_bind_transport_def chmgr_register_def chmgr_init_def empty_link_heap_def
  empty_gimbal_heap_def empty_heap_def gimbal_heap.defs link_heap.defs zero_manager_def zero_channel_def update_ts_def
  update_gimbal_def update_cam_def zero_gimbal_def

lemma device_ready:
  "receives link_ok UPROTO_MSG_MUX 20 10 (dev_ctx, device_init pipe_setup pipe0)" "gimbal_at (device_init pipe_setup pipe0) 10 40"
proof -
  have "wf_ctx dev_ctx" unfolding dev_ctx_def by (intro register_handler_wf init_wf) simp
  moreover have "find_handler dev_ctx UPROTO_MSG_MUX = Some 0"
    "cx_handlers dev_ctx ! 0 = \<lparr>he_type = UPROTO_MSG_MUX, he_handler = Some fn_on_mux_rx, he_user = 20\<rparr>" "cx_rx_pos dev_ctx = 0"
    by (simp_all add: dev_ctx_def uproto_register_handler_def uproto_init_def find_handler_def)
  moreover have "bd_mgr (hp_bind (device_init pipe_setup pipe0) 20) = Some 10" by (simp add: device_defs Let_def)
  ultimately show "receives link_ok UPROTO_MSG_MUX 20 10 (dev_ctx, device_init pipe_setup pipe0)"
    using device_init_wf by (simp add: receives_def)
  show "gimbal_at (device_init pipe_setup pipe0) 10 40"
    by (simp add: gimbal_at_def chmgr_find_def slot_has_id_def device_defs Let_def upt_conv_Cons)
qed

section \<open>Properties of the host driver\<close>

text \<open>
  C2. Commands arrive: a driver that is open over a transport that carries every byte sends an aim, fire, chassis or
  referee command successfully, and the bytes it writes, cut into chunks anyhow and fed to the device, call exactly
  the hook of that command on the device, with every field of the command and its time, and change no channel object;
  an aim command while auto-aim is off has no effect.
\<close>

theorem command_reaches_device:
  assumes "carries E out" and "ready (ctx, w)" and "command_time E (im_ts w) c = Some t"
    and "receives link_ok UPROTO_MSG_MUX a m (dctx, dh)" and "gimbal_at dh m g" and "\<not> GIMBAL_DELTA_ACK_ENABLE B"
  shows "\<exists>s' bytes. send_command E c (ctx, w) = Some (True, s') \<and> out (im_ext (snd s')) = out (im_ext w) @ bytes \<and>
    (\<forall>chunks. concat chunks = bytes \<and> (\<forall>x \<in> set chunks. length x \<le> 239) \<longrightarrow>
      (\<exists>dctx' h1. same_objects dh h1 \<and> feed (comm_env P (link_hooks (plain_build B) True A)) chunks (dctx, dh) =
         Some (dctx', command_effect A (gm_hooks (hp_gimbal dh g)) t c h1)))"
  using command_sent [OF assms(1-3)] command_received [OF assms(4-6)] by blast

definition sample_host_fire :: host_fire where
  "sample_host_fire = \<lparr>hf_fire_on = 1, hf_fire_mode = 2, hf_burst_count = 2, hf_status = 1, hf_host_ts_ns = 0, hf_device_ts_us = 77\<rparr>"

theorem command_reaches_device_witness:
  "\<exists>s' bytes dctx' h1. send_command pipe_host (Cmd_fire sample_host_fire) (host_ctx, host_impl) = Some (True, s') \<and>
    pi_out (im_ext (snd s')) = bytes \<and>
    feed (comm_env pipe_app (link_hooks (plain_build gimbal_config) True pipe_gimbal_app)) [bytes] (dev_ctx, device_init pipe_setup pipe0) =
      Some (dctx', h1) \<and> bytes \<noteq> []"
proof -
  have t: "command_time pipe_host (im_ts host_impl) (Cmd_fire sample_host_fire) = Some 77" by (simp add: sample_host_fire_def)
  have ack: "\<not> GIMBAL_DELTA_ACK_ENABLE gimbal_config" by (simp add: gimbal_config_def)
  let ?dev = "device_init pipe_setup pipe0" and ?env = "comm_env pipe_app (link_hooks (plain_build gimbal_config) True pipe_gimbal_app)"
  have "pi_out (im_ext host_impl) = []" by (simp add: host_impl_def new_driver_impl_def pipe0_def)
  with command_reaches_device [OF host_ready(1,2) t device_ready ack, of pipe_app pipe_gimbal_app] obtain s' bytes where
    s: "send_command pipe_host (Cmd_fire sample_host_fire) (host_ctx, host_impl) = Some (True, s')" "pi_out (im_ext (snd s')) = bytes"
    and r: "\<forall>chunks. concat chunks = bytes \<and> (\<forall>x \<in> set chunks. length x \<le> 239) \<longrightarrow>
      (\<exists>dctx' h1. same_objects ?dev h1 \<and> feed ?env chunks (dev_ctx, ?dev) =
         Some (dctx', command_effect pipe_gimbal_app (gm_hooks (hp_gimbal ?dev 40)) 77 (Cmd_fire sample_host_fire) h1))"
    by (metis append_Nil)
  from command_sent [OF host_ready(1,2) t] s have "length bytes = 58"
    by (auto simp: host_impl_def new_driver_impl_def pipe0_def frame_image_length)
  then have "concat [bytes] = bytes \<and> (\<forall>x \<in> set [bytes]. length x \<le> 239)" "bytes \<noteq> []" by auto
  then show ?thesis using s r by blast
qed

text \<open>
  C29. Gimbal states arrive: the packet of a state published by a device built with the field groups that the host is configured for, with
  up to 14 or more extension words behind it, is stored and reported with every field as sent, the words in the order of
  the extension fields, the fields without a word zero, stamped with the time of reception.
\<close>

theorem state_reaches_host:
  assumes "dc_gimbal_has_encoders (im_config w) = GIMBAL_STATE_HAS_ENCODERS B" and "dc_gimbal_has_imu (im_config w) = GIMBAL_STATE_HAS_IMU B"
    and "length (state_image B st) + 4 * length ws < 0x10000" and "now_ns_steady E w = (t, w1)"
  defines "p \<equiv> state_image B st @ concat (map le32 ws)"
  shows "\<exists>r. r = (sent_state B st ws)\<lparr>hg_host_ts_ns := t\<rparr> \<and>
    handle_mux E (mux_image (notify_hdr GIMBAL_CH_ID GIMBAL_SID_STATE flags (word_of_nat (length p)) q) p) (16 + length p) (ctx, w) =
      Some (ctx, call_back (on_gimbal_state (im_callbacks w1)) r (w1\<lparr>im_last_gimbal := Some r\<rparr>))"
proof -
  have "length (concat (map le32 ws)) = 4 * length ws" by (induction ws) simp_all
  then have len: "length p = length (state_image B st) + 4 * length ws" by (simp add: p_def)
  have sid: "take 2 p = le16 GIMBAL_SID_STATE" "2 \<le> length p" by (simp_all add: p_def state_image_def)
  have "GIMBAL_CH_ID \<noteq> (TS_CH_ID :: u8)" "GIMBAL_CH_ID \<noteq> CAM_CH_ID" by simp_all
  with handle_mux_notify [OF sid(2) _ sid(1), where ch = GIMBAL_CH_ID and flags = flags and q = q and E = E and s = "(ctx, w)"] assms(3) len obtain rest where
    m: "handle_mux E (mux_image (notify_hdr GIMBAL_CH_ID GIMBAL_SID_STATE flags (word_of_nat (length p)) q) p) (16 + length p) (ctx, w) =
      handle_gimbal_state E (p @ rest) (length p) (ctx, w)" by auto
  have "read_gimbal_state (im_config w) (p @ rest) (length p) = Some (Some (sent_state B st ws))"
    using state_of_image [OF assms(1,2), of st ws rest] unfolding len by (simp only: p_def append_assoc)
  then show ?thesis
    unfolding m using assms(4) by (simp add: handle_gimbal_state_def Let_def)
qed

definition sample_state :: gimbal_state where
  "sample_state = \<lparr>gs_enc_yaw = 1, gs_enc_pitch = 2, gs_yaw_udeg = 3, gs_pitch_udeg = 4, gs_roll_udeg = 5, gs_ts_us = 6\<rparr>"

theorem state_reaches_host_witness:
  "\<exists>w'. handle_mux pipe_host (mux_image (notify_hdr GIMBAL_CH_ID GIMBAL_SID_STATE 0 38 1) (state_image gimbal_config sample_state @ le32 7 @ le32 8))
      54 (host_ctx, host_impl) = Some (host_ctx, w') \<and>
    map_option hg_roll_udeg (im_last_gimbal w') = Some 5 \<and> map_option hg_pitch_cmd_current (im_last_gimbal w') = Some 8"
proof -
  obtain t w1 where n: "now_ns_steady pipe_host host_impl = (t, w1)" by fastforce
  have c: "dc_gimbal_has_encoders (im_config host_impl) = GIMBAL_STATE_HAS_ENCODERS gimbal_config"
    "dc_gimbal_has_imu (im_config host_impl) = GIMBAL_STATE_HAS_IMU gimbal_config" "im_callbacks w1 = no_callbacks"
    using n by (auto simp: host_impl_def new_driver_impl_def default_driver_config_def gimbal_config_def now_ns_steady_def Let_def split_beta)
  have l: "length (state_image gimbal_config sample_state) = 30" by (simp add: state_image_def gimbal_config_def)
  from state_reaches_host [OF c(1,2) _ n, of sample_state "[7, 8]" 0 1 host_ctx] l c(3) show ?thesis
    by (auto simp: call_back_def no_callbacks_def sent_state_def ext_fields_def sample_state_def gimbal_config_def)
qed

text \<open>
  The other reports arrive: a range report, a referee report and a camera event, as the device packs them, are stored and
  reported field by field.
\<close>

theorem reports_reach_host:
  assumes "now_ns_steady E w = (t, w1)" and "CAM_PAYLOAD_HAS_FRAME_ID B" and "CAM_PAYLOAD_HAS_TS_US B"
  shows "handle_mux E (mux_image (notify_hdr GIMBAL_CH_ID GIMBAL_SID_TFMINI f 18 q) (tfmini_image d)) 34 (ctx, w) =
      (let r = \<lparr>ht_distance_cm = gt_distance_cm d, ht_strength = gt_strength d, ht_temp_cdeg = gt_temp_cdeg d, ht_status = gt_status d,
         ht_device_ts_us = gt_ts_us d, ht_host_ts_ns = t\<rparr>
       in Some (ctx, call_back (on_gimbal_tfmini (im_callbacks w1)) r (w1\<lparr>im_last_tfmini := Some r\<rparr>))) \<and>
    handle_mux E (mux_image (notify_hdr GIMBAL_CH_ID GIMBAL_SID_REFEREE f 28 q) (referee_image g)) 44 (ctx, w) =
      (let r = \<lparr>hr_enemy_team = gr_enemy_team g, hr_fire_allowed = gr_fire_allowed g, hr_robot_id = gr_robot_id g,
         hr_game_stage = gr_game_stage g, hr_status = gr_status g, hr_device_ts_us = gr_ts_us g, hr_host_ts_ns = t\<rparr>
       in Some (ctx, call_back (on_referee_status (im_callbacks w1)) r (w1\<lparr>im_last_referee := Some r\<rparr>))) \<and>
    handle_mux E (mux_image (notify_hdr CAM_CH_ID CAM_SID_EVENT f 14 q) (event_image B CAM_SID_EVENT frame_id ts)) 30 (ctx, w) =
      (let r = \<lparr>hc_frame_id = frame_id, hc_device_ts_us = ts, hc_host_ts_ns = t\<rparr>
       in Some (ctx, call_back (on_camera_event (im_callbacks w1)) r (w1\<lparr>im_last_camera := Some r\<rparr>)))" (is "?T \<and> ?R \<and> ?C")
proof (intro conjI)
  have "take 2 (tfmini_image d) = le16 GIMBAL_SID_TFMINI" by (simp add: tfmini_image_def)
  from handle_mux_notify [OF _ _ this, where ch = GIMBAL_CH_ID and flags = f and q = q and E = E and s = "(ctx, w)"]
  obtain rest where "handle_mux E (mux_image (notify_hdr GIMBAL_CH_ID GIMBAL_SID_TFMINI f 18 q) (tfmini_image d)) 34 (ctx, w) =
      handle_tfmini E (tfmini_image d @ rest) 18 (ctx, w)" by (auto simp: gimbal_sids)
  then show ?T using assms(1) by (simp add: handle_tfmini_def tfmini_image_def field_reads Let_def)
  have "take 2 (referee_image g) = le16 GIMBAL_SID_REFEREE" by (simp add: referee_image_def)
  from handle_mux_notify [OF _ _ this, where ch = GIMBAL_CH_ID and flags = f and q = q and E = E and s = "(ctx, w)"]
  obtain rest where "handle_mux E (mux_image (notify_hdr GIMBAL_CH_ID GIMBAL_SID_REFEREE f 28 q) (referee_image g)) 44 (ctx, w) =
      handle_referee E (referee_image g @ rest) 28 (ctx, w)" by (auto simp: gimbal_sids)
  then show ?R using assms(1) by (simp add: handle_referee_def referee_image_def field_reads Let_def)
  have "take 2 (event_image B CAM_SID_EVENT frame_id ts) = le16 CAM_SID_EVENT" "length (event_image B CAM_SID_EVENT frame_id ts) = 14"
    using assms(2,3) by (simp_all add: event_image_def)
  with handle_mux_notify [OF _ _ this(1), where ch = CAM_CH_ID and flags = f and q = q and E = E and s = "(ctx, w)"]
  obtain rest where "handle_mux E (mux_image (notify_hdr CAM_CH_ID CAM_SID_EVENT f 14 q) (event_image B CAM_SID_EVENT frame_id ts)) 30 (ctx, w) =
      handle_camera_event E (event_image B CAM_SID_EVENT frame_id ts @ rest) 14 (ctx, w)" by auto
  then show ?C using assms by (simp add: handle_camera_event_def event_image_def field_reads Let_def)
qed

theorem reports_reach_host_witness:
  "\<exists>w'. handle_mux pipe_host (mux_image (notify_hdr GIMBAL_CH_ID GIMBAL_SID_TFMINI 0 18 1)
      (tfmini_image \<lparr>gt_distance_cm = 120, gt_strength = 5, gt_temp_cdeg = 1, gt_status = 0, gt_ts_us = 9\<rparr>)) 34 (host_ctx, host_impl) = Some (host_ctx, w') \<and>
    map_option ht_distance_cm (im_last_tfmini w') = Some 120"
proof -
  obtain t w1 where n: "now_ns_steady pipe_host host_impl = (t, w1)" by fastforce
  have "im_callbacks w1 = no_callbacks"
    using n by (auto simp: host_impl_def new_driver_impl_def now_ns_steady_def Let_def split_beta)
  moreover have "CAM_PAYLOAD_HAS_FRAME_ID camera_config" "CAM_PAYLOAD_HAS_TS_US camera_config" by (simp_all add: camera_config_def)
  ultimately show ?thesis
    using reports_reach_host [OF n, of camera_config 0 1 "\<lparr>gt_distance_cm = 120, gt_strength = 5, gt_temp_cdeg = 1, gt_status = 0, gt_ts_us = 9\<rparr>" host_ctx]
    by (simp add: Let_def call_back_def no_callbacks_def)
qed



text \<open>
  The reading loop of \<open>poll\<close> ends: over a transport with finitely many unread bytes, whatever they are, it returns with a
  well-formed context and driver.
\<close>

theorem poll_returns:
  assumes "finite_input E (im_callbacks w) unread" and "fwrapv E" and "wf_ctx ctx" and "driver_ok (im_callbacks w) (\<lambda>_. True) w"
  shows "\<exists>ctx' w'. poll_loop E (ctx, w) = Some (ctx', w') \<and> wf_ctx ctx' \<and> driver_ok (im_callbacks w) (\<lambda>_. True) w'"
proof -
  have "wrapping E = E" using assms(2) by simp
  moreover have "wrapping_host (wrapping E) (im_callbacks w) (\<lambda>_. True)" by (rule any_host.wrapping_host_axioms)
  ultimately have "wrapping_host E (im_callbacks w) (\<lambda>_. True)" by simp
  moreover have "driver_ok (im_callbacks w) (\<lambda>e. True \<and> unread e \<le> unread (im_ext w)) w" using assms(4) by (simp add: driver_ok_def)
  ultimately show ?thesis using poll_loop_returns [OF assms(1) _ _ assms(3)] by blast
qed

text \<open>A wire from which the bytes that the host wrote can be read back, up to 1024 at a time.\<close>

definition loop_host :: "pipe host_env" where
  "loop_host = pipe_host\<lparr>tp_write_all := (\<lambda>d e. (True, e)),
     tp_read_some := (\<lambda>cap e. ((int (min cap (length (pi_out e))), take cap (pi_out e)), e\<lparr>pi_out := drop cap (pi_out e)\<rparr>))\<rparr>"

theorem poll_returns_witness:
  "\<exists>ctx' w'. poll_loop loop_host (host_ctx, host_impl\<lparr>im_ext := pipe0\<lparr>pi_out := replicate 3000 0xAA\<rparr>\<rparr>) = Some (ctx', w') \<and> wf_ctx ctx'"
proof -
  let ?w = "host_impl\<lparr>im_ext := pipe0\<lparr>pi_out := replicate 3000 0xAA\<rparr>\<rparr>"
  have cb: "im_callbacks ?w = no_callbacks" using host_ready(6) by simp
  have "finite_input loop_host no_callbacks (\<lambda>e. length (pi_out e))"
    by (auto simp: finite_input_def loop_host_def pipe_host_def quiet_callbacks_def no_callbacks_def keeps_ext_def)
  moreover have "driver_ok no_callbacks (\<lambda>_. True) ?w" using host_ready(5) [of "\<lambda>_. True"] by simp
  moreover have "fwrapv loop_host" by (simp add: loop_host_def pipe_host_def)
  ultimately show ?thesis using poll_returns [of loop_host ?w "\<lambda>e. length (pi_out e)" host_ctx] host_ready(3) unfolding cb by blast
qed

text \<open>
  Large reads are lost: \<open>poll\<close> reads up to 1024 bytes at a time and hands them to the engine in one call, whose
  receive buffer has 512. A read of 513 bytes into an empty buffer clears it before any byte is looked at: whatever
  frames it contained, no handler and no callback is called, and the buffer is empty again.
\<close>

theorem poll_loses_large_read:
  assumes "wf_ctx ctx" and "cx_rx_pos ctx = 0" and "tp_read_some E 1024 (im_ext w) = ((513, data), e)" and "length data = 513"
    and "tp_read_some E 1024 e = ((0, []), e')"
  shows "\<exists>b. poll_loop E (ctx, w) = Some (set_rx b 0 ctx, w\<lparr>im_ext := e'\<rparr>)"
proof -
  from rx_store_overflow [OF assms(1,2,4)] obtain b where b: "rx_store data ctx = Some (set_rx b 0 ctx)" ..
  have "rx_step (driver_env E) (set_rx b 0 ctx, v) = Some (False, set_rx b 0 ctx, v)" for v by (simp add: rx_step_def)
  then have "uproto_process_rx_buffer (driver_env E) (set_rx b 0 ctx, v) = Some (set_rx b 0 ctx, v)" for v
    by (subst uproto_process_rx_buffer.simps) simp
  then have "uproto_on_rx_bytes (driver_env E) data 513 (ctx, v) = Some (set_rx b 0 ctx, v)" for v
    using b assms(4) by (simp add: uproto_on_rx_bytes_def mem_read_in)
  moreover have "poll_loop E (set_rx b 0 ctx, w\<lparr>im_ext := e\<rparr>) = Some (set_rx b 0 ctx, w\<lparr>im_ext := e'\<rparr>)"
    using assms(5) by (subst poll_loop.simps) simp
  ultimately show ?thesis using assms(3) by (intro exI [of _ b]) (subst poll_loop.simps, simp)
qed

theorem poll_loses_large_read_witness:
  "\<exists>b. poll_loop loop_host (host_ctx, host_impl\<lparr>im_ext := pipe0\<lparr>pi_out := replicate 513 0xAA\<rparr>\<rparr>) =
     Some (set_rx b 0 host_ctx, host_impl\<lparr>im_ext := pipe0\<rparr>)"
  using poll_loses_large_read [OF host_ready(3,4), of loop_host "host_impl\<lparr>im_ext := pipe0\<lparr>pi_out := replicate 513 0xAA\<rparr>\<rparr>"
      "replicate 513 0xAA" pipe0 pipe0]
  by (simp add: loop_host_def pipe0_def)

end
