(* ===== verification/Thread_Safe_Queue.thy ===== *)
theory Thread_Safe_Queue
  imports Dm02_Prelude
begin

text \<open>
  The bounded queue between threads of \<^verbatim>\<open>tools/thread_safe_queue.hpp\<close>. Every method body is one critical section under the
  mutex of the queue, so a method is one function on the queue; \<^verbatim>\<open>pop\<close> and \<^verbatim>\<open>front\<close> wait for an element, and a call that has to
  wait has no result. The system of the threads that use one queue, with the threads that sleep on its condition
  variable, is a step relation.
\<close>

section \<open>The methods\<close>

record 'a tsq =
  tq_items :: "'a list"
  tq_max :: nat

definition new_tsq :: "nat \<Rightarrow> 'a tsq" where
  "new_tsq max_size = \<lparr>tq_items = [], tq_max = max_size\<rparr>"

text \<open>
  The template parameter \<open>pop_when_full\<close> decides what a full queue does with a new element: it makes room at the front, or
  it calls the handler, which acts on the state of the application, and drops the new element. Making room in a queue without
  elements is undefined (\<open>None\<close>).
\<close>

definition tsq_push :: "bool \<Rightarrow> ('s \<Rightarrow> 's) \<Rightarrow> 'a \<Rightarrow> 'a tsq \<Rightarrow> 's \<Rightarrow> ('a tsq \<times> 's) option" where
  "tsq_push pop_when_full full_handler v q s =
     (if length (tq_items q) \<ge> tq_max q
      then if pop_when_full
           then (case tq_items q of [] \<Rightarrow> None | _ # r \<Rightarrow> Some (q\<lparr>tq_items := r @ [v]\<rparr>, s))
           else Some (q, full_handler s)
      else Some (q\<lparr>tq_items := tq_items q @ [v]\<rparr>, s))"

definition tsq_pop :: "'a tsq \<Rightarrow> ('a \<times> 'a tsq) option" where
  "tsq_pop q = (case tq_items q of [] \<Rightarrow> None | v # r \<Rightarrow> Some (v, q\<lparr>tq_items := r\<rparr>))"

definition tsq_front :: "'a tsq \<Rightarrow> 'a option" where
  "tsq_front q = (case tq_items q of [] \<Rightarrow> None | v # _ \<Rightarrow> Some v)"

text \<open>\<^verbatim>\<open>back\<close> leaves the variable of the caller as it is when the queue is empty.\<close>

definition tsq_back :: "'a \<Rightarrow> 'a tsq \<Rightarrow> 'a" where
  "tsq_back value q = (if tq_items q = [] then value else last (tq_items q))"

definition tsq_empty :: "'a tsq \<Rightarrow> bool" where
  "tsq_empty q \<longleftrightarrow> tq_items q = []"

fun pop_all :: "'a list \<Rightarrow> 'a list" where
  "pop_all [] = []"
| "pop_all (_ # r) = pop_all r"

definition tsq_clear :: "'a tsq \<Rightarrow> 'a tsq" where
  "tsq_clear q = q\<lparr>tq_items := pop_all (tq_items q)\<rparr>"

lemma pop_all_empty [simp]: "pop_all xs = []"
  by (induction xs) simp_all

section \<open>Queues in which the first element leaves first\<close>

text \<open>What a consumer relies on: it takes the contents from the front, and waits when there are none.\<close>

locale fifo =
  fixes take_front :: "'q \<Rightarrow> ('a \<times> 'q) option" and contents :: "'q \<Rightarrow> 'a list"
  assumes take_none: "contents q = [] \<Longrightarrow> take_front q = None"
    and take_some: "contents q = v # r \<Longrightarrow> \<exists>q'. take_front q = Some (v, q') \<and> contents q' = r"
begin

fun drain :: "nat \<Rightarrow> 'q \<Rightarrow> 'a list \<times> 'q" where
  "drain 0 q = ([], q)"
| "drain (Suc n) q = (case take_front q of None \<Rightarrow> ([], q) | Some (v, q) \<Rightarrow> let (vs, q) = drain n q in (v # vs, q))"

lemma drain_takes: "fst (drain n q) = take n (contents q) \<and> contents (snd (drain n q)) = drop n (contents q)"
proof (induction n arbitrary: q)
  case (Suc n)
  show ?case
  proof (cases "contents q")
    case Nil
    then show ?thesis by (simp add: take_none)
  next
    case (Cons v r)
    then obtain q' where "take_front q = Some (v, q')" "contents q' = r" using take_some by blast
    then show ?thesis using Suc [of q'] Cons by (simp add: split_beta)
  qed
qed simp

lemma take_Some_iff: "take_front q = Some (v, q') \<Longrightarrow> contents q = v # contents q'"
  using take_none take_some by (cases "contents q") fastforce+

end

interpretation tsq: fifo tsq_pop tq_items
  by unfold_locales (auto simp: tsq_pop_def)

section \<open>Threads on one queue\<close>

text \<open>
  The system: the queue, the threads that sleep in a wait, and two ghost histories, of the elements that entered the queue and
  of those that left it, whoever took them. A push that stores wakes every sleeper, as does \<^verbatim>\<open>clear\<close>; a sleeper can also wake up for
  no reason. A woken thread tests the condition again, which is the same step as a new call.
\<close>

record 'a tsq_system =
  sy_queue :: "'a tsq"
  sy_asleep :: "nat set"
  sy_entered :: "'a list"
  sy_left :: "'a list"

definition sys_start :: "nat \<Rightarrow> 'a tsq_system" where
  "sys_start max_size = \<lparr>sy_queue = new_tsq max_size, sy_asleep = {}, sy_entered = [], sy_left = []\<rparr>"

definition stores :: "bool \<Rightarrow> 'a tsq \<Rightarrow> bool" where
  "stores pop_when_full q \<longleftrightarrow> pop_when_full \<or> length (tq_items q) < tq_max q"

definition evicted :: "bool \<Rightarrow> 'a tsq \<Rightarrow> 'a list" where
  "evicted pop_when_full q = (if pop_when_full \<and> length (tq_items q) \<ge> tq_max q then take 1 (tq_items q) else [])"

inductive tsq_step :: "bool \<Rightarrow> 'a tsq_system \<Rightarrow> 'a tsq_system \<Rightarrow> bool" for pop_when_full :: bool where
  push: "tsq_push pop_when_full (\<lambda>u. u) v (sy_queue y) () = Some (q, u) \<Longrightarrow>
    tsq_step pop_when_full y
      (if stores pop_when_full (sy_queue y)
       then y\<lparr>sy_queue := q, sy_asleep := {}, sy_entered := sy_entered y @ [v], sy_left := sy_left y @ evicted pop_when_full (sy_queue y)\<rparr>
       else y\<lparr>sy_queue := q\<rparr>)"
| pop: "i \<notin> sy_asleep y \<Longrightarrow> tsq_pop (sy_queue y) = Some (v, q) \<Longrightarrow>
    tsq_step pop_when_full y (y\<lparr>sy_queue := q, sy_left := sy_left y @ [v]\<rparr>)"
| wait_pop: "i \<notin> sy_asleep y \<Longrightarrow> tsq_pop (sy_queue y) = None \<Longrightarrow> tsq_step pop_when_full y (y\<lparr>sy_asleep := insert i (sy_asleep y)\<rparr>)"
| wait_front: "i \<notin> sy_asleep y \<Longrightarrow> tsq_front (sy_queue y) = None \<Longrightarrow> tsq_step pop_when_full y (y\<lparr>sy_asleep := insert i (sy_asleep y)\<rparr>)"
| wake: "tsq_step pop_when_full y (y\<lparr>sy_asleep := sy_asleep y - {i}\<rparr>)"
| clear: "tsq_step pop_when_full y
    (y\<lparr>sy_queue := tsq_clear (sy_queue y), sy_asleep := {}, sy_left := sy_left y @ tq_items (sy_queue y)\<rparr>)"

definition tsq_inv :: "nat \<Rightarrow> 'a tsq_system \<Rightarrow> bool" where
  "tsq_inv m y \<longleftrightarrow> tq_max (sy_queue y) = m \<and> length (tq_items (sy_queue y)) \<le> m \<and>
     sy_entered y = sy_left y @ tq_items (sy_queue y) \<and> (sy_asleep y \<noteq> {} \<longrightarrow> tq_items (sy_queue y) = [])"

lemma tsq_start_inv: "tsq_inv m (sys_start m)"
  by (simp add: tsq_inv_def sys_start_def new_tsq_def)

lemma tsq_step_inv:
  assumes "tsq_step pw y y'" and "tsq_inv m y"
  shows "tsq_inv m y'"
  using assms
proof cases
  case (push v q u)
  then show ?thesis using assms(2)
    by (auto simp: tsq_inv_def tsq_push_def stores_def evicted_def split: if_splits list.splits)
qed (auto simp: tsq_inv_def tsq_pop_def tsq_front_def tsq_clear_def split: list.splits)

lemma tsq_run_inv: "(tsq_step pw)\<^sup>*\<^sup>* (sys_start m) y \<Longrightarrow> tsq_inv m y"
  by (induction rule: rtranclp_induct) (auto intro: tsq_start_inv tsq_step_inv)

text \<open>
  C34. In every run of any number of threads, the elements left the queue in the order in which they entered it, and the queue never
  holds more than its bound.
\<close>

theorem queue_fifo:
  assumes "(tsq_step pop_when_full)\<^sup>*\<^sup>* (sys_start max_size) y"
  shows "sy_entered y = sy_left y @ tq_items (sy_queue y) \<and> length (tq_items (sy_queue y)) \<le> max_size"
  using tsq_run_inv [OF assms] by (simp add: tsq_inv_def)

text \<open>C35. No wake-up is lost: while the queue holds an element, no thread sleeps in a wait, and the next call that takes one succeeds.\<close>

theorem no_lost_wakeup:
  assumes "(tsq_step pop_when_full)\<^sup>*\<^sup>* (sys_start max_size) y" and "tq_items (sy_queue y) \<noteq> []"
  shows "sy_asleep y = {} \<and> tsq_pop (sy_queue y) \<noteq> None"
  using tsq_run_inv [OF assms(1)] assms(2) by (auto simp: tsq_inv_def tsq_pop_def split: list.split)

text \<open>A run: a consumer goes to sleep, two elements arrive at a queue of size one that evicts.\<close>

definition evicting_run :: "nat tsq_system" where
  "evicting_run = \<lparr>sy_queue = \<lparr>tq_items = [8], tq_max = 1\<rparr>, sy_asleep = {}, sy_entered = [7, 8], sy_left = [7]\<rparr>"

lemma evicting_run_reached: "(tsq_step True)\<^sup>*\<^sup>* (sys_start 1) evicting_run"
proof -
  let ?s = "\<lambda>q z e l. \<lparr>sy_queue = \<lparr>tq_items = q, tq_max = 1\<rparr>, sy_asleep = z, sy_entered = e, sy_left = l\<rparr> :: nat tsq_system"
  have "tsq_step True (?s [] {} [] []) (?s [] {3} [] [])"
    using wait_pop [of 3 "?s [] {} [] []" True] by (simp add: tsq_pop_def)
  moreover have "tsq_step True (?s [] {3} [] []) (?s [7] {} [7] [])"
    using push [of True 7 "?s [] {3} [] []"] by (simp add: tsq_push_def stores_def evicted_def)
  moreover have "tsq_step True (?s [7] {} [7] []) (?s [8] {} [7, 8] [7])"
    using push [of True 8 "?s [7] {} [7] []"] by (simp add: tsq_push_def stores_def evicted_def)
  moreover have "sys_start 1 = ?s [] {} [] []" "evicting_run = ?s [8] {} [7, 8] [7]" by (simp_all add: sys_start_def new_tsq_def evicting_run_def)
  ultimately show ?thesis by (metis rtranclp.rtrancl_into_rtrancl rtranclp.rtrancl_refl)
qed

theorem queue_fifo_witness:
  "sy_entered evicting_run = sy_left evicting_run @ tq_items (sy_queue evicting_run) \<and> length (tq_items (sy_queue evicting_run)) \<le> 1"
  using queue_fifo [OF evicting_run_reached] .

theorem no_lost_wakeup_witness: "sy_asleep evicting_run = {} \<and> tsq_pop (sy_queue evicting_run) \<noteq> None"
  by (rule no_lost_wakeup [OF evicting_run_reached]) (simp add: evicting_run_def)

end
