(* ===== verification/Endpoint.thy ===== *)
theory Endpoint
  imports Dm02_Prelude
begin

text \<open>
  Endpoint strings such as \<^verbatim>\<open>serial:/dev/ttyACM0?baud=115200\<close>: the parsers of the two serial transports, and the
  endpoint that \<^verbatim>\<open>LinkImpl\<close> builds from the configuration.
\<close>

section \<open>The library functions the parsers use\<close>

text \<open>\<^verbatim>\<open>std::string::find\<close> from a position: the first index at which the needle occurs.\<close>

definition find_from :: "string \<Rightarrow> string \<Rightarrow> nat \<Rightarrow> nat option" where
  "find_from s needle pos = find (\<lambda>i. take (length needle) (drop i s) = needle) [pos..<Suc (length s)]"

definition starts_with :: "string \<Rightarrow> string \<Rightarrow> bool" where
  "starts_with s p \<longleftrightarrow> take (length p) s = p"

definition is_digit :: "char \<Rightarrow> bool" where
  "is_digit c \<longleftrightarrow> 48 \<le> (of_char c :: nat) \<and> (of_char c :: nat) \<le> 57"

definition digit_value :: "char \<Rightarrow> nat" where
  "digit_value c = of_char c - 48"

text \<open>White space of the C locale.\<close>

definition is_space :: "char \<Rightarrow> bool" where
  "is_space c \<longleftrightarrow> (of_char c :: nat) = 32 \<or> 9 \<le> (of_char c :: nat) \<and> (of_char c :: nat) \<le> 13"

definition digits_value :: "string \<Rightarrow> nat" where
  "digits_value ds = foldl (\<lambda>a c. 10 * a + digit_value c) 0 ds"

text \<open>\<^verbatim>\<open>strtol(s, nullptr, 10)\<close> with a 64-bit \<^verbatim>\<open>long\<close>: it saturates.\<close>

definition clamp_long :: "int \<Rightarrow> int" where
  "clamp_long x = max (- (2 ^ 63)) (min (2 ^ 63 - 1) x)"

definition strtol10 :: "string \<Rightarrow> int" where
  "strtol10 s = (let s = dropWhile is_space s
     in case s of
          [] \<Rightarrow> 0
        | c # r \<Rightarrow>
            if of_char c = (45 :: nat) then clamp_long (- int (digits_value (takeWhile is_digit r)))
            else if of_char c = (43 :: nat) then clamp_long (int (digits_value (takeWhile is_digit r)))
            else clamp_long (int (digits_value (takeWhile is_digit s))))"

text \<open>\<^verbatim>\<open>static_cast<int>\<close> of a \<^verbatim>\<open>long\<close>, and \<^verbatim>\<open>atoi\<close>, which is undefined out of range.\<close>

definition int_of_long :: "int \<Rightarrow> int" where
  "int_of_long x = sint (word_of_int x :: i32)"

definition atoi :: "string \<Rightarrow> int option" where
  "atoi s = (let v = strtol10 s in if - (2 ^ 31) \<le> v \<and> v < 2 ^ 31 then Some v else None)"

fun dec_digits :: "nat \<Rightarrow> string" where
  "dec_digits n = (if n < 10 then [char_of (48 + n)] else dec_digits (n div 10) @ [char_of (48 + n mod 10)])"

declare dec_digits.simps [simp del]

text \<open>\<^verbatim>\<open>std::to_string\<close>\<close>

definition to_string :: "int \<Rightarrow> string" where
  "to_string x = (if x < 0 then CHR ''-'' # dec_digits (nat (- x)) else dec_digits (nat x))"

section \<open>The parsers\<close>

text \<open>\<^verbatim>\<open>IoSerialTransport::parse_endpoint\<close>, called with the default rate: port and rate, \<open>None\<close> when it returns false.\<close>

definition parse_endpoint :: "string \<Rightarrow> (string \<times> int) option" where
  "parse_endpoint endpoint =
     (let target = (if starts_with endpoint ''serial:''
                    then let q = find_from endpoint ''?'' 0
                         in (case q of None \<Rightarrow> drop 7 endpoint | Some p \<Rightarrow> take (p - 7) (drop 7 endpoint))
                    else endpoint)
      in if target = [] then None
         else Some (target, case find_from endpoint ''baud='' 0 of
                None \<Rightarrow> 115200
              | Some b \<Rightarrow> (let parsed = strtol10 (drop (b + 5) endpoint) in if parsed > 0 then int_of_long parsed else 115200)))"

text \<open>The first lines of \<^verbatim>\<open>SerialTransportPosix::open\<close>.\<close>

definition posix_endpoint :: "string \<Rightarrow> (string \<times> int) option" where
  "posix_endpoint endpoint =
     (if starts_with endpoint ''serial:''
      then let q = find_from endpoint ''?'' 0;
               path = (case q of None \<Rightarrow> drop 7 endpoint | Some p \<Rightarrow> take (p - 7) (drop 7 endpoint))
           in (case q of None \<Rightarrow> Some (path, 115200)
               | Some p \<Rightarrow> (case find_from endpoint ''baud='' p of
                     None \<Rightarrow> Some (path, 115200)
                   | Some b \<Rightarrow> map_option (Pair path) (atoi (drop (b + 5) endpoint))))
      else Some (endpoint, 115200))"

datatype speed = B9600 | B19200 | B38400 | B57600 | B115200

definition map_baud :: "int \<Rightarrow> speed" where
  "map_baud baud = (if baud = 9600 then B9600 else if baud = 19200 then B19200 else if baud = 38400 then B38400
     else if baud = 57600 then B57600 else B115200)"

text \<open>The endpoint of \<^verbatim>\<open>LinkImpl\<close> for a configuration that names a port.\<close>

definition default_endpoint :: "string \<Rightarrow> int \<Rightarrow> string" where
  "default_endpoint com_port baud = ''serial:'' @ com_port @ ''?baud='' @ to_string baud"

section \<open>Decimal numbers\<close>

lemma of_char_digit: "d < 10 \<Longrightarrow> of_char (char_of (48 + d :: nat)) = (48 + d :: nat)"
  by simp

lemma digit_char: "d < 10 \<Longrightarrow> is_digit (char_of (48 + d)) \<and> digit_value (char_of (48 + d)) = d"
  by (simp add: is_digit_def digit_value_def)

lemma dec_digits_digits: "list_all is_digit (dec_digits n)"
proof (induction n rule: dec_digits.induct)
  case (1 n)
  then show ?case using digit_char [of "n mod 10"] digit_char [of n]
    by (subst dec_digits.simps) (auto simp: list_all_append)
qed

lemma dec_digits_nonempty: "dec_digits n \<noteq> []"
  by (subst dec_digits.simps) simp

lemma digits_value_snoc: "digits_value (ds @ [c]) = 10 * digits_value ds + digit_value c"
  by (simp add: digits_value_def)

lemma digits_value_dec: "digits_value (dec_digits n) = n"
proof (induction n rule: dec_digits.induct)
  case (1 n)
  show ?case
  proof (cases "n < 10")
    case True
    then show ?thesis using digit_char [of n] by (subst dec_digits.simps) (simp add: digits_value_def)
  next
    case False
    then show ?thesis using 1 digit_char [of "n mod 10"] by (subst dec_digits.simps) (simp add: digits_value_snoc)
  qed
qed

lemma strtol10_dec:
  assumes "int n < 2 ^ 63"
  shows "strtol10 (dec_digits n) = int n"
proof -
  obtain c r where d: "dec_digits n = c # r" using dec_digits_nonempty [of n] by (cases "dec_digits n") auto
  have c: "is_digit c" using dec_digits_digits [of n] by (simp add: d)
  have t: "takeWhile is_digit (dec_digits n) = dec_digits n" using dec_digits_digits [of n] by (simp add: takeWhile_eq_all_conv list_all_iff)
  have "dropWhile is_space (dec_digits n) = dec_digits n" using c by (simp add: d is_space_def is_digit_def)
  moreover have "of_char c \<noteq> (45 :: nat)" "of_char c \<noteq> (43 :: nat)" using c by (auto simp: is_digit_def)
  ultimately have "strtol10 (dec_digits n) = clamp_long (int (digits_value (takeWhile is_digit (dec_digits n))))"
    by (simp add: strtol10_def d Let_def)
  then show ?thesis using assms by (simp add: t digits_value_dec clamp_long_def)
qed

section \<open>Searching\<close>

lemma find_from_Some:
  assumes "take (length x) (drop n s) = x" and "p \<le> n" "n \<le> length s" and "\<And>i. p \<le> i \<Longrightarrow> i < n \<Longrightarrow> take (length x) (drop i s) \<noteq> x"
  shows "find_from s x p = Some n"
  unfolding find_from_def find_Some_iff using assms by (intro exI [of _ "n - p"]) (auto simp del: upt_Suc)

lemma find_char:
  assumes "c \<notin> set a"
  shows "find_from (a @ c # b) [c] 0 = Some (length a)"
proof (rule find_from_Some)
  fix i assume "i < length a"
  then have "take 1 (drop i (a @ c # b)) = [a ! i]" "a ! i \<in> set a" by (simp_all add: take_Suc_conv_app_nth Cons_nth_drop_Suc [symmetric])
  then show "take (length [c]) (drop i (a @ c # b)) \<noteq> [c]" using assms by auto
qed simp_all

lemma find_baud:
  assumes "find_from a ''baud='' 0 = None"
  shows "find_from (a @ ''?baud='' @ ds) ''baud='' 0 = Some (Suc (length a))"
proof (rule find_from_Some)
  let ?s = "a @ ''?baud='' @ ds" and ?n = "length ''baud=''"
  have none: "take ?n (drop i a) \<noteq> ''baud=''" if "i \<le> length a" for i
    using assms that unfolding find_from_def find_None_iff set_upt atLeastLessThan_iff less_Suc_eq_le by blast
  fix i assume "i < Suc (length a)"
  then consider "i + ?n \<le> length a" | "i \<le> length a" "length a < i + ?n" by linarith
  then show "take ?n (drop i ?s) \<noteq> ''baud=''"
  proof cases
    case 1
    then have "take ?n (drop i ?s) = take ?n (drop i a)" by (simp del: list.size)
    then show ?thesis using none [of i] 1 by (simp del: list.size)
  next
    case 2
    have "''baud='' ! k \<noteq> CHR ''?''" if "k < ?n" for k
      using that by (auto simp: less_Suc_eq)
    moreover have "take ?n (drop i ?s) ! (length a - i) = CHR ''?''" "length a - i < ?n" using 2 by (auto simp: nth_append simp del: list.size)
    ultimately show ?thesis by metis
  qed
qed simp_all

section \<open>Round trip\<close>

text \<open>
  The endpoint built from a port and a rate: both transports read back exactly the port and the rate, for every port name without
  a question mark and without the text \<open>baud=\<close>, and every positive rate of type \<open>int\<close>.
\<close>

theorem endpoint_roundtrip:
  assumes "port \<noteq> []" and "CHR ''?'' \<notin> set port" and "find_from (''serial:'' @ port) ''baud='' 0 = None" and "0 < baud" and "baud < 2 ^ 31"
  shows "parse_endpoint (default_endpoint port baud) = Some (port, baud) \<and>
    posix_endpoint (default_endpoint port baud) = Some (port, baud)"
proof -
  let ?e = "default_endpoint port baud" and ?a = "''serial:'' @ port"
  have e: "?e = ?a @ ''?baud='' @ to_string baud" by (simp add: default_endpoint_def)
  have q: "find_from ?e ''?'' 0 = Some (7 + length port)" using find_char [of "CHR ''?''" ?a] assms(2) by (simp add: e)
  have b: "find_from ?e ''baud='' 0 = Some (8 + length port)" using find_baud [OF assms(3), of "to_string baud"] by (simp add: e)
  have b': "find_from ?e ''baud='' (7 + length port) = Some (8 + length port)"
  proof (rule find_from_Some)
    fix i assume "7 + length port \<le> i" "i < 8 + length port"
    then have "i = length ?a" by simp
    then show "take (length ''baud='') (drop i ?e) \<noteq> ''baud=''" by (simp add: e del: append.simps append_assoc)
  next
    have "?e = (?a @ ''?'') @ ''baud='' @ to_string baud" by (simp add: e)
    then have "drop (length (?a @ ''?'')) ?e = ''baud='' @ to_string baud" by (metis append_eq_conv_conj)
    moreover have "8 + length port = length (?a @ ''?'')" by simp
    ultimately show "take (length ''baud='') (drop (8 + length port) ?e) = ''baud=''" by (simp only:) simp
  qed (simp_all add: e)
  have v: "strtol10 (to_string baud) = baud" using strtol10_dec [of "nat baud"] assms(4,5) by (simp add: to_string_def)
  have "int_of_long baud = baud" using assms(4,5) by (simp add: int_of_long_def signed_of_int signed_take_bit_int_eq_self)
  moreover have tail: "drop (8 + length port + 5) ?e = to_string baud"
  proof -
    have "?e = (?a @ ''?baud='') @ to_string baud" by (simp add: e)
    then have "drop (length (?a @ ''?baud='')) ?e = to_string baud" by (metis append_eq_conv_conj)
    moreover have "8 + length port + 5 = length (?a @ ''?baud='')" by simp
    ultimately show ?thesis by (simp only:)
  qed
  moreover have "starts_with ?e ''serial:''" "take (7 + length port - 7) (drop 7 ?e) = port" by (simp_all add: starts_with_def e)
  ultimately show ?thesis
    using assms(1,4,5) by (simp add: parse_endpoint_def posix_endpoint_def q b b' v atoi_def Let_def del: add_2_eq_Suc add_2_eq_Suc' arith_simps)
qed

theorem endpoint_roundtrip_witness:
  "parse_endpoint (default_endpoint ''/dev/ttyACM0'' 921600) = Some (''/dev/ttyACM0'', 921600)"
proof -
  have "find_from (''serial:'' @ ''/dev/ttyACM0'') ''baud='' 0 = None" by code_simp
  then show ?thesis using endpoint_roundtrip [of "''/dev/ttyACM0''" 921600] by simp
qed

end
