(* ===== verification/Host_Link.thy ===== *)
theory Host_Link
  imports Host_Driver_Props Thread_Safe_Queue Endpoint
begin

text \<open>
  The object that the aiming program talks to, \<^verbatim>\<open>impl/link_impl.cpp\<close> and \<^verbatim>\<open>dm02.cpp\<close>: it keeps the last reports of the device, queues the
  orientations of the gimbal, sends commands through the driver, and fires only with a fresh permission of the referee system.

  The application state behind the callbacks of the driver is the record \<open>link_app\<close>, whose last component \<open>li_ext\<close> is the
  transport and the clock. Floating-point arithmetic, the quaternions and the conversions between them are the
  functions of a record \<open>arith\<close>; everything that is decided and stored around them is modelled.
\<close>

section \<open>Data\<close>

datatype gimbal_mode = IDLE | AUTO_AIM

datatype mode = Mode_idle | Mode_auto_aim | Mode_outpost

datatype shoot_mode = Left_shoot | Right_shoot | Both_shoot

text \<open>
  Arithmetic on \<open>'d\<close>, the doubles, \<open>'f\<close>, the floats, and \<open>'q\<close>, the quaternions: micro-degrees to radians, the normalised orientation of
  three angles, hundredths of a unit to a float, a difference of radians to micro-degrees (\<open>None\<close> out of the range of the integer),
  nanoseconds to seconds, division, and normalised spherical interpolation.
\<close>

record ('d, 'f, 'q) arith =
  ar_rad :: "i32 \<Rightarrow> 'd"
  ar_euler :: "'d \<Rightarrow> 'd \<Rightarrow> 'd \<Rightarrow> 'q"
  ar_float :: "'d \<Rightarrow> 'f"
  ar_double :: "'f \<Rightarrow> 'd"
  ar_hundredths :: "i32 \<Rightarrow> 'd"
  ar_sub :: "'f \<Rightarrow> 'f \<Rightarrow> 'f"
  ar_zero :: 'd
  ar_zerof :: 'f
  ar_udeg :: "'d \<Rightarrow> i32 option"
  ar_seconds :: "int \<Rightarrow> 'd"
  ar_div :: "'d \<Rightarrow> 'd \<Rightarrow> 'd"
  ar_slerp :: "'q \<Rightarrow> 'd \<Rightarrow> 'q \<Rightarrow> 'q"

record 'f io_gimbal_state =
  ig_yaw :: 'f
  ig_yaw_vel :: 'f
  ig_pitch :: 'f
  ig_pitch_vel :: 'f
  ig_bullet_speed :: 'f
  ig_bullet_count :: u16

record gimbal_encoders =
  ge_yaw :: i32
  ge_pitch :: i32

record device_status =
  ds_shoot_state :: i32
  ds_shooter_heat :: i32
  ds_shooter_heat_limit :: i32
  ds_projectile_allowance_17mm :: i32
  ds_projectile_allowance_42mm :: i32

record io_time_sync =
  it_valid :: bool
  it_offset_us :: i64
  it_rtt_us :: u32
  it_version :: u32
  it_last_device_time_us :: u64
  it_last_host_time_us :: u64

record tof_status =
  tf_valid :: bool
  tf_distance_cm :: u16
  tf_device_ts_us :: u64
  tf_host_ts_ns :: u64

record referee_status =
  rs_valid :: bool
  rs_status :: u16
  rs_enemy_team :: i32
  rs_fire_allowed :: bool
  rs_robot_id :: i32
  rs_game_stage :: i32
  rs_device_ts_us :: u64
  rs_host_ts_ns :: u64

text \<open>The fields of \<^verbatim>\<open>LinkImpl\<close>; a time point of the steady clock is its count of nanoseconds.\<close>

record ('f, 'q, 'x) link_app =
  li_mode :: gimbal_mode
  li_state :: "'f io_gimbal_state"
  li_encoders :: gimbal_encoders
  li_device_status :: device_status
  li_tof :: tof_status
  li_referee :: referee_status
  li_timesync :: io_time_sync
  li_bullet_count :: u16
  li_bullet_speed_default :: 'f
  li_queue :: "('q \<times> int) tsq"
  li_ext :: 'x

text \<open>The world of the link: the transport and clock, sleeping, the flag that stops the thread, and exceptions of the waiting transport.\<close>

record 'x link_env =
  le_host :: "'x host_env"
  le_sleep :: "nat \<Rightarrow> 'x \<Rightarrow> 'x"
  le_quit :: "'x \<Rightarrow> bool"
  le_wait_throws :: "int \<Rightarrow> 'x \<Rightarrow> 'x option"

definition on_li_ext :: "('x \<Rightarrow> 'a \<times> 'x) \<Rightarrow> ('f, 'q, 'x) link_app \<Rightarrow> 'a \<times> ('f, 'q, 'x) link_app" where
  "on_li_ext f a = (let (r, x) = f (li_ext a) in (r, a\<lparr>li_ext := x\<rparr>))"

definition lift_env :: "'x host_env \<Rightarrow> ('f, 'q, 'x) link_app host_env" where
  "lift_env E = \<lparr>tp_open = (\<lambda>ep. on_li_ext (tp_open E ep)), tp_close = (\<lambda>a. a\<lparr>li_ext := tp_close E (li_ext a)\<rparr>),
     tp_write_all = (\<lambda>d. on_li_ext (tp_write_all E d)), tp_read_some = (\<lambda>n. on_li_ext (tp_read_some E n)),
     tp_wait_readable = (\<lambda>ms. on_li_ext (tp_wait_readable E ms)), steady_ns = on_li_ext (steady_ns E),
     ns_to_device_us = ns_to_device_us E, us_to_host_ns = us_to_host_ns E, fwrapv = fwrapv E\<rparr>"

section \<open>The configuration\<close>

text \<open>
  A key of the configuration file is missing, has a value of another type, or has a value; \<^verbatim>\<open>tools::read\<close> ends the process for a
  missing key and lets the library throw for the wrong type.
\<close>

datatype 'a yaml_value = Missing | Bad_conversion | Value 'a

datatype 'a outcome = Exits | Throws | Returns 'a

definition tools_read :: "'a yaml_value \<Rightarrow> 'a outcome" where
  "tools_read v = (case v of Missing \<Rightarrow> Exits | Bad_conversion \<Rightarrow> Throws | Value x \<Rightarrow> Returns x)"

text \<open>\<^verbatim>\<open>try { ... } catch (...) { ... }\<close>\<close>

definition try_catch :: "'a outcome \<Rightarrow> 'a outcome \<Rightarrow> 'a outcome" where
  "try_catch a h = (case a of Throws \<Rightarrow> h | _ \<Rightarrow> a)"

fun and_then :: "'a outcome \<Rightarrow> ('a \<Rightarrow> 'b outcome) \<Rightarrow> 'b outcome" where
  "and_then Exits f = Exits"
| "and_then Throws f = Throws"
| "and_then (Returns x) f = f x"

record 'f link_config =
  cf_dm02_endpoint :: "string yaml_value"
  cf_com_port :: "string yaml_value"
  cf_dm02_baud :: "int yaml_value"
  cf_dm02_bullet_speed_default :: "'f yaml_value"
  cf_dm02_mode :: "string yaml_value"

definition parse_mode :: "string \<Rightarrow> gimbal_mode" where
  "parse_mode s = (if s = ''IDLE'' \<or> s = ''idle'' then IDLE else if s = ''AUTO_AIM'' \<or> s = ''auto_aim'' then AUTO_AIM else AUTO_AIM)"

definition resolve_endpoint :: "'f link_config \<Rightarrow> string outcome" where
  "resolve_endpoint c = try_catch (tools_read (cf_dm02_endpoint c))
     (and_then (tools_read (cf_com_port c)) (\<lambda>com_port.
      and_then (try_catch (tools_read (cf_dm02_baud c)) (Returns 115200)) (\<lambda>baud.
      Returns (default_endpoint com_port baud))))"

section \<open>The callbacks\<close>

definition steady_from_ns :: "u64 \<Rightarrow> int" where
  "steady_from_ns ns = sint ns"

text \<open>The queue of the link drops the newest orientation when it is full.\<close>

definition queue_push :: "'q \<times> int \<Rightarrow> ('f, 'q, 'x) link_app \<Rightarrow> ('f, 'q, 'x) link_app" where
  "queue_push v a = (case tsq_push False (\<lambda>u. u) v (li_queue a) () of None \<Rightarrow> a | Some (q, _) \<Rightarrow> a\<lparr>li_queue := q\<rparr>)"

definition link_on_gimbal_state ::
  "('d, 'f, 'q) arith \<Rightarrow> host_gimbal_state \<Rightarrow> ('f, 'q, 'x) link_app \<Rightarrow> ('f, 'q, 'x) link_app" where
  "link_on_gimbal_state A s a =
     (let yaw_rad = ar_rad A (hg_yaw_udeg s);
          pitch_rad = ar_rad A (hg_pitch_udeg s);
          roll_rad = ar_rad A (hg_roll_udeg s);
          q = ar_euler A yaw_rad pitch_rad roll_rad;
          t = steady_from_ns (hg_host_ts_ns s);
          a = queue_push (q, t) a;
          st = (li_state a)\<lparr>ig_yaw := ar_float A yaw_rad, ig_pitch := ar_float A pitch_rad,
                 ig_yaw_vel := ar_float A (ar_rad A (hg_gyro_yaw_udeps s)), ig_pitch_vel := ar_float A (ar_rad A (hg_gyro_pitch_udeps s)),
                 ig_bullet_speed := (if sint (hg_bullet_speed_x100 s) > 0 then ar_float A (ar_hundredths A (hg_bullet_speed_x100 s))
                                     else li_bullet_speed_default a)\<rparr>;
          count = (if sint (hg_bullet_count s) \<ge> 0 then ucast (hg_bullet_count s) else li_bullet_count a);
          a = a\<lparr>li_state := st\<lparr>ig_bullet_count := count\<rparr>, li_bullet_count := count\<rparr>;
          a = a\<lparr>li_encoders := \<lparr>ge_yaw = hg_enc_yaw s, ge_pitch = hg_enc_pitch s\<rparr>,
                 li_device_status := \<lparr>ds_shoot_state = hg_shoot_state s, ds_shooter_heat = hg_shooter_heat s,
                   ds_shooter_heat_limit = hg_shooter_heat_limit s, ds_projectile_allowance_17mm = hg_projectile_allowance_17mm s,
                   ds_projectile_allowance_42mm = hg_projectile_allowance_42mm s\<rparr>\<rparr>
      in if hg_gimbal_mode s = 0 then a\<lparr>li_mode := IDLE\<rparr>
         else if sint (hg_gimbal_mode s) \<ge> 1 \<and> sint (hg_gimbal_mode s) \<le> 3 then a\<lparr>li_mode := AUTO_AIM\<rparr>
         else a)"

definition link_on_tfmini :: "host_tfmini \<Rightarrow> ('f, 'q, 'x) link_app \<Rightarrow> ('f, 'q, 'x) link_app" where
  "link_on_tfmini tf a = a\<lparr>li_tof := \<lparr>tf_valid = True, tf_distance_cm = ht_distance_cm tf, tf_device_ts_us = ht_device_ts_us tf,
     tf_host_ts_ns = ht_host_ts_ns tf\<rparr>\<rparr>"

definition link_on_timesync :: "time_sync_status \<Rightarrow> ('f, 'q, 'x) link_app \<Rightarrow> ('f, 'q, 'x) link_app" where
  "link_on_timesync ts a = a\<lparr>li_timesync := \<lparr>it_valid = tst_valid ts, it_offset_us = tst_offset_us ts, it_rtt_us = tst_rtt_us ts,
     it_version = tst_version ts, it_last_device_time_us = tst_last_device_time_us ts, it_last_host_time_us = tst_last_host_time_us ts\<rparr>\<rparr>"

text \<open>A status word of zero comes from firmware that has no status word, and counts as valid.\<close>

definition link_on_referee :: "host_referee \<Rightarrow> ('f, 'q, 'x) link_app \<Rightarrow> ('f, 'q, 'x) link_app" where
  "link_on_referee rs a = a\<lparr>li_referee := \<lparr>rs_valid = (if hr_status rs \<noteq> 0 then (hr_status rs AND 0x0001) \<noteq> 0 else True),
     rs_status = hr_status rs, rs_enemy_team = hr_enemy_team rs, rs_fire_allowed = (hr_fire_allowed rs \<noteq> 0), rs_robot_id = hr_robot_id rs,
     rs_game_stage = hr_game_stage rs, rs_device_ts_us = hr_device_ts_us rs, rs_host_ts_ns = hr_host_ts_ns rs\<rparr>\<rparr>"

definition link_callbacks :: "('d, 'f, 'q) arith \<Rightarrow> ('f, 'q, 'x) link_app driver_callbacks" where
  "link_callbacks A = no_callbacks\<lparr>on_gimbal_state := Some (link_on_gimbal_state A), on_gimbal_tfmini := Some link_on_tfmini,
     on_timesync := Some link_on_timesync, on_referee_status := Some link_on_referee\<rparr>"

section \<open>The link\<close>

type_synonym ('f, 'q, 'x) link = "('f, 'q, 'x) link_app driver"

definition new_link_app :: "('d, 'f, 'q) arith \<Rightarrow> gimbal_mode \<Rightarrow> 'f \<Rightarrow> 'x \<Rightarrow> ('f, 'q, 'x) link_app" where
  "new_link_app A m speed x = \<lparr>li_mode = m,
     li_state = \<lparr>ig_yaw = ar_zerof A, ig_yaw_vel = ar_zerof A, ig_pitch = ar_zerof A, ig_pitch_vel = ar_zerof A, ig_bullet_speed = ar_zerof A, ig_bullet_count = 0\<rparr>,
     li_encoders = \<lparr>ge_yaw = 0, ge_pitch = 0\<rparr>,
     li_device_status = \<lparr>ds_shoot_state = 0, ds_shooter_heat = 0, ds_shooter_heat_limit = 0, ds_projectile_allowance_17mm = 0, ds_projectile_allowance_42mm = 0\<rparr>,
     li_tof = \<lparr>tf_valid = False, tf_distance_cm = 0, tf_device_ts_us = 0, tf_host_ts_ns = 0\<rparr>,
     li_referee = \<lparr>rs_valid = False, rs_status = 0, rs_enemy_team = 0, rs_fire_allowed = False, rs_robot_id = 0, rs_game_stage = 0,
       rs_device_ts_us = 0, rs_host_ts_ns = 0\<rparr>,
     li_timesync = \<lparr>it_valid = False, it_offset_us = 0, it_rtt_us = 0, it_version = 0, it_last_device_time_us = 0, it_last_host_time_us = 0\<rparr>,
     li_bullet_count = 0, li_bullet_speed_default = speed, li_queue = new_tsq 1000, li_ext = x\<rparr>"

definition link_open :: "'x link_env \<Rightarrow> string \<Rightarrow> ('f, 'q, 'x) link \<Rightarrow> (bool \<times> ('f, 'q, 'x) link) option" where
  "link_open L endpoint s = Driver_open (lift_env (le_host L)) endpoint s"

definition link_close :: "'x link_env \<Rightarrow> ('f, 'q, 'x) link \<Rightarrow> ('f, 'q, 'x) link" where
  "link_close L s = Driver_close (lift_env (le_host L)) s"

text \<open>
  The constructor, up to the start of the thread: the endpoint, the default speed and the mode of the configuration, the
  driver with the callbacks, and the opened port. A failing port ends the process.
\<close>

definition link_construct ::
  "('d, 'f, 'q) arith \<Rightarrow> 'x link_env \<Rightarrow> 'f link_config \<Rightarrow> uproto_context \<Rightarrow> 'x \<Rightarrow> (string \<times> ('f, 'q, 'x) link) outcome option" where
  "link_construct A L c raw_ctx x =
     (case and_then (resolve_endpoint c) (\<lambda>endpoint.
           and_then (try_catch (tools_read (cf_dm02_bullet_speed_default c)) (Returns (ar_zerof A))) (\<lambda>speed.
           and_then (try_catch (and_then (tools_read (cf_dm02_mode c)) (\<lambda>s. Returns (parse_mode s))) (Returns AUTO_AIM)) (\<lambda>m.
           Returns (endpoint, new_link_app A m speed x)))) of
        Exits \<Rightarrow> Some Exits
      | Throws \<Rightarrow> Some Throws
      | Returns (endpoint, a) \<Rightarrow> do {
          let s = Driver_set_callbacks (link_callbacks A) (raw_ctx, new_driver_impl True default_driver_config a);
          (ok, s) \<leftarrow> link_open L endpoint s;
          Some (if ok then Returns (endpoint, s) else Exits)
        })"

definition link_sleep :: "'x link_env \<Rightarrow> nat \<Rightarrow> ('f, 'q, 'x) link \<Rightarrow> ('f, 'q, 'x) link" where
  "link_sleep L ms s = (case s of (ctx, w) \<Rightarrow> (ctx, w\<lparr>im_ext := (im_ext w)\<lparr>li_ext := le_sleep L ms (li_ext (im_ext w))\<rparr>\<rparr>))"

definition clear_queue :: "('f, 'q, 'x) link \<Rightarrow> ('f, 'q, 'x) link" where
  "clear_queue s = (case s of (ctx, w) \<Rightarrow> (ctx, w\<lparr>im_ext := (im_ext w)\<lparr>li_queue := tsq_clear (li_queue (im_ext w))\<rparr>\<rparr>))"

abbreviation link_quit :: "'x link_env \<Rightarrow> ('f, 'q, 'x) link \<Rightarrow> bool" where
  "link_quit L s \<equiv> le_quit L (li_ext (im_ext (snd s)))"

fun reconnect_loop :: "'x link_env \<Rightarrow> string \<Rightarrow> nat \<Rightarrow> ('f, 'q, 'x) link \<Rightarrow> ('f, 'q, 'x) link option" where
  "reconnect_loop L endpoint 0 s = Some s"
| "reconnect_loop L endpoint (Suc n) s =
     (if link_quit L s then Some s
      else do {
        (ok, s) \<leftarrow> link_open L endpoint (link_sleep L 200 (link_close L s));
        if ok then Some (clear_queue s) else reconnect_loop L endpoint n (link_sleep L 500 s)
      })"

definition link_reconnect :: "'x link_env \<Rightarrow> string \<Rightarrow> ('f, 'q, 'x) link \<Rightarrow> ('f, 'q, 'x) link option" where
  "link_reconnect L endpoint s = reconnect_loop L endpoint 10 s"

definition kRefStaleNs :: u64 where "kRefStaleNs = 1000 * 1000 * 1000"

text \<open>
  One round of the thread: the state of the loop is the count of errors and the time of the last query. A round either
  reconnects, or runs the driver for up to 5 ms and asks for the referee status when the last one is more than a
  second old. An exception from the waiting transport is counted.
\<close>

record io_loop =
  io_error_count :: int
  io_last_query :: int

definition io_query :: "'x link_env \<Rightarrow> io_loop \<Rightarrow> ('f, 'q, 'x) link \<Rightarrow> (io_loop \<times> ('f, 'q, 'x) link) option" where
  "io_query L io s = (case s of (ctx, w) \<Rightarrow>
     let (now, w) = now_ns_steady (lift_env (le_host L)) w; now_tp = steady_from_ns now
     in if now_tp - io_last_query io \<ge> 300 * 1000000 \<and> Driver_established (ctx, w)
        then let (now_ns, w) = now_ns_steady (lift_env (le_host L)) w;
                 ts = rs_host_ts_ns (li_referee (im_ext w))
             in if ts \<noteq> 0 \<and> now_ns - ts < kRefStaleNs then Some (io, ctx, w)
                else do {
                  (_, s) \<leftarrow> send_referee_query (lift_env (le_host L)) (ctx, w);
                  Some (io\<lparr>io_last_query := now_tp\<rparr>, s)
                }
        else Some (io, ctx, w))"

definition io_round :: "'x link_env \<Rightarrow> string \<Rightarrow> io_loop \<times> ('f, 'q, 'x) link \<Rightarrow> (io_loop \<times> ('f, 'q, 'x) link) option" where
  "io_round L endpoint = (\<lambda>(io, s).
     if \<not> Driver_is_open s then do { s \<leftarrow> link_reconnect L endpoint s; Some (io, s) }
     else case le_wait_throws L 5 (li_ext (im_ext (snd s))) of
            Some x \<Rightarrow> do {
              let s = (fst s, (snd s)\<lparr>im_ext := (im_ext (snd s))\<lparr>li_ext := x\<rparr>\<rparr>);
              if io_error_count io + 1 > 2000
              then do { s \<leftarrow> link_reconnect L endpoint s; Some (io\<lparr>io_error_count := 0\<rparr>, s) }
              else Some (io\<lparr>io_error_count := io_error_count io + 1\<rparr>, s)
            }
          | None \<Rightarrow> do {
              s \<leftarrow> Driver_step (lift_env (le_host L)) 5 s;
              (io, s) \<leftarrow> io_query L io s;
              Some (io\<lparr>io_error_count := 0\<rparr>, s)
            })"

definition io_start :: "'x link_env \<Rightarrow> ('f, 'q, 'x) link \<Rightarrow> io_loop \<times> ('f, 'q, 'x) link" where
  "io_start L s = (case s of (ctx, w) \<Rightarrow> let (now, w) = now_ns_steady (lift_env (le_host L)) w
     in (\<lparr>io_error_count = 0, io_last_query = steady_from_ns now - 1000 * 1000000\<rparr>, ctx, w))"

fun io_thread :: "'x link_env \<Rightarrow> string \<Rightarrow> nat \<Rightarrow> io_loop \<times> ('f, 'q, 'x) link \<Rightarrow> (io_loop \<times> ('f, 'q, 'x) link) option" where
  "io_thread L endpoint 0 y = Some y"
| "io_thread L endpoint (Suc n) y =
     (if link_quit L (snd y) then Some y else do { y \<leftarrow> io_round L endpoint y; io_thread L endpoint n y })"

section \<open>Commands and orientations\<close>

text \<open>The micro-degrees from the current angles to the wanted ones, none without control.\<close>

definition link_delta :: "('d, 'f, 'q) arith \<Rightarrow> bool \<Rightarrow> 'f \<Rightarrow> 'f \<Rightarrow> ('f, 'q, 'x) link_app \<Rightarrow> (i32 \<times> i32) option" where
  "link_delta A control yaw pitch a = do {
     let cur_yaw = ig_yaw (li_state a);
     let cur_pitch = ig_pitch (li_state a);
     let dyaw = (if control then ar_double A (ar_sub A yaw cur_yaw) else ar_zero A);
     let dpitch = (if control then ar_double A (ar_sub A pitch cur_pitch) else ar_zero A);
     y \<leftarrow> ar_udeg A dyaw;
     p \<leftarrow> ar_udeg A dpitch;
     Some (y, p)
   }"

definition link_send ::
  "('d, 'f, 'q) arith \<Rightarrow> 'x link_env \<Rightarrow> bool \<Rightarrow> bool \<Rightarrow> 'f \<Rightarrow> 'f \<Rightarrow> ('f, 'q, 'x) link \<Rightarrow> ('f, 'q, 'x) link option" where
  "link_send A L control target_valid yaw pitch s = (case s of (ctx, w) \<Rightarrow>
     if \<not> Driver_is_open s then Some s
     else do {
       (y, p) \<leftarrow> link_delta A control yaw pitch (im_ext w);
       let (t, w) = now_ns_steady (lift_env (le_host L)) w;
       (_, s) \<leftarrow> send_gimbal_delta (lift_env (le_host L)) \<lparr>hd_delta_yaw_udeg = y, hd_delta_pitch_udeg = p,
           hd_status = (if target_valid then 0x0001 else 0), hd_host_ts_ns = t, hd_device_ts_us = 0\<rparr> (ctx, w);
       Some s
     })"

definition link_send_fire ::
  "'x link_env \<Rightarrow> bool \<Rightarrow> i32 \<Rightarrow> i32 \<Rightarrow> u16 \<Rightarrow> ('f, 'q, 'x) link \<Rightarrow> ('f, 'q, 'x) link option" where
  "link_send_fire L fire_on fire_mode burst_count status s = (case s of (ctx, w) \<Rightarrow>
     if \<not> Driver_is_open s then Some s
     else do {
       let (t, w) = now_ns_steady (lift_env (le_host L)) w;
       (_, s) \<leftarrow> send_fire_command (lift_env (le_host L)) \<lparr>hf_fire_on = (if fire_on then 1 else 0), hf_fire_mode = fire_mode,
           hf_burst_count = burst_count, hf_status = status, hf_host_ts_ns = t, hf_device_ts_us = 0\<rparr> (ctx, w);
       Some s
     })"

definition link_send_chassis ::
  "'x link_env \<Rightarrow> i32 \<Rightarrow> i32 \<Rightarrow> i32 \<Rightarrow> i32 \<Rightarrow> u16 \<Rightarrow> ('f, 'q, 'x) link \<Rightarrow> ('f, 'q, 'x) link option" where
  "link_send_chassis L vx vy wz cmode status s = (case s of (ctx, w) \<Rightarrow>
     if \<not> Driver_is_open s then Some s
     else do {
       let (t, w) = now_ns_steady (lift_env (le_host L)) w;
       (_, s) \<leftarrow> send_chassis_command (lift_env (le_host L)) \<lparr>hq_vx_mm_s = vx, hq_vy_mm_s = vy, hq_wz_mdeg_s = wz, hq_mode = cmode,
           hq_status = status, hq_host_ts_ns = t, hq_device_ts_us = 0\<rparr> (ctx, w);
       Some s
     })"

definition device_us_to_host_us :: "bool \<Rightarrow> u64 \<Rightarrow> ('f, 'q, 'x) link_app \<Rightarrow> u64 option option" where
  "device_us_to_host_us wrapv device_ts_us a =
     (if \<not> it_valid (li_timesync a) then Some None
      else do { t \<leftarrow> i64_add wrapv device_ts_us (it_offset_us (li_timesync a)); Some (Some t) })"

definition mode_str :: "gimbal_mode \<Rightarrow> string" where
  "mode_str m = (case m of IDLE \<Rightarrow> ''IDLE'' | AUTO_AIM \<Rightarrow> ''AUTO_AIM'')"

text \<open>\<^verbatim>\<open>tools::delta_time\<close>\<close>

definition delta_time :: "('d, 'f, 'q) arith \<Rightarrow> int \<Rightarrow> int \<Rightarrow> 'd" where
  "delta_time A a b = ar_seconds A (a - b)"

text \<open>
  \<^verbatim>\<open>q(t)\<close> over the orientations in the queue: it answers, with what is left in the queue, or it waits, in \<^verbatim>\<open>pop\<close> (holding nothing) or
  in \<^verbatim>\<open>front\<close> (holding the orientation that it has popped).
\<close>

datatype 'q q_outcome = Q_answer 'q "('q \<times> int) list" | Q_waits "('q \<times> int) option"

definition q_between :: "('d, 'f, 'q) arith \<Rightarrow> 'q \<times> int \<Rightarrow> 'q \<times> int \<Rightarrow> int \<Rightarrow> 'q" where
  "q_between A a b t = ar_slerp A (fst a) (ar_div A (delta_time A (snd a) t) (delta_time A (snd a) (snd b))) (fst b)"

fun q_loop :: "('d, 'f, 'q) arith \<Rightarrow> int \<Rightarrow> ('q \<times> int) list \<Rightarrow> 'q q_outcome" where
  "q_loop A t [] = Q_waits None"
| "q_loop A t [a] = Q_waits (Some a)"
| "q_loop A t (a # b # r) =
     (if t < snd a then Q_answer (q_between A a b t) (b # r)
      else if \<not> (snd a < t \<and> t \<le> snd b) then q_loop A t (b # r)
      else Q_answer (q_between A a b t) (b # r))"

text \<open>A waiting call goes on when orientations arrive.\<close>

definition q_resume :: "('d, 'f, 'q) arith \<Rightarrow> int \<Rightarrow> ('q \<times> int) option \<Rightarrow> ('q \<times> int) list \<Rightarrow> 'q q_outcome" where
  "q_resume A t held arrivals = (case held of None \<Rightarrow> q_loop A t arrivals | Some a \<Rightarrow> q_loop A t (a # arrivals))"

section \<open>The device object of the aiming program\<close>

record 'd dm02 =
  d_bullet_speed :: 'd
  d_mode :: mode
  d_shoot_mode :: shoot_mode
  d_ft_angle :: 'd

definition parse_shoot_mode :: "string \<Rightarrow> shoot_mode" where
  "parse_shoot_mode s = (if s = ''left_shoot'' then Left_shoot else if s = ''right_shoot'' then Right_shoot
     else if s = ''both_shoot'' then Both_shoot else Both_shoot)"

definition to_mode :: "gimbal_mode \<Rightarrow> mode" where
  "to_mode m = (case m of IDLE \<Rightarrow> Mode_idle | AUTO_AIM \<Rightarrow> Mode_auto_aim)"

definition kRefereeStaleNs :: u64 where "kRefereeStaleNs = 1000 * 1000 * 1000"

text \<open>The clock is read only when the report allows fire.\<close>

definition referee_can_fire :: "'x link_env \<Rightarrow> referee_status \<Rightarrow> ('f, 'q, 'x) link \<Rightarrow> bool \<times> ('f, 'q, 'x) link" where
  "referee_can_fire L rs s = (case s of (ctx, w) \<Rightarrow>
     if \<not> (rs_valid rs \<and> rs_fire_allowed rs) then (False, s)
     else if rs_host_ts_ns rs = 0 then (False, s)
     else let (now_ns, w) = now_ns_steady (lift_env (le_host L)) w
     in (if now_ns < rs_host_ts_ns rs then False else now_ns - rs_host_ts_ns rs \<le> kRefereeStaleNs, ctx, w))"

definition sync_cached_state :: "('d, 'f, 'q) arith \<Rightarrow> 'd dm02 \<Rightarrow> ('f, 'q, 'x) link \<Rightarrow> 'd dm02" where
  "sync_cached_state A d s = d\<lparr>d_bullet_speed := ar_double A (ig_bullet_speed (li_state (im_ext (snd s)))), d_mode := to_mode (li_mode (im_ext (snd s)))\<rparr>"

definition Dm02_send ::
  "('d, 'f, 'q) arith \<Rightarrow> 'x link_env \<Rightarrow> bool \<Rightarrow> bool \<Rightarrow> 'f \<Rightarrow> 'f \<Rightarrow> 'd dm02 \<times> ('f, 'q, 'x) link \<Rightarrow> ('d dm02 \<times> ('f, 'q, 'x) link) option" where
  "Dm02_send A L control fire yaw pitch = (\<lambda>(d, s). do {
     let d = sync_cached_state A d s;
     s \<leftarrow> link_send A L control control yaw pitch s;
     let ref = li_referee (im_ext (snd s));
     let (fire_on, s) = (if control \<and> fire then referee_can_fire L ref s else (False, s));
     s \<leftarrow> link_send_fire L fire_on 2 (if fire_on then 2 else 0) (if control then 0x0001 else 0) s;
     s \<leftarrow> link_send_chassis L 0 0 0 3 0 s;
     Some (d, s)
   })"

text \<open>\<^verbatim>\<open>send(Command)\<close>\<close>

record 'd command =
  co_control :: bool
  co_shoot :: bool
  co_yaw :: 'd
  co_pitch :: 'd
  co_horizon_distance :: 'd

definition Dm02_send_command ::
  "('d, 'f, 'q) arith \<Rightarrow> 'x link_env \<Rightarrow> 'd command \<Rightarrow> 'd dm02 \<times> ('f, 'q, 'x) link \<Rightarrow> ('d dm02 \<times> ('f, 'q, 'x) link) option" where
  "Dm02_send_command A L c y = Dm02_send A L (co_control c) (co_shoot c) (ar_float A (co_yaw c)) (ar_float A (co_pitch c)) y"

definition Dm02_imu_at ::
  "('d, 'f, 'q) arith \<Rightarrow> int \<Rightarrow> 'd dm02 \<times> ('f, 'q, 'x) link \<Rightarrow> 'd dm02 \<times> 'q q_outcome" where
  "Dm02_imu_at A t = (\<lambda>(d, s). (sync_cached_state A d s, q_loop A t (tq_items (li_queue (im_ext (snd s))))))"

section \<open>Orientations\<close>

lemma q_skip:
  assumes "sorted_wrt (<) (map snd xs)" and "Suc i < length xs" and "snd (xs ! i) < t" and "t \<le> snd (xs ! Suc i)"
  shows "q_loop A t xs = Q_answer (q_between A (xs ! i) (xs ! Suc i) t) (drop (Suc i) xs)"
  using assms
proof (induction A t xs arbitrary: i rule: q_loop.induct)
  case (3 A t a b r)
  show ?case
  proof (cases i)
    case 0
    then show ?thesis using 3 by simp
  next
    case (Suc j)
    have "\<forall>x \<in> set r. snd b < snd x" using 3(2) by simp
    then have "snd b \<le> snd ((b # r) ! j)" using 3(3) Suc by (cases j) (auto intro: less_imp_le nth_mem)
    then have "snd b < t" using 3(4) Suc by simp
    moreover have "snd a < snd b" using 3(2) by simp
    ultimately show ?thesis using 3(1) [of j] 3(2-) Suc by simp
  qed
qed simp_all

lemma q_resume_append: "q_loop A t xs = Q_waits h \<Longrightarrow> q_resume A t h ys = q_loop A t (xs @ ys)"
  by (induction A t xs rule: q_loop.induct) (auto simp: q_resume_def split: if_splits)

text \<open>
  \<open>q\<close> interpolates: for orientations with increasing times of which some neighbours bracket the time asked for, the answer is the interpolation between exactly
  these two, and the queue keeps the later one and everything after it. It makes no difference which of the orientations were in the
  queue when the call started and which arrived while it waited.
\<close>

theorem q_interpolates:
  assumes "sorted_wrt (<) (map snd (xs @ ys))" and "Suc i < length (xs @ ys)" and "snd ((xs @ ys) ! i) < t" and "t \<le> snd ((xs @ ys) ! Suc i)"
  shows "(case q_loop A t xs of Q_waits held \<Rightarrow> q_resume A t held ys | Q_answer ans r \<Rightarrow> Q_answer ans (r @ ys)) =
    Q_answer (q_between A ((xs @ ys) ! i) ((xs @ ys) ! Suc i) t) (drop (Suc i) (xs @ ys))"
proof -
  have later: "q_loop A t xs = Q_answer ans r \<Longrightarrow> q_loop A t (xs @ ys) = Q_answer ans (r @ ys)" for ans r
    by (induction A t xs rule: q_loop.induct) (auto split: if_splits)
  show ?thesis
    using q_skip [OF assms, of A] later q_resume_append [of A t xs _ ys] by (auto split: q_outcome.split)
qed

text \<open>
  A second question loses the earlier neighbour: after an answer for \<open>t\<close> strictly between two orientations, asking again for the same time is
  answered from the next pair, which lies after it.
\<close>

theorem q_again_extrapolates:
  assumes "snd a < t" and "t < snd b"
  shows "q_loop A t (a # b # c # r) = Q_answer (q_between A a b t) (b # c # r) \<and>
    q_loop A t (b # c # r) = Q_answer (q_between A b c t) (c # r)"
  using assms by simp

section \<open>Configuration and time\<close>

text \<open>
  The endpoint of the configuration: a file without the key \<^verbatim>\<open>dm02_endpoint\<close> ends the process, whatever its other keys say; the port and rate keys
  are used only when the endpoint is there with a value that is no string.
\<close>

theorem endpoint_key_required:
  "cf_dm02_endpoint c = Missing \<longrightarrow> link_construct A L c ctx x = Some Exits"
  by (simp add: link_construct_def resolve_endpoint_def tools_read_def try_catch_def)

lemma i64_add_wrap [simp]: "i64_add True a b = Some (a + b)"
  by (simp add: i64_add_def i64_result_def)

text \<open>
  The conversion of device time adds the offset that it should subtract: the driver maps the host time \<open>now\<close> to a device time, and the link
  maps this device time to \<open>now\<close> plus twice the offset.
\<close>

theorem host_time_off_by_two_offsets:
  assumes "now_device_us E w = Some (dev, w')" and "now_us_steady E w = (now, v)" and "hs_mapping_valid (im_ts w)" and "fwrapv E"
  shows "device_us_to_host_us True dev (link_on_timesync (host_ts_status (im_ts w)) a) = Some (Some (now + 2 * hs_offset_us (im_ts w)))"
proof -
  have "dev = now + hs_offset_us (im_ts w)"
    using assms clock_keeps(1) [OF assms(2)] by (auto simp: now_device_us_def)
  then show ?thesis using assms(3) by (simp add: device_us_to_host_us_def link_on_timesync_def host_ts_status_def)
qed

section \<open>The fire interlock\<close>

text \<open>What the referee system allows at time \<open>now\<close>.\<close>

definition may_fire :: "referee_status \<Rightarrow> u64 \<Rightarrow> bool" where
  "may_fire rs now \<longleftrightarrow> rs_valid rs \<and> rs_fire_allowed rs \<and> rs_host_ts_ns rs \<noteq> 0 \<and> rs_host_ts_ns rs \<le> now \<and> now - rs_host_ts_ns rs \<le> 1000000000"

text \<open>A clock that has been running.\<close>

definition clock_runs :: "'x host_env \<Rightarrow> bool" where
  "clock_runs E \<longleftrightarrow> (\<forall>e. fst (steady_ns E e) \<noteq> 0)"

lemma lift_carries:
  assumes "carries E out"
  shows "carries (lift_env E) (\<lambda>a. out (li_ext a))"
  using assms by (auto simp: carries_def lift_env_def on_li_ext_def Let_def split_beta)

lemma lift_clock:
  assumes "now_ns_steady (lift_env E) w = (t, w')"
  shows "t = fst (steady_ns E (li_ext (im_ext w)))" "w' = w\<lparr>im_ext := (im_ext w)\<lparr>li_ext := snd (steady_ns E (li_ext (im_ext w)))\<rparr>\<rparr>"
  using assms by (auto simp: now_ns_steady_def lift_env_def on_li_ext_def Let_def split_beta)

lemma only_sent_ready: "only_sent E s s' \<Longrightarrow> ready s \<Longrightarrow> ready s'"
  by (cases "snd s") (auto simp: only_sent_def ready_def)

lemma only_sent_link:
  assumes "only_sent (lift_env E) s s'"
  shows "\<exists>x. im_ext (snd s') = (im_ext (snd s))\<lparr>li_ext := x\<rparr>"
proof -
  from assms obtain q e where e: "snd s' = (snd s)\<lparr>im_seqs := q, im_ext := e\<rparr>" "(transport_step (lift_env E))\<^sup>*\<^sup>* (im_ext (snd s)) e"
    by (auto simp: only_sent_def)
  from e(2) have "\<exists>x. e = (im_ext (snd s))\<lparr>li_ext := x\<rparr>"
  proof (induction rule: rtranclp_induct)
    case base
    show ?case by (rule exI [of _ "li_ext (im_ext (snd s))"]) simp
  next
    case (step y z)
    then show ?case by (auto elim!: transport_step.cases simp: lift_env_def on_li_ext_def Let_def split_beta)
  qed
  then show ?thesis using e(1) by simp
qed

text \<open>The bytes of one packet with a command.\<close>

definition packet_of :: "host_command \<Rightarrow> u8 list \<Rightarrow> bool" where
  "packet_of c bs \<longleftrightarrow> (\<exists>t seq q. bs = notify_image UPROTO_MSG_MUX seq
     (notify_hdr GIMBAL_CH_ID (command_sid c) 0 (word_of_nat (length (command_image t c))) q) (command_image t c))"

text \<open>A command stamped with the time of the clock: the clock is read, and one packet is written.\<close>

lemma stamped_command:
  fixes w :: "('f, 'q, 'x) link_app driver_impl"
  assumes "carries E out" and "clock_runs E" and "ready (ctx, w)"
    and "now_ns_steady (lift_env E) w = (t, w1)" and "t \<noteq> 0 \<Longrightarrow> command_time (lift_env E :: ('f, 'q, 'x) link_app host_env) (im_ts w1) c \<noteq> None"
  shows "\<exists>s' bs. send_command (lift_env E) c (ctx, w1) = Some (True, s') \<and> only_sent (lift_env E) (ctx, w) s' \<and> packet_of c bs \<and>
    out (li_ext (im_ext (snd s'))) = out (li_ext (im_ext w)) @ bs"
proof -
  have o: "only_sent (lift_env E) (ctx, w) (ctx, w1)" by (rule only_sent_clock [OF assms(4)])
  have "t \<noteq> 0" using lift_clock(1) [OF assms(4)] assms(2) by (simp add: clock_runs_def)
  then obtain dt where "command_time (lift_env E :: ('f, 'q, 'x) link_app host_env) (im_ts w1) c = Some dt" using assms(5) by auto
  from command_sent [OF lift_carries [OF assms(1)] only_sent_ready [OF o assms(3)] this] obtain s' where
    "send_command (lift_env E) c (ctx, w1) = Some (True, s')" "only_sent (lift_env E) (ctx, w1) s'"
    "out (li_ext (im_ext (snd s'))) = out (li_ext (im_ext w1)) @ notify_image UPROTO_MSG_MUX (cx_local_seq ctx) (notify_hdr GIMBAL_CH_ID (command_sid c) 0
      (word_of_nat (length (command_image dt c))) (im_seqs w1 ! unat GIMBAL_CH_ID + 1)) (command_image dt c)" by blast
  moreover have "out (li_ext (im_ext w1)) = out (li_ext (im_ext w))" using now_ns_out [OF lift_carries [OF assms(1)] assms(4)] .
  ultimately show ?thesis unfolding packet_of_def using only_sent_trans [OF o] by metis
qed

lemma link_commands:
  assumes "carries (le_host L) out" and "clock_runs (le_host L)" and "ready (ctx, w)"
  shows "link_delta A control yaw pitch (im_ext w) = Some (y, p) \<Longrightarrow> \<exists>s' bs t. link_send A L control valid yaw pitch (ctx, w) = Some s' \<and>
      only_sent (lift_env (le_host L)) (ctx, w) s' \<and> out (li_ext (im_ext (snd s'))) = out (li_ext (im_ext w)) @ bs \<and>
      packet_of (Cmd_delta \<lparr>hd_delta_yaw_udeg = y, hd_delta_pitch_udeg = p, hd_status = (if valid then 1 else 0), hd_host_ts_ns = t, hd_device_ts_us = 0\<rparr>) bs"
    and "\<exists>s' bs t. link_send_fire L fire_on m burst status (ctx, w) = Some s' \<and> only_sent (lift_env (le_host L)) (ctx, w) s' \<and>
      out (li_ext (im_ext (snd s'))) = out (li_ext (im_ext w)) @ bs \<and>
      packet_of (Cmd_fire \<lparr>hf_fire_on = (if fire_on then 1 else 0), hf_fire_mode = m, hf_burst_count = burst, hf_status = status, hf_host_ts_ns = t, hf_device_ts_us = 0\<rparr>) bs"
    and "\<exists>s' bs t. link_send_chassis L vx vy wz m status (ctx, w) = Some s' \<and> only_sent (lift_env (le_host L)) (ctx, w) s' \<and>
      out (li_ext (im_ext (snd s'))) = out (li_ext (im_ext w)) @ bs \<and>
      packet_of (Cmd_chassis \<lparr>hq_vx_mm_s = vx, hq_vy_mm_s = vy, hq_wz_mdeg_s = wz, hq_mode = m, hq_status = status, hq_host_ts_ns = t, hq_device_ts_us = 0\<rparr>) bs"
proof -
  obtain t w1 where n: "now_ns_steady (lift_env (le_host L)) w = (t, w1)" by fastforce
  have o: "Driver_is_open (ctx, w)" using assms(3) by (simp add: ready_def Driver_is_open_def)
  note st = stamped_command [OF assms n]
  show "\<exists>s' bs t. link_send A L control valid yaw pitch (ctx, w) = Some s' \<and>
      only_sent (lift_env (le_host L)) (ctx, w) s' \<and> out (li_ext (im_ext (snd s'))) = out (li_ext (im_ext w)) @ bs \<and>
      packet_of (Cmd_delta \<lparr>hd_delta_yaw_udeg = y, hd_delta_pitch_udeg = p, hd_status = (if valid then 1 else 0), hd_host_ts_ns = t, hd_device_ts_us = 0\<rparr>) bs"
    if "link_delta A control yaw pitch (im_ext w) = Some (y, p)"
    using st [of "Cmd_delta \<lparr>hd_delta_yaw_udeg = y, hd_delta_pitch_udeg = p, hd_status = (if valid then 1 else 0), hd_host_ts_ns = t, hd_device_ts_us = 0\<rparr>"]
      that o n by (fastforce simp: link_send_def)
  show "\<exists>s' bs t. link_send_fire L fire_on m burst status (ctx, w) = Some s' \<and> only_sent (lift_env (le_host L)) (ctx, w) s' \<and>
      out (li_ext (im_ext (snd s'))) = out (li_ext (im_ext w)) @ bs \<and>
      packet_of (Cmd_fire \<lparr>hf_fire_on = (if fire_on then 1 else 0), hf_fire_mode = m, hf_burst_count = burst, hf_status = status, hf_host_ts_ns = t, hf_device_ts_us = 0\<rparr>) bs"
    using st [of "Cmd_fire \<lparr>hf_fire_on = (if fire_on then 1 else 0), hf_fire_mode = m, hf_burst_count = burst, hf_status = status, hf_host_ts_ns = t, hf_device_ts_us = 0\<rparr>"]
      o n by (fastforce simp: link_send_fire_def)
  show "\<exists>s' bs t. link_send_chassis L vx vy wz m status (ctx, w) = Some s' \<and> only_sent (lift_env (le_host L)) (ctx, w) s' \<and>
      out (li_ext (im_ext (snd s'))) = out (li_ext (im_ext w)) @ bs \<and>
      packet_of (Cmd_chassis \<lparr>hq_vx_mm_s = vx, hq_vy_mm_s = vy, hq_wz_mdeg_s = wz, hq_mode = m, hq_status = status, hq_host_ts_ns = t, hq_device_ts_us = 0\<rparr>) bs"
    using st [of "Cmd_chassis \<lparr>hq_vx_mm_s = vx, hq_vy_mm_s = vy, hq_wz_mdeg_s = wz, hq_mode = m, hq_status = status, hq_host_ts_ns = t, hq_device_ts_us = 0\<rparr>"]
      o n by (fastforce simp: link_send_chassis_def)
qed

lemma only_sent_refl [simp]: "only_sent E s s"
  by (cases "snd s") (auto simp: only_sent_def)

lemma can_fire_iff:
  assumes "referee_can_fire L rs (ctx, w) = (r, s)"
  shows "r \<longleftrightarrow> may_fire rs (fst (steady_ns (le_host L) (li_ext (im_ext w))))" and "only_sent (lift_env (le_host L)) (ctx, w) s"
proof -
  obtain t w1 where n: "now_ns_steady (lift_env (le_host L)) w = (t, w1)" by fastforce
  have t: "t = fst (steady_ns (le_host L) (li_ext (im_ext w)))" by (rule lift_clock(1) [OF n])
  show "r \<longleftrightarrow> may_fire rs (fst (steady_ns (le_host L) (li_ext (im_ext w))))"
    using assms n t by (auto simp: referee_can_fire_def may_fire_def kRefereeStaleNs_def not_less split: if_splits)
  show "only_sent (lift_env (le_host L)) (ctx, w) s"
    using assms n only_sent_clock [OF n, of ctx] by (auto simp: referee_can_fire_def split: if_splits)
qed

lemma can_fire_out:
  assumes "carries (le_host L) out" and "referee_can_fire L rs (ctx, w) = (r, s)"
  shows "out (li_ext (im_ext (snd s))) = out (li_ext (im_ext w))"
proof -
  obtain t w1 where n: "now_ns_steady (lift_env (le_host L)) w = (t, w1)" by fastforce
  show ?thesis using now_ns_out [OF lift_carries [OF assms(1)] n] n assms(2) by (auto simp: referee_can_fire_def split: if_splits)
qed

lemma send_packets:
  assumes "carries (le_host L) out" and "clock_runs (le_host L)" and "ready (ctx, w)"
    and "link_delta A control yaw pitch (im_ext w) = Some (y, p)"
  shows "\<exists>s' b1 b2 b3 x f t. Dm02_send A L control fire yaw pitch (d, ctx, w) = Some (sync_cached_state A d (ctx, w), s') \<and>
    out (li_ext (im_ext (snd s'))) = out (li_ext (im_ext w)) @ b1 @ b2 @ b3 \<and> out x = out (li_ext (im_ext w)) @ b1 \<and>
    packet_of (Cmd_delta \<lparr>hd_delta_yaw_udeg = y, hd_delta_pitch_udeg = p, hd_status = (if control then 1 else 0), hd_host_ts_ns = t, hd_device_ts_us = 0\<rparr>) b1 \<and>
    packet_of (Cmd_fire f) b2 \<and> (\<exists>c. packet_of (Cmd_chassis c) b3 \<and> hq_vx_mm_s c = 0 \<and> hq_vy_mm_s c = 0 \<and> hq_wz_mdeg_s c = 0) \<and>
    hf_fire_on f = (if control \<and> fire \<and> may_fire (li_referee (im_ext w)) (fst (steady_ns (le_host L) x)) then 1 else 0) \<and>
    hf_burst_count f = 2 * hf_fire_on f \<and> ready s'"
proof -
  let ?E = "lift_env (le_host L)"
  from link_commands(1) [OF assms, of control] obtain c1 w1 b1 t where s1: "link_send A L control control yaw pitch (ctx, w) = Some (c1, w1)"
    "only_sent ?E (ctx, w) (c1, w1)" "out (li_ext (im_ext w1)) = out (li_ext (im_ext w)) @ b1"
    "packet_of (Cmd_delta \<lparr>hd_delta_yaw_udeg = y, hd_delta_pitch_udeg = p, hd_status = (if control then 1 else 0), hd_host_ts_ns = t, hd_device_ts_us = 0\<rparr>) b1"
    by fastforce
  have ref: "li_referee (im_ext w1) = li_referee (im_ext w)" using only_sent_link [OF s1(2)] by auto
  define g where "g = (if control \<and> fire then referee_can_fire L (li_referee (im_ext w1)) (c1, w1) else (False, c1, w1))"
  obtain r c2 w2 where g: "g = (r, c2, w2)" by (metis surj_pair)
  have r: "r \<longleftrightarrow> control \<and> fire \<and> may_fire (li_referee (im_ext w)) (fst (steady_ns (le_host L) (li_ext (im_ext w1))))"
    and s2: "only_sent ?E (c1, w1) (c2, w2)" "out (li_ext (im_ext w2)) = out (li_ext (im_ext w1))"
    using g can_fire_iff [of L _ c1 w1] can_fire_out [OF assms(1), of _ c1 w1] ref
    by (auto simp: g_def split: if_splits)
  have rdy2: "ready (c2, w2)" using only_sent_ready s1(2) s2(1) assms(3) by blast
  from link_commands(2) [OF assms(1,2) rdy2, of r 2 "if r then 2 else 0" "if control then 1 else 0"] obtain c3 w3 b2 t2 where
    s3: "link_send_fire L r 2 (if r then 2 else 0) (if control then 1 else 0) (c2, w2) = Some (c3, w3)" "only_sent ?E (c2, w2) (c3, w3)"
    "out (li_ext (im_ext w3)) = out (li_ext (im_ext w2)) @ b2"
    "packet_of (Cmd_fire \<lparr>hf_fire_on = (if r then 1 else 0), hf_fire_mode = 2, hf_burst_count = (if r then 2 else 0),
       hf_status = (if control then 1 else 0), hf_host_ts_ns = t2, hf_device_ts_us = 0\<rparr>) b2" by fastforce
  from link_commands(3) [OF assms(1,2) only_sent_ready [OF s3(2) rdy2], of 0 0 0 3 0] obtain s4 b3 t3 where
    s4: "link_send_chassis L 0 0 0 3 0 (c3, w3) = Some s4" "only_sent ?E (c3, w3) s4" "out (li_ext (im_ext (snd s4))) = out (li_ext (im_ext w3)) @ b3"
    "packet_of (Cmd_chassis \<lparr>hq_vx_mm_s = 0, hq_vy_mm_s = 0, hq_wz_mdeg_s = 0, hq_mode = 3, hq_status = 0, hq_host_ts_ns = t3, hq_device_ts_us = 0\<rparr>) b3"
    by blast
  have "Dm02_send A L control fire yaw pitch (d, ctx, w) = Some (sync_cached_state A d (ctx, w), s4)"
    using s1(1) g s3(1) s4(1) unfolding Dm02_send_def g_def by (auto split: if_splits)
  moreover have "ready s4" using only_sent_ready s4(2) s3(2) rdy2 by blast
  ultimately show ?thesis
    using s1 s2 s3 s4 r by (intro exI [of _ s4] exI [of _ b1] exI [of _ b2] exI [of _ b3] exI [of _ "li_ext (im_ext w1)"]
        exI [of _ "\<lparr>hf_fire_on = (if r then 1 else 0), hf_fire_mode = 2, hf_burst_count = (if r then 2 else 0),
       hf_status = (if control then 1 else 0), hf_host_ts_ns = t2, hf_device_ts_us = 0\<rparr>"] exI [of _ t]) auto
qed

text \<open>
  C14. The fire interlock: every call of \<open>Dm02_send\<close> over an open link writes exactly three packets, an aiming, a fire and a
  zero chassis command. The fire command asks for fire if and only if the caller wants control and fire and the last referee report,
  at the moment of the decision after the aiming command was written, is valid, allows fire and is at most one second old; its burst is 2 then and 0
  otherwise.
\<close>

theorem fire_interlock:
  assumes "carries (le_host L) out" and "clock_runs (le_host L)" and "ready (ctx, w)"
    and "link_delta A control yaw pitch (im_ext w) = Some (y, p)"
  shows "\<exists>s' b1 b2 b3 x f t. Dm02_send A L control fire yaw pitch (d, ctx, w) = Some (sync_cached_state A d (ctx, w), s') \<and>
    out (li_ext (im_ext (snd s'))) = out (li_ext (im_ext w)) @ b1 @ b2 @ b3 \<and> out x = out (li_ext (im_ext w)) @ b1 \<and>
    packet_of (Cmd_delta \<lparr>hd_delta_yaw_udeg = y, hd_delta_pitch_udeg = p, hd_status = (if control then 1 else 0), hd_host_ts_ns = t, hd_device_ts_us = 0\<rparr>) b1 \<and>
    packet_of (Cmd_fire f) b2 \<and> (\<exists>c. packet_of (Cmd_chassis c) b3 \<and> hq_vx_mm_s c = 0 \<and> hq_vy_mm_s c = 0 \<and> hq_wz_mdeg_s c = 0) \<and>
    hf_fire_on f = (if control \<and> fire \<and> may_fire (li_referee (im_ext w)) (fst (steady_ns (le_host L) x)) then 1 else 0) \<and>
    hf_burst_count f = 2 * hf_fire_on f"
  using send_packets [OF assms, of fire d] by blast

text \<open>
  The referee report opens and closes the interlock: after a referee report of the device has been handled at time \<open>t\<close>, fire is
  allowed at time \<open>now\<close> if and only if the report allows it, its status word is zero or has the valid bit, and \<open>now\<close> is between \<open>t\<close> and a second later.
  Everything else that the link stores is left as it was.
\<close>

theorem referee_report_decides:
  assumes "im_callbacks w = link_callbacks A" and "now_ns_steady (lift_env E) w = (t, w1)" and "t \<noteq> 0"
  shows "\<exists>w'. handle_mux (lift_env E) (mux_image (notify_hdr GIMBAL_CH_ID GIMBAL_SID_REFEREE fl 28 q) (referee_image g)) 44 (ctx, w) = Some (ctx, w') \<and>
    (may_fire (li_referee (im_ext w')) now \<longleftrightarrow>
      gr_fire_allowed g \<noteq> 0 \<and> (gr_status g = 0 \<or> gr_status g AND 1 \<noteq> 0) \<and> t \<le> now \<and> now - t \<le> 1000000000) \<and>
    (im_ext w')\<lparr>li_referee := li_referee (im_ext w)\<rparr> = im_ext w1"
proof -
  have "take 2 (referee_image g) = le16 GIMBAL_SID_REFEREE" by (simp add: referee_image_def)
  from handle_mux_notify [OF _ _ this, where ch = GIMBAL_CH_ID and flags = fl and q = q and E = "lift_env E" and s = "(ctx, w)"]
  obtain rest where m: "handle_mux (lift_env E) (mux_image (notify_hdr GIMBAL_CH_ID GIMBAL_SID_REFEREE fl 28 q) (referee_image g)) 44 (ctx, w) =
      handle_referee (lift_env E) (referee_image g @ rest) 28 (ctx, w)" by (auto simp: gimbal_sids)
  have w1: "im_callbacks w1 = link_callbacks A" "li_referee (im_ext w) = li_referee (im_ext w1)" using assms(1) lift_clock(2) [OF assms(2)] by simp_all
  show ?thesis
    unfolding m using assms(2,3) w1
    by (auto simp: handle_referee_def referee_image_def field_reads Let_def call_back_def link_callbacks_def link_on_referee_def may_fire_def)
qed

section \<open>The thread\<close>

text \<open>The queue of the link never exceeds its bound, whatever the driver reports.\<close>

definition link_inv :: "('f, 'q, 'x) link_app \<Rightarrow> bool" where
  "link_inv a \<longleftrightarrow> tq_max (li_queue a) = 1000 \<and> length (tq_items (li_queue a)) \<le> 1000"

lemma link_inv_ext [simp]: "link_inv (a\<lparr>li_ext := x\<rparr>) = link_inv a"
  by (simp add: link_inv_def)

lemma queue_push_other [simp]:
  "li_ext (queue_push v a) = li_ext a" "link_inv a \<Longrightarrow> link_inv (queue_push v a)"
  by (auto simp: queue_push_def tsq_push_def link_inv_def split: option.split)

lemma link_callback_ext [simp]:
  "li_ext (link_on_gimbal_state A s a) = li_ext a" "li_ext (link_on_tfmini tf a) = li_ext a"
  "li_ext (link_on_timesync ts a) = li_ext a" "li_ext (link_on_referee rs a) = li_ext a"
  by (simp_all add: link_on_gimbal_state_def link_on_tfmini_def link_on_timesync_def link_on_referee_def Let_def)

lemma link_callback_inv [simp]:
  assumes "link_inv a"
  shows "link_inv (link_on_gimbal_state A s a)" "link_inv (link_on_tfmini tf a)" "link_inv (link_on_timesync ts a)" "link_inv (link_on_referee rs a)"
  using assms queue_push_other(2) [OF assms]
  by (auto simp: link_on_gimbal_state_def link_on_tfmini_def link_on_timesync_def link_on_referee_def link_inv_def Let_def)

interpretation link_host: wrapping_host "wrapping (lift_env E)" "link_callbacks A" link_inv for E A
  by unfold_locales (auto simp: lift_env_def on_li_ext_def Let_def split_beta quiet_callbacks_def keeps_ext_def link_callbacks_def no_callbacks_def)

text \<open>A transport that has only finitely many bytes to read at a time.\<close>

definition finite_transport :: "'x host_env \<Rightarrow> ('x \<Rightarrow> nat) \<Rightarrow> bool" where
  "finite_transport E unread \<longleftrightarrow>
     (\<forall>e n buf e'. tp_read_some E 1024 e = ((n, buf), e') \<longrightarrow> n > 0 \<longrightarrow> nat n \<le> length buf \<and> unread e' < unread e) \<and>
     (\<forall>d e. unread (snd (tp_write_all E d e)) \<le> unread e) \<and> (\<forall>e. unread (snd (steady_ns E e)) \<le> unread e)"

lemma lift_finite:
  assumes "finite_transport E unread"
  shows "finite_input (lift_env E) (link_callbacks A) (\<lambda>a. unread (li_ext a))"
proof -
  have "nat n \<le> length buf \<and> unread e' < unread e" if "fst (tp_read_some E 1024 e) = (n, buf)" "snd (tp_read_some E 1024 e) = e'" "n > 0" for n e e' buf
    using assms that unfolding finite_transport_def by (metis prod.collapse)
  then show ?thesis
    using assms unfolding finite_transport_def finite_input_def
    by (auto simp: lift_env_def on_li_ext_def Let_def split_beta quiet_callbacks_def keeps_ext_def link_callbacks_def no_callbacks_def)
qed

text \<open>A link in the hands of its thread.\<close>

definition link_ok_state :: "('d, 'f, 'q) arith \<Rightarrow> ('f, 'q, 'x) link \<Rightarrow> bool" where
  "link_ok_state A s \<longleftrightarrow> wf_ctx (fst s) \<and> driver_ok (link_callbacks A) link_inv (snd s)"

lemma lift_wrapping: "fwrapv E \<Longrightarrow> wrapping (lift_env E) = lift_env E"
  by (simp add: lift_env_def)

lemma link_open_ok:
  assumes "link_ok_state A s" and "fwrapv (le_host L)"
  shows "\<exists>ok s'. link_open L ep s = Some (ok, s') \<and> link_ok_state A s'"
proof -
  have "link_inv (snd (tp_open (wrapping (lift_env (le_host L))) ep e))" if "link_inv e" for ep and e :: "('b, 'c, 'd) link_app"
    using that by (simp add: lift_env_def on_li_ext_def Let_def split_beta)
  from link_host.Driver_open_safe [where E = "le_host L" and A = A, OF _ _ this, of "fst s" "snd s" ep] assms(1)
  show ?thesis unfolding lift_wrapping [OF assms(2)] link_open_def link_ok_state_def by fastforce
qed

lemma link_moves_ok:
  assumes "link_ok_state A s"
  shows "link_ok_state A (link_close L s)" "link_ok_state A (link_sleep L ms s)" "link_ok_state A (clear_queue s)"
  using assms by (auto simp: link_ok_state_def link_close_def Driver_close_def link_sleep_def clear_queue_def driver_ok_def lift_env_def
      link_inv_def tsq_clear_def split: prod.split)

lemma reconnect_ok:
  assumes "link_ok_state A s" and "fwrapv (le_host L)"
  shows "\<exists>s'. reconnect_loop L ep n s = Some s' \<and> link_ok_state A s'"
  using assms(1)
proof (induction n arbitrary: s)
  case (Suc n)
  obtain ok s' where "link_open L ep (link_sleep L 200 (link_close L s)) = Some (ok, s')" "link_ok_state A s'"
    using link_open_ok [OF _ assms(2)] link_moves_ok Suc.prems by blast
  then show ?case
    using Suc.prems link_moves_ok(3) [of A s'] Suc.IH [OF link_moves_ok(2) [of A s' L 500]] by (cases "link_quit L s") (auto simp del: split_paired_Ex)
qed simp

lemma io_query_ok:
  assumes "link_ok_state A s" and "fwrapv (le_host L)"
  shows "\<exists>io' s'. io_query L io s = Some (io', s') \<and> link_ok_state A s'"
proof -
  obtain ctx w where s: "s = (ctx, w)" by fastforce
  let ?E = "lift_env (le_host L)"
  have clock: "driver_ok (link_callbacks A) link_inv v'" if "now_ns_steady ?E v = (t, v')" "driver_ok (link_callbacks A) link_inv v" for v t v'
    using link_host.clock_ok(1) [where E = "le_host L"] that unfolding lift_wrapping [OF assms(2)] by blast
  obtain t w1 where n1: "now_ns_steady ?E w = (t, w1)" by fastforce
  obtain u w2 where n2: "now_ns_steady ?E w1 = (u, w2)" by fastforce
  have ok: "wf_ctx ctx" "driver_ok (link_callbacks A) link_inv w2" "driver_ok (link_callbacks A) link_inv w1"
    using assms(1) clock [OF n1] clock [OF n2] by (auto simp: link_ok_state_def s)
  have "\<exists>r s'. send_referee_query ?E (ctx, w2) = Some (r, s') \<and> link_ok_state A s'"
    using link_host.send_command_total [where E = "le_host L" and c = Cmd_referee_query, OF ok(1,2)]
    unfolding lift_wrapping [OF assms(2)] by (auto simp: safe_def link_ok_state_def)
  then show ?thesis using n1 n2 ok by (auto simp: io_query_def s link_ok_state_def Let_def)
qed

lemma io_round_ok:
  assumes "link_ok_state A s" and "fwrapv (le_host L)" and "finite_transport (le_host L) unread"
  shows "\<exists>io' s'. io_round L ep (io, s) = Some (io', s') \<and> link_ok_state A s'"
proof -
  obtain ctx w where s: "s = (ctx, w)" by fastforce
  let ?E = "lift_env (le_host L)"
  have rec: "\<exists>s'. link_reconnect L ep v = Some s' \<and> link_ok_state A s'" if "link_ok_state A v" for v
    unfolding link_reconnect_def using reconnect_ok [OF that assms(2)] .
  have "\<exists>ctx' w'. Driver_step (wrapping ?E) 5 (ctx, w) = Some (ctx', w') \<and> wf_ctx ctx' \<and> driver_ok (link_callbacks A) link_inv w'"
  proof (rule link_host.Driver_step_returns)
    show "finite_input (wrapping ?E) (link_callbacks A) (\<lambda>a. unread (li_ext a))"
      unfolding lift_wrapping [OF assms(2)] by (rule lift_finite [OF assms(3)])
  qed (use assms(1) in \<open>simp_all add: link_ok_state_def s lift_env_def on_li_ext_def Let_def split_beta\<close>)
  then obtain ctx' w' where step: "Driver_step ?E 5 s = Some (ctx', w')" "link_ok_state A (ctx', w')"
    unfolding lift_wrapping [OF assms(2)] by (auto simp: link_ok_state_def s)
  have thr: "link_ok_state A (fst s, (snd s)\<lparr>im_ext := (im_ext (snd s))\<lparr>li_ext := x\<rparr>\<rparr>)" for x
    using assms(1) by (simp add: link_ok_state_def driver_ok_def)
  show ?thesis
  proof (cases "Driver_is_open s \<and> le_wait_throws L 5 (li_ext (im_ext (snd s))) = None")
    case True
    then show ?thesis using step(1) io_query_ok [OF step(2) assms(2), of io] by (auto simp: io_round_def)
  next
    case False
    then consider "\<not> Driver_is_open s" | x where "Driver_is_open s" "le_wait_throws L 5 (li_ext (im_ext (snd s))) = Some x" by auto
    then show ?thesis
    proof cases
      case 1
      then show ?thesis using rec [OF assms(1)] by (auto simp: io_round_def simp del: split_paired_Ex)
    next
      case (2 x)
      then show ?thesis using rec [OF thr [of x]] thr [of x] by (auto simp: io_round_def Let_def simp del: split_paired_Ex)
    qed
  qed
qed


section \<open>A link on a wire\<close>

text \<open>Whole numbers in the place of the floating-point ones, a wire with a running clock, and an open link on it.\<close>

definition int_arith :: "(int, int, int) arith" where
  "int_arith = \<lparr>ar_rad = sint, ar_euler = (\<lambda>y p r. y), ar_float = (\<lambda>d. d), ar_double = (\<lambda>f. f), ar_hundredths = (\<lambda>v. sint v div 100),
     ar_sub = (-), ar_zero = 0, ar_zerof = 0, ar_udeg = (\<lambda>d. Some (word_of_int d)), ar_seconds = (\<lambda>n. n), ar_div = (div), ar_slerp = (\<lambda>a k b. a + k * (b - a))\<rparr>"

definition wire_env :: "pipe link_env" where
  "wire_env = \<lparr>le_host = pipe_host\<lparr>steady_ns := (\<lambda>e. (5000, e))\<rparr>, le_sleep = (\<lambda>_ x. x), le_quit = (\<lambda>_. False), le_wait_throws = (\<lambda>_ _. None)\<rparr>"

definition wire_link :: "(int, int, pipe) link" where
  "wire_link = (host_ctx, (new_driver_impl True default_driver_config
     ((new_link_app int_arith AUTO_AIM 10 pipe0)\<lparr>li_referee := \<lparr>rs_valid = True, rs_status = 1, rs_enemy_team = 0, rs_fire_allowed = True, rs_robot_id = 3,
        rs_game_stage = 4, rs_device_ts_us = 9, rs_host_ts_ns = 4000\<rparr>\<rparr>))\<lparr>im_open := True, im_callbacks := link_callbacks int_arith\<rparr>)"

lemma wire_ready:
  "carries (le_host wire_env) pi_out" "clock_runs (le_host wire_env)" "ready wire_link" "fwrapv (le_host wire_env)"
  "link_ok_state int_arith wire_link" "finite_transport (le_host wire_env) (\<lambda>_. 0)"
  "now_ns_steady (lift_env (le_host wire_env)) (snd wire_link) = (5000, snd wire_link)" "im_callbacks (snd wire_link) = link_callbacks int_arith"
proof -
  show "ready wire_link" using host_ready(2) by (simp add: ready_def wire_link_def new_driver_impl_def)
  show "link_ok_state int_arith wire_link"
    using host_ready(3) by (simp add: link_ok_state_def wire_link_def driver_ok_def new_driver_impl_def new_time_sync_def link_inv_def new_link_app_def new_tsq_def)
qed (simp_all add: wire_env_def carries_def pipe_host_def clock_runs_def finite_transport_def now_ns_steady_def lift_env_def on_li_ext_def wire_link_def new_driver_impl_def)

theorem q_interpolates_witness:
  "q_resume int_arith 15 (Some (100, 10)) [(200, 20)] = Q_answer (q_between int_arith (100, 10) (200, 20) 15) [(200, 20)]"
  using q_interpolates [of "[(0, 0), (100, 10)]" "[(200, 20)]" 1 15 int_arith] by simp

theorem q_again_extrapolates_witness:
  "q_loop int_arith 15 [(100, 10), (200, 20), (300, 30)] = Q_answer (q_between int_arith (100, 10) (200, 20) 15) [(200, 20), (300, 30)] \<and>
   q_loop int_arith 15 [(200, 20), (300, 30)] = Q_answer (q_between int_arith (200, 20) (300, 30) 15) [(300, 30)]"
  using q_again_extrapolates [of "(100, 10)" 15 "(200, 20)" int_arith "(300, 30)" "[]"] by simp

theorem endpoint_key_required_witness:
  "link_construct int_arith wire_env \<lparr>cf_dm02_endpoint = Missing, cf_com_port = Value ''/dev/ttyACM0'', cf_dm02_baud = Value 115200,
     cf_dm02_bullet_speed_default = Value 10, cf_dm02_mode = Value ''AUTO_AIM''\<rparr> host_ctx pipe0 = Some Exits"
  by (rule endpoint_key_required [rule_format]) simp

theorem host_time_off_by_two_offsets_witness:
  "device_us_to_host_us True 107 (link_on_timesync (host_ts_status ((new_time_sync 0 0 True)\<lparr>hs_mapping_valid := True, hs_offset_us := 102\<rparr>)) (im_ext (snd wire_link))) =
     Some (Some 209)"
proof -
  let ?w = "(snd wire_link)\<lparr>im_ts := (new_time_sync 0 0 True)\<lparr>hs_mapping_valid := True, hs_offset_us := 102\<rparr>\<rparr>"
  have "now_ns_steady (lift_env (le_host wire_env)) ?w = (5000, ?w)"
    by (simp add: now_ns_steady_def lift_env_def on_li_ext_def wire_env_def)
  then have n: "now_us_steady (lift_env (le_host wire_env)) ?w = (5, ?w)" by (simp add: now_us_steady_def)
  then have "now_device_us (lift_env (le_host wire_env)) ?w = Some (107, ?w)" using wire_ready(4) by (simp add: now_device_us_def lift_env_def)
  from host_time_off_by_two_offsets [OF this n] wire_ready(4) show ?thesis by (simp add: lift_env_def)
qed

theorem fire_interlock_witness:
  "\<exists>s' b1 b2 b3 f. Dm02_send int_arith wire_env True True 7 8 (\<lparr>d_bullet_speed = 0, d_mode = Mode_idle, d_shoot_mode = Both_shoot, d_ft_angle = 0\<rparr>, wire_link) =
      Some (\<lparr>d_bullet_speed = 0, d_mode = Mode_auto_aim, d_shoot_mode = Both_shoot, d_ft_angle = 0\<rparr>, s') \<and>
    pi_out (li_ext (im_ext (snd s'))) = b1 @ b2 @ b3 \<and> packet_of (Cmd_fire f) b2 \<and> hf_fire_on f = 1"
proof -
  obtain ctx w where l: "wire_link = (ctx, w)" by fastforce
  have delta: "link_delta int_arith True 7 8 (im_ext w) = Some (7, 8)"
    using l by (auto simp: link_delta_def wire_link_def new_driver_impl_def new_link_app_def int_arith_def)
  have may: "may_fire (li_referee (im_ext w)) (fst (steady_ns (le_host wire_env) x))" for x
    using l by (auto simp: may_fire_def wire_link_def new_driver_impl_def new_link_app_def wire_env_def)
  have sync: "sync_cached_state int_arith \<lparr>d_bullet_speed = 0, d_mode = Mode_idle, d_shoot_mode = Both_shoot, d_ft_angle = 0\<rparr> (ctx, w) =
      \<lparr>d_bullet_speed = 0, d_mode = Mode_auto_aim, d_shoot_mode = Both_shoot, d_ft_angle = 0\<rparr>"
    and empty: "pi_out (li_ext (im_ext w)) = []"
    using l by (auto simp: sync_cached_state_def wire_link_def new_driver_impl_def new_link_app_def int_arith_def to_mode_def pipe0_def)
  from fire_interlock [OF wire_ready(1,2) wire_ready(3) [unfolded l] delta, of True
      "\<lparr>d_bullet_speed = 0, d_mode = Mode_idle, d_shoot_mode = Both_shoot, d_ft_angle = 0\<rparr>"]
  show ?thesis unfolding l sync empty using may by fastforce
qed

theorem referee_report_decides_witness:
  "\<exists>w'. handle_mux (lift_env (le_host wire_env)) (mux_image (notify_hdr GIMBAL_CH_ID GIMBAL_SID_REFEREE 0 28 1)
      (referee_image \<lparr>gr_enemy_team = 1, gr_fire_allowed = 0, gr_robot_id = 3, gr_game_stage = 4, gr_status = 1, gr_ts_us = 6\<rparr>)) 44 wire_link =
      Some (fst wire_link, w') \<and> \<not> may_fire (li_referee (im_ext w')) 6000"
  using referee_report_decides [OF wire_ready(8,7), of 0 1 "\<lparr>gr_enemy_team = 1, gr_fire_allowed = 0, gr_robot_id = 3, gr_game_stage = 4, gr_status = 1, gr_ts_us = 6\<rparr>"
      "fst wire_link" 6000] by auto


end
