(* ===== verification/Ordered_Queue.thy ===== *)
theory Ordered_Queue
  imports Thread_Safe_Queue "HOL-Library.AList"
begin

text \<open>
  The reordering queue between the detection threads and the tracker, \<^verbatim>\<open>OrderedQueue\<close> of \<^verbatim>\<open>tools/thread_pool.hpp\<close>: frames finish in any order and are handed out by
  their numbers. Every method is one critical section; \<^verbatim>\<open>dequeue\<close> waits for a frame and then has no result.
\<close>

section \<open>The methods\<close>

text \<open>A frame: its number and everything else.\<close>

type_synonym 'a frame = "int \<times> 'a"

text \<open>The hash map of the frames that came too early is an association list with one entry for a key.\<close>

record 'a ordered_queue =
  oq_main :: "'a frame list"
  oq_buffer :: "(int \<times> 'a frame) list"
  oq_current_id :: int

definition new_ordered_queue :: "'a ordered_queue" where
  "new_ordered_queue = \<lparr>oq_main = [], oq_buffer = [], oq_current_id = 1\<rparr>"

text \<open>The counter is an \<^verbatim>\<open>int\<close>: counting beyond its range is undefined (\<open>None\<close>).\<close>

definition next_id :: "int \<Rightarrow> int option" where
  "next_id c = (if c < 2 ^ 31 - 1 then Some (c + 1) else None)"

lemma delete_shorter: "map_of b c = Some f \<Longrightarrow> length (AList.delete c b) < length b"
  by (induction b) (auto simp: AList.delete_eq less_Suc_eq_le)

function release :: "int \<Rightarrow> 'a frame list \<Rightarrow> (int \<times> 'a frame) list \<Rightarrow> 'a ordered_queue option" where
  "release c m b = (case map_of b c of
     None \<Rightarrow> Some \<lparr>oq_main = m, oq_buffer = b, oq_current_id = c\<rparr>
   | Some f \<Rightarrow> (case next_id c of None \<Rightarrow> None | Some c' \<Rightarrow> release c' (m @ [f]) (AList.delete c b)))"
  by pat_completeness auto

termination
  by (relation "measure (\<lambda>(c, m, b). length b)") (auto simp: delete_shorter)

declare release.simps [simp del]

definition oq_enqueue :: "'a frame \<Rightarrow> 'a ordered_queue \<Rightarrow> 'a ordered_queue option" where
  "oq_enqueue item q =
     (if fst item < oq_current_id q then Some q
      else if fst item = oq_current_id q
           then (case next_id (oq_current_id q) of None \<Rightarrow> None | Some c \<Rightarrow> release c (oq_main q @ [item]) (oq_buffer q))
           else Some (q\<lparr>oq_buffer := AList.update (fst item) item (oq_buffer q)\<rparr>))"

definition oq_dequeue :: "'a ordered_queue \<Rightarrow> ('a frame \<times> 'a ordered_queue) option" where
  "oq_dequeue q = (case oq_main q of [] \<Rightarrow> None | f # r \<Rightarrow> Some (f, q\<lparr>oq_main := r\<rparr>))"

definition oq_try_dequeue :: "'a frame \<Rightarrow> 'a ordered_queue \<Rightarrow> bool \<times> 'a frame \<times> 'a ordered_queue" where
  "oq_try_dequeue item q = (case oq_main q of [] \<Rightarrow> (False, item, q) | f # r \<Rightarrow> (True, f, q\<lparr>oq_main := r\<rparr>))"

definition oq_get_size :: "'a ordered_queue \<Rightarrow> nat" where
  "oq_get_size q = length (oq_main q) + length (oq_buffer q)"

interpretation oq: fifo oq_dequeue oq_main
  by unfold_locales (auto simp: oq_dequeue_def)

section \<open>Runs\<close>

text \<open>Methods called by any threads in any order, with the frames that were handed in and handed out.\<close>

datatype 'a oq_op = Enqueue "'a frame" | Dequeue

fun oq_run :: "'a oq_op list \<Rightarrow> 'a ordered_queue \<times> 'a frame list \<Rightarrow> ('a ordered_queue \<times> 'a frame list) option" where
  "oq_run [] s = Some s"
| "oq_run (Enqueue f # ops) (q, out) = (case oq_enqueue f q of None \<Rightarrow> None | Some q \<Rightarrow> oq_run ops (q, out))"
| "oq_run (Dequeue # ops) (q, out) = (case oq_dequeue q of None \<Rightarrow> oq_run ops (q, out) | Some (f, q) \<Rightarrow> oq_run ops (q, out @ [f]))"

fun handed_in :: "'a oq_op list \<Rightarrow> 'a frame list" where
  "handed_in [] = []"
| "handed_in (Enqueue f # ops) = f # handed_in ops"
| "handed_in (Dequeue # ops) = handed_in ops"

text \<open>The invariant of a run that was handed the frames \<open>fs\<close>.\<close>

definition oq_inv :: "'a frame set \<Rightarrow> 'a frame list \<Rightarrow> 'a frame list \<Rightarrow> (int \<times> 'a frame) list \<Rightarrow> int \<Rightarrow> bool" where
  "oq_inv fs out m b c \<longleftrightarrow> 1 \<le> c \<and> c < 2 ^ 31 \<and> map fst (out @ m) = [1..c - 1] \<and> set (out @ m) \<subseteq> fs \<and>
     (\<forall>i f. map_of b i = Some f \<longrightarrow> fst f = i \<and> f \<in> fs) \<and>
     (\<forall>f \<in> fs. fst f < c \<or> map_of b (fst f) \<noteq> None)"

lemma upto_snoc: "1 \<le> c \<Longrightarrow> [1..c] = [1..c - 1] @ [c]"
  by (simp add: upto_rec2)

lemma release_inv:
  assumes "oq_inv fs out m b c" and "\<forall>i \<in> fst ` fs. i < 2 ^ 31 - 1"
  shows "\<exists>q. release c m b = Some q \<and> oq_inv fs out (oq_main q) (oq_buffer q) (oq_current_id q) \<and> map_of (oq_buffer q) (oq_current_id q) = None"
  using assms(1)
proof (induction c m b rule: release.induct)
  case (1 c m b)
  show ?case
  proof (cases "map_of b c")
    case None
    then show ?thesis using 1 by (simp add: release.simps)
  next
    case (Some f)
    with 1(2) have f: "fst f = c" "f \<in> fs" unfolding oq_inv_def by blast+
    then have c: "c < 2 ^ 31 - 1" using assms(2) by auto
    then have n: "next_id c = Some (c + 1)" by (simp add: next_id_def)
    have "oq_inv fs out (m @ [f]) (AList.delete c b) (c + 1)"
      using 1(2) f c upto_snoc [of c] by (auto simp: oq_inv_def delete_conv' split: if_splits)
    from 1(1) [OF Some n this] show ?thesis using Some n by (subst release.simps) simp
  qed
qed

definition oq_good :: "'a frame set \<Rightarrow> 'a ordered_queue \<times> 'a frame list \<Rightarrow> bool" where
  "oq_good fs s \<longleftrightarrow> oq_inv fs (snd s) (oq_main (fst s)) (oq_buffer (fst s)) (oq_current_id (fst s)) \<and>
     map_of (oq_buffer (fst s)) (oq_current_id (fst s)) = None"

lemma enqueue_good:
  assumes "oq_good fs (q, out)" and "\<forall>i \<in> fst ` insert f fs. i < 2 ^ 31 - 1"
  shows "\<exists>q'. oq_enqueue f q = Some q' \<and> oq_good (insert f fs) (q', out)"
proof -
  let ?c = "oq_current_id q"
  have inv: "oq_inv fs out (oq_main q) (oq_buffer q) ?c" "map_of (oq_buffer q) ?c = None" using assms(1) by (auto simp: oq_good_def)
  consider "fst f < ?c" | "fst f = ?c" | "?c < fst f" by linarith
  then show ?thesis
  proof cases
    case 1
    then have "oq_inv (insert f fs) out (oq_main q) (oq_buffer q) ?c" using inv by (auto simp: oq_inv_def)
    then show ?thesis using 1 inv by (simp add: oq_enqueue_def oq_good_def)
  next
    case 2
    then have n: "next_id ?c = Some (?c + 1)" using assms(2) by (simp add: next_id_def)
    have "oq_inv (insert f fs) out (oq_main q @ [f]) (oq_buffer q) (?c + 1)"
      using inv 2 assms(2) upto_snoc [of ?c] by (auto simp: oq_inv_def)
    from release_inv [OF this assms(2)] show ?thesis using 2 n by (auto simp: oq_enqueue_def oq_good_def)
  next
    case 3
    have "oq_inv (insert f fs) out (oq_main q) (AList.update (fst f) f (oq_buffer q)) ?c"
      using inv 3 by (auto simp: oq_inv_def update_conv' split: if_splits)
    then show ?thesis using inv 3 by (simp add: oq_enqueue_def oq_good_def update_conv')
  qed
qed

lemma oq_run_good:
  assumes "oq_good fs s" and "\<forall>i \<in> fst ` (fs \<union> set (handed_in ops)). i < 2 ^ 31 - 1"
  shows "\<exists>s'. oq_run ops s = Some s' \<and> oq_good (fs \<union> set (handed_in ops)) s'"
  using assms
proof (induction ops s arbitrary: fs rule: oq_run.induct)
  case (2 f ops q out)
  then obtain q' where "oq_enqueue f q = Some q'" "oq_good (insert f fs) (q', out)" using enqueue_good [of fs q out f] by auto
  with 2(1) [of q' "insert f fs"] 2(3) show ?case by auto
next
  case (3 ops q out)
  show ?case
  proof (cases "oq_main q")
    case Nil
    then show ?thesis using 3 by (simp add: oq_dequeue_def)
  next
    case (Cons f r)
    then have "oq_good fs (q\<lparr>oq_main := r\<rparr>, out @ [f])" using 3(3) by (simp add: oq_good_def oq_inv_def)
    then show ?thesis using 3(2) [of "(f, q\<lparr>oq_main := r\<rparr>)" f "q\<lparr>oq_main := r\<rparr>" fs] 3(4) Cons by (simp add: oq_dequeue_def)
  qed
qed simp

text \<open>
  C30. Frames leave in the order of their numbers: whatever frames are handed in, in whatever order, and however the calls are interleaved, the frames that were handed out and
  those ready to be are numbered one, two, three and so on without a gap, they are among the frames handed in, and they reach exactly as far as the numbers handed in
  have no gap.
\<close>

theorem ordered_delivery:
  assumes "\<forall>f \<in> set (handed_in ops). fst f < 2 ^ 31 - 1"
  shows "\<exists>q out. oq_run ops (new_ordered_queue, []) = Some (q, out) \<and> map fst (out @ oq_main q) = [1..oq_current_id q - 1] \<and>
    set (out @ oq_main q) \<subseteq> set (handed_in ops) \<and>
    (\<forall>n \<ge> 1. n < oq_current_id q \<longleftrightarrow> {1..n} \<subseteq> fst ` set (handed_in ops))"
proof -
  have "oq_good {} (new_ordered_queue, [])" by (simp add: oq_good_def oq_inv_def new_ordered_queue_def)
  from oq_run_good [OF this, of ops] assms obtain q out where
    run: "oq_run ops (new_ordered_queue, []) = Some (q, out)" and good: "oq_good (set (handed_in ops)) (q, out)" by auto
  let ?c = "oq_current_id q" and ?fs = "set (handed_in ops)"
  have inv: "map fst (out @ oq_main q) = [1..?c - 1]" "set (out @ oq_main q) \<subseteq> ?fs" "\<forall>f \<in> ?fs. fst f \<noteq> ?c" "1 \<le> ?c"
    using good by (auto simp: oq_good_def oq_inv_def)
  have "n < ?c \<longleftrightarrow> {1..n} \<subseteq> fst ` ?fs" if "n \<ge> 1" for n
  proof
    assume "n < ?c"
    have "{1..n} \<subseteq> set (map fst (out @ oq_main q))" unfolding inv(1) using \<open>n < ?c\<close> by auto
    also have "\<dots> \<subseteq> fst ` ?fs" using inv(2) by (auto simp del: map_append set_append)
    finally show "{1..n} \<subseteq> fst ` ?fs" .
  next
    assume "{1..n} \<subseteq> fst ` ?fs"
    then show "n < ?c" using inv(3,4) by (metis (no_types, lifting) atLeastAtMost_iff imageE not_less subsetD)
  qed
  then show ?thesis using run inv by blast
qed

theorem ordered_delivery_witness:
  "\<exists>q out. oq_run [Enqueue (3, ''c''), Enqueue (1, ''a''), Dequeue, Enqueue (2, ''b'')] (new_ordered_queue, []) = Some (q, out) \<and>
     map fst (out @ oq_main q) = [1..oq_current_id q - 1] \<and> 3 < oq_current_id q"
proof -
  have "{1..3 :: int} \<subseteq> {3, 1, 2}" by auto
  with ordered_delivery [of "[Enqueue (3, ''c''), Enqueue (1, ''a''), Dequeue, Enqueue (2, ''b'')]"] show ?thesis by fastforce
qed

section \<open>Consumers that wait\<close>

text \<open>
  Threads on one queue: \<^verbatim>\<open>enqueue\<close> notifies a single sleeper when it appends to the ready frames, however many it appends; sleepers may
  also wake up for no reason.
\<close>

record 'a oq_system =
  os_queue :: "'a ordered_queue"
  os_asleep :: "nat set"

inductive oq_step :: "'a oq_system \<Rightarrow> 'a oq_system \<Rightarrow> bool" where
  oq_store: "oq_enqueue f (os_queue y) = Some q \<Longrightarrow> fst f \<noteq> oq_current_id (os_queue y) \<Longrightarrow> oq_step y (y\<lparr>os_queue := q\<rparr>)"
| oq_notify: "oq_enqueue f (os_queue y) = Some q \<Longrightarrow> fst f = oq_current_id (os_queue y) \<Longrightarrow> os_asleep y \<noteq> {} \<longrightarrow> i \<in> os_asleep y \<Longrightarrow>
    oq_step y \<lparr>os_queue = q, os_asleep = os_asleep y - {i}\<rparr>"
| oq_take: "i \<notin> os_asleep y \<Longrightarrow> oq_dequeue (os_queue y) = Some (f, q) \<Longrightarrow> oq_step y (y\<lparr>os_queue := q\<rparr>)"
| oq_wait: "i \<notin> os_asleep y \<Longrightarrow> oq_dequeue (os_queue y) = None \<Longrightarrow> oq_step y (y\<lparr>os_asleep := insert i (os_asleep y)\<rparr>)"
| oq_wake: "oq_step y (y\<lparr>os_asleep := os_asleep y - {i}\<rparr>)"

text \<open>
  A wake-up can be lost: two consumers sleep, the second frame comes before the first, and the frame that closes the gap wakes only one of them. After
  it has taken its frame, the other still sleeps while a frame is ready.
\<close>

theorem ordered_queue_lost_wakeup:
  "\<exists>y. oq_step\<^sup>*\<^sup>* \<lparr>os_queue = new_ordered_queue, os_asleep = {}\<rparr> y \<and> oq_main (os_queue y) = [(2, a)] \<and> os_asleep y = {8}"
proof -
  let ?s = "\<lambda>m b c z. \<lparr>os_queue = \<lparr>oq_main = m, oq_buffer = b, oq_current_id = c\<rparr>, os_asleep = z\<rparr> :: 'a oq_system"
  have "oq_step (?s [] [] 1 {}) (?s [] [] 1 {7})" using oq_wait [of 7 "?s [] [] 1 {}"] by (simp add: oq_dequeue_def)
  moreover have "oq_step (?s [] [] 1 {7}) (?s [] [] 1 {7, 8})"
    using oq_wait [of 8 "?s [] [] 1 {7}"] by (simp add: oq_dequeue_def insert_commute)
  moreover have "oq_step (?s [] [] 1 {7, 8}) (?s [] [(2, 2, a)] 1 {7, 8})" using oq_store [of "(2, a)" "?s [] [] 1 {7, 8}"] by (simp add: oq_enqueue_def)
  moreover have "oq_step (?s [] [(2, 2, a)] 1 {7, 8}) (?s [(1, a), (2, a)] [] 3 {8})"
    using oq_notify [of "(1, a)" "?s [] [(2, 2, a)] 1 {7, 8}" _ 7] by (simp add: oq_enqueue_def next_id_def release.simps)
  moreover have "oq_step (?s [(1, a), (2, a)] [] 3 {8}) (?s [(2, a)] [] 3 {8})"
    using oq_take [of 7 "?s [(1, a), (2, a)] [] 3 {8}"] by (simp add: oq_dequeue_def)
  ultimately have "oq_step\<^sup>*\<^sup>* (?s [] [] 1 {}) (?s [(2, a)] [] 3 {8})" by (meson rtranclp.rtrancl_into_rtrancl rtranclp.rtrancl_refl)
  then show ?thesis by (intro exI [of _ "?s [(2, a)] [] 3 {8}"]) (simp add: new_ordered_queue_def)
qed

end
