(* ===== verification/Armor.thy ===== *)
theory Armor
  imports Dm02_Prelude
begin

text \<open>
  The vocabulary of the aiming program, \<^verbatim>\<open>tasks/auto_aim/armor.hpp\<close>: what is known of a detected armor plate besides its geometry,
  and the voting table \<^verbatim>\<open>tasks/auto_aim/voter.cpp\<close>.
\<close>

section \<open>Enumerations\<close>

datatype color = Red | Blue | Extinguish | Purple

datatype armor_type = Big | Small

datatype armor_name = One | Two | Three | Four | Five | Sentry | Outpost | Base | Not_armor

datatype armor_priority = First | Second | Third | Forth | Fifth

text \<open>The values of the enumerators.\<close>

fun color_value :: "color \<Rightarrow> nat" where
  "color_value Red = 0" | "color_value Blue = 1" | "color_value Extinguish = 2" | "color_value Purple = 3"

fun type_value :: "armor_type \<Rightarrow> nat" where
  "type_value Big = 0" | "type_value Small = 1"

fun name_value :: "armor_name \<Rightarrow> nat" where
  "name_value One = 0" | "name_value Two = 1" | "name_value Three = 2" | "name_value Four = 3" | "name_value Five = 4"
| "name_value Sentry = 5" | "name_value Outpost = 6" | "name_value Base = 7" | "name_value Not_armor = 8"

fun priority_value :: "armor_priority \<Rightarrow> nat" where
  "priority_value First = 1" | "priority_value Second = 2" | "priority_value Third = 3" | "priority_value Forth = 4" | "priority_value Fifth = 5"

definition COLORS :: "string list" where
  "COLORS = [''red'', ''blue'', ''extinguish'', ''purple'']"

definition ARMOR_TYPES :: "string list" where
  "ARMOR_TYPES = [''big'', ''small'']"

definition ARMOR_NAMES :: "string list" where
  "ARMOR_NAMES = [''one'', ''two'', ''three'', ''four'', ''five'', ''sentry'', ''outpost'', ''base'', ''not_armor'']"

fun armor_name_to_string :: "armor_name \<Rightarrow> string" where
  "armor_name_to_string One = ''one''" | "armor_name_to_string Two = ''two''" | "armor_name_to_string Three = ''three''"
| "armor_name_to_string Four = ''four''" | "armor_name_to_string Five = ''five''" | "armor_name_to_string Sentry = ''sentry''"
| "armor_name_to_string Outpost = ''outpost''" | "armor_name_to_string Base = ''base''" | "armor_name_to_string Not_armor = ''not_armor''"

lemma name_strings_agree: "ARMOR_NAMES ! name_value n = armor_name_to_string n"
  by (cases n) (simp_all add: ARMOR_NAMES_def)

text \<open>Priorities are compared by their values: a smaller one is more urgent.\<close>

instantiation armor_priority :: linorder
begin

definition less_eq_armor_priority :: "armor_priority \<Rightarrow> armor_priority \<Rightarrow> bool" where
  "less_eq_armor_priority p q \<longleftrightarrow> priority_value p \<le> priority_value q"

definition less_armor_priority :: "armor_priority \<Rightarrow> armor_priority \<Rightarrow> bool" where
  "less_armor_priority p q \<longleftrightarrow> priority_value p < priority_value q"

instance
proof
  show "p = q" if "p \<le> q" "q \<le> p" for p q :: armor_priority
    using that by (cases p; cases q; simp add: less_eq_armor_priority_def)
qed (auto simp: less_eq_armor_priority_def less_armor_priority_def)

end

text \<open>An armor plate; its image and world geometry is \<open>'a\<close>.\<close>

record 'a armor =
  am_color :: color
  am_type :: armor_type
  am_name :: armor_name
  am_priority :: armor_priority
  am_geometry :: 'a

section \<open>The voting table\<close>

type_synonym voter = "u64 list"

definition new_voter :: voter where
  "new_voter = replicate (length COLORS * length ARMOR_NAMES * length ARMOR_TYPES) 0"

definition voter_index :: "color \<Rightarrow> armor_name \<Rightarrow> armor_type \<Rightarrow> nat" where
  "voter_index c n t = color_value c * (length ARMOR_NAMES * length ARMOR_TYPES) + name_value n * length ARMOR_TYPES + type_value t"

text \<open>The accesses of the vector are not checked: outside it they are undefined.\<close>

definition voter_vote :: "color \<Rightarrow> armor_name \<Rightarrow> armor_type \<Rightarrow> voter \<Rightarrow> voter option" where
  "voter_vote c n t v = (let i = voter_index c n t in if i < length v then Some (v[i := v ! i + 1]) else None)"

definition voter_count :: "color \<Rightarrow> armor_name \<Rightarrow> armor_type \<Rightarrow> voter \<Rightarrow> u64 option" where
  "voter_count c n t v = (let i = voter_index c n t in if i < length v then Some (v ! i) else None)"

fun vote_all :: "(color \<times> armor_name \<times> armor_type) list \<Rightarrow> voter \<Rightarrow> voter option" where
  "vote_all [] v = Some v"
| "vote_all ((c, n, t) # r) v = Option.bind (voter_vote c n t v) (vote_all r)"

lemma index_bound: "voter_index c n t < 72"
  by (cases c; cases n; cases t) (simp_all add: voter_index_def ARMOR_NAMES_def ARMOR_TYPES_def)

lemma index_inject: "voter_index c n t = voter_index c' n' t' \<longleftrightarrow> c = c' \<and> n = n' \<and> t = t'"
proof
  have names: "name_value m < 9" for m by (cases m) simp_all
  have types: "type_value u < 2" for u by (cases u) simp_all
  note small = names [of n] names [of n'] types [of t] types [of t']
  assume eq: "voter_index c n t = voter_index c' n' t'"
  then have e: "18 * color_value c + (2 * name_value n + type_value t) = 18 * color_value c' + (2 * name_value n' + type_value t')"
    by (simp add: voter_index_def ARMOR_NAMES_def ARMOR_TYPES_def)
  have "2 * name_value n + type_value t < 18" "2 * name_value n' + type_value t' < 18" using small by linarith+
  with e have "color_value c = color_value c'" by linarith
  moreover from this e have "2 * name_value n + type_value t = 2 * name_value n' + type_value t'" by linarith
  moreover from this have "name_value n = name_value n'" using small by linarith
  moreover from calculation(2) this have "type_value t = type_value t'" by linarith
  ultimately show "c = c' \<and> n = n' \<and> t = t'"
    by (cases c; cases c'; simp; cases n; cases n'; simp; cases t; cases t'; simp)
qed simp

text \<open>
  Votes are counted separately: whatever plates are voted for, every access stays inside the table, and the count of a plate is the number of
  votes for exactly this colour, name and size (modulo the width of the counter).
\<close>

theorem voter_counts:
  "\<exists>v. vote_all ps new_voter = Some v \<and> voter_count c n t v = Some (of_nat (count_list ps (c, n, t)))"
proof -
  have step: "\<exists>v'. vote_all ps v = Some v' \<and> length v' = 72 \<and> v' ! voter_index c n t = v ! voter_index c n t + of_nat (count_list ps (c, n, t))"
    if "length v = 72" for v
    using that
  proof (induction ps arbitrary: v)
    case (Cons p ps)
    obtain c' n' t' where p: "p = (c', n', t')" by (cases p) auto
    let ?v = "v[voter_index c' n' t' := v ! voter_index c' n' t' + 1]"
    have "voter_vote c' n' t' v = Some ?v" using Cons.prems index_bound by (simp add: voter_vote_def Let_def)
    moreover have "?v ! voter_index c n t = v ! voter_index c n t + (if p = (c, n, t) then 1 else 0)"
      using Cons.prems index_bound [of c n t] index_inject [of c' n' t' c n t] by (auto simp: nth_list_update p)
    ultimately show ?case using Cons.IH [of ?v] Cons.prems by (auto simp: p algebra_simps)
  qed simp
  have "length new_voter = 72" by (simp add: new_voter_def COLORS_def ARMOR_NAMES_def ARMOR_TYPES_def)
  moreover from this have "new_voter ! voter_index c n t = 0" using index_bound [of c n t] by (simp add: new_voter_def)
  ultimately show ?thesis using step [of new_voter] index_bound [of c n t] by (auto simp: voter_count_def Let_def)
qed

end
