(* ===== verification/Tracker.thy ===== *)
theory Tracker
  imports Armor
begin

text \<open>
  The target tracker, \<^verbatim>\<open>tasks/auto_aim/tracker.cpp\<close>, with the decisions of \<^verbatim>\<open>tasks/auto_aim/target.cpp\<close>: which plate is tracked, which of the plates of
  the target a detection is matched with, and the states from lost to tracking and back.

  The Kalman filter, the pose solver and the geometry of an image are the functions of a record \<open>vision\<close>; doubles are the values of
  an ordered type \<open>'k\<close>, so values that are not numbers are left out. Time points are counts of nanoseconds. An
  access outside a vector and the use of an uninitialised variable are undefined: the result is \<open>None\<close>.
\<close>

section \<open>Targets\<close>

text \<open>
  The constants that a filter starts with are given in ten-thousandths, the noise variances in tenths. \<open>vi_order\<close> is the order in which
  \<^verbatim>\<open>std::sort\<close> leaves the plates of a target by distance, \<open>vi_error\<close> the error of the angles for a plate, \<open>vi_update\<close> the filter after a measurement, with the outcome
  of its consistency test.
\<close>

record ('e, 'a, 'k) vision =
  vi_init :: "'a armor \<Rightarrow> int \<Rightarrow> int list \<Rightarrow> 'e"
  vi_predict :: "int \<Rightarrow> int \<Rightarrow> int \<Rightarrow> 'e \<Rightarrow> 'e"
  vi_fast_spin :: "'e \<Rightarrow> bool"
  vi_limit_spin :: "'e \<Rightarrow> 'e"
  vi_r_ok :: "'e \<Rightarrow> bool"
  vi_l_ok :: "'e \<Rightarrow> bool"
  vi_order :: "'e \<Rightarrow> nat \<Rightarrow> nat list"
  vi_error :: "'e \<Rightarrow> nat \<Rightarrow> 'a armor \<Rightarrow> nat \<Rightarrow> 'k"
  vi_huge :: 'k
  vi_update :: "nat \<Rightarrow> 'a armor \<Rightarrow> nat \<Rightarrow> 'e \<Rightarrow> 'e \<times> bool"
  vi_solve :: "'a armor \<Rightarrow> 'a"
  vi_from_center :: "'a \<Rightarrow> 'k"
  vi_zero :: 'k

record 'e target =
  tg_name :: armor_name
  tg_type :: armor_type
  tg_priority :: armor_priority
  tg_jumped :: bool
  tg_last_id :: nat
  tg_armor_num :: nat
  tg_switch_count :: int
  tg_update_count :: int
  tg_is_switch :: bool
  tg_is_converged :: bool
  tg_ekf :: 'e
  tg_nis_failures :: "nat list"
  tg_t :: int

definition new_target :: "('e, 'a, 'k) vision \<Rightarrow> 'a armor \<Rightarrow> int \<Rightarrow> int \<Rightarrow> nat \<Rightarrow> int list \<Rightarrow> 'e target" where
  "new_target V a t radius num p0 = \<lparr>tg_name = am_name a, tg_type = am_type a, tg_priority = am_priority a, tg_jumped = False, tg_last_id = 0,
     tg_armor_num = num, tg_switch_count = 0, tg_update_count = 0, tg_is_switch = False, tg_is_converged = False,
     tg_ekf = vi_init V a radius p0, tg_nis_failures = [0], tg_t = t\<rparr>"

definition target_diverged :: "('e, 'a, 'k) vision \<Rightarrow> 'e target \<Rightarrow> bool" where
  "target_diverged V g \<longleftrightarrow> \<not> (vi_r_ok V (tg_ekf g) \<and> vi_l_ok V (tg_ekf g))"

definition target_convergened :: "('e, 'a, 'k) vision \<Rightarrow> 'e target \<Rightarrow> bool \<times> 'e target" where
  "target_convergened V g =
     (let g = (if tg_name g \<noteq> Outpost \<and> tg_update_count g > 3 \<and> \<not> target_diverged V g then g\<lparr>tg_is_converged := True\<rparr> else g);
          g = (if tg_name g = Outpost \<and> tg_update_count g > 10 \<and> \<not> target_diverged V g then g\<lparr>tg_is_converged := True\<rparr> else g)
      in (tg_is_converged g, g))"

definition target_predict :: "('e, 'a, 'k) vision \<Rightarrow> int \<Rightarrow> 'e target \<Rightarrow> 'e target" where
  "target_predict V t g =
     (let dt = t - tg_t g;
          (v1, v2) = (if tg_name g = Outpost then (100, 1) else (1000, 4000));
          (converged, g) = target_convergened V g;
          g = (if converged \<and> tg_name g = Outpost \<and> vi_fast_spin V (tg_ekf g) then g\<lparr>tg_ekf := vi_limit_spin V (tg_ekf g)\<rparr> else g)
      in g\<lparr>tg_ekf := vi_predict V dt v1 v2 (tg_ekf g), tg_t := t\<rparr>)"

text \<open>The three nearest plates, by position in the sorted vector; the number of the best one so far is uninitialised at first.\<close>

fun match_loop :: "(nat \<Rightarrow> 'k :: linorder) \<Rightarrow> nat list \<Rightarrow> nat list \<Rightarrow> nat option \<Rightarrow> 'k \<Rightarrow> nat option option" where
  "match_loop err order [] best m = Some best"
| "match_loop err order (i # is) best m =
     (if i < length order
      then if err (order ! i) < m then match_loop err order is (Some (order ! i)) (err (order ! i)) else match_loop err order is best m
      else None)"

definition nis_window :: nat where "nis_window = 100"

text \<open>The failures of the consistency test in a sliding window.\<close>

definition nis_push :: "bool \<Rightarrow> nat list \<Rightarrow> nat list" where
  "nis_push failed fs = (let fs = fs @ [if failed then 1 else 0] in if length fs > nis_window then tl fs else fs)"

definition target_update :: "('e, 'a, 'k :: linorder) vision \<Rightarrow> 'a armor \<Rightarrow> 'e target \<Rightarrow> 'e target option" where
  "target_update V a g = do {
     best \<leftarrow> match_loop (vi_error V (tg_ekf g) (tg_armor_num g) a) (vi_order V (tg_ekf g) (tg_armor_num g)) [0, 1, 2] None (vi_huge V);
     i \<leftarrow> best;
     let g = (if i \<noteq> 0 then g\<lparr>tg_jumped := True\<rparr> else g);
     let g = g\<lparr>tg_is_switch := (i \<noteq> tg_last_id g)\<rparr>;
     let g = (if tg_is_switch g then g\<lparr>tg_switch_count := tg_switch_count g + 1\<rparr> else g);
     let g = g\<lparr>tg_last_id := i, tg_update_count := tg_update_count g + 1\<rparr>;
     let (e, failed) = vi_update V (tg_armor_num g) a i (tg_ekf g);
     Some (g\<lparr>tg_ekf := e, tg_nis_failures := nis_push failed (tg_nis_failures g)\<rparr>)
   }"

section \<open>The tracker\<close>

datatype track_state = Lost | Detecting | Tracking | Switching | Temp_lost

record 'e tracker =
  tk_default_enemy_color :: color
  tk_enemy_color :: color
  tk_min_detect_count :: int
  tk_max_temp_lost_count :: int
  tk_detect_count :: int
  tk_temp_lost_count :: int
  tk_outpost_max_temp_lost_count :: int
  tk_normal_temp_lost_count :: int
  tk_state :: track_state
  tk_pre_state :: track_state
  tk_target :: "'e target"
  tk_last_timestamp :: int
  tk_omni_target_priority :: armor_priority

text \<open>The constructor; \<open>g\<close> is the target that nobody has initialised yet.\<close>

definition new_tracker :: "string \<Rightarrow> int \<Rightarrow> int \<Rightarrow> int \<Rightarrow> int \<Rightarrow> 'e target \<Rightarrow> 'e tracker" where
  "new_tracker enemy_color min_detect max_temp_lost outpost_max now g =
     (let c = (if enemy_color = ''red'' then Red else Blue)
      in \<lparr>tk_default_enemy_color = c, tk_enemy_color = c, tk_min_detect_count = min_detect, tk_max_temp_lost_count = max_temp_lost,
          tk_detect_count = 0, tk_temp_lost_count = 0, tk_outpost_max_temp_lost_count = outpost_max,
          tk_normal_temp_lost_count = max_temp_lost, tk_state = Lost, tk_pre_state = Lost, tk_target = g\<lparr>tg_nis_failures := [0]\<rparr>,
          tk_last_timestamp = now, tk_omni_target_priority = Fifth\<rparr>)"

definition set_enemy_color :: "color \<Rightarrow> 'e tracker \<Rightarrow> 'e tracker" where
  "set_enemy_color c k = k\<lparr>tk_enemy_color := c\<rparr>"

definition reset_enemy_color :: "'e tracker \<Rightarrow> 'e tracker" where
  "reset_enemy_color k = k\<lparr>tk_enemy_color := tk_default_enemy_color k\<rparr>"

definition state_machine :: "bool \<Rightarrow> 'e tracker \<Rightarrow> 'e tracker" where
  "state_machine found k = (case tk_state k of
     Lost \<Rightarrow> if \<not> found then k else k\<lparr>tk_state := Detecting, tk_detect_count := 1\<rparr>
   | Detecting \<Rightarrow>
       if found
       then let k = k\<lparr>tk_detect_count := tk_detect_count k + 1\<rparr>
            in if tk_detect_count k \<ge> tk_min_detect_count k then k\<lparr>tk_state := Tracking\<rparr> else k
       else k\<lparr>tk_detect_count := 0, tk_state := Lost\<rparr>
   | Tracking \<Rightarrow> if found then k else k\<lparr>tk_temp_lost_count := 1, tk_state := Temp_lost\<rparr>
   | Switching \<Rightarrow>
       if found then k\<lparr>tk_state := Detecting\<rparr>
       else let k = k\<lparr>tk_temp_lost_count := tk_temp_lost_count k + 1\<rparr>
            in if tk_temp_lost_count k > 200 then k\<lparr>tk_state := Lost\<rparr> else k
   | Temp_lost \<Rightarrow>
       if found then k\<lparr>tk_state := Tracking\<rparr>
       else let k = k\<lparr>tk_temp_lost_count := tk_temp_lost_count k + 1\<rparr>;
                k = k\<lparr>tk_max_temp_lost_count := (if tg_name (tk_target k) = Outpost then tk_outpost_max_temp_lost_count k else tk_normal_temp_lost_count k)\<rparr>
            in if tk_temp_lost_count k > tk_max_temp_lost_count k then k\<lparr>tk_state := Lost\<rparr> else k)"

definition is_balance :: "'a armor \<Rightarrow> bool" where
  "is_balance a \<longleftrightarrow> am_type a = Big \<and> (am_name a = Three \<or> am_name a = Four \<or> am_name a = Five)"

text \<open>Radius, number of plates and initial variances by the kind of robot.\<close>

definition target_for :: "('e, 'a, 'k) vision \<Rightarrow> 'a armor \<Rightarrow> int \<Rightarrow> 'e target" where
  "target_for V a t =
     (if is_balance a then new_target V a t 2000 2 [10000, 640000, 10000, 640000, 10000, 640000, 4000, 1000000, 10000, 10000, 10000]
      else if am_name a = Outpost then new_target V a t 2765 3 [10000, 640000, 10000, 640000, 10000, 810000, 4000, 1000000, 1, 0, 0]
      else if am_name a = Base then new_target V a t 3205 3 [10000, 640000, 10000, 640000, 10000, 640000, 4000, 1000000, 1, 0, 0]
      else new_target V a t 2000 4 [10000, 640000, 10000, 640000, 10000, 640000, 4000, 1000000, 10000, 10000, 10000])"

definition set_target :: "('e, 'a, 'k) vision \<Rightarrow> 'a armor list \<Rightarrow> int \<Rightarrow> 'e tracker \<Rightarrow> bool \<times> 'a armor list \<times> 'e tracker" where
  "set_target V armors t k = (case armors of
     [] \<Rightarrow> (False, [], k)
   | a # r \<Rightarrow> let a = a\<lparr>am_geometry := vi_solve V a\<rparr> in (True, a # r, k\<lparr>tk_target := target_for V a t\<rparr>))"

definition of_target :: "'e target \<Rightarrow> 'a armor \<Rightarrow> bool" where
  "of_target g a \<longleftrightarrow> \<not> (am_name a \<noteq> tg_name g \<or> am_type a \<noteq> tg_type g)"

fun update_all :: "('e, 'a, 'k :: linorder) vision \<Rightarrow> 'a armor list \<Rightarrow> 'e target \<Rightarrow> ('a armor list \<times> 'e target) option" where
  "update_all V [] g = Some ([], g)"
| "update_all V (a # r) g =
     (if \<not> of_target g a then do { (r, g) \<leftarrow> update_all V r g; Some (a # r, g) }
      else do {
        let a = a\<lparr>am_geometry := vi_solve V a\<rparr>;
        g \<leftarrow> target_update V a g;
        (r, g) \<leftarrow> update_all V r g;
        Some (a # r, g)
      })"

definition update_target :: "('e, 'a, 'k :: linorder) vision \<Rightarrow> 'a armor list \<Rightarrow> int \<Rightarrow> 'e tracker \<Rightarrow> (bool \<times> 'a armor list \<times> 'e tracker) option" where
  "update_target V armors t k =
     (let g = target_predict V t (tk_target k);
          found_count = length (filter (of_target g) armors)
      in if found_count = 0 then Some (False, armors, k\<lparr>tk_target := g\<rparr>)
         else do { (armors, g) \<leftarrow> update_all V armors g; Some (True, armors, k\<lparr>tk_target := g\<rparr>) })"

text \<open>More than a tenth of a second between two frames: the camera was off line.\<close>

definition check_gap :: "int \<Rightarrow> 'e tracker \<Rightarrow> 'e tracker" where
  "check_gap t k = (let dt = t - tk_last_timestamp k; k = k\<lparr>tk_last_timestamp := t\<rparr>
     in if tk_state k \<noteq> Lost \<and> dt > 100000000 then k\<lparr>tk_state := Lost\<rparr> else k)"

text \<open>Two stable sorts: by the distance from the centre of the image, then by priority.\<close>

definition sort_armors :: "('e, 'a, 'k :: linorder) vision \<Rightarrow> 'a armor list \<Rightarrow> 'a armor list" where
  "sort_armors V armors = sort_key am_priority (sort_key (\<lambda>a. vi_from_center V (am_geometry a)) armors)"

text \<open>Forty per cent of the window.\<close>

definition bad_converge :: "'e target \<Rightarrow> bool" where
  "bad_converge g \<longleftrightarrow> 10 * sum_list (tg_nis_failures g) \<ge> 4 * nis_window"

definition track ::
  "('e, 'a, 'k :: linorder) vision \<Rightarrow> 'a armor list \<Rightarrow> int \<Rightarrow> bool \<Rightarrow> 'e tracker \<Rightarrow> ('e target list \<times> 'a armor list \<times> 'e tracker) option" where
  "track V armors t use_enemy_color k = do {
     let k = check_gap t k;
     let armors = (if use_enemy_color then filter (\<lambda>a. \<not> am_color a \<noteq> tk_enemy_color k) armors else armors);
     let armors = sort_armors V armors;
     (found, armors, k) \<leftarrow> (if tk_state k = Lost then Some (set_target V armors t k) else update_target V armors t k);
     let k = state_machine found k;
     if tk_state k \<noteq> Lost \<and> target_diverged V (tk_target k) then Some ([], armors, k\<lparr>tk_state := Lost\<rparr>)
     else if bad_converge (tk_target k) then Some ([], armors, k\<lparr>tk_state := Lost\<rparr>)
     else if tk_state k = Lost then Some ([], armors, k)
     else Some ([tk_target k], armors, k)
   }"

text \<open>The second form of \<^verbatim>\<open>track\<close>, which also looks at the other cameras.\<close>

record ('a, 'k) detection_result =
  dr_armors :: "'a armor list"
  dr_timestamp :: int
  dr_delta_yaw :: 'k
  dr_delta_pitch :: 'k

definition omni_find ::
  "('e, 'a, 'k :: linorder) vision \<Rightarrow> ('a, 'k) detection_result \<Rightarrow> 'a armor list \<Rightarrow> int \<Rightarrow> 'e tracker \<Rightarrow>
   (bool \<times> 'a armor list \<times> 'e tracker \<times> ('a, 'k) detection_result) option" where
  "omni_find V temp armors t k =
     (let none = \<lparr>dr_armors = [], dr_timestamp = t, dr_delta_yaw = vi_zero V, dr_delta_pitch = vi_zero V\<rparr>;
          keep = (\<lambda>(found, armors, k). (found, armors, k, none))
      in if tk_state k = Lost then Some (keep (set_target V armors t k))
         else if tk_state k = Tracking \<and> armors \<noteq> [] \<and> am_priority (hd armors) < tg_priority (tk_target k)
           then Some (keep (set_target V armors t k))
         else
           let wanted = (tk_state k = Tracking \<and> dr_armors temp \<noteq> [] \<and> am_priority (hd (dr_armors temp)) < tg_priority (tk_target k));
               (converged, g) = (if wanted then target_convergened V (tk_target k) else (False, tk_target k));
               k = k\<lparr>tk_target := g\<rparr>
           in if wanted \<and> converged
              then Some (False, armors, k\<lparr>tk_state := Switching, tk_omni_target_priority := am_priority (hd (dr_armors temp))\<rparr>,
                     \<lparr>dr_armors = dr_armors temp, dr_timestamp = t, dr_delta_yaw = dr_delta_yaw temp, dr_delta_pitch = dr_delta_pitch temp\<rparr>)
              else if tk_state k = Switching
                then Some (armors \<noteq> [] \<and> am_priority (hd armors) = tk_omni_target_priority k, armors, k, none)
              else if tk_state k = Detecting \<and> tk_pre_state k = Switching then Some (keep (set_target V armors t k))
              else map_option keep (update_target V armors t k))"

definition track_omni ::
  "('e, 'a, 'k :: linorder) vision \<Rightarrow> ('a, 'k) detection_result list \<Rightarrow> 'a armor list \<Rightarrow> int \<Rightarrow> 'e tracker \<Rightarrow>
   (('a, 'k) detection_result \<times> 'e target list \<times> 'a armor list \<times> 'e tracker) option" where
  "track_omni V detections armors t k = do {
     let temp = (case detections of [] \<Rightarrow> \<lparr>dr_armors = [], dr_timestamp = t, dr_delta_yaw = vi_zero V, dr_delta_pitch = vi_zero V\<rparr> | d # _ \<Rightarrow> d);
     let k = check_gap t k;
     let armors = sort_armors V armors;
     (found, armors, k, switch_target) \<leftarrow> omni_find V temp armors t k;
     let k = k\<lparr>tk_pre_state := tk_state k\<rparr>;
     let k = state_machine found k;
     if tk_state k \<noteq> Lost \<and> target_diverged V (tk_target k) then Some (switch_target, [], armors, k\<lparr>tk_state := Lost\<rparr>)
     else if tk_state k = Lost then Some (switch_target, [], armors, k)
     else Some (switch_target, [tk_target k], armors, k)
   }"

section \<open>Selection\<close>

lemma sort_armors_set [simp]: "set (sort_armors V xs) = set xs"
  by (simp add: sort_armors_def)

lemma sort_armors_first:
  assumes "sort_armors V xs = a # r" and "b \<in> set xs"
  shows "am_priority a < am_priority b \<or>
    am_priority a = am_priority b \<and> vi_from_center V (am_geometry a) \<le> vi_from_center V (am_geometry b)"
proof -
  let ?d = "\<lambda>a. vi_from_center V (am_geometry a)" and ?p = "\<lambda>x. am_priority x = am_priority a"
  define ys where "ys = sort_key ?d xs"
  have zs: "sort_key am_priority ys = a # r" using assms(1) by (simp add: sort_armors_def ys_def)
  have "sorted (map am_priority (a # r))" unfolding zs [symmetric] by simp
  moreover have b: "b \<in> set (a # r)" unfolding zs [symmetric] using assms(2) by (simp add: ys_def)
  ultimately have le: "am_priority a \<le> am_priority b" by auto
  have "a # filter ?p r = filter ?p (sort_key am_priority ys)" by (simp add: zs)
  also have "\<dots> = filter ?p ys" by (rule sort_key_stable)
  finally have f: "filter ?p ys = a # filter ?p r" ..
  have "sorted (map ?d (filter ?p ys))" by (simp add: ys_def sorted_filter)
  then have "?d a \<le> ?d b" if "am_priority b = am_priority a"
    using that b unfolding f by auto
  then show ?thesis using le by (metis antisym_conv2)
qed

lemma check_gap_lost: "tk_state k = Lost \<Longrightarrow> check_gap t k = k\<lparr>tk_last_timestamp := t\<rparr>"
  by (simp add: check_gap_def Let_def)

text \<open>
  C32. What a lost tracker picks: it always returns, and if the frame shows a plate of the enemy colour the new target is made for one of them that
  no other precedes, first by priority, then by the distance from the centre of the image; plates of other colours are never picked.
  Without an enemy plate nothing is reported and the tracker stays lost.
\<close>

theorem tracker_selects_enemy:
  assumes "tk_state k = Lost"
  shows "\<exists>gs as k'. track V armors t True k = Some (gs, as, k') \<and>
    (if \<exists>b \<in> set armors. am_color b = tk_enemy_color k
     then \<exists>a \<in> set armors. am_color a = tk_enemy_color k \<and> tk_target k' = target_for V (a\<lparr>am_geometry := vi_solve V a\<rparr>) t \<and>
       (\<forall>b \<in> set armors. am_color b = tk_enemy_color k \<longrightarrow> am_priority a < am_priority b \<or>
          am_priority a = am_priority b \<and> vi_from_center V (am_geometry a) \<le> vi_from_center V (am_geometry b))
     else gs = [] \<and> tk_state k' = Lost \<and> tk_target k' = tk_target k)"
proof -
  let ?f = "\<lambda>a. am_color a = tk_enemy_color k"
  let ?xs = "sort_armors V (filter ?f armors)"
  have set: "set ?xs = {a \<in> set armors. ?f a}" by auto
  show ?thesis
  proof (cases ?xs)
    case Nil
    with set have "\<not> (\<exists>b \<in> set armors. ?f b)" by auto
    then show ?thesis
      using assms Nil by (simp add: track_def check_gap_lost set_target_def state_machine_def Let_def)
  next
    case (Cons a r)
    have a: "a \<in> set armors" "?f a" using set unfolding Cons by auto
    have "am_priority a < am_priority b \<or> am_priority a = am_priority b \<and> vi_from_center V (am_geometry a) \<le> vi_from_center V (am_geometry b)"
      if "b \<in> set armors" "?f b" for b using sort_armors_first [OF Cons, of b] that by simp
    with a show ?thesis
      using assms Cons by (auto simp: track_def check_gap_lost set_target_def state_machine_def Let_def)
  qed
qed

section \<open>States\<close>

text \<open>
  Confirmation: from a lost tracker, frames that all show the target give tracking exactly from the configured number of frames on, and not before the
  second frame.
\<close>

theorem tracker_confirms:
  assumes "tk_state k = Lost" and "0 < n"
  shows "tk_state ((state_machine True ^^ n) k) = (if int n < max 2 (tk_min_detect_count k) then Detecting else Tracking)"
proof -
  have "\<exists>k'. (state_machine True ^^ Suc m) k = k' \<and> tk_min_detect_count k' = tk_min_detect_count k \<and>
      (if int (Suc m) < max 2 (tk_min_detect_count k) then tk_state k' = Detecting \<and> tk_detect_count k' = int (Suc m) else tk_state k' = Tracking)" for m
  proof (induction m)
    case 0
    then show ?case using assms(1) by (simp add: state_machine_def)
  next
    case (Suc m)
    then show ?case by (auto simp: state_machine_def Let_def split: if_splits)
  qed
  then show ?thesis using assms(2) by (cases n) (fastforce split: if_splits)+
qed

text \<open>The number of missed frames that the tracker bears.\<close>

definition temp_lost_limit :: "'e tracker \<Rightarrow> int" where
  "temp_lost_limit k = (if tg_name (tk_target k) = Outpost then tk_outpost_max_temp_lost_count k else tk_normal_temp_lost_count k)"

lemma state_machine_limit [simp]: "temp_lost_limit (state_machine found k) = temp_lost_limit k"
  by (simp add: state_machine_def temp_lost_limit_def Let_def split: track_state.split)

lemma miss_lost: "tk_state k = Lost \<Longrightarrow> state_machine False k = k"
  by (simp add: state_machine_def)

lemma miss_temp_lost:
  assumes "tk_state k = Temp_lost"
  shows "tk_temp_lost_count (state_machine False k) = tk_temp_lost_count k + 1"
    and "tk_state (state_machine False k) = (if tk_temp_lost_count k + 1 > temp_lost_limit k then Lost else Temp_lost)"
  using assms by (simp_all add: state_machine_def temp_lost_limit_def Let_def)

text \<open>
  Patience: a tracked target survives exactly the configured number of missed frames in a row, at least one, which is the separate number for an outpost.
\<close>

theorem tracker_survives_misses:
  assumes "tk_state k = Tracking" and "0 < n"
  shows "tk_state ((state_machine False ^^ n) k) = (if int n \<le> max 1 (temp_lost_limit k) then Temp_lost else Lost)"
proof -
  have "(if int (Suc m) \<le> max 1 (temp_lost_limit k)
      then tk_state ((state_machine False ^^ Suc m) k) = Temp_lost \<and> tk_temp_lost_count ((state_machine False ^^ Suc m) k) = int (Suc m)
      else tk_state ((state_machine False ^^ Suc m) k) = Lost) \<and> temp_lost_limit ((state_machine False ^^ Suc m) k) = temp_lost_limit k" for m
  proof (induction m)
    case 0
    have "state_machine False k = k\<lparr>tk_temp_lost_count := 1, tk_state := Temp_lost\<rparr>" using assms(1) by (simp add: state_machine_def)
    then show ?case by (simp add: temp_lost_limit_def)
  next
    case (Suc m)
    obtain K where K: "(state_machine False ^^ Suc m) k = K" by blast
    then have K': "(state_machine False ^^ Suc (Suc m)) k = state_machine False K" by simp
    show ?case using Suc.IH miss_lost [of K] miss_temp_lost [of K] unfolding K K' by (auto split: if_splits)
  qed
  then show ?thesis using assms(2) by (cases n) (auto split: if_splits simp del: funpow.simps)
qed

text \<open>
  What is reported: exactly while the tracker is not lost, a frame reports its target; a target that has diverged or failed
  forty of its last consistency tests is never reported and makes the tracker lost.
\<close>

theorem track_reports:
  assumes "track V armors t use k = Some (gs, as, k')"
  shows "gs = (if tk_state k' = Lost then [] else [tk_target k']) \<and>
    (target_diverged V (tk_target k') \<or> bad_converge (tk_target k') \<longrightarrow> tk_state k' = Lost)"
  using assms unfolding track_def Let_def by (auto split: Option.bind_splits if_splits)

section \<open>Where the tracker is defined\<close>

text \<open>What the code relies on of sorting and of the angle errors: every plate of the target stays in the vector, and errors are below the initial bound.\<close>

definition plates_sorted :: "('e, 'a, 'k :: linorder) vision \<Rightarrow> bool" where
  "plates_sorted V \<longleftrightarrow> (\<forall>e n. length (vi_order V e n) = n)"

definition errors_bounded :: "('e, 'a, 'k :: linorder) vision \<Rightarrow> bool" where
  "errors_bounded V \<longleftrightarrow> (\<forall>e n a i. vi_error V e n a i < vi_huge V)"

text \<open>An invariant of the tracker between frames of the first form of \<open>track\<close>.\<close>

definition tracker_ok :: "'e tracker \<Rightarrow> bool" where
  "tracker_ok k \<longleftrightarrow> tk_state k \<noteq> Switching \<and> (tk_state k \<noteq> Lost \<longrightarrow> 3 \<le> tg_armor_num (tk_target k)) \<and>
     length (tg_nis_failures (tk_target k)) \<le> nis_window"

lemma target_update_defined:
  assumes "plates_sorted V" and "errors_bounded V" and "3 \<le> tg_armor_num g"
  shows "\<exists>g'. target_update V a g = Some g' \<and> tg_armor_num g' = tg_armor_num g \<and>
    (length (tg_nis_failures g) \<le> nis_window \<longrightarrow> length (tg_nis_failures g') \<le> nis_window)"
proof -
  let ?o = "vi_order V (tg_ekf g) (tg_armor_num g)" and ?e = "vi_error V (tg_ekf g) (tg_armor_num g) a"
  have "length ?o = tg_armor_num g" using assms(1) by (simp add: plates_sorted_def)
  moreover have "?e i < vi_huge V" for i using assms(2) by (simp add: errors_bounded_def)
  ultimately have "\<exists>i. match_loop ?e ?o [0, 1, 2] None (vi_huge V) = Some (Some i)" using assms(3) by simp
  then obtain i where "match_loop ?e ?o [0, 1, 2] None (vi_huge V) = Some (Some i)" ..
  then have "\<exists>g' failed. target_update V a g = Some g' \<and> tg_armor_num g' = tg_armor_num g \<and> tg_nis_failures g' = nis_push failed (tg_nis_failures g)"
    unfolding target_update_def by (simp add: Let_def split_beta del: match_loop.simps) blast
  then show ?thesis by (auto simp: nis_push_def Let_def)
qed

lemma update_all_defined:
  assumes "plates_sorted V" and "errors_bounded V" and "3 \<le> tg_armor_num g" and "length (tg_nis_failures g) \<le> nis_window"
  shows "\<exists>as g'. update_all V armors g = Some (as, g') \<and> 3 \<le> tg_armor_num g' \<and> length (tg_nis_failures g') \<le> nis_window"
  using assms(3,4)
proof (induction armors arbitrary: g)
  case (Cons a r)
  obtain g' where "target_update V (a\<lparr>am_geometry := vi_solve V a\<rparr>) g = Some g'" "3 \<le> tg_armor_num g'" "length (tg_nis_failures g') \<le> nis_window"
    using target_update_defined [OF assms(1,2) Cons.prems(1), of "a\<lparr>am_geometry := vi_solve V a\<rparr>"] Cons.prems by auto
  then show ?case using Cons.IH [of g] Cons.IH [of g'] Cons.prems by auto
qed simp

lemma target_predict_keeps:
  "tg_armor_num (target_predict V t g) = tg_armor_num g" "tg_nis_failures (target_predict V t g) = tg_nis_failures g"
  "tg_name (target_predict V t g) = tg_name g" "tg_type (target_predict V t g) = tg_type g"
  by (simp_all add: target_predict_def target_convergened_def Let_def split_beta)

lemma target_for_fields:
  "tg_name (target_for V a t) = am_name a" "tg_type (target_for V a t) = am_type a" "tg_nis_failures (target_for V a t) = [0]"
  "tg_armor_num (target_for V a t) = (if is_balance a then 2 else if am_name a = Outpost \<or> am_name a = Base then 3 else 4)"
  by (simp_all add: target_for_def new_target_def)

lemma state_machine_keeps:
  "tk_target (state_machine f k) = tk_target k" "tk_state k \<noteq> Switching \<Longrightarrow> tk_state (state_machine f k) \<noteq> Switching"
  by (simp_all add: state_machine_def Let_def split: track_state.split)

lemma find_step_ok:
  assumes "plates_sorted V" and "errors_bounded V" and "\<forall>a \<in> set armors. \<not> is_balance a" and "tracker_ok k"
  shows "\<exists>found as k'. (if tk_state k = Lost then Some (set_target V armors t k) else update_target V armors t k) = Some (found, as, k') \<and>
    tk_state k' = tk_state k \<and> (tk_state k \<noteq> Lost \<or> found \<longrightarrow> 3 \<le> tg_armor_num (tk_target k')) \<and>
    length (tg_nis_failures (tk_target k')) \<le> nis_window"
proof (cases "tk_state k = Lost")
  case True
  have b: "is_balance (a\<lparr>am_geometry := x\<rparr>) = is_balance a" for a :: "'b armor" and x by (simp add: is_balance_def)
  show ?thesis
    using True assms(3,4) b by (auto simp: set_target_def Let_def target_for_fields tracker_ok_def nis_window_def split: list.split)
next
  case False
  let ?g = "target_predict V t (tk_target k)"
  have g: "3 \<le> tg_armor_num ?g" "length (tg_nis_failures ?g) \<le> nis_window"
    using False assms(4) by (simp_all add: tracker_ok_def target_predict_keeps)
  from update_all_defined [OF assms(1,2) g, of armors] obtain as g' where
    "update_all V armors ?g = Some (as, g')" "3 \<le> tg_armor_num g'" "length (tg_nis_failures g') \<le> nis_window" by blast
  then show ?thesis using False g by (auto simp: update_target_def Let_def)
qed

text \<open>A sequence of frames: plates, time, and whether only the enemy colour counts.\<close>

fun track_run ::
  "('e, 'a, 'k :: linorder) vision \<Rightarrow> ('a armor list \<times> int \<times> bool) list \<Rightarrow> 'e tracker \<Rightarrow> 'e tracker option" where
  "track_run V [] k = Some k"
| "track_run V ((armors, t, use) # r) k = do { (_, _, k) \<leftarrow> track V armors t use k; track_run V r k }"

lemma track_ok:
  assumes "plates_sorted V" and "errors_bounded V" and "\<forall>a \<in> set armors. \<not> is_balance a" and "tracker_ok k"
  shows "\<exists>gs as k'. track V armors t use k = Some (gs, as, k') \<and> tracker_ok k'"
proof -
  let ?k = "check_gap t k"
  define xs where "xs = sort_armors V (if use then filter (\<lambda>a. \<not> am_color a \<noteq> tk_enemy_color ?k) armors else armors)"
  have k: "tracker_ok ?k" using assms(4) by (simp add: tracker_ok_def check_gap_def Let_def)
  have "\<forall>a \<in> set xs. \<not> is_balance a" using assms(3) by (simp add: xs_def)
  from find_step_ok [OF assms(1,2) this k, of t] obtain found as k1 where
    f: "(if tk_state ?k = Lost then Some (set_target V xs t ?k) else update_target V xs t ?k) = Some (found, as, k1)"
    and k1: "tk_state k1 = tk_state ?k" "tk_state ?k \<noteq> Lost \<or> found \<longrightarrow> 3 \<le> tg_armor_num (tk_target k1)" "length (tg_nis_failures (tk_target k1)) \<le> nis_window"
    by blast
  have "tk_state (state_machine found k1) \<noteq> Lost \<longrightarrow> tk_state ?k \<noteq> Lost \<or> found" using k1(1) miss_lost [of k1] by (cases found) auto
  then have "tracker_ok (state_machine found k1)"
    using k1 k state_machine_keeps [where k = k1] by (auto simp: tracker_ok_def)
  then have "tracker_ok (state_machine found k1)" "tracker_ok ((state_machine found k1)\<lparr>tk_state := Lost\<rparr>)" by (simp_all add: tracker_ok_def)
  then show ?thesis using f unfolding track_def Let_def xs_def by auto
qed


lemma match_two: "length order = 2 \<Longrightarrow> match_loop err order [0, 1, 2] best m = None"
  by simp

text \<open>
  Balance infantry is not handled: a lost tracker that sees a big plate three, four or five makes a target with two plates, and if the next frame
  shows this plate again, matching it reads the third of two plates, outside the vector.
\<close>

theorem balance_update_undefined:
  assumes "plates_sorted V" and "tk_state k = Lost" and "is_balance a" and "t2 - t1 \<le> 100000000"
    and "\<not> target_diverged V (target_for V (a\<lparr>am_geometry := vi_solve V a\<rparr>) t1)"
  shows "\<exists>g as k'. track V [a] t1 False k = Some ([g], as, k') \<and> tg_armor_num g = 2 \<and> track V [a] t2 False k' = None"
proof -
  let ?g = "target_for V (a\<lparr>am_geometry := vi_solve V a\<rparr>) t1"
  let ?k = "k\<lparr>tk_last_timestamp := t1, tk_target := ?g, tk_state := Detecting, tk_detect_count := 1\<rparr>"
  have b: "is_balance (a\<lparr>am_geometry := x\<rparr>)" for x using assms(3) by (simp add: is_balance_def)
  have s: "sort_armors V [a] = [a]" by (simp add: sort_armors_def)
  have n: "\<not> bad_converge ?g" by (simp add: bad_converge_def target_for_fields nis_window_def)
  have one: "track V [a] t1 False k = Some ([?g], [a\<lparr>am_geometry := vi_solve V a\<rparr>], ?k)"
    using assms(2,5) n s by (simp add: track_def check_gap_lost set_target_def state_machine_def Let_def)
  let ?p = "target_predict V t2 ?g"
  have p: "tg_armor_num ?p = 2" "of_target ?p a" using b by (simp_all add: target_predict_keeps target_for_fields of_target_def)
  have "length (vi_order V (tg_ekf ?p) 2) = 2" using assms(1) by (simp add: plates_sorted_def)
  then have "target_update V x ?p = None" for x unfolding target_update_def p(1) by (simp only: match_two bind.simps)
  then have "update_target V [a] t2 (?k\<lparr>tk_last_timestamp := t2\<rparr>) = None" using p(2) by (simp add: update_target_def Let_def)
  moreover have "check_gap t2 ?k = ?k\<lparr>tk_last_timestamp := t2\<rparr>" using assms(4) by (simp add: check_gap_def Let_def)
  ultimately have "track V [a] t2 False ?k = None" using s by (simp add: track_def Let_def)
  then show ?thesis using one b by (auto simp: target_for_fields)
qed

section \<open>A tracker over whole numbers\<close>

definition toy_vision :: "(int, int, int) vision" where
  "toy_vision = \<lparr>vi_init = (\<lambda>a r p. r), vi_predict = (\<lambda>dt v1 v2 e. e), vi_fast_spin = (\<lambda>e. False), vi_limit_spin = (\<lambda>e. e), vi_r_ok = (\<lambda>e. True),
     vi_l_ok = (\<lambda>e. True), vi_order = (\<lambda>e n. [0..<n]), vi_error = (\<lambda>e n a i. int i mod 9), vi_huge = 100, vi_update = (\<lambda>n a i e. (e, False)),
     vi_solve = am_geometry, vi_from_center = (\<lambda>g. \<bar>g\<bar>), vi_zero = 0\<rparr>"

definition plate :: "color \<Rightarrow> armor_type \<Rightarrow> armor_name \<Rightarrow> armor_priority \<Rightarrow> int \<Rightarrow> int armor" where
  "plate c ty n p x = \<lparr>am_color = c, am_type = ty, am_name = n, am_priority = p, am_geometry = x\<rparr>"

definition idle_tracker :: "int tracker" where
  "idle_tracker = new_tracker ''red'' 5 15 75 0 (new_target toy_vision (plate Red Small One Fifth 0) 0 0 4 [])"

lemma toy_ok: "plates_sorted toy_vision" "errors_bounded toy_vision" "tracker_ok idle_tracker" "tk_state idle_tracker = Lost" "tk_enemy_color idle_tracker = Red"
  "tk_min_detect_count idle_tracker = 5"
proof -
  show "errors_bounded toy_vision"
    unfolding errors_bounded_def toy_vision_def by (simp add: order_less_trans [OF pos_mod_bound])
qed (simp_all add: plates_sorted_def toy_vision_def tracker_ok_def idle_tracker_def new_tracker_def Let_def nis_window_def)

theorem tracker_selects_enemy_witness:
  "\<exists>gs as k'. track toy_vision [plate Blue Small One First 0, plate Red Small Three Second 7] 10 True idle_tracker = Some (gs, as, k') \<and>
     tg_name (tk_target k') = Three"
proof -
  have "\<exists>b \<in> set [plate Blue Small One First 0, plate Red Small Three Second 7]. am_color b = Red" by (simp add: plate_def)
  then show ?thesis
    using tracker_selects_enemy [OF toy_ok(4), of toy_vision "[plate Blue Small One First 0, plate Red Small Three Second 7]" 10]
    unfolding toy_ok(5) by (auto simp: plate_def target_for_fields)
qed

theorem tracker_confirms_witness:
  "tk_state ((state_machine True ^^ 4) idle_tracker) = Detecting \<and> tk_state ((state_machine True ^^ 5) idle_tracker) = Tracking"
  using tracker_confirms [OF toy_ok(4), of 4] tracker_confirms [OF toy_ok(4), of 5] toy_ok(6) by simp

theorem tracker_survives_misses_witness:
  "tk_state ((state_machine False ^^ 15) (idle_tracker\<lparr>tk_state := Tracking\<rparr>)) = Temp_lost \<and>
   tk_state ((state_machine False ^^ 16) (idle_tracker\<lparr>tk_state := Tracking\<rparr>)) = Lost"
proof -
  have "temp_lost_limit (idle_tracker\<lparr>tk_state := Tracking\<rparr>) = 15"
    by (simp add: temp_lost_limit_def idle_tracker_def new_tracker_def new_target_def plate_def Let_def)
  then show ?thesis
    using tracker_survives_misses [of "idle_tracker\<lparr>tk_state := Tracking\<rparr>" 15] tracker_survives_misses [of "idle_tracker\<lparr>tk_state := Tracking\<rparr>" 16] by simp
qed

theorem track_reports_witness:
  "\<exists>gs as k'. track toy_vision [plate Red Small Three Second 7] 10 True idle_tracker = Some (gs, as, k') \<and>
     gs = (if tk_state k' = Lost then [] else [tk_target k'])"
proof -
  have "\<exists>gs as k'. track toy_vision [plate Red Small Three Second 7] 10 True idle_tracker = Some (gs, as, k')"
    using track_ok [OF toy_ok(1,2) _ toy_ok(3), of "[plate Red Small Three Second 7]" 10 True] by (auto simp: plate_def is_balance_def)
  then show ?thesis using track_reports by blast
qed


theorem balance_update_undefined_witness:
  "\<exists>g as k'. track toy_vision [plate Red Big Four First 7] 10 False idle_tracker = Some ([g], as, k') \<and> tg_armor_num g = 2 \<and>
     track toy_vision [plate Red Big Four First 7] 20 False k' = None"
  by (rule balance_update_undefined [OF toy_ok(1,4)]) (simp_all add: plate_def is_balance_def target_diverged_def toy_vision_def)

end
