(* ===== verification/Math_Tools.thy ===== *)
theory Math_Tools
  imports Dm02_Prelude Complex_Main "HOL-Library.Signed_Division"
begin

text \<open>
  The numeric tools of the aiming program, \<^verbatim>\<open>tools/math_tools.cpp\<close> and \<^verbatim>\<open>tools/trajectory.cpp\<close>.

  Doubles are the values of an ordered field \<open>'k\<close>: rounding, infinities and values that are not numbers are left out, and a
  division by zero, whose result is one of these, is \<open>None\<close>. The functions of the C mathematics library are the fields of a record \<open>libm\<close>, so that the
  definitions can be evaluated with any of them; \<open>real_libm\<close> has the real functions, for the theorems on geometry.
\<close>

section \<open>Operations\<close>

record 'k libm =
  lm_pi :: 'k
  lm_sqrt :: "'k \<Rightarrow> 'k"
  lm_pow :: "'k \<Rightarrow> 'k \<Rightarrow> 'k"
  lm_sin :: "'k \<Rightarrow> 'k"
  lm_cos :: "'k \<Rightarrow> 'k"
  lm_acos :: "'k \<Rightarrow> 'k"
  lm_atan :: "'k \<Rightarrow> 'k"
  lm_atan2 :: "'k \<Rightarrow> 'k \<Rightarrow> 'k"

type_synonym 'k vec3 = "'k \<times> 'k \<times> 'k"
type_synonym 'k mat3 = "'k vec3 \<times> 'k vec3 \<times> 'k vec3"

definition fdiv :: "'k :: linordered_field \<Rightarrow> 'k \<Rightarrow> 'k option" where
  "fdiv x y = (if y = 0 then None else Some (x / y))"

text \<open>The two loops of \<open>limit_rad\<close>.\<close>

partial_function (option) limit_down :: "('k :: linordered_field) libm \<Rightarrow> 'k \<Rightarrow> 'k option" where
  "limit_down M angle = (if angle > lm_pi M then limit_down M (angle - 2 * lm_pi M) else Some angle)"

partial_function (option) limit_up :: "('k :: linordered_field) libm \<Rightarrow> 'k \<Rightarrow> 'k option" where
  "limit_up M angle = (if angle \<le> - lm_pi M then limit_up M (angle + 2 * lm_pi M) else Some angle)"

definition limit_rad :: "('k :: linordered_field) libm \<Rightarrow> 'k \<Rightarrow> 'k option" where
  "limit_rad M angle = do { angle \<leftarrow> limit_down M angle; limit_up M angle }"

definition rotation_matrix :: "('k :: linordered_field) libm \<Rightarrow> 'k vec3 \<Rightarrow> 'k mat3" where
  "rotation_matrix M = (\<lambda>(yaw, pitch, roll).
     let cos_yaw = lm_cos M yaw; sin_yaw = lm_sin M yaw; cos_pitch = lm_cos M pitch; sin_pitch = lm_sin M pitch;
         cos_roll = lm_cos M roll; sin_roll = lm_sin M roll
     in ((cos_yaw * cos_pitch, cos_yaw * sin_pitch * sin_roll - sin_yaw * cos_roll, cos_yaw * sin_pitch * cos_roll + sin_yaw * sin_roll),
         (sin_yaw * cos_pitch, sin_yaw * sin_pitch * sin_roll + cos_yaw * cos_roll, sin_yaw * sin_pitch * cos_roll - cos_yaw * sin_roll),
         (- sin_pitch, cos_pitch * sin_roll, cos_pitch * cos_roll)))"

definition xyz2ypd :: "('k :: linordered_field) libm \<Rightarrow> 'k vec3 \<Rightarrow> 'k vec3" where
  "xyz2ypd M = (\<lambda>(x, y, z).
     let yaw = lm_atan2 M y x; pitch = lm_atan2 M z (lm_sqrt M (x * x + y * y)); distance = lm_sqrt M (x * x + y * y + z * z)
     in (yaw, pitch, distance))"

definition xyz2ypd_jacobian :: "('k :: linordered_field) libm \<Rightarrow> 'k vec3 \<Rightarrow> 'k mat3 option" where
  "xyz2ypd_jacobian M = (\<lambda>(x, y, z). do {
     dyaw_dx \<leftarrow> fdiv (- y) (x * x + y * y);
     dyaw_dy \<leftarrow> fdiv x (x * x + y * y);
     let dyaw_dz = 0;
     q \<leftarrow> fdiv (z * z) (x * x + y * y);
     dpitch_dx \<leftarrow> fdiv (- (x * z)) ((q + 1) * lm_pow M (x * x + y * y) (3 / 2));
     dpitch_dy \<leftarrow> fdiv (- (y * z)) ((q + 1) * lm_pow M (x * x + y * y) (3 / 2));
     dpitch_dz \<leftarrow> fdiv 1 ((q + 1) * lm_pow M (x * x + y * y) (1 / 2));
     ddistance_dx \<leftarrow> fdiv x (lm_pow M (x * x + y * y + z * z) (1 / 2));
     ddistance_dy \<leftarrow> fdiv y (lm_pow M (x * x + y * y + z * z) (1 / 2));
     ddistance_dz \<leftarrow> fdiv z (lm_pow M (x * x + y * y + z * z) (1 / 2));
     Some ((dyaw_dx, dyaw_dy, dyaw_dz), (dpitch_dx, dpitch_dy, dpitch_dz), (ddistance_dx, ddistance_dy, ddistance_dz))
   })"

definition ypd2xyz :: "('k :: linordered_field) libm \<Rightarrow> 'k vec3 \<Rightarrow> 'k vec3" where
  "ypd2xyz M = (\<lambda>(yaw, pitch, distance).
     (distance * lm_cos M pitch * lm_cos M yaw, distance * lm_cos M pitch * lm_sin M yaw, distance * lm_sin M pitch))"

definition ypd2xyz_jacobian :: "('k :: linordered_field) libm \<Rightarrow> 'k vec3 \<Rightarrow> 'k mat3" where
  "ypd2xyz_jacobian M = (\<lambda>(yaw, pitch, distance).
     let cos_yaw = lm_cos M yaw; sin_yaw = lm_sin M yaw; cos_pitch = lm_cos M pitch; sin_pitch = lm_sin M pitch;
         dx_dyaw = distance * cos_pitch * - sin_yaw; dy_dyaw = distance * cos_pitch * cos_yaw; dz_dyaw = 0;
         dx_dpitch = distance * - sin_pitch * cos_yaw; dy_dpitch = distance * - sin_pitch * sin_yaw; dz_dpitch = distance * cos_pitch;
         dx_ddistance = cos_pitch * cos_yaw; dy_ddistance = cos_pitch * sin_yaw; dz_ddistance = sin_pitch
     in ((dx_dyaw, dx_dpitch, dx_ddistance), (dy_dyaw, dy_dpitch, dy_ddistance), (dz_dyaw, dz_dpitch, dz_ddistance)))"

text \<open>Time points are counts of nanoseconds; the result is in seconds.\<close>

definition delta_seconds :: "int \<Rightarrow> int \<Rightarrow> 'k :: linordered_field" where
  "delta_seconds a b = of_int (a - b) / 10 ^ 9"

definition limit_min_max :: "'k :: linordered_field \<Rightarrow> 'k \<Rightarrow> 'k \<Rightarrow> 'k" where
  "limit_min_max input lo hi = (if input > hi then hi else if input < lo then lo else input)"

definition square :: "'k :: linordered_field \<Rightarrow> 'k" where
  "square a = a * a"

section \<open>Flight of a projectile\<close>

text \<open>Without a solution the other two fields are not initialised.\<close>

datatype 'k trajectory = Unsolvable | Solvable (fly_time: 'k) (traj_pitch: 'k)

definition gravity :: "'k :: linordered_field" where "gravity = 97833 / 10000"

definition new_trajectory :: "('k :: linordered_field) libm \<Rightarrow> 'k \<Rightarrow> 'k \<Rightarrow> 'k \<Rightarrow> 'k trajectory option" where
  "new_trajectory M v0 d h = do {
     a \<leftarrow> fdiv (gravity * d * d) (2 * v0 * v0);
     let b = - d;
     let c = a + h;
     let delta = b * b - 4 * a * c;
     if delta < 0 then Some Unsolvable
     else do {
       tan_pitch_1 \<leftarrow> fdiv (- b + lm_sqrt M delta) (2 * a);
       tan_pitch_2 \<leftarrow> fdiv (- b - lm_sqrt M delta) (2 * a);
       let pitch_1 = lm_atan M tan_pitch_1;
       let pitch_2 = lm_atan M tan_pitch_2;
       t_1 \<leftarrow> fdiv d (v0 * lm_cos M pitch_1);
       t_2 \<leftarrow> fdiv d (v0 * lm_cos M pitch_2);
       Some (Solvable (if t_1 < t_2 then t_1 else t_2) (if t_1 < t_2 then pitch_1 else pitch_2))
     }
   }"

section \<open>The real functions\<close>

definition real_atan2 :: "real \<Rightarrow> real \<Rightarrow> real" where
  "real_atan2 y x = (if x > 0 then arctan (y / x) else if x < 0 then (if y \<ge> 0 then arctan (y / x) + pi else arctan (y / x) - pi)
     else if y > 0 then pi / 2 else if y < 0 then - (pi / 2) else 0)"

definition real_libm :: "real libm" where
  "real_libm = \<lparr>lm_pi = pi, lm_sqrt = sqrt, lm_pow = (\<lambda>x e. x powr e), lm_sin = sin, lm_cos = cos, lm_acos = arccos,
     lm_atan = arctan, lm_atan2 = real_atan2\<rparr>"

lemma real_libm_sel [simp]:
  "lm_pi real_libm = pi" "lm_sqrt real_libm = sqrt" "lm_pow real_libm x e = x powr e" "lm_sin real_libm = sin" "lm_cos real_libm = cos"
  "lm_acos real_libm = arccos" "lm_atan real_libm = arctan" "lm_atan2 real_libm = real_atan2"
  by (simp_all add: real_libm_def)

lemma fdiv_Some [simp]: "y \<noteq> 0 \<Longrightarrow> fdiv x y = Some (x / y)"
  by (simp add: fdiv_def)

section \<open>Angles\<close>

lemma limit_down_real:
  "\<exists>k r. limit_down real_libm a = Some r \<and> r = a - 2 * pi * real k \<and> r \<le> pi \<and> (- pi < a \<longrightarrow> - pi < r)"
proof -
  have "a \<le> pi + 2 * pi * real n \<Longrightarrow> ?thesis" for n
  proof (induction n arbitrary: a)
    case 0
    then show ?case by (subst limit_down.simps) auto
  next
    case (Suc n)
    show ?case
    proof (cases "a > pi")
      case True
      obtain k r where "limit_down real_libm (a - 2 * pi) = Some r" "r = a - 2 * pi - 2 * pi * real k" "r \<le> pi" "- pi < r"
        using Suc.IH [of "a - 2 * pi"] Suc.prems True by (auto simp: algebra_simps)
      moreover have "limit_down real_libm a = limit_down real_libm (a - 2 * pi)" using True by (subst limit_down.simps) simp
      ultimately show ?thesis by (intro exI [of _ "Suc k"] exI [of _ r]) (simp add: algebra_simps)
    next
      case False
      then show ?thesis by (subst limit_down.simps) auto
    qed
  qed
  moreover obtain n where "(a - pi) / (2 * pi) \<le> real n" using real_arch_simple by blast
  ultimately show ?thesis by (simp add: field_simps)
qed

lemma limit_up_real:
  "a \<le> pi \<Longrightarrow> \<exists>k r. limit_up real_libm a = Some r \<and> r = a + 2 * pi * real k \<and> - pi < r \<and> r \<le> pi"
proof -
  have "- pi < a + 2 * pi * real n \<Longrightarrow> a \<le> pi \<Longrightarrow> \<exists>k r. limit_up real_libm a = Some r \<and> r = a + 2 * pi * real k \<and> - pi < r \<and> r \<le> pi" for n
  proof (induction n arbitrary: a)
    case 0
    then show ?case by (subst limit_up.simps) auto
  next
    case (Suc n)
    show ?case
    proof (cases "a \<le> - pi")
      case True
      obtain k r where "limit_up real_libm (a + 2 * pi) = Some r" "r = a + 2 * pi + 2 * pi * real k" "- pi < r" "r \<le> pi"
        using Suc.IH [of "a + 2 * pi"] Suc.prems True by (auto simp: algebra_simps)
      moreover have "limit_up real_libm a = limit_up real_libm (a + 2 * pi)" using True by (subst limit_up.simps) simp
      ultimately show ?thesis by (intro exI [of _ "Suc k"] exI [of _ r]) (simp add: algebra_simps)
    next
      case False
      then show ?thesis using Suc.prems by (subst limit_up.simps) auto
    qed
  qed
  moreover obtain n where "(- pi - a) / (2 * pi) < real n" using reals_Archimedean2 by blast
  ultimately show "a \<le> pi \<Longrightarrow> ?thesis" by (simp add: field_simps)
qed

text \<open>
  Both loops end, and the result is the angle of the half-open interval that differs from the argument by whole turns.
\<close>

theorem limit_rad_real:
  "\<exists>k :: int. \<exists>r. limit_rad real_libm a = Some r \<and> - pi < r \<and> r \<le> pi \<and> a = r + 2 * pi * of_int k"
proof -
  obtain k r where r: "limit_down real_libm a = Some r" "r = a - 2 * pi * real k" "r \<le> pi" using limit_down_real [of a] by blast
  obtain j s where "limit_up real_libm r = Some s" "s = r + 2 * pi * real j" "- pi < s" "s \<le> pi" using limit_up_real [OF r(3)] by blast
  then show ?thesis using r by (intro exI [of _ "int k - int j"] exI [of _ s]) (simp add: limit_rad_def algebra_simps)
qed

lemma limit_rad_inside: "- pi < a \<Longrightarrow> a \<le> pi \<Longrightarrow> limit_rad real_libm a = Some a"
  by (simp add: limit_rad_def limit_down.simps [of _ a] limit_up.simps [of _ a])

section \<open>Trajectories\<close>

text \<open>A projectile of speed \<open>v0\<close> at elevation \<open>p\<close> is, after the time \<open>t\<close>, at distance \<open>d\<close> and height \<open>h\<close>.\<close>

definition strikes :: "real \<Rightarrow> real \<Rightarrow> real \<Rightarrow> real \<Rightarrow> real \<Rightarrow> bool" where
  "strikes v0 p t d h \<longleftrightarrow> \<bar>p\<bar> < pi / 2 \<and> v0 * cos p * t = d \<and> v0 * sin p * t - gravity * t\<^sup>2 / 2 = h"

lemma cos_arctan_pos: "0 < cos (arctan x)"
  using arctan_bounded [of x] by (intro cos_gt_zero_pi) auto

lemma strikes_iff:
  assumes "0 < v0" "0 < d" and a: "a = gravity * d * d / (2 * v0 * v0)"
  shows "strikes v0 (arctan T) t d h \<longleftrightarrow> t = d / (v0 * cos (arctan T)) \<and> a * T\<^sup>2 - d * T + (a + h) = 0"
proof -
  define c where "c = cos (arctan T)"
  have c: "0 < c" unfolding c_def by (rule cos_arctan_pos)
  have s: "sin (arctan T) = T * c" using tan_arctan [of T] c by (simp add: tan_def c_def field_simps)
  have "(T * c)\<^sup>2 + c\<^sup>2 = 1" using sin_cos_squared_add [of "arctan T"] s by (simp add: c_def)
  then have c2: "1 / c\<^sup>2 = 1 + T\<^sup>2" using c by (simp add: field_simps power2_eq_square)
  have b: "\<bar>arctan T\<bar> < pi / 2" using arctan_bounded [of T] by auto
  have t: "v0 * c * t = d \<longleftrightarrow> t = d / (v0 * c)" using assms c by (auto simp: field_simps)
  have "v0 * (T * c) * t - gravity * t\<^sup>2 / 2 = h \<longleftrightarrow> a * T\<^sup>2 - d * T + (a + h) = 0" if "t = d / (v0 * c)"
  proof -
    have "v0 * (T * c) * t = d * T" using that assms c by simp
    moreover have "gravity * t\<^sup>2 / 2 = a * (1 / c\<^sup>2)" unfolding that a using assms c by (simp add: field_simps power2_eq_square)
    ultimately have "v0 * (T * c) * t - gravity * t\<^sup>2 / 2 - h = - (a * T\<^sup>2 - d * T + (a + h))" unfolding c2 distrib_left mult_1_right by linarith
    then show ?thesis by linarith
  qed
  then show ?thesis using b t unfolding strikes_def s c_def [symmetric] by blast
qed

lemma strikes_arctan: "strikes v0 p t d h \<Longrightarrow> arctan (tan p) = p"
  unfolding strikes_def by (intro arctan_tan) auto

lemma gravity_pos: "0 < (gravity :: real)" by (simp add: gravity_def)

lemma square_diff_iff: "u\<^sup>2 - D = 0 \<longleftrightarrow> 0 \<le> D \<and> \<bar>u\<bar> = sqrt D" for u :: real
proof
  assume "u\<^sup>2 - D = 0"
  then have "D = u\<^sup>2" by simp
  then show "0 \<le> D \<and> \<bar>u\<bar> = sqrt D" by simp
next
  assume "0 \<le> D \<and> \<bar>u\<bar> = sqrt D"
  then have "\<bar>u\<bar>\<^sup>2 = D" by simp
  then show "u\<^sup>2 - D = 0" by simp
qed

lemma quadratic_roots:
  fixes a :: real
  assumes "0 < a"
  shows "a * T\<^sup>2 - d * T + c = 0 \<longleftrightarrow>
    0 \<le> d * d - 4 * a * c \<and> (T = (d + sqrt (d * d - 4 * a * c)) / (2 * a) \<or> T = (d - sqrt (d * d - 4 * a * c)) / (2 * a))"
proof -
  let ?D = "d * d - 4 * a * c"
  have "a * T\<^sup>2 - d * T + c = 0 \<longleftrightarrow> 4 * a * (a * T\<^sup>2 - d * T + c) = 0" using assms by simp
  also have "4 * a * (a * T\<^sup>2 - d * T + c) = (2 * a * T - d)\<^sup>2 - ?D" by (simp add: algebra_simps power2_eq_square)
  also have "(2 * a * T - d)\<^sup>2 - ?D = 0 \<longleftrightarrow> 0 \<le> ?D \<and> \<bar>2 * a * T - d\<bar> = sqrt ?D"
    by (rule square_diff_iff)
  also have "\<dots> \<longleftrightarrow> 0 \<le> ?D \<and> (2 * a * T - d = sqrt ?D \<or> 2 * a * T - d = - sqrt ?D)"
    using real_sqrt_ge_zero [of ?D] by linarith
  also have "\<dots> \<longleftrightarrow> 0 \<le> ?D \<and> (T = (d + sqrt ?D) / (2 * a) \<or> T = (d - sqrt ?D) / (2 * a))"
    using assms by (auto simp: field_simps)
  finally show ?thesis .
qed

lemma trajectory_real:
  assumes "0 < v0" and "0 < d"
  shows "\<exists>j. new_trajectory real_libm v0 d h = Some j \<and> (case j of Unsolvable \<Rightarrow> \<forall>p t. \<not> strikes v0 p t d h
    | Solvable t p \<Rightarrow> strikes v0 p t d h \<and> (\<forall>p' t'. strikes v0 p' t' d h \<longrightarrow> t \<le> t'))"
proof -
  define a where a: "a = gravity * d * d / (2 * v0 * v0)"
  define D where "D = d * d - 4 * a * (a + h)"
  have "0 < a" using assms gravity_pos by (simp add: a)
  note hit = strikes_iff [OF assms a, of _ _ h, unfolded quadratic_roots [OF \<open>0 < a\<close>], folded D_def]
  define p1 p2 where p: "p1 = arctan ((d + sqrt D) / (2 * a))" "p2 = arctan ((d - sqrt D) / (2 * a))"
  define t1 t2 where t: "t1 = d / (v0 * cos p1)" "t2 = d / (v0 * cos p2)"
  have c: "cos p1 \<noteq> 0" "cos p2 \<noteq> 0" unfolding p using cos_arctan_pos by (auto simp: less_imp_neq [symmetric])
  have D: "d * d < 4 * a * (a + h) \<longleftrightarrow> D < 0" by (simp add: D_def)
  have run: "new_trajectory real_libm v0 d h =
    Some (if D < 0 then Unsolvable else Solvable (if t1 < t2 then t1 else t2) (if t1 < t2 then p1 else p2))"
    using assms \<open>0 < a\<close> c unfolding new_trajectory_def by (simp add: Let_def D a [symmetric] D_def [symmetric] p [symmetric] t [symmetric])
  have all: "0 \<le> D \<and> (p' = p1 \<and> t' = t1 \<or> p' = p2 \<and> t' = t2)" if "strikes v0 p' t' d h" for p' t'
    using that hit [of "tan p'" t'] strikes_arctan [OF that] by (auto simp: p t)
  have both: "strikes v0 p1 t1 d h" "strikes v0 p2 t2 d h" if "0 \<le> D"
    using that hit by (auto simp: p t)
  show ?thesis
  proof (cases "D < 0")
    case True
    then show ?thesis using run all by fastforce
  next
    case False
    then show ?thesis using run both all by (force simp: not_less)
  qed
qed

text \<open>
  C23. The trajectory: for a target at a positive distance the constructor answers. If it says that there is no solution, no elevation
  strikes the target at any time; otherwise its elevation strikes the target after its time of flight, and no other way to strike it is faster.
\<close>

theorem trajectory_strikes:
  assumes "0 < v0" and "0 < d"
  shows "\<exists>j. new_trajectory real_libm v0 d h = Some j \<and> (case j of Unsolvable \<Rightarrow> \<forall>p t. \<not> strikes v0 p t d h
    | Solvable t p \<Rightarrow> strikes v0 p t d h \<and> (\<forall>p' t'. strikes v0 p' t' d h \<longrightarrow> t \<le> t'))"
  using assms by (rule trajectory_real)

section \<open>Spherical coordinates\<close>

lemma atan2_upper: "0 < y \<Longrightarrow> real_atan2 y x = pi / 2 - arctan (x / y)"
  using arctan_inverse [of "x / y"] by (auto simp: real_atan2_def sgn_if divide_simps)

lemma atan2_lower: "y < 0 \<Longrightarrow> real_atan2 y x = - (pi / 2) - arctan (x / y)"
  using arctan_inverse [of "x / y"] by (auto simp: real_atan2_def sgn_if divide_simps)

lemma atan2_cos_sin:
  "sqrt (x * x + y * y) * cos (real_atan2 y x) = x" "sqrt (x * x + y * y) * sin (real_atan2 y x) = y"
proof -
  have r: "sqrt (1 + (y / x)\<^sup>2) = sqrt (x * x + y * y) / \<bar>x\<bar>" if "x \<noteq> 0"
  proof -
    have "1 + (y / x)\<^sup>2 = (x * x + y * y) / x\<^sup>2" using that by (simp add: power2_eq_square field_simps)
    then show ?thesis by (simp add: real_sqrt_divide)
  qed
  have p: "sqrt (x * x + y * y) \<noteq> 0" if "x \<noteq> 0" using that by (simp add: sum_squares_eq_zero_iff)
  have "sqrt (x * x + y * y) * cos (real_atan2 y x) = x \<and> sqrt (x * x + y * y) * sin (real_atan2 y x) = y"
    using r p by (cases x "0 :: real" rule: linorder_cases)
      (auto simp: real_atan2_def cos_arctan sin_arctan cos_diff sin_diff cos_add sin_add field_simps)
  then show "sqrt (x * x + y * y) * cos (real_atan2 y x) = x" "sqrt (x * x + y * y) * sin (real_atan2 y x) = y" by auto
qed

lemma atan2_range: "- pi < real_atan2 y x" "real_atan2 y x \<le> pi"
proof -
  have "arctan (y / x) \<le> 0" if "x < 0" "0 \<le> y" using that by (simp add: divide_nonneg_neg)
  moreover have "0 < arctan (y / x)" if "x < 0" "y < 0" using that by (simp add: divide_neg_neg)
  ultimately show "- pi < real_atan2 y x" "real_atan2 y x \<le> pi"
    using arctan_bounded [of "y / x"] pi_gt_zero by (auto simp: real_atan2_def intro: less_imp_le)
qed

lemma cos_sin_unique:
  assumes "cos a = cos b" "sin a = sin b" "- pi < a" "a \<le> pi" "- pi < b" "b \<le> pi"
  shows "a = b"
proof -
  have "cos (a - b) = 1" using assms(1,2) sin_cos_squared_add [of b] by (simp add: cos_diff power2_eq_square add.commute)
  then obtain n :: int where n: "a - b = of_int n * 2 * pi" using cos_one_2pi_int by blast
  have "\<bar>of_int n * 2 * pi\<bar> < 2 * pi" using assms n by linarith
  then have "n = 0" by (simp add: abs_mult)
  then show ?thesis using n by simp
qed

lemma polar_norm: "(r * cos a) * (r * cos a) + (r * sin a) * (r * sin a) = r * r" for r :: real
  using sin_cos_squared_add [of a] by (metis (no_types, lifting) add.commute distrib_left mult.assoc mult.left_commute mult.right_neutral power2_eq_square)

lemma atan2_polar:
  assumes "0 < r" "- pi < a" "a \<le> pi"
  shows "real_atan2 (r * sin a) (r * cos a) = a"
proof -
  have "sqrt ((r * cos a) * (r * cos a) + (r * sin a) * (r * sin a)) = r" unfolding polar_norm using assms(1) by simp
  then have "cos (real_atan2 (r * sin a) (r * cos a)) = cos a" "sin (real_atan2 (r * sin a) (r * cos a)) = sin a"
    using atan2_cos_sin [of "r * cos a" "r * sin a"] assms(1) by auto
  then show ?thesis using cos_sin_unique assms atan2_range by blast
qed

text \<open>
  Spherical coordinates: the angles and the distance of a point give the point back, and for a positive
  distance, a yaw of the half-open interval and a pitch strictly between the poles they are the ones that the point was made of.
\<close>

theorem spherical_roundtrip:
  "ypd2xyz real_libm (xyz2ypd real_libm v) = v \<and>
   (- pi < yaw \<and> yaw \<le> pi \<and> \<bar>pitch\<bar> < pi / 2 \<and> 0 < distance \<longrightarrow>
     xyz2ypd real_libm (ypd2xyz real_libm (yaw, pitch, distance)) = (yaw, pitch, distance))"
proof
  obtain x y z where v: "v = (x, y, z)" by (metis surj_pair)
  define r where "r = sqrt (x * x + y * y)"
  have r: "r * r = x * x + y * y" by (simp add: r_def)
  show "ypd2xyz real_libm (xyz2ypd real_libm v) = v"
    using atan2_cos_sin [of x y] atan2_cos_sin [of r z]
    by (simp add: v xyz2ypd_def ypd2xyz_def Let_def r_def [symmetric] r)
next
  show "- pi < yaw \<and> yaw \<le> pi \<and> \<bar>pitch\<bar> < pi / 2 \<and> 0 < distance \<longrightarrow>
     xyz2ypd real_libm (ypd2xyz real_libm (yaw, pitch, distance)) = (yaw, pitch, distance)"
  proof
    assume *: "- pi < yaw \<and> yaw \<le> pi \<and> \<bar>pitch\<bar> < pi / 2 \<and> 0 < distance"
    define r where "r = distance * cos pitch"
    have "0 < cos pitch" using * by (intro cos_gt_zero_pi) auto
    then have r: "0 < r" using * by (simp add: r_def)
    have "r * r + distance * sin pitch * (distance * sin pitch) = distance * distance"
      using polar_norm [of distance pitch] by (simp add: r_def)
    moreover have "real_atan2 (distance * sin pitch) r = pitch" unfolding r_def using * by (intro atan2_polar) auto
    moreover have "real_atan2 (r * sin yaw) (r * cos yaw) = yaw" using * r by (intro atan2_polar) auto
    ultimately show "xyz2ypd real_libm (ypd2xyz real_libm (yaw, pitch, distance)) = (yaw, pitch, distance)"
      using * r by (simp add: xyz2ypd_def ypd2xyz_def Let_def r_def [symmetric] polar_norm)
  qed
qed

section \<open>Jacobians\<close>

definition curve_deriv :: "(real \<Rightarrow> real vec3) \<Rightarrow> real vec3 \<Rightarrow> real \<Rightarrow> bool" where
  "curve_deriv f = (\<lambda>(u, v, w) s. ((\<lambda>s. fst (f s)) has_real_derivative u) (at s) \<and>
     ((\<lambda>s. fst (snd (f s))) has_real_derivative v) (at s) \<and> ((\<lambda>s. snd (snd (f s))) has_real_derivative w) (at s))"

definition vec_dot :: "('k :: linordered_field) vec3 \<Rightarrow> 'k vec3 \<Rightarrow> 'k" where
  "vec_dot = (\<lambda>(a, b, c) (x, y, z). a * x + b * y + c * z)"

definition mat_vec :: "('k :: linordered_field) mat3 \<Rightarrow> 'k vec3 \<Rightarrow> 'k vec3" where
  "mat_vec = (\<lambda>(r1, r2, r3) v. (vec_dot r1 v, vec_dot r2 v, vec_dot r3 v))"

lemma DERIV_nhds_pos:
  assumes "(X has_real_derivative x') (at s)" "0 < X s"
  shows "\<forall>\<^sub>F s in nhds s. 0 < X s"
  using DERIV_isCont [OF assms(1)] assms(2) by (auto simp: isCont_def eventually_nhds_conv_at intro: order_tendstoD)

lemma arctan_quotient_deriv:
  assumes U: "(U has_real_derivative u') (at s)" and V: "(V has_real_derivative v') (at s)" and "U s \<noteq> 0"
  shows "((\<lambda>s. arctan (V s / U s)) has_real_derivative (U s * v' - V s * u') / (U s * U s + V s * V s)) (at s)"
proof -
  have "1 + (V s / U s)\<^sup>2 = (U s * U s + V s * V s) / (U s * U s)" using assms(3) by (simp add: field_simps power2_eq_square)
  then have "inverse (1 + (V s / U s)\<^sup>2) * ((v' * U s - V s * u') / (U s * U s)) = (U s * v' - V s * u') / (U s * U s + V s * V s)"
    using assms(3) by (simp add: mult.commute)
  then show ?thesis by (rule DERIV_cong [OF DERIV_chain2 [OF DERIV_arctan DERIV_divide [OF V U assms(3)]]])
qed

lemma atan2_deriv:
  assumes X: "(X has_real_derivative x') (at s)" and Y: "(Y has_real_derivative y') (at s)" and cut: "0 < X s \<or> Y s \<noteq> 0"
  shows "((\<lambda>s. real_atan2 (Y s) (X s)) has_real_derivative (X s * y' - Y s * x') / (X s * X s + Y s * Y s)) (at s)"
proof -
  have transfer: "((\<lambda>s. real_atan2 (Y s) (X s)) has_real_derivative d) (at s)"
    if "(g has_real_derivative d) (at s)" "\<forall>\<^sub>F s in nhds s. real_atan2 (Y s) (X s) = g s" for g d
    using that DERIV_cong_ev [OF refl that(2) refl, of d] by simp
  consider "0 < X s" | "0 < Y s" | "Y s < 0" using cut by linarith
  then show ?thesis
  proof cases
    case 1
    have "((\<lambda>s. arctan (Y s / X s)) has_real_derivative (X s * y' - Y s * x') / (X s * X s + Y s * Y s)) (at s)"
      using arctan_quotient_deriv [OF X Y] 1 by simp
    then show ?thesis using DERIV_nhds_pos [OF X 1] by (intro transfer) (auto elim!: eventually_mono simp: real_atan2_def)
  next
    case 2
    have "((\<lambda>s. pi / 2 - arctan (X s / Y s)) has_real_derivative (X s * y' - Y s * x') / (X s * X s + Y s * Y s)) (at s)"
      using 2 by (intro DERIV_cong [OF DERIV_diff [OF DERIV_const arctan_quotient_deriv [OF Y X]]]) (auto simp: diff_divide_distrib add.commute)
    then show ?thesis using DERIV_nhds_pos [OF Y 2] by (intro transfer) (auto elim!: eventually_mono simp: atan2_upper)
  next
    case 3
    have "((\<lambda>s. - (pi / 2) - arctan (X s / Y s)) has_real_derivative (X s * y' - Y s * x') / (X s * X s + Y s * Y s)) (at s)"
      using 3 by (intro DERIV_cong [OF DERIV_diff [OF DERIV_const arctan_quotient_deriv [OF Y X]]]) (auto simp: diff_divide_distrib add.commute)
    then show ?thesis using DERIV_nhds_pos [OF DERIV_minus [OF Y]] 3 by (intro transfer) (auto elim!: eventually_mono simp: atan2_lower)
  qed
qed

lemma sqrt_sum_deriv:
  assumes "(F has_real_derivative f') (at s)" "f' = 2 * g" "0 < F s"
  shows "((\<lambda>s. sqrt (F s)) has_real_derivative g / sqrt (F s)) (at s)"
  using assms by (auto intro!: derivative_eq_intros simp: field_simps)

lemma powr_three_halves: "0 < q \<Longrightarrow> q powr (3 / 2) = q * sqrt q" for q :: real
  using powr_add [of q 1 "1 / 2"] by (simp add: powr_half_sqrt)

lemma xyz2ypd_jacobian_real:
  fixes x y z :: real
  assumes "0 < x * x + y * y"
  defines "r \<equiv> sqrt (x * x + y * y)" and "d \<equiv> sqrt (x * x + y * y + z * z)"
  shows "xyz2ypd_jacobian real_libm (x, y, z) = Some ((- y / (r * r), x / (r * r), 0),
    (- (x * z) / (d * d * r), - (y * z) / (d * d * r), r / (d * d)), (x / d, y / d, z / d))"
proof -
  have r: "0 < r" "x * x + y * y = r * r" and d: "0 < d" "r * r + z * z = d * d"
    using assms(1) by (simp_all add: r_def d_def add_pos_nonneg)
  have q: "z * z / (r * r) + 1 = d * d / (r * r)" using r d by (simp add: field_simps)
  have p: "(r * r) powr (3 / 2) = r * r * r" "(r * r) powr (1 / 2) = r" "(d * d) powr (1 / 2) = d"
    using r d powr_three_halves [of "r * r"] by (simp_all add: powr_half_sqrt)
  have nz: "r * r \<noteq> 0" "d * d / (r * r) * (r * r * r) \<noteq> 0" "d * d / (r * r) * r \<noteq> 0" "d \<noteq> 0" using r d by simp_all
  show ?thesis
    unfolding xyz2ypd_jacobian_def split r(2) d(2) real_libm_sel p fdiv_Some [OF nz(1)] Option.bind.bind_lunit q fdiv_Some [OF nz(2)] fdiv_Some [OF nz(3)]
      fdiv_Some [OF nz(4)] Let_def using r(1) d(1) by (simp add: field_simps)
qed

lemma xyz2ypd_curve:
  assumes X: "(X has_real_derivative x') (at s)" and Y: "(Y has_real_derivative y') (at s)" and Z: "(Z has_real_derivative z') (at s)"
    and "0 < X s \<or> Y s \<noteq> 0"
  shows "\<exists>J. xyz2ypd_jacobian real_libm (X s, Y s, Z s) = Some J \<and>
    curve_deriv (\<lambda>s. xyz2ypd real_libm (X s, Y s, Z s)) (mat_vec J (x', y', z')) s"
proof -
  define R where "R = (\<lambda>s. sqrt (X s * X s + Y s * Y s))"
  define D where "D = (\<lambda>s. sqrt (X s * X s + Y s * Y s + Z s * Z s))"
  have q: "0 < X s * X s + Y s * Y s" using assms(4) by (auto simp: sum_squares_gt_zero_iff)
  then have r: "0 < R s" "R s * R s = X s * X s + Y s * Y s" and d: "0 < D s" "D s * D s = R s * R s + Z s * Z s"
    by (simp_all add: R_def D_def add_pos_nonneg)
  have R: "(R has_real_derivative (X s * x' + Y s * y') / R s) (at s)" unfolding R_def
    using q by (intro sqrt_sum_deriv [OF DERIV_add [OF DERIV_mult [OF X X] DERIV_mult [OF Y Y]]]) (simp_all add: algebra_simps)
  have D: "(D has_real_derivative (X s * x' + Y s * y' + Z s * z') / D s) (at s)" unfolding D_def
    using q by (intro sqrt_sum_deriv [OF DERIV_add [OF DERIV_add [OF DERIV_mult [OF X X] DERIV_mult [OF Y Y]] DERIV_mult [OF Z Z]]])
      (simp add: algebra_simps, simp add: add_pos_nonneg)
  have yaw: "((\<lambda>s. real_atan2 (Y s) (X s)) has_real_derivative (X s * y' - Y s * x') / (R s * R s)) (at s)"
    unfolding r by (rule atan2_deriv [OF X Y assms(4)])
  have "(\<lambda>s. real_atan2 (Z s) (R s)) = (\<lambda>s. real_atan2 (Z s) (sqrt (X s * X s + Y s * Y s)))" by (simp add: R_def)
  then have pitch: "((\<lambda>s. real_atan2 (Z s) (sqrt (X s * X s + Y s * Y s))) has_real_derivative (R s * z' - Z s * ((X s * x' + Y s * y') / R s)) / (D s * D s)) (at s)"
    unfolding d using atan2_deriv [OF R Z] r by simp
  note J = xyz2ypd_jacobian_real [OF q, of "Z s", folded R_def D_def]
  have "curve_deriv (\<lambda>s. xyz2ypd real_libm (X s, Y s, Z s)) (mat_vec ((- Y s / (R s * R s), X s / (R s * R s), 0),
    (- (X s * Z s) / (D s * D s * R s), - (Y s * Z s) / (D s * D s * R s), R s / (D s * D s)), (X s / D s, Y s / D s, Z s / D s)) (x', y', z')) s"
    unfolding curve_deriv_def mat_vec_def vec_dot_def xyz2ypd_def Let_def split fst_conv snd_conv real_libm_sel R_def [symmetric] D_def [symmetric]
    using r(1) d(1) by (intro conjI DERIV_cong [OF yaw] DERIV_cong [OF pitch] DERIV_cong [OF D]) (simp_all add: field_simps)
  then show ?thesis using J by (simp add: R_def D_def)
qed

lemma ypd2xyz_curve:
  assumes X: "(X has_real_derivative x') (at s)" and Y: "(Y has_real_derivative y') (at s)" and Z: "(Z has_real_derivative z') (at s)"
  shows "curve_deriv (\<lambda>s. ypd2xyz real_libm (X s, Y s, Z s)) (mat_vec (ypd2xyz_jacobian real_libm (X s, Y s, Z s)) (x', y', z')) s"
    by (auto simp: curve_deriv_def mat_vec_def vec_dot_def ypd2xyz_def ypd2xyz_jacobian_def Let_def algebra_simps intro!: derivative_eq_intros X Y Z)

text \<open>
  The Jacobians are the derivatives: along any differentiable curve through a point off the half-plane where the yaw jumps, the spherical
  coordinates change by the Jacobian applied to the velocity of the curve, and the Jacobian exists; and the same holds of the opposite conversion.
\<close>

theorem jacobians_are_derivatives:
  assumes X: "(X has_real_derivative x') (at s)" and Y: "(Y has_real_derivative y') (at s)" and Z: "(Z has_real_derivative z') (at s)"
    and "0 < X s \<or> Y s \<noteq> 0"
  shows "\<exists>J. xyz2ypd_jacobian real_libm (X s, Y s, Z s) = Some J \<and>
    curve_deriv (\<lambda>s. xyz2ypd real_libm (X s, Y s, Z s)) (mat_vec J (x', y', z')) s \<and>
    curve_deriv (\<lambda>s. ypd2xyz real_libm (X s, Y s, Z s)) (mat_vec (ypd2xyz_jacobian real_libm (X s, Y s, Z s)) (x', y', z')) s"
  using xyz2ypd_curve [OF assms] ypd2xyz_curve [OF X Y Z] by blast

theorem jacobians_are_derivatives_witness:
  "\<exists>J. xyz2ypd_jacobian real_libm (4, 3 * 1, 1 * 1) = Some J \<and>
    curve_deriv (\<lambda>s. xyz2ypd real_libm (4, 3 * s, s * s)) (mat_vec J (0, 3, 2)) 1 \<and>
    curve_deriv (\<lambda>s. ypd2xyz real_libm (4, 3 * s, s * s)) (mat_vec (ypd2xyz_jacobian real_libm (4, 3 * 1, 1 * 1)) (0, 3, 2)) 1"
  by (rule jacobians_are_derivatives [of "\<lambda>s. 4" 0 1 "\<lambda>s. 3 * s" 3 "\<lambda>s. s * s" 2]) (auto intro!: derivative_eq_intros)

theorem trajectory_strikes_witness:
  "\<exists>j. new_trajectory real_libm 23 5 1 = Some j \<and> (case j of Unsolvable \<Rightarrow> \<forall>p t. \<not> strikes 23 p t 5 1
    | Solvable t p \<Rightarrow> strikes 23 p t 5 1 \<and> (\<forall>p' t'. strikes 23 p' t' 5 1 \<longrightarrow> t \<le> t'))"
  by (rule trajectory_strikes) simp_all

theorem spherical_roundtrip_witness:
  "ypd2xyz real_libm (xyz2ypd real_libm (1, 2, 3)) = (1, 2, 3) \<and>
   xyz2ypd real_libm (ypd2xyz real_libm (1, - (1 / 2), 4)) = (1, - (1 / 2), 4)"
  using spherical_roundtrip [of "(1, 2, 3)" 1 "- (1 / 2)" 4] pi_ge_two by auto

section \<open>Euler angles\<close>

text \<open>A quaternion is its coefficients \<open>x\<close>, \<open>y\<close>, \<open>z\<close>, \<open>w\<close>, in the order in which the library stores them.\<close>

type_synonym 'k quat = "'k \<times> 'k \<times> 'k \<times> 'k"

definition coeff :: "'k quat \<Rightarrow> int \<Rightarrow> 'k option" where
  "coeff = (\<lambda>(x, y, z, w) i. if i = 0 then Some x else if i = 1 then Some y else if i = 2 then Some z else if i = 3 then Some w else None)"

text \<open>\<^verbatim>\<open>eulers\<close>; the integer division truncates, but its operand is even whenever the axes differ.\<close>

definition eulers :: "('k :: linordered_field) libm \<Rightarrow> 'k quat \<Rightarrow> int \<Rightarrow> int \<Rightarrow> int \<Rightarrow> bool \<Rightarrow> 'k vec3 option" where
  "eulers M q axis0 axis1 axis2 extrinsic = do {
     let (axis0, axis2) = (if \<not> extrinsic then (axis2, axis0) else (axis0, axis2));
     let i = axis0; let j = axis1; let k = axis2;
     let is_proper = (i = k);
     let k = (if is_proper then 3 - i - j else k);
     let sign = of_int ((i - j) * (j - k) * (k - i) sdiv 2);
     xi \<leftarrow> coeff q i; xj \<leftarrow> coeff q j; xk \<leftarrow> coeff q k; x3 \<leftarrow> coeff q 3;
     let (a, b, c, d) = (if is_proper then (x3, xi, xj, xk * sign) else (x3 - xj, xi + xk * sign, xj + x3, xk * sign - xi));
     let n2 = a * a + b * b + c * c + d * d;
     u \<leftarrow> fdiv (2 * (a * a + b * b)) n2;
     let e1 = lm_acos M (u - 1);
     let half_sum = lm_atan2 M b a;
     let half_diff = lm_atan2 M (- d) c;
     let eps = 1 / 10 ^ 7;
     let safe1 = (\<bar>e1\<bar> \<ge> eps);
     let safe2 = (\<bar>e1 - lm_pi M\<bar> \<ge> eps);
     (e0, e2) \<leftarrow>
       (if safe1 \<and> safe2 then Some (half_sum + half_diff, half_sum - half_diff)
        else if \<not> extrinsic
          then if \<not> safe2 then Some (0, - (2 * half_diff)) else Some (0, 2 * half_sum)
          else if \<not> safe2 then Some (2 * half_diff, 0) else Some (2 * half_sum, 0));
     e0 \<leftarrow> limit_rad M e0;
     e1 \<leftarrow> limit_rad M e1;
     e2 \<leftarrow> limit_rad M e2;
     let (e1, e2) = (if \<not> is_proper then (e1 - lm_pi M / 2, e2 * sign) else (e1, e2));
     Some (if \<not> extrinsic then (e2, e1, e0) else (e0, e1, e2))
   }"

definition quat_mul :: "('k :: linordered_field) quat \<Rightarrow> 'k quat \<Rightarrow> 'k quat" where
  "quat_mul = (\<lambda>(x, y, z, w) (x', y', z', w').
     (w * x' + x * w' + y * z' - z * y', w * y' - x * z' + y * w' + z * x', w * z' + x * y' - y * x' + z * w', w * w' - x * x' - y * y' - z * z'))"

text \<open>Turns by \<open>yaw\<close>, \<open>pitch\<close> and \<open>roll\<close> about the third, second and first axis.\<close>

definition ypr_quat :: "real \<Rightarrow> real \<Rightarrow> real \<Rightarrow> real quat" where
  "ypr_quat yaw pitch roll = quat_mul (quat_mul (0, 0, sin (yaw / 2), cos (yaw / 2)) (0, sin (pitch / 2), 0, cos (pitch / 2)))
     (sin (roll / 2), 0, 0, cos (roll / 2))"

lemma half_angle_squares:
  "(cos (t / 2) - sin (t / 2))\<^sup>2 = 1 - sin t" "(cos (t / 2) + sin (t / 2))\<^sup>2 = 1 + sin t" for t :: real
  using sin_double [of "t / 2"] sin_cos_squared_add3 [of "t / 2"] by (simp_all add: power2_eq_square algebra_simps)

lemma half_angle_pos:
  assumes "\<bar>t\<bar> < pi / 2"
  shows "0 < cos (t / 2) - sin (t / 2)" "0 < cos (t / 2) + sin (t / 2)"
proof -
  have "0 < sin (pi / 4 - t / 2)" "0 < sin (pi / 4 + t / 2)" using assms by (auto intro!: sin_gt_zero)
  then have "0 < sqrt 2 / 2 * (cos (t / 2) - sin (t / 2))" "0 < sqrt 2 / 2 * (cos (t / 2) + sin (t / 2))"
    by (simp_all add: sin_diff sin_add sin_45 cos_45 right_diff_distrib distrib_left)
  then show "0 < cos (t / 2) - sin (t / 2)" "0 < cos (t / 2) + sin (t / 2)" by (simp_all add: zero_less_mult_iff)
qed

text \<open>
  The angles of the gimbal: from the orientation that is made of a yaw, a pitch and a roll, \<open>eulers\<close> with the axes 2, 1, 0, as every program calls
  it, gives back these three angles, for every pitch that is not within a ten-millionth of a pole.
\<close>

theorem eulers_ypr:
  assumes "- pi < yaw" "yaw \<le> pi" "- pi < roll" "roll \<le> pi" "\<bar>pitch\<bar> \<le> pi / 2 - 1 / 10 ^ 7"
  shows "eulers real_libm (ypr_quat yaw pitch roll) 2 1 0 False = Some (yaw, pitch, roll)"
proof -
  define K L s d where "K = cos (pitch / 2) - sin (pitch / 2)" and "L = cos (pitch / 2) + sin (pitch / 2)"
    and "s = (yaw + roll) / 2" and "d = (roll - yaw) / 2"
  have p: "\<bar>pitch\<bar> < pi / 2" using assms(5) by (rule le_less_trans) simp
  have KL: "0 < K" "0 < L" "K * K = 1 - sin pitch" "L * L = 1 + sin pitch"
    using half_angle_pos [OF p] half_angle_squares [of pitch] by (simp_all add: K_def L_def power2_eq_square)
  obtain x y z w where q: "ypr_quat yaw pitch roll = (x, y, z, w)" by (metis surj_pair)
  have s: "cos s = cos (yaw / 2) * cos (roll / 2) - sin (yaw / 2) * sin (roll / 2)" "sin s = sin (yaw / 2) * cos (roll / 2) + cos (yaw / 2) * sin (roll / 2)"
    unfolding s_def add_divide_distrib by (simp_all add: cos_add sin_add)
  have d: "cos d = cos (yaw / 2) * cos (roll / 2) + sin (yaw / 2) * sin (roll / 2)" "sin d = sin (roll / 2) * cos (yaw / 2) - cos (roll / 2) * sin (yaw / 2)"
    unfolding d_def diff_divide_distrib by (simp_all add: cos_diff sin_diff)
  have c: "w - y = K * cos s" "x + z = K * sin s" "y + w = L * cos d" "z - x = - (L * sin d)"
    using q unfolding s d K_def L_def by (simp_all add: ypr_quat_def quat_mul_def algebra_simps)
  have bounds: "- pi < s" "s \<le> pi" "- pi < d" "d \<le> pi" using assms by (simp_all add: s_def d_def field_simps)
  have r: "real_atan2 (K * sin s) (K * cos s) = s" "real_atan2 (L * sin d) (L * cos d) = d"
    using atan2_polar [of K s] atan2_polar [of L d] bounds KL by simp_all
  have "K * cos s * (K * cos s) + K * sin s * (K * sin s) = 1 - sin pitch" "L * cos d * (L * cos d) + L * sin d * (L * sin d) = 1 + sin pitch"
    unfolding polar_norm KL by simp_all
  then have n: "K * cos s * (K * cos s) + K * sin s * (K * sin s) = 1 - sin pitch"
      "K * cos s * (K * cos s) + K * sin s * (K * sin s) + L * cos d * (L * cos d) + - (L * sin d) * - (L * sin d) = 2" by simp_all
  have u: "fdiv (2 * (K * cos s * (K * cos s) + K * sin s * (K * sin s)))
    (K * cos s * (K * cos s) + K * sin s * (K * sin s) + L * cos d * (L * cos d) + - (L * sin d) * - (L * sin d)) = Some (1 - sin pitch)"
    unfolding n(2) unfolding n(1) by simp
  have "arccos (- sin pitch) = arccos (cos (pi / 2 + pitch))" by (simp add: cos_add)
  then have e1: "arccos (- sin pitch) = pi / 2 + pitch" using p by (simp add: arccos_cos)
  have safe: "1 / 10 ^ 7 \<le> \<bar>pi / 2 + pitch\<bar>" "1 / 10 ^ 7 \<le> \<bar>pi / 2 + pitch - pi\<bar>" using assms(5) by linarith+
  have lim: "limit_rad real_libm (s + d) = Some roll" "limit_rad real_libm (s - d) = Some yaw" "limit_rad real_libm (pi / 2 + pitch) = Some (pi / 2 + pitch)"
    using limit_rad_inside [of roll] limit_rad_inside [of yaw] limit_rad_inside [of "pi / 2 + pitch"] assms p by (auto simp: s_def d_def field_simps)
  show ?thesis using c r u e1 safe lim by (simp add: eulers_def q coeff_def Let_def)
qed

theorem eulers_ypr_witness: "eulers real_libm (ypr_quat 1 (- (1 / 2)) 2) 2 1 0 False = Some (1, - (1 / 2), 2)"
  using pi_ge_two by (intro eulers_ypr) (simp_all add: field_simps)

text \<open>The time of flight is bounded: it is the smaller root of the equation for the square of the time.\<close>

lemma strikes_square:
  assumes "strikes v p t d h"
  shows "gravity\<^sup>2 / 4 * (t\<^sup>2)\<^sup>2 + (gravity * h - v\<^sup>2) * t\<^sup>2 + (d\<^sup>2 + h\<^sup>2) = 0"
proof -
  have d: "v * cos p * t = d" and h: "v * sin p * t - gravity * t\<^sup>2 / 2 = h" using assms by (simp_all add: strikes_def)
  have "(v * t * cos p) * (v * t * cos p) + (v * t * sin p) * (v * t * sin p) = v * t * (v * t)"
    using sin_cos_squared_add3 [of p] by (metis (no_types, lifting) distrib_left mult.assoc mult.left_commute mult.right_neutral)
  moreover have "v * t * cos p = d" "v * t * sin p = h + gravity * t\<^sup>2 / 2" using d h by (simp_all add: algebra_simps)
  ultimately have "d * d + (h + gravity * t\<^sup>2 / 2) * (h + gravity * t\<^sup>2 / 2) = v * t * (v * t)" by simp
  then show ?thesis by (simp add: power2_eq_square algebra_simps)
qed

lemma strikes_of_square:
  assumes "gravity\<^sup>2 / 4 * s\<^sup>2 + (gravity * h - v\<^sup>2) * s + (d\<^sup>2 + h\<^sup>2) = 0" and "0 < s" "0 < v" "0 < d"
  shows "strikes v (arctan ((h + gravity * s / 2) / d)) (sqrt s) d h"
proof -
  define k where "k = h + gravity * s / 2"
  have "d * d + k * k = v\<^sup>2 * s" using assms(1) by (simp add: k_def power2_eq_square algebra_simps)
  then have "sqrt (d * d + k * k) = v * sqrt s" using assms(3) by (simp add: real_sqrt_mult)
  moreover have "real_atan2 k d = arctan (k / d)" using assms(4) by (simp add: real_atan2_def)
  ultimately have "v * sqrt s * cos (arctan (k / d)) = d" "v * sqrt s * sin (arctan (k / d)) = k" using atan2_cos_sin [of d k] by simp_all
  moreover have "\<bar>arctan (k / d)\<bar> < pi / 2" using arctan_bounded [of "k / d"] by auto
  ultimately show ?thesis using assms(2) unfolding strikes_def k_def [symmetric] by (simp add: mult.commute mult.left_commute k_def)
qed

lemma fly_time_bound:
  assumes "0 < v" "0 < d" and "new_trajectory real_libm v d h = Some (Solvable t p)"
  shows "0 < t" and "gravity\<^sup>2 * t\<^sup>2 \<le> 2 * (v\<^sup>2 - gravity * h)"
proof -
  have st: "strikes v p t d h" and least: "\<And>p' t'. strikes v p' t' d h \<Longrightarrow> t \<le> t'" using trajectory_real [OF assms(1,2), of h] assms(3) by auto
  have "0 < cos p" using st by (intro cos_gt_zero_pi) (auto simp: strikes_def)
  moreover have "v * cos p * t = d" using st by (simp add: strikes_def)
  ultimately show t: "0 < t" using assms(1,2) by (metis mult_pos_pos zero_less_mult_pos)
  define s where "s = t\<^sup>2"
  define A where "A = (gravity\<^sup>2 / 4 :: real)"
  define B where "B = gravity * h - v\<^sup>2"
  define C where "C = d\<^sup>2 + h\<^sup>2"
  have pos: "0 < s" "0 < A" "0 < C" using t assms(2) gravity_pos by (simp_all add: s_def A_def C_def add_pos_nonneg)
  have root: "A * s\<^sup>2 + B * s + C = 0" using strikes_square [OF st] by (simp add: s_def A_def B_def C_def)
  define s' where "s' = C / (A * s)"
  have prod: "s' * (A * s) = C" using pos by (simp add: s'_def)
  have "s * (A * s + B + A * s') = 0" using root prod by (simp add: power2_eq_square algebra_simps)
  then have sum: "A * s + B + A * s' = 0" using pos by simp
  have "A * s'\<^sup>2 + B * s' + C = s' * (A * s + B + A * s')" unfolding prod [symmetric] by (simp add: power2_eq_square algebra_simps)
  then have root': "A * s'\<^sup>2 + B * s' + C = 0" using sum by simp
  have s': "0 < s'" using pos by (simp add: s'_def)
  have "t \<le> sqrt s'" using least strikes_of_square [of s' h v d] root' s' assms(1,2) by (auto simp: A_def B_def C_def)
  then have "s \<le> s'" using t by (metis less_imp_le power2_eq_square real_sqrt_pow2 s' s_def power_mono)
  then have "A * s + A * s \<le> A * s + A * s'" using pos by simp
  then have "2 * (A * s) \<le> - B" using sum by simp
  then show "gravity\<^sup>2 * t\<^sup>2 \<le> 2 * (v\<^sup>2 - gravity * h)" by (simp add: A_def B_def s_def)
qed

end
