(* ===== verification/Target_Geometry.thy ===== *)
theory Target_Geometry
  imports Math_Tools
begin

text \<open>
  The geometry of a target, from \<^verbatim>\<open>tasks/auto_aim/target.cpp\<close>: where its plates are for a given state of the filter, what a camera
  observes of a plate, and the Jacobian of that observation. A state \<open>x\<close> of the filter is the function that gives its eleven components,
  \<open>x vx y vy z vz a w r l h\<close>; a matrix is the list of its rows.
\<close>

section \<open>Operations\<close>

type_synonym 'k xyza = "'k \<times> 'k \<times> 'k \<times> 'k"

definition plate_angle :: "('k :: linordered_field) libm \<Rightarrow> (nat \<Rightarrow> 'k) \<Rightarrow> nat \<Rightarrow> nat \<Rightarrow> 'k option" where
  "plate_angle M x armor_num i = do { t \<leftarrow> fdiv (of_nat i * 2 * lm_pi M) (of_nat armor_num); limit_rad M (x 6 + t) }"

definition use_l_h :: "nat \<Rightarrow> nat \<Rightarrow> bool" where
  "use_l_h armor_num i \<longleftrightarrow> armor_num = 4 \<and> (i = 1 \<or> i = 3)"

definition h_armor_xyz :: "('k :: linordered_field) libm \<Rightarrow> (nat \<Rightarrow> 'k) \<Rightarrow> nat \<Rightarrow> nat \<Rightarrow> 'k vec3 option" where
  "h_armor_xyz M x armor_num i = do {
     angle \<leftarrow> plate_angle M x armor_num i;
     let r = (if use_l_h armor_num i then x 8 + x 9 else x 8);
     let armor_x = x 0 - r * lm_cos M angle;
     let armor_y = x 2 - r * lm_sin M angle;
     let armor_z = (if use_l_h armor_num i then x 4 + x 10 else x 4);
     Some (armor_x, armor_y, armor_z)
   }"

text \<open>A loop that collects results.\<close>

fun map_opt :: "('a \<Rightarrow> 'b option) \<Rightarrow> 'a list \<Rightarrow> 'b list option" where
  "map_opt f [] = Some []"
| "map_opt f (a # as) = do { b \<leftarrow> f a; bs \<leftarrow> map_opt f as; Some (b # bs) }"

definition armor_xyza_list :: "('k :: linordered_field) libm \<Rightarrow> (nat \<Rightarrow> 'k) \<Rightarrow> nat \<Rightarrow> 'k xyza list option" where
  "armor_xyza_list M x armor_num = map_opt (\<lambda>i. do {
     angle \<leftarrow> plate_angle M x armor_num i;
     (a, b, c) \<leftarrow> h_armor_xyz M x armor_num i;
     Some (a, b, c, angle) }) [0..<armor_num]"

definition mat_mul :: "('k :: linordered_field) list list \<Rightarrow> 'k list list \<Rightarrow> 'k list list" where
  "mat_mul A B = map (\<lambda>row. map (\<lambda>j. \<Sum>k \<leftarrow> [0..<length row]. row ! k * B ! k ! j) [0..<length (hd B)]) A"

definition h_jacobian :: "('k :: linordered_field) libm \<Rightarrow> (nat \<Rightarrow> 'k) \<Rightarrow> nat \<Rightarrow> nat \<Rightarrow> 'k list list option" where
  "h_jacobian M x armor_num i = do {
     angle \<leftarrow> plate_angle M x armor_num i;
     let r = (if use_l_h armor_num i then x 8 + x 9 else x 8);
     let dx_da = r * lm_sin M angle;
     let dy_da = - r * lm_cos M angle;
     let dx_dr = - lm_cos M angle;
     let dy_dr = - lm_sin M angle;
     let dx_dl = (if use_l_h armor_num i then - lm_cos M angle else 0);
     let dy_dl = (if use_l_h armor_num i then - lm_sin M angle else 0);
     let dz_dh = (if use_l_h armor_num i then 1 else 0);
     let H_armor_xyza =
       [[1, 0, 0, 0, 0, 0, dx_da, 0, dx_dr, dx_dl, 0],
        [0, 0, 1, 0, 0, 0, dy_da, 0, dy_dr, dy_dl, 0],
        [0, 0, 0, 0, 1, 0, 0, 0, 0, 0, dz_dh],
        [0, 0, 0, 0, 0, 0, 1, 0, 0, 0, 0]];
     armor_xyz \<leftarrow> h_armor_xyz M x armor_num i;
     ((j00, j01, j02), (j10, j11, j12), (j20, j21, j22)) \<leftarrow> xyz2ypd_jacobian M armor_xyz;
     let H_armor_ypda = [[j00, j01, j02, 0], [j10, j11, j12, 0], [j20, j21, j22, 0], [0, 0, 0, 1]];
     Some (mat_mul H_armor_ypda H_armor_xyza)
   }"

text \<open>The observation of a plate, the function \<^verbatim>\<open>h\<close> of \<^verbatim>\<open>update_ypda\<close>.\<close>

definition observe :: "('k :: linordered_field) libm \<Rightarrow> nat \<Rightarrow> nat \<Rightarrow> (nat \<Rightarrow> 'k) \<Rightarrow> 'k list option" where
  "observe M armor_num i x = do {
     xyz \<leftarrow> h_armor_xyz M x armor_num i;
     let (yaw, pitch, distance) = xyz2ypd M xyz;
     angle \<leftarrow> plate_angle M x armor_num i;
     Some [yaw, pitch, distance, angle]
   }"

text \<open>The differences of angles in a measurement are taken modulo a turn, \<^verbatim>\<open>z_subtract\<close>.\<close>

definition z_subtract :: "('k :: linordered_field) libm \<Rightarrow> 'k list \<Rightarrow> 'k list \<Rightarrow> 'k list option" where
  "z_subtract M a b = do {
     c0 \<leftarrow> limit_rad M (a ! 0 - b ! 0);
     c1 \<leftarrow> limit_rad M (a ! 1 - b ! 1);
     c3 \<leftarrow> limit_rad M (a ! 3 - b ! 3);
     Some [c0, c1, a ! 2 - b ! 2, c3]
   }"

section \<open>Plates\<close>

lemma limit_rad_unique:
  assumes "- pi < r" "r \<le> pi" "a = r + 2 * pi * of_int k"
  shows "limit_rad real_libm a = Some r"
proof -
  obtain j q where q: "limit_rad real_libm a = Some q" "- pi < q" "q \<le> pi" "a = q + 2 * pi * of_int j" using limit_rad_real by blast
  then have "r - q = 2 * pi * of_int (j - k)" using assms(3) by (simp add: algebra_simps)
  moreover have "\<bar>r - q\<bar> < 2 * pi" using assms q by linarith
  ultimately have "\<bar>of_int (j - k) :: real\<bar> < 1" by (simp add: abs_mult)
  then have "j = k" by linarith
  then show ?thesis using q assms(3) by simp
qed

lemma cos_limit_rad:
  assumes "limit_rad real_libm a = Some r"
  shows "cos r = cos a" "sin r = sin a"
proof -
  obtain k :: int where "a = r + 2 * pi * of_int k" using assms limit_rad_real [of a] by auto
  then show "cos r = cos a" "sin r = sin a" by (simp_all add: cos_add sin_add sin_int_2pin cos_int_2pin)
qed

definition raw_angle :: "(nat \<Rightarrow> real) \<Rightarrow> nat \<Rightarrow> nat \<Rightarrow> real" where
  "raw_angle x armor_num i = x 6 + of_nat i * 2 * pi / of_nat armor_num"

lemma plate_angle_real: "0 < n \<Longrightarrow> plate_angle real_libm x n i = limit_rad real_libm (raw_angle x n i)"
  by (simp add: plate_angle_def raw_angle_def)

lemma h_armor_xyz_real:
  assumes "0 < n"
  shows "h_armor_xyz real_libm x n i = Some
    (x 0 - (if use_l_h n i then x 8 + x 9 else x 8) * cos (raw_angle x n i), x 2 - (if use_l_h n i then x 8 + x 9 else x 8) * sin (raw_angle x n i),
     if use_l_h n i then x 4 + x 10 else x 4)"
proof -
  obtain r where r: "limit_rad real_libm (raw_angle x n i) = Some r" using limit_rad_real by blast
  then show ?thesis using assms cos_limit_rad [OF r] by (simp add: h_armor_xyz_def plate_angle_real Let_def)
qed

lemma map_opt_total:
  assumes "\<And>a. a \<in> set as \<Longrightarrow> \<exists>b. f a = Some b"
  shows "\<exists>bs. map_opt f as = Some bs \<and> length bs = length as \<and> (\<forall>i < length as. f (as ! i) = Some (bs ! i))"
  using assms
proof (induction as)
  case (Cons a as)
  then obtain b bs where "f a = Some b" "map_opt f as = Some bs" "length bs = length as" "\<forall>i < length as. f (as ! i) = Some (bs ! i)"
    by (metis list.set_intros)
  then show ?case by (auto simp: nth_Cons split: nat.split)
qed simp

lemma map_opt_nth: "map_opt f as = Some bs \<Longrightarrow> length bs = length as \<and> (\<forall>i < length as. f (as ! i) = Some (bs ! i))"
proof (induction as arbitrary: bs)
  case (Cons a as)
  then show ?case by (fastforce simp: bind_Some_iff nth_Cons split: nat.split)
qed simp

section \<open>The Jacobian of the observation\<close>

lemma limit_rad_deriv:
  assumes A: "(A has_real_derivative a') (at s)" and r: "limit_rad real_libm (A s) = Some r" "r < pi"
  shows "((\<lambda>s. the (limit_rad real_libm (A s))) has_real_derivative a') (at s)"
proof -
  obtain k :: int where k: "- pi < r" "A s = r + 2 * pi * of_int k" using limit_rad_real [of "A s"] r(1) by auto
  have d: "((\<lambda>s. A s - 2 * pi * of_int k) has_real_derivative a') (at s)" by (auto intro!: derivative_eq_intros A)
  have "((\<lambda>s. A s - 2 * pi * of_int k + pi) has_real_derivative a') (at s)" "((\<lambda>s. pi - (A s - 2 * pi * of_int k)) has_real_derivative - a') (at s)"
    by (auto intro!: derivative_eq_intros A)
  from DERIV_nhds_pos [OF this(1)] DERIV_nhds_pos [OF this(2)]
  have "\<forall>\<^sub>F s in nhds s. 0 < A s - 2 * pi * of_int k + pi" "\<forall>\<^sub>F s in nhds s. 0 < pi - (A s - 2 * pi * of_int k)"
    using k r by simp_all
  then have "\<forall>\<^sub>F s in nhds s. the (limit_rad real_libm (A s)) = A s - 2 * pi * of_int k"
    by eventually_elim (subst limit_rad_unique, auto)
  from DERIV_cong_ev [OF refl this refl, of a'] show ?thesis using d by simp
qed

text \<open>The derivatives of the coordinates of a plate along a curve of states, and the velocity of the plate as a row of the Jacobian gives it.\<close>

lemma plate_deriv:
  fixes x :: "nat \<Rightarrow> real \<Rightarrow> real" and n i :: nat
  assumes "\<And>j. j < 11 \<Longrightarrow> (x j has_real_derivative x' j) (at s)" and "0 < n"
  defines "a \<equiv> raw_angle (\<lambda>j. x j s) n i" and "r \<equiv> (if use_l_h n i then x 8 s + x 9 s else x 8 s)"
    and "dr \<equiv> x' 8 + (if use_l_h n i then x' 9 else 0)"
  shows "((\<lambda>s. x 0 s - (if use_l_h n i then x 8 s + x 9 s else x 8 s) * cos (raw_angle (\<lambda>j. x j s) n i))
      has_real_derivative x' 0 + r * sin a * x' 6 - cos a * dr) (at s)"
    and "((\<lambda>s. x 2 s - (if use_l_h n i then x 8 s + x 9 s else x 8 s) * sin (raw_angle (\<lambda>j. x j s) n i))
      has_real_derivative x' 2 - r * cos a * x' 6 - sin a * dr) (at s)"
    and "((\<lambda>s. if use_l_h n i then x 4 s + x 10 s else x 4 s) has_real_derivative x' 4 + (if use_l_h n i then x' 10 else 0)) (at s)"
    and "((\<lambda>s. raw_angle (\<lambda>j. x j s) n i) has_real_derivative x' 6) (at s)"
proof -
  have x: "(x 0 has_real_derivative x' 0) (at s)" "(x 2 has_real_derivative x' 2) (at s)" "(x 4 has_real_derivative x' 4) (at s)"
    "(x 6 has_real_derivative x' 6) (at s)" "(x 8 has_real_derivative x' 8) (at s)" "(x 9 has_real_derivative x' 9) (at s)"
    "(x 10 has_real_derivative x' 10) (at s)" using assms(1) by simp_all
  show A: "((\<lambda>s. raw_angle (\<lambda>j. x j s) n i) has_real_derivative x' 6) (at s)"
    unfolding raw_angle_def by (auto intro!: derivative_eq_intros x)
  show "((\<lambda>s. if use_l_h n i then x 4 s + x 10 s else x 4 s) has_real_derivative x' 4 + (if use_l_h n i then x' 10 else 0)) (at s)"
    by (auto intro!: derivative_eq_intros x)
  have R: "((\<lambda>s. if use_l_h n i then x 8 s + x 9 s else x 8 s) has_real_derivative dr) (at s)"
    unfolding dr_def by (auto intro!: derivative_eq_intros x)
  show "((\<lambda>s. x 0 s - (if use_l_h n i then x 8 s + x 9 s else x 8 s) * cos (raw_angle (\<lambda>j. x j s) n i))
      has_real_derivative x' 0 + r * sin a * x' 6 - cos a * dr) (at s)"
    "((\<lambda>s. x 2 s - (if use_l_h n i then x 8 s + x 9 s else x 8 s) * sin (raw_angle (\<lambda>j. x j s) n i))
      has_real_derivative x' 2 - r * cos a * x' 6 - sin a * dr) (at s)"
    by (rule derivative_eq_intros refl x R A | simp add: a_def r_def algebra_simps)+
qed

text \<open>A row of the product with the velocity of the state.\<close>

lemma jacobian_row:
  fixes x' :: "nat \<Rightarrow> real"
  assumes "k < 4"
  shows "(\<Sum>j \<leftarrow> [0..<11]. mat_mul
      [[a, b, c, 0], [e, f, g, 0], [h, l, m, 0], [0, 0, 0, 1]]
      [[1, 0, 0, 0, 0, 0, ax, 0, rx, lx, 0], [0, 0, 1, 0, 0, 0, ay, 0, ry, ly, 0], [0, 0, 0, 0, 1, 0, 0, 0, 0, 0, hz], [0, 0, 0, 0, 0, 0, 1, 0, 0, 0, 0]] ! k ! j * x' j) =
    [vec_dot (a, b, c) (x' 0 + ax * x' 6 + rx * x' 8 + lx * x' 9, x' 2 + ay * x' 6 + ry * x' 8 + ly * x' 9, x' 4 + hz * x' 10),
     vec_dot (e, f, g) (x' 0 + ax * x' 6 + rx * x' 8 + lx * x' 9, x' 2 + ay * x' 6 + ry * x' 8 + ly * x' 9, x' 4 + hz * x' 10),
     vec_dot (h, l, m) (x' 0 + ax * x' 6 + rx * x' 8 + lx * x' 9, x' 2 + ay * x' 6 + ry * x' 8 + ly * x' 9, x' 4 + hz * x' 10), x' 6] ! k"
proof -
  have "k = 0 \<or> k = 1 \<or> k = 2 \<or> k = 3" using assms by linarith
  then show ?thesis by (elim disjE) (simp_all add: mat_mul_def upt_rec vec_dot_def algebra_simps eval_nat_numeral)
qed

text \<open>
  C21. The filter linearises correctly: along any differentiable curve of states, every component of the observation of a plate, yaw, pitch, distance and angle, changes by the
  corresponding row of the Jacobian applied to the velocity of the state. The plate must be off the half-plane where the yaw
  jumps, and its angle below the half turn where the angle jumps.
\<close>

theorem observation_jacobian:
  fixes x :: "nat \<Rightarrow> real \<Rightarrow> real"
  assumes x: "\<And>j. j < 11 \<Longrightarrow> (x j has_real_derivative x' j) (at s)" and "0 < n"
    and xyz: "h_armor_xyz real_libm (\<lambda>j. x j s) n i = Some (px, py, pz)" and cut: "0 < px \<or> py \<noteq> 0"
    and angle: "plate_angle real_libm (\<lambda>j. x j s) n i = Some r" "r < pi"
  shows "\<exists>J. h_jacobian real_libm (\<lambda>j. x j s) n i = Some J \<and> (\<forall>k < 4.
    ((\<lambda>s. the (observe real_libm n i (\<lambda>j. x j s)) ! k) has_real_derivative (\<Sum>j \<leftarrow> [0..<11]. J ! k ! j * x' j)) (at s))"
proof -
  let ?x = "\<lambda>s j. x j s"
  define X where "X = (\<lambda>s. x 0 s - (if use_l_h n i then x 8 s + x 9 s else x 8 s) * cos (raw_angle (?x s) n i))"
  define Y where "Y = (\<lambda>s. x 2 s - (if use_l_h n i then x 8 s + x 9 s else x 8 s) * sin (raw_angle (?x s) n i))"
  define Z where "Z = (\<lambda>s. if use_l_h n i then x 4 s + x 10 s else x 4 s)"
  note d = plate_deriv [where x = x, OF x \<open>0 < n\<close>, where i = i, folded X_def Y_def Z_def]
  have at: "h_armor_xyz real_libm (?x s) n i = Some (X s, Y s, Z s)" for s
    using h_armor_xyz_real [OF \<open>0 < n\<close>] by (simp add: X_def Y_def Z_def)
  then have p: "px = X s" "py = Y s" "pz = Z s" using xyz by simp_all
  obtain J where J: "xyz2ypd_jacobian real_libm (X s, Y s, Z s) = Some J" "curve_deriv (\<lambda>s. xyz2ypd real_libm (X s, Y s, Z s)) (mat_vec J
    (x' 0 + (if use_l_h n i then x 8 s + x 9 s else x 8 s) * sin (raw_angle (?x s) n i) * x' 6 - cos (raw_angle (?x s) n i) * (x' 8 + (if use_l_h n i then x' 9 else 0)),
     x' 2 - (if use_l_h n i then x 8 s + x 9 s else x 8 s) * cos (raw_angle (?x s) n i) * x' 6 - sin (raw_angle (?x s) n i) * (x' 8 + (if use_l_h n i then x' 9 else 0)),
     x' 4 + (if use_l_h n i then x' 10 else 0))) s"
    using xyz2ypd_curve [OF d(1-3)] cut p by blast
  have obs: "the (observe real_libm n i (?x s)) = (case xyz2ypd real_libm (X s, Y s, Z s) of (a, b, c) \<Rightarrow> [a, b, c, the (limit_rad real_libm (raw_angle (?x s) n i))])" for s
    using limit_rad_real [of "raw_angle (?x s) n i"] \<open>0 < n\<close> by (auto simp: observe_def at plate_angle_real split: prod.split)
  have r: "limit_rad real_libm (raw_angle (?x s) n i) = Some r" using angle(1) \<open>0 < n\<close> by (simp add: plate_angle_real)
  have A: "((\<lambda>s. the (limit_rad real_libm (raw_angle (?x s) n i))) has_real_derivative x' 6) (at s)"
    by (rule limit_rad_deriv [OF d(4) r angle(2)])
  obtain a b c e f g h l m where Jm: "J = ((a, b, c), (e, f, g), (h, l, m))" by (metis surj_pair)
  let ?a = "raw_angle (?x s) n i" and ?r = "if use_l_h n i then x 8 s + x 9 s else x 8 s"
  let ?J = "mat_mul [[a, b, c, 0], [e, f, g, 0], [h, l, m, 0], [0, 0, 0, 1]]
    [[1, 0, 0, 0, 0, 0, ?r * sin ?a, 0, - cos ?a, if use_l_h n i then - cos ?a else 0, 0],
     [0, 0, 1, 0, 0, 0, - ?r * cos ?a, 0, - sin ?a, if use_l_h n i then - sin ?a else 0, 0],
     [0, 0, 0, 0, 1, 0, 0, 0, 0, 0, if use_l_h n i then 1 else 0], [0, 0, 0, 0, 0, 0, 1, 0, 0, 0, 0]]"
  have H: "h_jacobian real_libm (?x s) n i = Some ?J"
    using angle(1) J(1) cos_limit_rad [OF r] unfolding h_jacobian_def at Jm by (simp add: Let_def)
  have v: "x' 0 + ?r * sin ?a * x' 6 - cos ?a * (x' 8 + (if use_l_h n i then x' 9 else 0)) =
        x' 0 + ?r * sin ?a * x' 6 + - cos ?a * x' 8 + (if use_l_h n i then - cos ?a else 0) * x' 9"
      "x' 2 - ?r * cos ?a * x' 6 - sin ?a * (x' 8 + (if use_l_h n i then x' 9 else 0)) =
        x' 2 + - ?r * cos ?a * x' 6 + - sin ?a * x' 8 + (if use_l_h n i then - sin ?a else 0) * x' 9"
      "x' 4 + (if use_l_h n i then x' 10 else 0) = x' 4 + (if use_l_h n i then 1 else 0) * x' 10"
    by (simp_all add: algebra_simps)
  have "((\<lambda>s. the (observe real_libm n i (?x s)) ! k) has_real_derivative (\<Sum>j \<leftarrow> [0..<11]. ?J ! k ! j * x' j)) (at s)" if "k < 4" for k
  proof -
    have "k = 0 \<or> k = 1 \<or> k = 2 \<or> k = 3" using that by linarith
    then show ?thesis
      using J(2) A unfolding jacobian_row [OF that] obs Jm v curve_deriv_def mat_vec_def split split_beta
      by (elim disjE) simp_all
  qed
  then show ?thesis using H by blast
qed

theorem observation_jacobian_witness:
  "\<exists>J. h_jacobian real_libm (\<lambda>j. if j = 0 then 5 + 0 else if j = 8 then 1 / 5 else 0) 4 0 = Some J \<and>
    ((\<lambda>s. the (observe real_libm 4 0 (\<lambda>j. if j = 0 then 5 + s else if j = 8 then 1 / 5 else 0)) ! 1) has_real_derivative
      (\<Sum>j \<leftarrow> [0..<11]. J ! 1 ! j * (if j = 0 then 1 else 0))) (at 0)"
proof -
  let ?x = "\<lambda>j s :: real. if j = (0 :: nat) then 5 + s else if j = 8 then 1 / 5 else 0"
  have a: "raw_angle (\<lambda>j. ?x j 0) 4 0 = 0" by (simp add: raw_angle_def)
  have "\<exists>J. h_jacobian real_libm (\<lambda>j. ?x j 0) 4 0 = Some J \<and> (\<forall>k < 4.
    ((\<lambda>s. the (observe real_libm 4 0 (\<lambda>j. ?x j s)) ! k) has_real_derivative (\<Sum>j \<leftarrow> [0..<11]. J ! k ! j * (if j = 0 then 1 else 0))) (at 0))"
    by (rule observation_jacobian [of ?x _ 0 4 0 "24 / 5" 0 0 0])
      (auto intro!: derivative_eq_intros simp: h_armor_xyz_real plate_angle_real use_l_h_def a limit_rad_inside)
  then show ?thesis by auto
qed

end
