(* ===== verification/Aimer.thy ===== *)
theory Aimer
  imports Tracker Target_Geometry Host_Link
begin

text \<open>
  Where to aim and when to fire: \<^verbatim>\<open>tasks/auto_aim/aimer.cpp\<close> and \<^verbatim>\<open>tasks/auto_aim/shooter.cpp\<close>. The aimer predicts the target to the
  moment of impact, chooses the plate to aim at, and solves the trajectory; the flight time is iterated at most ten times. The
  shooter compares the new command with the last one and with the gimbal.

  The state vector of a filter \<open>e\<close> is \<open>X e\<close>. Doubles are the values of an archimedean field, and a result \<open>None\<close> is a behaviour that the language
  leaves undefined or a value that is not a number: an access outside a vector, a cast to \<^verbatim>\<open>int\<close> of a value that does not fit, or a division by zero.
\<close>

section \<open>Aim points\<close>

record 'k aim_point =
  ap_valid :: bool
  ap_xyza :: "'k xyza"

text \<open>The plate that is locked is a number, or -1; the point for the shooter is not initialised before the first call.\<close>

record 'k aimer =
  ai_yaw_offset :: 'k
  ai_left_yaw_offset :: "'k option"
  ai_right_yaw_offset :: "'k option"
  ai_pitch_offset :: 'k
  ai_comming_angle :: 'k
  ai_leaving_angle :: 'k
  ai_lock_id :: int
  ai_high_speed_delay_time :: 'k
  ai_low_speed_delay_time :: 'k
  ai_decision_speed :: 'k
  ai_debug_aim_point :: "'k aim_point option"

text \<open>The keys of the configuration; a missing key and a value of another type both make the library throw.\<close>

record 'k aimer_config =
  ac_yaw_offset :: "'k yaml_value"
  ac_pitch_offset :: "'k yaml_value"
  ac_comming_angle :: "'k yaml_value"
  ac_leaving_angle :: "'k yaml_value"
  ac_high_speed_delay_time :: "'k yaml_value"
  ac_low_speed_delay_time :: "'k yaml_value"
  ac_decision_speed :: "'k yaml_value"
  ac_left_yaw_offset :: "'k yaml_value"
  ac_right_yaw_offset :: "'k yaml_value"

definition yaml_as :: "'a yaml_value \<Rightarrow> 'a option" where
  "yaml_as v = (case v of Missing \<Rightarrow> None | Bad_conversion \<Rightarrow> None | Value x \<Rightarrow> Some x)"

definition to_rad :: "'k :: linordered_field \<Rightarrow> 'k" where
  "to_rad degree = degree / (573 / 10)"

definition new_aimer :: "('k :: linordered_field) aimer_config \<Rightarrow> 'k aimer option" where
  "new_aimer yaml = do {
     yaw \<leftarrow> yaml_as (ac_yaw_offset yaml);
     pitch \<leftarrow> yaml_as (ac_pitch_offset yaml);
     comming \<leftarrow> yaml_as (ac_comming_angle yaml);
     leaving \<leftarrow> yaml_as (ac_leaving_angle yaml);
     high \<leftarrow> yaml_as (ac_high_speed_delay_time yaml);
     low \<leftarrow> yaml_as (ac_low_speed_delay_time yaml);
     speed \<leftarrow> yaml_as (ac_decision_speed yaml);
     (left, right) \<leftarrow>
       (if ac_left_yaw_offset yaml \<noteq> Missing \<and> ac_right_yaw_offset yaml \<noteq> Missing
        then do { l \<leftarrow> yaml_as (ac_left_yaw_offset yaml); r \<leftarrow> yaml_as (ac_right_yaw_offset yaml); Some (Some (to_rad l), Some (to_rad r)) }
        else Some (None, None));
     Some \<lparr>ai_yaw_offset = to_rad yaw, ai_left_yaw_offset = left, ai_right_yaw_offset = right, ai_pitch_offset = to_rad pitch,
       ai_comming_angle = to_rad comming, ai_leaving_angle = to_rad leaving, ai_lock_id = - 1, ai_high_speed_delay_time = high,
       ai_low_speed_delay_time = low, ai_decision_speed = speed, ai_debug_aim_point = None\<rparr>
   }"

definition nth_opt :: "'a list \<Rightarrow> int \<Rightarrow> 'a option" where
  "nth_opt xs i = (if 0 \<le> i \<and> i < int (length xs) then Some (xs ! nat i) else None)"

text \<open>The angles between the plates and the line to the centre of the target.\<close>

definition delta_angle_list :: "('k :: linordered_field) libm \<Rightarrow> (nat \<Rightarrow> 'k) \<Rightarrow> 'k xyza list \<Rightarrow> 'k list option" where
  "delta_angle_list M x plates = map_opt (\<lambda>(_, _, _, a). limit_rad M (a - lm_atan2 M (x 2) (x 0))) plates"

text \<open>The plates that can be shot at, by number.\<close>

definition id_list :: "('k :: linordered_field) list \<Rightarrow> nat list" where
  "id_list deltas = filter (\<lambda>i. \<not> \<bar>deltas ! i\<bar> > 60 / (573 / 10)) [0..<length deltas]"

text \<open>A plate on the side where the plates of a spinning target appear.\<close>

definition comes_up :: "'k :: linordered_field \<Rightarrow> 'k \<Rightarrow> 'k \<Rightarrow> 'k \<Rightarrow> bool" where
  "comes_up coming_angle leaving_angle spin delta \<longleftrightarrow>
     \<not> \<bar>delta\<bar> > coming_angle \<and> (spin > 0 \<and> delta < leaving_angle \<or> spin < 0 \<and> delta > - leaving_angle)"

definition choose_aim_point ::
  "('k :: linordered_field) libm \<Rightarrow> ('e \<Rightarrow> nat \<Rightarrow> 'k) \<Rightarrow> 'e target \<Rightarrow> 'k aimer \<Rightarrow> ('k aim_point \<times> 'k aimer) option" where
  "choose_aim_point M X g A = do {
     let x = X (tg_ekf g);
     plates \<leftarrow> armor_xyza_list M x (tg_armor_num g);
     if \<not> tg_jumped g then do { p \<leftarrow> nth_opt plates 0; Some (\<lparr>ap_valid = True, ap_xyza = p\<rparr>, A) }
     else do {
       deltas \<leftarrow> delta_angle_list M x plates;
       if \<bar>x 8\<bar> \<le> 2 \<and> tg_name g \<noteq> Outpost
       then (case id_list deltas of
         [] \<Rightarrow> do { p \<leftarrow> nth_opt plates 0; Some (\<lparr>ap_valid = False, ap_xyza = p\<rparr>, A) }
       | [i] \<Rightarrow> do { p \<leftarrow> nth_opt plates (int i); Some (\<lparr>ap_valid = True, ap_xyza = p\<rparr>, A\<lparr>ai_lock_id := - 1\<rparr>) }
       | id0 # id1 # _ \<Rightarrow> do {
           let lock = (if ai_lock_id A \<noteq> int id0 \<and> ai_lock_id A \<noteq> int id1
             then if \<bar>deltas ! id0\<bar> < \<bar>deltas ! id1\<bar> then int id0 else int id1 else ai_lock_id A);
           p \<leftarrow> nth_opt plates lock;
           Some (\<lparr>ap_valid = True, ap_xyza = p\<rparr>, A\<lparr>ai_lock_id := lock\<rparr>)
         })
       else do {
         let (coming_angle, leaving_angle) =
           (if tg_name g = Outpost then (70 / (573 / 10), 30 / (573 / 10)) else (ai_comming_angle A, ai_leaving_angle A));
         (case find (\<lambda>i. comes_up coming_angle leaving_angle (x 7) (deltas ! i)) [0..<length deltas] of
           Some i \<Rightarrow> do { p \<leftarrow> nth_opt plates (int i); Some (\<lparr>ap_valid = True, ap_xyza = p\<rparr>, A) }
         | None \<Rightarrow> do { p \<leftarrow> nth_opt plates 0; Some (\<lparr>ap_valid = False, ap_xyza = p\<rparr>, A) })
       }
     }
   }"

section \<open>Aiming\<close>

definition no_command :: "('k :: linordered_field) command" where
  "no_command = \<lparr>co_control = False, co_shoot = False, co_yaw = 0, co_pitch = 0, co_horizon_distance = 0\<rparr>"

text \<open>A cast to \<^verbatim>\<open>int\<close>, which truncates.\<close>

definition to_int :: "'k :: floor_ceiling \<Rightarrow> int option" where
  "to_int x = (let n = (if 0 \<le> x then \<lfloor>x\<rfloor> else \<lceil>x\<rceil>) in if - (2 ^ 31) \<le> n \<and> n < 2 ^ 31 then Some n else None)"

definition horizontal :: "('k :: linordered_field) libm \<Rightarrow> 'k xyza \<Rightarrow> 'k" where
  "horizontal M = (\<lambda>(x, y, _, _). lm_sqrt M (x * x + y * y))"

definition height :: "'k xyza \<Rightarrow> 'k" where
  "height = (\<lambda>(_, _, z, _). z)"

definition invalidate :: "'k aimer \<Rightarrow> 'k aimer" where
  "invalidate A = A\<lparr>ai_debug_aim_point := map_option (\<lambda>p. p\<lparr>ap_valid := False\<rparr>) (ai_debug_aim_point A)\<rparr>"

text \<open>A prediction: the plate to aim at and the trajectory to it; no result if there is none.\<close>

definition aim_at ::
  "('k :: floor_ceiling) libm \<Rightarrow> ('e \<Rightarrow> nat \<Rightarrow> 'k) \<Rightarrow> 'k \<Rightarrow> 'e target \<Rightarrow> 'k aimer \<Rightarrow> (('k \<times> 'k) option \<times> 'k aimer) option" where
  "aim_at M X bullet_speed g A = do {
     (p, A) \<leftarrow> choose_aim_point M X g A;
     let A = A\<lparr>ai_debug_aim_point := Some p\<rparr>;
     if \<not> ap_valid p then Some (None, A)
     else do {
       j \<leftarrow> new_trajectory M bullet_speed (horizontal M (ap_xyza p)) (height (ap_xyza p));
       (case j of Unsolvable \<Rightarrow> Some (None, invalidate A) | Solvable t pitch \<Rightarrow> Some (Some (t, pitch), A))
     }
   }"

text \<open>The iteration of the time of flight, with the rounds that are left; its result is the pitch of the last trajectory.\<close>

fun aim_loop ::
  "('k :: floor_ceiling) libm \<Rightarrow> ('e, 'a, 'k) vision \<Rightarrow> ('e \<Rightarrow> nat \<Rightarrow> 'k) \<Rightarrow> 'k \<Rightarrow> int \<Rightarrow> 'e target \<Rightarrow> nat \<Rightarrow> 'k \<Rightarrow> 'k \<Rightarrow> 'k aimer \<Rightarrow> ('k option \<times> 'k aimer) option" where
  "aim_loop M V X bullet_speed future target 0 prev_fly_time pitch A = Some (Some pitch, A)"
| "aim_loop M V X bullet_speed future target (Suc n) prev_fly_time pitch A = do {
     us \<leftarrow> to_int (prev_fly_time * 10 ^ 6);
     (r, A) \<leftarrow> aim_at M X bullet_speed (target_predict V (future + 1000 * us) target) A;
     (case r of None \<Rightarrow> Some (None, A)
      | Some (t, pitch) \<Rightarrow>
          if \<bar>t - prev_fly_time\<bar> < 1 / 1000 then Some (Some pitch, A)
          else aim_loop M V X bullet_speed future target n t pitch A)
   }"

text \<open>\<^verbatim>\<open>aim\<close>; \<open>now\<close> is the reading of the steady clock.\<close>

definition aim ::
  "('k :: floor_ceiling) libm \<Rightarrow> ('e, 'a, 'k) vision \<Rightarrow> ('e \<Rightarrow> nat \<Rightarrow> 'k) \<Rightarrow> int \<Rightarrow> 'e target list \<Rightarrow> int \<Rightarrow> 'k \<Rightarrow> bool \<Rightarrow> 'k aimer \<Rightarrow> ('k command \<times> 'k aimer) option" where
  "aim M V X now targets timestamp bullet_speed to_now A = (case targets of
     [] \<Rightarrow> Some (no_command, A)
   | target # _ \<Rightarrow> do {
       let delay_time = (if X (tg_ekf target) 7 > ai_decision_speed A then ai_high_speed_delay_time A else ai_low_speed_delay_time A);
       let bullet_speed = (if bullet_speed < 14 then 23 else bullet_speed);
       let dt = (if to_now then delta_seconds now timestamp + delay_time else 5 / 1000 + delay_time);
       us \<leftarrow> to_int (dt * 10 ^ 6);
       let future = timestamp + 1000 * us;
       let target = target_predict V future target;
       (r, A) \<leftarrow> aim_at M X bullet_speed target A;
       (case r of
         None \<Rightarrow> Some (no_command, A)
       | Some (t0, pitch0) \<Rightarrow> do {
           (r, A) \<leftarrow> aim_loop M V X bullet_speed future target 10 t0 pitch0 A;
           (case r of
             None \<Rightarrow> Some (no_command, A)
           | Some pitch \<Rightarrow> do {
               p \<leftarrow> ai_debug_aim_point A;
               let (x, y, _, _) = ap_xyza p;
               Some (\<lparr>co_control = True, co_shoot = False, co_yaw = lm_atan2 M y x + ai_yaw_offset A, co_pitch = - (pitch + ai_pitch_offset A),
                  co_horizon_distance = 0\<rparr>, A)
             })
         })
     })"

text \<open>The form of \<^verbatim>\<open>aim\<close> for robots with two barrels.\<close>

definition aim_shoot_mode ::
  "('k :: floor_ceiling) libm \<Rightarrow> ('e, 'a, 'k) vision \<Rightarrow> ('e \<Rightarrow> nat \<Rightarrow> 'k) \<Rightarrow> int \<Rightarrow> 'e target list \<Rightarrow> int \<Rightarrow> 'k \<Rightarrow> shoot_mode \<Rightarrow> bool \<Rightarrow> 'k aimer \<Rightarrow>
   ('k command \<times> 'k aimer) option" where
  "aim_shoot_mode M V X now targets timestamp bullet_speed mode to_now A = do {
     let yaw_offset = (case (mode, ai_left_yaw_offset A, ai_right_yaw_offset A) of
         (Left_shoot, Some y, _) \<Rightarrow> y
       | (Right_shoot, _, Some y) \<Rightarrow> y
       | _ \<Rightarrow> ai_yaw_offset A);
     (c, A) \<leftarrow> aim M V X now targets timestamp bullet_speed to_now A;
     Some (c\<lparr>co_yaw := co_yaw c - ai_yaw_offset A + yaw_offset\<rparr>, A)
   }"

section \<open>Shooting\<close>

record 'k shooter =
  sh_last_command :: "'k command"
  sh_judge_distance :: 'k
  sh_first_tolerance :: 'k
  sh_second_tolerance :: 'k
  sh_auto_fire :: bool

definition new_shooter :: "('k :: linordered_field) yaml_value \<Rightarrow> 'k yaml_value \<Rightarrow> 'k yaml_value \<Rightarrow> bool yaml_value \<Rightarrow> 'k shooter option" where
  "new_shooter first_tolerance second_tolerance judge_distance auto_fire = do {
     a \<leftarrow> yaml_as first_tolerance;
     b \<leftarrow> yaml_as second_tolerance;
     c \<leftarrow> yaml_as judge_distance;
     d \<leftarrow> yaml_as auto_fire;
     Some \<lparr>sh_last_command = no_command, sh_judge_distance = c, sh_first_tolerance = to_rad a, sh_second_tolerance = to_rad b, sh_auto_fire = d\<rparr>
   }"

text \<open>\<^verbatim>\<open>shoot\<close>; reading the aim point before the aimer has set it is undefined. \<open>gimbal_yaw\<close> is the first component of \<^verbatim>\<open>gimbal_pos\<close>.\<close>

definition shoot ::
  "('k :: linordered_field) libm \<Rightarrow> ('e \<Rightarrow> nat \<Rightarrow> 'k) \<Rightarrow> 'k command \<Rightarrow> 'k aimer \<Rightarrow> 'e target list \<Rightarrow> 'k \<Rightarrow> 'k shooter \<Rightarrow> (bool \<times> 'k shooter) option" where
  "shoot M X c A targets gimbal_yaw S =
     (if \<not> co_control c \<or> targets = [] \<or> \<not> sh_auto_fire S then Some (False, S)
      else
        let target_x = X (tg_ekf (hd targets)) 0;
            target_y = X (tg_ekf (hd targets)) 2;
            tolerance = (if lm_sqrt M (square target_x + square target_y) > sh_judge_distance S then sh_second_tolerance S else sh_first_tolerance S)
        in if \<bar>co_yaw (sh_last_command S) - co_yaw c\<bar> < tolerance * 2 \<and> \<bar>gimbal_yaw - co_yaw (sh_last_command S)\<bar> < tolerance
           then do { p \<leftarrow> ai_debug_aim_point A; Some (ap_valid p, S\<lparr>sh_last_command := c\<rparr>) }
           else Some (False, S\<lparr>sh_last_command := c\<rparr>))"

section \<open>The chosen plate\<close>

lemma armor_xyza_list_real:
  assumes "0 < n"
  shows "\<exists>plates. armor_xyza_list real_libm x n = Some plates \<and> length plates = n"
proof -
  have "\<exists>b. (do { angle \<leftarrow> plate_angle real_libm x n i; (a, b, c) \<leftarrow> h_armor_xyz real_libm x n i; Some (a, b, c, angle) }) = Some b" for i
    using assms limit_rad_real [of "raw_angle x n i"] by (auto simp: plate_angle_real h_armor_xyz_real)
  from map_opt_total [of "[0..<n]" "\<lambda>i. do { angle \<leftarrow> plate_angle real_libm x n i; (a, b, c) \<leftarrow> h_armor_xyz real_libm x n i; Some (a, b, c, angle) }"] this
  show ?thesis by (auto simp: armor_xyza_list_def)
qed

lemma delta_angle_list_real:
  "\<exists>deltas. delta_angle_list real_libm x plates = Some deltas \<and> length deltas = length plates \<and>
     (\<forall>i < length plates. limit_rad real_libm (snd (snd (snd (plates ! i))) - real_atan2 (x 2) (x 0)) = Some (deltas ! i))"
proof -
  let ?f = "\<lambda>(_, _, _, a). limit_rad real_libm (a - lm_atan2 real_libm (x 2) (x 0))"
  have "\<exists>b. ?f p = Some b" for p using limit_rad_real by (auto split: prod.split)
  then have "\<exists>bs. map_opt ?f plates = Some bs \<and> length bs = length plates \<and> (\<forall>i < length plates. ?f (plates ! i) = Some (bs ! i))"
    by (intro map_opt_total)
  then show ?thesis by (simp add: delta_angle_list_def split_beta)
qed

lemma id_list_in: "i \<in> set (id_list deltas) \<longleftrightarrow> i < length deltas \<and> \<bar>deltas ! i\<bar> \<le> 60 / (573 / 10)"
  by (auto simp: id_list_def)

lemma nth_opt_in [simp]: "i < length xs \<Longrightarrow> nth_opt xs (int i) = Some (xs ! i)"
  by (simp add: nth_opt_def)

text \<open>The widest angle under which a plate is chosen.\<close>

definition view_limit :: "('e \<Rightarrow> nat \<Rightarrow> 'k :: linordered_field) \<Rightarrow> 'e target \<Rightarrow> 'k aimer \<Rightarrow> 'k" where
  "view_limit X g A = (if tg_name g = Outpost then 70 / (573 / 10) else if \<bar>X (tg_ekf g) 8\<bar> \<le> 2 then 60 / (573 / 10) else ai_comming_angle A)"

lemma choose_index:
  assumes "armor_xyza_list M (X (tg_ekf g)) (tg_armor_num g) = Some plates" and "plates \<noteq> []" and "tg_jumped g"
    and "delta_angle_list M (X (tg_ekf g)) plates = Some deltas" and "length deltas = length plates"
  shows "\<exists>v i l. choose_aim_point M X g A = Some (\<lparr>ap_valid = v, ap_xyza = plates ! i\<rparr>, A\<lparr>ai_lock_id := l\<rparr>) \<and> i < length plates \<and>
    (v \<longrightarrow> \<bar>deltas ! i\<bar> \<le> view_limit X g A)"
proof (cases "\<bar>X (tg_ekf g) 8\<bar> \<le> 2 \<and> tg_name g \<noteq> Outpost")
  case True
  have lim: "view_limit X g A = 60 / (573 / 10)" using True by (simp add: view_limit_def)
  consider "id_list deltas = []" | i where "id_list deltas = [i]" | a b r where "id_list deltas = a # b # r" by (metis neq_Nil_conv)
  then show ?thesis
  proof cases
    case 1
    then show ?thesis using True assms by (intro exI [of _ False] exI [of _ "0 :: nat"] exI [of _ "ai_lock_id A"]) (simp add: choose_aim_point_def Let_def nth_opt_def)
  next
    case 2
    then have "i < length deltas" "\<bar>deltas ! i\<bar> \<le> view_limit X g A" using id_list_in [of i deltas] lim by simp_all
    then show ?thesis using True assms 2
      by (intro exI [of _ True] exI [of _ i] exI [of _ "- 1"]) (simp add: choose_aim_point_def Let_def)
  next
    case 3
    define k where "k = (if ai_lock_id A \<noteq> int a \<and> ai_lock_id A \<noteq> int b then if \<bar>deltas ! a\<bar> < \<bar>deltas ! b\<bar> then a else b else nat (ai_lock_id A))"
    have k: "k \<in> set (id_list deltas)"  "(if ai_lock_id A \<noteq> int a \<and> ai_lock_id A \<noteq> int b
        then if \<bar>deltas ! a\<bar> < \<bar>deltas ! b\<bar> then int a else int b else ai_lock_id A) = int k" using 3 by (auto simp: k_def)
    then have "k < length deltas" "\<bar>deltas ! k\<bar> \<le> view_limit X g A" using id_list_in [of k deltas] lim by simp_all
    then show ?thesis using True assms 3 k(2)
      by (intro exI [of _ True] exI [of _ k] exI [of _ "int k"]) (simp add: choose_aim_point_def Let_def)
  qed
next
  case False
  then have N: "(\<bar>X (tg_ekf g) 8\<bar> \<le> 2 \<and> tg_name g \<noteq> Outpost) = False" by blast
  define l where "l = (if tg_name g = Outpost then (70 / (573 / 10), 30 / (573 / 10)) else (ai_comming_angle A, ai_leaving_angle A))"
  obtain c d where cd: "l = (c, d)" by fastforce
  have c: "c = view_limit X g A" using False cd by (auto simp: view_limit_def l_def split: if_splits)
  show ?thesis
  proof (cases "find (\<lambda>i. comes_up c d (X (tg_ekf g) 7) (deltas ! i)) [0..<length deltas]")
    case None
    then show ?thesis using assms cd
      by (intro exI [of _ False] exI [of _ "0 :: nat"] exI [of _ "ai_lock_id A"]) (simp add: choose_aim_point_def Let_def N l_def [symmetric] nth_opt_def)
  next
    case (Some i)
    then have "i < length deltas" "comes_up c d (X (tg_ekf g) 7) (deltas ! i)" by (auto simp: find_Some_iff)
    then show ?thesis using assms cd Some c
      by (intro exI [of _ True] exI [of _ i] exI [of _ "ai_lock_id A"]) (simp add: choose_aim_point_def Let_def N l_def [symmetric] comes_up_def)
  qed
qed

lemma choose_aim_point_total:
  assumes "0 < tg_armor_num g"
  shows "\<exists>p A' plates. choose_aim_point real_libm X g A = Some (p, A') \<and> armor_xyza_list real_libm (X (tg_ekf g)) (tg_armor_num g) = Some plates \<and>
    ap_xyza p \<in> set plates \<and> A' = A\<lparr>ai_lock_id := ai_lock_id A'\<rparr> \<and>
    (tg_jumped g \<and> ap_valid p \<longrightarrow> (\<exists>delta. limit_rad real_libm (snd (snd (snd (ap_xyza p))) - real_atan2 (X (tg_ekf g) 2) (X (tg_ekf g) 0)) = Some delta \<and>
       \<bar>delta\<bar> \<le> view_limit X g A))"
proof -
  obtain plates where p: "armor_xyza_list real_libm (X (tg_ekf g)) (tg_armor_num g) = Some plates" "length plates = tg_armor_num g"
    using armor_xyza_list_real [OF assms] by blast
  then have ne: "plates \<noteq> []" using assms by auto
  then have "plates ! 0 \<in> set plates" by (cases plates) simp_all
  note first = this
  show ?thesis
  proof (cases "tg_jumped g")
    case False
    then show ?thesis using p ne first by (simp add: choose_aim_point_def nth_opt_def)
  next
    case True
    obtain deltas where d: "delta_angle_list real_libm (X (tg_ekf g)) plates = Some deltas" "length deltas = length plates"
      "\<forall>i < length plates. limit_rad real_libm (snd (snd (snd (plates ! i))) - real_atan2 (X (tg_ekf g) 2) (X (tg_ekf g) 0)) = Some (deltas ! i)"
      using delta_angle_list_real by blast
    from choose_index [where X = X and g = g and A = A, OF p(1) ne True d(1,2)] show ?thesis using p(1) d(3) by fastforce
  qed
qed

text \<open>
  The aim point: for a target with plates the choice always returns, one of the plates. If it is valid, and the target has
  shown more than one plate, the plate faces the gimbal: the angle between its normal and the line to the centre of the target is within the limit for the kind of target.
\<close>

theorem aim_point_faces_gimbal:
  assumes "0 < tg_armor_num g"
  shows "\<exists>p A' plates. choose_aim_point real_libm X g A = Some (p, A') \<and> armor_xyza_list real_libm (X (tg_ekf g)) (tg_armor_num g) = Some plates \<and>
    ap_xyza p \<in> set plates \<and> A' = A\<lparr>ai_lock_id := ai_lock_id A'\<rparr> \<and>
    (tg_jumped g \<and> ap_valid p \<longrightarrow> (\<exists>delta. limit_rad real_libm (snd (snd (snd (ap_xyza p))) - real_atan2 (X (tg_ekf g) 2) (X (tg_ekf g) 0)) = Some delta \<and>
       \<bar>delta\<bar> \<le> view_limit X g A))"
  using assms by (rule choose_aim_point_total)

text \<open>
  The lock: a plate that the aimer has locked is chosen again, for any later target with two plates or more in view, as long as it is among the
  first two of them, however their angles compare.
\<close>

theorem lock_is_kept:
  assumes "tg_jumped g" and "\<bar>X (tg_ekf g) 8\<bar> \<le> 2" and "tg_name g \<noteq> Outpost"
    and "armor_xyza_list M (X (tg_ekf g)) (tg_armor_num g) = Some plates"
    and "delta_angle_list M (X (tg_ekf g)) plates = Some deltas"
    and "id_list deltas = id0 # id1 # r" and "ai_lock_id A = int i" and "i \<in> {id0, id1}"
  shows "choose_aim_point M X g A = Some (\<lparr>ap_valid = True, ap_xyza = plates ! i\<rparr>, A)"
proof -
  have "length deltas = length plates" using assms(5) map_opt_nth unfolding delta_angle_list_def by blast
  moreover have "i \<in> set (id_list deltas)" using assms(6,8) by auto
  ultimately have "i < length plates" by (simp add: id_list_in)
  then show ?thesis using assms by (auto simp: choose_aim_point_def Let_def)
qed

text \<open>What the divergence test of a target reads of the filter: the radius is within bounds.\<close>

definition radius_test :: "('e, 'a, 'k :: linordered_field) vision \<Rightarrow> ('e \<Rightarrow> nat \<Rightarrow> 'k) \<Rightarrow> bool" where
  "radius_test V X \<longleftrightarrow> (\<forall>e. vi_r_ok V e \<longleftrightarrow> 5 / 100 < X e 8 \<and> X e 8 < 1 / 2)"

text \<open>
  Spinning is never considered: the test that should tell a spinning target from a still one reads the radius of the target (component 8 of the state)
  and not its angular velocity (component 7), and the radius of a target that has not diverged is always below the threshold. So, but for outposts, the
  plate is chosen as if the target stood still, at whatever speed it turns.
\<close>

theorem spin_ignored:
  assumes "radius_test V X" and "\<not> target_diverged V g" and "tg_name g \<noteq> Outpost" and "\<And>e i. i \<noteq> 7 \<Longrightarrow> Y e i = X e i"
  shows "choose_aim_point M Y g A = choose_aim_point M X g A"
proof -
  have r: "5 / 100 < X (tg_ekf g) 8 \<and> X (tg_ekf g) 8 < 1 / 2" using assms(1,2) by (simp add: radius_test_def target_diverged_def)
  have "0 < X (tg_ekf g) 8" by (rule order.strict_trans [OF _ conjunct1 [OF r]]) simp
  moreover have "X (tg_ekf g) 8 < 2" by (rule order.strict_trans [OF conjunct2 [OF r]]) simp
  ultimately have small: "\<bar>X (tg_ekf g) 8\<bar> \<le> 2" by simp
  have angle: "plate_angle M (Y (tg_ekf g)) n i = plate_angle M (X (tg_ekf g)) n i" for n i using assms(4) by (simp add: plate_angle_def)
  have "h_armor_xyz M (Y (tg_ekf g)) n i = h_armor_xyz M (X (tg_ekf g)) n i" for n i
    using assms(4) by (simp add: h_armor_xyz_def angle Let_def)
  then have plates: "armor_xyza_list M (Y (tg_ekf g)) n = armor_xyza_list M (X (tg_ekf g)) n" for n by (simp add: armor_xyza_list_def angle)
  have deltas: "delta_angle_list M (Y (tg_ekf g)) ps = delta_angle_list M (X (tg_ekf g)) ps" for ps using assms(4) by (simp add: delta_angle_list_def)
  have "(\<bar>X (tg_ekf g) 8\<bar> \<le> 2 \<and> tg_name g \<noteq> Outpost) = True" "(\<bar>Y (tg_ekf g) 8\<bar> \<le> 2 \<and> tg_name g \<noteq> Outpost) = True"
    using small assms(3,4) by simp_all
  then show ?thesis unfolding choose_aim_point_def Let_def plates deltas by (simp only: if_True)
qed

section \<open>The trajectory of a command\<close>

lemma choose_aim_point_real:
  assumes "choose_aim_point real_libm X g A = Some (p, A')"
  shows "\<exists>plates. armor_xyza_list real_libm (X (tg_ekf g)) (tg_armor_num g) = Some plates \<and> ap_xyza p \<in> set plates \<and> A' = A\<lparr>ai_lock_id := ai_lock_id A'\<rparr>"
proof (cases "tg_armor_num g")
  case 0
  then show ?thesis using assms
    by (auto simp: choose_aim_point_def armor_xyza_list_def delta_angle_list_def id_list_def nth_opt_def Let_def split: if_splits)
next
  case (Suc n)
  then show ?thesis using assms choose_aim_point_total [of g X A] by auto
qed

text \<open>The elevation \<open>q\<close> strikes the plate of the aim point, one of the plates of \<open>g\<close>.\<close>

definition aims_at :: "('e \<Rightarrow> nat \<Rightarrow> real) \<Rightarrow> real \<Rightarrow> 'e target \<Rightarrow> real \<Rightarrow> real aimer \<Rightarrow> bool" where
  "aims_at X v g q A \<longleftrightarrow> (\<exists>x y z a plates t. armor_xyza_list real_libm (X (tg_ekf g)) (tg_armor_num g) = Some plates \<and> (x, y, z, a) \<in> set plates \<and>
     ai_debug_aim_point A = Some \<lparr>ap_valid = True, ap_xyza = (x, y, z, a)\<rparr> \<and> strikes v q t (sqrt (x * x + y * y)) z)"

definition same_offsets :: "'k aimer \<Rightarrow> 'k aimer \<Rightarrow> bool" where
  "same_offsets A B \<longleftrightarrow> ai_yaw_offset B = ai_yaw_offset A \<and> ai_pitch_offset B = ai_pitch_offset A"

lemma new_trajectory_distance: "new_trajectory M v 0 h = None"
  by (simp add: new_trajectory_def fdiv_def Let_def)

lemma aim_at_real:
  assumes "aim_at real_libm X v g A = Some (r, A')" and "0 < v"
  shows "same_offsets A A' \<and> (\<forall>t q. r = Some (t, q) \<longrightarrow> aims_at X v g q A')"
proof -
  obtain p A1 where c: "choose_aim_point real_libm X g A = Some (p, A1)" using assms(1) by (auto simp: aim_at_def bind_Some_iff)
  obtain plates where p: "armor_xyza_list real_libm (X (tg_ekf g)) (tg_armor_num g) = Some plates" "ap_xyza p \<in> set plates" "A1 = A\<lparr>ai_lock_id := ai_lock_id A1\<rparr>"
    using choose_aim_point_real [OF c] by blast
  obtain x y z a where xyza: "ap_xyza p = (x, y, z, a)" by (metis surj_pair)
  have "same_offsets A A1" by (subst p(3)) (simp add: same_offsets_def)
  moreover have "aims_at X v g q A'" if "r = Some (t, q)" for t q
  proof -
    let ?d = "sqrt (x * x + y * y)"
    have valid: "ap_valid p" using assms(1) that by (auto simp: aim_at_def c Let_def split: if_splits)
    then obtain j where j: "new_trajectory real_libm v ?d z = Some j"
      using assms(1) by (auto simp: aim_at_def c xyza horizontal_def height_def Let_def bind_Some_iff)
    then have j: "ap_valid p" "new_trajectory real_libm v ?d z = Some (Solvable t q)" "A' = A1\<lparr>ai_debug_aim_point := Some p\<rparr>"
      using assms(1) that valid by (cases j; simp add: aim_at_def c xyza horizontal_def height_def Let_def)+
    then have "?d \<noteq> 0" using new_trajectory_distance [of real_libm v z] by auto
    then have "0 < ?d" using real_sqrt_ge_zero [of "x * x + y * y"] by (simp del: real_sqrt_eq_zero_cancel_iff real_sqrt_gt_0_iff add: less_le)
    from trajectory_real [OF assms(2) this, of z] j(2) have "strikes v q t ?d z" by auto
    then show ?thesis using p j xyza unfolding aims_at_def by (intro exI conjI) auto
  qed
  moreover have "same_offsets A1 A'"
  proof (cases "ap_valid p")
    case False
    then show ?thesis using assms(1) by (auto simp: aim_at_def c Let_def same_offsets_def)
  next
    case True
    then obtain j where "new_trajectory real_libm v (horizontal real_libm (ap_xyza p)) (height (ap_xyza p)) = Some j"
      using assms(1) by (auto simp: aim_at_def c Let_def bind_Some_iff)
    then show ?thesis using True assms(1) by (cases j) (auto simp: aim_at_def c Let_def same_offsets_def invalidate_def)
  qed
  ultimately show ?thesis by (simp add: same_offsets_def)
qed

lemma aim_loop_SomeD:
  assumes "aim_loop M V X v future g (Suc n) prev q0 A = Some (Some q, A')"
  shows "\<exists>us t q1 A1. aim_at M X v (target_predict V (future + 1000 * us) g) A = Some (Some (t, q1), A1) \<and>
    (q1 = q \<and> A1 = A' \<or> aim_loop M V X v future g n t q1 A1 = Some (Some q, A'))"
proof -
  obtain us r A1 where a: "to_int (prev * 10 ^ 6) = Some us" "aim_at M X v (target_predict V (future + 1000 * us) g) A = Some (r, A1)"
    using assms by (auto simp: bind_Some_iff)
  then obtain t q1 where r: "r = Some (t, q1)" using assms by (cases r) auto
  then show ?thesis using assms a by (intro exI [of _ us] exI [of _ t] exI [of _ q1] exI [of _ A1]) (auto split: if_split_asm)
qed

lemma aim_loop_real:
  assumes "aim_loop real_libm V X v future g (Suc n) prev q0 A = Some (Some q, A')" and "0 < v"
  shows "same_offsets A A' \<and> (\<exists>t. aims_at X v (target_predict V t g) q A')"
  using assms(1)
proof (induction n arbitrary: prev q0 A)
  case 0
  then show ?case using aim_at_real [OF _ assms(2)] by (fastforce dest!: aim_loop_SomeD)
next
  case (Suc n)
  from aim_loop_SomeD [OF Suc.prems] obtain us t q1 A1 where
    a: "aim_at real_libm X v (target_predict V (future + 1000 * us) g) A = Some (Some (t, q1), A1)"
    and l: "q1 = q \<and> A1 = A' \<or> aim_loop real_libm V X v future g (Suc n) t q1 A1 = Some (Some q, A')" by blast
  show ?case using aim_at_real [OF a assms(2)] l Suc.IH [of t q1 A1] by (auto simp: same_offsets_def)
qed

text \<open>The aim point is invalid because the choice said so, or because no elevation strikes it.\<close>

definition refuses :: "('e \<Rightarrow> nat \<Rightarrow> real) \<Rightarrow> real \<Rightarrow> 'e target \<Rightarrow> real aimer \<Rightarrow> bool" where
  "refuses X v g A \<longleftrightarrow> (\<exists>p. ai_debug_aim_point A = Some p \<and> \<not> ap_valid p \<and>
     ((\<exists>B B'. choose_aim_point real_libm X g B = Some (p, B')) \<or>
      (\<forall>q t. \<not> strikes v q t (horizontal real_libm (ap_xyza p)) (height (ap_xyza p)))))"

lemma aim_at_refuses:
  assumes "aim_at real_libm X v g A = Some (None, A')" and "0 < v"
  shows "refuses X v g A'"
proof -
  obtain p A1 where c: "choose_aim_point real_libm X g A = Some (p, A1)" using assms(1) by (auto simp: aim_at_def bind_Some_iff)
  show ?thesis
  proof (cases "ap_valid p")
    case False
    then show ?thesis using assms(1) c by (auto simp: aim_at_def Let_def refuses_def)
  next
    case True
    obtain x y z a where xyza: "ap_xyza p = (x, y, z, a)" by (metis surj_pair)
    let ?d = "sqrt (x * x + y * y)"
    from True obtain j where j: "new_trajectory real_libm v ?d z = Some j"
      using assms(1) by (auto simp: aim_at_def c xyza horizontal_def height_def Let_def bind_Some_iff)
    then have "?d \<noteq> 0" using new_trajectory_distance [of real_libm v z] by auto
    then have d: "0 < ?d" using real_sqrt_ge_zero [of "x * x + y * y"] by (simp del: real_sqrt_eq_zero_cancel_iff real_sqrt_gt_0_iff add: less_le)
    have "j = Unsolvable" "A' = invalidate (A1\<lparr>ai_debug_aim_point := Some p\<rparr>)"
      using assms(1) True j by (cases j; simp add: aim_at_def c xyza horizontal_def height_def Let_def)+
    then show ?thesis using trajectory_real [OF assms(2) d, of z] j xyza by (auto simp: refuses_def invalidate_def horizontal_def height_def)
  qed
qed

lemma aim_loop_refuses:
  assumes "aim_loop real_libm V X v future g n prev q0 A = Some (None, A')" and "0 < v"
  shows "\<exists>t. refuses X v (target_predict V t g) A'"
  using assms(1)
proof (induction n arbitrary: prev q0 A)
  case (Suc n)
  then obtain us r A1 where a: "to_int (prev * 10 ^ 6) = Some us" "aim_at real_libm X v (target_predict V (future + 1000 * us) g) A = Some (r, A1)"
    by (auto simp: bind_Some_iff)
  show ?case
  proof (cases r)
    case None
    then have "aim_at real_libm X v (target_predict V (future + 1000 * us) g) A = Some (None, A')" using Suc.prems a by simp
    from aim_at_refuses [OF this assms(2)] show ?thesis by blast
  next
    case (Some tq)
    then obtain t q where "r = Some (t, q)" by (cases tq) auto
    then show ?thesis using Suc.prems a Suc.IH [of t q A1] by (auto split: if_split_asm)
  qed
qed simp

lemma aim_SomeD:
  assumes "aim M V X now (g # rest) timestamp bullet_speed to_now A = Some (c, A')"
  defines "v \<equiv> if bullet_speed < 14 then 23 else bullet_speed"
  shows "c = no_command \<and> (\<exists>t1. aim_at M X v (target_predict V t1 g) A = Some (None, A') \<or>
      (\<exists>t0 q0 B. aim_loop M V X v t1 (target_predict V t1 g) 10 t0 q0 B = Some (None, A'))) \<or> (\<exists>t1 t0 q0 A1 q p x y z a. aim_at M X v (target_predict V t1 g) A = Some (Some (t0, q0), A1) \<and>
    aim_loop M V X v t1 (target_predict V t1 g) 10 t0 q0 A1 = Some (Some q, A') \<and> ai_debug_aim_point A' = Some p \<and> ap_xyza p = (x, y, z, a) \<and>
    c = \<lparr>co_control = True, co_shoot = False, co_yaw = lm_atan2 M y x + ai_yaw_offset A', co_pitch = - (q + ai_pitch_offset A'), co_horizon_distance = 0\<rparr>)"
proof -
  define us where "us = to_int ((if to_now then delta_seconds now timestamp + (if X (tg_ekf g) 7 > ai_decision_speed A then ai_high_speed_delay_time A else ai_low_speed_delay_time A)
    else 5 / 1000 + (if X (tg_ekf g) 7 > ai_decision_speed A then ai_high_speed_delay_time A else ai_low_speed_delay_time A)) * 10 ^ 6)"
  note run = assms(1) [unfolded aim_def list.case Let_def, folded v_def us_def]
  obtain u where u: "us = Some u" using run by (cases us) auto
  let ?t = "timestamp + 1000 * u"
  obtain r A1 where r: "aim_at M X v (target_predict V ?t g) A = Some (r, A1)" using run u by (auto simp: bind_Some_iff)
  show ?thesis
  proof (cases r)
    case None
    then show ?thesis using run u r by (intro disjI1) auto
  next
    case (Some tq)
    obtain t0 q0 where tq: "tq = (t0, q0)" by fastforce
    obtain r2 A2 where r2: "aim_loop M V X v ?t (target_predict V ?t g) 10 t0 q0 A1 = Some (r2, A2)"
      using run u r Some tq by (auto simp: bind_Some_iff)
    show ?thesis
    proof (cases r2)
      case None
      then show ?thesis using run u r Some tq r2 by (intro disjI1) auto
    next
      case (Some q)
      then obtain p where p: "ai_debug_aim_point A2 = Some p" using run u r \<open>r = Some tq\<close> tq r2 by (auto simp: bind_Some_iff)
      obtain x y z a where "ap_xyza p = (x, y, z, a)" by (metis surj_pair)
      then show ?thesis using run u r \<open>r = Some tq\<close> tq r2 Some p by (intro disjI2 exI conjI) auto
    qed
  qed
qed

lemma aim_correct:
  assumes "aim real_libm V X now targets timestamp bullet_speed to_now A = Some (c, A')" and "targets \<noteq> []"
  shows "if co_control c
    then \<exists>g rest t1 t2 plates x y z a t. targets = g # rest \<and>
      armor_xyza_list real_libm (X (tg_ekf (target_predict V t2 (target_predict V t1 g)))) (tg_armor_num g) = Some plates \<and> (x, y, z, a) \<in> set plates \<and>
      ai_debug_aim_point A' = Some \<lparr>ap_valid = True, ap_xyza = (x, y, z, a)\<rparr> \<and> \<not> co_shoot c \<and>
      sqrt (x * x + y * y) * cos (co_yaw c - ai_yaw_offset A) = x \<and> sqrt (x * x + y * y) * sin (co_yaw c - ai_yaw_offset A) = y \<and>
      strikes (if bullet_speed < 14 then 23 else bullet_speed) (- co_pitch c - ai_pitch_offset A) t (sqrt (x * x + y * y)) z
    else c = no_command \<and> (\<exists>t1 t2. refuses X (if bullet_speed < 14 then 23 else bullet_speed) (target_predict V t1 (hd targets)) A' \<or>
      refuses X (if bullet_speed < 14 then 23 else bullet_speed) (target_predict V t2 (target_predict V t1 (hd targets))) A')"
proof (cases targets)
  case Nil
  then show ?thesis using assms(2) by simp
next
  case (Cons g rest)
  define v where "v = (if bullet_speed < 14 then 23 else bullet_speed)"
  have v: "0 < v" by (simp add: v_def)
  from aim_SomeD [OF assms(1) [unfolded Cons]] show ?thesis
  proof (elim disjE exE conjE)
    fix t1
    assume "c = no_command" "aim_at real_libm X (if bullet_speed < 14 then 23 else bullet_speed) (target_predict V t1 g) A = Some (None, A')"
    from this(1) aim_at_refuses [OF this(2) v [unfolded v_def]] show ?thesis using Cons by (auto simp: no_command_def simp del: split_paired_Ex)
  next
    fix t1 t0 q0 B
    assume "c = no_command" "aim_loop real_libm V X (if bullet_speed < 14 then 23 else bullet_speed) t1 (target_predict V t1 g) 10 t0 q0 B = Some (None, A')"
    from this(1) aim_loop_refuses [OF this(2) v [unfolded v_def]] show ?thesis using Cons
      by (cases "bullet_speed < 14"; simp add: no_command_def; blast)
  next
    fix t1 t0 q0 A1 q p x y z a
    assume a: "aim_at real_libm X (if bullet_speed < 14 then 23 else bullet_speed) (target_predict V t1 g) A = Some (Some (t0, q0), A1)"
      "aim_loop real_libm V X (if bullet_speed < 14 then 23 else bullet_speed) t1 (target_predict V t1 g) 10 t0 q0 A1 = Some (Some q, A')"
      "ai_debug_aim_point A' = Some p" "ap_xyza p = (x, y, z, a)"
      "c = \<lparr>co_control = True, co_shoot = False, co_yaw = lm_atan2 real_libm y x + ai_yaw_offset A', co_pitch = - (q + ai_pitch_offset A'), co_horizon_distance = 0\<rparr>"
    from aim_at_real [OF a(1)] v have o1: "same_offsets A A1" by (simp add: v_def)
    have "(10 :: nat) = Suc 9" by simp
    from aim_loop_real [OF a(2) [unfolded this]] v obtain t2 where
      o2: "same_offsets A1 A'" and s: "aims_at X v (target_predict V t2 (target_predict V t1 g)) q A'" by (auto simp: v_def)
    from s a obtain plates t where "armor_xyza_list real_libm (X (tg_ekf (target_predict V t2 (target_predict V t1 g)))) (tg_armor_num g) = Some plates"
      "(x, y, z, a) \<in> set plates" "ai_debug_aim_point A' = Some \<lparr>ap_valid = True, ap_xyza = (x, y, z, a)\<rparr>" "strikes v q t (sqrt (x * x + y * y)) z"
      by (auto simp: aims_at_def target_predict_keeps)
    moreover have "co_yaw c - ai_yaw_offset A = real_atan2 y x" "- co_pitch c - ai_pitch_offset A = q" using o1 o2 by (simp_all add: a(5) same_offsets_def)
    moreover have "co_control c" "\<not> co_shoot c" by (simp_all add: a(5))
    ultimately show ?thesis using Cons atan2_cos_sin [of x y] unfolding v_def
      by (simp only: if_True) (intro exI conjI, (rule refl | assumption | simp)+)
  qed
qed

section \<open>The aimer returns\<close>

text \<open>The plates of a target are off the axis of the gimbal, and none is a thousand kilometres below it.\<close>

definition plates_in_reach :: "('e \<Rightarrow> nat \<Rightarrow> real) \<Rightarrow> 'e target \<Rightarrow> bool" where
  "plates_in_reach X g \<longleftrightarrow> (\<forall>plates x y z a. armor_xyza_list real_libm (X (tg_ekf g)) (tg_armor_num g) = Some plates \<longrightarrow> (x, y, z, a) \<in> set plates \<longrightarrow>
     0 < x * x + y * y \<and> - (10 ^ 6) \<le> z)"

lemma to_int_total: "\<bar>x\<bar> \<le> 2 * 10 ^ 9 \<Longrightarrow> \<exists>n. to_int (x :: real) = Some n"
proof -
  assume x: "\<bar>x\<bar> \<le> 2 * 10 ^ 9"
  have "\<lfloor>x\<rfloor> \<le> 2 * 10 ^ 9" "- (2 * 10 ^ 9) \<le> \<lceil>x\<rceil>" using x by (auto simp: floor_le_iff le_ceiling_iff abs_le_iff)
  moreover have "0 \<le> \<lfloor>x\<rfloor>" if "0 \<le> x" using that by simp
  moreover have "\<lceil>x\<rceil> \<le> 0" if "\<not> 0 \<le> x" using that by (simp add: ceiling_le_iff)
  ultimately show ?thesis by (force simp: to_int_def Let_def)
qed

lemma aim_at_returns:
  assumes "0 < tg_armor_num g" and "plates_in_reach X g" and "0 < v" "v \<le> 10 ^ 4"
  shows "\<exists>r A'. aim_at real_libm X v g A = Some (r, A') \<and> (\<forall>t q. r = Some (t, q) \<longrightarrow> 0 < t \<and> t \<le> 2000 \<and> ai_debug_aim_point A' \<noteq> None)"
proof -
  obtain p A1 plates where p: "choose_aim_point real_libm X g A = Some (p, A1)" "armor_xyza_list real_libm (X (tg_ekf g)) (tg_armor_num g) = Some plates"
    "ap_xyza p \<in> set plates" using choose_aim_point_total [OF assms(1), of X A] by blast
  obtain x y z a where xyza: "ap_xyza p = (x, y, z, a)" by (metis surj_pair)
  have d: "0 < sqrt (x * x + y * y)" and z: "- (10 ^ 6) \<le> z" using assms(2) p xyza by (force simp: plates_in_reach_def)+
  obtain j where j: "new_trajectory real_libm v (sqrt (x * x + y * y)) z = Some j" using trajectory_real [OF assms(3) d, of z] by blast
  have "0 < t \<and> t \<le> 2000" if "j = Solvable t q" for t q
  proof -
    note b = fly_time_bound [OF assms(3) d j [unfolded that]]
    have "v\<^sup>2 \<le> (10 ^ 4)\<^sup>2" using assms(3,4) by (intro power_mono) auto
    then have "v\<^sup>2 \<le> 100000000" by simp
    moreover have "- (gravity * 1000000) \<le> gravity * z" using mult_left_mono [OF z, of gravity] gravity_pos by simp
    ultimately have "v\<^sup>2 - gravity * z \<le> 100000000 - - (gravity * 1000000)" by (rule diff_mono)
    then have "gravity\<^sup>2 * t\<^sup>2 \<le> 2 * (100000000 + gravity * 1000000)" using b(2) by (simp add: order_trans)
    also have "\<dots> \<le> gravity\<^sup>2 * 2000\<^sup>2" by (simp add: gravity_def power2_eq_square)
    finally have "t\<^sup>2 \<le> 2000\<^sup>2" using gravity_pos by (simp add: mult_le_cancel_left_pos)
    then show ?thesis using b(1) power2_le_imp_le [of t 2000] by simp
  qed
  then show ?thesis using p xyza j by (cases j) (auto simp: aim_at_def horizontal_def height_def Let_def)
qed

lemma aim_loop_returns:
  assumes "0 < tg_armor_num g" and "\<And>t. plates_in_reach X (target_predict V t g)" and "0 < v" "v \<le> 10 ^ 4" and "0 < prev" "prev \<le> 2000"
    and "ai_debug_aim_point A \<noteq> None"
  shows "\<exists>r A'. aim_loop real_libm V X v future g n prev q A = Some (r, A') \<and> (r \<noteq> None \<longrightarrow> ai_debug_aim_point A' \<noteq> None)"
  using assms(5-)
proof (induction n arbitrary: prev q A)
  case (Suc n)
  obtain us where us: "to_int (prev * 10 ^ 6) = Some us" using to_int_total [of "prev * 10 ^ 6"] Suc.prems by auto
  obtain r A' where r: "aim_at real_libm X v (target_predict V (future + 1000 * us) g) A = Some (r, A')"
    "\<forall>t q. r = Some (t, q) \<longrightarrow> 0 < t \<and> t \<le> 2000 \<and> ai_debug_aim_point A' \<noteq> None"
    using aim_at_returns [of "target_predict V (future + 1000 * us) g" X v A] assms(1-4) by (auto simp: target_predict_keeps)
  show ?case
  proof (cases r)
    case None
    then show ?thesis using us r by simp
  next
    case (Some tq)
    then obtain t q1 where "tq = (t, q1)" by fastforce
    then show ?thesis using us r Some Suc.IH [of t A' q1] by auto
  qed
qed simp

lemma aim_total:
  assumes "0 < tg_armor_num g" and "\<And>t1. plates_in_reach X (target_predict V t1 g)"
    and "\<And>t1 t2. plates_in_reach X (target_predict V t2 (target_predict V t1 g))"
    and "bullet_speed \<le> 10 ^ 4" and "\<bar>now - timestamp\<bar> \<le> 10 ^ 12"
    and "\<bar>ai_high_speed_delay_time A\<bar> \<le> 900" "\<bar>ai_low_speed_delay_time A\<bar> \<le> 900"
  shows "\<exists>c A'. aim real_libm V X now (g # rest) timestamp bullet_speed to_now A = Some (c, A')"
proof -
  define v where "v = (if bullet_speed < 14 then 23 else bullet_speed)"
  have v: "0 < v" "v \<le> 10 ^ 4" using assms(4) by (simp_all add: v_def)
  define dt where "dt = (if to_now then delta_seconds now timestamp + (if X (tg_ekf g) 7 > ai_decision_speed A then ai_high_speed_delay_time A else ai_low_speed_delay_time A)
    else 5 / 1000 + (if X (tg_ekf g) 7 > ai_decision_speed A then ai_high_speed_delay_time A else ai_low_speed_delay_time A))"
  have "\<bar>delta_seconds now timestamp :: real\<bar> \<le> 1000"
  proof -
    have "\<bar>real_of_int (now - timestamp)\<bar> \<le> real_of_int (10 ^ 12)" using assms(5) by (metis of_int_abs of_int_le_iff)
    then show ?thesis by (simp add: delta_seconds_def)
  qed
  then have "\<bar>dt\<bar> \<le> 2000" using assms(6,7) by (auto simp: dt_def)
  then obtain us where us: "to_int (dt * 10 ^ 6) = Some us" using to_int_total [of "dt * 10 ^ 6"] by (auto simp: abs_mult)
  let ?t = "timestamp + 1000 * us"
  let ?g = "target_predict V ?t g"
  have n: "0 < tg_armor_num ?g" using assms(1) by (simp add: target_predict_keeps)
  obtain r A1 where r: "aim_at real_libm X v ?g A = Some (r, A1)" "\<forall>t q. r = Some (t, q) \<longrightarrow> 0 < t \<and> t \<le> 2000 \<and> ai_debug_aim_point A1 \<noteq> None"
    using aim_at_returns [OF n assms(2) v, of A] by blast
  note run = aim_def [of real_libm V X now "g # rest" timestamp bullet_speed to_now A, unfolded list.case Let_def, folded v_def dt_def]
  show ?thesis
  proof (cases r)
    case None
    then show ?thesis using run us r by simp
  next
    case (Some tq)
    then obtain t q where tq: "tq = (t, q)" by fastforce
    then obtain r2 A2 where r2: "aim_loop real_libm V X v ?t ?g 10 t q A1 = Some (r2, A2)" "r2 \<noteq> None \<longrightarrow> ai_debug_aim_point A2 \<noteq> None"
      using aim_loop_returns [OF n assms(3) v, of t A1] r Some by blast
    show ?thesis using run us r Some tq r2 by (cases r2) (auto split: prod.split)
  qed
qed


section \<open>Instances\<close>

text \<open>A target five metres ahead that has shown more than one plate, seen by an aimer without offsets.\<close>

definition still_vision :: "(unit, unit, 'k :: linordered_field) vision" where
  "still_vision = \<lparr>vi_init = (\<lambda>a r p. ()), vi_predict = (\<lambda>dt v1 v2 e. e), vi_fast_spin = (\<lambda>e. False), vi_limit_spin = (\<lambda>e. e), vi_r_ok = (\<lambda>e. True),
     vi_l_ok = (\<lambda>e. True), vi_order = (\<lambda>e n. [0..<n]), vi_error = (\<lambda>e n a i. 0), vi_huge = 100, vi_update = (\<lambda>n a i e. (e, False)),
     vi_solve = am_geometry, vi_from_center = (\<lambda>g. 0), vi_zero = 0\<rparr>"

definition still_target :: "unit target" where
  "still_target = \<lparr>tg_name = Three, tg_type = Small, tg_priority = First, tg_jumped = True, tg_last_id = 0, tg_armor_num = 4, tg_switch_count = 0,
     tg_update_count = 0, tg_is_switch = False, tg_is_converged = False, tg_ekf = (), tg_nis_failures = [0], tg_t = 0\<rparr>"

definition still_state :: "unit \<Rightarrow> nat \<Rightarrow> 'k :: linordered_field" where
  "still_state e i = (if i = 0 then 5 else if i = 8 then 1 / 5 else 0)"

definition plain_aimer :: "('k :: linordered_field) aimer" where
  "plain_aimer = \<lparr>ai_yaw_offset = 0, ai_left_yaw_offset = None, ai_right_yaw_offset = None, ai_pitch_offset = 0, ai_comming_angle = 1, ai_leaving_angle = 1 / 3,
     ai_lock_id = - 1, ai_high_speed_delay_time = 1 / 10, ai_low_speed_delay_time = 1 / 100, ai_decision_speed = 7, ai_debug_aim_point = None\<rparr>"

lemma still_plates: "armor_xyza_list real_libm (still_state e) 4 = Some plates \<Longrightarrow> (x, y, z, a) \<in> set plates \<Longrightarrow> 4 \<le> x \<and> z = 0"
proof -
  assume p: "armor_xyza_list real_libm (still_state e) 4 = Some plates" "(x, y, z, a) \<in> set plates"
  from p(2) obtain i where i: "i < length plates" "plates ! i = (x, y, z, a)" by (auto simp: in_set_conv_nth)
  have "\<exists>r. limit_rad real_libm (raw_angle (still_state e) 4 i) = Some r" using limit_rad_real by blast
  then have "x = 5 - (1 / 5) * cos (raw_angle (still_state e) 4 i) \<and> z = 0"
    using map_opt_nth [OF p(1) [unfolded armor_xyza_list_def]] i
    by (auto simp: plate_angle_real h_armor_xyz_real bind_Some_iff still_state_def split: if_split_asm)
  moreover have "cos (raw_angle (still_state e) 4 i) \<le> 1" by (rule cos_le_one)
  ultimately show "4 \<le> x \<and> z = 0" by linarith
qed

lemma still_reach: "plates_in_reach still_state (target_predict (still_vision :: (unit, unit, real) vision) t1 still_target)"
  "plates_in_reach still_state (target_predict (still_vision :: (unit, unit, real) vision) t2 (target_predict (still_vision :: (unit, unit, real) vision) t1 still_target))"
proof -
  have "0 < x * x + y * y" if "4 \<le> x" for x y :: real using that by (intro add_pos_nonneg) auto
  then show "plates_in_reach still_state (target_predict (still_vision :: (unit, unit, real) vision) t1 still_target)"
    "plates_in_reach still_state (target_predict (still_vision :: (unit, unit, real) vision) t2 (target_predict (still_vision :: (unit, unit, real) vision) t1 still_target))"
    using still_plates by (fastforce simp: plates_in_reach_def target_predict_keeps still_target_def)+
qed


theorem aim_point_faces_gimbal_witness:
  "\<exists>p A' plates. choose_aim_point real_libm still_state still_target plain_aimer = Some (p, A') \<and>
     armor_xyza_list real_libm (still_state ()) 4 = Some plates \<and> ap_xyza p \<in> set plates"
  using aim_point_faces_gimbal [of still_target still_state plain_aimer] by (auto simp: still_target_def)

theorem spin_ignored_witness:
  "choose_aim_point real_libm (\<lambda>e i. if i = 7 then 50 else still_state e i) still_target plain_aimer = choose_aim_point real_libm still_state still_target plain_aimer"
  by (rule spin_ignored [of still_vision]) (simp_all add: radius_test_def still_state_def still_vision_def still_target_def target_diverged_def)

text \<open>Three and a seventh for the circle, so that the four plates are seen under half a right angle.\<close>

definition coarse_libm :: "rat libm" where
  "coarse_libm = \<lparr>lm_pi = 22 / 7, lm_sqrt = (\<lambda>x. x), lm_pow = (\<lambda>x e. x), lm_sin = (\<lambda>x. 0), lm_cos = (\<lambda>x. 1), lm_acos = (\<lambda>x. 0), lm_atan = (\<lambda>x. x),
     lm_atan2 = (\<lambda>y x. 0)\<rparr>"

definition turned_state :: "unit \<Rightarrow> nat \<Rightarrow> rat" where
  "turned_state e i = (if i = 6 then - 11 / 14 else still_state e i)"

lemma coarse_libm_sel [simp]: "lm_pi coarse_libm = 22 / 7" "lm_sin coarse_libm x = 0" "lm_cos coarse_libm x = 1" "lm_atan2 coarse_libm y x = 0"
  by (simp_all add: coarse_libm_def)

lemma turned_state_sel [simp]: "turned_state e 0 = 5" "turned_state e 2 = 0" "turned_state e 4 = 0" "turned_state e 6 = - 11 / 14" "turned_state e 8 = 1 / 5"
  "turned_state e 9 = 0" "turned_state e 10 = 0"
  by (simp_all add: turned_state_def still_state_def)

theorem lock_is_kept_witness:
  "choose_aim_point coarse_libm turned_state still_target (plain_aimer\<lparr>ai_lock_id := 1\<rparr>) =
     Some (\<lparr>ap_valid = True, ap_xyza = (24 / 5, 0, 0, 11 / 14)\<rparr>, plain_aimer\<lparr>ai_lock_id := 1\<rparr>)"
proof -
  let ?p = "[(24 / 5, 0, 0, - (11 / 14)), (24 / 5, 0, 0, 11 / 14), (24 / 5, 0, 0, 33 / 14), (24 / 5, 0, 0, - (33 / 14))] :: rat xyza list"
  have u: "[0..<4] = [0, 1, 2, 3 :: nat]" by (simp add: upt_conv_Cons)
  have a: "plate_angle coarse_libm (turned_state ()) 4 0 = Some (- (11 / 14))" "plate_angle coarse_libm (turned_state ()) 4 1 = Some (11 / 14)"
    "plate_angle coarse_libm (turned_state ()) 4 2 = Some (33 / 14)" "plate_angle coarse_libm (turned_state ()) 4 3 = Some (- (33 / 14))"
    by (simp_all add: plate_angle_def limit_rad_def limit_down.simps limit_up.simps)
  have p: "armor_xyza_list coarse_libm (turned_state ()) 4 = Some ?p"
    using a unfolding armor_xyza_list_def u by (simp add: h_armor_xyz_def use_l_h_def)
  have d: "delta_angle_list coarse_libm (turned_state ()) ?p = Some [- (11 / 14), 11 / 14, 33 / 14, - (33 / 14)]"
    by (simp add: delta_angle_list_def limit_rad_def limit_down.simps limit_up.simps)
  have i: "id_list [- (11 / 14), 11 / 14, 33 / 14, - (33 / 14) :: rat] = [0, 1]" by (simp add: id_list_def upt_conv_Cons)
  have "choose_aim_point coarse_libm turned_state still_target (plain_aimer\<lparr>ai_lock_id := 1\<rparr>) =
     Some (\<lparr>ap_valid = True, ap_xyza = ?p ! 1\<rparr>, plain_aimer\<lparr>ai_lock_id := 1\<rparr>)"
    by (rule lock_is_kept [OF _ _ _ _ _ i]) (simp_all add: still_target_def p d)
  then show ?thesis by simp
qed

end
