(* ===== verification/Decider.thy ===== *)
theory Decider
  imports Tracker
begin

text \<open>
  The decision layer of the all-round cameras, \<^verbatim>\<open>tasks/omniperception/decider.cpp\<close>: which detections count, how urgent they are, and in which order the
  tracker sees them. Reading the cameras and detecting plates in an image are left out; \<^verbatim>\<open>std::sort\<close> on the detections is a parameter, since
  it may order equally urgent ones as it likes.
\<close>

section \<open>State and filters\<close>

record decider =
  de_enemy_color :: color
  de_default_enemy_color :: color
  de_mode :: int
  de_count :: int
  de_invincible :: "armor_name list"

definition decider_set_enemy_color :: "color \<Rightarrow> decider \<Rightarrow> decider" where
  "decider_set_enemy_color c d = d\<lparr>de_enemy_color := c\<rparr>"

definition decider_reset_enemy_color :: "decider \<Rightarrow> decider" where
  "decider_reset_enemy_color d = d\<lparr>de_enemy_color := de_default_enemy_color d\<rparr>"

text \<open>The plates that are left, and whether none is.\<close>

definition armor_filter :: "decider \<Rightarrow> 'a armor list \<Rightarrow> bool \<times> 'a armor list" where
  "armor_filter d armors =
     (if armors = [] then (True, armors)
      else let armors = filter (\<lambda>a. \<not> am_color a \<noteq> de_enemy_color d) armors;
               armors = filter (\<lambda>a. am_name a \<noteq> Five) armors;
               armors = filter (\<lambda>a. am_name a \<noteq> Outpost) armors;
               armors = filter (\<lambda>a. \<not> am_name a \<in> set (de_invincible d)) armors
           in (armors = [], armors))"

fun priority_mode1 :: "armor_name \<Rightarrow> armor_priority" where
  "priority_mode1 One = Second" | "priority_mode1 Two = Forth" | "priority_mode1 Three = First" | "priority_mode1 Four = First"
| "priority_mode1 Five = Third" | "priority_mode1 Sentry = Third" | "priority_mode1 Outpost = Fifth" | "priority_mode1 Base = Fifth"
| "priority_mode1 Not_armor = Fifth"

fun priority_mode2 :: "armor_name \<Rightarrow> armor_priority" where
  "priority_mode2 Two = First" | "priority_mode2 One = Second" | "priority_mode2 Three = Second" | "priority_mode2 Four = Second"
| "priority_mode2 Five = Second" | "priority_mode2 Sentry = Third" | "priority_mode2 Outpost = Third" | "priority_mode2 Base = Third"
| "priority_mode2 Not_armor = Third"

definition set_priority :: "decider \<Rightarrow> 'a armor list \<Rightarrow> 'a armor list" where
  "set_priority d armors = (let m = (if de_mode d = 1 then priority_mode1 else priority_mode2)
     in map (\<lambda>a. a\<lparr>am_priority := m (am_name a)\<rparr>) armors)"

section \<open>Ordering the detections\<close>

text \<open>One detection: filtered, ranked, and sorted by urgency.\<close>

definition sort_one :: "decider \<Rightarrow> ('a, 'k) detection_result \<Rightarrow> ('a, 'k) detection_result" where
  "sort_one d r = r\<lparr>dr_armors := sort_key am_priority (set_priority d (snd (armor_filter d (dr_armors r))))\<rparr>"

text \<open>
  The detections by their most urgent plate. Sorting two or more of them compares every one with another, and the comparison takes the front of
  their plates, which is undefined for an empty list.
\<close>

definition decider_sort ::
  "(('a, 'k) detection_result list \<Rightarrow> ('a, 'k) detection_result list) \<Rightarrow> decider \<Rightarrow> ('a, 'k) detection_result list \<Rightarrow> ('a, 'k) detection_result list option" where
  "decider_sort std_sort d queue =
     (if queue = [] then Some queue
      else let queue = map (sort_one d) queue
           in if length queue \<ge> 2 \<and> (\<exists>r \<in> set queue. dr_armors r = []) then None else Some (std_sort queue))"

text \<open>What \<^verbatim>\<open>std::sort\<close> promises for detections that all have a front.\<close>

definition sorts_by_front :: "(('a, 'k) detection_result list \<Rightarrow> ('a, 'k) detection_result list) \<Rightarrow> bool" where
  "sorts_by_front f \<longleftrightarrow> (\<forall>q. (\<forall>r \<in> set q. dr_armors r \<noteq> []) \<longrightarrow>
     set (f q) = set q \<and> length (f q) = length q \<and> sorted (map (\<lambda>r. am_priority (hd (dr_armors r))) (f q)))"

definition decide :: "('e, 'a, 'k :: linorder) vision \<Rightarrow> ('a, 'k) detection_result list \<Rightarrow> bool \<times> bool \<times> 'k \<times> 'k" where
  "decide V queue = (case queue of
     [] \<Rightarrow> (False, False, vi_zero V, vi_zero V)
   | r # _ \<Rightarrow> if dr_armors r = [] then (False, False, vi_zero V, vi_zero V) else (True, False, dr_delta_yaw r, dr_delta_pitch r))"

text \<open>The plate of the current target, by its name.\<close>

definition get_target_info :: "('a \<Rightarrow> 'k) \<Rightarrow> ('a \<Rightarrow> 'k) \<Rightarrow> 'a armor list \<Rightarrow> 'e target list \<Rightarrow> ('k \<times> 'k \<times> nat) option" where
  "get_target_info px py armors targets =
     (if armors = [] \<or> targets = [] then None
      else case find (\<lambda>a. am_name a = tg_name (hd targets)) armors of
             None \<Rightarrow> None
           | Some a \<Rightarrow> Some (px (am_geometry a), py (am_geometry a), name_value (am_name a) + 1))"

section \<open>Messages of the navigation\<close>

text \<open>The enumerator with a given value; a cast of any other value is no enumerator (\<open>None\<close>).\<close>

definition armor_name_of :: "int \<Rightarrow> armor_name option" where
  "armor_name_of v = (if 0 \<le> v \<and> v < 9 then Some ([One, Two, Three, Four, Five, Sentry, Outpost, Base, Not_armor] ! nat v) else None)"

definition wanted_names :: "int list \<Rightarrow> armor_name list" where
  "wanted_names ts = List.map_filter (\<lambda>t. if t \<le> 0 \<or> t > int (length ARMOR_NAMES) then None else armor_name_of (t - 1)) ts"

definition get_auto_aim_target :: "int list \<Rightarrow> 'a armor list \<Rightarrow> 'a armor list" where
  "get_auto_aim_target auto_aim_target armors =
     (if auto_aim_target = [] then armors
      else let wanted = wanted_names auto_aim_target
           in if wanted = [] then armors else filter (\<lambda>a. am_name a \<in> set wanted) armors)"

text \<open>A number outside the enumeration is cast all the same; no plate has such a name, so it is left out here.\<close>

definition get_invincible_armor :: "int list \<Rightarrow> decider \<Rightarrow> decider" where
  "get_invincible_armor ids d = d\<lparr>de_invincible := List.map_filter (\<lambda>i. armor_name_of (i - 1)) ids\<rparr>"

section \<open>Properties\<close>

lemma armor_filter_set: "set (snd (armor_filter d armors)) =
  {a \<in> set armors. am_color a = de_enemy_color d \<and> am_name a \<noteq> Five \<and> am_name a \<noteq> Outpost \<and> am_name a \<notin> set (de_invincible d)}"
  by (auto simp: armor_filter_def Let_def)

lemma armor_filter_empty: "fst (armor_filter d armors) \<longleftrightarrow> snd (armor_filter d armors) = []"
  by (simp add: armor_filter_def Let_def)

lemma sort_one_empty: "dr_armors (sort_one d r) = [] \<longleftrightarrow> snd (armor_filter d (dr_armors r)) = []"
proof -
  have "set (dr_armors (sort_one d r)) = {} \<longleftrightarrow> set (snd (armor_filter d (dr_armors r))) = {}" by (simp add: sort_one_def set_priority_def Let_def)
  then show ?thesis by simp
qed

lemma sort_one_front:
  assumes "b \<in> set (dr_armors (sort_one d r))"
  shows "am_priority (hd (dr_armors (sort_one d r))) \<le> am_priority b"
proof -
  obtain a as where a: "dr_armors (sort_one d r) = a # as" using assms by (cases "dr_armors (sort_one d r)") auto
  have "sorted (map am_priority (dr_armors (sort_one d r)))" by (simp add: sort_one_def)
  then show ?thesis using assms by (auto simp: a)
qed

lemma sort_one_origin:
  assumes "b \<in> set (dr_armors (sort_one d r))"
  shows "\<exists>a \<in> set (dr_armors r). am_color a = de_enemy_color d \<and> am_name a = am_name b \<and> am_name a \<notin> {Five, Outpost} \<union> set (de_invincible d)"
  using assms by (auto simp: sort_one_def set_priority_def armor_filter_set Let_def)

text \<open>
  What the tracker gets from the other cameras: if every detection keeps a plate through the filter, sorting succeeds, and the plate at the front of the first detection is one of an enemy that
  is neither a number five, an outpost nor invincible, and no plate of any detection is more urgent.
\<close>

theorem sorted_detections_first:
  assumes "sorts_by_front std_sort" and "queue \<noteq> []" and "\<forall>r \<in> set queue. \<not> fst (armor_filter d (dr_armors r))"
  shows "\<exists>r rs. decider_sort std_sort d queue = Some (r # rs) \<and>
    (\<exists>a \<in> \<Union> (set ` dr_armors ` set queue). am_color a = de_enemy_color d \<and> am_name a = am_name (hd (dr_armors r)) \<and>
       am_name a \<notin> {Five, Outpost} \<union> set (de_invincible d)) \<and>
    (\<forall>r' \<in> set (r # rs). \<forall>b \<in> set (dr_armors r'). am_priority (hd (dr_armors r)) \<le> am_priority b)"
proof -
  let ?q = "map (sort_one d) queue"
  have ne: "\<forall>r \<in> set ?q. dr_armors r \<noteq> []" using assms(3) by (simp add: sort_one_empty armor_filter_empty)
  have s: "set (std_sort ?q) = set ?q" "length (std_sort ?q) = length ?q" "sorted (map (\<lambda>r. am_priority (hd (dr_armors r))) (std_sort ?q))"
    using assms(1) ne by (auto simp: sorts_by_front_def)
  from s(2) assms(2) obtain r rs where r: "std_sort ?q = r # rs" by (cases "std_sort ?q") auto
  have "decider_sort std_sort d queue = Some (r # rs)" using ne r assms(2) by (auto simp: decider_sort_def Let_def)
  moreover from r s(1) have "r \<in> set ?q" by (metis list.set_intros(1))
  then obtain x where x: "x \<in> set queue" "r = sort_one d x" by auto
  have "hd (dr_armors r) \<in> set (dr_armors r)" using ne \<open>r \<in> set ?q\<close> hd_in_set by blast
  with sort_one_origin [of "hd (dr_armors r)" d x] x have
    "\<exists>a \<in> \<Union> (set ` dr_armors ` set queue). am_color a = de_enemy_color d \<and> am_name a = am_name (hd (dr_armors r)) \<and> am_name a \<notin> {Five, Outpost} \<union> set (de_invincible d)"
    by blast
  moreover have "am_priority (hd (dr_armors r)) \<le> am_priority b" if "r' \<in> set (r # rs)" "b \<in> set (dr_armors r')" for r' b
  proof -
    from that(1) s(1) r obtain y where "r' = sort_one d y" by (metis (no_types, lifting) imageE list.set_map)
    then have "am_priority (hd (dr_armors r')) \<le> am_priority b" using sort_one_front that(2) by blast
    moreover have "am_priority (hd (dr_armors r)) \<le> am_priority (hd (dr_armors r'))" using s(3) that(1) unfolding r by auto
    ultimately show ?thesis by (rule order_trans [rotated])
  qed
  ultimately show ?thesis by blast
qed

text \<open>
  Sorting is undefined as soon as one of several detections shows no enemy: its plates are filtered away, and the comparison takes the front of an
  empty list.
\<close>

theorem sort_of_filtered_undefined:
  assumes "r \<in> set queue" and "2 \<le> length queue" and "\<forall>a \<in> set (dr_armors r). am_color a \<noteq> de_enemy_color d"
  shows "decider_sort std_sort d queue = None"
proof -
  have "set (snd (armor_filter d (dr_armors r))) = {}" using assms(3) by (auto simp: armor_filter_set)
  then have "dr_armors (sort_one d r) = []" by (simp add: sort_one_empty)
  then show ?thesis using assms(1,2) by (auto simp: decider_sort_def Let_def)
qed

definition by_front :: "('a, 'k) detection_result list \<Rightarrow> ('a, 'k) detection_result list" where
  "by_front q = sort_key (\<lambda>r. am_priority (hd (dr_armors r))) q"

definition seen :: "int armor list \<Rightarrow> (int, int) detection_result" where
  "seen as = \<lparr>dr_armors = as, dr_timestamp = 0, dr_delta_yaw = 1, dr_delta_pitch = 2\<rparr>"

definition red_hunter :: decider where
  "red_hunter = \<lparr>de_enemy_color = Red, de_default_enemy_color = Red, de_mode = 1, de_count = 0, de_invincible = []\<rparr>"

theorem sorted_detections_first_witness:
  "\<exists>r rs. decider_sort by_front red_hunter [seen [plate Red Small One Fifth 0], seen [plate Red Small Three Fifth 0]] = Some (r # rs) \<and>
    (\<forall>r' \<in> set (r # rs). \<forall>b \<in> set (dr_armors r'). am_priority (hd (dr_armors r)) \<le> am_priority b)"
proof -
  have "sorts_by_front by_front" by (simp add: sorts_by_front_def by_front_def)
  moreover have "\<forall>r \<in> set [seen [plate Red Small One Fifth 0], seen [plate Red Small Three Fifth 0]]. \<not> fst (armor_filter red_hunter (dr_armors r))"
    by (simp add: seen_def plate_def armor_filter_def red_hunter_def)
  ultimately show ?thesis using sorted_detections_first by blast
qed

theorem sort_of_filtered_undefined_witness:
  "decider_sort by_front red_hunter [seen [plate Red Small One Fifth 0], seen [plate Blue Small Three Fifth 0]] = None"
  by (rule sort_of_filtered_undefined [of "seen [plate Blue Small Three Fifth 0]"]) (simp_all add: seen_def plate_def red_hunter_def)

end
