(* ===== verification/Program.thy ===== *)
theory Program
  imports Aimer Decider
begin

text \<open>
  The loops of the robot programs, \<^verbatim>\<open>src/standard.cpp\<close>, \<^verbatim>\<open>src/uav.cpp\<close>, \<^verbatim>\<open>src/mt_standard.cpp\<close> and \<^verbatim>\<open>src/sentry_multithread.cpp\<close>, with the view of the referee
  report that they share, \<^verbatim>\<open>src/referee_runtime.hpp\<close>, and the thread that turns targets into commands, \<^verbatim>\<open>multithread/commandgener.cpp\<close>: one round of a
  loop composes the tracker, the decider, the aimer and the shooter and sends the command over the link.

  A round starts with the image, its time and the orientation that the link has answered for it. The readings of the steady clock in a round are its argument \<open>clocks\<close>.
  Publishing to the navigation, recording and logging are left out.
\<close>

section \<open>The view of the referee report\<close>

record referee_view =
  rv_valid :: bool
  rv_fire_allowed :: bool
  rv_enemy_team :: i32
  rv_host_ts_ns :: u64

definition from_io :: "referee_status \<Rightarrow> referee_view" where
  "from_io rs = \<lparr>rv_valid = rs_valid rs, rv_fire_allowed = rs_fire_allowed rs, rv_enemy_team = rs_enemy_team rs, rv_host_ts_ns = rs_host_ts_ns rs\<rparr>"

definition is_fresh :: "u64 \<Rightarrow> referee_view \<Rightarrow> bool" where
  "is_fresh now_ns ref =
     (if rv_host_ts_ns ref = 0 then False
      else if now_ns < rv_host_ts_ns ref then False
      else now_ns - rv_host_ts_ns ref \<le> kRefereeStaleNs)"

definition can_fire :: "u64 \<Rightarrow> referee_view \<Rightarrow> bool" where
  "can_fire now_ns ref \<longleftrightarrow> rv_valid ref \<and> is_fresh now_ns ref \<and> rv_fire_allowed ref"

definition enemy_color :: "u64 \<Rightarrow> referee_view \<Rightarrow> color option" where
  "enemy_color now_ns ref =
     (if \<not> (rv_valid ref \<and> is_fresh now_ns ref) then None
      else if rv_enemy_team ref = 1 then Some Red
      else if rv_enemy_team ref = 2 then Some Blue
      else None)"

section \<open>A robot\<close>

text \<open>
  What a program is built on: the arithmetic and the world of the link, the mathematics library, the vision for an orientation of the gimbal, the state
  vector of a filter, the detector, the angles of an orientation, and \<^verbatim>\<open>std::sort\<close> on detections.
\<close>

record ('e, 'a, 'k, 'f, 'q, 'x, 'i) rig =
  rg_arith :: "('k, 'f, 'q) arith"
  rg_link :: "'x link_env"
  rg_libm :: "'k libm"
  rg_vision :: "'q \<Rightarrow> ('e, 'a, 'k) vision"
  rg_state :: "'e \<Rightarrow> nat \<Rightarrow> 'k"
  rg_detect :: "'i \<Rightarrow> 'a armor list"
  rg_gimbal_pos :: "'q \<Rightarrow> 'k vec3"
  rg_sort :: "('a, 'k) detection_result list \<Rightarrow> ('a, 'k) detection_result list"

record clocks =
  ck_color :: u64
  ck_aim :: int
  ck_fire :: u64

record ('e, 'k, 'f, 'q, 'x) robot =
  ro_tracker :: "'e tracker"
  ro_aimer :: "'k aimer"
  ro_shooter :: "'k shooter"
  ro_decider :: decider
  ro_board :: "'k dm02 \<times> ('f, 'q, 'x) link"

definition board_referee :: "'k dm02 \<times> ('f, 'q, 'x) link \<Rightarrow> referee_status" where
  "board_referee b = li_referee (im_ext (snd (snd b)))"

definition update_enemy_color :: "u64 \<Rightarrow> referee_view \<Rightarrow> 'e tracker \<Rightarrow> 'e tracker" where
  "update_enemy_color now ref k = (case enemy_color now ref of Some c \<Rightarrow> set_enemy_color c k | None \<Rightarrow> reset_enemy_color k)"

text \<open>\<^verbatim>\<open>standard.cpp\<close>\<close>

definition standard_round ::
  "('e, 'a, 'k :: floor_ceiling, 'f, 'q, 'x, 'i) rig \<Rightarrow> 'q \<Rightarrow> 'i \<Rightarrow> int \<Rightarrow> clocks \<Rightarrow> ('e, 'k, 'f, 'q, 'x) robot \<Rightarrow> ('e, 'k, 'f, 'q, 'x) robot option" where
  "standard_round R q img t ck r = do {
     let V = rg_vision R q;
     let armors = rg_detect R img;
     let ref = from_io (board_referee (ro_board r));
     let k = update_enemy_color (ck_color ck) ref (ro_tracker r);
     (targets, armors, k) \<leftarrow> track V armors t True k;
     (c, a) \<leftarrow> aim (rg_libm R) V (rg_state R) (ck_aim ck) targets t (d_bullet_speed (fst (ro_board r))) True (ro_aimer r);
     b \<leftarrow> Dm02_send_command (rg_arith R) (rg_link R) c (ro_board r);
     Some (r\<lparr>ro_tracker := k, ro_aimer := a, ro_board := b\<rparr>)
   }"

text \<open>\<^verbatim>\<open>uav.cpp\<close>: a round with the shooter, in two of the modes.\<close>

definition uav_round ::
  "('e, 'a, 'k :: floor_ceiling, 'f, 'q, 'x, 'i) rig \<Rightarrow> 'q \<Rightarrow> 'i \<Rightarrow> int \<Rightarrow> clocks \<Rightarrow> ('e, 'k, 'f, 'q, 'x) robot \<Rightarrow> ('e, 'k, 'f, 'q, 'x) robot option" where
  "uav_round R q img t ck r =
     (if d_mode (fst (ro_board r)) = Mode_auto_aim \<or> d_mode (fst (ro_board r)) = Mode_outpost
      then do {
        let V = rg_vision R q;
        let armors = rg_detect R img;
        let ref = from_io (board_referee (ro_board r));
        let k = update_enemy_color (ck_color ck) ref (ro_tracker r);
        (targets, armors, k) \<leftarrow> track V armors t True k;
        (c, a) \<leftarrow> aim (rg_libm R) V (rg_state R) (ck_aim ck) targets t (d_bullet_speed (fst (ro_board r))) True (ro_aimer r);
        (sh, S) \<leftarrow> shoot (rg_libm R) (rg_state R) c a targets (fst (rg_gimbal_pos R q)) (ro_shooter r);
        b \<leftarrow> Dm02_send_command (rg_arith R) (rg_link R) (c\<lparr>co_shoot := sh\<rparr>) (ro_board r);
        Some (r\<lparr>ro_tracker := k, ro_aimer := a, ro_shooter := S, ro_board := b\<rparr>)
      }
      else Some r)"

text \<open>The command while the gimbal turns to a target of another camera, and while there is no target.\<close>

definition switching_command :: "('k :: floor_ceiling) libm \<Rightarrow> ('a, 'k) detection_result \<Rightarrow> 'k \<Rightarrow> 'k command option" where
  "switching_command M switch_target gimbal_yaw = do {
     pitch \<leftarrow> limit_rad M (dr_delta_pitch switch_target);
     yaw \<leftarrow> limit_rad M (dr_delta_yaw switch_target + gimbal_yaw);
     Some (no_command\<lparr>co_control := dr_armors switch_target \<noteq> [], co_shoot := False, co_pitch := pitch, co_yaw := yaw\<rparr>)
   }"

definition lost_command :: "('k :: floor_ceiling) libm \<Rightarrow> ('e, 'a, 'k) vision \<Rightarrow> ('a, 'k) detection_result list \<Rightarrow> 'k \<Rightarrow> 'k command option" where
  "lost_command M V queue gimbal_yaw = do {
     let (control, shoot, yaw, pitch) = decide V queue;
     yaw \<leftarrow> limit_rad M (yaw + gimbal_yaw);
     Some (no_command\<lparr>co_control := control, co_shoot := shoot, co_yaw := yaw, co_pitch := pitch\<rparr>)
   }"

text \<open>\<^verbatim>\<open>sentry_multithread.cpp\<close>; \<open>queue\<close> holds the detections of the other cameras.\<close>

definition sentry_round ::
  "('e, 'a, 'k :: floor_ceiling, 'f, 'q, 'x, 'i) rig \<Rightarrow> 'q \<Rightarrow> 'i \<Rightarrow> ('a, 'k) detection_result list \<Rightarrow> int \<Rightarrow> clocks \<Rightarrow>
   ('e, 'k, 'f, 'q, 'x) robot \<Rightarrow> ('e, 'k, 'f, 'q, 'x) robot option" where
  "sentry_round R q img queue t ck r = do {
     let V = rg_vision R q;
     let gimbal_yaw = fst (rg_gimbal_pos R q);
     let armors = rg_detect R img;
     let ref = from_io (board_referee (ro_board r));
     let k = update_enemy_color (ck_color ck) ref (ro_tracker r);
     let d = (case enemy_color (ck_color ck) ref of Some c \<Rightarrow> decider_set_enemy_color c (ro_decider r) | None \<Rightarrow> decider_reset_enemy_color (ro_decider r));
     let armors = snd (armor_filter d armors);
     let armors = set_priority d armors;
     queue \<leftarrow> decider_sort (rg_sort R) d queue;
     (switch_target, targets, armors, k) \<leftarrow> track_omni V queue armors t k;
     (c, a) \<leftarrow>
       (if tk_state k = Switching then do { c \<leftarrow> switching_command (rg_libm R) switch_target gimbal_yaw; Some (c, ro_aimer r) }
        else if tk_state k = Lost then do { c \<leftarrow> lost_command (rg_libm R) V queue gimbal_yaw; Some (c, ro_aimer r) }
        else aim (rg_libm R) V (rg_state R) (ck_aim ck) targets t (d_bullet_speed (fst (ro_board r))) True (ro_aimer r));
     (sh, S) \<leftarrow> shoot (rg_libm R) (rg_state R) c a targets gimbal_yaw (ro_shooter r);
     let c = c\<lparr>co_shoot := sh\<rparr>;
     let c = (if \<not> can_fire (ck_fire ck) ref then c\<lparr>co_shoot := False\<rparr> else c);
     b \<leftarrow> Dm02_send_command (rg_arith R) (rg_link R) c (ro_board r);
     Some (r\<lparr>ro_tracker := k, ro_aimer := a, ro_shooter := S, ro_decider := d, ro_board := b\<rparr>)
   }"

section \<open>The command thread\<close>

record ('e, 'k) gener_input =
  in_targets :: "'e target list"
  in_t :: int
  in_bullet_speed :: 'k
  in_gimbal_yaw :: 'k

text \<open>The slot that the main loop overwrites; \<open>push\<close> leaves only the newest input.\<close>

definition gener_push :: "('e, 'k) gener_input \<Rightarrow> ('e, 'k) gener_input option \<Rightarrow> ('e, 'k) gener_input option" where
  "gener_push i latest = Some i"

text \<open>A round of \<^verbatim>\<open>generate_command\<close>; \<open>now\<close> is the clock at the test of the age.\<close>

definition gener_round ::
  "('e, 'a, 'k :: floor_ceiling, 'f, 'q, 'x, 'i) rig \<Rightarrow> 'q \<Rightarrow> int \<Rightarrow> int \<Rightarrow> ('e, 'k) gener_input option \<Rightarrow> ('e, 'k, 'f, 'q, 'x) robot \<Rightarrow>
   ('e, 'k, 'f, 'q, 'x) robot option" where
  "gener_round R q now now_aim latest r =
     (case (case latest of None \<Rightarrow> None | Some i \<Rightarrow> if (delta_seconds now (in_t i) :: 'k) < 2 / 10 then Some i else None) of
       None \<Rightarrow> Some r
     | Some i \<Rightarrow> do {
         (c, a) \<leftarrow> aim (rg_libm R) (rg_vision R q) (rg_state R) now_aim (in_targets i) (in_t i) (in_bullet_speed i) True (ro_aimer r);
         (sh, S) \<leftarrow> shoot (rg_libm R) (rg_state R) c a (in_targets i) (in_gimbal_yaw i) (ro_shooter r);
         let c = c\<lparr>co_shoot := sh\<rparr>;
         let c = c\<lparr>co_horizon_distance := (case in_targets i of [] \<Rightarrow> 0
           | g # _ \<Rightarrow> lm_sqrt (rg_libm R) (square (rg_state R (tg_ekf g) 0) + square (rg_state R (tg_ekf g) 2)))\<rparr>;
         b \<leftarrow> Dm02_send_command (rg_arith R) (rg_link R) c (ro_board r);
         Some (r\<lparr>ro_aimer := a, ro_shooter := S, ro_board := b\<rparr>)
       })"

text \<open>\<^verbatim>\<open>mt_standard.cpp\<close>: the main loop tracks and hands the targets over; the plates come from the detector thread.\<close>

definition mt_standard_round ::
  "('e, 'a, 'k :: floor_ceiling, 'f, 'q, 'x, 'i) rig \<Rightarrow> 'q \<Rightarrow> 'a armor list \<Rightarrow> int \<Rightarrow> clocks \<Rightarrow> ('e, 'k) gener_input option \<times> ('e, 'k, 'f, 'q, 'x) robot \<Rightarrow>
   (('e, 'k) gener_input option \<times> ('e, 'k, 'f, 'q, 'x) robot) option" where
  "mt_standard_round R q armors t ck = (\<lambda>(latest, r).
     if d_mode (fst (ro_board r)) = Mode_auto_aim
     then do {
       let ref = from_io (board_referee (ro_board r));
       let k = update_enemy_color (ck_color ck) ref (ro_tracker r);
       (targets, armors, k) \<leftarrow> track (rg_vision R q) armors t True k;
       let i = \<lparr>in_targets = targets, in_t = t, in_bullet_speed = d_bullet_speed (fst (ro_board r)), in_gimbal_yaw = fst (rg_gimbal_pos R q)\<rparr>;
       Some (gener_push i latest, r\<lparr>ro_tracker := k\<rparr>)
     }
     else Some (latest, r))"

section \<open>Firing\<close>

definition board_out :: "('x \<Rightarrow> u8 list) \<Rightarrow> ('e, 'k, 'f, 'q, 'x) robot \<Rightarrow> u8 list" where
  "board_out out r = out (li_ext (im_ext (snd (snd (ro_board r)))))"

lemma send_fires:
  assumes "carries (le_host L) out" and "clock_runs (le_host L)" and "ready (snd b)" and "Dm02_send A L control fire yaw pitch b = Some b'"
  shows "\<exists>b1 b2 b3 f x. out (li_ext (im_ext (snd (snd b')))) = out (li_ext (im_ext (snd (snd b)))) @ b1 @ b2 @ b3 \<and> packet_of (Cmd_fire f) b2 \<and>
    hf_fire_on f = (if control \<and> fire \<and> may_fire (board_referee b) (fst (steady_ns (le_host L) x)) then 1 else 0) \<and> ready (snd b')"
proof -
  obtain d ctx w where b: "b = (d, ctx, w)" by (metis surj_pair)
  have "\<exists>s. link_send A L control control yaw pitch (ctx, w) = Some s"
    using assms(4) by (auto simp: b Dm02_send_def Let_def bind_Some_iff)
  moreover have "Driver_is_open (ctx, w)" using assms(3) by (simp add: b ready_def Driver_is_open_def)
  ultimately obtain y p where "link_delta A control yaw pitch (im_ext w) = Some (y, p)"
    by (auto simp: link_send_def bind_Some_iff)
  from send_packets [OF assms(1,2) assms(3) [unfolded b snd_conv] this, of fire d] assms(4)
  show ?thesis by (fastforce simp: b board_referee_def)
qed

lemma send_command_fires:
  assumes "carries (le_host L) out" and "clock_runs (le_host L)" and "ready (snd b)" and "Dm02_send_command A L c b = Some b'"
  shows "\<exists>b1 b2 b3 f x. out (li_ext (im_ext (snd (snd b')))) = out (li_ext (im_ext (snd (snd b)))) @ b1 @ b2 @ b3 \<and> packet_of (Cmd_fire f) b2 \<and>
    hf_fire_on f = (if co_control c \<and> co_shoot c \<and> may_fire (board_referee b) (fst (steady_ns (le_host L) x)) then 1 else 0) \<and> ready (snd b')"
  using send_fires [OF assms(1-3) assms(4) [unfolded Dm02_send_command_def]] .

lemma aim_never_shoots:
  assumes "aim M V X now targets t v to_now A = Some (c, A')"
  shows "\<not> co_shoot c"
proof (cases targets)
  case Nil
  then show ?thesis using assms by (auto simp: aim_def no_command_def)
next
  case (Cons g rest)
  show ?thesis using aim_SomeD [OF assms [unfolded Cons]] by (auto simp: no_command_def)
qed

lemma shoot_True:
  assumes "shoot M X c A targets yaw S = Some (True, S')"
  defines "tol \<equiv> if lm_sqrt M (square (X (tg_ekf (hd targets)) 0) + square (X (tg_ekf (hd targets)) 2)) > sh_judge_distance S then sh_second_tolerance S else sh_first_tolerance S"
  shows "co_control c" "targets \<noteq> []" "sh_auto_fire S" "sh_last_command S' = c" "\<bar>co_yaw (sh_last_command S) - co_yaw c\<bar> < tol * 2"
    "\<bar>yaw - co_yaw (sh_last_command S)\<bar> < tol" "\<exists>p. ai_debug_aim_point A = Some p \<and> ap_valid p"
  using assms(1) unfolding shoot_def Let_def tol_def by (auto simp: bind_Some_iff split: if_split_asm)

lemma track_omni_reports:
  assumes "track_omni V queue armors t k = Some (sw, targets, as, k')"
  shows "targets = (if tk_state k' = Lost then [] else [tk_target k'])"
  using assms unfolding track_omni_def Let_def by (auto split: Option.bind_splits if_split_asm)

text \<open>The tolerance of the shooter for a target.\<close>

definition shot_tolerance :: "('k :: linordered_field) libm \<Rightarrow> ('e \<Rightarrow> nat \<Rightarrow> 'k) \<Rightarrow> 'k shooter \<Rightarrow> 'e target \<Rightarrow> 'k" where
  "shot_tolerance M X S g =
     (if lm_sqrt M (square (X (tg_ekf g) 0) + square (X (tg_ekf g) 2)) > sh_judge_distance S then sh_second_tolerance S else sh_first_tolerance S)"

text \<open>What a round that asks for fire relies on, from the state before it and the state after it.\<close>

definition shot_justified :: "('e, 'a, 'k :: linordered_field, 'f, 'q, 'x, 'i) rig \<Rightarrow> 'q \<Rightarrow> ('e, 'k, 'f, 'q, 'x) robot \<Rightarrow> ('e, 'k, 'f, 'q, 'x) robot \<Rightarrow> bool" where
  "shot_justified R q r r' \<longleftrightarrow>
     sh_auto_fire (ro_shooter r) \<and> tk_state (ro_tracker r') \<noteq> Lost \<and> (\<exists>p. ai_debug_aim_point (ro_aimer r') = Some p \<and> ap_valid p) \<and>
     co_control (sh_last_command (ro_shooter r')) \<and>
     (let tol = shot_tolerance (rg_libm R) (rg_state R) (ro_shooter r) (tk_target (ro_tracker r')); last = co_yaw (sh_last_command (ro_shooter r)) in
        \<bar>last - co_yaw (sh_last_command (ro_shooter r'))\<bar> < tol * 2 \<and> \<bar>fst (rg_gimbal_pos R q) - last\<bar> < tol)"

text \<open>
  C3. When the sentry fires: every round over an open link writes three packets, and the fire command among them asks for fire only if the
  last referee report is valid, allows fire and is at most a second old, both when the round decides and when the link sends; automatic fire is configured; the tracker
  holds a target and the aim point is valid; the round commands the gimbal; and the commanded yaw has moved by less than twice the tolerance for the distance of the target since
  the last command, which the gimbal has reached within the tolerance.
\<close>

theorem sentry_fires_only_justified:
  assumes "carries (le_host (rg_link R)) out" and "clock_runs (le_host (rg_link R))" and "ready (snd (ro_board r))"
    and "sentry_round R q img queue t ck r = Some r'"
  shows "\<exists>b1 b2 b3 f. board_out out r' = board_out out r @ b1 @ b2 @ b3 \<and> packet_of (Cmd_fire f) b2 \<and>
    (hf_fire_on f = 0 \<or> hf_fire_on f = 1 \<and> shot_justified R q r r' \<and> can_fire (ck_fire ck) (from_io (board_referee (ro_board r))) \<and>
       (\<exists>x. may_fire (board_referee (ro_board r)) (fst (steady_ns (le_host (rg_link R)) x))))"
proof -
  let ?ref = "from_io (board_referee (ro_board r))" and ?y = "fst (rg_gimbal_pos R q)"
  from assms(4) obtain sw targets as k c a sh S b queue' armors k0 where
    k: "track_omni (rg_vision R q) queue' armors t k0 = Some (sw, targets, as, k)"
    and s: "shoot (rg_libm R) (rg_state R) c a targets ?y (ro_shooter r) = Some (sh, S)"
    and b: "Dm02_send_command (rg_arith R) (rg_link R) (if \<not> can_fire (ck_fire ck) ?ref then c\<lparr>co_shoot := sh, co_shoot := False\<rparr> else c\<lparr>co_shoot := sh\<rparr>) (ro_board r) = Some b"
    and r': "ro_tracker r' = k" "ro_aimer r' = a" "ro_shooter r' = S" "ro_board r' = b"
    unfolding sentry_round_def Let_def by (auto simp: bind_Some_iff simp del: if_split split del: if_split)
  define C where "C = (if \<not> can_fire (ck_fire ck) ?ref then c\<lparr>co_shoot := sh, co_shoot := False\<rparr> else c\<lparr>co_shoot := sh\<rparr>)"
  have C: "co_control C = co_control c" "co_shoot C \<longleftrightarrow> can_fire (ck_fire ck) ?ref \<and> sh" by (simp_all add: C_def)
  from send_command_fires [OF assms(1-3) b [folded C_def]] obtain b1 b2 b3 f x where
    p: "board_out out r' = board_out out r @ b1 @ b2 @ b3" "packet_of (Cmd_fire f) b2"
    "hf_fire_on f = (if co_control c \<and> (can_fire (ck_fire ck) ?ref \<and> sh) \<and> may_fire (board_referee (ro_board r)) (fst (steady_ns (le_host (rg_link R)) x)) then 1 else 0)"
    unfolding C board_out_def r' by blast
  have "shot_justified R q r r'" if "sh"
  proof -
    note J = shoot_True [OF s [unfolded eq_True [THEN iffD2, OF that]]]
    have "targets = [tk_target k]" "tk_state k \<noteq> Lost" using track_omni_reports [OF k] J(2) by (auto split: if_split_asm)
    then show ?thesis using J by (simp add: shot_justified_def shot_tolerance_def Let_def r')
  qed
  then show ?thesis using p by (intro exI [of _ b1] exI [of _ b2] exI [of _ b3] exI [of _ f]) auto
qed

text \<open>
  The standard robot never fires: its program has a shooter but never asks it, so every fire command that a round writes says no.
\<close>

theorem standard_never_fires:
  assumes "carries (le_host (rg_link R)) out" and "clock_runs (le_host (rg_link R))" and "ready (snd (ro_board r))"
    and "standard_round R q img t ck r = Some r'"
  shows "\<exists>b1 b2 b3 f. board_out out r' = board_out out r @ b1 @ b2 @ b3 \<and> packet_of (Cmd_fire f) b2 \<and> hf_fire_on f = 0"
proof -
  from assms(4) obtain targets k c a b where a: "aim (rg_libm R) (rg_vision R q) (rg_state R) (ck_aim ck) targets t (d_bullet_speed (fst (ro_board r))) True (ro_aimer r) = Some (c, a)"
    and b: "Dm02_send_command (rg_arith R) (rg_link R) c (ro_board r) = Some b" and r': "ro_board r' = b"
    unfolding standard_round_def Let_def by (auto simp: bind_Some_iff)
  show ?thesis using send_command_fires [OF assms(1-3) b] aim_never_shoots [OF a] by (auto simp: board_out_def r')
qed

section \<open>Whom the robot sees\<close>

text \<open>The colour that counts in a round: the referee's, while its report is fresh, or the configured one.\<close>

definition engaged_color :: "clocks \<Rightarrow> ('e, 'k, 'f, 'q, 'x) robot \<Rightarrow> color" where
  "engaged_color ck r = (case enemy_color (ck_color ck) (from_io (board_referee (ro_board r))) of Some c \<Rightarrow> c | None \<Rightarrow> tk_default_enemy_color (ro_tracker r))"

lemma track_ignores_others: "track V (filter (\<lambda>a. am_color a = tk_enemy_color k) armors) t True k = track V armors t True k"
proof -
  have "tk_enemy_color (check_gap t k) = tk_enemy_color k" by (simp add: check_gap_def Let_def)
  then show ?thesis by (simp add: track_def conj_absorb)
qed

lemma update_enemy_color_eq: "tk_enemy_color (update_enemy_color now ref k) = (case enemy_color now ref of Some c \<Rightarrow> c | None \<Rightarrow> tk_default_enemy_color k)"
  by (simp add: update_enemy_color_def set_enemy_color_def reset_enemy_color_def split: option.split)

definition sentry_color :: "clocks \<Rightarrow> ('e, 'k, 'f, 'q, 'x) robot \<Rightarrow> color" where
  "sentry_color ck r = (case enemy_color (ck_color ck) (from_io (board_referee (ro_board r))) of Some c \<Rightarrow> c | None \<Rightarrow> de_default_enemy_color (ro_decider r))"

lemma armor_filter_absorb: "snd (armor_filter d (filter (\<lambda>a. am_color a = de_enemy_color d) armors)) = snd (armor_filter d armors)"
proof -
  have "snd (armor_filter d armors) =
      filter (\<lambda>a. am_name a \<notin> set (de_invincible d)) (filter (\<lambda>a. am_name a \<noteq> Outpost) (filter (\<lambda>a. am_name a \<noteq> Five) (filter (\<lambda>a. am_color a = de_enemy_color d) armors)))"
    for armors :: "'a armor list" by (simp add: armor_filter_def Let_def)
  then show ?thesis by (simp add: conj_absorb)
qed

text \<open>
  C31. Only the enemy matters: the plates of any other colour than the engaged one can be removed from the picture without any effect on a round
  of the programs, on their state and on what they send. The engaged colour is the one that a fresh referee report names, or else the configured one, of the tracker or, in the sentry, of the decider.
\<close>

theorem only_enemy_matters:
  "standard_round (R\<lparr>rg_detect := \<lambda>i. filter (\<lambda>a. am_color a = engaged_color ck r) (rg_detect R i)\<rparr>) q img t ck r = standard_round R q img t ck r \<and>
   uav_round (R\<lparr>rg_detect := \<lambda>i. filter (\<lambda>a. am_color a = engaged_color ck r) (rg_detect R i)\<rparr>) q img t ck r = uav_round R q img t ck r \<and>
   sentry_round (R\<lparr>rg_detect := \<lambda>i. filter (\<lambda>a. am_color a = sentry_color ck r) (rg_detect R i)\<rparr>) q img queue t ck r = sentry_round R q img queue t ck r"
proof -
  let ?ref = "from_io (board_referee (ro_board r))"
  let ?k = "update_enemy_color (ck_color ck) ?ref (ro_tracker r)"
  let ?d = "case enemy_color (ck_color ck) ?ref of Some c \<Rightarrow> decider_set_enemy_color c (ro_decider r) | None \<Rightarrow> decider_reset_enemy_color (ro_decider r)"
  have "engaged_color ck r = tk_enemy_color ?k" by (simp add: engaged_color_def update_enemy_color_eq)
  moreover have "sentry_color ck r = de_enemy_color ?d"
    by (simp add: sentry_color_def decider_set_enemy_color_def decider_reset_enemy_color_def split: option.split)
  ultimately show ?thesis by (simp add: standard_round_def uav_round_def sentry_round_def Let_def track_ignores_others armor_filter_absorb cong: if_cong)
qed

section \<open>All programs\<close>

text \<open>A round of any of the programs on a link.\<close>

inductive robot_step :: "('e, 'a, 'k :: floor_ceiling, 'f, 'q, 'x, 'i) rig \<Rightarrow> ('e, 'k, 'f, 'q, 'x) robot \<Rightarrow> ('e, 'k, 'f, 'q, 'x) robot \<Rightarrow> bool" for R where
  step_standard: "standard_round R q img t ck r = Some r' \<Longrightarrow> robot_step R r r'"
| step_uav: "uav_round R q img t ck r = Some r' \<Longrightarrow> robot_step R r r'"
| step_sentry: "sentry_round R q img queue t ck r = Some r' \<Longrightarrow> robot_step R r r'"
| step_gener: "gener_round R q now now_aim latest r = Some r' \<Longrightarrow> robot_step R r r'"
| step_main: "mt_standard_round R q armors t ck (latest, r) = Some (latest', r') \<Longrightarrow> robot_step R r r'"

lemma robot_step_sends:
  assumes "robot_step R r r'"
  shows "ro_board r' = ro_board r \<or> (\<exists>c. Dm02_send_command (rg_arith R) (rg_link R) c (ro_board r) = Some (ro_board r'))"
  using assms
proof cases
  case (step_standard q img t ck)
  then show ?thesis unfolding standard_round_def Let_def by (fastforce simp: bind_Some_iff)
next
  case (step_uav q img t ck)
  then show ?thesis unfolding uav_round_def Let_def by (fastforce simp: bind_Some_iff split: if_split_asm)
next
  case (step_sentry q img queue t ck)
  then show ?thesis unfolding sentry_round_def Let_def by (fastforce simp: bind_Some_iff)
next
  case (step_gener q now now_aim latest)
  then show ?thesis unfolding gener_round_def Let_def by (fastforce simp: bind_Some_iff split: option.split_asm if_split_asm)
next
  case (step_main q armors t ck latest latest')
  then show ?thesis unfolding mt_standard_round_def Let_def by (fastforce simp: bind_Some_iff split: if_split_asm)
qed


section \<open>A robot on a wire\<close>

definition rat_arith :: "(rat, int, int) arith" where
  "rat_arith = \<lparr>ar_rad = (\<lambda>v. of_int (sint v)), ar_euler = (\<lambda>y p r. \<lfloor>y\<rfloor>), ar_float = floor, ar_double = of_int, ar_hundredths = (\<lambda>v. of_int (sint v) / 100),
     ar_sub = (-), ar_zero = 0, ar_zerof = 0, ar_udeg = (\<lambda>d. Some (word_of_int \<lfloor>d\<rfloor>)), ar_seconds = of_int, ar_div = (/), ar_slerp = (\<lambda>a k b. a)\<rparr>"

definition wire_rig :: "(unit, unit, rat, int, int, pipe, unit) rig" where
  "wire_rig = \<lparr>rg_arith = rat_arith, rg_link = wire_env, rg_libm = coarse_libm, rg_vision = (\<lambda>q. still_vision), rg_state = still_state, rg_detect = (\<lambda>i. []),
     rg_gimbal_pos = (\<lambda>q. (0, 0, 0)), rg_sort = (\<lambda>xs. xs)\<rparr>"

definition wire_robot :: "(unit, rat, int, int, pipe) robot" where
  "wire_robot = \<lparr>ro_tracker = new_tracker ''red'' 5 15 75 0 still_target, ro_aimer = plain_aimer,
     ro_shooter = \<lparr>sh_last_command = no_command, sh_judge_distance = 3, sh_first_tolerance = 1 / 10, sh_second_tolerance = 1 / 20, sh_auto_fire = True\<rparr>,
     ro_decider = \<lparr>de_enemy_color = Red, de_default_enemy_color = Red, de_mode = 1, de_count = 0, de_invincible = []\<rparr>,
     ro_board = (\<lparr>d_bullet_speed = 0, d_mode = Mode_auto_aim, d_shoot_mode = Both_shoot, d_ft_angle = 0\<rparr>, wire_link)\<rparr>"

definition wire_clocks :: clocks where "wire_clocks = \<lparr>ck_color = 5000, ck_aim = 20, ck_fire = 5000\<rparr>"

lemma wire_sends: "\<exists>b. Dm02_send_command rat_arith wire_env c (ro_board wire_robot) = Some b"
proof -
  obtain ctx w where l: "wire_link = (ctx, w)" by fastforce
  have "\<exists>y p. link_delta rat_arith (co_control c) (ar_float rat_arith (co_yaw c)) (ar_float rat_arith (co_pitch c)) (im_ext w) = Some (y, p)"
    by (simp add: link_delta_def Let_def rat_arith_def)
  then show ?thesis
    using send_packets [OF wire_ready(1,2) wire_ready(3) [unfolded l], of rat_arith "co_control c" "ar_float rat_arith (co_yaw c)" "ar_float rat_arith (co_pitch c)"]
    by (fastforce simp: Dm02_send_command_def wire_robot_def l)
qed

lemma coarse_zero: "limit_rad coarse_libm 0 = Some 0"
  by (simp add: limit_rad_def limit_down.simps limit_up.simps)

lemma wire_idle: "tk_state (update_enemy_color now ref (ro_tracker wire_robot)) = Lost"
  by (simp add: update_enemy_color_def set_enemy_color_def reset_enemy_color_def wire_robot_def new_tracker_def Let_def split: option.split)

lemma wire_rounds: "\<exists>r'. sentry_round wire_rig q () [] 10 wire_clocks wire_robot = Some r'" "\<exists>r'. standard_round wire_rig q () 10 wire_clocks wire_robot = Some r'"
proof -
  let ?k = "update_enemy_color 5000 (from_io (board_referee (ro_board wire_robot))) (ro_tracker wire_robot)"
  have nis: "\<not> bad_converge (tk_target ?k)"
    by (simp add: bad_converge_def nis_window_def update_enemy_color_def set_enemy_color_def reset_enemy_color_def wire_robot_def new_tracker_def Let_def split: option.split)
  have none: "set_priority d (snd (armor_filter d [])) = ([] :: unit armor list)" for d by (simp add: armor_filter_def set_priority_def)
  have t: "\<exists>sw as k'. track_omni (still_vision :: (unit, unit, rat) vision) [] [] 10 ?k = Some (sw, [], as, k') \<and> tk_state k' = Lost"
    using wire_idle [of 5000 "from_io (board_referee (ro_board wire_robot))"]
    by (simp add: track_omni_def check_gap_lost omni_find_def set_target_def sort_armors_def state_machine_def Let_def)
  have s: "\<exists>as k'. track (still_vision :: (unit, unit, rat) vision) [] 10 True ?k = Some ([], as, k')"
    using wire_idle [of 5000 "from_io (board_referee (ro_board wire_robot))"] nis
    by (simp add: track_def check_gap_lost set_target_def sort_armors_def state_machine_def Let_def)
  have lost: "lost_command coarse_libm (still_vision :: (unit, unit, rat) vision) [] 0 = Some no_command"
    by (simp add: lost_command_def decide_def still_vision_def coarse_zero no_command_def)
  have quiet: "shoot M X no_command A gs y S = Some (False, S)" for M :: "rat libm" and X :: "unit \<Rightarrow> nat \<Rightarrow> rat" and A gs y S
    by (simp add: shoot_def no_command_def)
  obtain sw as k' where k: "track_omni (still_vision :: (unit, unit, rat) vision) [] [] 10 ?k = Some (sw, [], as, k')" "tk_state k' = Lost" using t by blast
  obtain b where b: "Dm02_send_command rat_arith wire_env no_command (ro_board wire_robot) = Some b" using wire_sends by blast
  have same: "no_command\<lparr>co_shoot := False\<rparr> = (no_command :: rat command)" by (simp add: no_command_def)
  show "\<exists>r'. sentry_round wire_rig q () [] 10 wire_clocks wire_robot = Some r'"
    by (simp add: sentry_round_def wire_rig_def wire_clocks_def none decider_sort_def k lost quiet same b Let_def)
  show "\<exists>r'. standard_round wire_rig q () 10 wire_clocks wire_robot = Some r'"
    using s b by (auto simp: standard_round_def wire_rig_def wire_clocks_def aim_def Let_def)
qed

theorem sentry_fires_only_justified_witness:
  "\<exists>r' b1 b2 b3 f. sentry_round wire_rig 0 () [] 10 wire_clocks wire_robot = Some r' \<and> board_out pi_out r' = board_out pi_out wire_robot @ b1 @ b2 @ b3 \<and>
     packet_of (Cmd_fire f) b2"
proof -
  obtain r' where r': "sentry_round wire_rig 0 () [] 10 wire_clocks wire_robot = Some r'" using wire_rounds(1) by blast
  have "carries (le_host (rg_link wire_rig)) pi_out" "clock_runs (le_host (rg_link wire_rig))" "ready (snd (ro_board wire_robot))"
    using wire_ready(1-3) by (simp_all add: wire_rig_def wire_robot_def)
  from sentry_fires_only_justified [OF this r'] r' show ?thesis by blast
qed

theorem standard_never_fires_witness:
  "\<exists>r' b1 b2 b3 f. standard_round wire_rig 0 () 10 wire_clocks wire_robot = Some r' \<and> board_out pi_out r' = board_out pi_out wire_robot @ b1 @ b2 @ b3 \<and>
     packet_of (Cmd_fire f) b2 \<and> hf_fire_on f = 0"
proof -
  obtain r' where r': "standard_round wire_rig 0 () 10 wire_clocks wire_robot = Some r'" using wire_rounds(2) by blast
  have "carries (le_host (rg_link wire_rig)) pi_out" "clock_runs (le_host (rg_link wire_rig))" "ready (snd (ro_board wire_robot))"
    using wire_ready(1-3) by (simp_all add: wire_rig_def wire_robot_def)
  from standard_never_fires [OF this r'] r' show ?thesis by blast
qed


end
