(* ===== verification/Sentry.thy ===== *)
theory Sentry
  imports Program "HOL-Library.Sublist"
begin

text \<open>
  The sentry on the bare driver, \<^verbatim>\<open>src/sentry.cpp\<close> and its variant \<^verbatim>\<open>src/sentry_bp.cpp\<close>: a communication thread that owns the driver, keeps the reports of the
  device in atomic variables and sends the newest command of each kind, and a main loop that computes one command for every picture and leaves it for the
  thread. The two further forms of \<^verbatim>\<open>Decider::decide\<close>, which look through other cameras while no target is tracked, are modelled here with the loop that calls them.

  Orientations are quaternions over the field of the numeric tools. The product of the three rotations (Eigen), the detector, the solver and the filter
  are functions of a record \<open>sentry_rig\<close>.
\<close>

section \<open>The communication thread\<close>

text \<open>The atomic variables of \<^verbatim>\<open>DmWorker\<close>, the commands that wait under its lock, and the counters of the variant; the last component is the world of the driver.\<close>

record dm_state =
  ms_yaw_udeg :: i32
  ms_pitch_udeg :: i32
  ms_roll_udeg :: i32
  ms_enc_yaw :: i32
  ms_enc_pitch :: i32
  ms_gyro_yaw_udeps :: i32
  ms_gyro_pitch_udeps :: i32
  ms_bullet_speed_x100 :: i32
  ms_bullet_count :: i32
  ms_gimbal_mode :: i32
  ms_shoot_state :: i32
  ms_shooter_heat :: i32
  ms_shooter_heat_limit :: i32
  ms_projectile_allowance_17mm :: i32
  ms_projectile_allowance_42mm :: i32
  ms_device_ts_us :: u64
  ms_host_ts_ns :: u64

record 'x dm_worker =
  dw_established :: bool
  dw_have_state :: bool
  dw_state :: dm_state
  dw_pending :: "host_gimbal_delta option"
  dw_pending_fire :: "host_fire option"
  dw_pending_chassis :: "host_chassis option"
  dw_referee_valid :: bool
  dw_referee :: host_referee
  dw_tfmini_valid :: bool
  dw_tfmini :: host_tfmini
  dw_timesync :: time_sync_status
  dw_send_ok :: u64
  dw_send_fail :: u64
  dw_ext :: 'x

type_synonym 'x worker = "'x dm_worker driver"

definition new_worker_app :: "'x \<Rightarrow> 'x dm_worker" where
  "new_worker_app x = \<lparr>dw_established = False, dw_have_state = False,
     dw_state = \<lparr>ms_yaw_udeg = 0, ms_pitch_udeg = 0, ms_roll_udeg = 0, ms_enc_yaw = 0, ms_enc_pitch = 0, ms_gyro_yaw_udeps = 0, ms_gyro_pitch_udeps = 0,
       ms_bullet_speed_x100 = 0, ms_bullet_count = 0, ms_gimbal_mode = 0, ms_shoot_state = 0, ms_shooter_heat = 0, ms_shooter_heat_limit = 0,
       ms_projectile_allowance_17mm = 0, ms_projectile_allowance_42mm = 0, ms_device_ts_us = 0, ms_host_ts_ns = 0\<rparr>,
     dw_pending = None, dw_pending_fire = None, dw_pending_chassis = None, dw_referee_valid = False,
     dw_referee = \<lparr>hr_enemy_team = 0, hr_fire_allowed = 0, hr_robot_id = 0, hr_game_stage = 0, hr_status = 0, hr_device_ts_us = 0, hr_host_ts_ns = 0\<rparr>,
     dw_tfmini_valid = False, dw_tfmini = \<lparr>ht_distance_cm = 0, ht_strength = 0, ht_temp_cdeg = 0, ht_status = 0, ht_device_ts_us = 0, ht_host_ts_ns = 0\<rparr>,
     dw_timesync = \<lparr>tst_valid = False, tst_offset_us = 0, tst_rtt_us = 0, tst_version = 0, tst_last_device_time_us = 0, tst_last_host_time_us = 0\<rparr>,
     dw_send_ok = 0, dw_send_fail = 0, dw_ext = x\<rparr>"

definition on_dw_ext :: "('x \<Rightarrow> 'a \<times> 'x) \<Rightarrow> 'x dm_worker \<Rightarrow> 'a \<times> 'x dm_worker" where
  "on_dw_ext f a = (let (r, x) = f (dw_ext a) in (r, a\<lparr>dw_ext := x\<rparr>))"

definition worker_host :: "'x host_env \<Rightarrow> 'x dm_worker host_env" where
  "worker_host E = \<lparr>tp_open = (\<lambda>ep. on_dw_ext (tp_open E ep)), tp_close = (\<lambda>a. a\<lparr>dw_ext := tp_close E (dw_ext a)\<rparr>),
     tp_write_all = (\<lambda>d. on_dw_ext (tp_write_all E d)), tp_read_some = (\<lambda>n. on_dw_ext (tp_read_some E n)),
     tp_wait_readable = (\<lambda>ms. on_dw_ext (tp_wait_readable E ms)), steady_ns = on_dw_ext (steady_ns E),
     ns_to_device_us = ns_to_device_us E, us_to_host_ns = us_to_host_ns E, fwrapv = fwrapv E\<rparr>"

subsection \<open>Callbacks\<close>

definition worker_on_timesync :: "time_sync_status \<Rightarrow> 'x dm_worker \<Rightarrow> 'x dm_worker" where
  "worker_on_timesync ts a = a\<lparr>dw_timesync := ts\<rparr>"

definition worker_on_state :: "host_gimbal_state \<Rightarrow> 'x dm_worker \<Rightarrow> 'x dm_worker" where
  "worker_on_state st a = a\<lparr>dw_state := \<lparr>ms_yaw_udeg = hg_yaw_udeg st, ms_pitch_udeg = hg_pitch_udeg st, ms_roll_udeg = hg_roll_udeg st,
     ms_enc_yaw = hg_enc_yaw st, ms_enc_pitch = hg_enc_pitch st, ms_gyro_yaw_udeps = hg_gyro_yaw_udeps st, ms_gyro_pitch_udeps = hg_gyro_pitch_udeps st,
     ms_bullet_speed_x100 = hg_bullet_speed_x100 st, ms_bullet_count = hg_bullet_count st, ms_gimbal_mode = hg_gimbal_mode st, ms_shoot_state = hg_shoot_state st,
     ms_shooter_heat = hg_shooter_heat st, ms_shooter_heat_limit = hg_shooter_heat_limit st,
     ms_projectile_allowance_17mm = hg_projectile_allowance_17mm st, ms_projectile_allowance_42mm = hg_projectile_allowance_42mm st,
     ms_device_ts_us = hg_device_ts_us st, ms_host_ts_ns = hg_host_ts_ns st\<rparr>, dw_have_state := True\<rparr>"

definition worker_on_tfmini :: "host_tfmini \<Rightarrow> 'x dm_worker \<Rightarrow> 'x dm_worker" where
  "worker_on_tfmini tf a = a\<lparr>dw_tfmini_valid := True, dw_tfmini := tf\<rparr>"

text \<open>The stores of the referee callback, one by one, since the main loop may load the variables between them.\<close>

definition referee_stores :: "host_referee \<Rightarrow> ('x dm_worker \<Rightarrow> 'x dm_worker) list" where
  "referee_stores rs =
    [\<lambda>a. a\<lparr>dw_referee_valid := (if hr_status rs \<noteq> 0 then (hr_status rs AND 0x0001) \<noteq> 0 else True)\<rparr>,
     \<lambda>a. a\<lparr>dw_referee := (dw_referee a)\<lparr>hr_enemy_team := hr_enemy_team rs\<rparr>\<rparr>,
     \<lambda>a. a\<lparr>dw_referee := (dw_referee a)\<lparr>hr_fire_allowed := hr_fire_allowed rs\<rparr>\<rparr>,
     \<lambda>a. a\<lparr>dw_referee := (dw_referee a)\<lparr>hr_robot_id := hr_robot_id rs\<rparr>\<rparr>,
     \<lambda>a. a\<lparr>dw_referee := (dw_referee a)\<lparr>hr_game_stage := hr_game_stage rs\<rparr>\<rparr>,
     \<lambda>a. a\<lparr>dw_referee := (dw_referee a)\<lparr>hr_status := hr_status rs\<rparr>\<rparr>,
     \<lambda>a. a\<lparr>dw_referee := (dw_referee a)\<lparr>hr_device_ts_us := hr_device_ts_us rs\<rparr>\<rparr>,
     \<lambda>a. a\<lparr>dw_referee := (dw_referee a)\<lparr>hr_host_ts_ns := hr_host_ts_ns rs\<rparr>\<rparr>]"

definition worker_on_referee :: "host_referee \<Rightarrow> 'x dm_worker \<Rightarrow> 'x dm_worker" where
  "worker_on_referee rs a = fold (\<lambda>f. f) (referee_stores rs) a"

definition worker_callbacks :: "'x dm_worker driver_callbacks" where
  "worker_callbacks = no_callbacks\<lparr>on_uproto_event := Some (\<lambda>_ a. a), on_timesync := Some worker_on_timesync, on_gimbal_state := Some worker_on_state,
     on_gimbal_tfmini := Some worker_on_tfmini, on_referee_status := Some worker_on_referee\<rparr>"

subsection \<open>Starting\<close>

text \<open>
  The endpoint: the command line, else \<^verbatim>\<open>dm02_endpoint\<close>, else \<^verbatim>\<open>com_port\<close> and \<^verbatim>\<open>dm02_baud\<close>, else none. A value of the wrong type throws.
\<close>

definition sentry_endpoint :: "string \<Rightarrow> 'f link_config \<Rightarrow> string outcome" where
  "sentry_endpoint override c =
     (if override \<noteq> [] then Returns override
      else case cf_dm02_endpoint c of
        Value e \<Rightarrow> Returns e
      | Bad_conversion \<Rightarrow> Throws
      | Missing \<Rightarrow> (case cf_com_port c of
          Missing \<Rightarrow> Returns []
        | Bad_conversion \<Rightarrow> Throws
        | Value com_port \<Rightarrow> (case cf_dm02_baud c of
            Missing \<Rightarrow> Returns (default_endpoint com_port 115200)
          | Bad_conversion \<Rightarrow> Throws
          | Value baud \<Rightarrow> Returns (default_endpoint com_port baud))))"

text \<open>Whether there is a driver afterwards; without one, or if the port does not open, the loop runs on its own.\<close>

definition sentry_start :: "'x link_env \<Rightarrow> string \<Rightarrow> uproto_context \<Rightarrow> 'x \<Rightarrow> (bool \<times> 'x worker) option" where
  "sentry_start L endpoint raw_ctx x = do {
     let s = (raw_ctx, new_driver_impl True (default_driver_config\<lparr>dc_timesync_enable := True, dc_timesync_period_ms := 1000, dc_timesync_initiator := True\<rparr>) (new_worker_app x));
     if endpoint = [] then Some (False, s)
     else Driver_open (worker_host (le_host L)) endpoint (Driver_set_callbacks worker_callbacks s)
   }"

subsection \<open>A round of the thread\<close>

definition on_app :: "('p \<Rightarrow> 'p) \<Rightarrow> 'p driver \<Rightarrow> 'p driver" where
  "on_app f s = (fst s, (snd s)\<lparr>im_ext := f (im_ext (snd s))\<rparr>)"

abbreviation the_app :: "'p driver \<Rightarrow> 'p" where
  "the_app s \<equiv> im_ext (snd s)"

text \<open>The guarded step of the driver: an exception of the waiting transport ends it.\<close>

definition worker_step :: "'x link_env \<Rightarrow> 'x worker \<Rightarrow> 'x worker option" where
  "worker_step L s = (case (if Driver_is_open s then le_wait_throws L 20 (dw_ext (the_app s)) else None) of
     Some x \<Rightarrow> Some (on_app (\<lambda>a. a\<lparr>dw_ext := x\<rparr>) s)
   | None \<Rightarrow> Driver_step (worker_host (le_host L)) 20 s)"

definition worker_query :: "'x link_env \<Rightarrow> int \<Rightarrow> 'x worker \<Rightarrow> (int \<times> 'x worker) option" where
  "worker_query L last_query s = (case s of (ctx, w) \<Rightarrow>
     let (now, w) = now_ns_steady (worker_host (le_host L)) w; now_tp = steady_from_ns now
     in if Driver_established (ctx, w) \<and> now_tp - last_query \<ge> 300 * 1000000
        then let ref_host_ns = hr_host_ts_ns (dw_referee (im_ext w));
                 should_query = (\<not> (ref_host_ns \<noteq> 0 \<and> now \<ge> ref_host_ns \<and> now - ref_host_ns < kRefereeStaleNs))
             in do {
               s \<leftarrow> (if should_query then map_option snd (send_referee_query (worker_host (le_host L)) (ctx, w)) else Some (ctx, w));
               Some (now_tp, s)
             }
        else Some (last_query, ctx, w))"

text \<open>What a round does before it looks for commands.\<close>

definition worker_listen :: "'x link_env \<Rightarrow> int \<times> 'x worker \<Rightarrow> (int \<times> 'x worker) option" where
  "worker_listen L = (\<lambda>(last_query, s). do {
     s \<leftarrow> worker_step L s;
     worker_query L last_query (on_app (\<lambda>a. a\<lparr>dw_established := Driver_established s\<rparr>) s)
   })"

text \<open>The critical section: the pending commands, which are reset.\<close>

definition pending_commands :: "'x dm_worker \<Rightarrow> host_command list" where
  "pending_commands a =
     (case dw_pending a of None \<Rightarrow> [] | Some c \<Rightarrow> [Cmd_delta c]) @
     (case dw_pending_fire a of None \<Rightarrow> [] | Some c \<Rightarrow> [Cmd_fire c]) @
     (case dw_pending_chassis a of None \<Rightarrow> [] | Some c \<Rightarrow> [Cmd_chassis c])"

definition worker_take :: "'x worker \<Rightarrow> host_command list \<times> 'x worker" where
  "worker_take s = (pending_commands (the_app s), on_app (\<lambda>a. a\<lparr>dw_pending := None, dw_pending_fire := None, dw_pending_chassis := None\<rparr>) s)"

text \<open>Sending one of them; the variant counts the aiming commands (\<open>counts\<close>).\<close>

definition count_sent :: "bool \<Rightarrow> host_command \<Rightarrow> bool \<Rightarrow> 'x dm_worker \<Rightarrow> 'x dm_worker" where
  "count_sent counts c ok a = (case c of
     Cmd_delta _ \<Rightarrow> if \<not> counts then a else if ok then a\<lparr>dw_send_ok := dw_send_ok a + 1\<rparr> else a\<lparr>dw_send_fail := dw_send_fail a + 1\<rparr>
   | _ \<Rightarrow> a)"

definition worker_send_one :: "'x link_env \<Rightarrow> bool \<Rightarrow> host_command \<Rightarrow> 'x worker \<Rightarrow> 'x worker option" where
  "worker_send_one L counts c s = do {
     (ok, s) \<leftarrow> send_command (worker_host (le_host L)) c s;
     Some (on_app (count_sent counts c ok) s)
   }"

fun worker_send :: "'x link_env \<Rightarrow> bool \<Rightarrow> host_command list \<Rightarrow> 'x worker \<Rightarrow> 'x worker option" where
  "worker_send L counts [] s = Some s"
| "worker_send L counts (c # cs) s = do { s \<leftarrow> worker_send_one L counts c s; worker_send L counts cs s }"

definition worker_round :: "'x link_env \<Rightarrow> bool \<Rightarrow> int \<times> 'x worker \<Rightarrow> (int \<times> 'x worker) option" where
  "worker_round L counts y = do {
     (last_query, s) \<leftarrow> worker_listen L y;
     let (cmds, s) = worker_take s;
     s \<leftarrow> worker_send L counts cmds s;
     Some (last_query, on_app (\<lambda>a. a\<lparr>dw_ext := le_sleep L 2 (dw_ext a)\<rparr>) s)
   }"

text \<open>The thread for \<open>n\<close> rounds, or until it is told to stop; \<^verbatim>\<open>stop\<close> closes the port.\<close>

fun worker_thread :: "'x link_env \<Rightarrow> bool \<Rightarrow> nat \<Rightarrow> int \<times> 'x worker \<Rightarrow> (int \<times> 'x worker) option" where
  "worker_thread L counts 0 y = Some y"
| "worker_thread L counts (Suc n) y =
     (if le_quit L (dw_ext (the_app (snd y))) then Some y else do { y \<leftarrow> worker_round L counts y; worker_thread L counts n y })"

definition worker_start :: "'x link_env \<Rightarrow> 'x worker \<Rightarrow> int \<times> 'x worker" where
  "worker_start L s = (case s of (ctx, w) \<Rightarrow> let (now, w) = now_ns_steady (worker_host (le_host L)) w
     in (steady_from_ns now - 1000 * 1000000, ctx, w))"

definition worker_stop :: "'x link_env \<Rightarrow> 'x worker \<Rightarrow> 'x worker" where
  "worker_stop L s = Driver_close (worker_host (le_host L)) s"

text \<open>\<^verbatim>\<open>queue_delta\<close>, \<^verbatim>\<open>queue_fire\<close> and \<^verbatim>\<open>queue_chassis\<close>; there is no slot for a query.\<close>

fun queue_order :: "host_command \<Rightarrow> 'x dm_worker \<Rightarrow> 'x dm_worker" where
  "queue_order (Cmd_delta c) a = a\<lparr>dw_pending := Some c\<rparr>"
| "queue_order (Cmd_fire c) a = a\<lparr>dw_pending_fire := Some c\<rparr>"
| "queue_order (Cmd_chassis c) a = a\<lparr>dw_pending_chassis := Some c\<rparr>"
| "queue_order Cmd_referee_query a = a"

section \<open>The main loop\<close>

text \<open>
  What the loop is built on. \<open>sr_quat\<close> is the product of the rotations by yaw, pitch and roll, \<open>sr_center\<close> the normalised centre of a plate in its picture,
  \<open>sr_camera\<close> the names of the two side cameras, and \<open>sr_fov\<close> their field of view.
\<close>

record ('e, 'a, 'k, 'i) sentry_rig =
  sr_libm :: "'k libm"
  sr_vision :: "'k quat \<Rightarrow> ('e, 'a, 'k) vision"
  sr_state :: "'e \<Rightarrow> nat \<Rightarrow> 'k"
  sr_detect :: "'i \<Rightarrow> 'a armor list"
  sr_gimbal_pos :: "'k quat \<Rightarrow> 'k vec3"
  sr_quat :: "'k \<Rightarrow> 'k \<Rightarrow> 'k \<Rightarrow> 'k quat"
  sr_center :: "'a \<Rightarrow> 'k \<times> 'k"
  sr_camera :: "nat \<Rightarrow> string"
  sr_fov :: "'k \<times> 'k"

text \<open>Whether there is a driver, and the options of command line and configuration.\<close>

record 'k sentry_options =
  so_driver :: bool
  so_dm_send :: bool
  so_allow_shoot :: bool
  so_bullet_speed_override :: 'k
  so_bullet_speed_default :: 'k
  so_shoot_mode :: shoot_mode

record ('e, 'k) sentry =
  se_tracker :: "'e tracker"
  se_aimer :: "'k aimer"
  se_shooter :: "'k shooter"
  se_decider :: decider

subsection \<open>Looking through other cameras\<close>

definition delta_angle :: "('e, 'a, 'k :: linordered_field, 'i) sentry_rig \<Rightarrow> 'a armor \<Rightarrow> string \<Rightarrow> 'k \<times> 'k" where
  "delta_angle R armor camera =
     (let (x, y) = sr_center R (am_geometry armor); (new_fov_h, new_fov_v) = sr_fov R in
      if camera = ''left'' then (62 + new_fov_h / 2 - x * new_fov_h, y * new_fov_v - new_fov_v / 2)
      else if camera = ''right'' then (- 62 + new_fov_h / 2 - x * new_fov_h, y * new_fov_v - new_fov_v / 2)
      else (170 + 542 / 10 / 2 - x * (542 / 10), y * (445 / 10) - 445 / 10 / 2))"

text \<open>The command for the first plate that a camera shows.\<close>

definition turn_to :: "('e, 'a, 'k :: floor_ceiling, 'i) sentry_rig \<Rightarrow> 'k \<Rightarrow> 'a armor \<Rightarrow> string \<Rightarrow> 'k command option" where
  "turn_to R gimbal_yaw armor camera = do {
     let (dyaw, dpitch) = delta_angle R armor camera;
     yaw \<leftarrow> limit_rad (sr_libm R) (gimbal_yaw + to_rad dyaw);
     pitch \<leftarrow> limit_rad (sr_libm R) (to_rad dpitch);
     Some \<lparr>co_control = True, co_shoot = False, co_yaw = yaw, co_pitch = pitch, co_horizon_distance = 0\<rparr>
   }"

text \<open>\<^verbatim>\<open>decide\<close> with three cameras, one of them per call; \<open>cam\<close> gives their pictures.\<close>

definition decide_cameras ::
  "('e, 'a, 'k :: floor_ceiling, 'i) sentry_rig \<Rightarrow> (nat \<Rightarrow> 'i) \<Rightarrow> 'k \<Rightarrow> decider \<Rightarrow> ('k command \<times> decider) outcome option" where
  "decide_cameras R cam gimbal_yaw d =
     (if de_count d < 0 \<or> de_count d > 2 then Some Throws
      else do {
        let (none, armors) = armor_filter d (sr_detect R (cam (nat (de_count d))));
        let d' = d\<lparr>de_count := (de_count d + 1) mod 3\<rparr>;
        if \<not> none then do {
          c \<leftarrow> turn_to R gimbal_yaw (hd armors) (if de_count d = 2 then ''back'' else sr_camera R (nat (de_count d)));
          Some (Returns (c, d'))
        }
        else Some (Returns (no_command, d'))
      })"

text \<open>\<^verbatim>\<open>decide\<close> with the back camera alone.\<close>

definition decide_back :: "('e, 'a, 'k :: floor_ceiling, 'i) sentry_rig \<Rightarrow> 'i \<Rightarrow> 'k \<Rightarrow> decider \<Rightarrow> ('k command \<times> decider) outcome option" where
  "decide_back R img gimbal_yaw d = do {
     let (none, armors) = armor_filter d (sr_detect R img);
     if \<not> none then do { c \<leftarrow> turn_to R gimbal_yaw (hd armors) ''back''; Some (Returns (c, d)) }
     else Some (Returns (no_command, d))
   }"

subsection \<open>From a command to orders\<close>

definition udeg_to_rad :: "('k :: linordered_field) libm \<Rightarrow> i32 \<Rightarrow> 'k" where
  "udeg_to_rad M u = of_int (sint u) / 1000000 * (lm_pi M / 180)"

text \<open>\<^verbatim>\<open>std::llround\<close>: to the nearest integer, halves away from zero; outside the range of \<^verbatim>\<open>long long\<close> there is no result. The cast to 32 bits wraps.\<close>

definition llround :: "'k :: floor_ceiling \<Rightarrow> int option" where
  "llround x = (let n = (if 0 \<le> x then \<lfloor>x + 1 / 2\<rfloor> else \<lceil>x - 1 / 2\<rceil>) in if - (2 ^ 63) \<le> n \<and> n < 2 ^ 63 then Some n else None)"

definition rad_to_udeg :: "('k :: floor_ceiling) libm \<Rightarrow> 'k \<Rightarrow> i32 option" where
  "rad_to_udeg M r = do { k \<leftarrow> fdiv (180 * 1000000) (lm_pi M); n \<leftarrow> llround (r * k); Some (word_of_int n) }"

text \<open>The orientation, the speed of the projectiles and the referee report, from what the thread has stored.\<close>

definition frame_quat :: "('e, 'a, 'k :: linordered_field, 'i) sentry_rig \<Rightarrow> 'k sentry_options \<Rightarrow> 'x dm_worker \<Rightarrow> 'k quat" where
  "frame_quat R opt a =
     (if so_driver opt \<and> dw_have_state a
      then sr_quat R (udeg_to_rad (sr_libm R) (ms_yaw_udeg (dw_state a))) (udeg_to_rad (sr_libm R) (ms_pitch_udeg (dw_state a))) (udeg_to_rad (sr_libm R) (ms_roll_udeg (dw_state a)))
      else (0, 0, 0, 1))"

definition frame_bullet_speed :: "('k :: linordered_field) sentry_options \<Rightarrow> 'x dm_worker \<Rightarrow> 'k" where
  "frame_bullet_speed opt a =
     (if so_bullet_speed_override opt > 0 then so_bullet_speed_override opt
      else if so_driver opt \<and> dw_have_state a \<and> sint (ms_bullet_speed_x100 (dw_state a)) > 0 then of_int (sint (ms_bullet_speed_x100 (dw_state a))) / 100
      else so_bullet_speed_default opt)"

text \<open>The four loads, each of them from the state at its own moment.\<close>

definition loaded_view :: "'x dm_worker \<Rightarrow> 'x dm_worker \<Rightarrow> 'x dm_worker \<Rightarrow> 'x dm_worker \<Rightarrow> referee_view" where
  "loaded_view a1 a2 a3 a4 = \<lparr>rv_valid = dw_referee_valid a1, rv_fire_allowed = (hr_fire_allowed (dw_referee a3) \<noteq> 0),
     rv_enemy_team = hr_enemy_team (dw_referee a2), rv_host_ts_ns = hr_host_ts_ns (dw_referee a4)\<rparr>"

abbreviation worker_view :: "'x dm_worker \<Rightarrow> referee_view" where
  "worker_view a \<equiv> loaded_view a a a a"

text \<open>The orders of a frame, in the order in which they are queued; none without an established connection.\<close>

definition sentry_orders ::
  "('e, 'a, 'k :: floor_ceiling, 'i) sentry_rig \<Rightarrow> 'k sentry_options \<Rightarrow> int \<Rightarrow> 'x dm_worker \<Rightarrow> 'k quat \<Rightarrow> 'k command \<Rightarrow> host_command list option" where
  "sentry_orders R opt t a q c =
     (if so_driver opt \<and> so_dm_send opt \<and> dw_established a then do {
        (gimbal_yaw, gimbal_pitch, _) \<leftarrow> eulers (sr_libm R) q 2 1 0 False;
        dyaw \<leftarrow> (if co_control c then limit_rad (sr_libm R) (co_yaw c - gimbal_yaw) else Some 0);
        dpitch \<leftarrow> (if co_control c then limit_rad (sr_libm R) (co_pitch c - gimbal_pitch) else Some 0);
        y \<leftarrow> rad_to_udeg (sr_libm R) dyaw;
        p \<leftarrow> rad_to_udeg (sr_libm R) dpitch;
        let status = (if co_control c then 0x0001 else 0);
        let ts = word_of_int t;
        Some [Cmd_delta \<lparr>hd_delta_yaw_udeg = y, hd_delta_pitch_udeg = p, hd_status = status, hd_host_ts_ns = ts, hd_device_ts_us = 0\<rparr>,
          Cmd_fire \<lparr>hf_fire_on = (if co_shoot c then 1 else 0), hf_fire_mode = 2, hf_burst_count = (if co_shoot c then 2 else 0), hf_status = status,
            hf_host_ts_ns = ts, hf_device_ts_us = 0\<rparr>,
          Cmd_chassis \<lparr>hq_vx_mm_s = 0, hq_vy_mm_s = 0, hq_wz_mdeg_s = 0, hq_mode = 3, hq_status = 0, hq_host_ts_ns = ts, hq_device_ts_us = 0\<rparr>]
      }
      else Some [])"

text \<open>
  A frame: \<open>a\<close> is what the loads of atomic variables return, \<open>lost\<close> the form of \<^verbatim>\<open>decide\<close> that the program uses (three cameras, or the back camera in the variant). An exception of
  \<open>lost\<close> ends the program, so no frame results.
\<close>

definition sentry_frame ::
  "('e, 'a, 'k :: floor_ceiling, 'i) sentry_rig \<Rightarrow> 'k sentry_options \<Rightarrow> ('k \<Rightarrow> decider \<Rightarrow> ('k command \<times> decider) outcome option) \<Rightarrow> 'i \<Rightarrow> int \<Rightarrow> clocks \<Rightarrow>
   'x dm_worker \<Rightarrow> ('e, 'k) sentry \<Rightarrow> (host_command list \<times> ('e, 'k) sentry) option" where
  "sentry_frame R opt lost img t ck a se = do {
     let q = frame_quat R opt a;
     let V = sr_vision R q;
     let gimbal_yaw = fst (sr_gimbal_pos R q);
     let armors = sr_detect R img;
     let ref = worker_view a;
     let k = update_enemy_color (ck_color ck) ref (se_tracker se);
     let d = (case enemy_color (ck_color ck) ref of Some c \<Rightarrow> decider_set_enemy_color c (se_decider se) | None \<Rightarrow> decider_reset_enemy_color (se_decider se));
     let armors = set_priority d (snd (armor_filter d armors));
     (targets, armors, k) \<leftarrow> track V armors t True k;
     (c, A, d) \<leftarrow>
       (if tk_state k = Lost
        then do { r \<leftarrow> lost gimbal_yaw d; case r of Returns (c, d) \<Rightarrow> Some (c, se_aimer se, d) | _ \<Rightarrow> None }
        else do {
          (c, A) \<leftarrow> aim_shoot_mode (sr_libm R) V (sr_state R) (ck_aim ck) targets t (frame_bullet_speed opt a) (so_shoot_mode opt) True (se_aimer se);
          Some (c, A, d)
        });
     (sh, S) \<leftarrow> shoot (sr_libm R) (sr_state R) c A targets gimbal_yaw (se_shooter se);
     let c = c\<lparr>co_shoot := sh\<rparr>;
     let c = (if \<not> so_allow_shoot opt \<or> \<not> can_fire (ck_fire ck) ref then c\<lparr>co_shoot := False\<rparr> else c);
     orders \<leftarrow> sentry_orders R opt t a q c;
     Some (orders, \<lparr>se_tracker = k, se_aimer = A, se_shooter = S, se_decider = d\<rparr>)
   }"

section \<open>The thread keeps going\<close>

text \<open>The commands that wait for the thread. Only the main loop and the critical section of the thread change them.\<close>

definition waiting :: "'x dm_worker \<Rightarrow> host_gimbal_delta option \<times> host_fire option \<times> host_chassis option" where
  "waiting a = (dw_pending a, dw_pending_fire a, dw_pending_chassis a)"

lemma waiting_updates [simp]:
  "waiting (a\<lparr>dw_ext := x\<rparr>) = waiting a" "waiting (a\<lparr>dw_established := b\<rparr>) = waiting a" "waiting (count_sent counts c ok a) = waiting a"
  "waiting (worker_on_state st a) = waiting a" "waiting (worker_on_tfmini tf a) = waiting a" "waiting (worker_on_timesync ts a) = waiting a"
  "waiting (worker_on_referee rs a) = waiting a"
  by (simp_all add: waiting_def count_sent_def worker_on_state_def worker_on_tfmini_def worker_on_timesync_def worker_on_referee_def referee_stores_def split: host_command.split)

lemma worker_ext [simp]:
  "dw_ext (worker_on_state st a) = dw_ext a" "dw_ext (worker_on_tfmini tf a) = dw_ext a" "dw_ext (worker_on_timesync ts a) = dw_ext a"
  "dw_ext (worker_on_referee rs a) = dw_ext a" "dw_ext (count_sent counts c ok a) = dw_ext a"
  by (simp_all add: count_sent_def worker_on_state_def worker_on_tfmini_def worker_on_timesync_def worker_on_referee_def referee_stores_def split: host_command.split)

interpretation worker_link: wrapping_host "wrapping (worker_host E)" worker_callbacks "\<lambda>a. waiting a = p" for E p
  by unfold_locales (auto simp: worker_host_def on_dw_ext_def Let_def split_beta quiet_callbacks_def keeps_ext_def worker_callbacks_def no_callbacks_def)

lemma worker_wrapping: "fwrapv E \<Longrightarrow> wrapping (worker_host E) = worker_host E"
  by (simp add: worker_host_def)

lemma worker_finite:
  assumes "finite_transport E unread"
  shows "finite_input (worker_host E) worker_callbacks (\<lambda>a. unread (dw_ext a))"
proof -
  have "nat n \<le> length buf \<and> unread e' < unread e" if "fst (tp_read_some E 1024 e) = (n, buf)" "snd (tp_read_some E 1024 e) = e'" "n > 0" for n e e' buf
    using assms that unfolding finite_transport_def by (metis prod.collapse)
  then show ?thesis
    using assms unfolding finite_transport_def finite_input_def
    by (auto simp: worker_host_def on_dw_ext_def Let_def split_beta quiet_callbacks_def keeps_ext_def worker_callbacks_def no_callbacks_def)
qed

text \<open>A driver in the hands of the thread.\<close>

definition worker_ok :: "'x worker \<Rightarrow> bool" where
  "worker_ok s \<longleftrightarrow> wf_ctx (fst s) \<and> driver_ok worker_callbacks (\<lambda>_. True) (snd s)"

definition holds :: "host_gimbal_delta option \<times> host_fire option \<times> host_chassis option \<Rightarrow> 'x worker \<Rightarrow> bool" where
  "holds p s \<longleftrightarrow> wf_ctx (fst s) \<and> driver_ok worker_callbacks (\<lambda>a. waiting a = p) (snd s)"

lemma holds_iff: "holds p s \<longleftrightarrow> worker_ok s \<and> waiting (the_app s) = p"
  by (auto simp: holds_def worker_ok_def driver_ok_def)

lemma holds_on_app: "holds p s \<Longrightarrow> waiting (f (the_app s)) = p \<Longrightarrow> holds p (on_app f s)"
  by (simp add: holds_def on_app_def driver_ok_def)

lemma worker_ok_on_app: "worker_ok (on_app f s) \<longleftrightarrow> worker_ok s"
  by (simp add: worker_ok_def on_app_def driver_ok_def)

lemma worker_step_holds:
  assumes "holds p s" and "fwrapv (le_host L)" and "finite_transport (le_host L) unread"
  shows "\<exists>s'. worker_step L s = Some s' \<and> holds p s'"
proof -
  obtain ctx w where s: "s = (ctx, w)" by fastforce
  have "\<exists>ctx' w'. Driver_step (wrapping (worker_host (le_host L))) 20 (ctx, w) = Some (ctx', w') \<and> wf_ctx ctx' \<and> driver_ok worker_callbacks (\<lambda>a. waiting a = p) w'"
  proof (rule worker_link.Driver_step_returns)
    show "finite_input (wrapping (worker_host (le_host L))) worker_callbacks (\<lambda>a. unread (dw_ext a))"
      unfolding worker_wrapping [OF assms(2)] by (rule worker_finite [OF assms(3)])
  qed (use assms(1) in \<open>simp_all add: holds_def s worker_host_def on_dw_ext_def Let_def split_beta\<close>)
  then have "\<exists>s'. Driver_step (worker_host (le_host L)) 20 s = Some s' \<and> holds p s'"
    unfolding worker_wrapping [OF assms(2)] by (auto simp: holds_def s)
  moreover have "holds p (on_app (\<lambda>a. a\<lparr>dw_ext := x\<rparr>) s)" for x using assms(1) by (intro holds_on_app) (auto simp: holds_iff)
  ultimately show ?thesis by (auto simp: worker_step_def simp del: split_paired_Ex split: option.split)
qed

lemma send_holds:
  assumes "holds p s" and "fwrapv (le_host L)"
  shows "\<exists>ok s'. send_command (worker_host (le_host L)) c s = Some (ok, s') \<and> holds p s'"
proof -
  have "wf_ctx (fst s)" "driver_ok worker_callbacks (\<lambda>a. waiting a = p) (snd s)" using assms(1) by (simp_all add: holds_def)
  from worker_link.send_command_total [where E = "le_host L" and c = c, OF this]
  show ?thesis unfolding worker_wrapping [OF assms(2)] by (cases s) (auto simp: safe_def holds_def)
qed

lemma worker_query_holds:
  assumes "holds p s" and "fwrapv (le_host L)"
  shows "\<exists>l s'. worker_query L last_query s = Some (l, s') \<and> holds p s'"
proof -
  obtain ctx w where s: "s = (ctx, w)" by fastforce
  obtain t w1 where n: "now_ns_steady (worker_host (le_host L)) w = (t, w1)" by fastforce
  have w: "wf_ctx ctx" "driver_ok worker_callbacks (\<lambda>a. waiting a = p) w" using assms(1) by (simp_all add: holds_def s)
  have "driver_ok worker_callbacks (\<lambda>a. waiting a = p) w1"
    using worker_link.clock_ok(1) [where E = "le_host L" and p = p] n w(2) unfolding worker_wrapping [OF assms(2)] by blast
  then have h: "holds p (ctx, w1)" using w by (simp add: holds_def)
  show ?thesis using n h send_holds [OF h assms(2), of Cmd_referee_query] by (auto simp: worker_query_def s Let_def simp del: split_paired_Ex)
qed

lemma worker_listen_holds:
  assumes "holds p s" and "fwrapv (le_host L)" and "finite_transport (le_host L) unread"
  shows "\<exists>l s'. worker_listen L (last_query, s) = Some (l, s') \<and> holds p s'"
proof -
  obtain s1 where s1: "worker_step L s = Some s1" "holds p s1" using worker_step_holds [OF assms] by blast
  have "holds p (on_app (\<lambda>a. a\<lparr>dw_established := Driver_established s1\<rparr>) s1)" using s1(2) by (intro holds_on_app) (auto simp: holds_iff)
  from worker_query_holds [OF this assms(2), of last_query] show ?thesis using s1(1) by (simp add: worker_listen_def)
qed

lemma worker_send_one_holds:
  assumes "holds p s" and "fwrapv (le_host L)"
  shows "\<exists>s'. worker_send_one L counts c s = Some s' \<and> holds p s'"
proof -
  obtain ok s' where s': "send_command (worker_host (le_host L)) c s = Some (ok, s')" "holds p s'" using send_holds [OF assms] by blast
  moreover have "holds p (on_app (count_sent counts c ok) s')" using s'(2) by (intro holds_on_app) (auto simp: holds_iff)
  ultimately show ?thesis by (auto simp: worker_send_one_def)
qed

lemma worker_send_holds: "holds p s \<Longrightarrow> fwrapv (le_host L) \<Longrightarrow> \<exists>s'. worker_send L counts cs s = Some s' \<and> holds p s'"
proof (induction cs arbitrary: s)
  case (Cons c cs)
  obtain s1 where "worker_send_one L counts c s = Some s1" "holds p s1" using worker_send_one_holds [OF Cons.prems] by blast
  with Cons show ?case by (auto simp del: split_paired_Ex)
qed simp

lemma worker_take_holds: "worker_ok s \<Longrightarrow> holds (None, None, None) (snd (worker_take s))"
  by (simp add: holds_iff worker_take_def worker_ok_on_app) (simp add: on_app_def waiting_def)

lemma worker_round_holds:
  assumes "worker_ok s" and "fwrapv (le_host L)" and "finite_transport (le_host L) unread"
  shows "\<exists>l s'. worker_round L counts (last_query, s) = Some (l, s') \<and> holds (None, None, None) s'"
proof -
  have "holds (waiting (the_app s)) s" using assms(1) by (simp add: holds_iff)
  then obtain l s1 where s1: "worker_listen L (last_query, s) = Some (l, s1)" "holds (waiting (the_app s)) s1" using worker_listen_holds assms(2,3) by blast
  have "holds (None, None, None) (snd (worker_take s1))" using s1(2) by (intro worker_take_holds) (simp add: holds_iff)
  then obtain s2 where s2: "worker_send L counts (fst (worker_take s1)) (snd (worker_take s1)) = Some s2" "holds (None, None, None) s2"
    using worker_send_holds assms(2) by blast
  moreover have "holds (None, None, None) (on_app (\<lambda>a. a\<lparr>dw_ext := le_sleep L 2 (dw_ext a)\<rparr>) s2)" using s2(2) by (intro holds_on_app) (auto simp: holds_iff)
  ultimately show ?thesis using s1(1) by (auto simp: worker_round_def split_beta)
qed

text \<open>
  The communication thread keeps going: over any transport that has finitely many unread bytes at a time, whatever arrives and whatever
  exceptions waiting throws, any number of rounds returns and leaves the driver well-formed.
\<close>

theorem worker_thread_returns:
  assumes "worker_ok s" and "fwrapv (le_host L)" and "finite_transport (le_host L) unread"
  shows "\<exists>l s'. worker_thread L counts n (last_query, s) = Some (l, s') \<and> worker_ok s'"
  using assms(1)
proof (induction n arbitrary: last_query s)
  case (Suc n)
  then obtain l s' where "worker_round L counts (last_query, s) = Some (l, s')" "worker_ok s'"
    using worker_round_holds assms(2,3) by (metis holds_iff)
  with Suc show ?case by (auto simp del: split_paired_Ex)
qed simp

section \<open>What a round sends\<close>

lemma worker_carries:
  assumes "carries E out"
  shows "carries (worker_host E) (\<lambda>a. out (dw_ext a))"
  using assms by (auto simp: carries_def worker_host_def on_dw_ext_def Let_def split_beta)

text \<open>A command with a time stamp carries a time.\<close>

fun timed :: "host_command \<Rightarrow> bool" where
  "timed (Cmd_delta c) \<longleftrightarrow> hd_device_ts_us c \<noteq> 0 \<or> hd_host_ts_ns c \<noteq> 0"
| "timed (Cmd_fire c) \<longleftrightarrow> hf_device_ts_us c \<noteq> 0 \<or> hf_host_ts_ns c \<noteq> 0"
| "timed (Cmd_chassis c) \<longleftrightarrow> hq_device_ts_us c \<noteq> 0 \<or> hq_host_ts_ns c \<noteq> 0"
| "timed Cmd_referee_query \<longleftrightarrow> True"

lemma timed_command: "timed c \<Longrightarrow> \<exists>t. command_time E ts c = Some t"
  by (cases c) auto

lemma ready_on_app: "ready (on_app f s) \<longleftrightarrow> ready s"
  by (simp add: ready_def on_app_def)

lemma worker_send_one_out:
  assumes "carries (le_host L) out" and "ready s" and "timed c"
  shows "\<exists>s' bs. worker_send_one L counts c s = Some s' \<and> ready s' \<and> packet_of c bs \<and> out (dw_ext (the_app s')) = out (dw_ext (the_app s)) @ bs"
proof -
  obtain ctx w where s: "s = (ctx, w)" by fastforce
  obtain t where "command_time (worker_host (le_host L)) (im_ts w) c = Some t" using timed_command [OF assms(3)] by blast
  from command_sent [OF worker_carries [OF assms(1)] assms(2) [unfolded s] this] obtain s' where
    s': "send_command (worker_host (le_host L)) c (ctx, w) = Some (True, s')" "only_sent (worker_host (le_host L)) (ctx, w) s'"
    "out (dw_ext (im_ext (snd s'))) = out (dw_ext (im_ext w)) @ notify_image UPROTO_MSG_MUX (cx_local_seq ctx) (notify_hdr GIMBAL_CH_ID (command_sid c) 0
      (word_of_nat (length (command_image t c))) (im_seqs w ! unat GIMBAL_CH_ID + 1)) (command_image t c)" by blast
  have "ready s'" using only_sent_ready [OF s'(2)] assms(2) s by simp
  moreover have "dw_ext (the_app (on_app (count_sent counts c True) s')) = dw_ext (the_app s')" by (simp add: on_app_def)
  ultimately show ?thesis using s' unfolding packet_of_def by (auto simp: worker_send_one_def s ready_on_app simp del: split_paired_Ex)
qed

lemma worker_send_out:
  assumes "carries (le_host L) out"
  shows "ready s \<Longrightarrow> list_all timed cs \<Longrightarrow> \<exists>s' bss. worker_send L counts cs s = Some s' \<and> ready s' \<and> list_all2 packet_of cs bss \<and>
    out (dw_ext (the_app s')) = out (dw_ext (the_app s)) @ concat bss"
proof (induction cs arbitrary: s)
  case Nil
  then show ?case by (intro exI [of _ s] exI [of _ "[]"]) simp
next
  case (Cons c cs)
  have t: "timed c" "list_all timed cs" using Cons.prems(2) by simp_all
  obtain s1 bs where s1: "worker_send_one L counts c s = Some s1" "ready s1" "packet_of c bs" "out (dw_ext (the_app s1)) = out (dw_ext (the_app s)) @ bs"
    using worker_send_one_out [OF assms Cons.prems(1) t(1)] by blast
  obtain s' bss where "worker_send L counts cs s1 = Some s'" "ready s'" "list_all2 packet_of cs bss" "out (dw_ext (the_app s')) = out (dw_ext (the_app s1)) @ concat bss"
    using Cons.IH [OF s1(2) t(2)] by blast
  with s1 show ?case by (intro exI [of _ s'] exI [of _ "bs # bss"]) simp
qed

text \<open>
  A round sends what waits: after it has listened, and while the port is open, a round of the communication thread writes one packet for each
  waiting command with a time stamp, aiming before fire before chassis, exactly as it was queued, nothing else, and leaves none waiting. Listening itself does not touch the waiting commands.
\<close>

theorem round_sends_waiting:
  assumes "carries (le_host L) out" and "\<And>x. out (le_sleep L 2 x) = out x" and "fwrapv (le_host L)" and "finite_transport (le_host L) unread"
    and "worker_ok s" and "worker_listen L (last_query, s) = Some (l, s1)" and "ready s1" and "list_all timed (pending_commands (the_app s))"
  shows "\<exists>s' bss. worker_round L counts (last_query, s) = Some (l, s') \<and> pending_commands (the_app s') = [] \<and>
    list_all2 packet_of (pending_commands (the_app s)) bss \<and> out (dw_ext (the_app s')) = out (dw_ext (the_app s1)) @ concat bss"
proof -
  have "holds (waiting (the_app s)) s" using assms(5) by (simp add: holds_iff)
  from worker_listen_holds [OF this assms(3,4), of last_query] have "waiting (the_app s1) = waiting (the_app s)" using assms(6) by (simp add: holds_iff)
  then have p: "pending_commands (the_app s1) = pending_commands (the_app s)" by (simp add: waiting_def pending_commands_def)
  have "ready (snd (worker_take s1))" using assms(7) by (simp add: worker_take_def ready_on_app)
  from worker_send_out [OF assms(1) this, of "fst (worker_take s1)" counts] assms(8) p obtain s2 bss where
    s2: "worker_send L counts (fst (worker_take s1)) (snd (worker_take s1)) = Some s2" "list_all2 packet_of (pending_commands (the_app s)) bss"
    "out (dw_ext (the_app s2)) = out (dw_ext (the_app s1)) @ concat bss"
    by (auto simp: worker_take_def on_app_def)
  let ?s' = "on_app (\<lambda>a. a\<lparr>dw_ext := le_sleep L 2 (dw_ext a)\<rparr>) s2"
  have round: "worker_round L counts (last_query, s) = Some (l, ?s')" using assms(6) s2(1) by (simp add: worker_round_def split_beta)
  with worker_round_holds [OF assms(5,3,4), of counts last_query] have "waiting (the_app ?s') = (None, None, None)" by (auto simp: holds_iff)
  then have "pending_commands (the_app ?s') = []" by (simp add: waiting_def pending_commands_def)
  with round s2 assms(2) show ?thesis by (intro exI [of _ ?s'] exI [of _ bss]) (simp add: on_app_def)
qed

section \<open>Both threads\<close>

text \<open>
  The main loop and the communication thread. The main loop loads what the thread has stored, computes a frame and queues its orders one by one; the thread listens, takes what
  is waiting and sends it, one command after the other. \<open>sy_frames\<close> records every frame with its clocks, what it loaded and its orders; \<open>sy_sent\<close> what has been sent.
\<close>

record ('e, 'k, 'x) sentry_system =
  sy_sentry :: "('e, 'k) sentry"
  sy_todo :: "host_command list"
  sy_last_query :: int
  sy_worker :: "'x worker"
  sy_held :: "host_command list"
  sy_frames :: "(clocks \<times> 'x dm_worker \<times> host_command list) list"
  sy_sent :: "host_command list"

inductive sentry_step ::
  "('e, 'a, 'k :: floor_ceiling, 'i) sentry_rig \<Rightarrow> 'k sentry_options \<Rightarrow> 'x link_env \<Rightarrow> bool \<Rightarrow> ('e, 'k, 'x) sentry_system \<Rightarrow> ('e, 'k, 'x) sentry_system \<Rightarrow> bool"
  for R opt L counts where
  frame: "sy_todo S = [] \<Longrightarrow> sentry_frame R opt lost img t ck (the_app (sy_worker S)) (sy_sentry S) = Some (orders, se) \<Longrightarrow>
    sentry_step R opt L counts S (S\<lparr>sy_sentry := se, sy_todo := orders, sy_frames := sy_frames S @ [(ck, the_app (sy_worker S), orders)]\<rparr>)"
| queue: "sy_todo S = c # cs \<Longrightarrow>
    sentry_step R opt L counts S (S\<lparr>sy_todo := cs, sy_worker := on_app (queue_order c) (sy_worker S)\<rparr>)"
| listen: "sy_held S = [] \<Longrightarrow> worker_listen L (sy_last_query S, sy_worker S) = Some (l, s) \<Longrightarrow>
    sentry_step R opt L counts S (S\<lparr>sy_last_query := l, sy_worker := s\<rparr>)"
| take: "sy_held S = [] \<Longrightarrow> worker_take (sy_worker S) = (cs, s) \<Longrightarrow>
    sentry_step R opt L counts S (S\<lparr>sy_held := cs, sy_worker := s\<rparr>)"
| send: "sy_held S = c # cs \<Longrightarrow> worker_send_one L counts c (sy_worker S) = Some s \<Longrightarrow>
    sentry_step R opt L counts S (S\<lparr>sy_held := cs, sy_worker := s, sy_sent := sy_sent S @ [c]\<rparr>)"

text \<open>Before the first frame.\<close>

definition sentry_init :: "('e, 'k, 'x) sentry_system \<Rightarrow> bool" where
  "sentry_init S \<longleftrightarrow> worker_ok (sy_worker S) \<and> pending_commands (the_app (sy_worker S)) = [] \<and> sy_todo S = [] \<and> sy_held S = [] \<and> sy_frames S = [] \<and> sy_sent S = []"

datatype kind = Aim_order | Fire_order | Chassis_order | Query_order

fun order_kind :: "host_command \<Rightarrow> kind" where
  "order_kind (Cmd_delta c) = Aim_order"
| "order_kind (Cmd_fire c) = Fire_order"
| "order_kind (Cmd_chassis c) = Chassis_order"
| "order_kind Cmd_referee_query = Query_order"

abbreviation of_kind :: "kind \<Rightarrow> host_command list \<Rightarrow> host_command list" where
  "of_kind k cs \<equiv> filter (\<lambda>c. order_kind c = k) cs"

text \<open>The orders of all frames, in the order in which they are queued.\<close>

definition all_orders :: "('e, 'k, 'x) sentry_system \<Rightarrow> host_command list" where
  "all_orders S = concat (map (snd \<circ> snd) (sy_frames S))"

definition in_order :: "('e, 'k, 'x) sentry_system \<Rightarrow> bool" where
  "in_order S \<longleftrightarrow> worker_ok (sy_worker S) \<and> (\<exists>queued. all_orders S = queued @ sy_todo S \<and>
     (\<forall>k. subseq (of_kind k (sy_sent S @ sy_held S @ pending_commands (the_app (sy_worker S)))) (of_kind k queued)))"

lemma queue_pending:
  "of_kind k (pending_commands (queue_order c a)) = (if order_kind c = k \<and> k \<noteq> Query_order then [c] else of_kind k (pending_commands a))"
  by (cases c; cases k) (auto simp: pending_commands_def split: option.split)

lemma in_order_step:
  assumes "in_order S" and "sentry_step R opt L counts S S'" and "fwrapv (le_host L)" and "finite_transport (le_host L) unread"
  shows "in_order S'"
  using assms(2)
proof cases
  case (frame lost img t ck orders se)
  then show ?thesis using assms(1) by (auto simp: in_order_def all_orders_def)
next
  case (queue c cs)
  obtain queued where q: "all_orders S = queued @ c # cs" "\<And>k. subseq (of_kind k (sy_sent S @ sy_held S @ pending_commands (the_app (sy_worker S)))) (of_kind k queued)"
    using assms(1) queue by (auto simp: in_order_def)
  have "subseq (of_kind k (sy_sent S @ sy_held S @ pending_commands (queue_order c (the_app (sy_worker S))))) (of_kind k (queued @ [c]))" for k
  proof (cases "order_kind c = k")
    case True
    have "subseq (of_kind k (sy_sent S @ sy_held S)) (of_kind k queued)" using q(2) [of k] list_emb_append2 sublist_imp_subseq
      by (metis append_assoc filter_append subseq_order.order_trans prefix_imp_subseq prefixI)
    then show ?thesis using True q(2) [of k] by (auto simp: queue_pending simp flip: append_assoc)
  next
    case False
    then show ?thesis using q(2) [of k] by (simp add: queue_pending)
  qed
  moreover have "worker_ok (sy_worker S')" "all_orders S' = (queued @ [c]) @ sy_todo S'" "sy_sent S' = sy_sent S" "sy_held S' = sy_held S"
    "the_app (sy_worker S') = queue_order c (the_app (sy_worker S))"
    using assms(1) queue q(1) by (simp_all add: in_order_def worker_ok_on_app all_orders_def) (simp add: on_app_def)
  ultimately show ?thesis unfolding in_order_def by metis
next
  case (listen l s)
  have "holds (waiting (the_app (sy_worker S))) (sy_worker S)" using assms(1) by (simp add: holds_iff in_order_def)
  from worker_listen_holds [OF this assms(3,4), of "sy_last_query S"] listen have "holds (waiting (the_app (sy_worker S))) s" by simp
  then have "worker_ok s" "pending_commands (the_app s) = pending_commands (the_app (sy_worker S))" by (simp_all add: holds_iff waiting_def pending_commands_def)
  then show ?thesis using assms(1) listen by (simp add: in_order_def all_orders_def)
next
  case (take cs s)
  then have "cs = pending_commands (the_app (sy_worker S))" "worker_ok s" "pending_commands (the_app s) = []"
    using assms(1) by (auto simp: worker_take_def worker_ok_on_app in_order_def) (simp add: pending_commands_def on_app_def)
  then show ?thesis using assms(1) take by (simp add: in_order_def all_orders_def)
next
  case (send c cs s)
  have "holds (waiting (the_app (sy_worker S))) (sy_worker S)" using assms(1) by (simp add: holds_iff in_order_def)
  from worker_send_one_holds [OF this assms(3), of counts c] send have "holds (waiting (the_app (sy_worker S))) s" by simp
  then have "worker_ok s" "pending_commands (the_app s) = pending_commands (the_app (sy_worker S))" by (simp_all add: holds_iff waiting_def pending_commands_def)
  then show ?thesis using assms(1) send by (simp add: in_order_def all_orders_def)
qed

lemma in_order_run:
  assumes "sentry_init S0" and "(sentry_step R opt L counts)\<^sup>*\<^sup>* S0 S" and "fwrapv (le_host L)" and "finite_transport (le_host L) unread"
  shows "in_order S"
  using assms(2)
proof (induction rule: rtranclp_induct)
  case base
  then show ?case using assms(1) by (auto simp: sentry_init_def in_order_def all_orders_def)
next
  case (step S S')
  then show ?case using in_order_step assms(3,4) by blast
qed

lemma sent_in_order:
  assumes "in_order S"
  shows "subseq (of_kind k (sy_sent S)) (of_kind k (all_orders S))"
proof -
  from assms obtain queued where q: "all_orders S = queued @ sy_todo S"
    "subseq (of_kind k (sy_sent S @ sy_held S @ pending_commands (the_app (sy_worker S)))) (of_kind k queued)" by (auto simp: in_order_def)
  have "subseq (of_kind k (sy_sent S)) (of_kind k (sy_sent S @ sy_held S @ pending_commands (the_app (sy_worker S))))"
    by (simp add: prefix_imp_subseq)
  also have "subseq \<dots> (of_kind k (all_orders S))" unfolding q(1) filter_append [of _ queued] by (rule subseq_order.order_trans [OF q(2)]) (simp add: prefix_imp_subseq)
  finally show ?thesis .
qed

text \<open>
  C6. Latest orders, in order: however frames and the rounds of the communication thread interleave, the commands of one kind that have been sent are a
  subsequence of those that the frames ordered: none is sent twice, none is made up or altered, and none overtakes an older one.
\<close>

theorem sentry_sends_in_order:
  assumes "sentry_init S0" and "(sentry_step R opt L counts)\<^sup>*\<^sup>* S0 S" and "fwrapv (le_host L)" and "finite_transport (le_host L) unread"
  shows "subseq (of_kind k (sy_sent S)) (of_kind k (all_orders S))"
  by (rule sent_in_order [OF in_order_run [OF assms]])

section \<open>Permission to fire\<close>

lemma frame_fire_permitted:
  assumes "sentry_frame R opt lost img t ck a se = Some (orders, se')" and "Cmd_fire f \<in> set orders" and "hf_fire_on f \<noteq> 0"
  shows "so_allow_shoot opt \<and> can_fire (ck_fire ck) (worker_view a) \<and> sh_auto_fire (se_shooter se)"
proof -
  from assms(1) obtain c sh S A targets where
    s: "shoot (sr_libm R) (sr_state R) c A targets (fst (sr_gimbal_pos R (frame_quat R opt a))) (se_shooter se) = Some (sh, S)"
    and orders: "sentry_orders R opt t a (frame_quat R opt a) (if \<not> so_allow_shoot opt \<or> \<not> can_fire (ck_fire ck) (worker_view a)
      then c\<lparr>co_shoot := sh, co_shoot := False\<rparr> else c\<lparr>co_shoot := sh\<rparr>) = Some orders"
    unfolding sentry_frame_def Let_def by (auto simp: bind_Some_iff simp del: if_split split del: if_split)
  have "co_shoot (if \<not> so_allow_shoot opt \<or> \<not> can_fire (ck_fire ck) (worker_view a) then c\<lparr>co_shoot := sh, co_shoot := False\<rparr> else c\<lparr>co_shoot := sh\<rparr>)"
    using orders assms(2,3) unfolding sentry_orders_def Let_def by (auto simp: bind_Some_iff split: if_split_asm)
  then have "so_allow_shoot opt" "can_fire (ck_fire ck) (worker_view a)" "sh" by (auto split: if_split_asm)
  moreover from this have "sh_auto_fire (se_shooter se)" by (intro shoot_True(3) [OF s [unfolded eq_True [THEN iffD2, OF \<open>sh\<close>]]])
  ultimately show ?thesis by blast
qed

definition frames_permitted :: "'k sentry_options \<Rightarrow> ('e, 'k, 'x) sentry_system \<Rightarrow> bool" where
  "frames_permitted opt S \<longleftrightarrow> (\<forall>(ck, a, orders) \<in> set (sy_frames S). \<forall>f. Cmd_fire f \<in> set orders \<and> hf_fire_on f \<noteq> 0 \<longrightarrow>
     so_allow_shoot opt \<and> can_fire (ck_fire ck) (worker_view a))"

lemma frames_permitted_run:
  assumes "sentry_init S0" and "(sentry_step R opt L counts)\<^sup>*\<^sup>* S0 S"
  shows "frames_permitted opt S"
  using assms(2)
proof (induction rule: rtranclp_induct)
  case base
  then show ?case using assms(1) by (simp add: sentry_init_def frames_permitted_def)
next
  case (step S S')
  from step(2) show ?case
  proof cases
    case (frame lost img t ck orders se)
    then show ?thesis using step(3) frame_fire_permitted [OF frame(3)] by (auto simp: frames_permitted_def)
  qed (use step(3) in \<open>simp_all add: frames_permitted_def\<close>)
qed


text \<open>
  C39. Torn permission: the loop loads the four parts of the referee report one by one while the thread may store a new one. If
  the permission in the old report has expired and the new one withdraws it, neither report allows fire; but a loop that has loaded the old permission and then, after
  the new report has been stored, its time, concludes that fire is allowed.
\<close>

theorem torn_permission:
  assumes "dw_referee_valid a" and "hr_fire_allowed (dw_referee a) \<noteq> 0" and "hr_host_ts_ns (dw_referee a) \<le> now" and "now - hr_host_ts_ns (dw_referee a) > kRefereeStaleNs"
    and "hr_fire_allowed rs = 0" and "hr_host_ts_ns rs \<noteq> 0" and "hr_host_ts_ns rs \<le> now" and "now - hr_host_ts_ns rs \<le> kRefereeStaleNs"
  shows "\<not> can_fire now (worker_view a) \<and> \<not> can_fire now (worker_view (worker_on_referee rs a)) \<and> can_fire now (loaded_view a a a (worker_on_referee rs a))"
  using assms by (auto simp: can_fire_def is_fresh_def loaded_view_def worker_on_referee_def referee_stores_def)

section \<open>The aiming orders\<close>

lemma llround_near:
  fixes x :: real
  assumes "\<bar>x\<bar> \<le> 180000000"
  shows "\<exists>n. llround x = Some n \<and> \<bar>of_int n - x\<bar> \<le> 1 / 2 \<and> \<bar>n\<bar> \<le> 180000000"
proof -
  define n where "n = (if 0 \<le> x then \<lfloor>x + 1 / 2\<rfloor> else \<lceil>x - 1 / 2\<rceil>)"
  have "\<bar>of_int n - x\<bar> \<le> 1 / 2" unfolding n_def abs_le_iff by (cases "0 \<le> x") (simp_all, linarith+)
  moreover have "\<bar>n\<bar> \<le> 180000000" using assms unfolding n_def abs_le_iff by (cases "0 \<le> x") (simp_all, linarith+)
  ultimately show ?thesis by (auto simp: llround_def n_def [symmetric] Let_def)
qed


lemma rad_to_udeg_near:
  assumes "- pi < r" and "r \<le> pi"
  shows "\<exists>u. rad_to_udeg real_libm r = Some u \<and> \<bar>of_int (sint u) - r * (180000000 / pi)\<bar> \<le> 1 / 2 \<and> \<bar>sint u\<bar> \<le> 180000000"
proof -
  have "\<bar>r * (180000000 / pi)\<bar> \<le> pi * (180000000 / pi)" using assms by (simp only: abs_mult) (intro mult_mono; auto)
  then have "\<bar>r * (180000000 / pi)\<bar> \<le> 180000000" by simp
  from llround_near [OF this] obtain n where n: "llround (r * (180000000 / pi)) = Some n" "\<bar>of_int n - r * (180000000 / pi)\<bar> \<le> 1 / 2" "\<bar>n\<bar> \<le> 180000000" by blast
  define u :: i32 where "u = word_of_int n"
  have su: "sint u = n" using n(3) unfolding u_def by (simp add: signed_of_int signed_take_bit_int_eq_self)
  have "rad_to_udeg real_libm r = Some u" using n(1) by (simp add: rad_to_udeg_def fdiv_def real_libm_def u_def)
  then show ?thesis using n(2,3) su by blast
qed

lemma turn_near:
  "\<exists>r u. \<exists>k :: int. limit_rad real_libm x = Some r \<and> rad_to_udeg real_libm r = Some u \<and>
    \<bar>of_int (sint u) - (x + 2 * pi * of_int k) * (180000000 / pi)\<bar> \<le> 1 / 2 \<and> \<bar>sint u\<bar> \<le> 180000000"
proof -
  obtain r and k :: int where r: "limit_rad real_libm x = Some r" "- pi < r" "r \<le> pi" "x = r + 2 * pi * of_int k" using limit_rad_real by blast
  have "r = x + 2 * pi * of_int (- k)" using r(4) by simp
  then show ?thesis using r(1) rad_to_udeg_near [OF r(2,3)] by blast
qed

text \<open>
  C22. The aiming order turns the right way: with an established connection, a command of the gimbal becomes an order whose angles, in micro-degrees, are within half a micro-degree of
  the difference between commanded and reported angle up to whole turns, and never more than half a turn; the order says that a target is in view and carries the time of the picture.
\<close>

theorem sentry_turns_shortest:
  assumes "sr_libm R = real_libm" and "so_driver opt" "so_dm_send opt" "dw_established a" and "co_control c"
    and "eulers real_libm q 2 1 0 False = Some (yaw, pitch, roll)"
  shows "\<exists>d fire chassis. \<exists>k l :: int. sentry_orders R opt t a q c = Some [Cmd_delta d, fire, chassis] \<and> hd_status d = 1 \<and> hd_host_ts_ns d = word_of_int t \<and>
    \<bar>of_int (sint (hd_delta_yaw_udeg d)) - (co_yaw c - yaw + 2 * pi * of_int k) * (180000000 / pi)\<bar> \<le> 1 / 2 \<and> \<bar>sint (hd_delta_yaw_udeg d)\<bar> \<le> 180000000 \<and>
    \<bar>of_int (sint (hd_delta_pitch_udeg d)) - (co_pitch c - pitch + 2 * pi * of_int l) * (180000000 / pi)\<bar> \<le> 1 / 2 \<and> \<bar>sint (hd_delta_pitch_udeg d)\<bar> \<le> 180000000"
proof -
  obtain r u and k :: int where y: "limit_rad real_libm (co_yaw c - yaw) = Some r" "rad_to_udeg real_libm r = Some u"
    "\<bar>of_int (sint u) - (co_yaw c - yaw + 2 * pi * of_int k) * (180000000 / pi)\<bar> \<le> 1 / 2" "\<bar>sint u\<bar> \<le> 180000000" using turn_near by blast
  obtain r' v and l :: int where p: "limit_rad real_libm (co_pitch c - pitch) = Some r'" "rad_to_udeg real_libm r' = Some v"
    "\<bar>of_int (sint v) - (co_pitch c - pitch + 2 * pi * of_int l) * (180000000 / pi)\<bar> \<le> 1 / 2" "\<bar>sint v\<bar> \<le> 180000000" using turn_near by blast
  let ?d = "\<lparr>hd_delta_yaw_udeg = u, hd_delta_pitch_udeg = v, hd_status = 1, hd_host_ts_ns = word_of_int t, hd_device_ts_us = 0\<rparr>"
  have "\<exists>fire chassis. sentry_orders R opt t a q c = Some [Cmd_delta ?d, fire, chassis]"
    using assms y(1,2) p(1,2) by (simp add: sentry_orders_def Let_def)
  then obtain fire chassis where "sentry_orders R opt t a q c = Some [Cmd_delta ?d, fire, chassis]" by blast
  with y(3,4) p(3,4) show ?thesis by (intro exI [of _ ?d] exI [of _ fire] exI [of _ chassis] exI [of _ k] exI [of _ l]) simp
qed

text \<open>Every look through a camera returns, and the three cameras take turns: the guard of \<^verbatim>\<open>decide\<close> never throws.\<close>

lemma turn_to_returns:
  assumes "sr_libm R = real_libm"
  shows "\<exists>c. turn_to R gimbal_yaw armor camera = Some c"
proof -
  have "\<exists>r. limit_rad real_libm x = Some r" for x using limit_rad_real [of x] by blast
  then show ?thesis unfolding turn_to_def assms split_beta Let_def by (metis bind.bind_lunit)
qed

theorem cameras_take_turns:
  assumes "sr_libm R = real_libm" and "0 \<le> de_count d" and "de_count d \<le> 2"
  shows "\<exists>c. decide_cameras R cam gimbal_yaw d = Some (Returns (c, d\<lparr>de_count := (de_count d + 1) mod 3\<rparr>)) \<and> 0 \<le> (de_count d + 1) mod 3 \<and> (de_count d + 1) mod 3 \<le> 2"
proof -
  obtain c where "turn_to R gimbal_yaw (hd (snd (armor_filter d (sr_detect R (cam (nat (de_count d)))))))
      (if de_count d = 2 then ''back'' else sr_camera R (nat (de_count d))) = Some c" using turn_to_returns [OF assms(1)] by blast
  moreover have "(de_count d + 1) mod 3 < 3" by simp
  ultimately show ?thesis using assms(2,3) by (auto simp: decide_cameras_def split_beta Let_def)
qed

section \<open>A sentry on a wire\<close>

text \<open>A sentry that has lost sight of its target for a moment and fires on; coarse arithmetic, and a fresh permission of the referee.\<close>

definition level_libm :: "rat libm" where
  "level_libm = coarse_libm\<lparr>lm_sqrt := (\<lambda>x. 1)\<rparr>"

lemma level_libm_sel [simp]: "lm_pi level_libm = 22 / 7" "lm_sin level_libm x = 0" "lm_cos level_libm x = 1" "lm_atan2 level_libm y x = 0" "lm_sqrt level_libm x = 1"
  "lm_atan level_libm x = x" "lm_acos level_libm x = 0"
  by (simp_all add: level_libm_def coarse_libm_def)

definition plain_sentry_rig :: "('k :: linordered_field) libm \<Rightarrow> (unit \<Rightarrow> nat \<Rightarrow> 'k) \<Rightarrow> (unit, unit, 'k, unit) sentry_rig" where
  "plain_sentry_rig M X = \<lparr>sr_libm = M, sr_vision = (\<lambda>q. still_vision), sr_state = X, sr_detect = (\<lambda>i. []), sr_gimbal_pos = (\<lambda>q. (0, 0, 0)),
     sr_quat = (\<lambda>y p r. (0, 0, 0, 1)), sr_center = (\<lambda>g. (0, 0)), sr_camera = (\<lambda>i. ''left''), sr_fov = (60, 40)\<rparr>"

abbreviation wire_sentry_rig :: "(unit, unit, rat, unit) sentry_rig" where
  "wire_sentry_rig \<equiv> plain_sentry_rig level_libm turned_state"

lemma plain_sentry_rig_sel [simp]: "sr_libm (plain_sentry_rig M X) = M" "sr_vision (plain_sentry_rig M X) = (\<lambda>q. still_vision)" "sr_state (plain_sentry_rig M X) = X"
  "sr_detect (plain_sentry_rig M X) = (\<lambda>i. [])" "sr_gimbal_pos (plain_sentry_rig M X) = (\<lambda>q. (0, 0, 0))"
  by (simp_all add: plain_sentry_rig_def)

definition wire_options :: "rat sentry_options" where
  "wire_options = \<lparr>so_driver = True, so_dm_send = True, so_allow_shoot = True, so_bullet_speed_override = 22, so_bullet_speed_default = 0, so_shoot_mode = Both_shoot\<rparr>"

definition wire_sentry :: "(unit, rat) sentry" where
  "wire_sentry = \<lparr>se_tracker = (new_tracker ''red'' 5 15 75 0 (still_target\<lparr>tg_jumped := False\<rparr>))\<lparr>tk_state := Tracking\<rparr>, se_aimer = plain_aimer,
     se_shooter = \<lparr>sh_last_command = no_command, sh_judge_distance = 3, sh_first_tolerance = 1 / 10, sh_second_tolerance = 1 / 20, sh_auto_fire = True\<rparr>,
     se_decider = \<lparr>de_enemy_color = Red, de_default_enemy_color = Red, de_mode = 1, de_count = 0, de_invincible = []\<rparr>\<rparr>"

definition wire_app :: "pipe dm_worker" where
  "wire_app = (new_worker_app pipe0)\<lparr>dw_established := True, dw_referee_valid := True,
     dw_referee := \<lparr>hr_enemy_team = 1, hr_fire_allowed = 1, hr_robot_id = 3, hr_game_stage = 4, hr_status = 1, hr_device_ts_us = 9, hr_host_ts_ns = 4000\<rparr>\<rparr>"

lemma turned_plates:
  "armor_xyza_list level_libm (turned_state e) 4 =
     Some [(24 / 5, 0, 0, - (11 / 14)), (24 / 5, 0, 0, 11 / 14), (24 / 5, 0, 0, 33 / 14), (24 / 5, 0, 0, - (33 / 14))]"
proof -
  have u: "[0..<4] = [0, 1, 2, 3 :: nat]" by (simp add: upt_conv_Cons)
  have a: "plate_angle level_libm (turned_state e) 4 0 = Some (- (11 / 14))" "plate_angle level_libm (turned_state e) 4 1 = Some (11 / 14)"
    "plate_angle level_libm (turned_state e) 4 2 = Some (33 / 14)" "plate_angle level_libm (turned_state e) 4 3 = Some (- (33 / 14))"
    by (simp_all add: plate_angle_def limit_rad_def limit_down.simps limit_up.simps)
  show ?thesis using a unfolding armor_xyza_list_def u by (simp add: h_armor_xyz_def use_l_h_def)
qed

abbreviation first_plate :: "rat aim_point" where
  "first_plate \<equiv> \<lparr>ap_valid = True, ap_xyza = (24 / 5, 0, 0, - (11 / 14))\<rparr>"

lemma level_aim_at:
  assumes "\<not> tg_jumped g" and "tg_armor_num g = 4"
  shows "aim_at level_libm turned_state 22 g A = Some (Some (1 / 22, 0), A\<lparr>ai_debug_aim_point := Some first_plate\<rparr>)"
proof -
  have "new_trajectory level_libm 22 1 0 = Some (Solvable (1 / 22) 0)" by (simp add: new_trajectory_def fdiv_def gravity_def Let_def)
  then show ?thesis using assms by (simp add: aim_at_def choose_aim_point_def turned_plates nth_opt_def horizontal_def height_def Let_def)
qed

lemma predict_jumped: "tg_jumped (target_predict V t g) = tg_jumped g" "tg_armor_num (target_predict V t g) = tg_armor_num g"
  by (simp_all add: target_predict_def target_convergened_def Let_def)

lemma level_aim:
  assumes "\<not> tg_jumped g" and "tg_armor_num g = 4"
  shows "aim_shoot_mode level_libm (still_vision :: (unit, unit, rat) vision) turned_state 20 [g] 10 22 Both_shoot True plain_aimer =
    Some (no_command\<lparr>co_control := True\<rparr>, plain_aimer\<lparr>ai_debug_aim_point := Some first_plate\<rparr>)"
proof -
  have ten: "(10 :: nat) = Suc 9" by simp
  have "aim_loop level_libm (still_vision :: (unit, unit, rat) vision) turned_state 22 future h 10 (1 / 22) 0 A = Some (Some 0, A\<lparr>ai_debug_aim_point := Some first_plate\<rparr>)"
    if "\<not> tg_jumped h" "tg_armor_num h = 4" for future h A
    unfolding ten aim_loop.simps using that by (simp add: level_aim_at predict_jumped to_int_def)
  then show ?thesis using assms by (simp add: aim_shoot_mode_def aim_def level_aim_at predict_jumped plain_aimer_def delta_seconds_def Let_def to_int_def no_command_def turned_state_def still_state_def)
qed


lemma wire_track:
  "\<exists>g k. track (still_vision :: (unit, unit, rat) vision) [] 10 True (update_enemy_color 5000 (worker_view wire_app) (se_tracker wire_sentry)) = Some ([g], [], k) \<and>
    tk_state k \<noteq> Lost \<and> \<not> tg_jumped g \<and> tg_armor_num g = 4"
  by (simp add: track_def update_enemy_color_def enemy_color_def is_fresh_def loaded_view_def wire_app_def wire_sentry_def new_worker_app_def kRefereeStaleNs_def
      set_enemy_color_def new_tracker_def check_gap_def sort_armors_def update_target_def target_predict_keeps predict_jumped Let_def target_diverged_def still_vision_def
      state_machine_def bad_converge_def nis_window_def still_target_def)

definition wire_fire :: host_fire where
  "wire_fire = \<lparr>hf_fire_on = 1, hf_fire_mode = 2, hf_burst_count = 2, hf_status = 1, hf_host_ts_ns = 10, hf_device_ts_us = 0\<rparr>"

lemma level_zero: "limit_rad level_libm 0 = Some 0" "limit_rad level_libm (11 / 7) = Some (11 / 7)"
  by (simp_all add: limit_rad_def limit_down.simps limit_up.simps)

lemma level_udeg: "rad_to_udeg level_libm 0 = Some 0" "rad_to_udeg level_libm (11 / 7) = Some 90000000"
proof -
  have "\<lfloor>1 / 2 :: rat\<rfloor> = 0" "\<lfloor>180000001 / 2 :: rat\<rfloor> = 90000000" by (simp_all add: floor_eq_iff)
  then show "rad_to_udeg level_libm 0 = Some 0" "rad_to_udeg level_libm (11 / 7) = Some 90000000" by (simp_all add: rad_to_udeg_def fdiv_def llround_def Let_def)
qed

lemma level_eulers: "eulers level_libm (0, 0, 0, 1) 2 1 0 False = Some (0, - (11 / 7), 0)"
  by (simp add: eulers_def coeff_def fdiv_def level_zero Let_def)

lemma wire_orders:
  "\<exists>d h. sentry_orders wire_sentry_rig wire_options 10 wire_app (0, 0, 0, 1) (no_command\<lparr>co_control := True, co_shoot := True\<rparr>) = Some [Cmd_delta d, Cmd_fire wire_fire, Cmd_chassis h] \<and>
     timed (Cmd_delta d) \<and> timed (Cmd_chassis h)"
  by (simp add: sentry_orders_def wire_options_def wire_app_def new_worker_app_def level_eulers level_zero level_udeg no_command_def wire_fire_def Let_def)

lemma wire_frame:
  "\<exists>se d h. sentry_frame wire_sentry_rig wire_options (\<lambda>_ _. None) () 10 wire_clocks wire_app wire_sentry = Some ([Cmd_delta d, Cmd_fire wire_fire, Cmd_chassis h], se) \<and>
     timed (Cmd_delta d) \<and> timed (Cmd_chassis h)"
proof -
  obtain g k where k: "track (still_vision :: (unit, unit, rat) vision) [] 10 True (update_enemy_color 5000 (worker_view wire_app) (se_tracker wire_sentry)) = Some ([g], [], k)"
    "tk_state k \<noteq> Lost" "\<not> tg_jumped g" "tg_armor_num g = 4" using wire_track by blast
  have none: "set_priority d (snd (armor_filter d [])) = ([] :: unit armor list)" for d by (simp add: armor_filter_def set_priority_def)
  have q: "frame_quat wire_sentry_rig wire_options wire_app = (0, 0, 0, 1)" by (simp add: frame_quat_def wire_app_def new_worker_app_def)
  have v: "frame_bullet_speed wire_options wire_app = 22" "so_shoot_mode wire_options = Both_shoot" "so_allow_shoot wire_options" "can_fire 5000 (worker_view wire_app)"
    by (simp_all add: frame_bullet_speed_def wire_options_def can_fire_def is_fresh_def loaded_view_def wire_app_def kRefereeStaleNs_def)
  have sh: "\<exists>S. shoot level_libm turned_state (no_command\<lparr>co_control := True\<rparr>) (plain_aimer\<lparr>ai_debug_aim_point := Some first_plate\<rparr>) [g] 0 (se_shooter wire_sentry) = Some (True, S)"
    by (simp add: shoot_def wire_sentry_def no_command_def Let_def)
  then obtain S where sh: "shoot level_libm turned_state (no_command\<lparr>co_control := True\<rparr>) (plain_aimer\<lparr>ai_debug_aim_point := Some first_plate\<rparr>) [g] 0 (se_shooter wire_sentry) = Some (True, S)" by blast
  have A: "se_aimer wire_sentry = plain_aimer" by (simp add: wire_sentry_def)
  from wire_orders obtain d h where o: "sentry_orders wire_sentry_rig wire_options 10 wire_app (0, 0, 0, 1) (no_command\<lparr>co_control := True, co_shoot := True\<rparr>) = Some [Cmd_delta d, Cmd_fire wire_fire, Cmd_chassis h]"
    "timed (Cmd_delta d)" "timed (Cmd_chassis h)" by blast
  have ck: "ck_color wire_clocks = 5000" "ck_aim wire_clocks = 20" "ck_fire wire_clocks = 5000" by (simp_all add: wire_clocks_def)
  show ?thesis using o(2,3) unfolding sentry_frame_def plain_sentry_rig_sel ck q v(1,2) A by (simp add: none k level_aim sh v(3,4) o(1) Let_def)
qed

definition wire_worker :: "pipe worker" where
  "wire_worker = (host_ctx, (new_driver_impl True default_driver_config wire_app)\<lparr>im_open := True, im_callbacks := worker_callbacks\<rparr>)"

definition wire_system :: "(unit, rat, pipe) sentry_system" where
  "wire_system = \<lparr>sy_sentry = wire_sentry, sy_todo = [], sy_last_query = 0, sy_worker = wire_worker, sy_held = [], sy_frames = [], sy_sent = []\<rparr>"

lemma wire_worker_ok: "worker_ok wire_worker" "ready wire_worker" "sentry_init wire_system"
proof -
  show ok: "worker_ok wire_worker" using host_ready(3) by (simp add: worker_ok_def wire_worker_def driver_ok_def new_driver_impl_def new_time_sync_def)
  show "ready wire_worker" using host_ready(2) by (simp add: ready_def wire_worker_def new_driver_impl_def)
  show "sentry_init wire_system" using ok
    by (simp add: sentry_init_def wire_system_def) (simp add: wire_worker_def new_driver_impl_def wire_app_def new_worker_app_def pending_commands_def)
qed

lemma wire_run: "\<exists>S. (sentry_step wire_sentry_rig wire_options wire_env False)\<^sup>*\<^sup>* wire_system S \<and> Cmd_fire wire_fire \<in> set (sy_sent S)"
proof -
  let ?step = "sentry_step wire_sentry_rig wire_options wire_env False"
  have app: "the_app (sy_worker wire_system) = wire_app" by (simp add: wire_system_def wire_worker_def new_driver_impl_def)
  obtain se d h where f: "sentry_frame wire_sentry_rig wire_options (\<lambda>_ _. None) () 10 wire_clocks wire_app wire_sentry = Some ([Cmd_delta d, Cmd_fire wire_fire, Cmd_chassis h], se)"
    using wire_frame by blast
  define S1 where "S1 = wire_system\<lparr>sy_sentry := se, sy_todo := [Cmd_delta d, Cmd_fire wire_fire, Cmd_chassis h], sy_frames := [(wire_clocks, wire_app, [Cmd_delta d, Cmd_fire wire_fire, Cmd_chassis h])]\<rparr>"
  have "?step wire_system S1" unfolding S1_def
    using sentry_step.frame [of wire_system wire_sentry_rig wire_options "\<lambda>_ _. None" "()" 10 wire_clocks] f by (simp add: app) (simp add: wire_system_def)
  moreover define S2 where "S2 = S1\<lparr>sy_todo := [Cmd_fire wire_fire, Cmd_chassis h], sy_worker := on_app (queue_order (Cmd_delta d)) (sy_worker S1)\<rparr>"
  have "?step S1 S2" unfolding S2_def by (rule sentry_step.queue) (simp add: S1_def)
  moreover define S3 where "S3 = S2\<lparr>sy_todo := [Cmd_chassis h], sy_worker := on_app (queue_order (Cmd_fire wire_fire)) (sy_worker S2)\<rparr>"
  have "?step S2 S3" unfolding S3_def by (rule sentry_step.queue) (simp add: S2_def)
  moreover define S4 where "S4 = S3\<lparr>sy_held := [Cmd_delta d, Cmd_fire wire_fire], sy_worker := snd (worker_take (sy_worker S3))\<rparr>"
  have "fst (worker_take (sy_worker S3)) = [Cmd_delta d, Cmd_fire wire_fire]"
    by (simp add: worker_take_def pending_commands_def S3_def S2_def S1_def on_app_def app) (simp add: wire_app_def new_worker_app_def wire_system_def wire_worker_def new_driver_impl_def)
  then have "?step S3 S4" unfolding S4_def by (intro sentry_step.take) (simp_all add: S3_def S2_def S1_def wire_system_def prod_eq_iff)
  moreover have h4: "holds (None, None, None) (sy_worker S4)"
    unfolding S4_def using wire_worker_ok(1) by (simp add: worker_take_holds S3_def S2_def S1_def worker_ok_on_app wire_system_def)
  then obtain w5 where w5: "worker_send_one wire_env False (Cmd_delta d) (sy_worker S4) = Some w5" "holds (None, None, None) w5"
    using worker_send_one_holds wire_ready(4) by blast
  define S5 where "S5 = S4\<lparr>sy_held := [Cmd_fire wire_fire], sy_worker := w5, sy_sent := sy_sent S4 @ [Cmd_delta d]\<rparr>"
  have "?step S4 S5" unfolding S5_def by (rule sentry_step.send [OF _ w5(1)]) (simp add: S4_def)
  moreover obtain w6 where "worker_send_one wire_env False (Cmd_fire wire_fire) w5 = Some w6"
    using worker_send_one_holds [OF w5(2) wire_ready(4), of False "Cmd_fire wire_fire"] by blast
  then have w6: "worker_send_one wire_env False (Cmd_fire wire_fire) (sy_worker S5) = Some w6" by (simp add: S5_def)
  have "?step S5 (S5\<lparr>sy_held := [], sy_worker := w6, sy_sent := sy_sent S5 @ [Cmd_fire wire_fire]\<rparr>)"
    by (rule sentry_step.send [OF _ w6]) (simp add: S5_def)
  ultimately have "?step\<^sup>*\<^sup>* wire_system (S5\<lparr>sy_held := [], sy_worker := w6, sy_sent := sy_sent S5 @ [Cmd_fire wire_fire]\<rparr>)"
    by (meson rtranclp.rtrancl_into_rtrancl rtranclp.rtrancl_refl)
  then show ?thesis by (intro exI conjI) (assumption, simp)
qed

theorem worker_thread_returns_witness: "\<exists>l s'. worker_thread wire_env False 5 (0, wire_worker) = Some (l, s') \<and> worker_ok s'"
  by (rule worker_thread_returns [OF wire_worker_ok(1) wire_ready(4,6)])

theorem sentry_sends_in_order_witness:
  "\<exists>S. (sentry_step wire_sentry_rig wire_options wire_env False)\<^sup>*\<^sup>* wire_system S \<and> Cmd_fire wire_fire \<in> set (sy_sent S) \<and>
     subseq (of_kind Fire_order (sy_sent S)) (of_kind Fire_order (all_orders S))"
  using wire_run sentry_sends_in_order [OF wire_worker_ok(3) _ wire_ready(4,6)] by blast


theorem torn_permission_witness:
  "can_fire 2000000000 (loaded_view wire_app wire_app wire_app (worker_on_referee \<lparr>hr_enemy_team = 1, hr_fire_allowed = 0, hr_robot_id = 3, hr_game_stage = 4, hr_status = 1,
     hr_device_ts_us = 10, hr_host_ts_ns = 1999999999\<rparr> wire_app))"
  using torn_permission [of wire_app 2000000000 "\<lparr>hr_enemy_team = 1, hr_fire_allowed = 0, hr_robot_id = 3, hr_game_stage = 4, hr_status = 1,
     hr_device_ts_us = 10, hr_host_ts_ns = 1999999999\<rparr>"] by (simp add: wire_app_def kRefereeStaleNs_def)

lemma real_eulers: "eulers real_libm (0, 0, 0, 1) 2 1 0 False = Some (0, 0, 0)"
proof -
  have "limit_rad real_libm 0 = Some 0" "limit_rad real_libm (pi / 2) = Some (pi / 2)" by (rule limit_rad_inside; simp)+
  moreover have "1 / 10 ^ 7 \<le> pi / 2" "1 / 10 ^ 7 \<le> \<bar>pi / 2 - pi\<bar>" using pi_ge_two by simp_all
  moreover have "real_atan2 0 1 = 0" by (simp add: real_atan2_def)
  ultimately show ?thesis by (simp add: eulers_def coeff_def fdiv_def real_libm_def Let_def)
qed

theorem sentry_turns_shortest_witness:
  "\<exists>d fire chassis. sentry_orders (plain_sentry_rig real_libm still_state) \<lparr>so_driver = True, so_dm_send = True, so_allow_shoot = False, so_bullet_speed_override = 0,
     so_bullet_speed_default = 0, so_shoot_mode = Both_shoot\<rparr> 10 wire_app (0, 0, 0, 1) (no_command\<lparr>co_control := True, co_yaw := 3\<rparr>) = Some [Cmd_delta d, fire, chassis] \<and>
     \<bar>sint (hd_delta_yaw_udeg d)\<bar> \<le> 180000000"
proof -
  have "dw_established wire_app" by (simp add: wire_app_def)
  from sentry_turns_shortest [of "plain_sentry_rig real_libm still_state" "\<lparr>so_driver = True, so_dm_send = True, so_allow_shoot = False, so_bullet_speed_override = 0,
     so_bullet_speed_default = 0, so_shoot_mode = Both_shoot\<rparr>" wire_app "no_command\<lparr>co_control := True, co_yaw := 3\<rparr>", OF _ _ _ this _ real_eulers, of 10]
  show ?thesis by simp blast
qed

text \<open>A wire on which waiting always throws.\<close>

definition noisy_env :: "pipe link_env" where
  "noisy_env = wire_env\<lparr>le_wait_throws := (\<lambda>ms x. Some x)\<rparr>"

theorem round_sends_waiting_witness:
  "\<exists>l s1 s' bs. worker_listen noisy_env (0, on_app (queue_order (Cmd_fire wire_fire)) wire_worker) = Some (l, s1) \<and>
     worker_round noisy_env False (0, on_app (queue_order (Cmd_fire wire_fire)) wire_worker) = Some (l, s') \<and> packet_of (Cmd_fire wire_fire) bs \<and>
     pi_out (dw_ext (the_app s')) = pi_out (dw_ext (the_app s1)) @ bs"
proof -
  let ?s = "on_app (queue_order (Cmd_fire wire_fire)) wire_worker"
  have env: "carries (le_host noisy_env) pi_out" "fwrapv (le_host noisy_env)" "finite_transport (le_host noisy_env) (\<lambda>_. 0)" "pi_out (le_sleep noisy_env 2 x) = pi_out x" for x
    using wire_ready(1,4,6) by (simp_all add: noisy_env_def) (simp add: wire_env_def)
  have p: "pending_commands (the_app ?s) = [Cmd_fire wire_fire]"
    by (simp add: on_app_def pending_commands_def wire_worker_def new_driver_impl_def wire_app_def new_worker_app_def)
  have "\<not> Driver_established (host_ctx, w)" for w :: "pipe dm_worker driver_impl"
    by (simp add: Driver_established_def uproto_is_established_def host_ctx_def uproto_register_handler_def uproto_init_def)
  moreover have "now_ns_steady (worker_host (le_host noisy_env)) w = (5000, w)" for w
    by (simp add: now_ns_steady_def worker_host_def on_dw_ext_def noisy_env_def wire_env_def)
  ultimately have "\<exists>l s1. worker_listen noisy_env (0, ?s) = Some (l, s1) \<and> ready s1"
    using wire_worker_ok(2) by (simp add: worker_listen_def worker_step_def worker_query_def noisy_env_def wire_worker_def on_app_def Driver_is_open_def ready_def new_driver_impl_def)
  then obtain l s1 where s1: "worker_listen noisy_env (0, ?s) = Some (l, s1)" "ready s1" by blast
  have "timed (Cmd_fire wire_fire)" by (simp add: wire_fire_def)
  then have "worker_ok ?s" "list_all timed (pending_commands (the_app ?s))" using wire_worker_ok(1) by (simp_all add: worker_ok_on_app p)
  from round_sends_waiting [OF env(1,4,2,3) this(1) s1 this(2), of False] s1(1) show ?thesis by (auto simp: p list_all2_Cons1)
qed

end
