(* ===== verification/Uproto_Txn.thy ===== *)
theory Uproto_Txn
  imports Uproto "HOL-Library.Multiset"
begin

text \<open>
  Requests and their completion in \<^verbatim>\<open>core/uproto.c\<close>: the transaction table under the tick, as a table of independent slots, the retransmissions and the final time-out
  of a request that nobody answers, and the account of all requests over arbitrary sequences of operations.

  The callbacks of the application are quiet here: they neither call the engine nor look into its context. \<open>log\<close> is what the completion callbacks were told and \<open>out\<close> the
  sequence of frames handed to the port, both observed on the world.
\<close>

section \<open>Quiet applications\<close>

type_synonym completion = "fn_ptr \<times> user_ptr \<times> uproto_error"

definition quiet_app :: "'w uproto_env \<Rightarrow> ('w \<Rightarrow> completion list) \<Rightarrow> ('w \<Rightarrow> u8 list list) \<Rightarrow> bool" where
  "quiet_app env log out \<longleftrightarrow>
     (\<forall>f u d w. log (snd (env_write env f u d w)) = log w \<and> out (snd (env_write env f u d w)) = out w @ [d]) \<and>
     (\<forall>f u w. log (env_flush env f u w) = log w \<and> out (env_flush env f u w) = out w) \<and>
     (\<forall>f u w. log (snd (env_now env f u w)) = log w \<and> out (snd (env_now env f u w)) = out w) \<and>
     (\<forall>f ev u. \<exists>g. \<forall>ctx w. env_event env f ev u (ctx, w) = Some (ctx, g w) \<and> log (g w) = log w \<and> out (g w) = out w) \<and>
     (\<forall>f u err d n. \<exists>g. \<forall>ctx w. env_txn_callback env f u err d n (ctx, w) = Some (ctx, g w) \<and> log (g w) = log w @ [(f, u, err)] \<and> out (g w) = out w) \<and>
     (\<forall>f tid d n u. \<exists>g. \<forall>ctx w. env_msg_handler env f tid d n u (ctx, w) = Some (ctx, g w) \<and> log (g w) = log w \<and> out (g w) = out w)"

lemma quiet_app_write: "quiet_app env log out \<Longrightarrow> env_write env f u d w = (r, w') \<Longrightarrow> log w' = log w \<and> out w' = out w @ [d]"
  by (simp add: quiet_app_def) (metis snd_conv)

lemma quiet_app_flush: "quiet_app env log out \<Longrightarrow> log (uproto_flush env ctx w) = log w \<and> out (uproto_flush env ctx w) = out w"
  by (simp add: quiet_app_def uproto_flush_def split: option.split)

lemma quiet_app_now: "quiet_app env log out \<Longrightarrow> uproto_now env (ctx, w) = (t, w') \<Longrightarrow> log w' = log w \<and> out w' = out w"
  by (auto simp: quiet_app_def uproto_now_def split: option.split_asm) (metis snd_conv)+

lemma quiet_app_event: "quiet_app env log out \<Longrightarrow> \<exists>w'. uproto_fire_event env ev (ctx, w) = Some (ctx, w') \<and> log w' = log w \<and> out w' = out w"
  by (auto simp: quiet_app_def uproto_fire_event_def split: option.split) metis

lemma quiet_app_complete:
  assumes "quiet_app env log out"
  shows "\<exists>w'. uproto_complete_transaction env i err d n (ctx, w) = Some (update_txn i (\<lambda>t. t\<lparr>tr_state := TXN_STATE_FREE\<rparr>) ctx, w') \<and> out w' = out w \<and>
    log w' = log w @ (case tr_callback (cx_transactions ctx ! i) of Some f \<Rightarrow> [(f, tr_user (cx_transactions ctx ! i), err)] | None \<Rightarrow> [])"
proof (cases "tr_callback (cx_transactions ctx ! i)")
  case (Some f)
  obtain w' where "env_txn_callback env f (tr_user (cx_transactions ctx ! i)) err d n (ctx, w) = Some (ctx, w')"
    "log w' = log w @ [(f, tr_user (cx_transactions ctx ! i), err)]" "out w' = out w" using assms unfolding quiet_app_def by metis
  then show ?thesis using Some by (simp add: uproto_complete_transaction_def)
qed (simp add: uproto_complete_transaction_def)

section \<open>The tick, slot by slot\<close>

text \<open>What a tick at the time \<open>now\<close> does to a slot, which frames it repeats, and which completions it reports.\<close>

definition due :: "u32 \<Rightarrow> uproto_transaction \<Rightarrow> bool" where
  "due now t \<longleftrightarrow> tr_state t = TXN_STATE_WAITING \<and> now - tr_last_tx_time t \<ge> tr_timeout_ms t"

definition tick_slot :: "u32 \<Rightarrow> uproto_transaction \<Rightarrow> uproto_transaction" where
  "tick_slot now t =
     (if \<not> due now t then t
      else if tr_retry_count t < tr_max_retries t then t\<lparr>tr_retry_count := tr_retry_count t + 1, tr_last_tx_time := now\<rparr>
      else t\<lparr>tr_state := TXN_STATE_FREE\<rparr>)"

definition slot_repeats :: "u32 \<Rightarrow> uproto_transaction \<Rightarrow> u8 list list" where
  "slot_repeats now t = (if due now t \<and> tr_retry_count t < tr_max_retries t then [take (tr_tx_len t) (tr_tx_data t)] else [])"

definition slot_completes :: "u32 \<Rightarrow> uproto_transaction \<Rightarrow> completion list" where
  "slot_completes now t = (if due now t \<and> \<not> tr_retry_count t < tr_max_retries t
     then (case tr_callback t of Some f \<Rightarrow> [(f, tr_user t, UPROTO_ERR_TIMEOUT)] | None \<Rightarrow> []) else [])"

lemma tick_txn_slot:
  assumes "quiet_app env log out" and "wf_ctx ctx" and "i < UPROTO_MAX_TRANSACTIONS"
  defines "t \<equiv> cx_transactions ctx ! i"
  shows "\<exists>st w'. tick_txn env now i (ctx, w) = Some (ctx\<lparr>cx_transactions := (cx_transactions ctx)[i := tick_slot now t], cx_stats := st\<rparr>, w') \<and>
    log w' = log w @ slot_completes now t \<and> out w' = out w @ slot_repeats now t"
proof (cases "due now t")
  case False
  then show ?thesis by (intro exI [of _ "cx_stats ctx"] exI [of _ w])
    (auto simp: tick_txn_def due_def tick_slot_def slot_completes_def slot_repeats_def t_def Let_def)
next
  case True
  then have d: "tr_state t = TXN_STATE_WAITING" "now - tr_last_tx_time t \<ge> tr_timeout_ms t" by (simp_all add: due_def)
  show ?thesis
  proof (cases "tr_retry_count t < tr_max_retries t")
    case retry: True
    let ?data = "take (tr_tx_len t) (tr_tx_data t)"
    let ?ctx = "ctx\<lparr>cx_transactions := (cx_transactions ctx)[i := tick_slot now t], cx_stats := (cx_stats ctx)\<lparr>st_retries := st_retries (cx_stats ctx) + 1\<rparr>\<rparr>"
    obtain wr where wr: "po_write (cx_port ctx) = Some wr" using wf_ctx_write [OF assms(2)] by blast
    obtain r w1 where w1: "env_write env wr (po_user (cx_port ctx)) ?data w = (r, w1)" by fastforce
    have data: "mem_read (tr_tx_data t) 0 (tr_tx_len t) = Some ?data" using wf_ctx_txn [OF assms(2,3)] by (simp add: wf_txn_def t_def mem_read_in)
    let ?upd = "update_txn i (\<lambda>t. t\<lparr>tr_retry_count := tr_retry_count t + 1, tr_last_tx_time := now\<rparr>) ctx"
    have "?upd\<lparr>cx_stats := (cx_stats ?upd)\<lparr>st_retries := st_retries (cx_stats ?upd) + 1\<rparr>\<rparr> = ?ctx"
      using True retry by (simp add: update_txn_def tick_slot_def t_def)
    moreover obtain w' where "uproto_fire_event env ''retry'' (?ctx, uproto_flush env ?upd w1) = Some (?ctx, w')"
      "log w' = log (uproto_flush env ?upd w1)" "out w' = out (uproto_flush env ?upd w1)" using quiet_app_event [OF assms(1)] by blast
    ultimately show ?thesis
      using d retry wr w1 data quiet_app_write [OF assms(1) w1] quiet_app_flush [OF assms(1)] True
      by (intro exI [of _ "(cx_stats ctx)\<lparr>st_retries := st_retries (cx_stats ctx) + 1\<rparr>"] exI [of _ w'])
        (simp add: tick_txn_def t_def [symmetric] slot_completes_def slot_repeats_def Let_def)
  next
    case give_up: False
    let ?c = "ctx\<lparr>cx_stats := (cx_stats ctx)\<lparr>st_timeouts := st_timeouts (cx_stats ctx) + 1\<rparr>\<rparr>"
    obtain w1 where w1: "uproto_fire_event env ''timeout'' (?c, w) = Some (?c, w1)" "log w1 = log w" "out w1 = out w" using quiet_app_event [OF assms(1)] by blast
    have cb: "cx_transactions ?c ! i = t" by (simp add: t_def)
    from quiet_app_complete [OF assms(1), of i UPROTO_ERR_TIMEOUT None 0 ?c w1, unfolded cb] obtain w' where
      w': "uproto_complete_transaction env i UPROTO_ERR_TIMEOUT None 0 (?c, w1) = Some (update_txn i (\<lambda>t. t\<lparr>tr_state := TXN_STATE_FREE\<rparr>) ?c, w')" "out w' = out w1"
      "log w' = log w1 @ (case tr_callback t of Some f \<Rightarrow> [(f, tr_user t, UPROTO_ERR_TIMEOUT)] | None \<Rightarrow> [])" by blast
    show ?thesis using d give_up w1 w' True
      by (intro exI [of _ "(cx_stats ctx)\<lparr>st_timeouts := st_timeouts (cx_stats ctx) + 1\<rparr>"] exI [of _ w'])
        (simp add: tick_txn_def t_def [symmetric] slot_completes_def slot_repeats_def tick_slot_def update_txn_def Let_def)
  qed
qed

lemma wf_tick_slot: "wf_txn (tick_slot now t) = wf_txn t"
  by (simp add: wf_txn_def tick_slot_def)

lemma wf_ctx_tables: "wf_ctx (ctx\<lparr>cx_transactions := ts, cx_stats := st\<rparr>) \<longleftrightarrow> wf_ctx (ctx\<lparr>cx_transactions := ts\<rparr>)"
  by (simp add: wf_ctx_def)

lemma tick_txns_slots:
  assumes "quiet_app env log out" and "wf_ctx ctx" and "k \<le> UPROTO_MAX_TRANSACTIONS"
  shows "\<exists>st w'. tick_txns env now [k..<UPROTO_MAX_TRANSACTIONS] (ctx, w) =
      Some (ctx\<lparr>cx_transactions := take k (cx_transactions ctx) @ map (tick_slot now) (drop k (cx_transactions ctx)), cx_stats := st\<rparr>, w') \<and>
    log w' = log w @ concat (map (slot_completes now) (drop k (cx_transactions ctx))) \<and>
    out w' = out w @ concat (map (slot_repeats now) (drop k (cx_transactions ctx)))"
  using assms(2,3)
proof (induction "UPROTO_MAX_TRANSACTIONS - k" arbitrary: k ctx w)
  case 0
  then have "k = UPROTO_MAX_TRANSACTIONS" "length (cx_transactions ctx) = k" by (simp_all add: wf_ctx_def)
  then show ?case by (intro exI [of _ "cx_stats ctx"] exI [of _ w]) simp
next
  case (Suc n)
  let ?ts = "cx_transactions ctx"
  have len: "length ?ts = UPROTO_MAX_TRANSACTIONS" using Suc.prems by (simp add: wf_ctx_def)
  have k: "k < UPROTO_MAX_TRANSACTIONS" using Suc.hyps(2) by simp
  obtain st w1 where s1: "tick_txn env now k (ctx, w) = Some (ctx\<lparr>cx_transactions := ?ts[k := tick_slot now (?ts ! k)], cx_stats := st\<rparr>, w1)"
    "log w1 = log w @ slot_completes now (?ts ! k)" "out w1 = out w @ slot_repeats now (?ts ! k)"
    using tick_txn_slot [OF assms(1) Suc.prems(1) k] by blast
  let ?c = "ctx\<lparr>cx_transactions := ?ts[k := tick_slot now (?ts ! k)], cx_stats := st\<rparr>"
  have wf: "wf_ctx ?c" using wf_ctx_update_txn [OF Suc.prems(1), of "tick_slot now" k] by (simp add: wf_tick_slot update_txn_def wf_ctx_tables)
  have m: "n = UPROTO_MAX_TRANSACTIONS - Suc k" "Suc k \<le> UPROTO_MAX_TRANSACTIONS" using Suc.hyps(2) k by simp_all
  have l: "take (Suc k) (cx_transactions ?c) @ map (tick_slot now) (drop (Suc k) (cx_transactions ?c)) = take k ?ts @ map (tick_slot now) (drop k ?ts)"
    "drop (Suc k) (cx_transactions ?c) = drop (Suc k) ?ts" "drop k ?ts = ?ts ! k # drop (Suc k) ?ts"
    using k len by (simp_all add: take_Suc_conv_app_nth Cons_nth_drop_Suc [symmetric])
  obtain st' w' where "tick_txns env now [Suc k..<UPROTO_MAX_TRANSACTIONS] (?c, w1) =
      Some (?c\<lparr>cx_transactions := take k ?ts @ map (tick_slot now) (drop k ?ts), cx_stats := st'\<rparr>, w')"
    "log w' = log w1 @ concat (map (slot_completes now) (drop (Suc k) ?ts))" "out w' = out w1 @ concat (map (slot_repeats now) (drop (Suc k) ?ts))"
    using Suc.hyps(1) [OF m(1) wf m(2), of w1] unfolding l(1) unfolding l(2) by blast
  moreover have "[k..<UPROTO_MAX_TRANSACTIONS] = k # [Suc k..<UPROTO_MAX_TRANSACTIONS]" using k by (rule upt_conv_Cons)
  ultimately show ?case using s1 unfolding l(3) by (intro exI [of _ st'] exI [of _ w']) simp
qed

lemma tick_table:
  fixes w :: 'w
  assumes "quiet_app env log out" and "wf_ctx ctx" and "cf_heartbeat_interval_ms (cx_config ctx) = 0"
  defines "now \<equiv> fst (uproto_now env (ctx, w))"
  shows "\<exists>ctx' w'. uproto_tick env (ctx, w) = Some (ctx', w') \<and> wf_ctx ctx' \<and> cx_config ctx' = cx_config ctx \<and>
    cx_transactions ctx' = map (tick_slot now) (cx_transactions ctx) \<and>
    log w' = log w @ concat (map (slot_completes now) (cx_transactions ctx)) \<and> out w' = out w @ concat (map (slot_repeats now) (cx_transactions ctx))"
proof -
  obtain w1 where w1: "uproto_now env (ctx, w) = (now, w1)" unfolding now_def by (metis prod.collapse)
  have "\<exists>st w2. tick_handshake env now (ctx, w1) = Some (ctx\<lparr>cx_state := st\<rparr>, w2) \<and> log w2 = log w \<and> out w2 = out w"
  proof (cases "cx_state ctx = UPROTO_STATE_HANDSHAKING \<and> cf_handshake_timeout_ms (cx_config ctx) > 0 \<and>
        now - cx_handshake_start_time ctx > cf_handshake_timeout_ms (cx_config ctx)")
    case True
    obtain w2 where "uproto_fire_event env ''handshake_timeout'' (ctx\<lparr>cx_state := UPROTO_STATE_IDLE\<rparr>, w1) = Some (ctx\<lparr>cx_state := UPROTO_STATE_IDLE\<rparr>, w2)" "log w2 = log w1" "out w2 = out w1"
      using quiet_app_event [OF assms(1)] by blast
    then show ?thesis using True quiet_app_now [OF assms(1) w1] by (intro exI [of _ UPROTO_STATE_IDLE] exI [of _ w2]) (simp add: tick_handshake_def)
  next
    case False
    then show ?thesis using quiet_app_now [OF assms(1) w1] by (intro exI [of _ "cx_state ctx"] exI [of _ w1]) (auto simp: tick_handshake_def)
  qed
  then obtain st w2 where w2: "tick_handshake env now (ctx, w1) = Some (ctx\<lparr>cx_state := st\<rparr>, w2)" "log w2 = log w" "out w2 = out w" by blast
  let ?c = "ctx\<lparr>cx_state := st\<rparr>"
  have wf: "wf_ctx ?c" using assms(2) by simp
  obtain ss w3 where w3: "tick_txns env now [0..<UPROTO_MAX_TRANSACTIONS] (?c, w2) = Some (?c\<lparr>cx_transactions := map (tick_slot now) (cx_transactions ctx), cx_stats := ss\<rparr>, w3)"
    "log w3 = log w2 @ concat (map (slot_completes now) (cx_transactions ctx))" "out w3 = out w2 @ concat (map (slot_repeats now) (cx_transactions ctx))"
    using tick_txns_slots [OF assms(1) wf, of 0 now w2] by auto
  let ?d = "?c\<lparr>cx_transactions := map (tick_slot now) (cx_transactions ctx), cx_stats := ss\<rparr>"
  have "tick_heartbeat env now (?d, w3) = Some (?d, w3)" using assms(3) by (simp add: tick_heartbeat_def)
  then have "uproto_tick env (ctx, w) = Some (?d, w3)" using w1 w2 w3 by (simp add: uproto_tick_def)
  moreover have "wf_ctx ?d" using assms(2) by (simp add: wf_ctx_def list_all_length wf_tick_slot)
  ultimately show ?thesis using w2 w3 by auto
qed

lemma concat_sole:
  "i < length ts \<Longrightarrow> (\<And>j. j < length ts \<Longrightarrow> j \<noteq> i \<Longrightarrow> g (ts ! j) = []) \<Longrightarrow> concat (map g ts) = g (ts ! i)"
proof (induction ts arbitrary: i)
  case (Cons t ts)
  show ?case
  proof (cases i)
    case 0
    have "g u = []" if u: "u \<in> set ts" for u
    proof -
      obtain j where "j < length ts" "u = ts ! j" using u by (auto simp: in_set_conv_nth)
      then show ?thesis using Cons.prems(2) [of "Suc j"] 0 by simp
    qed
    then have "concat (map g ts) = []" by simp
    then show ?thesis using 0 by simp
  next
    case (Suc k)
    have "concat (map g ts) = g (ts ! k)" using Cons.prems Suc by (intro Cons.IH) (simp, metis Suc_less_eq length_Cons nat.inject nth_Cons_Suc)
    then show ?thesis using Cons.prems(2) [of 0] Suc by simp
  qed
qed simp

section \<open>A request nobody answers\<close>

text \<open>
  Ticks with time passing in between: each of \<open>vs\<close> is what happens to the world before the next tick. \<open>tick_times\<close> are the times the ticks read.
\<close>

fun ticks :: "'w uproto_env \<Rightarrow> ('w \<Rightarrow> 'w) list \<Rightarrow> 'w uproto_st \<Rightarrow> 'w uproto_st option" where
  "ticks env [] s = Some s"
| "ticks env (v # vs) s = do { s \<leftarrow> uproto_tick env (fst s, v (snd s)); ticks env vs s }"

fun tick_times :: "'w uproto_env \<Rightarrow> ('w \<Rightarrow> 'w) list \<Rightarrow> 'w uproto_st \<Rightarrow> u32 list" where
  "tick_times env [] s = []"
| "tick_times env (v # vs) s = fst (uproto_now env (fst s, v (snd s))) #
     (case uproto_tick env (fst s, v (snd s)) of Some s \<Rightarrow> tick_times env vs s | None \<Rightarrow> [])"

fun spaced :: "u32 \<Rightarrow> u32 \<Rightarrow> u32 list \<Rightarrow> bool" where
  "spaced gap prev [] = True"
| "spaced gap prev (n # ns) \<longleftrightarrow> n - prev \<ge> gap \<and> spaced gap n ns"

definition sole :: "nat \<Rightarrow> uproto_transaction \<Rightarrow> uproto_context \<Rightarrow> bool" where
  "sole i t ctx \<longleftrightarrow> i < UPROTO_MAX_TRANSACTIONS \<and> cx_transactions ctx ! i = t \<and>
     (\<forall>j < UPROTO_MAX_TRANSACTIONS. j \<noteq> i \<longrightarrow> tr_state (cx_transactions ctx ! j) = TXN_STATE_FREE)"

lemma tick_slot_free: "tr_state t = TXN_STATE_FREE \<Longrightarrow> tick_slot now t = t \<and> slot_repeats now t = [] \<and> slot_completes now t = []"
  by (simp add: tick_slot_def slot_repeats_def slot_completes_def due_def)

lemma tick_sole:
  fixes w :: 'w
  assumes "quiet_app env log out" and "wf_ctx ctx" and "cf_heartbeat_interval_ms (cx_config ctx) = 0" and "sole i t ctx"
  defines "now \<equiv> fst (uproto_now env (ctx, w))"
  shows "\<exists>ctx' w'. uproto_tick env (ctx, w) = Some (ctx', w') \<and> wf_ctx ctx' \<and> cf_heartbeat_interval_ms (cx_config ctx') = 0 \<and>
    sole i (tick_slot now t) ctx' \<and> log w' = log w @ slot_completes now t \<and> out w' = out w @ slot_repeats now t"
proof -
  let ?ts = "cx_transactions ctx"
  have len: "length ?ts = UPROTO_MAX_TRANSACTIONS" using assms(2) by (simp add: wf_ctx_def)
  have s: "i < length ?ts" "?ts ! i = t" "\<And>j. j < length ?ts \<Longrightarrow> j \<noteq> i \<Longrightarrow> tr_state (?ts ! j) = TXN_STATE_FREE"
    using assms(4) len by (simp_all add: sole_def)
  obtain ctx' w' where "uproto_tick env (ctx, w) = Some (ctx', w')" "wf_ctx ctx'" "cx_config ctx' = cx_config ctx" "cx_transactions ctx' = map (tick_slot now) ?ts"
    "log w' = log w @ concat (map (slot_completes now) ?ts)" "out w' = out w @ concat (map (slot_repeats now) ?ts)"
    using tick_table [OF assms(1-3)] unfolding now_def by blast
  moreover have "concat (map (slot_completes now) ?ts) = slot_completes now t" "concat (map (slot_repeats now) ?ts) = slot_repeats now t"
    using concat_sole [OF s(1), of "slot_completes now"] concat_sole [OF s(1), of "slot_repeats now"] s(2,3) by (simp_all add: tick_slot_free)
  moreover have "sole i (tick_slot now t) ctx'" if "cx_transactions ctx' = map (tick_slot now) ?ts" for ctx'
    using s len that by (simp add: sole_def tick_slot_free)
  ultimately show ?thesis using assms(3) by auto
qed

lemma ticks_free:
  assumes "quiet_app env log out" and "\<forall>v \<in> set vs. \<forall>w. log (v w) = log w \<and> out (v w) = out w"
    and "wf_ctx ctx" and "cf_heartbeat_interval_ms (cx_config ctx) = 0" and "sole i t ctx" and "tr_state t = TXN_STATE_FREE"
  shows "\<exists>ctx' w'. ticks env vs (ctx, w) = Some (ctx', w') \<and> sole i t ctx' \<and> log w' = log w \<and> out w' = out w"
  using assms(2-5)
proof (induction vs arbitrary: ctx w)
  case (Cons v vs)
  obtain ctx' w' where s: "uproto_tick env (ctx, v w) = Some (ctx', w')" "wf_ctx ctx'" "cf_heartbeat_interval_ms (cx_config ctx') = 0"
    "sole i t ctx'" "log w' = log (v w)" "out w' = out (v w)"
    using tick_sole [OF assms(1) Cons.prems(2-4), of "v w"] by (auto simp: tick_slot_free [OF assms(6)])
  then show ?case using Cons.IH [of ctx' w'] Cons.prems(1) by simp
qed simp

text \<open>What is left of the retries, and the outcome after some ticks.\<close>

lemma ticks_unanswered:
  assumes "quiet_app env log out" and "\<forall>v \<in> set vs. \<forall>w. log (v w) = log w \<and> out (v w) = out w"
    and "wf_ctx ctx" and "cf_heartbeat_interval_ms (cx_config ctx) = 0" and "sole i t ctx"
    and "tr_state t = TXN_STATE_WAITING" and "tr_callback t = Some f" and "tr_retry_count t \<le> tr_max_retries t"
    and "spaced (tr_timeout_ms t) (tr_last_tx_time t) (tick_times env vs (ctx, w))"
  defines "m \<equiv> unat (tr_max_retries t) - unat (tr_retry_count t)"
  shows "\<exists>ctx' w'. ticks env vs (ctx, w) = Some (ctx', w') \<and>
    out w' = out w @ replicate (min (length vs) m) (take (tr_tx_len t) (tr_tx_data t)) \<and>
    log w' = log w @ (if length vs > m then [(f, tr_user t, UPROTO_ERR_TIMEOUT)] else []) \<and>
    (tr_state (cx_transactions ctx' ! i) = TXN_STATE_FREE \<longleftrightarrow> length vs > m)"
  using assms(2-9) unfolding m_def
proof (induction vs arbitrary: ctx w t)
  case Nil
  then show ?case by (simp add: sole_def)
next
  case (Cons v vs)
  define now where "now = fst (uproto_now env (ctx, v w))"
  obtain ctx' w' where s: "uproto_tick env (ctx, v w) = Some (ctx', w')" "wf_ctx ctx'" "cf_heartbeat_interval_ms (cx_config ctx') = 0"
    "sole i (tick_slot now t) ctx'" "log w' = log (v w) @ slot_completes now t" "out w' = out (v w) @ slot_repeats now t"
    using tick_sole [OF assms(1) Cons.prems(2-4), of "v w"] unfolding now_def by blast
  have d: "due now t" using Cons.prems(5,8) by (simp add: due_def now_def)
  have vw: "log (v w) = log w" "out (v w) = out w" using Cons.prems(1) by simp_all
  have ih: "\<forall>v \<in> set vs. \<forall>w. log (v w) = log w \<and> out (v w) = out w" using Cons.prems(1) by simp
  show ?case
  proof (cases "tr_retry_count t < tr_max_retries t")
    case True
    let ?t = "tick_slot now t"
    have c: "unat (tr_retry_count t + 1) = Suc (unat (tr_retry_count t))" using True unsigned_less [where 'a = nat and w = "tr_max_retries t"]
      by (simp add: unat_word_ariths word_less_nat_alt)
    have t: "?t = t\<lparr>tr_retry_count := tr_retry_count t + 1, tr_last_tx_time := now\<rparr>" using d True by (simp add: tick_slot_def)
    have m: "unat (tr_max_retries t) - unat (tr_retry_count t) = Suc (unat (tr_max_retries t) - unat (tr_retry_count t + 1))"
      using True c by (simp add: word_less_nat_alt)
    have "spaced (tr_timeout_ms t) now (tick_times env vs (ctx', w'))" using Cons.prems(8) s(1) by (simp add: now_def)
    moreover have "tr_retry_count t + 1 \<le> tr_max_retries t" using True c by (simp add: word_less_nat_alt word_le_nat_alt)
    ultimately show ?thesis
      using Cons.IH [OF ih s(2,3,4), of w'] Cons.prems(5,6) s(1,5,6) d True vw unfolding m by (auto simp: t slot_completes_def slot_repeats_def)
  next
    case False
    have m: "unat (tr_max_retries t) - unat (tr_retry_count t) = 0" using False by (simp add: word_less_nat_alt)
    have t: "tick_slot now t = t\<lparr>tr_state := TXN_STATE_FREE\<rparr>" using d False by (simp add: tick_slot_def)
    have "\<exists>ctx'' w''. ticks env vs (ctx', w') = Some (ctx'', w'') \<and> sole i (tick_slot now t) ctx'' \<and> log w'' = log w' \<and> out w'' = out w'"
      using t by (intro ticks_free [OF assms(1) ih s(2-4)]) simp
    then show ?thesis
      using s(1,5,6) d False vw Cons.prems(6) unfolding m by (auto simp: t slot_completes_def slot_repeats_def sole_def)
  qed
qed

section \<open>The account of all requests\<close>

text \<open>
  \<open>owed\<close>: the callbacks already told of an outcome and the ones whose request is still outstanding. \<open>balanced\<close>: a call that returned has kept it.
\<close>

definition slot_owes :: "uproto_transaction \<Rightarrow> (fn_ptr \<times> user_ptr) list" where
  "slot_owes t = (if tr_state t = TXN_STATE_FREE then [] else case tr_callback t of Some f \<Rightarrow> [(f, tr_user t)] | None \<Rightarrow> [])"

definition outstanding :: "uproto_context \<Rightarrow> (fn_ptr \<times> user_ptr) multiset" where
  "outstanding ctx = mset (concat (map slot_owes (cx_transactions ctx)))"

definition told :: "completion list \<Rightarrow> (fn_ptr \<times> user_ptr) multiset" where
  "told cs = mset (map (\<lambda>(f, u, _). (f, u)) cs)"

definition owed :: "('w \<Rightarrow> completion list) \<Rightarrow> 'w uproto_st \<Rightarrow> (fn_ptr \<times> user_ptr) multiset" where
  "owed log s = told (log (snd s)) + outstanding (fst s)"

definition balanced :: "('w \<Rightarrow> completion list) \<Rightarrow> 'w uproto_st \<Rightarrow> 'w uproto_st option \<Rightarrow> bool" where
  "balanced log s r \<longleftrightarrow> (\<forall>s'. r = Some s' \<longrightarrow> owed log s' = owed log s \<and> length (cx_transactions (fst s')) = length (cx_transactions (fst s)))"

lemma balanced_Some [simp]:
  "balanced log s (Some s') \<longleftrightarrow> owed log s' = owed log s \<and> length (cx_transactions (fst s')) = length (cx_transactions (fst s))"
  "balanced log s None"
  by (simp_all add: balanced_def)

lemma balanced_from:
  "owed log s = owed log s0 \<Longrightarrow> length (cx_transactions (fst s)) = length (cx_transactions (fst s0)) \<Longrightarrow> balanced log s r \<Longrightarrow> balanced log s0 r"
  by (simp add: balanced_def)

lemma balanced_bind:
  assumes "balanced log s r"
    and "\<And>s'. r = Some s' \<Longrightarrow> owed log s' = owed log s \<Longrightarrow> length (cx_transactions (fst s')) = length (cx_transactions (fst s)) \<Longrightarrow> balanced log s (g s')"
  shows "balanced log s (Option.bind r g)"
  using assms by (cases r) (simp_all add: balanced_def)

lemma balanced_bind_result:
  assumes "balanced log s (map_option snd r)"
    and "\<And>e s'. owed log s' = owed log s \<Longrightarrow> length (cx_transactions (fst s')) = length (cx_transactions (fst s)) \<Longrightarrow> balanced log s (g (e, s'))"
  shows "balanced log s (Option.bind r g)"
proof (cases r)
  case (Some es)
  then show ?thesis using assms(1) assms(2) [of "snd es" "fst es"] by (simp del: split_paired_All)
qed simp

lemma owes_update:
  "i < length ts \<Longrightarrow> mset (concat (map g (ts[i := t]))) + mset (g (ts ! i)) = mset (concat (map g ts)) + mset (g t)"
proof (induction ts arbitrary: i)
  case (Cons a ts)
  show ?case
  proof (cases i)
    case (Suc k)
    then have "mset (concat (map g (ts[k := t]))) + mset (g (ts ! k)) = mset (concat (map g ts)) + mset (g t)" using Cons.prems by (intro Cons.IH) simp
    then show ?thesis using Suc by (simp add: add.assoc del: mset_concat)
  qed (simp add: ac_simps del: mset_concat)
qed simp

lemma outstanding_update:
  assumes "i < length (cx_transactions ctx)"
  shows "outstanding (update_txn i h ctx) + mset (slot_owes (cx_transactions ctx ! i)) = outstanding ctx + mset (slot_owes (h (cx_transactions ctx ! i)))"
  unfolding outstanding_def update_txn_def using owes_update [OF assms] by (simp del: mset_concat)

lemma told_append [simp]: "told (a @ b) = told a + told b" "told [] = {#}" "told [(f, u, e)] = {#(f, u)#}"
  by (simp_all add: told_def)

lemma outstanding_same: "cx_transactions ctx' = cx_transactions ctx \<Longrightarrow> outstanding ctx' = outstanding ctx"
  by (simp add: outstanding_def)

lemma event_balanced:
  assumes "quiet_app env log out"
  shows "balanced log s (uproto_fire_event env ev s)"
  using quiet_app_event [OF assms, of ev "fst s" "snd s"] by (auto simp: owed_def)

lemma send_frame_balanced:
  assumes "quiet_app env log out"
  shows "balanced log s (map_option snd (uproto_send_frame env fl ty tid p n s))"
proof (cases s)
  case (Pair ctx w)
  show ?thesis
  proof (cases "po_write (cx_port ctx)")
    case None
    then show ?thesis by (simp add: Pair uproto_send_frame_def)
  next
    case (Some wr)
    show ?thesis
    proof (cases "uproto_encode_frame tx_buffer fl ty tid (cx_local_seq ctx) 0 p n")
      case None
      then show ?thesis by (simp add: Pair Some uproto_send_frame_def)
    next
      case enc: (Some bn)
      obtain b k where bn: "bn = (b, k)" by force
      obtain r w1 where w1: "env_write env wr (po_user (cx_port ctx)) (take k b) w = (r, w1)" by fastforce
      show ?thesis
        using quiet_app_write [OF assms w1] quiet_app_flush [OF assms] quiet_app_now [OF assms]
        by (auto simp: Pair Some enc [simplified] bn w1 uproto_send_frame_def Let_def owed_def outstanding_def split: prod.split)
    qed
  qed
qed

lemma complete_balanced:
  assumes "quiet_app env log out" and "i < length (cx_transactions (fst s))" and "tr_state (cx_transactions (fst s) ! i) \<noteq> TXN_STATE_FREE"
  shows "balanced log s (uproto_complete_transaction env i err d n s)"
proof (cases s)
  case (Pair ctx w)
  from quiet_app_complete [OF assms(1), of i err d n ctx w] obtain w' where
    w': "uproto_complete_transaction env i err d n (ctx, w) = Some (update_txn i (\<lambda>t. t\<lparr>tr_state := TXN_STATE_FREE\<rparr>) ctx, w')"
    "log w' = log w @ (case tr_callback (cx_transactions ctx ! i) of Some f \<Rightarrow> [(f, tr_user (cx_transactions ctx ! i), err)] | None \<Rightarrow> [])" by blast
  have "outstanding (update_txn i (\<lambda>t. t\<lparr>tr_state := TXN_STATE_FREE\<rparr>) ctx) + mset (slot_owes (cx_transactions ctx ! i)) = outstanding ctx"
    using outstanding_update [of i ctx "\<lambda>t. t\<lparr>tr_state := TXN_STATE_FREE\<rparr>"] assms(2) by (simp add: Pair slot_owes_def)
  moreover have "told (case tr_callback (cx_transactions ctx ! i) of Some f \<Rightarrow> [(f, tr_user (cx_transactions ctx ! i), err)] | None \<Rightarrow> []) =
      mset (slot_owes (cx_transactions ctx ! i))" using assms(3) by (simp add: Pair slot_owes_def split: option.split)
  ultimately show ?thesis using w' by (simp add: Pair owed_def ac_simps)
qed

lemma complete_found_balanced:
  assumes "quiet_app env log out" and "length (cx_transactions (fst s)) = UPROTO_MAX_TRANSACTIONS"
  shows "balanced log s (complete_found env tid d n s)"
  using find_txn_Some [of "fst s" tid] complete_balanced [OF assms(1)] assms(2) by (auto simp: complete_found_def split: option.split)

lemma call_handler_balanced:
  assumes "quiet_app env log out"
  shows "balanced log s (call_handler env i tid d n s)"
proof (cases s)
  case (Pair ctx w)
  have "\<exists>w'. env_msg_handler env f tid d n u (ctx, w) = Some (ctx, w') \<and> log w' = log w" for f u using assms unfolding quiet_app_def by metis
  from this [of "the (he_handler (cx_handlers ctx ! i))" "he_user (cx_handlers ctx ! i)"] show ?thesis
    by (cases "he_handler (cx_handlers ctx ! i)") (auto simp: Pair call_handler_def owed_def)
qed

lemma balanced_if: "(b \<Longrightarrow> balanced log s x) \<Longrightarrow> (\<not> b \<Longrightarrow> balanced log s y) \<Longrightarrow> balanced log s (if b then x else y)"
  by simp

lemma balanced_opt: "(r = None \<Longrightarrow> balanced log s x) \<Longrightarrow> (\<And>i. r = Some i \<Longrightarrow> balanced log s (f i)) \<Longrightarrow> balanced log s (case r of Some i \<Rightarrow> f i | None \<Rightarrow> x)"
  by (cases r) simp_all

lemma handle_frame_balanced:
  assumes "quiet_app env log out" and "length (cx_transactions (fst s)) = UPROTO_MAX_TRANSACTIONS"
  shows "balanced log s (uproto_handle_frame env frame s)"
proof (cases s)
  case (Pair ctx w)
  obtain t w1 where now: "uproto_now env (ctx\<lparr>cx_stats := (cx_stats ctx)\<lparr>st_rx_frames := st_rx_frames (cx_stats ctx) + 1\<rparr>\<rparr>, w) = (t, w1)"
    by fastforce
  let ?c = "ctx\<lparr>cx_stats := (cx_stats ctx)\<lparr>st_rx_frames := st_rx_frames (cx_stats ctx) + 1\<rparr>, cx_last_rx_time := t, cx_remote_seq := fr_seq frame\<rparr>"
  have o: "owed log (?c, w1) = owed log s" "length (cx_transactions ?c) = UPROTO_MAX_TRANSACTIONS"
    using quiet_app_now [OF assms(1) now] assms(2) by (simp_all add: Pair owed_def outstanding_def)
  have est: "balanced log s0 (uproto_fire_event env ev (c\<lparr>cx_state := x\<rparr>, v))"
    if "owed log (c, v) = owed log s0" "length (cx_transactions c) = length (cx_transactions (fst s0))" for s0 ev c x v
    using that by (intro balanced_from [OF _ _ event_balanced [OF assms(1)]]) (simp_all add: owed_def outstanding_def)
  have hello: "balanced log (?c, w1) (case es of (_, x, v) \<Rightarrow> if cx_state x = UPROTO_STATE_IDLE \<or> cx_state x = UPROTO_STATE_HANDSHAKING
       then uproto_fire_event env ''handshake_completed'' (x\<lparr>cx_state := UPROTO_STATE_ESTABLISHED\<rparr>, v) else Some (x, v))"
    if "owed log (snd es) = owed log (?c, w1)" "length (cx_transactions (fst (snd es))) = length (cx_transactions (fst (?c, w1)))" for es :: "uproto_error \<times> 'a uproto_st"
    using that by (cases es) (simp add: est)
  have ack: "balanced log (?c, w1) (if cx_state ?c = UPROTO_STATE_HANDSHAKING
      then uproto_fire_event env ''handshake_completed'' (?c\<lparr>cx_state := UPROTO_STATE_ESTABLISHED\<rparr>, w1) else Some (?c, w1))" by (simp add: est)
  have cf: "balanced log (?c, w1) (complete_found env (fr_txn_id frame) d n s')"
    if "owed log s' = owed log (?c, w1)" "length (cx_transactions (fst s')) = length (cx_transactions (fst (?c, w1)))" for s' d n
    using that o(2) by (intro balanced_from [OF _ _ complete_found_balanced [OF assms(1)]]) simp_all
  note handlers = call_handler_balanced [OF assms(1)] and send = balanced_bind_result [OF send_frame_balanced [OF assms(1)]]
  have "balanced log (?c, w1) (uproto_handle_frame env frame s)"
    unfolding uproto_handle_frame_def Pair prod.case Let_def now
    by (intro balanced_if balanced_opt send hello balanced_bind [OF ack] cf handlers) simp_all
  from balanced_from [OF o(1) _ this] show ?thesis using o(2) assms(2) by simp
qed

lemma balanced_any: "(\<And>x. r = Some x \<Longrightarrow> balanced log s (g x)) \<Longrightarrow> balanced log s (Option.bind r g)"
  by (cases r) simp_all

lemma balanced_prod: "(\<And>a b. p = (a, b) \<Longrightarrow> balanced log s (g a b)) \<Longrightarrow> balanced log s (case p of (a, b) \<Rightarrow> g a b)"
  by (cases p) simp

lemma balanced_map_if:
  "(b \<Longrightarrow> balanced log s (map_option f x)) \<Longrightarrow> (\<not> b \<Longrightarrow> balanced log s (map_option f y)) \<Longrightarrow> balanced log s (map_option f (if b then x else y))"
  by simp

lemma balanced_map_any: "(\<And>x. r = Some x \<Longrightarrow> balanced log s (map_option f (g x))) \<Longrightarrow> balanced log s (map_option f (Option.bind r g))"
  by (cases r) simp_all

lemma balanced_map_opt:
  "(r = None \<Longrightarrow> balanced log s (map_option f x)) \<Longrightarrow> (\<And>i. r = Some i \<Longrightarrow> balanced log s (map_option f (g i))) \<Longrightarrow>
     balanced log s (map_option f (case r of Some i \<Rightarrow> g i | None \<Rightarrow> x))"
  by (cases r) simp_all

lemma table_kept: "rx_discard n ctx = Some ctx' \<Longrightarrow> cx_transactions ctx' = cx_transactions ctx"
  by (auto simp: rx_discard_def bind_eq_Some_conv)

lemma rx_store_table: "rx_store bs ctx = Some ctx' \<Longrightarrow> cx_transactions ctx' = cx_transactions ctx"
  by (induction bs arbitrary: ctx) (auto simp: bind_eq_Some_conv split: if_split_asm)

lemma rx_step_balanced:
  assumes "quiet_app env log out" and "length (cx_transactions (fst s)) = UPROTO_MAX_TRANSACTIONS"
  shows "balanced log s (map_option snd (rx_step env s))"
proof (cases s)
  case (Pair ctx w)
  have same: "balanced log s (Some (c, w))" if "cx_transactions c = cx_transactions ctx" for c using that by (simp add: Pair owed_def outstanding_def)
  have act: "balanced log s (if err = UPROTO_OK then uproto_handle_frame env frame (c, w)
         else if err = UPROTO_ERR_CRC then uproto_fire_event env ''crc_error'' (c\<lparr>cx_stats := x\<rparr>, w) else Some (c, w))"
    if c: "cx_transactions c = cx_transactions ctx" for err frame c x
  proof -
    have "owed log (c, w) = owed log s" "owed log (c\<lparr>cx_stats := x\<rparr>, w) = owed log s" "length (cx_transactions c) = UPROTO_MAX_TRANSACTIONS"
      using c assms(2) by (simp_all add: Pair owed_def outstanding_def)
    then show ?thesis using c assms(2) balanced_from [OF _ _ handle_frame_balanced [OF assms(1)]] balanced_from [OF _ _ event_balanced [OF assms(1)]]
      by (intro balanced_if same) (simp_all add: Pair)
  qed
  have step: "balanced log s (map_option snd (if cx_rx_pos c < UPROTO_HEADER_SIZE then Some (False, c, w) else do {
        payload_len \<leftarrow> read_u16_le (cx_rx_buffer c) 12;
        if unat payload_len > UPROTO_MAX_PAYLOAD then do { ctx \<leftarrow> rx_discard 2 c; Some (True, ctx, w) }
        else if cx_rx_pos c < UPROTO_HEADER_SIZE + unat payload_len + 2 then Some (False, c, w)
        else do {
          (err, frame) \<leftarrow> uproto_decode_frame (cx_rx_buffer c) (UPROTO_HEADER_SIZE + unat payload_len + 2) blank_frame;
          (ctx, w) \<leftarrow> (if err = UPROTO_OK then uproto_handle_frame env frame (c, w)
             else if err = UPROTO_ERR_CRC then uproto_fire_event env ''crc_error'' (c\<lparr>cx_stats := (cx_stats c)\<lparr>st_crc_errors := st_crc_errors (cx_stats c) + 1\<rparr>\<rparr>, w)
             else Some (c, w));
          ctx \<leftarrow> rx_discard (UPROTO_HEADER_SIZE + unat payload_len + 2) ctx;
          Some (True, ctx, w) } }))"
    if c: "cx_transactions c = cx_transactions ctx" for c
  proof -
    have disc: "balanced log s (Option.bind (rx_discard n c') (\<lambda>c'. Some (c', w')))" if "balanced log s (Some (c', w'))" for c' w' n
      using that by (cases "rx_discard n c'") (auto dest: table_kept simp: owed_def outstanding_def)
    have disc': "balanced log s (case s' of (c', w') \<Rightarrow> Option.bind (rx_discard n c') (\<lambda>c'. Some (c', w')))"
      if "owed log s' = owed log s" "length (cx_transactions (fst s')) = length (cx_transactions (fst s))" for s' n
      using disc that by (cases s') simp
    show ?thesis
      unfolding map_option_bind if_distrib [of "map_option snd"] prod.case_distrib [of "map_option snd"] option.map snd_conv
      by (intro balanced_if balanced_bind [OF act [OF c]] disc disc' balanced_any same c balanced_prod)
  qed
  show ?thesis
    unfolding rx_step_def Pair prod.case Let_def
    by (intro step [unfolded Pair] balanced_map_if balanced_map_any balanced_map_opt; (unfold option.map snd_conv, rule same [unfolded Pair])?)
      (auto dest: table_kept split: if_split_asm)
qed

lemma process_rx_balanced:
  assumes "quiet_app env log out" and "length (cx_transactions (fst s)) = UPROTO_MAX_TRANSACTIONS"
  shows "balanced log s (uproto_process_rx_buffer env s)"
proof -
  have "quiet_app env log out \<longrightarrow> length (cx_transactions (fst s)) = UPROTO_MAX_TRANSACTIONS \<longrightarrow>
      owed log s' = owed log s \<and> length (cx_transactions (fst s')) = length (cx_transactions (fst s))"
    if "uproto_process_rx_buffer env s = Some s'" for s s'
    using that
  proof (induction rule: uproto_process_rx_buffer.raw_induct [rotated, consumes 1])
    case (1 rec env s s')
    from 1(2) obtain more s1 where st: "rx_step env s = Some (more, s1)" "(if more then rec env s1 else Some s1) = Some s'"
      by (cases "rx_step env s") (auto simp del: split_paired_Ex)
    then show ?case
      using 1(1) [of env s1 s'] rx_step_balanced [of env log out s] by (cases more) auto
  qed
  then show ?thesis using assms by (simp add: balanced_def del: split_paired_All)
qed

lemma on_rx_balanced:
  assumes "quiet_app env log out" and "length (cx_transactions (fst s)) = UPROTO_MAX_TRANSACTIONS"
  shows "balanced log s (uproto_on_rx_bytes env bs n s)"
proof (cases s)
  case (Pair ctx w)
  have "balanced log (ctx, w) (uproto_process_rx_buffer env (c, w))" if "rx_store b ctx = Some c" for b c
    using rx_store_table [OF that] assms(2) by (intro balanced_from [OF _ _ process_rx_balanced [OF assms(1)]]) (simp_all add: Pair owed_def outstanding_def)
  then show ?thesis unfolding uproto_on_rx_bytes_def Pair prod.case by (intro balanced_any)
qed

lemma slot_owes_retry: "slot_owes (t\<lparr>tr_retry_count := k, tr_last_tx_time := now\<rparr>) = slot_owes t"
  by (cases "tr_callback t") (simp_all add: slot_owes_def)

lemma tick_txn_balanced:
  assumes "quiet_app env log out" and "length (cx_transactions (fst s)) = UPROTO_MAX_TRANSACTIONS" and "i < UPROTO_MAX_TRANSACTIONS"
  shows "balanced log s (tick_txn env now i s)"
proof (cases s)
  case (Pair ctx w)
  let ?upd = "update_txn i (\<lambda>t. t\<lparr>tr_retry_count := tr_retry_count t + 1, tr_last_tx_time := now\<rparr>) ctx"
  have retry: "balanced log (ctx, w) (uproto_fire_event env e (?upd\<lparr>cx_stats := x\<rparr>, uproto_flush env ?upd w1))"
    if "env_write env f u d w = (r, w1)" for e x f u d r w1
  proof -
    have "outstanding (?upd\<lparr>cx_stats := x\<rparr>) = outstanding ctx"
      using outstanding_update [of i ctx "\<lambda>t. t\<lparr>tr_retry_count := tr_retry_count t + 1, tr_last_tx_time := now\<rparr>"] assms(2,3)
      by (simp add: Pair slot_owes_retry outstanding_def del: mset_concat)
    then show ?thesis using quiet_app_write [OF assms(1) that] quiet_app_flush [OF assms(1)]
      by (intro balanced_from [OF _ _ event_balanced [OF assms(1)]]) (simp_all add: owed_def)
  qed
  have out: "balanced log (ctx, w) (Option.bind (uproto_fire_event env e (ctx\<lparr>cx_stats := x\<rparr>, w)) (uproto_complete_transaction env i err d n))"
    if "tr_state (cx_transactions ctx ! i) = TXN_STATE_WAITING" for e x err d n
  proof -
    obtain w1 where w1: "uproto_fire_event env e (ctx\<lparr>cx_stats := x\<rparr>, w) = Some (ctx\<lparr>cx_stats := x\<rparr>, w1)" "log w1 = log w"
      using quiet_app_event [OF assms(1)] by blast
    have "balanced log (ctx\<lparr>cx_stats := x\<rparr>, w1) (uproto_complete_transaction env i err d n (ctx\<lparr>cx_stats := x\<rparr>, w1))"
      using that assms(2,3) by (intro complete_balanced [OF assms(1)]) (simp_all add: Pair)
    from balanced_from [OF _ _ this] show ?thesis using w1 by (simp add: owed_def outstanding_def)
  qed
  show ?thesis unfolding tick_txn_def Pair prod.case Let_def
    by (intro balanced_if balanced_any balanced_prod retry out) simp_all
qed

lemma tick_txns_balanced:
  assumes "quiet_app env log out"
  shows "length (cx_transactions (fst s)) = UPROTO_MAX_TRANSACTIONS \<Longrightarrow> \<forall>i \<in> set is. i < UPROTO_MAX_TRANSACTIONS \<Longrightarrow> balanced log s (tick_txns env now is s)"
proof (induction "is" arbitrary: s)
  case (Cons i "is")
  then show ?case by (auto intro!: balanced_bind [OF tick_txn_balanced [OF assms]] balanced_from [OF _ _ Cons.IH])
qed simp

text \<open>A request that was accepted is added to the account; a refused one is not.\<close>

definition accepted :: "uproto_error \<Rightarrow> fn_ptr option \<Rightarrow> user_ptr \<Rightarrow> (fn_ptr \<times> user_ptr) list" where
  "accepted err cb u = (if err = UPROTO_OK then (case cb of Some f \<Rightarrow> [(f, u)] | None \<Rightarrow> []) else [])"

lemma send_request_account:
  assumes "quiet_app env log out" and "length (cx_transactions ctx) = UPROTO_MAX_TRANSACTIONS"
    and "uproto_send_request env ty p n tmo rt cb u (ctx, w) = Some (err, ctx', w')"
  shows "owed log (ctx', w') = owed log (ctx, w) + mset (accepted err cb u) \<and> length (cx_transactions ctx') = length (cx_transactions ctx)"
proof (cases "n > UPROTO_MAX_PAYLOAD \<or> uproto_alloc_transaction ctx = None")
  case True
  then show ?thesis using assms(3) by (auto simp: uproto_send_request_def accepted_def split: if_split_asm)
next
  case False
  then obtain i where i: "uproto_alloc_transaction ctx = Some i" and n: "\<not> n > UPROTO_MAX_PAYLOAD" by auto
  let ?t = "cx_transactions ctx ! i"
  have free: "i < length (cx_transactions ctx)" "slot_owes ?t = []" using alloc_Some [OF i] assms(2) by (simp_all add: slot_owes_def)
  obtain d k where enc: "uproto_encode_frame (tr_tx_data ?t) UPROTO_FLAG_REQUEST ty (cx_next_txn_id ctx) (cx_local_seq ctx) 0 p n = Some (d, k)"
    using assms(3) n by (auto simp: uproto_send_request_def i bind_eq_Some_conv Let_def)
  obtain wr where wr: "po_write (cx_port ctx) = Some wr" using assms(3) n by (auto simp: uproto_send_request_def i enc bind_eq_Some_conv Let_def)
  obtain r w1 where w1: "env_write env wr (po_user (cx_port ctx)) (take k d) w = (r, w1)" by fastforce
  have upd: "outstanding (c\<lparr>cx_transactions := (cx_transactions ctx)[i := t]\<rparr>) = outstanding ctx + mset (slot_owes t)" for c t
    using owes_update [OF free(1), of slot_owes t] free(2) by (simp add: outstanding_def del: mset_concat)
  show ?thesis
  proof (cases "r = k")
    case False
    then show ?thesis using assms(3) n quiet_app_write [OF assms(1) w1]
      by (auto simp: uproto_send_request_def i enc wr w1 Let_def update_txn_def free(1) owed_def upd slot_owes_def accepted_def)
  next
    case True
    define c where "c = update_txn i (\<lambda>t. t\<lparr>tr_tx_data := d, tr_tx_len := k\<rparr>) (ctx\<lparr>cx_next_txn_id := cx_next_txn_id ctx + 1, cx_local_seq := cx_local_seq ctx + 1\<rparr>)"
    obtain t w2 where w2: "uproto_now env (c, uproto_flush env c w1) = (t, w2)" by fastforce
    have l: "log w2 = log w" using quiet_app_now [OF assms(1) w2] quiet_app_flush [OF assms(1)] quiet_app_write [OF assms(1) w1] by simp
    define x where "x = cx_transactions ctx' ! i"
    have x: "err = UPROTO_OK" "w' = w2" "tr_state x = TXN_STATE_WAITING" "tr_callback x = cb" "tr_user x = u" "cx_transactions ctx' = (cx_transactions ctx)[i := x]"
      using assms(3) n True w2 by (auto simp: x_def uproto_send_request_def i enc wr w1 Let_def c_def update_txn_def free(1))
    have "outstanding ctx' = outstanding ctx + mset (slot_owes x)" using upd [of x ctx] x(6) by (simp add: outstanding_def)
    then show ?thesis using x l by (simp add: owed_def accepted_def slot_owes_def split: option.split)
  qed
qed

lemma tick_balanced:
  assumes "quiet_app env log out" and "length (cx_transactions (fst s)) = UPROTO_MAX_TRANSACTIONS"
  shows "balanced log s (uproto_tick env s)"
proof (cases s)
  case (Pair ctx w)
  obtain now w1 where now: "uproto_now env (ctx, w) = (now, w1)" by fastforce
  have o: "owed log (ctx, w1) = owed log s" using quiet_app_now [OF assms(1) now] by (simp add: owed_def Pair)
  have hs: "balanced log (ctx, w1) (tick_handshake env now (ctx, w1))"
    unfolding tick_handshake_def prod.case
    by (intro balanced_if balanced_from [OF _ _ event_balanced [OF assms(1)]]) (simp_all add: owed_def outstanding_def)
  have tt: "balanced log (ctx, w1) (tick_txns env now [0..<UPROTO_MAX_TRANSACTIONS] s')"
    if "owed log s' = owed log (ctx, w1)" "length (cx_transactions (fst s')) = length (cx_transactions (fst (ctx, w1)))" for s'
    using that assms(2) by (intro balanced_from [OF _ _ tick_txns_balanced [OF assms(1)]]) (simp_all add: Pair)
  have hb: "balanced log (ctx, w1) (tick_heartbeat env now s')"
    if e: "owed log s' = owed log (ctx, w1)" "length (cx_transactions (fst s')) = length (cx_transactions (fst (ctx, w1)))" for s'
  proof (cases s')
    case p: (Pair c v)
    have "balanced log (ctx, w1) (map_option snd (uproto_send_request env ty None 0 tmo rt None u (c, v)))" for ty tmo rt u
      using send_request_account [OF assms(1), of c ty None 0 tmo rt None u v] e assms(2) by (auto simp: balanced_def p Pair accepted_def)
    then show ?thesis unfolding tick_heartbeat_def p prod.case using e p
      by (intro balanced_if balanced_bind_result) (auto split: prod.split)
  qed
  have "balanced log (ctx, w1) (uproto_tick env s)"
    unfolding uproto_tick_def Pair prod.case now Let_def by (intro balanced_bind [OF hs] balanced_bind [OF tt] hb) simp_all
  from balanced_from [OF o _ this] show ?thesis by (simp add: Pair)
qed

lemma start_handshake_balanced:
  assumes "quiet_app env log out" and "length (cx_transactions (fst s)) = UPROTO_MAX_TRANSACTIONS"
  shows "balanced log s (map_option snd (uproto_start_handshake env s))"
proof (cases s)
  case (Pair ctx w)
  obtain now w1 where now: "uproto_now env (ctx\<lparr>cx_state := UPROTO_STATE_HANDSHAKING\<rparr>, w) = (now, w1)" by fastforce
  let ?c = "ctx\<lparr>cx_state := UPROTO_STATE_HANDSHAKING, cx_handshake_start_time := now\<rparr>"
  have o: "owed log (?c, w1) = owed log s" using quiet_app_now [OF assms(1) now] by (simp add: owed_def outstanding_def Pair)
  have "balanced log s (map_option snd (uproto_send_request env ty None 0 tmo rt None u (?c, w1)))" for ty tmo rt u
    using send_request_account [OF assms(1), of ?c ty None 0 tmo rt None u w1] o assms(2) by (auto simp: balanced_def Pair accepted_def)
  then show ?thesis unfolding uproto_start_handshake_def Pair prod.case Let_def now by (intro balanced_map_if) (simp_all add: Pair)
qed

section \<open>Sequences of operations\<close>

text \<open>What an application and its port do with an engine, one call after the other; the run collects the callbacks of the accepted requests.\<close>

datatype uproto_op =
    Request u8 "u8 list option" nat u32 u8 "fn_ptr option" user_ptr
  | Response u16 u8 "u8 list option" nat
  | Notify u8 "u8 list option" nat
  | Handshake
  | Receive "u8 list"
  | Tick

definition perform :: "'w uproto_env \<Rightarrow> uproto_op \<Rightarrow> 'w uproto_st \<Rightarrow> ((fn_ptr \<times> user_ptr) list \<times> 'w uproto_st) option" where
  "perform env cmd s = (case cmd of
     Request ty p n tmo rt cb u \<Rightarrow> map_option (\<lambda>(err, s). (accepted err cb u, s)) (uproto_send_request env ty p n tmo rt cb u s)
   | Response tid ty p n \<Rightarrow> map_option (\<lambda>(err, s). ([], s)) (uproto_send_response env tid ty p n s)
   | Notify ty p n \<Rightarrow> map_option (\<lambda>(err, s). ([], s)) (uproto_send_notify env ty p n s)
   | Handshake \<Rightarrow> map_option (\<lambda>(err, s). ([], s)) (uproto_start_handshake env s)
   | Receive bs \<Rightarrow> map_option (\<lambda>s. ([], s)) (uproto_on_rx_bytes env bs (length bs) s)
   | Tick \<Rightarrow> map_option (\<lambda>s. ([], s)) (uproto_tick env s))"

fun run_ops :: "'w uproto_env \<Rightarrow> uproto_op list \<Rightarrow> 'w uproto_st \<Rightarrow> ((fn_ptr \<times> user_ptr) list \<times> 'w uproto_st) option" where
  "run_ops env [] s = Some ([], s)"
| "run_ops env (cmd # cmds) s = do { (a, s) \<leftarrow> perform env cmd s; (as, s) \<leftarrow> run_ops env cmds s; Some (a @ as, s) }"

text \<open>The payload pointer of a call points to at least the announced number of bytes.\<close>

fun op_ok :: "uproto_op \<Rightarrow> bool" where
  "op_ok (Request ty p n tmo rt cb u) = (case p of Some d \<Rightarrow> n \<le> length d | None \<Rightarrow> True)"
| "op_ok (Response tid ty p n) = (case p of Some d \<Rightarrow> n \<le> length d | None \<Rightarrow> True)"
| "op_ok (Notify ty p n) = (case p of Some d \<Rightarrow> n \<le> length d | None \<Rightarrow> True)"
| "op_ok _ = True"

lemma quiet_callbacks:
  assumes "quiet_app env log out"
  shows "uproto_callbacks env (\<lambda>_. True)"
proof
  have g: "keeps (\<lambda>_. True) h \<and> rx_free h" if "\<forall>ctx w. h (ctx, w) = Some (ctx, g w)" for h :: "'a uproto_st \<Rightarrow> 'a uproto_st option" and g
    using that by (simp add: keeps_def rx_free_def)
  show "keeps (\<lambda>_. True) (env_event env f ev u)" "rx_free (env_event env f ev u)" for f ev u
    using assms g unfolding quiet_app_def by metis+
  show "keeps (\<lambda>_. True) (env_txn_callback env f u err d n)" "rx_free (env_txn_callback env f u err d n)" for f u err d n
    using assms g unfolding quiet_app_def by metis+
  show "keeps (\<lambda>_. True) (env_msg_handler env f tid d n u)" "rx_free (env_msg_handler env f tid d n u)" for f tid d n u
    using assms g unfolding quiet_app_def by metis+
qed simp_all

lemma safe_balanced:
  assumes "safe (\<lambda>_. True) ctx r" and "balanced log (ctx, w) r"
  shows "\<exists>ctx' w'. r = Some (ctx', w') \<and> wf_ctx ctx' \<and> owed log (ctx', w') = owed log (ctx, w)"
  using assms by (auto simp: safe_def)

lemma safe_balanced_result:
  assumes "safe (\<lambda>_. True) ctx (map_option snd r)" and "balanced log (ctx, w) (map_option snd r)"
  shows "\<exists>e ctx' w'. r = Some (e, ctx', w') \<and> wf_ctx ctx' \<and> owed log (ctx', w') = owed log (ctx, w)"
  using safe_balanced [OF assms] by auto

lemma perform_account:
  assumes "quiet_app env log out" and "wf_ctx ctx" and "op_ok cmd"
  shows "\<exists>a ctx' w'. perform env cmd (ctx, w) = Some (a, ctx', w') \<and> wf_ctx ctx' \<and> owed log (ctx', w') = owed log (ctx, w) + mset a"
proof -
  note cb = quiet_callbacks [OF assms(1)]
  have len: "length (cx_transactions (fst (ctx, w))) = UPROTO_MAX_TRANSACTIONS" using assms(2) by (simp add: wf_ctx_def)
  have frame: "\<exists>e ctx' w'. uproto_send_frame env fl ty tid p n (ctx, w) = Some (e, ctx', w') \<and> wf_ctx ctx' \<and> owed log (ctx', w') = owed log (ctx, w)"
    if "n \<le> UPROTO_MAX_PAYLOAD" "case p of Some d \<Rightarrow> n \<le> length d | None \<Rightarrow> True" for fl ty tid p n
    using uproto_callbacks.send_frame_safe [OF cb, where n = n and payload = p and c = ctx and w = w and ctx = ctx and flags = fl and type = ty and tid = tid] that assms(2)
    by (intro safe_balanced_result send_frame_balanced [OF assms(1)]) (auto split: option.split_asm)
  show ?thesis
  proof (cases cmd)
    case (Request ty p n tmo rt cb u)
    obtain e c w' where r: "uproto_send_request env ty p n tmo rt cb u (ctx, w) = Some (e, c, w')" "wf_ctx c"
      using uproto_callbacks.send_request_safe [OF quiet_callbacks [OF assms(1)], where payload = p and n = n and c = ctx and w = w and ctx = ctx and type = ty and timeout = tmo and retries = rt and cb = cb and user = u] assms(2,3) Request
      by (auto simp: safe_def split: option.split_asm)
    then show ?thesis using send_request_account [OF assms(1) _ r(1)] len by (simp add: perform_def Request)
  next
    case (Response tid ty p n)
    then show ?thesis using frame [of n p UPROTO_FLAG_RESPONSE ty tid] assms(2,3) by (auto simp: perform_def uproto_send_response_def)
  next
    case (Notify ty p n)
    then show ?thesis using frame [of n p 0 ty 0] assms(2,3) by (auto simp: perform_def uproto_send_notify_def)
  next
    case Handshake
    then show ?thesis using safe_balanced_result [OF uproto_callbacks.start_handshake_safe [OF cb assms(2)] start_handshake_balanced [OF assms(1) len]]
      by (auto simp: perform_def)
  next
    case (Receive bs)
    then show ?thesis using safe_balanced [OF uproto_callbacks.on_rx_bytes_safe [OF cb assms(2) _ order_refl] on_rx_balanced [OF assms(1) len], of bs]
      by (auto simp: perform_def)
  next
    case Tick
    then show ?thesis using safe_balanced [OF uproto_callbacks.tick_safe [OF cb assms(2)] tick_balanced [OF assms(1) len]] by (auto simp: perform_def)
  qed
qed

lemma run_ops_account:
  assumes "quiet_app env log out"
  shows "wf_ctx ctx \<Longrightarrow> list_all op_ok cmds \<Longrightarrow>
    \<exists>a ctx' w'. run_ops env cmds (ctx, w) = Some (a, ctx', w') \<and> wf_ctx ctx' \<and> owed log (ctx', w') = owed log (ctx, w) + mset a"
proof (induction cmds arbitrary: ctx w)
  case (Cons cmd cmds)
  obtain a c v where p: "perform env cmd (ctx, w) = Some (a, c, v)" "wf_ctx c" "owed log (c, v) = owed log (ctx, w) + mset a"
    using perform_account [OF assms Cons.prems(1), of cmd w] Cons.prems(2) by auto
  from Cons.IH [OF p(2), of v] Cons.prems(2) p show ?case by auto
qed simp

section \<open>Claims\<close>

text \<open>
  C20. One call of the tick refines the table of slots: with quiet callbacks and no heartbeat, every slot becomes \<open>tick_slot\<close> of itself, whatever the others hold; the frames repeated are those of the due slots, in the order of the table.
\<close>

theorem tick_refines_slots:
  fixes w :: 'w
  assumes "quiet_app env log out" and "wf_ctx ctx" and "cf_heartbeat_interval_ms (cx_config ctx) = 0"
  defines "now \<equiv> fst (uproto_now env (ctx, w))"
  shows "\<exists>ctx' w'. uproto_tick env (ctx, w) = Some (ctx', w') \<and> cx_transactions ctx' = map (tick_slot now) (cx_transactions ctx) \<and>
    log w' = log w @ concat (map (slot_completes now) (cx_transactions ctx)) \<and> out w' = out w @ concat (map (slot_repeats now) (cx_transactions ctx))"
  using tick_table [OF assms(1-3), of w] unfolding now_def by blast

text \<open>
  C19. A request that nobody answers, the only one outstanding: over any number of ticks at least a time-out apart, its frame is repeated once per tick as long as retries are left, and exactly then its callback is told \<^verbatim>\<open>TIMEOUT\<close>, once, and its slot is free.
\<close>

theorem request_gives_up:
  assumes "quiet_app env log out" and "\<forall>v \<in> set vs. \<forall>w. log (v w) = log w \<and> out (v w) = out w"
    and "wf_ctx ctx" and "cf_heartbeat_interval_ms (cx_config ctx) = 0" and "sole i t ctx"
    and "tr_state t = TXN_STATE_WAITING" and "tr_callback t = Some f" and "tr_retry_count t \<le> tr_max_retries t"
    and "spaced (tr_timeout_ms t) (tr_last_tx_time t) (tick_times env vs (ctx, w))"
  defines "m \<equiv> unat (tr_max_retries t) - unat (tr_retry_count t)"
  shows "\<exists>ctx' w'. ticks env vs (ctx, w) = Some (ctx', w') \<and>
    out w' = out w @ replicate (min (length vs) m) (take (tr_tx_len t) (tr_tx_data t)) \<and>
    log w' = log w @ (if length vs > m then [(f, tr_user t, UPROTO_ERR_TIMEOUT)] else []) \<and>
    (tr_state (cx_transactions ctx' ! i) = TXN_STATE_FREE \<longleftrightarrow> length vs > m)"
  unfolding m_def by (rule ticks_unanswered [OF assms(1-9)])

text \<open>
  C18. No request is lost and none is answered twice: whatever sequence of requests, other frames, received bytes and ticks an engine goes through from its initialisation, it returns, and the callbacks told
  an outcome together with those of the slots in use are exactly the callbacks of the accepted requests.
\<close>

theorem requests_conserved:
  assumes "quiet_app env log out" and "po_write port \<noteq> None" and "log w = []" and "list_all op_ok cmds"
  shows "\<exists>a ctx' w'. run_ops env cmds (uproto_init port time config, w) = Some (a, ctx', w') \<and> told (log w') + outstanding ctx' = mset a"
proof -
  have wf: "wf_ctx (uproto_init port time config)" using assms(2) by (simp add: wf_ctx_def uproto_init_def wf_txn_def zero_transaction_def list_all_length)
  have "owed log (uproto_init port time config, w) = {#}"
    using assms(3) by (simp add: owed_def outstanding_def uproto_init_def slot_owes_def zero_transaction_def)
  then show ?thesis using run_ops_account [OF assms(1) wf assms(4), of w] by (auto simp: owed_def)
qed

section \<open>Witnesses\<close>

text \<open>A bench: a clock that is set by hand, the completions, and the frames written.\<close>

type_synonym bench = "u32 \<times> completion list \<times> u8 list list"

definition bench_env :: "bench uproto_env" where
  "bench_env = \<lparr>env_write = (\<lambda>f u d (t, l, fs). (length d, t, l, fs @ [d])), env_flush = (\<lambda>f u w. w), env_now = (\<lambda>f u w. (fst w, w)),
     env_event = (\<lambda>f ev u s. Some s), env_txn_callback = (\<lambda>f u err d n (ctx, t, l, fs). Some (ctx, t, l @ [(f, u, err)], fs)),
     env_msg_handler = (\<lambda>f tid d n u s. Some s)\<rparr>"

definition bench_log :: "bench \<Rightarrow> completion list" where
  "bench_log w = fst (snd w)"

definition bench_out :: "bench \<Rightarrow> u8 list list" where
  "bench_out w = snd (snd w)"

definition pass_time :: "bench \<Rightarrow> bench" where
  "pass_time w = (fst w + 100, snd w)"

definition bench_port :: uproto_port_ops where
  "bench_port = \<lparr>po_write = Some 0, po_flush = None, po_get_mtu = None, po_user = 0\<rparr>"

definition bench_time :: uproto_time_ops where
  "bench_time = \<lparr>ti_now_ms = Some 0, ti_user = 0\<rparr>"

definition waiting_txn :: uproto_transaction where
  "waiting_txn = zero_transaction\<lparr>tr_state := TXN_STATE_WAITING, tr_max_retries := 2, tr_timeout_ms := 100, tr_callback := Some 7, tr_user := 9, tr_tx_len := 3\<rparr>"

definition bench_ctx :: uproto_context where
  "bench_ctx = (uproto_init bench_port bench_time None)\<lparr>cx_transactions := waiting_txn # replicate 7 zero_transaction\<rparr>"

lemma bench_quiet: "quiet_app bench_env bench_log bench_out"
proof -
  have "\<exists>g. \<forall>ctx w. env_txn_callback bench_env f u err d n (ctx, w) = Some (ctx, g w) \<and> bench_log (g w) = bench_log w @ [(f, u, err)] \<and> bench_out (g w) = bench_out w" for f u err d n
    by (rule exI [of _ "\<lambda>(t, l, fs). (t, l @ [(f, u, err)], fs)"]) (auto simp: bench_env_def bench_log_def bench_out_def)
  moreover have "\<exists>g. \<forall>ctx w. env_event bench_env f ev u (ctx, w) = Some (ctx, g w) \<and> bench_log (g w) = bench_log w \<and> bench_out (g w) = bench_out w" for f ev u
    by (rule exI [of _ "\<lambda>w. w"]) (simp add: bench_env_def)
  moreover have "\<exists>g. \<forall>ctx w. env_msg_handler bench_env f tid d n u (ctx, w) = Some (ctx, g w) \<and> bench_log (g w) = bench_log w \<and> bench_out (g w) = bench_out w" for f tid d n u
    by (rule exI [of _ "\<lambda>w. w"]) (simp add: bench_env_def)
  ultimately show ?thesis by (auto simp: quiet_app_def) (auto simp: bench_env_def bench_log_def bench_out_def)
qed

lemma bench_wf: "wf_ctx bench_ctx"
  by (simp add: wf_ctx_def wf_txn_def bench_ctx_def uproto_init_def bench_port_def waiting_txn_def zero_transaction_def list_all_iff)

lemma bench_sole: "sole 0 waiting_txn bench_ctx"
  by (auto simp: sole_def bench_ctx_def zero_transaction_def nth_Cons split: nat.split)

lemma bench_config: "cf_heartbeat_interval_ms (cx_config bench_ctx) = 0"
  by (simp add: bench_ctx_def uproto_init_def default_config_def)

lemma bench_clock: "fst (uproto_now bench_env (bench_ctx, w)) = fst w"
  by (simp add: bench_ctx_def uproto_now_def uproto_init_def bench_time_def bench_env_def)

theorem tick_refines_slots_witness:
  "\<exists>ctx' w'. uproto_tick bench_env (bench_ctx, 100, [], []) = Some (ctx', w') \<and>
     cx_transactions ctx' = waiting_txn\<lparr>tr_retry_count := 1, tr_last_tx_time := 100\<rparr> # replicate 7 zero_transaction \<and> bench_log w' = [] \<and> bench_out w' = [[0, 0, 0]]"
proof -
  have ts: "cx_transactions bench_ctx = waiting_txn # replicate 7 zero_transaction" by (simp add: bench_ctx_def)
  have f: "tick_slot 100 zero_transaction = zero_transaction" "slot_repeats 100 zero_transaction = []" "slot_completes 100 zero_transaction = []"
    by (simp_all add: tick_slot_free zero_transaction_def)
  have z: "concat (replicate 7 []) = []" by simp
  have w: "tick_slot 100 waiting_txn = waiting_txn\<lparr>tr_retry_count := 1, tr_last_tx_time := 100\<rparr>" "slot_repeats 100 waiting_txn = [[0, 0, 0]]" "slot_completes 100 waiting_txn = []"
    by (simp_all add: tick_slot_def slot_repeats_def slot_completes_def due_def waiting_txn_def zero_transaction_def eval_nat_numeral)
  show ?thesis using tick_refines_slots [OF bench_quiet bench_wf bench_config, of "(100, [], [])"]
    unfolding bench_clock fst_conv ts by (simp add: f w bench_log_def bench_out_def)
qed

theorem request_gives_up_witness:
  "\<exists>ctx' w'. ticks bench_env [pass_time, pass_time, pass_time] (bench_ctx, 0, [], []) = Some (ctx', w') \<and>
     bench_out w' = [[0, 0, 0], [0, 0, 0]] \<and> bench_log w' = [(7, 9, UPROTO_ERR_TIMEOUT)] \<and> tr_state (cx_transactions ctx' ! 0) = TXN_STATE_FREE"
proof -
  have t: "tick_times bench_env [pass_time, pass_time, pass_time] (bench_ctx, 0, [], []) = [100, 200, 300]" by code_simp
  have s: "tr_state waiting_txn = TXN_STATE_WAITING" "tr_callback waiting_txn = Some 7" "tr_retry_count waiting_txn \<le> tr_max_retries waiting_txn"
    "tr_timeout_ms waiting_txn = 100" "tr_last_tx_time waiting_txn = 0" "unat (tr_max_retries waiting_txn) - unat (tr_retry_count waiting_txn) = 2" "tr_user waiting_txn = 9"
    by (simp_all add: waiting_txn_def zero_transaction_def)
  have d: "take (tr_tx_len waiting_txn) (tr_tx_data waiting_txn) = [0, 0, 0]" by (simp add: waiting_txn_def zero_transaction_def numeral_3_eq_3)
  have p: "\<forall>v \<in> set [pass_time, pass_time, pass_time]. \<forall>w. bench_log (v w) = bench_log w \<and> bench_out (v w) = bench_out w"
    by (simp add: pass_time_def bench_log_def bench_out_def)
  from request_gives_up [OF bench_quiet p bench_wf bench_config bench_sole s(1-3), of "(0, [], [])", unfolded t s d]
  show ?thesis by (simp add: bench_log_def bench_out_def eval_nat_numeral)
qed

text \<open>Two requests, ticks, and noise on the line.\<close>

theorem requests_conserved_witness:
  "\<exists>a ctx' w'. run_ops bench_env [Request 16 None 0 100 1 (Some 7) 9, Tick, Request 17 None 0 100 1 (Some 8) 9, Receive [0xAA, 0x55], Tick]
      (uproto_init bench_port bench_time None, 0, [], []) = Some (a, ctx', w') \<and> told (bench_log w') + outstanding ctx' = mset a"
  by (rule requests_conserved [OF bench_quiet]) (simp_all add: bench_port_def bench_log_def)

end
