(* ===== verification/Matrices.thy ===== *)
theory Matrices
  imports Target_Geometry
begin

text \<open>
  Vectors and matrices of any size, for the Kalman filter and the solver of the planner: a vector is the list of its components, a matrix the list of its rows, as the
  programs read them with Eigen. The shapes are \<open>is_mat\<close>; the lemmas are the laws of the dot product, of the application to a vector and of the transpose, from which
  quadratic forms are computed without components.
\<close>

section \<open>Operations\<close>

type_synonym 'k vec = "'k list"
type_synonym 'k mat = "'k list list"

definition vdot :: "('k :: linordered_field) vec \<Rightarrow> 'k vec \<Rightarrow> 'k" where
  "vdot x y = sum_list (map2 (*) x y)"

definition vec_add :: "('k :: linordered_field) vec \<Rightarrow> 'k vec \<Rightarrow> 'k vec" where
  "vec_add x y = map2 (+) x y"

definition vec_sub :: "('k :: linordered_field) vec \<Rightarrow> 'k vec \<Rightarrow> 'k vec" where
  "vec_sub x y = map2 (-) x y"

definition vec_scale :: "'k :: linordered_field \<Rightarrow> 'k vec \<Rightarrow> 'k vec" where
  "vec_scale c x = map (\<lambda>a. c * a) x"

definition mat_app :: "('k :: linordered_field) mat \<Rightarrow> 'k vec \<Rightarrow> 'k vec" where
  "mat_app A x = map (\<lambda>row. vdot row x) A"

definition mat_add :: "('k :: linordered_field) mat \<Rightarrow> 'k mat \<Rightarrow> 'k mat" where
  "mat_add A B = map2 vec_add A B"

definition mat_sub :: "('k :: linordered_field) mat \<Rightarrow> 'k mat \<Rightarrow> 'k mat" where
  "mat_sub A B = map2 vec_sub A B"

definition mat_scale :: "'k :: linordered_field \<Rightarrow> 'k mat \<Rightarrow> 'k mat" where
  "mat_scale c A = map (vec_scale c) A"

definition mat_transpose :: "'k mat \<Rightarrow> 'k mat" where
  "mat_transpose A = map (\<lambda>j. map (\<lambda>row. row ! j) A) [0..<length (hd A)]"

definition mat_diag :: "('k :: linordered_field) vec \<Rightarrow> 'k mat" where
  "mat_diag d = map (\<lambda>i. map (\<lambda>j. if i = j then d ! i else 0) [0..<length d]) [0..<length d]"

definition mat_identity :: "nat \<Rightarrow> ('k :: linordered_field) mat" where
  "mat_identity n = mat_diag (replicate n 1)"

definition mat_zero :: "nat \<Rightarrow> nat \<Rightarrow> ('k :: linordered_field) mat" where
  "mat_zero r c = replicate r (replicate c 0)"

definition is_mat :: "nat \<Rightarrow> nat \<Rightarrow> 'k mat \<Rightarrow> bool" where
  "is_mat r c A \<longleftrightarrow> length A = r \<and> (\<forall>row \<in> set A. length row = c)"

section \<open>Shapes and components\<close>

lemma vec_lengths [simp]:
  "length (vec_add x y) = min (length x) (length y)" "length (vec_sub x y) = min (length x) (length y)"
  "length (vec_scale c x) = length x" "length (mat_app A x) = length A"
  by (simp_all add: vec_add_def vec_sub_def vec_scale_def mat_app_def)

lemma vec_nths [simp]:
  "i < length x \<Longrightarrow> i < length y \<Longrightarrow> vec_add x y ! i = x ! i + y ! i"
  "i < length x \<Longrightarrow> i < length y \<Longrightarrow> vec_sub x y ! i = x ! i - y ! i"
  "i < length x \<Longrightarrow> vec_scale c x ! i = c * x ! i" "i < length A \<Longrightarrow> mat_app A x ! i = vdot (A ! i) x"
  by (simp_all add: vec_add_def vec_sub_def vec_scale_def mat_app_def)

lemma is_mat_row: "is_mat r c A \<Longrightarrow> i < r \<Longrightarrow> length (A ! i) = c"
  by (auto simp: is_mat_def)

lemma is_mat_length: "is_mat r c A \<Longrightarrow> length A = r"
  by (simp add: is_mat_def)

lemma is_mat_hd: "is_mat r c A \<Longrightarrow> 0 < r \<Longrightarrow> length (hd A) = c"
  by (cases A) (auto simp: is_mat_def)

lemma is_matI: "length A = r \<Longrightarrow> (\<And>i. i < r \<Longrightarrow> length (A ! i) = c) \<Longrightarrow> is_mat r c A"
  by (auto simp: is_mat_def in_set_conv_nth)

lemma vdot_sum: "length x = n \<Longrightarrow> length y = n \<Longrightarrow> vdot x y = (\<Sum>i < n. x ! i * y ! i)"
  by (simp add: vdot_def sum_list_sum_nth atLeast0LessThan)

lemma mat_transpose_shape: "is_mat r c A \<Longrightarrow> 0 < r \<Longrightarrow> is_mat c r (mat_transpose A)"
  by (auto simp: is_mat_def mat_transpose_def hd_conv_nth)

lemma mat_transpose_nth: "is_mat r c A \<Longrightarrow> i < r \<Longrightarrow> j < c \<Longrightarrow> mat_transpose A ! j ! i = A ! i ! j"
  using is_mat_hd [of r c A] by (simp add: mat_transpose_def is_mat_length)

lemma mat_mul_shape: "is_mat r k A \<Longrightarrow> is_mat k c B \<Longrightarrow> 0 < k \<Longrightarrow> is_mat r c (mat_mul A B)"
  using is_mat_hd [of k c B] by (auto simp: is_mat_def mat_mul_def)

lemma mat_mul_nth: "is_mat r k A \<Longrightarrow> is_mat k c B \<Longrightarrow> 0 < k \<Longrightarrow> i < r \<Longrightarrow> j < c \<Longrightarrow> mat_mul A B ! i ! j = (\<Sum>l < k. A ! i ! l * B ! l ! j)"
  using is_mat_hd [of k c B] by (simp add: mat_mul_def is_mat_length is_mat_row interv_sum_list_conv_sum_set_nat atLeast0LessThan)

lemma mat_add_shape: "is_mat r c A \<Longrightarrow> is_mat r c B \<Longrightarrow> is_mat r c (mat_add A B)"
  by (intro is_matI) (simp_all add: mat_add_def is_mat_length is_mat_row)

lemma mat_sub_shape: "is_mat r c A \<Longrightarrow> is_mat r c B \<Longrightarrow> is_mat r c (mat_sub A B)"
  by (intro is_matI) (simp_all add: mat_sub_def is_mat_length is_mat_row)

lemma mat_scale_shape: "is_mat r c A \<Longrightarrow> is_mat r c (mat_scale k A)"
  by (simp add: is_mat_def mat_scale_def)

lemma mat_diag_shape: "length d = n \<Longrightarrow> is_mat n n (mat_diag d)"
  by (auto simp: is_mat_def mat_diag_def)

lemma mat_identity_shape: "is_mat n n (mat_identity n)"
  by (simp add: mat_identity_def mat_diag_shape)

lemma mat_zero_shape: "is_mat r c (mat_zero r c)"
  by (auto simp: is_mat_def mat_zero_def)

lemmas mat_shapes = mat_transpose_shape mat_mul_shape mat_add_shape mat_sub_shape mat_scale_shape mat_diag_shape mat_identity_shape mat_zero_shape

section \<open>Laws\<close>

lemma vdot_commute: "vdot x y = vdot y x"
  by (induction x y rule: list_induct2') (simp_all add: vdot_def mult.commute)

lemma vdot_add: "length y = length x \<Longrightarrow> length z = length x \<Longrightarrow> vdot x (vec_add y z) = vdot x y + vdot x z"
  by (simp add: vdot_sum [where n = "length x"] sum.distrib algebra_simps)

lemma vdot_sub: "length y = length x \<Longrightarrow> length z = length x \<Longrightarrow> vdot x (vec_sub y z) = vdot x y - vdot x z"
  by (simp add: vdot_sum [where n = "length x"] sum_subtractf algebra_simps)

lemma vdot_scale: "length y = length x \<Longrightarrow> vdot x (vec_scale c y) = c * vdot x y"
  by (simp add: vdot_sum [where n = "length x"] sum_distrib_left algebra_simps)

lemma vdot_add_left: "length y = length x \<Longrightarrow> length z = length x \<Longrightarrow> vdot (vec_add y z) x = vdot y x + vdot z x"
  by (metis vdot_add vdot_commute)

lemma vdot_sub_left: "length y = length x \<Longrightarrow> length z = length x \<Longrightarrow> vdot (vec_sub y z) x = vdot y x - vdot z x"
  by (metis vdot_sub vdot_commute)

lemma vdot_scale_left: "length y = length x \<Longrightarrow> vdot (vec_scale c y) x = c * vdot y x"
  by (metis vdot_scale vdot_commute)

lemma vdot_square_nonneg: "0 \<le> vdot x x"
  by (simp add: vdot_sum [where n = "length x"] sum_nonneg)

lemma mat_app_add: "is_mat r c A \<Longrightarrow> length x = c \<Longrightarrow> length y = c \<Longrightarrow> mat_app A (vec_add x y) = vec_add (mat_app A x) (mat_app A y)"
  by (rule nth_equalityI) (simp_all add: is_mat_length is_mat_row vdot_add)

lemma mat_app_sub: "is_mat r c A \<Longrightarrow> length x = c \<Longrightarrow> length y = c \<Longrightarrow> mat_app A (vec_sub x y) = vec_sub (mat_app A x) (mat_app A y)"
  by (rule nth_equalityI) (simp_all add: is_mat_length is_mat_row vdot_sub)

lemma mat_app_scale: "is_mat r c A \<Longrightarrow> length x = c \<Longrightarrow> mat_app A (vec_scale k x) = vec_scale k (mat_app A x)"
  by (rule nth_equalityI) (simp_all add: is_mat_length is_mat_row vdot_scale)

lemma mat_add_app: "is_mat r c A \<Longrightarrow> is_mat r c B \<Longrightarrow> length x = c \<Longrightarrow> mat_app (mat_add A B) x = vec_add (mat_app A x) (mat_app B x)"
  by (rule nth_equalityI) (simp_all add: mat_add_def is_mat_length is_mat_row vdot_add_left)

lemma mat_sub_app: "is_mat r c A \<Longrightarrow> is_mat r c B \<Longrightarrow> length x = c \<Longrightarrow> mat_app (mat_sub A B) x = vec_sub (mat_app A x) (mat_app B x)"
  by (rule nth_equalityI) (simp_all add: mat_sub_def is_mat_length is_mat_row vdot_sub_left)

lemma mat_mul_app:
  assumes "is_mat r k A" "is_mat k c B" "0 < k" "length x = c"
  shows "mat_app (mat_mul A B) x = mat_app A (mat_app B x)"
proof (rule nth_equalityI)
  note sh = mat_mul_shape [OF assms(1-3)]
  show "length (mat_app (mat_mul A B) x) = length (mat_app A (mat_app B x))" using sh assms(1) by (simp add: is_mat_length)
  fix i assume "i < length (mat_app (mat_mul A B) x)"
  then have i: "i < r" using sh by (simp add: is_mat_length)
  have "vdot (mat_mul A B ! i) x = (\<Sum>j < c. (\<Sum>l < k. A ! i ! l * B ! l ! j) * x ! j)"
    using assms i by (simp add: vdot_sum [OF is_mat_row [OF sh i]] mat_mul_nth)
  also have "\<dots> = (\<Sum>l < k. A ! i ! l * (\<Sum>j < c. B ! l ! j * x ! j))"
    unfolding sum_distrib_left sum_distrib_right by (subst sum.swap) (simp add: mult.assoc)
  also have "\<dots> = vdot (A ! i) (mat_app B x)"
    using assms i by (simp add: vdot_sum [where n = k] vdot_sum [where n = c] is_mat_row is_mat_length)
  finally show "mat_app (mat_mul A B) x ! i = mat_app A (mat_app B x) ! i" using i sh assms(1) by (simp add: is_mat_length)
qed

lemma vdot_adjoint:
  assumes "is_mat r c A" "0 < r" "length x = c" "length y = r"
  shows "vdot (mat_app A x) y = vdot x (mat_app (mat_transpose A) y)"
proof -
  note sh = mat_transpose_shape [OF assms(1,2)]
  have "vdot (mat_app A x) y = (\<Sum>i < r. (\<Sum>j < c. A ! i ! j * x ! j) * y ! i)"
    using assms by (simp add: vdot_sum [where n = r] vdot_sum [where n = c] is_mat_length is_mat_row)
  also have "\<dots> = (\<Sum>j < c. x ! j * (\<Sum>i < r. A ! i ! j * y ! i))"
    unfolding sum_distrib_left sum_distrib_right by (subst sum.swap) (simp add: mult_ac)
  also have "\<dots> = vdot x (mat_app (mat_transpose A) y)"
    using assms by (simp add: vdot_sum [where n = c] vdot_sum [OF is_mat_row [OF sh]] is_mat_length [OF sh] mat_transpose_nth)
  finally show ?thesis .
qed

lemma mat_transpose_twice:
  assumes "is_mat r c A" "0 < r" "0 < c"
  shows "mat_transpose (mat_transpose A) = A"
proof -
  note t = mat_transpose_shape [OF assms(1,2)] and tt = mat_transpose_shape [OF mat_transpose_shape [OF assms(1,2)] assms(3)]
  show ?thesis
    using assms by (intro nth_equalityI) (simp_all add: is_mat_length [OF tt] is_mat_row [OF tt] is_mat_length is_mat_row mat_transpose_nth [OF t] mat_transpose_nth)
qed

lemma mat_identity_app: "length x = n \<Longrightarrow> mat_app (mat_identity n) x = x"
proof (rule nth_equalityI)
  fix i assume "length x = n" "i < length (mat_app (mat_identity n) x)"
  then have "i < n" "length x = n" by (simp_all add: mat_identity_def mat_diag_def)
  then show "mat_app (mat_identity n) x ! i = x ! i"
    by (simp add: mat_identity_def mat_diag_def vdot_sum [where n = n] if_distrib [of "\<lambda>a. a * _"] sum.delta cong: if_cong)
qed (simp add: mat_identity_def mat_diag_def)

section \<open>Symmetric and positive semidefinite matrices\<close>

definition symmetric :: "nat \<Rightarrow> ('k :: linordered_field) mat \<Rightarrow> bool" where
  "symmetric n P \<longleftrightarrow> is_mat n n P \<and> (\<forall>i < n. \<forall>j < n. P ! i ! j = P ! j ! i)"

definition psd :: "nat \<Rightarrow> ('k :: linordered_field) mat \<Rightarrow> bool" where
  "psd n P \<longleftrightarrow> symmetric n P \<and> (\<forall>x. length x = n \<longrightarrow> 0 \<le> vdot x (mat_app P x))"

lemma symmetric_transpose: "symmetric n P \<Longrightarrow> 0 < n \<Longrightarrow> mat_transpose P = P"
proof (rule nth_equalityI)
  assume s: "symmetric n P" "0 < n"
  then have m: "is_mat n n P" by (simp add: symmetric_def)
  show "length (mat_transpose P) = length P" using mat_transpose_shape [OF m s(2)] m by (simp add: is_mat_length)
  fix i assume "i < length (mat_transpose P)"
  then have i: "i < n" using mat_transpose_shape [OF m s(2)] by (simp add: is_mat_length)
  show "mat_transpose P ! i = P ! i"
    using i m s is_mat_row [OF mat_transpose_shape [OF m s(2)] i] by (intro nth_equalityI) (simp_all add: is_mat_row mat_transpose_nth symmetric_def)
qed

lemma vdot_symmetric: "symmetric n P \<Longrightarrow> 0 < n \<Longrightarrow> length x = n \<Longrightarrow> length y = n \<Longrightarrow> vdot (mat_app P x) y = vdot x (mat_app P y)"
  using vdot_adjoint [of n n P x y] symmetric_transpose by (metis symmetric_def)

text \<open>A unit vector reads a component.\<close>

lemma vdot_unit: "length x = n \<Longrightarrow> i < n \<Longrightarrow> vdot ((replicate n 0)[i := 1]) x = x ! i"
  by (simp add: vdot_sum [where n = n] nth_list_update if_distrib [of "\<lambda>a. a * _"] sum.delta cong: if_cong)

lemma mat_entry:
  assumes "is_mat r c A" "i < r" "j < c"
  shows "vdot ((replicate r 0)[i := 1]) (mat_app A ((replicate c 0)[j := 1])) = A ! i ! j"
  using assms vdot_unit [of "A ! i" c j] by (simp add: vdot_unit is_mat_length is_mat_row vdot_commute)

lemma symmetricI:
  assumes "is_mat n n P" and "\<And>x y. length x = n \<Longrightarrow> length y = n \<Longrightarrow> vdot x (mat_app P y) = vdot y (mat_app P x)"
  shows "symmetric n P"
  unfolding symmetric_def
proof (intro conjI allI impI)
  fix i j assume "i < n" "j < n"
  then show "P ! i ! j = P ! j ! i"
    using mat_entry [OF assms(1)] assms(2) [of "(replicate n 0)[i := 1]" "(replicate n 0)[j := 1]"] by simp
qed (rule assms(1))

lemma psdI:
  assumes "is_mat n n P" and "\<And>x y. length x = n \<Longrightarrow> length y = n \<Longrightarrow> vdot x (mat_app P y) = vdot y (mat_app P x)"
    and "\<And>x. length x = n \<Longrightarrow> 0 \<le> vdot x (mat_app P x)"
  shows "psd n P"
  unfolding psd_def using symmetricI [OF assms(1,2)] assms(3) by blast

lemma psd_shape: "psd n P \<Longrightarrow> is_mat n n P"
  by (simp add: psd_def symmetric_def)

lemma psd_nonneg: "psd n P \<Longrightarrow> length x = n \<Longrightarrow> 0 \<le> vdot x (mat_app P x)"
  by (simp add: psd_def)

lemma psd_swap: "psd n P \<Longrightarrow> 0 < n \<Longrightarrow> length x = n \<Longrightarrow> length y = n \<Longrightarrow> vdot x (mat_app P y) = vdot y (mat_app P x)"
  using vdot_symmetric [of n P x y] by (metis psd_def vdot_commute)

text \<open>Sums and congruences.\<close>

lemma psd_add:
  assumes "psd n P" "psd n Q" "0 < n"
  shows "psd n (mat_add P Q)"
  by (rule psdI) (use assms in \<open>simp_all add: mat_add_shape psd_shape mat_add_app [OF psd_shape psd_shape] vdot_add is_mat_length [OF psd_shape] psd_swap psd_nonneg\<close>)

lemma psd_congruence:
  assumes "psd n P" "is_mat m n A" "0 < n" "0 < m"
  shows "psd m (mat_mul (mat_mul A P) (mat_transpose A))"
proof (rule psdI)
  note P = psd_shape [OF assms(1)] and T = mat_transpose_shape [OF assms(2,4)] and AP = mat_mul_shape [OF assms(2) psd_shape [OF assms(1)] assms(3)]
  show "is_mat m m (mat_mul (mat_mul A P) (mat_transpose A))" by (rule mat_mul_shape [OF AP T assms(3)])
  have q: "vdot x (mat_app (mat_mul (mat_mul A P) (mat_transpose A)) y) = vdot (mat_app (mat_transpose A) x) (mat_app P (mat_app (mat_transpose A) y))"
    if "length x = m" "length y = m" for x y
  proof -
    let ?z = "mat_app (mat_transpose A) y"
    have z: "length ?z = n" "length (mat_app P ?z) = n" using T P by (simp_all add: is_mat_length)
    have "vdot x (mat_app (mat_mul (mat_mul A P) (mat_transpose A)) y) = vdot (mat_app A (mat_app P ?z)) x"
      using z that by (simp add: mat_mul_app [OF AP T assms(3)] mat_mul_app [OF assms(2) P assms(3)] vdot_commute)
    then show ?thesis using vdot_adjoint [OF assms(2,4) z(2) that(1)] by (simp add: vdot_commute)
  qed
  show "vdot x (mat_app (mat_mul (mat_mul A P) (mat_transpose A)) y) = vdot y (mat_app (mat_mul (mat_mul A P) (mat_transpose A)) x)"
    if "length x = m" "length y = m" for x y
    using q [OF that] q [OF that(2,1)] psd_swap [OF assms(1,3)] T by (simp add: is_mat_length)
  show "0 \<le> vdot x (mat_app (mat_mul (mat_mul A P) (mat_transpose A)) x)" if "length x = m" for x
    using q [OF that that] psd_nonneg [OF assms(1)] T by (simp add: is_mat_length)
qed

lemma psd_diag:
  assumes "\<forall>a \<in> set d. 0 \<le> a"
  shows "psd (length d) (mat_diag d)"
proof (rule psdI)
  show "is_mat (length d) (length d) (mat_diag d)" by (simp add: mat_diag_shape)
  have app: "mat_app (mat_diag d) y = map2 (*) d y" if "length y = length d" for y
    using that by (intro nth_equalityI)
      (simp_all add: mat_diag_def mat_app_def vdot_sum [where n = "length d"] if_distrib [of "\<lambda>a. a * _"] sum.delta cong: if_cong)
  have q: "vdot x (mat_app (mat_diag d) y) = (\<Sum>i < length d. d ! i * (x ! i * y ! i))" if "length x = length d" "length y = length d" for x y
    using that by (simp add: app vdot_sum [where n = "length d"] mult_ac)
  show "vdot x (mat_app (mat_diag d) y) = vdot y (mat_app (mat_diag d) x)" if "length x = length d" "length y = length d" for x y
    using that by (simp add: q mult.commute)
  show "0 \<le> vdot x (mat_app (mat_diag d) x)" if "length x = length d" for x
    using that assms by (auto simp: q intro!: sum_nonneg mult_nonneg_nonneg [OF _ zero_le_square])
qed

end
