(* ===== verification/Kalman.thy ===== *)
theory Kalman
  imports Matrices Aimer
begin

text \<open>
  The Kalman filter of a target: \<^verbatim>\<open>tools/extended_kalman_filter.cpp\<close>, and its use in \<^verbatim>\<open>tasks/auto_aim/target.cpp\<close>, the transition of the state, the process noise, and
  the measurement of a plate. \<open>Tracker\<close> and \<open>Aimer\<close> leave the filter open; here it is the one of the program, and \<open>kalman_vision\<close> puts it in their place.

  Eigen's \<^verbatim>\<open>inverse()\<close> is the parameter \<open>minv\<close>, without a result for a singular matrix, and the natural logarithm is \<open>log_e\<close>. The map \<^verbatim>\<open>data\<close>, which only the plotter reads, is left out.
\<close>

section \<open>The filter\<close>

record 'k ekf =
  ek_x :: "'k vec"
  ek_P :: "'k mat"
  ek_recent :: "nat list"
  ek_last_nis :: "'k option"
  ek_nis_count :: int
  ek_nees_count :: int
  ek_total_count :: int

definition new_ekf :: "('k :: linordered_field) vec \<Rightarrow> 'k mat \<Rightarrow> 'k ekf" where
  "new_ekf x0 P0 = \<lparr>ek_x = x0, ek_P = P0, ek_recent = [0], ek_last_nis = None, ek_nis_count = 0, ek_nees_count = 0, ek_total_count = 0\<rparr>"

definition ekf_predict :: "('k :: linordered_field) mat \<Rightarrow> 'k mat \<Rightarrow> ('k vec \<Rightarrow> 'k vec option) \<Rightarrow> 'k ekf \<Rightarrow> 'k ekf option" where
  "ekf_predict F Q f e = do {
     let P = mat_add (mat_mul (mat_mul F (ek_P e)) (mat_transpose F)) Q;
     x \<leftarrow> f (ek_x e);
     Some (e\<lparr>ek_P := P, ek_x := x\<rparr>)
   }"

text \<open>A comparison with a number that may not be one.\<close>

definition exceeds :: "('k :: linorder) option \<Rightarrow> 'k \<Rightarrow> bool" where
  "exceeds v threshold = (case v of Some a \<Rightarrow> a > threshold | None \<Rightarrow> False)"

definition kalman_gain :: "(('k :: linordered_field) mat \<Rightarrow> 'k mat option) \<Rightarrow> 'k mat \<Rightarrow> 'k mat \<Rightarrow> 'k mat \<Rightarrow> 'k mat option" where
  "kalman_gain minv P H R = do {
     S \<leftarrow> minv (mat_add (mat_mul (mat_mul H P) (mat_transpose H)) R);
     Some (mat_mul (mat_mul P (mat_transpose H)) S)
   }"

definition posterior :: "('k :: linordered_field) mat \<Rightarrow> 'k mat \<Rightarrow> 'k mat \<Rightarrow> 'k mat \<Rightarrow> 'k mat" where
  "posterior K H P R = (let A = mat_sub (mat_identity (length P)) (mat_mul K H)
     in mat_add (mat_mul (mat_mul A P) (mat_transpose A)) (mat_mul (mat_mul K R) (mat_transpose K)))"

definition ekf_update ::
  "(('k :: linordered_field) mat \<Rightarrow> 'k mat option) \<Rightarrow> ('k vec \<Rightarrow> 'k vec \<Rightarrow> 'k vec option) \<Rightarrow> 'k vec \<Rightarrow> 'k mat \<Rightarrow> 'k mat \<Rightarrow>
   ('k vec \<Rightarrow> 'k vec option) \<Rightarrow> ('k vec \<Rightarrow> 'k vec \<Rightarrow> 'k vec option) \<Rightarrow> 'k ekf \<Rightarrow> (bool \<times> 'k ekf) option" where
  "ekf_update minv x_add z H R h z_diff e = do {
     let x_prior = ek_x e;
     K \<leftarrow> kalman_gain minv (ek_P e) H R;
     let P = posterior K H (ek_P e) R;
     z0 \<leftarrow> h x_prior;
     innovation \<leftarrow> z_diff z z0;
     x \<leftarrow> x_add x_prior (mat_app K innovation);
     z1 \<leftarrow> h x;
     residual \<leftarrow> z_diff z z1;
     let S = mat_add (mat_mul (mat_mul H P) (mat_transpose H)) R;
     let nis = map_option (\<lambda>T. vdot residual (mat_app T residual)) (minv S);
     let nees = map_option (\<lambda>T. vdot (vec_sub x x_prior) (mat_app T (vec_sub x x_prior))) (minv P);
     let failed = exceeds nis (711 / 1000);
     Some (failed, e\<lparr>ek_P := P, ek_x := x,
       ek_nis_count := (if failed then ek_nis_count e + 1 else ek_nis_count e),
       ek_nees_count := (if exceeds nees (711 / 1000) then ek_nees_count e + 1 else ek_nees_count e),
       ek_total_count := ek_total_count e + 1, ek_last_nis := nis, ek_recent := nis_push failed (ek_recent e)\<rparr>)
   }"

section \<open>The filter of a target\<close>

text \<open>What the pose solver has found out about a plate.\<close>

record 'k plate_pose =
  pp_xyz_in_world :: "'k vec3"
  pp_ypr_in_world :: "'k vec3"
  pp_ypd_in_world :: "'k vec3"

definition filter_init :: "('k :: linordered_field) libm \<Rightarrow> 'k plate_pose \<Rightarrow> 'k \<Rightarrow> 'k vec \<Rightarrow> 'k ekf" where
  "filter_init M a r P0_dig = (let (x, y, z) = pp_xyz_in_world a; (yaw, _, _) = pp_ypr_in_world a;
       center_x = x + r * lm_cos M yaw; center_y = y + r * lm_sin M yaw; center_z = z
     in new_ekf [center_x, 0, center_y, 0, center_z, 0, yaw, 0, r, 0, 0] (mat_diag P0_dig))"

text \<open>The sum of two states, the angle within a turn: \<^verbatim>\<open>x_add\<close>.\<close>

definition add_states :: "('k :: linordered_field) libm \<Rightarrow> 'k vec \<Rightarrow> 'k vec \<Rightarrow> 'k vec option" where
  "add_states M a b = do { let c = vec_add a b; t \<leftarrow> limit_rad M (c ! 6); Some (c[6 := t]) }"

definition transition :: "'k :: linordered_field \<Rightarrow> 'k mat" where
  "transition dt =
     [[1, dt, 0, 0, 0, 0, 0, 0, 0, 0, 0],
      [0, 1, 0, 0, 0, 0, 0, 0, 0, 0, 0],
      [0, 0, 1, dt, 0, 0, 0, 0, 0, 0, 0],
      [0, 0, 0, 1, 0, 0, 0, 0, 0, 0, 0],
      [0, 0, 0, 0, 1, dt, 0, 0, 0, 0, 0],
      [0, 0, 0, 0, 0, 1, 0, 0, 0, 0, 0],
      [0, 0, 0, 0, 0, 0, 1, dt, 0, 0, 0],
      [0, 0, 0, 0, 0, 0, 0, 1, 0, 0, 0],
      [0, 0, 0, 0, 0, 0, 0, 0, 1, 0, 0],
      [0, 0, 0, 0, 0, 0, 0, 0, 0, 1, 0],
      [0, 0, 0, 0, 0, 0, 0, 0, 0, 0, 1]]"

definition process_noise :: "'k :: linordered_field \<Rightarrow> 'k \<Rightarrow> 'k \<Rightarrow> 'k mat" where
  "process_noise dt v1 v2 = (let a = dt * dt * dt * dt / 4; b = dt * dt * dt / 2; c = dt * dt in
     [[a * v1, b * v1, 0, 0, 0, 0, 0, 0, 0, 0, 0],
      [b * v1, c * v1, 0, 0, 0, 0, 0, 0, 0, 0, 0],
      [0, 0, a * v1, b * v1, 0, 0, 0, 0, 0, 0, 0],
      [0, 0, b * v1, c * v1, 0, 0, 0, 0, 0, 0, 0],
      [0, 0, 0, 0, a * v1, b * v1, 0, 0, 0, 0, 0],
      [0, 0, 0, 0, b * v1, c * v1, 0, 0, 0, 0, 0],
      [0, 0, 0, 0, 0, 0, a * v2, b * v2, 0, 0, 0],
      [0, 0, 0, 0, 0, 0, b * v2, c * v2, 0, 0, 0],
      [0, 0, 0, 0, 0, 0, 0, 0, 0, 0, 0],
      [0, 0, 0, 0, 0, 0, 0, 0, 0, 0, 0],
      [0, 0, 0, 0, 0, 0, 0, 0, 0, 0, 0]])"

text \<open>The non-linear transition \<^verbatim>\<open>f\<close>.\<close>

definition next_state :: "('k :: linordered_field) libm \<Rightarrow> 'k \<Rightarrow> 'k vec \<Rightarrow> 'k vec option" where
  "next_state M dt x = do { let y = mat_app (transition dt) x; t \<leftarrow> limit_rad M (y ! 6); Some (y[6 := t]) }"

definition filter_predict :: "('k :: linordered_field) libm \<Rightarrow> 'k \<Rightarrow> 'k \<Rightarrow> 'k \<Rightarrow> 'k ekf \<Rightarrow> 'k ekf option" where
  "filter_predict M dt v1 v2 e = ekf_predict (transition dt) (process_noise dt v1 v2) (next_state M dt) e"

definition fast_spin :: "('k :: linordered_field) ekf \<Rightarrow> bool" where
  "fast_spin e \<longleftrightarrow> \<bar>ek_x e ! 7\<bar> > 2"

definition limit_spin :: "('k :: linordered_field) ekf \<Rightarrow> 'k ekf" where
  "limit_spin e = e\<lparr>ek_x := (ek_x e)[7 := (if ek_x e ! 7 > 0 then 251 / 100 else - 251 / 100)]\<rparr>"

definition r_ok :: "('k :: linordered_field) ekf \<Rightarrow> bool" where
  "r_ok e \<longleftrightarrow> ek_x e ! 8 > 5 / 100 \<and> ek_x e ! 8 < 1 / 2"

definition l_ok :: "('k :: linordered_field) ekf \<Rightarrow> bool" where
  "l_ok e \<longleftrightarrow> ek_x e ! 8 + ek_x e ! 9 > 5 / 100 \<and> ek_x e ! 8 + ek_x e ! 9 < 1 / 2"

definition measurement_noise :: "('k :: linordered_field) libm \<Rightarrow> ('k \<Rightarrow> 'k) \<Rightarrow> 'k plate_pose \<Rightarrow> 'k mat option" where
  "measurement_noise M log_e a = do {
     let (x, y, _) = pp_xyz_in_world a;
     let (yaw, _, _) = pp_ypr_in_world a;
     let (_, _, distance) = pp_ypd_in_world a;
     let center_yaw = lm_atan2 M y x;
     delta_angle \<leftarrow> limit_rad M (yaw - center_yaw);
     Some (mat_diag [4 / 1000, 4 / 1000, log_e (\<bar>delta_angle\<bar> + 1) + 1, log_e (\<bar>distance\<bar> + 1) / 200 + 9 / 100])
   }"

definition measured :: "'k plate_pose \<Rightarrow> 'k vec" where
  "measured a = (let (yaw, pitch, distance) = pp_ypd_in_world a; (angle, _, _) = pp_ypr_in_world a in [yaw, pitch, distance, angle])"

definition update_ypda ::
  "('k :: linordered_field) libm \<Rightarrow> ('k \<Rightarrow> 'k) \<Rightarrow> ('k mat \<Rightarrow> 'k mat option) \<Rightarrow> nat \<Rightarrow> 'k plate_pose \<Rightarrow> nat \<Rightarrow> 'k ekf \<Rightarrow> (bool \<times> 'k ekf) option" where
  "update_ypda M log_e minv armor_num a i e = do {
     H \<leftarrow> h_jacobian M ((!) (ek_x e)) armor_num i;
     R \<leftarrow> measurement_noise M log_e a;
     ekf_update minv (add_states M) (measured a) H R (\<lambda>x. observe M armor_num i ((!) x)) (z_subtract M) e
   }"

text \<open>The error of the angles by which a detection is matched with a plate, and the distances that order the plates.\<close>

definition plate_error :: "('k :: linordered_field) libm \<Rightarrow> 'k ekf \<Rightarrow> nat \<Rightarrow> 'k plate_pose \<Rightarrow> nat \<Rightarrow> 'k option" where
  "plate_error M e armor_num a i = do {
     plates \<leftarrow> armor_xyza_list M ((!) (ek_x e)) armor_num;
     (x, y, z, angle) \<leftarrow> nth_opt plates (int i);
     let (yaw, _, _) = xyz2ypd M (x, y, z);
     d1 \<leftarrow> limit_rad M (fst (pp_ypr_in_world a) - angle);
     d2 \<leftarrow> limit_rad M (fst (pp_ypd_in_world a) - yaw);
     Some (\<bar>\<bar>d1\<bar> + \<bar>d2\<bar>\<bar>)
   }"

definition plate_distances :: "('k :: linordered_field) libm \<Rightarrow> 'k ekf \<Rightarrow> nat \<Rightarrow> 'k list option" where
  "plate_distances M e armor_num = do {
     plates \<leftarrow> armor_xyza_list M ((!) (ek_x e)) armor_num;
     Some (map (\<lambda>(x, y, z, _). case xyz2ypd M (x, y, z) of (_, _, distance) \<Rightarrow> distance) plates)
   }"

text \<open>\<^verbatim>\<open>Target::predict(double)\<close>\<close>

definition target_predict_dt :: "('k :: linordered_field) libm \<Rightarrow> 'k \<Rightarrow> 'k ekf target \<Rightarrow> 'k ekf target option" where
  "target_predict_dt M dt g = do {
     let (v1, v2) = (if tg_name g = Outpost then (10, 1 / 10) else (100, 400));
     let e = tg_ekf g;
     let ok = r_ok e \<and> l_ok e;
     let g = (if tg_name g \<noteq> Outpost \<and> tg_update_count g > 3 \<and> ok then g\<lparr>tg_is_converged := True\<rparr> else g);
     let g = (if tg_name g = Outpost \<and> tg_update_count g > 10 \<and> ok then g\<lparr>tg_is_converged := True\<rparr> else g);
     let e = (if tg_is_converged g \<and> tg_name g = Outpost \<and> fast_spin e then limit_spin e else e);
     e \<leftarrow> filter_predict M dt v1 v2 e;
     Some (g\<lparr>tg_ekf := e\<rparr>)
   }"

section \<open>Shapes\<close>

abbreviation STATES :: nat where "STATES \<equiv> 11"

definition filter_ok :: "('k :: linordered_field) ekf \<Rightarrow> bool" where
  "filter_ok e \<longleftrightarrow> length (ek_x e) = STATES \<and> psd STATES (ek_P e)"

lemma transition_shape: "is_mat STATES STATES (transition dt)"
  by (simp add: is_mat_def transition_def)

lemma process_noise_shape: "is_mat STATES STATES (process_noise dt v1 v2)"
  by (simp add: is_mat_def process_noise_def Let_def)

lemma states_cases:
  assumes "length x = STATES"
  obtains x0 x1 x2 x3 x4 x5 x6 x7 x8 x9 x10 where "x = [x0, x1, x2, x3, x4, x5, x6, x7, x8, x9, x10]"
  using assms by (auto simp: eval_nat_numeral length_Suc_conv)

lemma process_noise_app:
  "mat_app (process_noise dt v1 v2) [x0, x1, x2, x3, x4, x5, x6, x7, x8, x9, x10] =
     (let a = dt * dt * dt * dt / 4; b = dt * dt * dt / 2; c = dt * dt in
       [a * v1 * x0 + b * v1 * x1, b * v1 * x0 + c * v1 * x1, a * v1 * x2 + b * v1 * x3, b * v1 * x2 + c * v1 * x3,
        a * v1 * x4 + b * v1 * x5, b * v1 * x4 + c * v1 * x5, a * v2 * x6 + b * v2 * x7, b * v2 * x6 + c * v2 * x7, 0, 0, 0])"
  by (simp add: mat_app_def process_noise_def vdot_def Let_def)

lemma process_noise_form:
  "vdot [y0, y1, y2, y3, y4, y5, y6, y7, y8, y9, y10] (mat_app (process_noise dt v1 v2) [x0, x1, x2, x3, x4, x5, x6, x7, x8, x9, x10]) =
     v1 * ((dt * dt / 2 * y0 + dt * y1) * (dt * dt / 2 * x0 + dt * x1) + (dt * dt / 2 * y2 + dt * y3) * (dt * dt / 2 * x2 + dt * x3) +
       (dt * dt / 2 * y4 + dt * y5) * (dt * dt / 2 * x4 + dt * x5)) + v2 * ((dt * dt / 2 * y6 + dt * y7) * (dt * dt / 2 * x6 + dt * x7))"
  unfolding process_noise_app Let_def by (simp add: vdot_def field_simps)

lemma process_noise_psd:
  assumes "0 \<le> v1" "0 \<le> v2"
  shows "psd STATES (process_noise dt v1 v2)"
proof (rule psdI [OF process_noise_shape])
  fix x y :: "'a list" assume l: "length x = STATES" "length y = STATES"
  obtain x0 x1 x2 x3 x4 x5 x6 x7 x8 x9 x10 where x: "x = [x0, x1, x2, x3, x4, x5, x6, x7, x8, x9, x10]" using l(1) by (rule states_cases)
  obtain y0 y1 y2 y3 y4 y5 y6 y7 y8 y9 y10 where y: "y = [y0, y1, y2, y3, y4, y5, y6, y7, y8, y9, y10]" using l(2) by (rule states_cases)
  show "vdot x (mat_app (process_noise dt v1 v2) y) = vdot y (mat_app (process_noise dt v1 v2) x)"
    unfolding x y process_noise_form by (simp only: mult.commute)
next
  fix x :: "'a list" assume l: "length x = STATES"
  obtain x0 x1 x2 x3 x4 x5 x6 x7 x8 x9 x10 where x: "x = [x0, x1, x2, x3, x4, x5, x6, x7, x8, x9, x10]" using l by (rule states_cases)
  show "0 \<le> vdot x (mat_app (process_noise dt v1 v2) x)"
    unfolding x process_noise_form using assms by (intro add_nonneg_nonneg mult_nonneg_nonneg zero_le_square)
qed

lemma transition_app:
  "mat_app (transition dt) [x0, x1, x2, x3, x4, x5, x6, x7, x8, x9, x10] =
     [x0 + dt * x1, x1, x2 + dt * x3, x3, x4 + dt * x5, x5, x6 + dt * x7, x7, x8, x9, x10]"
  by (simp add: mat_app_def transition_def vdot_def)

lemma next_state_real:
  assumes "length x = STATES"
  shows "\<exists>t. limit_rad real_libm (x ! 6 + dt * x ! 7) = Some t \<and>
    next_state real_libm dt x = Some [x ! 0 + dt * x ! 1, x ! 1, x ! 2 + dt * x ! 3, x ! 3, x ! 4 + dt * x ! 5, x ! 5, t, x ! 7, x ! 8, x ! 9, x ! 10]"
proof -
  obtain x0 x1 x2 x3 x4 x5 x6 x7 x8 x9 x10 where x: "x = [x0, x1, x2, x3, x4, x5, x6, x7, x8, x9, x10]" using assms by (rule states_cases)
  obtain t where "limit_rad real_libm (x6 + dt * x7) = Some t" using limit_rad_real by blast
  then show ?thesis by (simp add: x next_state_def transition_app)
qed

lemma filter_predict_ok:
  assumes "filter_ok e" "0 \<le> v1" "0 \<le> v2"
  shows "\<exists>e'. filter_predict real_libm dt v1 v2 e = Some e' \<and> filter_ok e'"
proof -
  obtain x' where x': "next_state real_libm dt (ek_x e) = Some x'" "length x' = STATES"
    using next_state_real [of "ek_x e" dt] assms(1) by (auto simp: filter_ok_def)
  have "psd STATES (mat_add (mat_mul (mat_mul (transition dt) (ek_P e)) (mat_transpose (transition dt))) (process_noise dt v1 v2))"
    using assms by (intro psd_add psd_congruence [OF _ transition_shape] process_noise_psd) (simp_all add: filter_ok_def)
  then show ?thesis using x' by (simp add: filter_predict_def ekf_predict_def Let_def filter_ok_def)
qed

text \<open>The update in Joseph's form keeps the covariance positive semidefinite whatever the gain.\<close>

lemma posterior_psd:
  assumes "psd n P" "psd m R" "is_mat n m K" "is_mat m n H" "0 < n" "0 < m"
  shows "psd n (posterior K H P R)"
proof -
  have "length P = n" using psd_shape [OF assms(1)] by (simp add: is_mat_length)
  moreover have "is_mat n n (mat_sub (mat_identity n) (mat_mul K H))"
    using assms by (intro mat_sub_shape mat_identity_shape mat_mul_shape)
  ultimately show ?thesis unfolding posterior_def Let_def
    using assms by (intro psd_add psd_congruence [OF assms(1)] psd_congruence [OF assms(2)]) simp_all
qed

section \<open>A measurement\<close>

definition pos_def :: "nat \<Rightarrow> ('k :: linordered_field) mat \<Rightarrow> bool" where
  "pos_def n S \<longleftrightarrow> symmetric n S \<and> (\<forall>x. length x = n \<longrightarrow> x \<noteq> replicate n 0 \<longrightarrow> 0 < vdot x (mat_app S x))"

text \<open>What is relied on of the inverse: a positive definite matrix, which is regular, has one, of its shape.\<close>

definition inverts :: "(('k :: linordered_field) mat \<Rightarrow> 'k mat option) \<Rightarrow> bool" where
  "inverts minv \<longleftrightarrow> (\<forall>n S. 0 < n \<longrightarrow> pos_def n S \<longrightarrow> (\<exists>T. minv S = Some T \<and> is_mat n n T))"

lemma h_jacobian_shape: "h_jacobian M x n i = Some H \<Longrightarrow> is_mat 4 STATES H"
  by (auto simp: h_jacobian_def bind_Some_iff Let_def is_mat_def mat_mul_def)

lemma h_jacobian_returns:
  assumes "0 < n" and "h_armor_xyz real_libm x n i = Some (px, py, pz)" and "px \<noteq> 0 \<or> py \<noteq> 0"
  shows "\<exists>H. h_jacobian real_libm x n i = Some H"
proof -
  have "0 < px * px + py * py" using assms(3) by (auto simp: sum_squares_gt_zero_iff)
  moreover obtain r where "limit_rad real_libm (raw_angle x n i) = Some r" using limit_rad_real by blast
  ultimately show ?thesis using assms(2) by (simp add: h_jacobian_def plate_angle_real [OF assms(1)] xyz2ypd_jacobian_real Let_def)
qed

lemma observe_returns: "0 < n \<Longrightarrow> \<exists>z. observe real_libm n i x = Some z \<and> length z = 4"
  using limit_rad_real [of "raw_angle x n i"] by (auto simp: observe_def plate_angle_real h_armor_xyz_real split: prod.split)

lemma z_subtract_returns: "\<exists>c. z_subtract real_libm a b = Some c \<and> length c = 4"
proof -
  have l: "\<exists>r. limit_rad real_libm t = Some r" for t using limit_rad_real by blast
  obtain c0 c1 c3 where "limit_rad real_libm (a ! 0 - b ! 0) = Some c0" "limit_rad real_libm (a ! 1 - b ! 1) = Some c1"
    "limit_rad real_libm (a ! 3 - b ! 3) = Some c3" using l by metis
  then show ?thesis by (simp add: z_subtract_def)
qed

lemma add_states_returns: "length a = STATES \<Longrightarrow> length b = STATES \<Longrightarrow> \<exists>c. add_states real_libm a b = Some c \<and> length c = STATES"
  using limit_rad_real [of "vec_add a b ! 6"] by (auto simp: add_states_def)

lemma measurement_noise_returns: "\<exists>R. measurement_noise real_libm log_e a = Some R"
  using limit_rad_real [of "fst (pp_ypr_in_world a) - real_atan2 (fst (snd (pp_xyz_in_world a))) (fst (pp_xyz_in_world a))"]
  by (auto simp: measurement_noise_def split_beta)

lemma noise_psd: "measurement_noise real_libm ln a = Some R \<Longrightarrow> psd 4 R \<and> pos_def 4 R"
proof -
  assume "measurement_noise real_libm ln a = Some R"
  then obtain d l where R: "R = mat_diag [4 / 1000, 4 / 1000, ln (\<bar>d\<bar> + 1) + 1, ln (\<bar>l\<bar> + 1) / 200 + 9 / 100]"
    by (auto simp: measurement_noise_def bind_Some_iff split: prod.split_asm)
  have pos: "0 < ln (\<bar>d\<bar> + 1) + 1" "0 < ln (\<bar>l\<bar> + 1) / 200 + 9 / 100" by (simp_all add: add_nonneg_pos)
  have p: "psd 4 R" using psd_diag [of "[4 / 1000, 4 / 1000, ln (\<bar>d\<bar> + 1) + 1, ln (\<bar>l\<bar> + 1) / 200 + 9 / 100]"] pos by (simp add: R less_imp_le numeral_eq_Suc)
  have sq: "0 < y * y" if "y \<noteq> 0" for y :: real using that sum_squares_gt_zero_iff [of y 0] by simp
  have "0 < vdot x (mat_app R x)" if x: "length x = 4" "x \<noteq> replicate 4 0" for x
  proof -
    obtain x0 x1 x2 x3 where e: "x = [x0, x1, x2, x3]" using x(1) by (auto simp: eval_nat_numeral length_Suc_conv)
    have "vdot x (mat_app R x) = 4 / 1000 * (x0 * x0) + 4 / 1000 * (x1 * x1) + (ln (\<bar>d\<bar> + 1) + 1) * (x2 * x2) + (ln (\<bar>l\<bar> + 1) / 200 + 9 / 100) * (x3 * x3)"
      by (simp add: e R mat_app_def mat_diag_def vdot_def upt_rec algebra_simps)
    moreover have "x0 \<noteq> 0 \<or> x1 \<noteq> 0 \<or> x2 \<noteq> 0 \<or> x3 \<noteq> 0" using x(2) by (auto simp: e eval_nat_numeral)
    moreover have "0 \<le> (ln (\<bar>d\<bar> + 1) + 1) * (x2 * x2)" "0 \<le> (ln (\<bar>l\<bar> + 1) / 200 + 9 / 100) * (x3 * x3)" using pos by simp_all
    moreover have "0 < (ln (\<bar>d\<bar> + 1) + 1) * (x2 * x2)" if "x2 \<noteq> 0" by (rule mult_pos_pos [OF pos(1) sq [OF that]])
    moreover have "0 < (ln (\<bar>l\<bar> + 1) / 200 + 9 / 100) * (x3 * x3)" if "x3 \<noteq> 0" by (rule mult_pos_pos [OF pos(2) sq [OF that]])
    moreover have "0 < x0 * x0" if "x0 \<noteq> 0" by (rule sq [OF that])
    moreover have "0 < x1 * x1" if "x1 \<noteq> 0" by (rule sq [OF that])
    moreover have "0 \<le> x0 * x0" "0 \<le> x1 * x1" by simp_all
    ultimately show ?thesis by linarith
  qed
  then show ?thesis using p by (simp add: pos_def_def psd_def)
qed

lemma innovation_pos_def:
  assumes "psd n P" "pos_def m R" "is_mat m n H" "0 < n" "0 < m"
  shows "pos_def m (mat_add (mat_mul (mat_mul H P) (mat_transpose H)) R)"
proof -
  let ?A = "mat_mul (mat_mul H P) (mat_transpose H)"
  have A: "psd m ?A" using psd_congruence [OF assms(1,3,4,5)] .
  have R: "is_mat m m R" using assms(2) by (simp add: pos_def_def symmetric_def)
  have "symmetric m (mat_add ?A R)"
    using A assms(2) mat_add_shape [OF psd_shape [OF A] R]
    by (auto simp: symmetric_def psd_def pos_def_def mat_add_def is_mat_length is_mat_row)
  moreover have "0 < vdot x (mat_app (mat_add ?A R) x)" if "length x = m" "x \<noteq> replicate m 0" for x
    using that psd_nonneg [OF A that(1)] assms(2)
    by (simp add: mat_add_app [OF psd_shape [OF A] R] vdot_add is_mat_length [OF psd_shape [OF A]] is_mat_length [OF R] pos_def_def add_nonneg_pos)
  ultimately show ?thesis by (simp add: pos_def_def)
qed

lemma update_ypda_ok:
  assumes "filter_ok e" and "inverts minv" and "0 < n"
    and "h_armor_xyz real_libm ((!) (ek_x e)) n i = Some (px, py, pz)" and "px \<noteq> 0 \<or> py \<noteq> 0"
  shows "\<exists>failed e'. update_ypda real_libm ln minv n a i e = Some (failed, e') \<and> filter_ok e'"
proof -
  have P: "psd STATES (ek_P e)" and len: "length (ek_x e) = STATES" using assms(1) by (simp_all add: filter_ok_def)
  obtain H where H: "h_jacobian real_libm ((!) (ek_x e)) n i = Some H" using h_jacobian_returns [OF assms(3-5)] by blast
  note Hs = h_jacobian_shape [OF H]
  obtain R where R: "measurement_noise real_libm ln a = Some R"
    using measurement_noise_returns by blast
  note Rp = noise_psd [OF R]
  let ?S = "mat_add (mat_mul (mat_mul H (ek_P e)) (mat_transpose H)) R"
  have "pos_def 4 ?S" using innovation_pos_def [OF P _ Hs] Rp by simp
  then obtain T where T: "minv ?S = Some T" "is_mat 4 4 T" using assms(2) unfolding inverts_def by (metis zero_less_numeral)
  let ?K = "mat_mul (mat_mul (ek_P e) (mat_transpose H)) T"
  have K: "kalman_gain minv (ek_P e) H R = Some ?K" by (simp add: kalman_gain_def T(1))
  have Ks: "is_mat STATES 4 ?K" by (rule mat_mul_shape [OF mat_mul_shape [OF psd_shape [OF P] mat_transpose_shape [OF Hs]] T(2)]) simp_all
  have post: "psd STATES (posterior ?K H (ek_P e) R)" using posterior_psd [OF P _ Ks Hs] Rp by simp
  obtain z0 where z0: "observe real_libm n i ((!) (ek_x e)) = Some z0" using observe_returns [OF assms(3)] by blast
  obtain y where y: "z_subtract real_libm (measured a) z0 = Some y" using z_subtract_returns by blast
  obtain x where x: "add_states real_libm (ek_x e) (mat_app ?K y) = Some x" "length x = STATES"
    using add_states_returns [OF len, of "mat_app ?K y"] Ks by (auto simp: is_mat_length)
  obtain z1 where z1: "observe real_libm n i ((!) x) = Some z1" using observe_returns [OF assms(3)] by blast
  obtain r where r: "z_subtract real_libm (measured a) z1 = Some r" using z_subtract_returns by blast
  show ?thesis using post x(2) by (simp add: update_ypda_def H R ekf_update_def K z0 y x(1) z1 r Let_def filter_ok_def)
qed

text \<open>
  C13. The covariance of the filter stays symmetric and positive semidefinite: predicting over any time always returns and keeps it so, and so does every measurement of a plate that is not on the axis of the gimbal, whatever the measurement and however exact the inverse is.
\<close>

theorem covariance_stays_psd:
  assumes "filter_ok e" and "inverts minv" and "0 < n" and "0 \<le> v1" and "0 \<le> v2"
    and "h_armor_xyz real_libm ((!) (ek_x e)) n i = Some (px, py, pz)" and "px \<noteq> 0 \<or> py \<noteq> 0"
  shows "(\<exists>e'. filter_predict real_libm dt v1 v2 e = Some e' \<and> psd STATES (ek_P e')) \<and>
    (\<exists>failed e'. update_ypda real_libm ln minv n a i e = Some (failed, e') \<and> psd STATES (ek_P e'))"
  using filter_predict_ok [OF assms(1,4,5), of dt] update_ypda_ok [OF assms(1-3,6,7), of a] by (auto simp: filter_ok_def)

section \<open>Prediction over several steps\<close>

definition moved :: "real \<Rightarrow> real vec \<Rightarrow> real vec" where
  "moved dt x = mat_app (transition dt) x"

text \<open>The state \<open>x'\<close> is the state \<open>x\<close> moved on by \<open>dt\<close>, the angle up to whole turns.\<close>

definition same_turn :: "real vec \<Rightarrow> real vec \<Rightarrow> bool" where
  "same_turn x y \<longleftrightarrow> length x = STATES \<and> length y = STATES \<and> (\<forall>j < STATES. j \<noteq> 6 \<longrightarrow> x ! j = y ! j) \<and> (\<exists>k. x ! 6 = y ! 6 + 2 * pi * of_int k)"

lemma next_state_moved:
  assumes "length x = STATES"
  shows "\<exists>y. next_state real_libm dt x = Some y \<and> same_turn y (moved dt x)"
proof -
  obtain x0 x1 x2 x3 x4 x5 x6 x7 x8 x9 x10 where x: "x = [x0, x1, x2, x3, x4, x5, x6, x7, x8, x9, x10]" using assms by (rule states_cases)
  obtain k t where t: "limit_rad real_libm (x6 + dt * x7) = Some t" "x6 + dt * x7 = t + 2 * pi * of_int k" using limit_rad_real [of "x6 + dt * x7"] by blast
  have "t = x6 + dt * x7 + 2 * pi * of_int (- k)" using t(2) by simp
  then have "\<exists>k. t = x6 + dt * x7 + 2 * pi * of_int k" by blast
  then show ?thesis using t(1) by (auto simp: x next_state_def transition_app moved_def same_turn_def less_Suc_eq numeral_eq_Suc)
qed

section \<open>Components without variance\<close>

text \<open>What happens to the filter of a target: predictions, measurements, and the limit on the spin of an outpost.\<close>

datatype 'k filter_step = Predict 'k 'k 'k | Measure nat "'k plate_pose" nat | Limit

definition filter_do :: "(real mat \<Rightarrow> real mat option) \<Rightarrow> real filter_step \<Rightarrow> real ekf \<Rightarrow> real ekf option" where
  "filter_do minv st e = (case st of
     Predict dt v1 v2 \<Rightarrow> filter_predict real_libm dt v1 v2 e
   | Measure n a i \<Rightarrow> map_option snd (update_ypda real_libm ln minv n a i e)
   | Limit \<Rightarrow> Some (limit_spin e))"

fun filter_run :: "(real mat \<Rightarrow> real mat option) \<Rightarrow> real filter_step list \<Rightarrow> real ekf \<Rightarrow> real ekf option" where
  "filter_run minv [] e = Some e"
| "filter_run minv (st # sts) e = Option.bind (filter_do minv st e) (filter_run minv sts)"

text \<open>Component \<open>j\<close> is \<open>c\<close> and has neither variance nor covariance.\<close>

definition certain :: "nat \<Rightarrow> real \<Rightarrow> real ekf \<Rightarrow> bool" where
  "certain j c e \<longleftrightarrow> length (ek_x e) = STATES \<and> is_mat STATES STATES (ek_P e) \<and> ek_x e ! j = c \<and>
     (\<forall>y. length y = STATES \<longrightarrow> mat_app (ek_P e) y ! j = 0)"

lemma transition_const:
  assumes "j \<in> {8, 9, 10}" and "length x = STATES"
  shows "mat_app (transition dt) x ! j = x ! j" "mat_app (process_noise dt v1 v2) x ! j = 0"
proof -
  obtain x0 x1 x2 x3 x4 x5 x6 x7 x8 x9 x10 where x: "x = [x0, x1, x2, x3, x4, x5, x6, x7, x8, x9, x10]" using assms(2) by (rule states_cases)
  show "mat_app (transition dt) x ! j = x ! j" "mat_app (process_noise dt v1 v2) x ! j = 0"
    using assms(1) by (auto simp: x transition_app process_noise_app Let_def)
qed

lemma predict_certain:
  assumes "certain j c e" and "j \<in> {8, 9, 10}" and "filter_predict real_libm dt v1 v2 e = Some e'"
  shows "certain j c e'"
proof -
  have e: "length (ek_x e) = STATES" "is_mat STATES STATES (ek_P e)" "ek_x e ! j = c" "\<And>y. length y = STATES \<Longrightarrow> mat_app (ek_P e) y ! j = 0"
    using assms(1) by (simp_all add: certain_def)
  let ?F = "transition dt" and ?Q = "process_noise dt v1 v2"
  let ?P = "mat_add (mat_mul (mat_mul ?F (ek_P e)) (mat_transpose ?F)) ?Q"
  obtain x' where x': "next_state real_libm dt (ek_x e) = Some x'" "e' = e\<lparr>ek_P := ?P, ek_x := x'\<rparr>"
    using assms(3) by (auto simp: filter_predict_def ekf_predict_def Let_def bind_Some_iff)
  have xs: "length x' = STATES" "x' ! j = c" using next_state_real [OF e(1), of dt] x'(1) e(3) assms(2) by auto
  have T: "is_mat STATES STATES (mat_transpose ?F)" by (rule mat_transpose_shape [OF transition_shape]) simp
  have FP: "is_mat STATES STATES (mat_mul ?F (ek_P e))" by (rule mat_mul_shape [OF transition_shape e(2)]) simp
  have FPF: "is_mat STATES STATES (mat_mul (mat_mul ?F (ek_P e)) (mat_transpose ?F))" by (rule mat_mul_shape [OF FP T]) simp
  have "mat_app ?P y ! j = 0" if y: "length y = STATES" for y
  proof -
    have z: "length (mat_app (mat_transpose ?F) y) = STATES" using T by (simp add: is_mat_length)
    have "mat_app ?P y = vec_add (mat_app ?F (mat_app (ek_P e) (mat_app (mat_transpose ?F) y))) (mat_app ?Q y)"
      using y z by (simp add: mat_add_app [OF FPF process_noise_shape] mat_mul_app [OF FP T] mat_mul_app [OF transition_shape e(2)])
    moreover have "length (mat_app ?F (mat_app (ek_P e) (mat_app (mat_transpose ?F) y))) = STATES" "length (mat_app ?Q y) = STATES" "length (mat_app (ek_P e) (mat_app (mat_transpose ?F) y)) = STATES"
      by (simp_all add: is_mat_length [OF transition_shape] is_mat_length [OF process_noise_shape] is_mat_length [OF e(2)])
    moreover have "j < STATES" using assms(2) by auto
    ultimately show ?thesis using e(4) [OF z] y by (simp add: transition_const [OF assms(2)] del: vec_lengths)
  qed
  then show ?thesis using xs x'(2) mat_add_shape [OF FPF process_noise_shape] by (simp add: certain_def)
qed

lemma z_subtract_length: "z_subtract M a b = Some c \<Longrightarrow> length c = 4"
  by (auto simp: z_subtract_def bind_Some_iff)

lemma update_certain:
  assumes "certain j c e" and "j \<in> {8, 9, 10}" and "inverts minv" and "psd STATES (ek_P e)" and "update_ypda real_libm ln minv n a i e = Some (failed, e')"
  shows "certain j c e'"
proof -
  have e: "length (ek_x e) = STATES" "is_mat STATES STATES (ek_P e)" "ek_x e ! j = c" "\<And>y. length y = STATES \<Longrightarrow> mat_app (ek_P e) y ! j = 0"
    using assms(1) by (simp_all add: certain_def)
  have j: "j < STATES" "j \<noteq> 6" using assms(2) by auto
  obtain H R where H: "h_jacobian real_libm ((!) (ek_x e)) n i = Some H" and R: "measurement_noise real_libm ln a = Some R"
    using assms(5) by (auto simp: update_ypda_def bind_Some_iff)
  note Hs = h_jacobian_shape [OF H] and Rp = noise_psd [OF R]
  let ?S = "mat_add (mat_mul (mat_mul H (ek_P e)) (mat_transpose H)) R"
  have "pos_def 4 ?S" using innovation_pos_def [OF assms(4) _ Hs] Rp by simp
  then obtain T where T: "minv ?S = Some T" "is_mat 4 4 T" using assms(3) unfolding inverts_def by (metis zero_less_numeral)
  define K where "K = mat_mul (mat_mul (ek_P e) (mat_transpose H)) T"
  have K: "kalman_gain minv (ek_P e) H R = Some K" by (simp add: kalman_gain_def T(1) K_def)
  have Ht: "is_mat STATES 4 (mat_transpose H)" by (rule mat_transpose_shape [OF Hs]) simp
  have PH: "is_mat STATES 4 (mat_mul (ek_P e) (mat_transpose H))" by (rule mat_mul_shape [OF e(2) Ht]) simp
  have Ks: "is_mat STATES 4 K" unfolding K_def by (rule mat_mul_shape [OF PH T(2)]) simp
  have gain: "mat_app K w ! j = 0" if "length w = 4" for w
    using that e(4) [of "mat_app (mat_transpose H) (mat_app T w)"] Ht T(2)
    by (simp add: K_def mat_mul_app [OF PH T(2)] mat_mul_app [OF e(2) Ht] is_mat_length)
  let ?A = "mat_sub (mat_identity STATES) (mat_mul K H)"
  have KH: "is_mat STATES STATES (mat_mul K H)" by (rule mat_mul_shape [OF Ks Hs]) simp
  have A: "is_mat STATES STATES ?A" by (rule mat_sub_shape [OF mat_identity_shape KH])
  have Aj: "mat_app ?A z ! j = z ! j" if "length z = STATES" for z
    using that gain [of "mat_app H z"] j Hs KH
    by (simp add: mat_sub_app [OF mat_identity_shape KH] mat_identity_app mat_mul_app [OF Ks Hs] is_mat_length is_mat_length [OF Ks])
  have P': "posterior K H (ek_P e) R = mat_add (mat_mul (mat_mul ?A (ek_P e)) (mat_transpose ?A)) (mat_mul (mat_mul K R) (mat_transpose K))"
    using e(2) by (simp add: posterior_def Let_def is_mat_length)
  have At: "is_mat STATES STATES (mat_transpose ?A)" by (rule mat_transpose_shape [OF A]) simp
  have AP: "is_mat STATES STATES (mat_mul ?A (ek_P e))" by (rule mat_mul_shape [OF A e(2)]) simp
  have Rs: "is_mat 4 4 R" using Rp by (simp add: psd_def symmetric_def)
  have KR: "is_mat STATES 4 (mat_mul K R)" by (rule mat_mul_shape [OF Ks Rs]) simp
  have Kt: "is_mat 4 STATES (mat_transpose K)" by (rule mat_transpose_shape [OF Ks]) simp
  have APA: "is_mat STATES STATES (mat_mul (mat_mul ?A (ek_P e)) (mat_transpose ?A))" by (rule mat_mul_shape [OF AP At]) simp
  have KRK: "is_mat STATES STATES (mat_mul (mat_mul K R) (mat_transpose K))" by (rule mat_mul_shape [OF KR Kt]) simp
  have post: "mat_app (posterior K H (ek_P e) R) y ! j = 0" if y: "length y = STATES" for y
  proof -
    have l: "length (mat_app (mat_transpose ?A) y) = STATES" "length (mat_app (mat_transpose K) y) = 4" using At Kt by (simp_all add: is_mat_length)
    have "mat_app (posterior K H (ek_P e) R) y = vec_add (mat_app ?A (mat_app (ek_P e) (mat_app (mat_transpose ?A) y))) (mat_app K (mat_app R (mat_app (mat_transpose K) y)))"
      using y l by (simp add: P' mat_add_app [OF APA KRK] mat_mul_app [OF AP At] mat_mul_app [OF A e(2)] mat_mul_app [OF KR Kt] mat_mul_app [OF Ks Rs])
    then show ?thesis
      using Aj [of "mat_app (ek_P e) (mat_app (mat_transpose ?A) y)"] e(4) [OF l(1)] gain [of "mat_app R (mat_app (mat_transpose K) y)"] j
      by (simp add: is_mat_length [OF A] is_mat_length [OF Ks] is_mat_length [OF e(2)] is_mat_length [OF Rs])
  qed
  obtain y x where y: "length y = 4" and x: "add_states real_libm (ek_x e) (mat_app K y) = Some x" and e': "ek_x e' = x" "ek_P e' = posterior K H (ek_P e) R"
    using assms(5) by (auto simp: update_ypda_def H R ekf_update_def K Let_def bind_Some_iff dest: z_subtract_length)
  have "x ! j = c" "length x = STATES" using x gain [OF y] e j Ks by (auto simp: add_states_def bind_Some_iff is_mat_length)
  then show ?thesis using post mat_add_shape [OF APA KRK] by (simp add: certain_def e' P')
qed


lemma update_keeps_ok:
  assumes "filter_ok e" and "inverts minv" and "0 < n" and "update_ypda real_libm ln minv n a i e = Some (failed, e')"
  shows "filter_ok e'"
proof -
  obtain px py pz where h: "h_armor_xyz real_libm ((!) (ek_x e)) n i = Some (px, py, pz)" using h_armor_xyz_real [OF assms(3)] by simp
  have "px \<noteq> 0 \<or> py \<noteq> 0"
  proof (rule ccontr)
    assume "\<not> (px \<noteq> 0 \<or> py \<noteq> 0)"
    then have "h_jacobian real_libm ((!) (ek_x e)) n i = None"
      using h by (auto simp: h_jacobian_def Let_def xyz2ypd_jacobian_def fdiv_def split: Option.bind_split)
    then show False using assms(4) by (simp add: update_ypda_def)
  qed
  then show ?thesis using update_ypda_ok [OF assms(1-3) h, of a] assms(4) by auto
qed

lemma run_certain:
  assumes "inverts minv" and "j \<in> {8, 9, 10}" and "\<forall>st \<in> set sts. case st of Predict dt v1 v2 \<Rightarrow> 0 \<le> v1 \<and> 0 \<le> v2 | Measure n a i \<Rightarrow> 0 < n | Limit \<Rightarrow> True"
  shows "filter_ok e \<Longrightarrow> certain j c e \<Longrightarrow> filter_run minv sts e = Some e' \<Longrightarrow> certain j c e'"
  using assms(3)
proof (induction sts arbitrary: e)
  case (Cons st sts)
  obtain e1 where e1: "filter_do minv st e = Some e1" "filter_run minv sts e1 = Some e'" using Cons.prems(3) by (auto simp: bind_Some_iff)
  have "filter_ok e1 \<and> certain j c e1"
  proof (cases st)
    case (Predict dt v1 v2)
    then show ?thesis using e1(1) filter_predict_ok [OF Cons.prems(1), of v1 v2 dt] predict_certain [OF Cons.prems(2) assms(2), of dt v1 v2 e1] Cons.prems(4)
      by (auto simp: filter_do_def)
  next
    case (Measure n a i)
    then obtain failed where u: "update_ypda real_libm ln minv n a i e = Some (failed, e1)" using e1(1) by (auto simp: filter_do_def)
    have n: "0 < n" using Cons.prems(4) Measure by simp
    have P: "psd STATES (ek_P e)" using Cons.prems(1) by (simp add: filter_ok_def)
    show ?thesis using update_certain [OF Cons.prems(2) assms(2,1) P u] update_keeps_ok [OF Cons.prems(1) assms(1) n u] by simp
  next
    case Limit
    then show ?thesis using e1(1) Cons.prems(1,2) assms(2) by (auto simp: filter_do_def limit_spin_def filter_ok_def certain_def)
  qed
  then show ?case using Cons.IH [of e1] e1(2) Cons.prems(4) by simp
qed simp

text \<open>The initial variances are the diagonal of the first covariance.\<close>

lemma mat_diag_app: "length y = length d \<Longrightarrow> mat_app (mat_diag d) y = map2 (*) d y"
  by (intro nth_equalityI) (simp_all add: mat_diag_def mat_app_def vdot_sum [where n = "length d"] if_distrib [of "\<lambda>a. a * _"] sum.delta cong: if_cong)

lemma filter_init_ok: "length P0 = STATES \<Longrightarrow> \<forall>p \<in> set P0. 0 \<le> p \<Longrightarrow> filter_ok (filter_init M a r P0)"
  using psd_diag [of P0] by (simp add: filter_init_def filter_ok_def new_ekf_def Let_def split_beta)

lemma filter_init_certain:
  assumes "length P0 = STATES" and "j \<in> {9, 10}" and "P0 ! j = 0"
  shows "certain j 0 (filter_init M a r P0)"
proof -
  have "mat_app (mat_diag P0) y ! j = 0" if "length y = STATES" for y
    using that assms by (simp add: mat_diag_app) (use assms(2) in auto)
  then show ?thesis using assms by (auto simp: certain_def filter_init_def new_ekf_def mat_diag_shape Let_def split_beta)
qed

lemma certain_singular:
  assumes "certain j c e" and "j < STATES" and "is_mat STATES STATES T"
  shows "mat_mul (ek_P e) T \<noteq> mat_identity STATES"
proof
  assume eq: "mat_mul (ek_P e) T = mat_identity STATES"
  let ?u = "(replicate STATES 0)[j := 1 :: real]"
  have P: "is_mat STATES STATES (ek_P e)" using assms(1) by (simp add: certain_def)
  have "mat_app (ek_P e) (mat_app T ?u) = ?u"
    using mat_mul_app [OF P assms(3), of ?u] mat_identity_app [of ?u STATES] by (simp add: eq)
  moreover have "mat_app (ek_P e) (mat_app T ?u) ! j = 0" using assms(1,3) by (simp add: certain_def is_mat_length)
  moreover have "?u ! j = 1" using assms(2) by simp
  ultimately show False by simp
qed

text \<open>
  C37. The consistency test of the state never works for outposts and bases: their targets start without variance of \<open>l\<close> and \<open>h\<close>, so after every sequence of predictions and measurements the covariance, which the update inverts, has no inverse.
\<close>

theorem outpost_covariance_singular:
  assumes "inverts minv" and "length P0 = STATES" and "\<forall>p \<in> set P0. 0 \<le> p" and "P0 ! 9 = 0"
    and "\<forall>st \<in> set sts. case st of Predict dt v1 v2 \<Rightarrow> 0 \<le> v1 \<and> 0 \<le> v2 | Measure n a i \<Rightarrow> 0 < n | Limit \<Rightarrow> True"
    and "filter_run minv sts (filter_init real_libm a r P0) = Some e"
  shows "ek_x e ! 9 = 0 \<and> (\<nexists>T. is_mat STATES STATES T \<and> mat_mul (ek_P e) T = mat_identity STATES)"
proof -
  have "certain 9 0 e"
    by (rule run_certain [OF assms(1) _ assms(5) filter_init_ok [OF assms(2,3)] filter_init_certain [OF assms(2) _ assms(4)] assms(6)]) simp_all
  then show ?thesis using certain_singular [of 9 0 e] by (auto simp: certain_def)
qed

section \<open>The filter in the tracker\<close>

text \<open>
  The vision of the tracker over this filter: \<open>order\<close> is the order in which \<^verbatim>\<open>std::sort\<close> leaves indices by their distances, \<open>solve\<close> the pose solver,
  \<open>from_center\<close> the distance of a plate from the centre of the image.
\<close>

definition kalman_vision ::
  "(real mat \<Rightarrow> real mat option) \<Rightarrow> (real list \<Rightarrow> nat list) \<Rightarrow> (real plate_pose armor \<Rightarrow> real plate_pose) \<Rightarrow> (real plate_pose \<Rightarrow> real) \<Rightarrow>
   (real ekf, real plate_pose, real) vision" where
  "kalman_vision minv order solve from_center =
     \<lparr>vi_init = (\<lambda>a radius p0. filter_init real_libm (am_geometry a) (of_int radius / 10000) (map (\<lambda>p. of_int p / 10000) p0)),
      vi_predict = (\<lambda>dt v1 v2 e. the (filter_predict real_libm (of_int dt / 10 ^ 9) (of_int v1 / 10) (of_int v2 / 10) e)),
      vi_fast_spin = fast_spin, vi_limit_spin = limit_spin, vi_r_ok = r_ok, vi_l_ok = l_ok,
      vi_order = (\<lambda>e n. order (the (plate_distances real_libm e n))),
      vi_error = (\<lambda>e n a i. the (plate_error real_libm e n (am_geometry a) i)),
      vi_huge = 10 ^ 10,
      vi_update = (\<lambda>n a i e. case the (update_ypda real_libm ln minv n (am_geometry a) i e) of (failed, e') \<Rightarrow> (e', failed)),
      vi_solve = solve, vi_from_center = from_center, vi_zero = 0\<rparr>"

text \<open>\<^verbatim>\<open>Target::predict(time_point)\<close>\<close>

definition target_predict_at :: "('k :: linordered_field) libm \<Rightarrow> int \<Rightarrow> 'k ekf target \<Rightarrow> 'k ekf target option" where
  "target_predict_at M t g = do { g \<leftarrow> target_predict_dt M (delta_seconds t (tg_t g)) g; Some (g\<lparr>tg_t := t\<rparr>) }"

text \<open>The prediction of the tracker is this one.\<close>

lemma kalman_vision_predict:
  assumes "length (ek_x (tg_ekf g)) = STATES"
  shows "target_predict_at real_libm t g = Some (target_predict (kalman_vision minv order solve from_center) t g)"
proof -
  have p: "Option.bind (filter_predict real_libm dt v1 v2 e) f = f (the (filter_predict real_libm dt v1 v2 e))" if "length (ek_x e) = STATES"
    for dt v1 v2 e and f :: "real ekf \<Rightarrow> real ekf target option"
    using next_state_real [OF that, of dt] by (auto simp: filter_predict_def ekf_predict_def Let_def)
  have l: "length (ek_x (limit_spin (tg_ekf g))) = STATES" using assms by (simp add: limit_spin_def)
  note defs = target_predict_at_def target_predict_dt_def target_predict_def target_convergened_def target_diverged_def kalman_vision_def delta_seconds_def Let_def p [OF l] p [OF assms]
  show ?thesis
  proof (cases "tg_name g = Outpost")
    case True
    then show ?thesis
      by (cases "10 < tg_update_count g"; cases "r_ok (tg_ekf g)"; cases "l_ok (tg_ekf g)"; cases "fast_spin (tg_ekf g)"; cases "tg_is_converged g") (simp_all add: defs)
  next
    case False
    then show ?thesis
      by (cases "3 < tg_update_count g"; cases "r_ok (tg_ekf g)"; cases "l_ok (tg_ekf g)") (simp_all add: defs)
  qed
qed

section \<open>Witnesses\<close>

definition front_pose :: "real plate_pose" where
  "front_pose = \<lparr>pp_xyz_in_world = (3, 0, 0), pp_ypr_in_world = (0, 0, 0), pp_ypd_in_world = (0, 0, 3)\<rparr>"

definition shape_inverse :: "real mat \<Rightarrow> real mat option" where
  "shape_inverse S = Some (mat_identity (length S))"

lemma shape_inverse_inverts: "inverts shape_inverse"
  by (auto simp: inverts_def shape_inverse_def pos_def_def symmetric_def is_mat_length mat_identity_shape)

definition front_filter :: "real vec \<Rightarrow> real ekf" where
  "front_filter P0 = filter_init real_libm front_pose (1 / 5) P0"

lemma front_plate: "0 < n \<Longrightarrow> h_armor_xyz real_libm ((!) (ek_x (front_filter P0))) n 0 = Some (3, 0, 0)"
  by (simp add: h_armor_xyz_real front_filter_def filter_init_def front_pose_def new_ekf_def raw_angle_def use_l_h_def)

theorem covariance_stays_psd_witness:
  "(\<exists>e'. filter_predict real_libm 1 100 400 (front_filter (replicate 11 1)) = Some e' \<and> psd STATES (ek_P e')) \<and>
   (\<exists>failed e'. update_ypda real_libm ln shape_inverse 4 front_pose 0 (front_filter (replicate 11 1)) = Some (failed, e') \<and> psd STATES (ek_P e'))"
  by (rule covariance_stays_psd [OF _ shape_inverse_inverts _ _ _ front_plate]) (simp_all add: front_filter_def filter_init_ok)

definition outpost_variances :: "real vec" where
  "outpost_variances = [1, 64, 1, 64, 1, 81, 2 / 5, 100, 1 / 10000, 0, 0]"

theorem outpost_covariance_singular_witness:
  "\<exists>e. filter_run shape_inverse [Measure 3 front_pose 0, Predict 1 10 (1 / 10)] (front_filter outpost_variances) = Some e \<and>
     ek_x e ! 9 = 0 \<and> (\<nexists>T. is_mat STATES STATES T \<and> mat_mul (ek_P e) T = mat_identity STATES)"
proof -
  have "filter_ok (front_filter outpost_variances)" unfolding front_filter_def by (rule filter_init_ok) (simp_all add: outpost_variances_def)
  then obtain failed e1 where e1: "update_ypda real_libm ln shape_inverse 3 front_pose 0 (front_filter outpost_variances) = Some (failed, e1)" "filter_ok e1"
    using update_ypda_ok [OF _ shape_inverse_inverts _ front_plate, of outpost_variances 3 front_pose] by auto
  obtain e where e: "filter_predict real_libm 1 10 (1 / 10) e1 = Some e" using filter_predict_ok [OF e1(2), of 10 "1 / 10" 1] by auto
  let ?sts = "[Measure 3 front_pose 0, Predict 1 10 (1 / 10)]"
  have r: "filter_run shape_inverse ?sts (filter_init real_libm front_pose (1 / 5) outpost_variances) = Some e"
    using e1(1) e by (simp add: filter_do_def front_filter_def)
  have "ek_x e ! 9 = 0 \<and> (\<nexists>T. is_mat STATES STATES T \<and> mat_mul (ek_P e) T = mat_identity STATES)"
    by (rule outpost_covariance_singular [OF shape_inverse_inverts _ _ _ _ r]) (simp_all add: outpost_variances_def)
  then show ?thesis using r by (auto simp: front_filter_def)
qed

end
