(* ===== verification/Mpc.thy ===== *)
theory Mpc
  imports Matrices
begin

text \<open>
  The solver of the planner for linear model-predictive control, \<^verbatim>\<open>tasks/auto_aim/planner/tinympc\<close>: the alternating direction method of multipliers of
  \<^verbatim>\<open>admm.cpp\<close> and the set-up of \<^verbatim>\<open>tiny_api.cpp\<close>, over an ordered field, for the constraints that the planner uses, bounds on states and inputs.
  Cone and linear constraints and the adaptation of the penalty, which every set-up leaves switched off, are left out.

  A trajectory is the list of its columns. Eigen's \<^verbatim>\<open>inverse()\<close> is the parameter \<open>minv\<close>, without a result for a singular matrix.
\<close>

section \<open>Data\<close>

record 'k tiny_solution =
  so_iter :: int
  so_solved :: int
  so_x :: "'k vec list"
  so_u :: "'k vec list"

record 'k tiny_cache =
  tc_rho :: 'k
  tc_Kinf :: "'k mat"
  tc_Pinf :: "'k mat"
  tc_Quu_inv :: "'k mat"
  tc_AmBKt :: "'k mat"
  tc_APf :: "'k vec"
  tc_BPf :: "'k vec"

record 'k tiny_settings =
  se_abs_pri_tol :: 'k
  se_abs_dua_tol :: 'k
  se_max_iter :: int
  se_check_termination :: int
  se_en_state_bound :: bool
  se_en_input_bound :: bool

record 'k tiny_workspace =
  wo_nx :: nat
  wo_nu :: nat
  wo_N :: nat
  wo_x :: "'k vec list"
  wo_u :: "'k vec list"
  wo_q :: "'k vec list"
  wo_r :: "'k vec list"
  wo_p :: "'k vec list"
  wo_d :: "'k vec list"
  wo_v :: "'k vec list"
  wo_vnew :: "'k vec list"
  wo_z :: "'k vec list"
  wo_znew :: "'k vec list"
  wo_g :: "'k vec list"
  wo_y :: "'k vec list"
  wo_x_min :: "'k vec list"
  wo_x_max :: "'k vec list"
  wo_u_min :: "'k vec list"
  wo_u_max :: "'k vec list"
  wo_Q :: "'k vec"
  wo_R :: "'k vec"
  wo_Adyn :: "'k mat"
  wo_Bdyn :: "'k mat"
  wo_fdyn :: "'k vec"
  wo_Xref :: "'k vec list"
  wo_Uref :: "'k vec list"
  wo_primal_residual_state :: 'k
  wo_primal_residual_input :: 'k
  wo_dual_residual_state :: 'k
  wo_dual_residual_input :: 'k
  wo_status :: int
  wo_iter :: int

record 'k tiny_solver =
  ts_solution :: "'k tiny_solution"
  ts_settings :: "'k tiny_settings"
  ts_cache :: "'k tiny_cache"
  ts_work :: "'k tiny_workspace"

section \<open>The passes\<close>

text \<open>Column by column, for two trajectories.\<close>

definition cols_add :: "('k :: linordered_field) vec list \<Rightarrow> 'k vec list \<Rightarrow> 'k vec list" where
  "cols_add X Y = map2 vec_add X Y"

definition cols_sub :: "('k :: linordered_field) vec list \<Rightarrow> 'k vec list \<Rightarrow> 'k vec list" where
  "cols_sub X Y = map2 vec_sub X Y"

definition cols_min :: "('k :: linordered_field) vec list \<Rightarrow> 'k vec list \<Rightarrow> 'k vec list" where
  "cols_min X Y = map2 (map2 min) X Y"

definition cols_max :: "('k :: linordered_field) vec list \<Rightarrow> 'k vec list \<Rightarrow> 'k vec list" where
  "cols_max X Y = map2 (map2 max) X Y"

text \<open>The largest absolute coefficient.\<close>

definition max_abs :: "('k :: linordered_field) vec list \<Rightarrow> 'k" where
  "max_abs X = fold max (map abs (concat X)) 0"

definition backward_step :: "('k :: linordered_field) tiny_cache \<Rightarrow> nat \<Rightarrow> 'k tiny_workspace \<Rightarrow> 'k tiny_workspace" where
  "backward_step c i w =
     (let pn = wo_p w ! (i + 1);
          w = w\<lparr>wo_d := (wo_d w)[i := mat_app (tc_Quu_inv c) (vec_add (vec_add (mat_app (mat_transpose (wo_Bdyn w)) pn) (wo_r w ! i)) (tc_BPf c))]\<rparr>
      in w\<lparr>wo_p := (wo_p w)[i := vec_add (vec_sub (vec_add (wo_q w ! i) (mat_app (tc_AmBKt c) pn)) (mat_app (mat_transpose (tc_Kinf c)) (wo_r w ! i))) (tc_APf c)]\<rparr>)"

fun backward_loop :: "('k :: linordered_field) tiny_cache \<Rightarrow> nat \<Rightarrow> 'k tiny_workspace \<Rightarrow> 'k tiny_workspace" where
  "backward_loop c 0 w = w"
| "backward_loop c (Suc i) w = backward_loop c i (backward_step c i w)"

definition backward_pass_grad :: "('k :: linordered_field) tiny_cache \<Rightarrow> 'k tiny_workspace \<Rightarrow> 'k tiny_workspace" where
  "backward_pass_grad c w = backward_loop c (wo_N w - 1) w"

definition forward_step :: "('k :: linordered_field) tiny_cache \<Rightarrow> nat \<Rightarrow> 'k tiny_workspace \<Rightarrow> 'k tiny_workspace" where
  "forward_step c i w =
     (let w = w\<lparr>wo_u := (wo_u w)[i := vec_sub (vec_scale (- 1) (mat_app (tc_Kinf c) (wo_x w ! i))) (wo_d w ! i)]\<rparr>
      in w\<lparr>wo_x := (wo_x w)[i + 1 := vec_add (vec_add (mat_app (wo_Adyn w) (wo_x w ! i)) (mat_app (wo_Bdyn w) (wo_u w ! i))) (wo_fdyn w)]\<rparr>)"

definition forward_pass :: "('k :: linordered_field) tiny_cache \<Rightarrow> 'k tiny_workspace \<Rightarrow> 'k tiny_workspace" where
  "forward_pass c w = fold (forward_step c) [0..<wo_N w - 1] w"

definition update_slack :: "('k :: linordered_field) tiny_settings \<Rightarrow> 'k tiny_workspace \<Rightarrow> 'k tiny_workspace" where
  "update_slack s w =
     (let w = w\<lparr>wo_vnew := cols_add (wo_x w) (wo_g w)\<rparr>;
          w = w\<lparr>wo_znew := cols_add (wo_u w) (wo_y w)\<rparr>;
          w = (if se_en_state_bound s then w\<lparr>wo_vnew := cols_min (wo_x_max w) (cols_max (wo_x_min w) (wo_vnew w))\<rparr> else w)
      in if se_en_input_bound s then w\<lparr>wo_znew := cols_min (wo_u_max w) (cols_max (wo_u_min w) (wo_znew w))\<rparr> else w)"

definition update_dual :: "('k :: linordered_field) tiny_workspace \<Rightarrow> 'k tiny_workspace" where
  "update_dual w =
     (let w = w\<lparr>wo_g := cols_sub (cols_add (wo_g w) (wo_x w)) (wo_vnew w)\<rparr>
      in w\<lparr>wo_y := cols_sub (cols_add (wo_y w) (wo_u w)) (wo_znew w)\<rparr>)"

text \<open>The rows of a reference scaled by the weights, negated.\<close>

definition weigh :: "('k :: linordered_field) vec \<Rightarrow> 'k vec list \<Rightarrow> 'k vec list" where
  "weigh Q X = map (\<lambda>col. map2 (\<lambda>a b. - (a * b)) col Q) X"

definition update_linear_cost :: "('k :: linordered_field) tiny_cache \<Rightarrow> 'k tiny_workspace \<Rightarrow> 'k tiny_workspace" where
  "update_linear_cost c w =
     (let w = w\<lparr>wo_q := cols_sub (weigh (wo_Q w) (wo_Xref w)) (map (vec_scale (tc_rho c)) (cols_sub (wo_vnew w) (wo_g w)))\<rparr>;
          w = w\<lparr>wo_r := cols_sub (weigh (wo_R w) (wo_Uref w)) (map (vec_scale (tc_rho c)) (cols_sub (wo_znew w) (wo_y w)))\<rparr>;
          k = wo_N w - 1
      in w\<lparr>wo_p := (wo_p w)[k := vec_sub (vec_scale (- 1) (mat_app (mat_transpose (tc_Pinf c)) (wo_Xref w ! k)))
            (vec_scale (tc_rho c) (vec_sub (wo_vnew w ! k) (wo_g w ! k)))]\<rparr>)"

text \<open>The remainder by zero is undefined.\<close>

definition termination_condition :: "('k :: linordered_field) tiny_settings \<Rightarrow> 'k tiny_cache \<Rightarrow> 'k tiny_workspace \<Rightarrow> (bool \<times> 'k tiny_workspace) option" where
  "termination_condition s c w =
     (if se_check_termination s = 0 then None
      else if wo_iter w smod se_check_termination s \<noteq> 0 then Some (False, w)
      else
        let w = w\<lparr>wo_primal_residual_state := max_abs (cols_sub (wo_x w) (wo_vnew w)),
                  wo_dual_residual_state := max_abs (cols_sub (wo_v w) (wo_vnew w)) * tc_rho c,
                  wo_primal_residual_input := max_abs (cols_sub (wo_u w) (wo_znew w)),
                  wo_dual_residual_input := max_abs (cols_sub (wo_z w) (wo_znew w)) * tc_rho c\<rparr>
        in Some (wo_primal_residual_state w < se_abs_pri_tol s \<and> wo_primal_residual_input w < se_abs_pri_tol s \<and>
             wo_dual_residual_state w < se_abs_dua_tol s \<and> wo_dual_residual_input w < se_abs_dua_tol s, w))"

section \<open>The solver\<close>

definition iterate :: "('k :: linordered_field) tiny_solver \<Rightarrow> 'k tiny_workspace" where
  "iterate S =
     (let c = ts_cache S; s = ts_settings S;
          w = backward_pass_grad c (ts_work S);
          w = forward_pass c w;
          w = update_slack s w;
          w = update_dual w;
          w = update_linear_cost c w
      in w\<lparr>wo_iter := wo_iter w + 1\<rparr>)"

definition save_solution :: "int \<Rightarrow> 'k tiny_solver \<Rightarrow> 'k tiny_solver" where
  "save_solution solved S = S\<lparr>ts_solution := \<lparr>so_iter = wo_iter (ts_work S), so_solved = solved, so_x = wo_vnew (ts_work S), so_u = wo_znew (ts_work S)\<rparr>\<rparr>"

text \<open>The loop, with the rounds that are left.\<close>

fun solve_loop :: "nat \<Rightarrow> ('k :: linordered_field) tiny_solver \<Rightarrow> (int \<times> 'k tiny_solver) option" where
  "solve_loop 0 S = Some (1, save_solution 0 S)"
| "solve_loop (Suc n) S = do {
     (done, w) \<leftarrow> termination_condition (ts_settings S) (ts_cache S) (iterate S);
     if done then Some (0, save_solution 1 (S\<lparr>ts_work := w\<lparr>wo_status := 1\<rparr>\<rparr>))
     else solve_loop n (S\<lparr>ts_work := w\<lparr>wo_v := wo_vnew w, wo_z := wo_znew w\<rparr>\<rparr>)
   }"

definition solve :: "('k :: linordered_field) tiny_solver \<Rightarrow> (int \<times> 'k tiny_solver) option" where
  "solve S = solve_loop (nat (se_max_iter (ts_settings S)))
     (S\<lparr>ts_solution := (ts_solution S)\<lparr>so_solved := 0, so_iter := 0\<rparr>, ts_work := (ts_work S)\<lparr>wo_status := 11, wo_iter := 0\<rparr>\<rparr>)"

section \<open>Set-up\<close>

text \<open>The Riccati recursion, with the rounds that are left.\<close>

definition riccati_gain :: "(('k :: linordered_field) mat \<Rightarrow> 'k mat option) \<Rightarrow> 'k mat \<Rightarrow> 'k mat \<Rightarrow> 'k mat \<Rightarrow> 'k mat \<Rightarrow> 'k mat option" where
  "riccati_gain minv A B R P = do {
     G \<leftarrow> minv (mat_add R (mat_mul (mat_mul (mat_transpose B) P) B));
     Some (mat_mul (mat_mul (mat_mul G (mat_transpose B)) P) A)
   }"

fun riccati ::
  "(('k :: linordered_field) mat \<Rightarrow> 'k mat option) \<Rightarrow> 'k mat \<Rightarrow> 'k mat \<Rightarrow> 'k mat \<Rightarrow> 'k mat \<Rightarrow> nat \<Rightarrow> 'k mat \<Rightarrow> 'k mat \<Rightarrow> 'k mat \<Rightarrow> 'k mat \<Rightarrow>
   ('k mat \<times> 'k mat) option" where
  "riccati minv A B Q R 0 Ktp1 Ptp1 K P = Some (K, P)"
| "riccati minv A B Q R (Suc n) Ktp1 Ptp1 K P = do {
     K \<leftarrow> riccati_gain minv A B R Ptp1;
     let P = mat_add Q (mat_mul (mat_mul (mat_transpose A) Ptp1) (mat_sub A (mat_mul B K)));
     if max_abs (mat_sub K Ktp1) < 1 / 10 ^ 5 then Some (K, P) else riccati minv A B Q R n K P K P
   }"

definition tiny_precompute_and_set_cache ::
  "(('k :: linordered_field) mat \<Rightarrow> 'k mat option) \<Rightarrow> 'k mat \<Rightarrow> 'k mat \<Rightarrow> 'k vec \<Rightarrow> 'k mat \<Rightarrow> 'k mat \<Rightarrow> nat \<Rightarrow> nat \<Rightarrow> 'k \<Rightarrow> 'k tiny_cache option" where
  "tiny_precompute_and_set_cache minv A B f Q R nx nu rho = do {
     let Q1 = mat_add Q (mat_scale rho (mat_identity nx));
     let R1 = mat_add R (mat_scale rho (mat_identity nu));
     (Kinf, Pinf) \<leftarrow> riccati minv A B Q1 R1 1000 (mat_zero nu nx) (mat_diag (replicate nx rho)) (mat_zero nu nx) (mat_zero nx nx);
     Quu_inv \<leftarrow> minv (mat_add R1 (mat_mul (mat_mul (mat_transpose B) Pinf) B));
     let AmBKt = mat_transpose (mat_sub A (mat_mul B Kinf));
     let APf = mat_app (mat_mul AmBKt Pinf) f;
     let BPf = mat_app (mat_mul (mat_transpose B) Pinf) f;
     Some \<lparr>tc_rho = rho, tc_Kinf = Kinf, tc_Pinf = Pinf, tc_Quu_inv = Quu_inv, tc_AmBKt = AmBKt, tc_APf = APf, tc_BPf = BPf\<rparr>
   }"

definition tiny_set_default_settings :: "('k :: linordered_field) tiny_settings" where
  "tiny_set_default_settings = \<lparr>se_abs_pri_tol = 1 / 1000, se_abs_dua_tol = 1 / 1000, se_max_iter = 1000, se_check_termination = 1,
     se_en_state_bound = True, se_en_input_bound = True\<rparr>"

definition diagonal :: "'k mat \<Rightarrow> 'k vec" where
  "diagonal A = map (\<lambda>i. A ! i ! i) [0..<length A]"

text \<open>
  \<^verbatim>\<open>tiny_setup\<close> for arguments of the announced shapes; the bounds are set later.
\<close>

definition tiny_setup ::
  "(('k :: linordered_field) mat \<Rightarrow> 'k mat option) \<Rightarrow> 'k mat \<Rightarrow> 'k mat \<Rightarrow> 'k vec \<Rightarrow> 'k mat \<Rightarrow> 'k mat \<Rightarrow> 'k \<Rightarrow> nat \<Rightarrow> nat \<Rightarrow> nat \<Rightarrow> 'k tiny_solver option" where
  "tiny_setup minv A B f Q R rho nx nu N = do {
     let xs = replicate N (replicate nx 0);
     let us = replicate (N - 1) (replicate nu 0);
     let Q' = diagonal (mat_add Q (mat_scale rho (mat_identity nx)));
     let R' = diagonal (mat_add R (mat_scale rho (mat_identity nu)));
     cache \<leftarrow> tiny_precompute_and_set_cache minv A B f (mat_diag Q') (mat_diag R') nx nu rho;
     Some \<lparr>ts_solution = \<lparr>so_iter = 0, so_solved = 0, so_x = xs, so_u = us\<rparr>, ts_settings = tiny_set_default_settings, ts_cache = cache,
       ts_work = \<lparr>wo_nx = nx, wo_nu = nu, wo_N = N, wo_x = xs, wo_u = us, wo_q = xs, wo_r = us, wo_p = xs, wo_d = us, wo_v = xs, wo_vnew = xs,
         wo_z = us, wo_znew = us, wo_g = xs, wo_y = us, wo_x_min = [], wo_x_max = [], wo_u_min = [], wo_u_max = [], wo_Q = Q', wo_R = R',
         wo_Adyn = A, wo_Bdyn = B, wo_fdyn = f, wo_Xref = xs, wo_Uref = us, wo_primal_residual_state = 0, wo_primal_residual_input = 0,
         wo_dual_residual_state = 0, wo_dual_residual_input = 0, wo_status = 0, wo_iter = 0\<rparr>\<rparr>
   }"

definition tiny_set_bound_constraints ::
  "'k vec list \<Rightarrow> 'k vec list \<Rightarrow> 'k vec list \<Rightarrow> 'k vec list \<Rightarrow> 'k tiny_solver \<Rightarrow> 'k tiny_solver" where
  "tiny_set_bound_constraints x_min x_max u_min u_max S =
     S\<lparr>ts_work := (ts_work S)\<lparr>wo_x_min := x_min, wo_x_max := x_max, wo_u_min := u_min, wo_u_max := u_max\<rparr>\<rparr>"

definition tiny_set_x0 :: "'k vec \<Rightarrow> 'k tiny_solver \<Rightarrow> 'k tiny_solver" where
  "tiny_set_x0 x0 S = S\<lparr>ts_work := (ts_work S)\<lparr>wo_x := (wo_x (ts_work S))[0 := x0]\<rparr>\<rparr>"

definition set_reference :: "'k vec list \<Rightarrow> 'k tiny_solver \<Rightarrow> 'k tiny_solver" where
  "set_reference x_ref S = S\<lparr>ts_work := (ts_work S)\<lparr>wo_Xref := x_ref\<rparr>\<rparr>"

section \<open>Shapes\<close>

definition work_ok :: "('k :: linordered_field) tiny_workspace \<Rightarrow> bool" where
  "work_ok w \<longleftrightarrow> 0 < wo_nx w \<and> 0 < wo_nu w \<and> 2 \<le> wo_N w \<and>
     list_all (is_mat (wo_N w) (wo_nx w)) [wo_x w, wo_q w, wo_p w, wo_v w, wo_vnew w, wo_g w, wo_x_min w, wo_x_max w, wo_Xref w] \<and>
     list_all (is_mat (wo_N w - 1) (wo_nu w)) [wo_u w, wo_r w, wo_d w, wo_z w, wo_znew w, wo_y w, wo_u_min w, wo_u_max w, wo_Uref w] \<and>
     length (wo_Q w) = wo_nx w \<and> length (wo_R w) = wo_nu w \<and>
     is_mat (wo_nx w) (wo_nx w) (wo_Adyn w) \<and> is_mat (wo_nx w) (wo_nu w) (wo_Bdyn w) \<and> length (wo_fdyn w) = wo_nx w"

definition cache_ok :: "nat \<Rightarrow> nat \<Rightarrow> ('k :: linordered_field) tiny_cache \<Rightarrow> bool" where
  "cache_ok nx nu c \<longleftrightarrow> is_mat nu nx (tc_Kinf c) \<and> is_mat nx nx (tc_Pinf c) \<and> is_mat nu nu (tc_Quu_inv c) \<and> is_mat nx nx (tc_AmBKt c) \<and>
     length (tc_APf c) = nx \<and> length (tc_BPf c) = nu"

text \<open>What no pass changes.\<close>

definition same_problem :: "'k tiny_workspace \<Rightarrow> 'k tiny_workspace \<Rightarrow> bool" where
  "same_problem w w' \<longleftrightarrow> wo_nx w' = wo_nx w \<and> wo_nu w' = wo_nu w \<and> wo_N w' = wo_N w \<and> wo_Q w' = wo_Q w \<and> wo_R w' = wo_R w \<and>
     wo_Adyn w' = wo_Adyn w \<and> wo_Bdyn w' = wo_Bdyn w \<and> wo_fdyn w' = wo_fdyn w \<and> wo_Xref w' = wo_Xref w \<and> wo_Uref w' = wo_Uref w \<and>
     wo_x_min w' = wo_x_min w \<and> wo_x_max w' = wo_x_max w \<and> wo_u_min w' = wo_u_min w \<and> wo_u_max w' = wo_u_max w"

lemma same_problem_trans: "same_problem a b \<Longrightarrow> same_problem b c \<Longrightarrow> same_problem a c"
  by (simp add: same_problem_def)

lemma is_mat_update: "is_mat r c X \<Longrightarrow> length v = c \<Longrightarrow> is_mat r c (X[i := v])"
  by (auto simp: is_mat_def dest!: subsetD [OF set_update_subset_insert])

lemma cols_shape:
  assumes "is_mat r c X" "is_mat r c Y"
  shows "is_mat r c (cols_add X Y)" "is_mat r c (cols_sub X Y)" "is_mat r c (cols_min X Y)" "is_mat r c (cols_max X Y)"
  using assms by (auto intro!: is_matI simp: cols_add_def cols_sub_def cols_min_def cols_max_def is_mat_length is_mat_row)

lemma weigh_shape: "is_mat r c X \<Longrightarrow> length Q = c \<Longrightarrow> is_mat r c (weigh Q X)"
  by (auto simp: is_mat_def weigh_def)

lemma scale_shape: "is_mat r c X \<Longrightarrow> is_mat r c (map (vec_scale k) X)"
  by (auto simp: is_mat_def)

lemma transpose_length: "is_mat r c A \<Longrightarrow> 0 < r \<Longrightarrow> length (mat_transpose A) = c"
  by (drule (1) mat_transpose_shape) (rule is_mat_length)

lemma backward_step_ok:
  assumes "work_ok w" "cache_ok (wo_nx w) (wo_nu w) c" "i < wo_N w - 1"
  shows "work_ok (backward_step c i w) \<and> same_problem w (backward_step c i w) \<and> wo_q (backward_step c i w) = wo_q w \<and> wo_r (backward_step c i w) = wo_r w \<and>
    wo_x (backward_step c i w) = wo_x w"
proof -
  have i: "i + 1 < wo_N w" "i < wo_N w" using assms(3) by simp_all
  have l: "length (wo_p w ! (i + 1)) = wo_nx w" "length (wo_r w ! i) = wo_nu w" "length (wo_q w ! i) = wo_nx w"
    using assms i by (auto simp: work_ok_def is_mat_row)
  have m: "length (mat_app (tc_Quu_inv c) z) = wo_nu w" "length (mat_app (tc_AmBKt c) z) = wo_nx w" "length (mat_app (mat_transpose (tc_Kinf c)) z) = wo_nx w" for z
    using assms(1,2) by (auto simp: work_ok_def cache_ok_def dest: is_mat_length transpose_length)
  have a: "length (tc_APf c) = wo_nx w" using assms(2) by (simp add: cache_ok_def)
  show ?thesis using assms(1) l m a by (auto simp: backward_step_def Let_def work_ok_def same_problem_def intro!: is_mat_update)
qed

lemma backward_loop_ok:
  "work_ok w \<Longrightarrow> cache_ok (wo_nx w) (wo_nu w) c \<Longrightarrow> k \<le> wo_N w - 1 \<Longrightarrow>
     work_ok (backward_loop c k w) \<and> same_problem w (backward_loop c k w) \<and> wo_q (backward_loop c k w) = wo_q w \<and> wo_r (backward_loop c k w) = wo_r w \<and>
     wo_x (backward_loop c k w) = wo_x w"
proof (induction k arbitrary: w)
  case (Suc k)
  note s = backward_step_ok [OF Suc.prems(1,2), of k]
  then show ?case using Suc.IH [of "backward_step c k w"] Suc.prems by (auto simp: same_problem_def)
qed (simp add: same_problem_def)

lemma forward_step_ok:
  assumes "work_ok w" "cache_ok (wo_nx w) (wo_nu w) c" "i < wo_N w - 1"
  shows "work_ok (forward_step c i w) \<and> same_problem w (forward_step c i w)"
proof -
  have l: "length (wo_d w ! i) = wo_nu w" using assms by (auto simp: work_ok_def is_mat_row)
  have m: "length (mat_app (tc_Kinf c) z) = wo_nu w" "length (mat_app (wo_Adyn w) z) = wo_nx w" "length (mat_app (wo_Bdyn w) z) = wo_nx w" for z
    using assms(1,2) by (auto simp: work_ok_def cache_ok_def dest: is_mat_length)
  show ?thesis using assms(1) l m by (auto simp: forward_step_def Let_def work_ok_def same_problem_def intro!: is_mat_update)
qed

lemma fold_forward_ok:
  assumes "work_ok w" "cache_ok (wo_nx w) (wo_nu w) c" "k \<le> wo_N w - 1"
  shows "work_ok (fold (forward_step c) [0..<k] w) \<and> same_problem w (fold (forward_step c) [0..<k] w)"
  using assms(3)
proof (induction k)
  case 0
  then show ?case using assms(1) by (simp add: same_problem_def)
next
  case (Suc k)
  then have ih: "work_ok (fold (forward_step c) [0..<k] w)" "same_problem w (fold (forward_step c) [0..<k] w)" by simp_all
  have "cache_ok (wo_nx (fold (forward_step c) [0..<k] w)) (wo_nu (fold (forward_step c) [0..<k] w)) c" "k < wo_N (fold (forward_step c) [0..<k] w) - 1"
    using ih(2) assms(2) Suc.prems by (simp_all add: same_problem_def)
  from forward_step_ok [OF ih(1) this] show ?case using ih(2) by (auto intro: same_problem_trans)
qed

lemma update_slack_ok: "work_ok w \<Longrightarrow> work_ok (update_slack s w) \<and> same_problem w (update_slack s w)"
  by (auto simp: update_slack_def Let_def work_ok_def same_problem_def intro!: cols_shape)

lemma update_dual_ok: "work_ok w \<Longrightarrow> work_ok (update_dual w) \<and> same_problem w (update_dual w)"
  by (auto simp: update_dual_def Let_def work_ok_def same_problem_def intro!: cols_shape)

lemma update_linear_cost_ok:
  assumes "work_ok w" "cache_ok (wo_nx w) (wo_nu w) c"
  shows "work_ok (update_linear_cost c w) \<and> same_problem w (update_linear_cost c w)"
proof -
  have k: "wo_N w - 1 < wo_N w" using assms(1) by (auto simp: work_ok_def)
  then have l: "length (wo_vnew w ! (wo_N w - 1)) = wo_nx w" "length (wo_g w ! (wo_N w - 1)) = wo_nx w"
    using assms(1) by (auto simp: work_ok_def is_mat_row)
  have m: "length (mat_app (mat_transpose (tc_Pinf c)) z) = wo_nx w" for z
    using assms by (auto simp: work_ok_def cache_ok_def intro: transpose_length)
  show ?thesis using assms(1) l m
    by (auto simp: update_linear_cost_def Let_def work_ok_def same_problem_def intro!: cols_shape weigh_shape scale_shape is_mat_update)
qed

section \<open>The trajectory\<close>

definition dynamic :: "('k :: linordered_field) tiny_workspace \<Rightarrow> nat \<Rightarrow> bool" where
  "dynamic w i \<longleftrightarrow> wo_x w ! (i + 1) = vec_add (vec_add (mat_app (wo_Adyn w) (wo_x w ! i)) (mat_app (wo_Bdyn w) (wo_u w ! i))) (wo_fdyn w)"

definition policy :: "('k :: linordered_field) tiny_cache \<Rightarrow> 'k tiny_workspace \<Rightarrow> nat \<Rightarrow> bool" where
  "policy c w i \<longleftrightarrow> wo_u w ! i = vec_sub (vec_scale (- 1) (mat_app (tc_Kinf c) (wo_x w ! i))) (wo_d w ! i)"

lemma forward_step_follows:
  assumes "work_ok w" "i < wo_N w - 1"
  shows "dynamic (forward_step c i w) i" "policy c (forward_step c i w) i"
    and "\<And>j. j < i \<Longrightarrow> dynamic (forward_step c i w) j = dynamic w j \<and> policy c (forward_step c i w) j = policy c w j"
    and "wo_x (forward_step c i w) ! 0 = wo_x w ! 0" "wo_d (forward_step c i w) = wo_d w"
proof -
  have l: "length (wo_x w) = wo_N w" "length (wo_u w) = wo_N w - 1" using assms(1) by (auto simp: work_ok_def dest: is_mat_length)
  show "dynamic (forward_step c i w) i" "policy c (forward_step c i w) i" "wo_x (forward_step c i w) ! 0 = wo_x w ! 0" "wo_d (forward_step c i w) = wo_d w"
    using assms l by (simp_all add: forward_step_def Let_def dynamic_def policy_def)
  show "dynamic (forward_step c i w) j = dynamic w j \<and> policy c (forward_step c i w) j = policy c w j" if "j < i" for j
    using that assms l by (simp add: forward_step_def Let_def dynamic_def policy_def)
qed

lemma fold_forward_follows:
  assumes "work_ok w" "cache_ok (wo_nx w) (wo_nu w) c" "k \<le> wo_N w - 1"
  shows "(\<forall>i < k. dynamic (fold (forward_step c) [0..<k] w) i \<and> policy c (fold (forward_step c) [0..<k] w) i) \<and>
    wo_x (fold (forward_step c) [0..<k] w) ! 0 = wo_x w ! 0 \<and> wo_d (fold (forward_step c) [0..<k] w) = wo_d w"
  using assms(3)
proof (induction k)
  case (Suc k)
  let ?w = "fold (forward_step c) [0..<k] w"
  have "work_ok ?w" "k < wo_N ?w - 1" using fold_forward_ok [OF assms(1,2), of k] Suc.prems by (simp_all add: same_problem_def)
  note s = forward_step_follows [OF this, where c = c]
  show ?case using s Suc.IH Suc.prems by (auto simp: less_Suc_eq)
qed simp

lemma passes:
  assumes "work_ok w" "cache_ok (wo_nx w) (wo_nu w) c"
  shows "work_ok (forward_pass c (backward_pass_grad c w))" "same_problem w (forward_pass c (backward_pass_grad c w))"
    "wo_x (forward_pass c (backward_pass_grad c w)) ! 0 = wo_x w ! 0"
    "i < wo_N w - 1 \<Longrightarrow> dynamic (forward_pass c (backward_pass_grad c w)) i"
    "i < wo_N w - 1 \<Longrightarrow> policy c (forward_pass c (backward_pass_grad c w)) i"
    "wo_d (forward_pass c (backward_pass_grad c w)) = wo_d (backward_pass_grad c w)"
proof -
  let ?b = "backward_pass_grad c w"
  have b: "work_ok ?b" "same_problem w ?b" "wo_x ?b = wo_x w"
    using backward_loop_ok [OF assms, of "wo_N w - 1"] by (simp_all add: backward_pass_grad_def)
  have cb: "cache_ok (wo_nx ?b) (wo_nu ?b) c" "wo_N ?b = wo_N w" using b(2) assms(2) by (simp_all add: same_problem_def)
  note ok = fold_forward_ok [OF b(1) cb(1) order_refl] and fo = fold_forward_follows [OF b(1) cb(1) order_refl]
  show "work_ok (forward_pass c ?b)" "same_problem w (forward_pass c ?b)" "wo_x (forward_pass c ?b) ! 0 = wo_x w ! 0"
    "wo_d (forward_pass c ?b) = wo_d ?b"
    using ok fo b same_problem_trans [OF b(2)] by (simp_all add: forward_pass_def)
  show "i < wo_N w - 1 \<Longrightarrow> dynamic (forward_pass c ?b) i" "i < wo_N w - 1 \<Longrightarrow> policy c (forward_pass c ?b) i"
    using fo cb(2) by (simp_all add: forward_pass_def)
qed

section \<open>The bounds\<close>

definition bounds_ordered :: "('k :: linordered_field) tiny_workspace \<Rightarrow> bool" where
  "bounds_ordered w \<longleftrightarrow> (\<forall>i < wo_N w - 1. \<forall>j < wo_nu w. wo_u_min w ! i ! j \<le> wo_u_max w ! i ! j)"

definition within_bounds :: "('k :: linordered_field) tiny_workspace \<Rightarrow> bool" where
  "within_bounds w \<longleftrightarrow> (\<forall>i < wo_N w - 1. \<forall>j < wo_nu w. wo_u_min w ! i ! j \<le> wo_znew w ! i ! j \<and> wo_znew w ! i ! j \<le> wo_u_max w ! i ! j)"

lemma cols_nth:
  assumes "is_mat r c X" "is_mat r c Y" "i < r"
  shows "cols_min X Y ! i = map2 min (X ! i) (Y ! i)" "cols_max X Y ! i = map2 max (X ! i) (Y ! i)"
    "cols_add X Y ! i = vec_add (X ! i) (Y ! i)" "cols_sub X Y ! i = vec_sub (X ! i) (Y ! i)"
  using assms by (simp_all add: cols_min_def cols_max_def cols_add_def cols_sub_def is_mat_length)

lemma clip_nth:
  assumes "is_mat r c L" "is_mat r c U" "is_mat r c X" "i < r" "j < c"
  shows "cols_min U (cols_max L X) ! i ! j = min (U ! i ! j) (max (L ! i ! j) (X ! i ! j))"
  using assms cols_shape(4) [OF assms(1,3)] by (simp add: cols_nth is_mat_row)

lemma update_slack_bounds:
  assumes "work_ok w" "bounds_ordered w" "se_en_input_bound s"
  shows "within_bounds (update_slack s w)"
proof -
  have "is_mat (wo_N w - 1) (wo_nu w) (wo_u_min w)" "is_mat (wo_N w - 1) (wo_nu w) (wo_u_max w)" "is_mat (wo_N w - 1) (wo_nu w) (cols_add (wo_u w) (wo_y w))"
    using assms(1) by (auto simp: work_ok_def intro: cols_shape)
  note clip_nth [OF this]
  then show ?thesis using assms(2,3) by (auto simp: update_slack_def Let_def within_bounds_def bounds_ordered_def)
qed

lemma max_abs_bound:
  assumes "is_mat r c X" "i < r" "j < c"
  shows "\<bar>X ! i ! j\<bar> \<le> max_abs X"
proof -
  have f: "x \<in> set xs \<Longrightarrow> x \<le> fold max xs a" "a \<le> fold max xs a" for x a :: 'a and xs
    by (induction xs arbitrary: a) (auto intro: order_trans [OF max.cobounded1] order_trans [OF max.cobounded2])
  have "X ! i \<in> set X" "X ! i ! j \<in> set (X ! i)" using is_mat_length [OF assms(1)] is_mat_row [OF assms(1,2)] assms(2,3) by simp_all
  then have "X ! i ! j \<in> set (concat X)" by auto
  then show ?thesis unfolding max_abs_def by (intro f(1)) simp
qed

section \<open>The loop\<close>

text \<open>What holds of a workspace after a round.\<close>

definition round_ok :: "('k :: linordered_field) tiny_workspace \<Rightarrow> 'k tiny_workspace \<Rightarrow> bool" where
  "round_ok w0 w \<longleftrightarrow> work_ok w \<and> same_problem w0 w \<and> wo_x w ! 0 = wo_x w0 ! 0 \<and> (\<forall>i < wo_N w - 1. dynamic w i)"

lemma iterate_ok:
  assumes "work_ok (ts_work S)" "cache_ok (wo_nx (ts_work S)) (wo_nu (ts_work S)) (ts_cache S)"
  shows "round_ok (ts_work S) (iterate S)" "wo_iter (iterate S) = wo_iter (ts_work S) + 1"
    "bounds_ordered (ts_work S) \<Longrightarrow> se_en_input_bound (ts_settings S) \<Longrightarrow> within_bounds (iterate S)"
proof -
  let ?c = "ts_cache S" and ?w = "ts_work S" and ?s = "ts_settings S"
  let ?a = "forward_pass ?c (backward_pass_grad ?c ?w)"
  let ?b = "update_slack ?s ?a"
  let ?d = "update_dual ?b"
  let ?e = "update_linear_cost ?c ?d"
  note p = passes [OF assms]
  have b: "work_ok ?b" "same_problem ?w ?b" using update_slack_ok [OF p(1)] same_problem_trans [OF p(2)] by blast+
  have d: "work_ok ?d" "same_problem ?w ?d" using update_dual_ok [OF b(1)] same_problem_trans [OF b(2)] by blast+
  have "cache_ok (wo_nx ?d) (wo_nu ?d) ?c" using d(2) assms(2) by (simp add: same_problem_def)
  from update_linear_cost_ok [OF d(1) this] have e: "work_ok ?e" "same_problem ?w ?e" using same_problem_trans [OF d(2)] by blast+
  have st: "wo_x ?e = wo_x ?a" "wo_u ?e = wo_u ?a" "wo_znew ?e = wo_znew ?b"
    by (simp_all add: update_linear_cost_def update_dual_def update_slack_def Let_def)
  have it: "iterate S = ?e\<lparr>wo_iter := wo_iter ?e + 1\<rparr>" by (simp add: iterate_def Let_def)
  have sp: "wo_Adyn ?e = wo_Adyn ?a" "wo_Bdyn ?e = wo_Bdyn ?a" "wo_fdyn ?e = wo_fdyn ?a" "wo_N ?e = wo_N ?w"
    using e(2) p(2) by (simp_all add: same_problem_def)
  have w: "work_ok (iterate S)" "same_problem ?w (iterate S)" using e by (simp_all add: it work_ok_def same_problem_def)
  have dy: "dynamic (iterate S) i" if "i < wo_N (iterate S) - 1" for i
    using p(4) [of i] that sp st by (simp add: it dynamic_def)
  show "round_ok ?w (iterate S)" unfolding round_ok_def using w dy p(3) st by (simp add: it)
  have bl: "wo_iter (backward_loop ?c k w) = wo_iter w" for k w by (induction k arbitrary: w) (simp_all add: backward_step_def Let_def)
  have fl: "wo_iter (fold (forward_step ?c) ks w) = wo_iter w" for ks w by (induction ks arbitrary: w) (simp_all add: forward_step_def Let_def)
  show "wo_iter (iterate S) = wo_iter ?w + 1"
    by (simp add: it update_linear_cost_def update_dual_def update_slack_def forward_pass_def backward_pass_grad_def Let_def bl fl)
  show "within_bounds (iterate S)" if "bounds_ordered ?w" "se_en_input_bound ?s"
  proof -
    have "bounds_ordered ?a" using that(1) p(2) by (simp add: bounds_ordered_def same_problem_def)
    from update_slack_bounds [OF p(1) this that(2)] show ?thesis using e(2) b(2) st by (simp add: it within_bounds_def same_problem_def)
  qed
qed

lemma termination_condition_total:
  assumes "se_check_termination s \<noteq> 0"
  obtains d w' where "termination_condition s c w = Some (d, w')"
    "work_ok w \<Longrightarrow> work_ok w'" "same_problem w w'" "wo_x w' = wo_x w" "wo_u w' = wo_u w" "wo_vnew w' = wo_vnew w" "wo_znew w' = wo_znew w" "wo_iter w' = wo_iter w"
    "d \<Longrightarrow> max_abs (cols_sub (wo_x w) (wo_vnew w)) < se_abs_pri_tol s \<and> max_abs (cols_sub (wo_u w) (wo_znew w)) < se_abs_pri_tol s"
proof (cases "wo_iter w smod se_check_termination s \<noteq> 0")
  case True
  then show thesis using assms by (intro that [of False w]) (simp_all add: termination_condition_def same_problem_def)
next
  case False
  let ?w = "w\<lparr>wo_primal_residual_state := max_abs (cols_sub (wo_x w) (wo_vnew w)), wo_dual_residual_state := max_abs (cols_sub (wo_v w) (wo_vnew w)) * tc_rho c,
    wo_primal_residual_input := max_abs (cols_sub (wo_u w) (wo_znew w)), wo_dual_residual_input := max_abs (cols_sub (wo_z w) (wo_znew w)) * tc_rho c\<rparr>"
  let ?d = "wo_primal_residual_state ?w < se_abs_pri_tol s \<and> wo_primal_residual_input ?w < se_abs_pri_tol s \<and>
    wo_dual_residual_state ?w < se_abs_dua_tol s \<and> wo_dual_residual_input ?w < se_abs_dua_tol s"
  show thesis
    using assms False by (intro that [of ?d ?w]) (simp_all add: termination_condition_def Let_def work_ok_def same_problem_def)
qed

text \<open>What the solver hands out.\<close>

definition answer :: "('k :: linordered_field) tiny_solver \<Rightarrow> int \<Rightarrow> 'k tiny_solver \<Rightarrow> bool" where
  "answer S code S' \<longleftrightarrow> round_ok (ts_work S) (ts_work S') \<and> within_bounds (ts_work S') \<and> ts_settings S' = ts_settings S \<and> ts_cache S' = ts_cache S \<and>
     so_x (ts_solution S') = wo_vnew (ts_work S') \<and> so_u (ts_solution S') = wo_znew (ts_work S') \<and>
     so_iter (ts_solution S') = wo_iter (ts_work S') \<and> so_solved (ts_solution S') = 1 - code \<and> code \<in> {0, 1} \<and>
     (code = 0 \<longrightarrow> max_abs (cols_sub (wo_x (ts_work S')) (wo_vnew (ts_work S'))) < se_abs_pri_tol (ts_settings S) \<and>
       max_abs (cols_sub (wo_u (ts_work S')) (wo_znew (ts_work S'))) < se_abs_pri_tol (ts_settings S))"

lemma round_ok_trans: "round_ok a b \<Longrightarrow> round_ok b c \<Longrightarrow> round_ok a c"
  using same_problem_trans by (auto simp: round_ok_def)

lemma answer_from: "round_ok (ts_work S) (ts_work T) \<Longrightarrow> ts_settings T = ts_settings S \<Longrightarrow> ts_cache T = ts_cache S \<Longrightarrow> answer T code S' \<Longrightarrow> answer S code S'"
  by (auto simp: answer_def intro: round_ok_trans)

text \<open>Conditions of a solve.\<close>

definition solvable :: "('k :: linordered_field) tiny_solver \<Rightarrow> bool" where
  "solvable S \<longleftrightarrow> work_ok (ts_work S) \<and> cache_ok (wo_nx (ts_work S)) (wo_nu (ts_work S)) (ts_cache S) \<and> bounds_ordered (ts_work S) \<and>
     se_check_termination (ts_settings S) \<noteq> 0 \<and> se_en_input_bound (ts_settings S)"

lemma round_ok_copy: "round_ok w0 w \<Longrightarrow> work_ok w' \<Longrightarrow> same_problem w w' \<Longrightarrow> wo_x w' = wo_x w \<Longrightarrow> wo_u w' = wo_u w \<Longrightarrow> round_ok w0 w'"
  using same_problem_trans by (auto simp: round_ok_def same_problem_def dynamic_def)

lemma within_bounds_copy: "within_bounds w \<Longrightarrow> same_problem w w' \<Longrightarrow> wo_znew w' = wo_znew w \<Longrightarrow> within_bounds w'"
  by (simp add: within_bounds_def same_problem_def)

lemma solve_loop_step:
  assumes "solvable S"
  obtains (stop) S' where "\<And>k. solve_loop (Suc k) S = Some (0, S')" "answer S 0 S'" "wo_iter (ts_work S') = wo_iter (ts_work S) + 1"
  | (go) T where "\<And>k. solve_loop (Suc k) S = solve_loop k T" "solvable T" "round_ok (ts_work S) (ts_work T)" "within_bounds (ts_work T)"
      "wo_iter (ts_work T) = wo_iter (ts_work S) + 1" "ts_settings T = ts_settings S" "ts_cache T = ts_cache S"
proof -
  have pre: "work_ok (ts_work S)" "cache_ok (wo_nx (ts_work S)) (wo_nu (ts_work S)) (ts_cache S)" "bounds_ordered (ts_work S)"
    "se_check_termination (ts_settings S) \<noteq> 0" "se_en_input_bound (ts_settings S)" using assms by (simp_all add: solvable_def)
  note it = iterate_ok [OF pre(1,2)] and wb = iterate_ok(3) [OF pre(1,2,3,5)]
  obtain d w where t: "termination_condition (ts_settings S) (ts_cache S) (iterate S) = Some (d, w)"
    "work_ok (iterate S) \<Longrightarrow> work_ok w" "same_problem (iterate S) w" "wo_x w = wo_x (iterate S)" "wo_u w = wo_u (iterate S)"
    "wo_vnew w = wo_vnew (iterate S)" "wo_znew w = wo_znew (iterate S)" "wo_iter w = wo_iter (iterate S)"
    "d \<Longrightarrow> max_abs (cols_sub (wo_x (iterate S)) (wo_vnew (iterate S))) < se_abs_pri_tol (ts_settings S) \<and>
      max_abs (cols_sub (wo_u (iterate S)) (wo_znew (iterate S))) < se_abs_pri_tol (ts_settings S)"
    using termination_condition_total [OF pre(4)] by metis
  have r: "round_ok (ts_work S) w" "within_bounds w"
    using it(1) round_ok_copy [OF it(1) t(2) t(3-5)] within_bounds_copy [OF wb t(3,7)] by (simp_all add: round_ok_def)
  have w: "work_ok w" using r(1) by (simp add: round_ok_def)
  show thesis
  proof (cases d)
    case True
    let ?S = "save_solution 1 (S\<lparr>ts_work := w\<lparr>wo_status := 1\<rparr>\<rparr>)"
    have "work_ok (ts_work ?S)" "same_problem w (ts_work ?S)" "wo_x (ts_work ?S) = wo_x w" "wo_u (ts_work ?S) = wo_u w" "wo_znew (ts_work ?S) = wo_znew w"
      using w by (simp_all add: save_solution_def work_ok_def same_problem_def)
    note rs = round_ok_copy [OF r(1) this(1-4)] within_bounds_copy [OF r(2) this(2,5)]
    have "max_abs (cols_sub (wo_x w) (wo_vnew w)) < se_abs_pri_tol (ts_settings S)" "max_abs (cols_sub (wo_u w) (wo_znew w)) < se_abs_pri_tol (ts_settings S)"
      using t(4-7) t(9) [OF True] by simp_all
    then have "answer S 0 ?S" using rs by (simp add: answer_def save_solution_def)
    then show thesis using t(1,8) it(2) True by (intro stop [of ?S]) (simp_all add: save_solution_def)
  next
    case False
    let ?T = "S\<lparr>ts_work := w\<lparr>wo_v := wo_vnew w, wo_z := wo_znew w\<rparr>\<rparr>"
    have wk: "work_ok (ts_work ?T)" using w by (simp add: work_ok_def)
    have T: "round_ok (ts_work S) (ts_work ?T)" "within_bounds (ts_work ?T)"
      using round_ok_copy [OF r(1), of "ts_work ?T"] within_bounds_copy [OF r(2), of "ts_work ?T"] wk by (simp_all add: same_problem_def)
    have "solvable ?T" using T(1) pre wk by (simp add: solvable_def round_ok_def same_problem_def bounds_ordered_def)
    then show thesis using t(1,8) it(2) False T by (intro go [of ?T]) simp_all
  qed
qed

lemma solve_loop_answers:
  "solvable S \<Longrightarrow> \<exists>code S'. solve_loop (Suc n) S = Some (code, S') \<and> answer S code S' \<and> wo_iter (ts_work S') \<le> wo_iter (ts_work S) + int (Suc n)"
proof (induction n arbitrary: S)
  case 0
  then show ?case
  proof (cases rule: solve_loop_step)
    case (stop S')
    then show ?thesis by auto
  next
    case (go T)
    have "answer S 1 (save_solution 0 T)" using go(3,4,6,7) by (simp add: answer_def save_solution_def)
    then show ?thesis using go(1) [of 0] go(5) by (auto simp: save_solution_def)
  qed
next
  case (Suc n)
  from Suc.prems show ?case
  proof (cases rule: solve_loop_step)
    case (stop S')
    then show ?thesis by auto
  next
    case (go T)
    obtain code S' where S': "solve_loop (Suc n) T = Some (code, S')" "answer T code S'" "wo_iter (ts_work S') \<le> wo_iter (ts_work T) + int (Suc n)"
      using Suc.IH [OF go(2)] by blast
    have "answer S code S'" by (rule answer_from [OF go(3,6,7) S'(2)])
    then show ?thesis using go(1) [of "Suc n"] go(5) S' by auto
  qed
qed

section \<open>The set-up is solvable\<close>

lemma riccati_gain_shape:
  assumes "is_mat nx nx A" "is_mat nx nu B" "is_mat nx nx P" "is_mat nu nu R" "0 < nx" "0 < nu"
    and inverse: "\<And>M G. is_mat nu nu M \<Longrightarrow> minv M = Some G \<Longrightarrow> is_mat nu nu G" and "riccati_gain minv A B R P = Some K"
  shows "is_mat nu nx K"
proof -
  note Bt = mat_transpose_shape [OF assms(2,5)]
  have "is_mat nu nu (mat_add R (mat_mul (mat_mul (mat_transpose B) P) B))"
    by (intro mat_add_shape mat_mul_shape [OF mat_mul_shape [OF Bt assms(3,5)] assms(2,5)] assms(4))
  then obtain G where G: "is_mat nu nu G" "K = mat_mul (mat_mul (mat_mul G (mat_transpose B)) P) A"
    using assms(8) inverse by (auto simp: riccati_gain_def split: Option.bind_splits)
  show ?thesis unfolding G(2) by (intro mat_mul_shape [OF mat_mul_shape [OF mat_mul_shape [OF G(1) Bt assms(6)] assms(3,5)] assms(1,5)])
qed

lemma riccati_step_shape:
  assumes "is_mat nx nx A" "is_mat nx nu B" "is_mat nx nx P" "is_mat nx nx Q" "is_mat nu nx K" "0 < nx" "0 < nu"
  shows "is_mat nx nx (mat_add Q (mat_mul (mat_mul (mat_transpose A) P) (mat_sub A (mat_mul B K))))"
  by (intro mat_add_shape assms(4) mat_mul_shape [OF mat_mul_shape [OF mat_transpose_shape [OF assms(1,6)] assms(3,6)] mat_sub_shape [OF assms(1) mat_mul_shape [OF assms(2,5,7)]] assms(6)])

lemma riccati_shape:
  assumes "is_mat nx nx A" "is_mat nx nu B" "is_mat nx nx Q" "is_mat nu nu R" "0 < nx" "0 < nu"
    and inverse: "\<And>M G. is_mat nu nu M \<Longrightarrow> minv M = Some G \<Longrightarrow> is_mat nu nu G"
  shows "riccati minv A B Q R n Ktp1 Ptp1 K0 P0 = Some (K, P) \<Longrightarrow> is_mat nx nx Ptp1 \<Longrightarrow> is_mat nu nx K0 \<Longrightarrow> is_mat nx nx P0 \<Longrightarrow>
    is_mat nu nx K \<and> is_mat nx nx P"
proof (induction n arbitrary: Ktp1 Ptp1 K0 P0)
  case (Suc n)
  obtain K1 where K1: "riccati_gain minv A B R Ptp1 = Some K1" using Suc.prems(1) by (auto split: Option.bind_splits)
  note k = riccati_gain_shape [OF assms(1,2) Suc.prems(2) assms(4-6) inverse K1]
  note p = riccati_step_shape [OF assms(1,2) Suc.prems(2) assms(3) k assms(5,6)]
  show ?case using Suc.prems(1) Suc.IH [OF _ p k p] k p by (auto simp: K1 Let_def split: if_splits)
qed simp

lemma riccati_total: "(\<And>M. minv M \<noteq> None) \<Longrightarrow> riccati minv A B Q R n Ktp1 Ptp1 K P \<noteq> None"
  by (induction n arbitrary: Ktp1 Ptp1 K P) (auto simp: riccati_gain_def Let_def split: Option.bind_splits)

lemma tiny_setup_total:
  assumes "\<And>M. minv M \<noteq> None"
  shows "tiny_setup minv A B f Q R rho nx nu N \<noteq> None"
proof -
  have "tiny_precompute_and_set_cache minv A B f Q R nx nu rho \<noteq> None" for Q R
    using riccati_total [of minv, OF assms] assms by (simp add: tiny_precompute_and_set_cache_def Let_def bind_eq_None_conv del: not_None_eq split: prod.split)
  then show ?thesis by (simp add: tiny_setup_def Let_def bind_eq_None_conv)
qed

lemma cache_shape:
  assumes "is_mat nx nx A" "is_mat nx nu B" "length f = nx" "is_mat nx nx Q" "is_mat nu nu R" "0 < nx" "0 < nu"
    and inverse: "\<And>M G. is_mat nu nu M \<Longrightarrow> minv M = Some G \<Longrightarrow> is_mat nu nu G"
    and "tiny_precompute_and_set_cache minv A B f Q R nx nu rho = Some c"
  shows "cache_ok nx nu c"
proof -
  let ?Q = "mat_add Q (mat_scale rho (mat_identity nx))" and ?R = "mat_add R (mat_scale rho (mat_identity nu))"
  have QR: "is_mat nx nx ?Q" "is_mat nu nu ?R" by (intro mat_shapes assms)+
  obtain K P G where r: "riccati minv A B ?Q ?R 1000 (mat_zero nu nx) (mat_diag (replicate nx rho)) (mat_zero nu nx) (mat_zero nx nx) = Some (K, P)"
    and g: "minv (mat_add ?R (mat_mul (mat_mul (mat_transpose B) P) B)) = Some G"
    and c: "tc_Kinf c = K" "tc_Pinf c = P" "tc_Quu_inv c = G" "tc_AmBKt c = mat_transpose (mat_sub A (mat_mul B K))"
      "tc_APf c = mat_app (mat_mul (mat_transpose (mat_sub A (mat_mul B K))) P) f" "tc_BPf c = mat_app (mat_mul (mat_transpose B) P) f"
    using assms(9) by (auto simp: tiny_precompute_and_set_cache_def Let_def split: Option.bind_splits)
  have "is_mat nu nx K \<and> is_mat nx nx P"
    by (rule riccati_shape [OF assms(1,2) QR assms(6,7) _ r]) (erule (1) inverse, rule mat_diag_shape, simp, rule mat_zero_shape, rule mat_zero_shape)
  then have KP: "is_mat nu nx K" "is_mat nx nx P" by blast+
  note Bt = mat_transpose_shape [OF assms(2,6)] and AK = mat_transpose_shape [OF mat_sub_shape [OF assms(1) mat_mul_shape [OF assms(2) KP(1) assms(7)]] assms(6)]
  have G: "is_mat nu nu G" by (rule inverse [OF _ g]) (intro mat_add_shape QR mat_mul_shape [OF mat_mul_shape [OF Bt KP(2) assms(6)] assms(2,6)])
  show ?thesis unfolding cache_ok_def c using KP G AK is_mat_length [OF mat_mul_shape [OF AK KP(2) assms(6)]] is_mat_length [OF mat_mul_shape [OF Bt KP(2) assms(6)]] by simp
qed

lemma setup_solvable:
  assumes "is_mat nx nx A" "is_mat nx nu B" "length f = nx" "is_mat nx nx Q" "is_mat nu nu R" "0 < nx" "0 < nu" "2 \<le> N"
    and inverse: "\<And>M G. is_mat nu nu M \<Longrightarrow> minv M = Some G \<Longrightarrow> is_mat nu nu G"
    and made: "tiny_setup minv A B f Q R rho nx nu N = Some S"
    and bounds: "is_mat N nx x_min" "is_mat N nx x_max" "is_mat (N - 1) nu u_min" "is_mat (N - 1) nu u_max"
      "\<And>i j. i < N - 1 \<Longrightarrow> j < nu \<Longrightarrow> u_min ! i ! j \<le> u_max ! i ! j"
  shows "solvable (tiny_set_bound_constraints x_min x_max u_min u_max S)"
proof -
  let ?Q = "diagonal (mat_add Q (mat_scale rho (mat_identity nx)))" and ?R = "diagonal (mat_add R (mat_scale rho (mat_identity nu)))"
  have l: "length ?Q = nx" "length ?R = nu"
    using is_mat_length [OF mat_add_shape [OF assms(4) mat_scale_shape [OF mat_identity_shape]], of rho]
      is_mat_length [OF mat_add_shape [OF assms(5) mat_scale_shape [OF mat_identity_shape]], of rho] by (simp_all add: diagonal_def)
  obtain c where c: "tiny_precompute_and_set_cache minv A B f (mat_diag ?Q) (mat_diag ?R) nx nu rho = Some c"
    using made by (auto simp: tiny_setup_def Let_def split: Option.bind_splits)
  have "cache_ok nx nu c" by (rule cache_shape [OF assms(1-3) mat_diag_shape mat_diag_shape assms(6,7) inverse c]) (simp_all add: l)
  moreover have "is_mat N nx (replicate N (replicate nx 0))" "is_mat (N - 1) nu (replicate (N - 1) (replicate nu 0))" by (simp_all add: is_mat_def)
  ultimately show ?thesis
    using made assms(1-3,6-8) bounds l
    by (auto simp: tiny_setup_def Let_def c solvable_def work_ok_def bounds_ordered_def tiny_set_bound_constraints_def tiny_set_default_settings_def)
qed

lemma set_x0_solvable: "solvable S \<Longrightarrow> length x0 = wo_nx (ts_work S) \<Longrightarrow> solvable (tiny_set_x0 x0 S)"
  by (simp add: solvable_def tiny_set_x0_def work_ok_def bounds_ordered_def is_mat_update)

lemma set_reference_solvable: "solvable S \<Longrightarrow> is_mat (wo_N (ts_work S)) (wo_nx (ts_work S)) X \<Longrightarrow> solvable (set_reference X S)"
  by (simp add: solvable_def set_reference_def work_ok_def bounds_ordered_def)

section \<open>The solver answers\<close>

lemma solve_returns:
  assumes "solvable S" "1 \<le> se_max_iter (ts_settings S)"
  shows "\<exists>code S'. solve S = Some (code, S') \<and> answer S code S' \<and> solvable S' \<and> wo_iter (ts_work S') \<le> se_max_iter (ts_settings S)"
proof -
  let ?w = "ts_work S"
  let ?S = "S\<lparr>ts_solution := (ts_solution S)\<lparr>so_solved := 0, so_iter := 0\<rparr>, ts_work := ?w\<lparr>wo_status := 11, wo_iter := 0\<rparr>\<rparr>"
  have v: "solvable ?S" using assms(1) by (simp add: solvable_def work_ok_def bounds_ordered_def)
  obtain n where n: "nat (se_max_iter (ts_settings S)) = Suc n" using assms(2) by (cases "nat (se_max_iter (ts_settings S))") auto
  obtain code S' where s: "solve_loop (Suc n) ?S = Some (code, S')" "answer ?S code S'" "wo_iter (ts_work S') \<le> wo_iter (ts_work ?S) + int (Suc n)"
    using solve_loop_answers [OF v] by blast
  have "round_ok ?w (ts_work S')" using s(2) by (simp add: answer_def round_ok_def same_problem_def)
  then have a: "answer S code S'" "work_ok (ts_work S')" "same_problem ?w (ts_work S')" using s(2) by (simp_all add: answer_def round_ok_def)
  then have "solvable S'" using assms(1) by (simp add: solvable_def answer_def same_problem_def bounds_ordered_def)
  then show ?thesis using s(1,3) n a(1) by (auto simp: solve_def)
qed

text \<open>
  C12. Every solve of the planner's solver comes back, with the code 0 or 1, within the iteration limit of the settings. The working trajectory starts at the state that was
  set and follows the dynamics at every step; every input of the solution handed out lies within its bounds; with the code 0 it is closer than the primal tolerance to the
  input that the working trajectory used. The solver can be used again afterwards.
\<close>

theorem solver_answers:
  assumes "solvable S" "1 \<le> se_max_iter (ts_settings S)"
  shows "\<exists>code S'. solve S = Some (code, S') \<and> solvable S' \<and> (code = 0 \<or> code = 1) \<and> so_solved (ts_solution S') = 1 - code \<and>
     so_iter (ts_solution S') \<le> se_max_iter (ts_settings S) \<and> same_problem (ts_work S) (ts_work S') \<and> wo_x (ts_work S') ! 0 = wo_x (ts_work S) ! 0 \<and>
     (\<forall>i < wo_N (ts_work S) - 1. dynamic (ts_work S') i) \<and>
     (\<forall>i < wo_N (ts_work S) - 1. \<forall>j < wo_nu (ts_work S).
        wo_u_min (ts_work S) ! i ! j \<le> so_u (ts_solution S') ! i ! j \<and> so_u (ts_solution S') ! i ! j \<le> wo_u_max (ts_work S) ! i ! j \<and>
        (code = 0 \<longrightarrow> \<bar>wo_u (ts_work S') ! i ! j - so_u (ts_solution S') ! i ! j\<bar> < se_abs_pri_tol (ts_settings S)))"
proof -
  let ?w = "ts_work S"
  obtain code S' where s: "solve S = Some (code, S')" "answer S code S'" "solvable S'" "wo_iter (ts_work S') \<le> se_max_iter (ts_settings S)"
    using solve_returns [OF assms] by blast
  have sp: "same_problem ?w (ts_work S')" "wo_x (ts_work S') ! 0 = wo_x ?w ! 0" "\<forall>i < wo_N ?w - 1. dynamic (ts_work S') i" "work_ok (ts_work S')"
    using s(2) by (auto simp: answer_def round_ok_def same_problem_def)
  then have m: "is_mat (wo_N ?w - 1) (wo_nu ?w) (wo_u (ts_work S'))" "is_mat (wo_N ?w - 1) (wo_nu ?w) (wo_znew (ts_work S'))"
    by (simp_all add: work_ok_def same_problem_def)
  have r: "\<bar>wo_u (ts_work S') ! i ! j - wo_znew (ts_work S') ! i ! j\<bar> \<le> max_abs (cols_sub (wo_u (ts_work S')) (wo_znew (ts_work S')))"
    if "i < wo_N ?w - 1" "j < wo_nu ?w" for i j
    using max_abs_bound [OF cols_shape(2) [OF m] that] that m by (simp add: cols_nth is_mat_row)
  have t: "\<bar>wo_u (ts_work S') ! i ! j - wo_znew (ts_work S') ! i ! j\<bar> < se_abs_pri_tol (ts_settings S)"
    if "code = 0" "i < wo_N ?w - 1" "j < wo_nu ?w" for i j
    using s(2) order.strict_trans1 [OF r [OF that(2,3)]] that(1) by (simp add: answer_def)
  have b: "wo_u_min ?w ! i ! j \<le> wo_znew (ts_work S') ! i ! j \<and> wo_znew (ts_work S') ! i ! j \<le> wo_u_max ?w ! i ! j"
    if "i < wo_N ?w - 1" "j < wo_nu ?w" for i j
    using that s(2) sp(1) by (simp add: answer_def within_bounds_def same_problem_def)
  show ?thesis using s sp b t by (auto simp: answer_def)
qed

theorem solver_answers_witness:
  defines "S \<equiv> tiny_set_bound_constraints (replicate 3 [- 9, - 9]) (replicate 3 [9, 9]) (replicate 2 [- 1]) (replicate 2 [1 :: rat])
     (the (tiny_setup (\<lambda>M. Some [[1 / (M ! 0 ! 0)]]) [[1, 1 / 100], [0, 1]] [[0], [1 / 100]] [0, 0] [[1, 0], [0, 1]] [[1]] 1 2 1 3))"
  shows "\<exists>code S'. solve S = Some (code, S') \<and> -1 \<le> so_u (ts_solution S') ! 0 ! 0 \<and> so_u (ts_solution S') ! 0 ! 0 \<le> 1"
proof -
  obtain T where T: "tiny_setup (\<lambda>M. Some [[1 / (M ! 0 ! 0)]]) [[1, 1 / 100], [0, 1]] [[0], [1 / 100]] [0, 0] [[1, 0], [0, 1]] [[1]] 1 2 1 3 = Some (T :: rat tiny_solver)"
    using tiny_setup_total [of "\<lambda>M. Some [[1 / (M ! 0 ! 0) :: rat]]"] by fastforce
  have "solvable S" unfolding S_def T option.sel
    by (rule setup_solvable [OF _ _ _ _ _ _ _ _ _ T]) (auto simp: is_mat_def)
  moreover have "1 \<le> se_max_iter (ts_settings S)" "wo_N (ts_work S) = 3" "wo_nu (ts_work S) = 1" "wo_u_min (ts_work S) = replicate 2 [-1]" "wo_u_max (ts_work S) = replicate 2 [1]"
    using T by (auto simp: S_def tiny_setup_def Let_def tiny_set_bound_constraints_def tiny_set_default_settings_def split: Option.bind_splits)
  ultimately show ?thesis using solver_answers [of S] by fastforce
qed

end
