(* ===== verification/Lqr.thy ===== *)
theory Lqr
  imports Mpc
begin

text \<open>
  Why the two passes of the planner's solver are right: for a cache at the fixed point of its Riccati recursion, the inputs that the backward and the forward pass compute
  minimise the quadratic cost of the whole horizon over all input sequences. The proof is dynamic programming: \<open>completing_square\<close> is the step, \<open>cost_to_go\<close> the induction.
\<close>

section \<open>Cost\<close>

definition quad :: "('k :: linordered_field) mat \<Rightarrow> 'k vec \<Rightarrow> 'k" where
  "quad M x = vdot x (mat_app M x)"

definition dynamics :: "('k :: linordered_field) tiny_workspace \<Rightarrow> 'k vec \<Rightarrow> 'k vec \<Rightarrow> 'k vec" where
  "dynamics w x u = vec_add (vec_add (mat_app (wo_Adyn w) x) (mat_app (wo_Bdyn w) u)) (wo_fdyn w)"

text \<open>The cost from column \<open>i\<close> on, for the state there and the inputs that are left.\<close>

fun horizon_cost :: "('k :: linordered_field) tiny_workspace \<Rightarrow> 'k mat \<Rightarrow> 'k mat \<Rightarrow> 'k mat \<Rightarrow> nat \<Rightarrow> 'k vec \<Rightarrow> 'k vec list \<Rightarrow> 'k" where
  "horizon_cost w Q R P i x [] = quad P x / 2 + vdot (wo_p w ! i) x"
| "horizon_cost w Q R P i x (u # us) = quad Q x / 2 + vdot (wo_q w ! i) x + quad R u / 2 + vdot (wo_r w ! i) u +
     horizon_cost w Q R P (i + 1) (dynamics w x u) us"

definition input_hessian :: "('k :: linordered_field) tiny_workspace \<Rightarrow> 'k mat \<Rightarrow> 'k mat \<Rightarrow> 'k mat" where
  "input_hessian w R P = mat_add R (mat_mul (mat_mul (mat_transpose (wo_Bdyn w)) P) (wo_Bdyn w))"

text \<open>The cache that the set-up computes, for a recursion that has settled and an inverse that is one.\<close>

definition stationary :: "('k :: linordered_field) tiny_workspace \<Rightarrow> 'k mat \<Rightarrow> 'k mat \<Rightarrow> 'k tiny_cache \<Rightarrow> bool" where
  "stationary w Q R c \<longleftrightarrow>
     (let A = wo_Adyn w; B = wo_Bdyn w; P = tc_Pinf c; K = tc_Kinf c; G = tc_Quu_inv c in
      is_mat (wo_nx w) (wo_nx w) Q \<and> is_mat (wo_nu w) (wo_nu w) R \<and> symmetric (wo_nx w) P \<and> psd (wo_nu w) (input_hessian w R P) \<and>
      mat_mul (input_hessian w R P) G = mat_identity (wo_nu w) \<and>
      K = mat_mul (mat_mul (mat_mul G (mat_transpose B)) P) A \<and>
      P = mat_add Q (mat_mul (mat_mul (mat_transpose A) P) (mat_sub A (mat_mul B K))) \<and>
      tc_AmBKt c = mat_transpose (mat_sub A (mat_mul B K)) \<and>
      tc_APf c = mat_app (mat_mul (tc_AmBKt c) P) (wo_fdyn w) \<and>
      tc_BPf c = mat_app (mat_mul (mat_transpose B) P) (wo_fdyn w))"

section \<open>The step\<close>

lemma quad_add:
  assumes "symmetric n P" "0 < n" "length x = n" "length y = n"
  shows "quad P (vec_add x y) = quad P x + 2 * vdot x (mat_app P y) + quad P y"
proof -
  have m: "is_mat n n P" using assms(1) by (simp add: symmetric_def)
  then have l: "length (mat_app P z) = n" for z by (simp add: is_mat_length)
  show ?thesis
    using assms(3,4) vdot_symmetric [OF assms(1,2,4,3)] l
    by (simp add: quad_def mat_app_add [OF m] vdot_add vdot_add_left vdot_commute)
qed

lemma completing_square:
  assumes w: "work_ok w" and c: "cache_ok (wo_nx w) (wo_nu w) c" and st: "stationary w Q R c"
    and l: "length x = wo_nx w" "length u = wo_nu w" "length p = wo_nx w" "length q = wo_nx w" "length r = wo_nu w"
    and d: "d = mat_app (tc_Quu_inv c) (vec_add (vec_add (mat_app (mat_transpose (wo_Bdyn w)) p) r) (tc_BPf c))"
    and p': "p' = vec_add (vec_sub (vec_add q (mat_app (tc_AmBKt c) p)) (mat_app (mat_transpose (tc_Kinf c)) r)) (tc_APf c)"
  shows "quad Q x / 2 + vdot q x + quad R u / 2 + vdot r u + quad (tc_Pinf c) (dynamics w x u) / 2 + vdot p (dynamics w x u) =
    quad (tc_Pinf c) x / 2 + vdot p' x + (quad (tc_Pinf c) (wo_fdyn w) / 2 + vdot p (wo_fdyn w) - quad (input_hessian w R (tc_Pinf c)) d / 2) +
    quad (input_hessian w R (tc_Pinf c)) (vec_add u (vec_add (mat_app (tc_Kinf c) x) d)) / 2"
proof -
  define A B f P K G H where defs: "A = wo_Adyn w" "B = wo_Bdyn w" "f = wo_fdyn w" "P = tc_Pinf c" "K = tc_Kinf c" "G = tc_Quu_inv c" "H = input_hessian w R P"
  let ?n = "wo_nx w" and ?m = "wo_nu w"
  have n: "0 < ?n" "0 < ?m" and A: "is_mat ?n ?n A" and B: "is_mat ?n ?m B" and f: "length f = ?n"
    using w by (simp_all add: defs work_ok_def)
  have P: "is_mat ?n ?n P" and K: "is_mat ?m ?n K" and G: "is_mat ?m ?m G" and C: "is_mat ?n ?n (tc_AmBKt c)" and "length (tc_APf c) = ?n" "length (tc_BPf c) = ?m"
    using c by (simp_all add: defs cache_ok_def)
  have Q: "is_mat ?n ?n Q" and R: "is_mat ?m ?m R" and sP: "symmetric ?n P" and pH: "psd ?m H" and HG: "mat_mul H G = mat_identity ?m"
    and eK: "K = mat_mul (mat_mul (mat_mul G (mat_transpose B)) P) A"
    and eP: "P = mat_add Q (mat_mul (mat_mul (mat_transpose A) P) (mat_sub A (mat_mul B K)))"
    and eC: "tc_AmBKt c = mat_transpose (mat_sub A (mat_mul B K))" and eA: "tc_APf c = mat_app (mat_mul (tc_AmBKt c) P) f"
    and eB: "tc_BPf c = mat_app (mat_mul (mat_transpose B) P) f"
    using st unfolding defs stationary_def Let_def by blast+
  let ?a = "mat_app A x" and ?b = "mat_app B u" and ?k = "mat_app K x" and ?M = "mat_sub A (mat_mul B K)"
  let ?bk = "mat_app B ?k"
  note Bt = mat_transpose_shape [OF B n(1)] and Kt = mat_transpose_shape [OF K n(2)]
  have H: "is_mat ?m ?m H" using pH by (rule psd_shape)
  have BK: "is_mat ?n ?n (mat_mul B K)" by (rule mat_mul_shape [OF B K n(2)])
  note M = mat_sub_shape [OF A BK]
  note Mt = mat_transpose_shape [OF M n(1)] and At = mat_transpose_shape [OF A n(1)]
  have len: "length (mat_app P z) = ?n" "length (mat_app A z) = ?n" "length (mat_app B z) = ?n" "length (mat_app K z) = ?m" "length (mat_app G z) = ?m"
    "length (mat_app Q z) = ?n" "length (mat_app R z) = ?m" "length (mat_app (mat_transpose B) z) = ?m" "length (mat_app H z) = ?m"
    "length (mat_app ?M z) = ?n" "length (mat_app (mat_transpose ?M) z) = ?n" "length (mat_app (mat_transpose K) z) = ?n" "length (mat_app (mat_transpose A) z) = ?n" for z
    using P A B K G Q R Bt H M Mt Kt At by (simp_all only: vec_lengths is_mat_length)
  have HGz: "mat_app H (mat_app G z) = z" if "length z = ?m" for z
    using mat_mul_app [OF H G n(2) that] HG mat_identity_app [OF that] by simp
  have Mx: "mat_app ?M x = vec_sub ?a ?bk"
    using l by (simp add: mat_sub_app [OF A BK] mat_mul_app [OF B K n(2)])
  have kx: "?k = mat_app G (mat_app (mat_transpose B) (mat_app P ?a))"
    using l len by (simp add: eK mat_mul_app [OF mat_mul_shape [OF mat_mul_shape [OF G Bt n(2)] P n(1)] A n(1)] mat_mul_app [OF mat_mul_shape [OF G Bt n(2)] P n(1)] mat_mul_app [OF G Bt n(2)])
  have H1: "vdot z (mat_app H ?k) = vdot (mat_app B z) (mat_app P ?a)" if "length z = ?m" for z
    using that len by (simp add: kx HGz vdot_adjoint [OF B n(1)])
  have ap: "mat_app (mat_mul (mat_transpose B) P) z = mat_app (mat_transpose B) (mat_app P z)" if "length z = ?n" for z
    using that by (rule mat_mul_app [OF Bt P n(1)])
  have dv: "mat_app H d = vec_add (vec_add (mat_app (mat_transpose B) p) r) (mat_app (mat_transpose B) (mat_app P f))"
    using l len f by (simp add: d defs(2,6) [symmetric] eB ap HGz)
  have H2: "vdot z (mat_app H d) = vdot (mat_app B z) p + vdot z r + vdot (mat_app B z) (mat_app P f)" if "length z = ?m" for z
    using that l len by (simp add: dv vdot_add vdot_adjoint [OF B n(1)])
  have H3: "quad H u = quad R u + quad P ?b"
    using l len by (simp add: quad_def defs(7) input_hessian_def defs(2) [symmetric] mat_add_app [OF R mat_mul_shape [OF mat_mul_shape [OF Bt P n(1)] B n(1)]]
      mat_mul_app [OF mat_mul_shape [OF Bt P n(1)] B n(1)] ap vdot_add vdot_adjoint [OF B n(1)])
  have "mat_app P x = vec_add (mat_app Q x) (mat_app (mat_transpose A) (mat_app P (mat_app ?M x)))"
    using l len by (subst eP) (simp add: mat_add_app [OF Q mat_mul_shape [OF mat_mul_shape [OF At P n(1)] M n(1)]]
      mat_mul_app [OF mat_mul_shape [OF At P n(1)] M n(1)] mat_mul_app [OF At P n(1)])
  then have Px: "quad P x = quad Q x + vdot ?a (mat_app P ?a) - vdot ?a (mat_app P ?bk)"
    using l len by (simp add: quad_def vdot_add vdot_adjoint [OF A n(1), symmetric] Mx mat_app_sub [OF P] vdot_sub)
  have Mz: "vdot (mat_app (mat_transpose ?M) z) x = vdot ?a z - vdot ?bk z" if "length z = ?n" for z
    using that l len vdot_adjoint [OF M n(1) l(1) that] by (simp add: vdot_commute [of _ x] Mx vdot_sub_left)
  have Kz: "vdot (mat_app (mat_transpose K) r) x = vdot ?k r"
    using vdot_adjoint [OF K n(2) l(1,5)] by (simp add: vdot_commute)
  have px: "vdot p' x = vdot q x + (vdot ?a p - vdot ?bk p) - vdot ?k r + (vdot ?a (mat_app P f) - vdot ?bk (mat_app P f))"
    using l len f by (simp add: p' defs(5) [symmetric] eA eC mat_mul_app [OF Mt P n(1)] vdot_add_left vdot_sub_left Mz Kz)
  have sH: "symmetric ?m H" using pH by (simp add: psd_def)
  have dl: "length d = ?m" using len by (simp add: d defs(6) [symmetric])
  have dy: "dynamics w x u = vec_add (vec_add ?a ?b) f" by (simp add: dynamics_def defs)
  have sw: "vdot y (mat_app P z) = vdot z (mat_app P y)" if "length y = ?n" "length z = ?n" for y z
    using vdot_symmetric [OF sP n(1) that] by (simp add: vdot_commute)
  have e1: "quad P (vec_add (vec_add ?a ?b) f) = quad P ?a + 2 * vdot ?a (mat_app P ?b) + quad P ?b + 2 * (vdot ?a (mat_app P f) + vdot ?b (mat_app P f)) + quad P f"
    using len f by (simp add: quad_add [OF sP n(1)] vdot_add_left)
  have e2: "quad H (vec_add u (vec_add ?k d)) = quad H u + 2 * (vdot u (mat_app H ?k) + vdot u (mat_app H d)) + (quad H ?k + 2 * vdot ?k (mat_app H d) + quad H d)"
    using len l dl by (simp add: quad_add [OF sH n(2)] mat_app_add [OF H] vdot_add)
  have e3: "vdot p (vec_add (vec_add ?a ?b) f) = vdot ?a p + vdot ?b p + vdot p f"
    using len l f by (simp add: vdot_add vdot_commute)
  have e4: "quad H ?k = vdot ?a (mat_app P ?bk)" "vdot u (mat_app H ?k) = vdot ?a (mat_app P ?b)" "quad P ?a = vdot ?a (mat_app P ?a)"
    "vdot u r = vdot r u"
    using H1 [of ?k] H1 [of u] sw [of ?bk ?a] sw [of ?b ?a] len l by (simp_all add: quad_def vdot_commute)
  note e5 = H2 [OF l(2)] H2 [OF len(4) [of x]]
  have "quad Q x / 2 + vdot q x + quad R u / 2 + vdot r u + quad P (dynamics w x u) / 2 + vdot p (dynamics w x u) =
    quad P x / 2 + vdot p' x + (quad P f / 2 + vdot p f - quad H d / 2) + quad H (vec_add u (vec_add ?k d)) / 2"
    unfolding dy e1 e2 e3 H3 px Px e4 e5 by (simp add: field_simps e4)
  then show ?thesis by (simp add: defs)
qed

section \<open>The backward pass\<close>

lemma work_lengths:
  assumes "work_ok w"
  shows "length (wo_x w) = wo_N w" "length (wo_p w) = wo_N w" "length (wo_u w) = wo_N w - 1" "length (wo_d w) = wo_N w - 1"
    "i < wo_N w \<Longrightarrow> length (wo_x w ! i) = wo_nx w" "i < wo_N w \<Longrightarrow> length (wo_p w ! i) = wo_nx w" "i < wo_N w \<Longrightarrow> length (wo_q w ! i) = wo_nx w"
    "i < wo_N w - 1 \<Longrightarrow> length (wo_r w ! i) = wo_nu w" "i < wo_N w - 1 \<Longrightarrow> length (wo_d w ! i) = wo_nu w"
proof -
  have m: "is_mat (wo_N w) (wo_nx w) (wo_x w)" "is_mat (wo_N w) (wo_nx w) (wo_p w)" "is_mat (wo_N w) (wo_nx w) (wo_q w)"
    "is_mat (wo_N w - 1) (wo_nu w) (wo_u w)" "is_mat (wo_N w - 1) (wo_nu w) (wo_d w)" "is_mat (wo_N w - 1) (wo_nu w) (wo_r w)"
    using assms by (simp_all add: work_ok_def)
  show "length (wo_x w) = wo_N w" "length (wo_p w) = wo_N w" "length (wo_u w) = wo_N w - 1" "length (wo_d w) = wo_N w - 1"
    using m by (blast intro: is_mat_length)+
  show "i < wo_N w \<Longrightarrow> length (wo_x w ! i) = wo_nx w" "i < wo_N w \<Longrightarrow> length (wo_p w ! i) = wo_nx w" "i < wo_N w \<Longrightarrow> length (wo_q w ! i) = wo_nx w"
    "i < wo_N w - 1 \<Longrightarrow> length (wo_r w ! i) = wo_nu w" "i < wo_N w - 1 \<Longrightarrow> length (wo_d w ! i) = wo_nu w"
    using m by (blast intro: is_mat_row)+
qed

definition costate :: "('k :: linordered_field) tiny_cache \<Rightarrow> 'k tiny_workspace \<Rightarrow> nat \<Rightarrow> bool" where
  "costate c w i \<longleftrightarrow>
     wo_d w ! i = mat_app (tc_Quu_inv c) (vec_add (vec_add (mat_app (mat_transpose (wo_Bdyn w)) (wo_p w ! (i + 1))) (wo_r w ! i)) (tc_BPf c)) \<and>
     wo_p w ! i = vec_add (vec_sub (vec_add (wo_q w ! i) (mat_app (tc_AmBKt c) (wo_p w ! (i + 1)))) (mat_app (mat_transpose (tc_Kinf c)) (wo_r w ! i))) (tc_APf c)"

lemma backward_step_costate:
  assumes "work_ok w" "i < wo_N w - 1"
  shows "costate c (backward_step c i w) i"
    and "j \<noteq> i \<Longrightarrow> wo_d (backward_step c i w) ! j = wo_d w ! j" "j \<noteq> i \<Longrightarrow> wo_p (backward_step c i w) ! j = wo_p w ! j"
proof -
  have "length (wo_p w) = wo_N w" "length (wo_d w) = wo_N w - 1" "i < wo_N w" using work_lengths [OF assms(1)] assms(2) by simp_all
  then show "costate c (backward_step c i w) i" "j \<noteq> i \<Longrightarrow> wo_d (backward_step c i w) ! j = wo_d w ! j"
    "j \<noteq> i \<Longrightarrow> wo_p (backward_step c i w) ! j = wo_p w ! j"
    using assms(2) by (simp_all add: backward_step_def Let_def costate_def)
qed

lemma backward_loop_costate:
  assumes "work_ok w" "cache_ok (wo_nx w) (wo_nu w) c" "k \<le> wo_N w - 1"
  shows "(\<forall>i < k. costate c (backward_loop c k w) i) \<and>
    (\<forall>j. k \<le> j \<longrightarrow> wo_d (backward_loop c k w) ! j = wo_d w ! j \<and> wo_p (backward_loop c k w) ! j = wo_p w ! j)"
  using assms
proof (induction k arbitrary: w)
  case (Suc k)
  let ?v = "backward_step c k w"
  have k: "k < wo_N w - 1" using Suc.prems(3) by simp
  note s = backward_step_ok [OF Suc.prems(1,2) k] and e = backward_step_costate [OF Suc.prems(1) k]
  have v: "work_ok ?v" "cache_ok (wo_nx ?v) (wo_nu ?v) c" "k \<le> wo_N ?v - 1"
    using s k Suc.prems(2) by (simp_all add: same_problem_def)
  note ih = Suc.IH [OF v] and ok = backward_loop_ok [OF v]
  have "wo_d (backward_loop c k ?v) ! k = wo_d ?v ! k" "wo_p (backward_loop c k ?v) ! k = wo_p ?v ! k" "wo_p (backward_loop c k ?v) ! (k + 1) = wo_p ?v ! (k + 1)"
    using ih by simp_all
  then have "costate c (backward_loop c k ?v) k"
    using e(1) [of c] ok s by (simp add: costate_def same_problem_def)
  then show ?case using ih e(2,3) by (auto simp: less_Suc_eq)
qed simp

section \<open>Cost to go\<close>

text \<open>The value of a state at column \<open>i\<close>, read from the workspace after the backward pass.\<close>

definition cost_to_go :: "('k :: linordered_field) tiny_cache \<Rightarrow> 'k mat \<Rightarrow> 'k tiny_workspace \<Rightarrow> nat \<Rightarrow> 'k vec \<Rightarrow> 'k" where
  "cost_to_go c R w i x = quad (tc_Pinf c) x / 2 + vdot (wo_p w ! i) x +
     (\<Sum>j = i..<wo_N w - 1. quad (tc_Pinf c) (wo_fdyn w) / 2 + vdot (wo_p w ! (j + 1)) (wo_fdyn w) - quad (input_hessian w R (tc_Pinf c)) (wo_d w ! j) / 2)"

lemma cost_to_go_step:
  assumes "work_ok w" "cache_ok (wo_nx w) (wo_nu w) c" "stationary w Q R c" "costate c w i" "i < wo_N w - 1" "length x = wo_nx w" "length u = wo_nu w"
  shows "quad Q x / 2 + vdot (wo_q w ! i) x + quad R u / 2 + vdot (wo_r w ! i) u + cost_to_go c R w (i + 1) (dynamics w x u) =
    cost_to_go c R w i x + quad (input_hessian w R (tc_Pinf c)) (vec_add u (vec_add (mat_app (tc_Kinf c) x) (wo_d w ! i))) / 2"
proof -
  have l: "length (wo_p w ! (i + 1)) = wo_nx w" "length (wo_q w ! i) = wo_nx w" "length (wo_r w ! i) = wo_nu w"
    using work_lengths [OF assms(1)] assms(5) by simp_all
  have d: "wo_d w ! i = mat_app (tc_Quu_inv c) (vec_add (vec_add (mat_app (mat_transpose (wo_Bdyn w)) (wo_p w ! (i + 1))) (wo_r w ! i)) (tc_BPf c))"
    and p: "wo_p w ! i = vec_add (vec_sub (vec_add (wo_q w ! i) (mat_app (tc_AmBKt c) (wo_p w ! (i + 1)))) (mat_app (mat_transpose (tc_Kinf c)) (wo_r w ! i))) (tc_APf c)"
    using assms(4) by (simp_all only: costate_def)
  show ?thesis
    using completing_square [OF assms(1-3,6,7) l d p] assms(5) by (simp add: cost_to_go_def sum.atLeast_Suc_lessThan)
qed

lemma dynamics_length: "work_ok w \<Longrightarrow> length (dynamics w x u) = wo_nx w"
  using is_mat_length [of "wo_nx w" "wo_nx w" "wo_Adyn w"] is_mat_length [of "wo_nx w" "wo_nu w" "wo_Bdyn w"] by (simp add: dynamics_def work_ok_def)

lemma cost_to_go_lower:
  assumes "work_ok w" "cache_ok (wo_nx w) (wo_nu w) c" "stationary w Q R c" "\<And>i. i < wo_N w - 1 \<Longrightarrow> costate c w i"
  shows "i + length us = wo_N w - 1 \<Longrightarrow> length x = wo_nx w \<Longrightarrow> (\<And>u. u \<in> set us \<Longrightarrow> length u = wo_nu w) \<Longrightarrow>
    cost_to_go c R w i x \<le> horizon_cost w Q R (tc_Pinf c) i x us"
proof (induction us arbitrary: i x)
  case Nil
  then show ?case by (simp add: cost_to_go_def)
next
  case (Cons u us)
  have i: "i < wo_N w - 1" and u: "length u = wo_nu w" using Cons.prems(1,3) by simp_all
  have ps: "psd (wo_nu w) (input_hessian w R (tc_Pinf c))" using assms(3) by (simp add: stationary_def Let_def)
  have "length (wo_d w ! i) = wo_nu w" "length (mat_app (tc_Kinf c) x) = wo_nu w"
    using work_lengths(9) [OF assms(1) i] is_mat_length [of "wo_nu w" "wo_nx w" "tc_Kinf c"] assms(2) by (simp_all add: cache_ok_def)
  then have "0 \<le> quad (input_hessian w R (tc_Pinf c)) (vec_add u (vec_add (mat_app (tc_Kinf c) x) (wo_d w ! i)))"
    unfolding quad_def by (intro psd_nonneg [OF ps]) (simp add: u)
  moreover have "cost_to_go c R w (i + 1) (dynamics w x u) \<le> horizon_cost w Q R (tc_Pinf c) (i + 1) (dynamics w x u) us"
    using Cons.prems by (intro Cons.IH) (simp_all add: dynamics_length [OF assms(1)])
  ultimately show ?case using cost_to_go_step [OF assms(1-3) assms(4) [OF i] i Cons.prems(2) u] by simp
qed

lemma vdot_zero: "vdot (replicate n 0) y = 0"
  by (induction n arbitrary: y) (simp_all add: vdot_def zip_Cons1 split: list.split)

lemma cost_to_go_attained:
  assumes "work_ok w" "cache_ok (wo_nx w) (wo_nu w) c" "stationary w Q R c" "\<And>i. i < wo_N w - 1 \<Longrightarrow> costate c w i"
    and "length us = wo_N w - 1" "\<And>i. i < wo_N w - 1 \<Longrightarrow> us ! i = vec_sub (vec_scale (- 1) (mat_app (tc_Kinf c) (xs ! i))) (wo_d w ! i)"
    and "\<And>i. i < wo_N w - 1 \<Longrightarrow> xs ! (i + 1) = dynamics w (xs ! i) (us ! i)"
  shows "i + k = wo_N w - 1 \<Longrightarrow> length (xs ! i) = wo_nx w \<Longrightarrow> horizon_cost w Q R (tc_Pinf c) i (xs ! i) (drop i us) = cost_to_go c R w i (xs ! i)"
proof (induction k arbitrary: i)
  case 0
  then show ?case using assms(5) by (simp add: cost_to_go_def)
next
  case (Suc k)
  then have i: "i < wo_N w - 1" by simp
  have l: "length (wo_d w ! i) = wo_nu w" "length (mat_app (tc_Kinf c) z) = wo_nu w" for z
    using work_lengths(9) [OF assms(1) i] is_mat_length [of "wo_nu w" "wo_nx w" "tc_Kinf c"] assms(2) by (simp_all add: cache_ok_def)
  then have u: "length (us ! i) = wo_nu w" by (simp add: assms(6) [OF i])
  have "vec_add (us ! i) (vec_add (mat_app (tc_Kinf c) (xs ! i)) (wo_d w ! i)) = replicate (wo_nu w) 0"
    using l by (intro nth_equalityI) (simp_all add: assms(6) [OF i])
  then have z: "quad (input_hessian w R (tc_Pinf c)) (vec_add (us ! i) (vec_add (mat_app (tc_Kinf c) (xs ! i)) (wo_d w ! i))) = 0"
    by (simp add: quad_def vdot_zero)
  have "horizon_cost w Q R (tc_Pinf c) (i + 1) (xs ! (i + 1)) (drop (i + 1) us) = cost_to_go c R w (i + 1) (xs ! (i + 1))"
  proof (rule Suc.IH)
    show "length (xs ! (i + 1)) = wo_nx w" by (simp only: assms(7) [OF i] dynamics_length [OF assms(1)])
  qed (use Suc.prems(1) in simp)
  then have "horizon_cost w Q R (tc_Pinf c) (i + 1) (dynamics w (xs ! i) (us ! i)) (drop (i + 1) us) = cost_to_go c R w (i + 1) (dynamics w (xs ! i) (us ! i))"
    by (simp only: assms(7) [OF i])
  moreover have "drop i us = us ! i # drop (i + 1) us" using assms(5) i by (simp add: Cons_nth_drop_Suc)
  ultimately show ?case
    using cost_to_go_step [OF assms(1-3) assms(4) [OF i] i Suc.prems(2) u] z by simp
qed

text \<open>The cache of the set-up is such a cache once its recursion has settled.\<close>

lemma settled_stationary:
  assumes cache: "tiny_precompute_and_set_cache minv (wo_Adyn w) (wo_Bdyn w) (wo_fdyn w) Q R (wo_nx w) (wo_nu w) rho = Some c"
    and weights: "Q1 = mat_add Q (mat_scale rho (mat_identity (wo_nx w)))" "R1 = mat_add R (mat_scale rho (mat_identity (wo_nu w)))"
      "is_mat (wo_nx w) (wo_nx w) Q" "is_mat (wo_nu w) (wo_nu w) R"
    and settled: "riccati_gain minv (wo_Adyn w) (wo_Bdyn w) R1 (tc_Pinf c) = Some (tc_Kinf c)"
      "tc_Pinf c = mat_add Q1 (mat_mul (mat_mul (mat_transpose (wo_Adyn w)) (tc_Pinf c)) (mat_sub (wo_Adyn w) (mat_mul (wo_Bdyn w) (tc_Kinf c))))"
    and "symmetric (wo_nx w) (tc_Pinf c)" "psd (wo_nu w) (input_hessian w R1 (tc_Pinf c))"
    and inverse: "\<And>M G. minv M = Some G \<Longrightarrow> mat_mul M G = mat_identity (wo_nu w)"
  shows "stationary w Q1 R1 c"
proof -
  let ?H = "mat_add R1 (mat_mul (mat_mul (mat_transpose (wo_Bdyn w)) (tc_Pinf c)) (wo_Bdyn w))"
  have c: "minv ?H = Some (tc_Quu_inv c)" "tc_AmBKt c = mat_transpose (mat_sub (wo_Adyn w) (mat_mul (wo_Bdyn w) (tc_Kinf c)))"
    "tc_APf c = mat_app (mat_mul (tc_AmBKt c) (tc_Pinf c)) (wo_fdyn w)" "tc_BPf c = mat_app (mat_mul (mat_transpose (wo_Bdyn w)) (tc_Pinf c)) (wo_fdyn w)"
    using cache by (auto simp: tiny_precompute_and_set_cache_def Let_def weights(2) split: Option.bind_splits)
  have K: "tc_Kinf c = mat_mul (mat_mul (mat_mul (tc_Quu_inv c) (mat_transpose (wo_Bdyn w))) (tc_Pinf c)) (wo_Adyn w)"
    using settled(1) c(1) by (simp add: riccati_gain_def)
  have s: "is_mat (wo_nx w) (wo_nx w) Q1" "is_mat (wo_nu w) (wo_nu w) R1" unfolding weights(1,2) by (intro mat_shapes weights)+
  show ?thesis
    unfolding stationary_def Let_def using s assms(8,9) inverse [OF c(1)] K settled(2) c(2-4) by (simp add: input_hessian_def)
qed

section \<open>The passes are optimal\<close>

text \<open>
  C11. With a cache at the fixed point of its recursion, the inputs that the backward and the forward pass of a solver iteration write are optimal: no other sequence of inputs
  for the horizon, from the state that was set and under the dynamics, has a smaller cost, the cost being quadratic with the weights of the cache and linear with the
  terms \<open>q\<close>, \<open>r\<close> and the last column of \<open>p\<close>.
\<close>

theorem passes_optimal:
  assumes "work_ok w" "cache_ok (wo_nx w) (wo_nu w) c" "stationary w Q R c"
    and "length us = wo_N w - 1" "\<And>u. u \<in> set us \<Longrightarrow> length u = wo_nu w"
  shows "horizon_cost w Q R (tc_Pinf c) 0 (wo_x w ! 0) (wo_u (forward_pass c (backward_pass_grad c w))) \<le>
    horizon_cost w Q R (tc_Pinf c) 0 (wo_x w ! 0) us"
proof -
  let ?v = "backward_pass_grad c w" and ?f = "forward_pass c (backward_pass_grad c w)"
  note ok = backward_loop_ok [OF assms(1,2) order_refl, folded backward_pass_grad_def]
    and co = backward_loop_costate [OF assms(1,2) order_refl, folded backward_pass_grad_def]
    and fw = passes [OF assms(1,2)]
  have v: "work_ok ?v" "cache_ok (wo_nx ?v) (wo_nu ?v) c" "stationary ?v Q R c" "wo_N ?v = wo_N w"
    using ok assms(2,3) by (simp_all add: same_problem_def stationary_def input_hessian_def)
  have cs: "costate c ?v i" if "i < wo_N ?v - 1" for i using that co v(4) by simp
  have same: "horizon_cost w Q R P i x zs = horizon_cost ?v Q R P i x zs" if "i + length zs = wo_N w - 1" for P i x zs
    using that
  proof (induction zs arbitrary: i x)
    case Nil
    then show ?case using co by simp
  next
    case (Cons z zs)
    then show ?case using ok by (simp add: dynamics_def same_problem_def)
  qed
  have x0: "length (wo_x w ! 0) = wo_nx ?v" using work_lengths(5) [OF assms(1), of 0] assms(1) ok by (simp add: same_problem_def) (simp add: work_ok_def)
  have lu: "length (wo_u ?f) = wo_N ?v - 1" using work_lengths(3) [OF fw(1)] fw(2) v(4) by (simp add: same_problem_def)
  have "horizon_cost ?v Q R (tc_Pinf c) 0 (wo_x ?f ! 0) (drop 0 (wo_u ?f)) = cost_to_go c R ?v 0 (wo_x ?f ! 0)"
  proof (rule cost_to_go_attained [OF v(1-3) cs lu])
    show "wo_u ?f ! i = vec_sub (vec_scale (- 1) (mat_app (tc_Kinf c) (wo_x ?f ! i))) (wo_d ?v ! i)" if "i < wo_N ?v - 1" for i
      using fw(5,6) that v(4) by (simp add: policy_def)
    show "wo_x ?f ! (i + 1) = dynamics ?v (wo_x ?f ! i) (wo_u ?f ! i)" if "i < wo_N ?v - 1" for i
      using fw(2,4) that v(4) ok by (simp add: dynamic_def dynamics_def same_problem_def)
  qed (use x0 fw(3) in simp_all)
  moreover have "cost_to_go c R ?v 0 (wo_x w ! 0) \<le> horizon_cost ?v Q R (tc_Pinf c) 0 (wo_x w ! 0) us"
    using assms(4,5) v(4) ok x0 by (intro cost_to_go_lower [OF v(1-3) cs]) (simp_all add: same_problem_def)
  ultimately show ?thesis using same [of 0 us] same [of 0 "wo_u ?f"] assms(4) lu v(4) fw(3) by simp
qed

theorem passes_optimal_witness:
  defines "w \<equiv> ts_work (tiny_set_x0 [3] (tiny_set_bound_constraints [[- 9], [- 9]] [[9], [9]] [[- 1]] [[1 :: rat]]
     (the (tiny_setup (\<lambda>M. Some [[1 / (M ! 0 ! 0)]]) [[1]] [[1]] [0] [[1]] [[1]] 1 1 1 2))))"
    and "c \<equiv> \<lparr>tc_rho = 1, tc_Kinf = [[1 / 2]], tc_Pinf = [[2]], tc_Quu_inv = [[1 / 4]], tc_AmBKt = [[1 / 2]], tc_APf = [0], tc_BPf = [0 :: rat]\<rparr>"
  shows "horizon_cost w [[1]] [[2]] [[2]] 0 [3] (wo_u (forward_pass c (backward_pass_grad c w))) \<le> horizon_cost w [[1]] [[2]] [[2]] 0 [3] [[7]]"
proof -
  obtain T where T: "tiny_setup (\<lambda>M. Some [[1 / (M ! 0 ! 0)]]) [[1]] [[1]] [0] [[1]] [[1]] 1 1 1 2 = Some (T :: rat tiny_solver)"
    using tiny_setup_total [of "\<lambda>M. Some [[1 / (M ! 0 ! 0) :: rat]]"] by fastforce
  have f: "wo_nx (ts_work T) = 1" "wo_nu (ts_work T) = 1" "wo_N (ts_work T) = 2" "wo_Adyn (ts_work T) = [[1]]" "wo_Bdyn (ts_work T) = [[1]]"
    "wo_fdyn (ts_work T) = [0]" "wo_x (ts_work T) = [[0], [0]]"
    using T by (auto simp: tiny_setup_def Let_def numeral_2_eq_2 split: Option.bind_splits)
  have "solvable (tiny_set_bound_constraints [[- 9], [- 9]] [[9], [9]] [[- 1]] [[1]] T)"
    by (rule setup_solvable [OF _ _ _ _ _ _ _ _ _ T]) (auto simp: is_mat_def)
  from set_x0_solvable [OF this, of "[3]"] have w: "work_ok w" "wo_nx w = 1" "wo_nu w = 1" "wo_N w = 2" "wo_Adyn w = [[1]]" "wo_Bdyn w = [[1]]" "wo_fdyn w = [0]" "wo_x w ! 0 = [3]"
    using f unfolding w_def T option.sel by (simp_all add: solvable_def tiny_set_bound_constraints_def tiny_set_x0_def)
  have c: "cache_ok 1 1 c" by (simp add: cache_ok_def c_def is_mat_def)
  have h: "input_hessian w [[2]] [[2]] = [[4]]"
    by (simp add: input_hessian_def w mat_add_def mat_mul_def mat_transpose_def vec_add_def)
  have "psd 1 [[4 :: rat]]"
    by (rule psdI) (auto simp: is_mat_def mat_app_def vdot_def length_Suc_conv)
  then have st: "stationary w [[1]] [[2]] c"
    using h by (simp add: stationary_def Let_def w c_def is_mat_def symmetric_def mat_identity_def mat_diag_def mat_mul_def mat_add_def mat_sub_def
      mat_transpose_def vec_add_def vec_sub_def mat_app_def vdot_def)
  show ?thesis
    using passes_optimal [of w c "[[1]]" "[[2]]" "[[7]]"] w c st by (simp add: c_def)
qed

end
