(* ===== verification/Planner.thy ===== *)
theory Planner
  imports Kalman Lqr Program Thread_Safe_Queue
begin

text \<open>
  The planner of the model-predictive program, \<^verbatim>\<open>tasks/auto_aim/planner/planner.cpp\<close>: from a target to the reference trajectory of the two axes of the gimbal, through the
  two solvers to a plan; and the two threads of \<^verbatim>\<open>src/standard_mpc.cpp\<close>.

  An exception inside a plan is the inner \<open>None\<close>; the outer \<open>None\<close> is undefined behaviour, such as a read of a variable that nothing has set. The functions \<open>fl\<close> round the
  fields of a plan to single precision.
\<close>

section \<open>Data\<close>

record 'f plan =
  pn_control :: bool
  pn_fire :: bool
  pn_target_yaw :: 'f
  pn_target_pitch :: 'f
  pn_yaw :: 'f
  pn_yaw_vel :: 'f
  pn_yaw_acc :: 'f
  pn_pitch :: 'f
  pn_pitch_vel :: 'f
  pn_pitch_acc :: 'f

definition no_plan :: "('k :: linordered_field \<Rightarrow> 'f) \<Rightarrow> 'f plan" where
  "no_plan fl = \<lparr>pn_control = False, pn_fire = False, pn_target_yaw = fl 0, pn_target_pitch = fl 0, pn_yaw = fl 0, pn_yaw_vel = fl 0, pn_yaw_acc = fl 0,
     pn_pitch = fl 0, pn_pitch_vel = fl 0, pn_pitch_acc = fl 0\<rparr>"

record 'k planner =
  pl_debug :: "'k xyza"
  pl_yaw_offset :: 'k
  pl_pitch_offset :: 'k
  pl_fire_thresh :: 'k
  pl_low_speed_delay_time :: 'k
  pl_high_speed_delay_time :: 'k
  pl_decision_speed :: 'k
  pl_yaw_solver :: "'k tiny_solver"
  pl_pitch_solver :: "'k tiny_solver"

record 'k planner_config =
  pc_yaw_offset :: "'k yaml_value"
  pc_pitch_offset :: "'k yaml_value"
  pc_fire_thresh :: "'k yaml_value"
  pc_decision_speed :: "'k yaml_value"
  pc_high_speed_delay_time :: "'k yaml_value"
  pc_low_speed_delay_time :: "'k yaml_value"
  pc_max_yaw_acc :: "'k yaml_value"
  pc_Q_yaw :: "'k list yaml_value"
  pc_R_yaw :: "'k list yaml_value"
  pc_max_pitch_acc :: "'k yaml_value"
  pc_Q_pitch :: "'k list yaml_value"
  pc_R_pitch :: "'k list yaml_value"

definition DT :: "'k :: linordered_field" where "DT = 1 / 100"

abbreviation HALF_HORIZON :: nat where "HALF_HORIZON \<equiv> 50"
abbreviation HORIZON :: nat where "HORIZON \<equiv> 100"

section \<open>Set-up\<close>

text \<open>
  \<^verbatim>\<open>setup_yaw_solver\<close> and \<^verbatim>\<open>setup_pitch_solver\<close>, which differ in the keys they read; weights that are missing from a list are read past its end.
\<close>

definition setup_axis_solver ::
  "(('k :: linordered_field) mat \<Rightarrow> 'k mat option) \<Rightarrow> 'k yaml_value \<Rightarrow> 'k list yaml_value \<Rightarrow> 'k list yaml_value \<Rightarrow> 'k tiny_solver option" where
  "setup_axis_solver minv max_acc Q R = do {
     max_acc \<leftarrow> yaml_as max_acc;
     Q \<leftarrow> yaml_as Q;
     R \<leftarrow> yaml_as R;
     if length Q < 2 \<or> length R < 1 then None
     else do {
       S \<leftarrow> tiny_setup minv [[1, DT], [0, 1]] [[0], [DT]] [0, 0] (mat_diag (take 2 Q)) (mat_diag (take 1 R)) 1 2 1 HORIZON;
       let S = tiny_set_bound_constraints (replicate HORIZON (replicate 2 (- (10 ^ 17)))) (replicate HORIZON (replicate 2 (10 ^ 17)))
         (replicate (HORIZON - 1) [- max_acc]) (replicate (HORIZON - 1) [max_acc]) S;
       Some (S\<lparr>ts_settings := (ts_settings S)\<lparr>se_max_iter := 10\<rparr>\<rparr>)
     }
   }"

text \<open>The debug vector is not initialised; \<open>junk\<close> is its first value.\<close>

definition new_planner :: "('k :: linordered_field) xyza \<Rightarrow> ('k mat \<Rightarrow> 'k mat option) \<Rightarrow> 'k planner_config \<Rightarrow> 'k planner option" where
  "new_planner junk minv yaml = do {
     yaw \<leftarrow> yaml_as (pc_yaw_offset yaml);
     pitch \<leftarrow> yaml_as (pc_pitch_offset yaml);
     thresh \<leftarrow> yaml_as (pc_fire_thresh yaml);
     speed \<leftarrow> yaml_as (pc_decision_speed yaml);
     high \<leftarrow> yaml_as (pc_high_speed_delay_time yaml);
     low \<leftarrow> yaml_as (pc_low_speed_delay_time yaml);
     Y \<leftarrow> setup_axis_solver minv (pc_max_yaw_acc yaml) (pc_Q_yaw yaml) (pc_R_yaw yaml);
     P \<leftarrow> setup_axis_solver minv (pc_max_pitch_acc yaml) (pc_Q_pitch yaml) (pc_R_pitch yaml);
     Some \<lparr>pl_debug = junk, pl_yaw_offset = to_rad yaw, pl_pitch_offset = to_rad pitch, pl_fire_thresh = thresh, pl_low_speed_delay_time = low,
       pl_high_speed_delay_time = high, pl_decision_speed = speed, pl_yaw_solver = Y, pl_pitch_solver = P\<rparr>
   }"

section \<open>Aiming\<close>

text \<open>The plate with the smallest horizontal distance below \<open>10 ^ 10\<close>, the first of several.\<close>

definition nearest_plate :: "('k :: linordered_field) libm \<Rightarrow> 'k xyza list \<Rightarrow> ('k \<times> 'k xyza) option" where
  "nearest_plate M plates = (case fold (\<lambda>xyza (min_dist, found). let dist = horizontal M xyza in if dist < min_dist then (dist, Some xyza) else (min_dist, found))
       plates (10 ^ 10, None) of
     (min_dist, None) \<Rightarrow> None | (min_dist, Some xyza) \<Rightarrow> Some (min_dist, xyza))"

definition nearest_of :: "('k :: linordered_field) libm \<Rightarrow> 'k ekf target \<Rightarrow> ('k \<times> 'k xyza) option" where
  "nearest_of M g = do { plates \<leftarrow> armor_xyza_list M ((!) (ek_x (tg_ekf g))) (tg_armor_num g); nearest_plate M plates }"

definition planner_aim :: "('k :: linordered_field) libm \<Rightarrow> 'k ekf target \<Rightarrow> 'k \<Rightarrow> 'k planner \<Rightarrow> (('k \<times> 'k) option \<times> 'k planner) option" where
  "planner_aim M g bullet_speed p = do {
     (min_dist, (x, y, z, yaw)) \<leftarrow> nearest_of M g;
     let p = p\<lparr>pl_debug := (x, y, z, yaw)\<rparr>;
     let azim = lm_atan2 M y x;
     bullet_traj \<leftarrow> new_trajectory M bullet_speed min_dist z;
     case bullet_traj of
       Unsolvable \<Rightarrow> Some (None, p)
     | Solvable _ pitch \<Rightarrow> do { a \<leftarrow> limit_rad M (azim + pl_yaw_offset p); Some (Some (a, - pitch - pl_pitch_offset p), p) }
   }"

text \<open>The loop of \<^verbatim>\<open>get_trajectory\<close>, with the columns that are left; a column is \<open>[yaw, yaw_vel, pitch, pitch_vel]\<close>.\<close>

fun trajectory_loop ::
  "('k :: linordered_field) libm \<Rightarrow> 'k \<Rightarrow> 'k \<Rightarrow> nat \<Rightarrow> 'k \<times> 'k \<Rightarrow> 'k \<times> 'k \<Rightarrow> 'k ekf target \<Rightarrow> 'k planner \<Rightarrow> ('k vec list option \<times> 'k planner) option" where
  "trajectory_loop M yaw0 bullet_speed 0 yaw_pitch_last yaw_pitch g p = Some (Some [], p)"
| "trajectory_loop M yaw0 bullet_speed (Suc n) yaw_pitch_last yaw_pitch g p = do {
     g \<leftarrow> target_predict_dt M DT g;
     (a, p) \<leftarrow> planner_aim M g bullet_speed p;
     case a of None \<Rightarrow> Some (None, p)
     | Some yaw_pitch_next \<Rightarrow> do {
         yaw_step \<leftarrow> limit_rad M (fst yaw_pitch_next - fst yaw_pitch_last);
         let yaw_vel = yaw_step / (2 * DT);
         let pitch_vel = (snd yaw_pitch_next - snd yaw_pitch_last) / (2 * DT);
         yaw \<leftarrow> limit_rad M (fst yaw_pitch - yaw0);
         (rest, p) \<leftarrow> trajectory_loop M yaw0 bullet_speed n yaw_pitch yaw_pitch_next g p;
         Some (map_option ((#) [yaw, yaw_vel, snd yaw_pitch, pitch_vel]) rest, p)
       }
   }"

definition get_trajectory :: "('k :: linordered_field) libm \<Rightarrow> 'k ekf target \<Rightarrow> 'k \<Rightarrow> 'k \<Rightarrow> 'k planner \<Rightarrow> ('k vec list option \<times> 'k planner) option" where
  "get_trajectory M g yaw0 bullet_speed p = do {
     g \<leftarrow> target_predict_dt M (- DT * (of_nat HALF_HORIZON + 1)) g;
     (a, p) \<leftarrow> planner_aim M g bullet_speed p;
     case a of None \<Rightarrow> Some (None, p)
     | Some yaw_pitch_last \<Rightarrow> do {
         g \<leftarrow> target_predict_dt M DT g;
         (a, p) \<leftarrow> planner_aim M g bullet_speed p;
         case a of None \<Rightarrow> Some (None, p) | Some yaw_pitch \<Rightarrow> trajectory_loop M yaw0 bullet_speed HORIZON yaw_pitch_last yaw_pitch g p
       }
   }"

section \<open>Planning\<close>

definition solve_axis :: "('k :: linordered_field) vec list \<Rightarrow> 'k tiny_solver \<Rightarrow> 'k tiny_solver option" where
  "solve_axis ref S = do { (_, S) \<leftarrow> solve (set_reference ref (tiny_set_x0 (ref ! 0) S)); Some S }"

definition checked_speed :: "'k :: linordered_field \<Rightarrow> 'k" where
  "checked_speed bullet_speed = (if bullet_speed < 10 \<or> bullet_speed > 25 then 22 else bullet_speed)"

definition plan_from :: "('k :: linordered_field) libm \<Rightarrow> ('k \<Rightarrow> 'f) \<Rightarrow> 'k \<Rightarrow> 'k vec list \<Rightarrow> 'k planner \<Rightarrow> 'f plan option" where
  "plan_from M fl yaw0 traj p = do {
     let Y = ts_work (pl_yaw_solver p);
     let P = ts_work (pl_pitch_solver p);
     target_yaw \<leftarrow> limit_rad M (traj ! HALF_HORIZON ! 0 + yaw0);
     yaw \<leftarrow> limit_rad M (wo_x Y ! HALF_HORIZON ! 0 + yaw0);
     let k = HALF_HORIZON + 2;
     let yaw_error = traj ! k ! 0 - wo_x Y ! k ! 0;
     let pitch_error = traj ! k ! 2 - wo_x P ! k ! 0;
     Some \<lparr>pn_control = True, pn_fire = lm_sqrt M (yaw_error * yaw_error + pitch_error * pitch_error) < pl_fire_thresh p,
       pn_target_yaw = fl target_yaw, pn_target_pitch = fl (traj ! HALF_HORIZON ! 2),
       pn_yaw = fl yaw, pn_yaw_vel = fl (wo_x Y ! HALF_HORIZON ! 1), pn_yaw_acc = fl (wo_u Y ! HALF_HORIZON ! 0),
       pn_pitch = fl (wo_x P ! HALF_HORIZON ! 0), pn_pitch_vel = fl (wo_x P ! HALF_HORIZON ! 1), pn_pitch_acc = fl (wo_u P ! HALF_HORIZON ! 0)\<rparr>
   }"

text \<open>\<^verbatim>\<open>plan(Target, double)\<close>; the flight time of a trajectory without a solution is not initialised.\<close>

definition plan_target :: "('k :: linordered_field) libm \<Rightarrow> ('k \<Rightarrow> 'f) \<Rightarrow> 'k ekf target \<Rightarrow> 'k \<Rightarrow> 'k planner \<Rightarrow> ('f plan \<times> 'k planner) option" where
  "plan_target M fl g bullet_speed p = do {
     let bullet_speed = checked_speed bullet_speed;
     (min_dist, (_, _, z, _)) \<leftarrow> nearest_of M g;
     bullet_traj \<leftarrow> new_trajectory M bullet_speed min_dist z;
     fly \<leftarrow> (case bullet_traj of Unsolvable \<Rightarrow> None | Solvable t _ \<Rightarrow> Some t);
     g \<leftarrow> target_predict_dt M fly g;
     (a, p) \<leftarrow> planner_aim M g bullet_speed p;
     case a of None \<Rightarrow> Some (no_plan fl, p)
     | Some (yaw0, _) \<Rightarrow> do {
         (traj, p) \<leftarrow> get_trajectory M g yaw0 bullet_speed p;
         case traj of None \<Rightarrow> Some (no_plan fl, p)
         | Some traj \<Rightarrow> do {
             Y \<leftarrow> solve_axis (map (take 2) traj) (pl_yaw_solver p);
             let p = p\<lparr>pl_yaw_solver := Y\<rparr>;
             P \<leftarrow> solve_axis (map (drop 2) traj) (pl_pitch_solver p);
             let p = p\<lparr>pl_pitch_solver := P\<rparr>;
             c \<leftarrow> plan_from M fl yaw0 traj p;
             Some (c, p)
           }
       }
   }"

text \<open>\<^verbatim>\<open>plan(std::optional<Target>, double)\<close>\<close>

definition plan_maybe ::
  "('k :: floor_ceiling) libm \<Rightarrow> ('k \<Rightarrow> 'f) \<Rightarrow> int \<Rightarrow> 'k ekf target option \<Rightarrow> 'k \<Rightarrow> 'k planner \<Rightarrow> ('f plan \<times> 'k planner) option" where
  "plan_maybe M fl now target bullet_speed p = (case target of
     None \<Rightarrow> Some (no_plan fl, p)
   | Some g \<Rightarrow> do {
       let delay_time = (if \<bar>ek_x (tg_ekf g) ! 7\<bar> > pl_decision_speed p then pl_high_speed_delay_time p else pl_low_speed_delay_time p);
       us \<leftarrow> to_int (delay_time * 10 ^ 6);
       g \<leftarrow> target_predict_at M (now + us * 1000) g;
       plan_target M fl g bullet_speed p
     })"

section \<open>The program\<close>

text \<open>
  A round of the thread that plans: the queue has at most one target, the newest, which stays in it; \<open>now\<close> and \<open>now_ns\<close> are its readings of the clock.
\<close>

definition plan_round ::
  "('k ekf, 'a, 'k :: floor_ceiling, 'f, 'q, 'x, 'i) rig \<Rightarrow> int \<Rightarrow> u64 \<Rightarrow> gimbal_mode \<Rightarrow> 'k ekf target option tsq \<Rightarrow>
   'k planner \<times> 'k dm02 \<times> ('f, 'q, 'x) link \<Rightarrow> ('k planner \<times> 'k dm02 \<times> ('f, 'q, 'x) link) option" where
  "plan_round R now now_ns mode queue = (\<lambda>(p, b).
     if \<not> tsq_empty queue \<and> mode = AUTO_AIM
     then do {
       target \<leftarrow> tsq_front queue;
       let gs = li_state (im_ext (snd (snd b)));
       (c, p) \<leftarrow> plan_maybe (rg_libm R) (ar_float (rg_arith R)) now target (ar_double (rg_arith R) (ig_bullet_speed gs)) p;
       let c = (if \<not> can_fire now_ns (from_io (board_referee b)) then c\<lparr>pn_fire := False\<rparr> else c);
       b \<leftarrow> Dm02_send (rg_arith R) (rg_link R) (pn_control c) (pn_fire c) (pn_yaw c) (pn_pitch c) b;
       Some (p, b)
     }
     else Some (p, b))"

text \<open>A round of the main loop, with the orientation that the link answered and the plates that the detector found.\<close>

definition mpc_round ::
  "('k ekf, 'a, 'k :: floor_ceiling, 'f, 'q, 'x, 'i) rig \<Rightarrow> 'q \<Rightarrow> 'i \<Rightarrow> int \<Rightarrow> u64 \<Rightarrow> gimbal_mode \<Rightarrow> 'k ekf target option tsq \<times> ('k ekf, 'k, 'f, 'q, 'x) robot \<Rightarrow>
   ('k ekf target option tsq \<times> ('k ekf, 'k, 'f, 'q, 'x) robot) option" where
  "mpc_round R q img t now_ns mode = (\<lambda>(queue, r).
     if mode = AUTO_AIM
     then do {
       let armors = rg_detect R img;
       let k = update_enemy_color now_ns (from_io (board_referee (ro_board r))) (ro_tracker r);
       (targets, armors, k) \<leftarrow> track (rg_vision R q) armors t True k;
       (queue, _) \<leftarrow> tsq_push True id (case targets of [] \<Rightarrow> None | g # _ \<Rightarrow> Some g) queue ();
       Some (queue, r\<lparr>ro_tracker := k\<rparr>)
     }
     else do {
       b \<leftarrow> Dm02_send (rg_arith R) (rg_link R) False False (ar_float (rg_arith R) 0) (ar_float (rg_arith R) 0) (ro_board r);
       Some (queue, r\<lparr>ro_board := b\<rparr>)
     })"

section \<open>Prediction in steps\<close>

text \<open>The filter that a prediction starts from: that of an outpost with a limited spin.\<close>

definition spin_limited :: "('k :: linordered_field) ekf target \<Rightarrow> bool" where
  "spin_limited g \<longleftrightarrow> tg_name g = Outpost \<and> (tg_is_converged g \<or> tg_update_count g > 10 \<and> r_ok (tg_ekf g) \<and> l_ok (tg_ekf g))"

definition spun :: "('k :: linordered_field) ekf target \<Rightarrow> 'k vec" where
  "spun g = ek_x (if spin_limited g \<and> fast_spin (tg_ekf g) then limit_spin (tg_ekf g) else tg_ekf g)"

text \<open>A target that a prediction has gone over.\<close>

definition settled :: "real ekf target \<Rightarrow> bool" where
  "settled g \<longleftrightarrow> length (ek_x (tg_ekf g)) = STATES \<and> - pi < ek_x (tg_ekf g) ! 6 \<and> ek_x (tg_ekf g) ! 6 \<le> pi \<and> spun g = ek_x (tg_ekf g)"

lemma spun_length: "length (spun g) = length (ek_x (tg_ekf g))"
  by (simp add: spun_def limit_spin_def)

lemma spun_nth: "spun g ! 8 = ek_x (tg_ekf g) ! 8" "spun g ! 9 = ek_x (tg_ekf g) ! 9"
  by (simp_all add: spun_def limit_spin_def)

lemma predict_real:
  assumes "length (ek_x (tg_ekf g)) = STATES"
  shows "\<exists>g'. target_predict_dt real_libm dt g = Some g' \<and> next_state real_libm dt (spun g) = Some (ek_x (tg_ekf g')) \<and>
    tg_name g' = tg_name g \<and> tg_armor_num g' = tg_armor_num g \<and> tg_update_count g' = tg_update_count g \<and>
    (tg_name g = Outpost \<longrightarrow> tg_is_converged g' = (tg_is_converged g \<or> spin_limited g))"
proof -
  let ?e = "if spin_limited g \<and> fast_spin (tg_ekf g) then limit_spin (tg_ekf g) else tg_ekf g"
  have le: "length (ek_x ?e) = STATES" using assms by (simp add: limit_spin_def)
  obtain x' where x': "next_state real_libm dt (ek_x ?e) = Some x'" using next_state_real [OF le, of dt] by blast
  then have f: "filter_predict real_libm dt v1 v2 ?e = Some (?e\<lparr>ek_P := mat_add (mat_mul (mat_mul (transition dt) (ek_P ?e)) (mat_transpose (transition dt))) (process_noise dt v1 v2), ek_x := x'\<rparr>)" for v1 v2
    by (simp add: filter_predict_def ekf_predict_def Let_def)
  define h where "h = (if tg_name g \<noteq> Outpost \<and> tg_update_count g > 3 \<and> r_ok (tg_ekf g) \<and> l_ok (tg_ekf g) \<or> spin_limited g then g\<lparr>tg_is_converged := True\<rparr> else g)"
  have "target_predict_dt real_libm dt g = (let (v1, v2) = (if tg_name g = Outpost then (10, 1 / 10) else (100, 400)) in
      map_option (\<lambda>e. h\<lparr>tg_ekf := e\<rparr>) (filter_predict real_libm dt v1 v2 ?e))"
    unfolding target_predict_dt_def h_def Let_def spin_limited_def
    by (cases "tg_name g = Outpost"; cases "tg_is_converged g"; cases "r_ok (tg_ekf g) \<and> l_ok (tg_ekf g)") (auto simp: map_option_case split: Option.bind_splits option.splits)
  then show ?thesis using x' by (simp add: f spun_def h_def)
qed

lemma predict_settled:
  assumes "length (ek_x (tg_ekf g)) = STATES" "target_predict_dt real_libm dt g = Some g'"
  shows "settled g'" "next_state real_libm dt (spun g) = Some (ek_x (tg_ekf g'))" "tg_armor_num g' = tg_armor_num g"
proof -
  have p: "next_state real_libm dt (spun g) = Some (ek_x (tg_ekf g'))" "tg_name g' = tg_name g" "tg_armor_num g' = tg_armor_num g" "tg_update_count g' = tg_update_count g"
    "tg_name g = Outpost \<longrightarrow> tg_is_converged g' = (tg_is_converged g \<or> spin_limited g)"
    using predict_real [OF assms(1), of dt] assms(2) by auto
  have "length (spun g) = STATES" using assms(1) by (simp add: spun_length)
  then obtain t where t: "limit_rad real_libm (spun g ! 6 + dt * spun g ! 7) = Some t"
    and x: "ek_x (tg_ekf g') = [spun g ! 0 + dt * spun g ! 1, spun g ! 1, spun g ! 2 + dt * spun g ! 3, spun g ! 3, spun g ! 4 + dt * spun g ! 5, spun g ! 5, t, spun g ! 7, spun g ! 8, spun g ! 9, spun g ! 10]"
    using next_state_real [of "spun g" dt] p(1) by auto
  have "- pi < t" "t \<le> pi" using limit_rad_real [of "spun g ! 6 + dt * spun g ! 7"] t by auto
  moreover have "spin_limited g' = spin_limited g"
    using p(2,4,5) by (auto simp: spin_limited_def r_ok_def l_ok_def x spun_nth)
  moreover have "spun g' = ek_x (tg_ekf g')"
  proof (cases "spin_limited g \<and> fast_spin (tg_ekf g)")
    case True
    then have "spun g ! 7 = 251 / 100 \<or> spun g ! 7 = - 251 / 100" using assms(1) by (simp add: spun_def limit_spin_def)
    then show ?thesis by (auto simp: spun_def limit_spin_def x numeral_eq_Suc)
  next
    case False
    then have "\<not> (spin_limited g' \<and> fast_spin (tg_ekf g'))"
      using calculation(3) by (auto simp: spun_def fast_spin_def x numeral_eq_Suc)
    then show ?thesis by (auto simp: spun_def)
  qed
  ultimately show "settled g'" by (simp add: settled_def x numeral_eq_Suc)
  show "next_state real_libm dt (spun g) = Some (ek_x (tg_ekf g'))" "tg_armor_num g' = tg_armor_num g" by (rule p)+
qed

lemma next_state_compose:
  assumes "length x = STATES" "next_state real_libm a x = Some y" "next_state real_libm b y = Some z"
  shows "next_state real_libm (a + b) x = Some z"
proof -
  obtain t where t: "limit_rad real_libm (x ! 6 + a * x ! 7) = Some t"
    and y: "y = [x ! 0 + a * x ! 1, x ! 1, x ! 2 + a * x ! 3, x ! 3, x ! 4 + a * x ! 5, x ! 5, t, x ! 7, x ! 8, x ! 9, x ! 10]"
    using next_state_real [OF assms(1), of a] assms(2) by auto
  obtain s where s: "limit_rad real_libm (t + b * x ! 7) = Some s"
    and z: "z = [x ! 0 + a * x ! 1 + b * x ! 1, x ! 1, x ! 2 + a * x ! 3 + b * x ! 3, x ! 3, x ! 4 + a * x ! 5 + b * x ! 5, x ! 5, s, x ! 7, x ! 8, x ! 9, x ! 10]"
    using next_state_real [of y b] assms(3) by (auto simp: y numeral_eq_Suc)
  obtain j where j: "x ! 6 + a * x ! 7 = t + 2 * pi * of_int j" using limit_rad_real [of "x ! 6 + a * x ! 7"] t by auto
  obtain k where k: "- pi < s" "s \<le> pi" "t + b * x ! 7 = s + 2 * pi * of_int k" using limit_rad_real [of "t + b * x ! 7"] s by auto
  have "x ! 6 + (a + b) * x ! 7 = s + 2 * pi * of_int (j + k)" using j k(3) by (simp add: algebra_simps)
  from limit_rad_unique [OF k(1,2) this] show ?thesis
    using next_state_real [OF assms(1), of "a + b"] by (auto simp: z algebra_simps)
qed

text \<open>The target \<open>g'\<close> is where \<open>g\<close> is after the time \<open>t\<close>.\<close>

definition at_time :: "real ekf target \<Rightarrow> real \<Rightarrow> real ekf target \<Rightarrow> bool" where
  "at_time g t g' \<longleftrightarrow> settled g' \<and> tg_armor_num g' = tg_armor_num g \<and> next_state real_libm t (ek_x (tg_ekf g)) = Some (ek_x (tg_ekf g'))"

lemma at_time_predict: "settled g \<Longrightarrow> target_predict_dt real_libm t g = Some g' \<Longrightarrow> at_time g t g'"
  using predict_settled [of g t g'] by (simp add: at_time_def settled_def)

lemma at_time_step:
  assumes "settled g" "at_time g t g'" "target_predict_dt real_libm dt g' = Some g''"
  shows "at_time g (t + dt) g''"
proof -
  have g': "settled g'" "next_state real_libm t (ek_x (tg_ekf g)) = Some (ek_x (tg_ekf g'))" "tg_armor_num g' = tg_armor_num g" using assms(2) by (simp_all add: at_time_def)
  have "next_state real_libm dt (ek_x (tg_ekf g')) = Some (ek_x (tg_ekf g''))" "settled g''" "tg_armor_num g'' = tg_armor_num g'"
    using predict_settled [OF _ assms(3)] g'(1) by (simp_all add: settled_def)
  moreover have "length (ek_x (tg_ekf g)) = STATES" using assms(1) by (simp add: settled_def)
  ultimately show ?thesis using next_state_compose [OF _ g'(2)] g'(3) by (simp add: at_time_def)
qed

text \<open>A shot: how the planner aims at the target after a time. Only the offsets of the planner matter.\<close>

definition shot :: "real planner \<Rightarrow> real \<Rightarrow> real ekf target \<Rightarrow> real \<Rightarrow> real \<times> real \<Rightarrow> bool" where
  "shot p v g t a \<longleftrightarrow> (\<exists>h q. target_predict_dt real_libm t g = Some h \<and> planner_aim real_libm h v p = Some (Some a, q))"

definition same_aimer :: "'k planner \<Rightarrow> 'k planner \<Rightarrow> bool" where
  "same_aimer p q \<longleftrightarrow> (\<exists>d. q = p\<lparr>pl_debug := d\<rparr>)"

lemma same_aimer_trans: "same_aimer p q \<Longrightarrow> same_aimer q r \<Longrightarrow> same_aimer p r"
  unfolding same_aimer_def by (elim exE, rule exI) simp

lemma same_aimerI: "same_aimer p (p\<lparr>pl_debug := d\<rparr>)"
  unfolding same_aimer_def by blast

lemma same_aimer_fields:
  assumes "same_aimer p q"
  shows "pl_yaw_offset q = pl_yaw_offset p" "pl_pitch_offset q = pl_pitch_offset p" "pl_yaw_solver q = pl_yaw_solver p" "pl_pitch_solver q = pl_pitch_solver p"
    "pl_fire_thresh q = pl_fire_thresh p"
proof -
  obtain d where q: "q = p\<lparr>pl_debug := d\<rparr>" using assms by (auto simp: same_aimer_def)
  show "pl_yaw_offset q = pl_yaw_offset p" "pl_pitch_offset q = pl_pitch_offset p" "pl_yaw_solver q = pl_yaw_solver p" "pl_pitch_solver q = pl_pitch_solver p"
    "pl_fire_thresh q = pl_fire_thresh p" by (simp_all add: q)
qed

lemma planner_aim_same: "planner_aim M g v p = Some (a, q) \<Longrightarrow> same_aimer p q"
  by (auto simp: planner_aim_def Let_def intro: same_aimerI split: Option.bind_splits trajectory.splits)

lemma planner_aim_cong:
  assumes "planner_aim M g v p = Some (a, q)" "same_aimer p p'" "ek_x (tg_ekf g') = ek_x (tg_ekf g)" "tg_armor_num g' = tg_armor_num g"
  shows "\<exists>q'. planner_aim M g' v p' = Some (a, q')"
proof -
  have "nearest_of M g' = nearest_of M g" using assms(3,4) by (simp add: nearest_of_def)
  then show ?thesis
    using assms(1) same_aimer_fields [OF assms(2)] by (auto simp: planner_aim_def Let_def split: Option.bind_splits trajectory.splits)
qed

lemma same_aimer_sym: "same_aimer p q \<Longrightarrow> same_aimer q p"
  unfolding same_aimer_def by (erule exE, rule exI [of _ "pl_debug p"]) simp

lemma shotI:
  assumes "settled g" "at_time g t g'" "same_aimer p p'" "planner_aim real_libm g' v p' = Some (Some a, q)"
  shows "shot p v g t a"
proof -
  obtain h where h: "target_predict_dt real_libm t g = Some h" using predict_real [of g t] assms(1) by (auto simp: settled_def)
  have "at_time g t h" by (rule at_time_predict [OF assms(1) h])
  then have "ek_x (tg_ekf h) = ek_x (tg_ekf g')" "tg_armor_num h = tg_armor_num g'" using assms(2) by (simp_all add: at_time_def)
  from planner_aim_cong [OF assms(4) same_aimer_sym [OF assms(3)] this] show ?thesis using h by (auto simp: shot_def)
qed

lemma same_aimer_refl: "same_aimer p p"
  unfolding same_aimer_def by (rule exI [of _ "pl_debug p"]) simp

section \<open>The reference\<close>

definition wrapped :: "real \<Rightarrow> real" where
  "wrapped a = the (limit_rad real_libm a)"

definition reference_column :: "real \<Rightarrow> real \<times> real \<Rightarrow> real \<times> real \<Rightarrow> real \<times> real \<Rightarrow> real vec" where
  "reference_column yaw0 before now after =
     [wrapped (fst now - yaw0), wrapped (fst after - fst before) / (2 * DT), snd now, (snd after - snd before) / (2 * DT)]"

lemma trajectory_loop_reference:
  assumes "settled g"
  shows "trajectory_loop real_libm yaw0 v n before now g' p' = Some (Some cols, q) \<Longrightarrow> at_time g t g' \<Longrightarrow> same_aimer p p' \<Longrightarrow>
    shot p v g (t - DT) before \<Longrightarrow> shot p v g t now \<Longrightarrow>
    length cols = n \<and> same_aimer p q \<and>
    (\<forall>i < n. \<exists>a b c. shot p v g (t + (real i - 1) * DT) a \<and> shot p v g (t + real i * DT) b \<and> shot p v g (t + (real i + 1) * DT) c \<and>
      cols ! i = reference_column yaw0 a b c)"
proof (induction n arbitrary: before now g' p' cols t)
  case (Suc n)
  obtain g'' where g'': "target_predict_dt real_libm DT g' = Some g''" using Suc.prems(1) by (auto split: Option.bind_splits)
  obtain after p'' where a: "planner_aim real_libm g'' v p' = Some (Some after, p'')"
    using Suc.prems(1) by (auto simp: g'' split: Option.bind_splits option.splits)
  obtain y s where y: "limit_rad real_libm (fst after - fst before) = Some s" "limit_rad real_libm (fst now - yaw0) = Some y"
    using limit_rad_real by blast
  obtain rest where r: "trajectory_loop real_libm yaw0 v n now after g'' p'' = Some (Some rest, q)" and cols: "cols = reference_column yaw0 before now after # rest"
    using Suc.prems(1) y by (auto simp: g'' a reference_column_def wrapped_def Let_def split: Option.bind_splits)
  note at = at_time_step [OF assms Suc.prems(2) g''] and sa = same_aimer_trans [OF Suc.prems(3) planner_aim_same [OF a]]
  have after: "shot p v g (t + DT) after" by (rule shotI [OF assms at Suc.prems(3) a])
  note ih = Suc.IH [OF r at sa _ after]
  have now: "shot p v g (t + DT - DT) now" using Suc.prems(5) by simp
  have "\<exists>a b c. shot p v g (t + (real i - 1) * DT) a \<and> shot p v g (t + real i * DT) b \<and> shot p v g (t + (real i + 1) * DT) c \<and> cols ! i = reference_column yaw0 a b c"
    if "i < Suc n" for i
  proof (cases i)
    case 0
    have "shot p v g (t + (real i - 1) * DT) before" "shot p v g (t + real i * DT) now" "shot p v g (t + (real i + 1) * DT) after" "cols ! i = reference_column yaw0 before now after"
      using 0 Suc.prems(4,5) after cols by simp_all
    then show ?thesis by blast
  next
    case (Suc j)
    then have "j < n" using that by simp
    then obtain a b c where "shot p v g (t + DT + (real j - 1) * DT) a" "shot p v g (t + DT + real j * DT) b" "shot p v g (t + DT + (real j + 1) * DT) c"
      "rest ! j = reference_column yaw0 a b c" using ih [OF now] by blast
    then have "shot p v g (t + (real i - 1) * DT) a" "shot p v g (t + real i * DT) b" "shot p v g (t + (real i + 1) * DT) c" "cols ! i = reference_column yaw0 a b c"
      using Suc cols by (simp_all add: algebra_simps)
    then show ?thesis by blast
  qed
  then show ?case using ih [OF now] cols by simp
qed (simp add: same_aimer_def)

lemma get_trajectory_reference:
  assumes "settled g" and "get_trajectory real_libm g yaw0 v p = Some (Some cols, q)"
  shows "length cols = HORIZON \<and> same_aimer p q \<and>
    (\<forall>i < HORIZON. \<exists>a b c. shot p v g ((real i - 51) * DT) a \<and> shot p v g ((real i - 50) * DT) b \<and> shot p v g ((real i - 49) * DT) c \<and>
      cols ! i = reference_column yaw0 a b c)"
proof -
  obtain g1 where g1: "target_predict_dt real_libm (- DT * (of_nat HALF_HORIZON + 1)) g = Some g1"
    using assms(2) by (auto simp: get_trajectory_def split: Option.bind_splits)
  obtain a1 p1 where a1: "planner_aim real_libm g1 v p = Some (Some a1, p1)"
    using assms(2) unfolding get_trajectory_def g1 by (auto split: Option.bind_splits option.splits)
  obtain g2 where g2: "target_predict_dt real_libm DT g1 = Some g2"
    using assms(2) unfolding get_trajectory_def g1 by (auto simp: a1 split: Option.bind_splits)
  obtain a2 p2 where a2: "planner_aim real_libm g2 v p1 = Some (Some a2, p2)"
    using assms(2) unfolding get_trajectory_def g1 by (auto simp: a1 g2 split: Option.bind_splits option.splits)
  have l: "trajectory_loop real_libm yaw0 v HORIZON a1 a2 g2 p2 = Some (Some cols, q)"
    using assms(2) unfolding get_trajectory_def g1 by (simp add: a1 g2 a2)
  have t1: "at_time g (- 51 * DT) g1" using at_time_predict [OF assms(1) g1] by (simp add: mult.commute)
  have t2: "at_time g (- 50 * DT) g2" using at_time_step [OF assms(1) t1 g2] by simp
  note s1 = planner_aim_same [OF a1] and s2 = planner_aim_same [OF a2]
  have b1: "shot p v g (- 50 * DT - DT) a1" using shotI [OF assms(1) t1 same_aimer_refl a1] by simp
  have b2: "shot p v g (- 50 * DT) a2" by (rule shotI [OF assms(1) t2 s1 a2])
  show ?thesis using trajectory_loop_reference [OF assms(1) l t2 same_aimer_trans [OF s1 s2] b1 b2] by (simp add: algebra_simps)
qed

section \<open>The solvers of the planner\<close>

definition axis_ok :: "('k :: linordered_field) tiny_solver \<Rightarrow> bool" where
  "axis_ok S \<longleftrightarrow> solvable S \<and> wo_nx (ts_work S) = 2 \<and> wo_nu (ts_work S) = 1 \<and> wo_N (ts_work S) = HORIZON \<and> 1 \<le> se_max_iter (ts_settings S)"

definition planner_ok :: "('k :: linordered_field) planner \<Rightarrow> bool" where
  "planner_ok p \<longleftrightarrow> axis_ok (pl_yaw_solver p) \<and> axis_ok (pl_pitch_solver p)"

lemma solve_axis_ok:
  assumes "axis_ok S" "is_mat HORIZON 2 ref"
  shows "\<exists>S'. solve_axis ref S = Some S' \<and> axis_ok S' \<and> wo_x (ts_work S') ! 0 = ref ! 0"
proof -
  let ?S = "set_reference ref (tiny_set_x0 (ref ! 0) S)"
  have a: "solvable S" "wo_nx (ts_work S) = 2" "wo_nu (ts_work S) = 1" "wo_N (ts_work S) = HORIZON" "1 \<le> se_max_iter (ts_settings S)"
    using assms(1) by (simp_all add: axis_ok_def)
  have "solvable (tiny_set_x0 (ref ! 0) S)" using set_x0_solvable [OF a(1)] is_mat_row [OF assms(2), of 0] a(2) by simp
  from set_reference_solvable [OF this, of ref] have v: "solvable ?S" using assms(2) a by (simp add: tiny_set_x0_def)
  have "is_mat HORIZON 2 (wo_x (ts_work S))" using a by (simp add: solvable_def work_ok_def)
  then have x0: "wo_x (ts_work ?S) ! 0 = ref ! 0" by (simp add: set_reference_def tiny_set_x0_def is_mat_length)
  have w: "wo_nx (ts_work ?S) = 2" "wo_nu (ts_work ?S) = 1" "wo_N (ts_work ?S) = HORIZON" "ts_settings ?S = ts_settings S"
    using a by (simp_all add: set_reference_def tiny_set_x0_def)
  obtain code S' where s: "solve ?S = Some (code, S')" "answer ?S code S'" "solvable S'"
    using solve_returns [OF v] a(5) w(4) by auto
  then have "axis_ok S'" "wo_x (ts_work S') ! 0 = ref ! 0"
    using w a(5) x0 by (simp_all add: axis_ok_def answer_def round_ok_def same_problem_def)
  then show ?thesis using s(1) by (simp add: solve_axis_def)
qed

lemma setup_axis_ok:
  assumes "setup_axis_solver minv (Value max_acc) Q R = Some S" "0 \<le> max_acc"
    and "\<And>M G. is_mat 1 1 M \<Longrightarrow> minv M = Some G \<Longrightarrow> is_mat 1 1 G"
  shows "axis_ok S"
proof -
  obtain q r T where qr: "2 \<le> length q" "1 \<le> length r"
    and T: "tiny_setup minv [[1, DT], [0, 1]] [[0], [DT]] [0, 0] (mat_diag (take 2 q)) (mat_diag (take 1 r)) 1 2 1 HORIZON = Some T"
    and S: "S = (let S = tiny_set_bound_constraints (replicate HORIZON (replicate 2 (- (10 ^ 17)))) (replicate HORIZON (replicate 2 (10 ^ 17)))
         (replicate (HORIZON - 1) [- max_acc]) (replicate (HORIZON - 1) [max_acc]) T in S\<lparr>ts_settings := (ts_settings S)\<lparr>se_max_iter := 10\<rparr>\<rparr>)"
    using assms(1) by (cases Q; cases R) (auto simp: setup_axis_solver_def yaml_as_def Let_def not_less Suc_le_eq split: Option.bind_splits if_splits)
  have "solvable (tiny_set_bound_constraints (replicate HORIZON (replicate 2 (- (10 ^ 17)))) (replicate HORIZON (replicate 2 (10 ^ 17)))
     (replicate (HORIZON - 1) [- max_acc]) (replicate (HORIZON - 1) [max_acc]) T)"
    by (rule setup_solvable [OF _ _ _ mat_diag_shape mat_diag_shape _ _ _ assms(3) T]) (use qr assms(2) in \<open>auto simp: is_mat_def\<close>)
  moreover have "wo_nx (ts_work T) = 2" "wo_nu (ts_work T) = 1" "wo_N (ts_work T) = HORIZON"
    using T by (auto simp: tiny_setup_def Let_def split: Option.bind_splits)
  ultimately show ?thesis by (simp add: S axis_ok_def solvable_def Let_def tiny_set_bound_constraints_def)
qed

lemma new_planner_ok:
  assumes "new_planner junk minv yaml = Some p" "pc_max_yaw_acc yaml = Value ya" "0 \<le> ya" "pc_max_pitch_acc yaml = Value pa" "0 \<le> pa"
    and "\<And>M G. is_mat 1 1 M \<Longrightarrow> minv M = Some G \<Longrightarrow> is_mat 1 1 G"
  shows "planner_ok p"
proof -
  have "setup_axis_solver minv (Value ya) (pc_Q_yaw yaml) (pc_R_yaw yaml) = Some (pl_yaw_solver p)"
    "setup_axis_solver minv (Value pa) (pc_Q_pitch yaml) (pc_R_pitch yaml) = Some (pl_pitch_solver p)"
    using assms(1,2,4) by (auto simp: new_planner_def split: Option.bind_splits)
  from setup_axis_ok [OF this(1) assms(3,6)] setup_axis_ok [OF this(2) assms(5,6)] show ?thesis by (simp add: planner_ok_def)
qed

section \<open>A plan comes back\<close>

text \<open>The trajectory of a bullet to the nearest plate.\<close>

definition fire_line :: "real \<Rightarrow> real ekf target \<Rightarrow> real trajectory option" where
  "fire_line v g = do { (d, (_, _, z, _)) \<leftarrow> nearest_of real_libm g; new_trajectory real_libm v d z }"

lemma planner_aim_total:
  assumes "fire_line v g \<noteq> None"
  shows "\<exists>a q. planner_aim real_libm g v p = Some (a, q) \<and> same_aimer p q \<and> (a = None \<longleftrightarrow> fire_line v g = Some Unsolvable)"
proof -
  obtain d x y z w j where n: "nearest_of real_libm g = Some (d, (x, y, z, w))" "new_trajectory real_libm v d z = Some j" "fire_line v g = Some j"
    using assms by (auto simp: fire_line_def split: Option.bind_splits)
  obtain l where "limit_rad real_libm (lm_atan2 real_libm y x + pl_yaw_offset (p\<lparr>pl_debug := (x, y, z, w)\<rparr>)) = Some l" using limit_rad_real by blast
  with n show ?thesis by (cases j) (auto simp: planner_aim_def Let_def intro: same_aimerI)
qed

lemma predict_at_time: "settled g \<Longrightarrow> at_time g t g' \<Longrightarrow> \<exists>g''. target_predict_dt real_libm dt g' = Some g'' \<and> at_time g (t + dt) g''"
  using predict_real [of g' dt] at_time_step [of g t g' dt] by (fastforce simp: at_time_def settled_def)

lemma trajectory_loop_total:
  assumes "settled g"
  shows "at_time g t g' \<Longrightarrow> same_aimer p p' \<Longrightarrow> (\<And>s h. t + DT \<le> s \<Longrightarrow> s \<le> t + real n * DT \<Longrightarrow> at_time g s h \<Longrightarrow> fire_line v h \<noteq> None) \<Longrightarrow>
    \<exists>cols q. trajectory_loop real_libm yaw0 v n before now g' p' = Some (cols, q) \<and> same_aimer p q \<and>
      ((\<forall>s h. t + DT \<le> s \<longrightarrow> s \<le> t + real n * DT \<longrightarrow> at_time g s h \<longrightarrow> fire_line v h \<noteq> Some Unsolvable) \<longrightarrow> cols \<noteq> None)"
proof (induction n arbitrary: t g' p' before now)
  case (Suc n)
  obtain g'' where g'': "target_predict_dt real_libm DT g' = Some g''" "at_time g (t + DT) g''" using predict_at_time [OF assms Suc.prems(1)] by blast
  have dt: "0 < (DT :: real)" by (simp add: DT_def)
  have in_range: "t + DT \<le> t + real (Suc n) * DT" using dt by (simp add: algebra_simps)
  have "fire_line v g'' \<noteq> None" by (rule Suc.prems(3) [OF _ in_range g''(2)]) simp
  then obtain a p'' where a: "planner_aim real_libm g'' v p' = Some (a, p'')" "same_aimer p' p''" "a = None \<longleftrightarrow> fire_line v g'' = Some Unsolvable"
    using planner_aim_total [of v g'' p'] by blast
  show ?case
  proof (cases a)
    case None
    have "\<not> (\<forall>s h. t + DT \<le> s \<longrightarrow> s \<le> t + real (Suc n) * DT \<longrightarrow> at_time g s h \<longrightarrow> fire_line v h \<noteq> Some Unsolvable)"
      using None a(3) g''(2) in_range by blast
    then show ?thesis using None g''(1) a(1) same_aimer_trans [OF Suc.prems(2) a(2)] by simp
  next
    case (Some after)
    obtain y s where y: "limit_rad real_libm (fst after - fst before) = Some s" "limit_rad real_libm (fst now - yaw0) = Some y"
      using limit_rad_real by blast
    have le: "t + DT + DT \<le> s \<Longrightarrow> s \<le> t + DT + real n * DT \<Longrightarrow> t + DT \<le> s \<and> s \<le> t + real (Suc n) * DT" for s
      using dt by (simp add: algebra_simps)
    have "\<exists>cols q. trajectory_loop real_libm yaw0 v n now after g'' p'' = Some (cols, q) \<and> same_aimer p q \<and>
      ((\<forall>s h. t + DT + DT \<le> s \<longrightarrow> s \<le> t + DT + real n * DT \<longrightarrow> at_time g s h \<longrightarrow> fire_line v h \<noteq> Some Unsolvable) \<longrightarrow> cols \<noteq> None)"
      by (rule Suc.IH [OF g''(2) same_aimer_trans [OF Suc.prems(2) a(2)]]) (use le Suc.prems(3) in blast)
    then obtain cols q where r: "trajectory_loop real_libm yaw0 v n now after g'' p'' = Some (cols, q)" "same_aimer p q"
      "(\<forall>s h. t + DT \<le> s \<longrightarrow> s \<le> t + real (Suc n) * DT \<longrightarrow> at_time g s h \<longrightarrow> fire_line v h \<noteq> Some Unsolvable) \<longrightarrow> cols \<noteq> None"
      using le by blast
    show ?thesis using r by (simp add: g''(1) a(1) Some y Let_def)
  qed
qed simp

text \<open>The times of a reference trajectory; what has to hold at all of them.\<close>

definition on_horizon :: "real ekf target \<Rightarrow> (real ekf target \<Rightarrow> bool) \<Rightarrow> bool" where
  "on_horizon g Q \<longleftrightarrow> (\<forall>s h. - 51 * DT \<le> s \<longrightarrow> s \<le> 50 * DT \<longrightarrow> at_time g s h \<longrightarrow> Q h)"

lemma get_trajectory_total:
  assumes "settled g" and "on_horizon g (\<lambda>h. fire_line v h \<noteq> None)"
  shows "\<exists>cols q. get_trajectory real_libm g yaw0 v p = Some (cols, q) \<and> same_aimer p q \<and>
      (on_horizon g (\<lambda>h. fire_line v h \<noteq> Some Unsolvable) \<longrightarrow> cols \<noteq> None)"
proof -
  have reach: "fire_line v h \<noteq> None" if "- 51 * DT \<le> s" "s \<le> 50 * DT" "at_time g s h" for s h using assms(2) that unfolding on_horizon_def by blast
  have dt: "0 < (DT :: real)" by (simp add: DT_def)
  obtain g1 where g1: "target_predict_dt real_libm (- DT * (of_nat HALF_HORIZON + 1)) g = Some g1" using predict_real [of g] assms(1) by (fastforce simp: settled_def)
  have t1: "at_time g (- 51 * DT) g1" using at_time_predict [OF assms(1) g1] by (simp add: mult.commute)
  obtain g2 where g2: "target_predict_dt real_libm DT g1 = Some g2" "at_time g (- 50 * DT) g2" using predict_at_time [OF assms(1) t1, of DT] by auto
  obtain a1 p1 where a1: "planner_aim real_libm g1 v p = Some (a1, p1)" "same_aimer p p1" "a1 = None \<longleftrightarrow> fire_line v g1 = Some Unsolvable"
    using planner_aim_total [OF reach [OF _ _ t1], of p] dt by auto
  obtain a2 p2 where a2: "planner_aim real_libm g2 v p1 = Some (a2, p2)" "same_aimer p1 p2" "a2 = None \<longleftrightarrow> fire_line v g2 = Some Unsolvable"
    using planner_aim_total [OF reach [OF _ _ g2(2)], of p1] dt by auto
  note p2 = same_aimer_trans [OF a1(2) a2(2)]
  let ?clear = "on_horizon g (\<lambda>h. fire_line v h \<noteq> Some Unsolvable)"
  have "\<exists>cols q. trajectory_loop real_libm yaw0 v HORIZON (the a1) (the a2) g2 p2 = Some (cols, q) \<and> same_aimer p q \<and>
      ((\<forall>s h. - 50 * DT + DT \<le> s \<longrightarrow> s \<le> - 50 * DT + real HORIZON * DT \<longrightarrow> at_time g s h \<longrightarrow> fire_line v h \<noteq> Some Unsolvable) \<longrightarrow> cols \<noteq> None)"
    by (rule trajectory_loop_total [OF assms(1) g2(2) p2]) (rule reach, use dt in simp_all)
  then obtain cols q where l: "trajectory_loop real_libm yaw0 v HORIZON (the a1) (the a2) g2 p2 = Some (cols, q)" "same_aimer p q"
    "(\<forall>s h. - 50 * DT + DT \<le> s \<longrightarrow> s \<le> - 50 * DT + real HORIZON * DT \<longrightarrow> at_time g s h \<longrightarrow> fire_line v h \<noteq> Some Unsolvable) \<longrightarrow> cols \<noteq> None"
    by blast
  have "fire_line v h \<noteq> Some Unsolvable" if "?clear" "- 50 * DT + DT \<le> s" "s \<le> - 50 * DT + real HORIZON * DT" "at_time g s h" for s h
    using that(1) [unfolded on_horizon_def, rule_format, OF _ _ that(4)] that(2,3) dt by simp
  then have c: "?clear \<Longrightarrow> cols \<noteq> None" using l(3) by blast
  have ac: "a1 \<noteq> None \<and> a2 \<noteq> None" if "?clear"
    using that [unfolded on_horizon_def, rule_format, OF _ _ t1] that [unfolded on_horizon_def, rule_format, OF _ _ g2(2)] a1(3) a2(3) dt by simp
  have e: "get_trajectory real_libm g yaw0 v p =
    (case a1 of None \<Rightarrow> Some (None, p1) | Some l \<Rightarrow> (case a2 of None \<Rightarrow> Some (None, p2) | Some c \<Rightarrow> trajectory_loop real_libm yaw0 v HORIZON l c g2 p2))"
    unfolding get_trajectory_def g1 by (simp add: a1(1) g2(1) a2(1) split: option.split)
  show ?thesis
  proof (cases "a1 = None \<or> a2 = None")
    case True
    then show ?thesis using ac a1(2) p2 by (auto simp: e split: option.split)
  next
    case False
    then have "get_trajectory real_libm g yaw0 v p = Some (cols, q)" using l(1) by (auto simp: e)
    then show ?thesis using l(2) c by blast
  qed
qed

lemma plan_from_total: "\<exists>c. plan_from real_libm fl yaw0 traj p = Some c \<and> pn_control c"
proof -
  obtain s where s: "limit_rad real_libm (traj ! HALF_HORIZON ! 0 + yaw0) = Some s" using limit_rad_real by blast
  obtain t where t: "limit_rad real_libm (wo_x (ts_work (pl_yaw_solver p)) ! HALF_HORIZON ! 0 + yaw0) = Some t" using limit_rad_real by blast
  show ?thesis by (simp add: plan_from_def Let_def s t)
qed

lemma at_time_zero:
  assumes "settled g"
  shows "at_time g 0 g"
proof -
  obtain x0 x1 x2 x3 x4 x5 x6 x7 x8 x9 x10 where x: "ek_x (tg_ekf g) = [x0, x1, x2, x3, x4, x5, x6, x7, x8, x9, x10]"
    using assms by (auto simp: settled_def elim: states_cases)
  then have "limit_rad real_libm x6 = Some x6" using assms by (intro limit_rad_inside) (simp_all add: settled_def numeral_eq_Suc)
  then show ?thesis using assms by (simp add: at_time_def x next_state_def transition_app)
qed

lemma get_trajectory_shape:
  assumes "settled g" and "get_trajectory real_libm g yaw0 v p = Some (Some cols, q)"
  shows "length cols = HORIZON" "is_mat HORIZON 2 (map (take 2) cols)" "is_mat HORIZON 2 (map (drop 2) cols)"
proof -
  have r: "length cols = HORIZON" "\<forall>i < HORIZON. \<exists>y a b c. cols ! i = reference_column y a b c"
    using get_trajectory_reference [OF assms] by blast+
  show "length cols = HORIZON" by (rule r)
  show "is_mat HORIZON 2 (map (take 2) cols)" "is_mat HORIZON 2 (map (drop 2) cols)"
    by (rule is_matI; use r in \<open>fastforce simp: reference_column_def\<close>)+
qed

lemma plan_target_cases:
  assumes "planner_ok p" and "length (ek_x (tg_ekf g)) = STATES" and "fire_line (checked_speed v) g = Some (Solvable fly elevation)"
    and "target_predict_dt real_libm fly g = Some g'" and "on_horizon g' (\<lambda>h. fire_line (checked_speed v) h \<noteq> None)"
  obtains (refused) p' where "plan_target real_libm fl g v p = Some (no_plan fl, p')" "planner_ok p'" "\<not> on_horizon g' (\<lambda>h. fire_line (checked_speed v) h \<noteq> Some Unsolvable)"
  | (plan) c p' yaw0 pitch0 q1 q2 cols where "plan_target real_libm fl g v p = Some (c, p')" "planner_ok p'"
      "planner_aim real_libm g' (checked_speed v) p = Some (Some (yaw0, pitch0), q1)" "get_trajectory real_libm g' yaw0 (checked_speed v) q1 = Some (Some cols, q2)"
      "plan_from real_libm fl yaw0 cols p' = Some c"
      "wo_x (ts_work (pl_yaw_solver p')) ! 0 = take 2 (cols ! 0)" "wo_x (ts_work (pl_pitch_solver p')) ! 0 = drop 2 (cols ! 0)"
proof -
  let ?v = "checked_speed v"
  have g': "settled g'" by (rule predict_settled(1) [OF assms(2,4)])
  have reach: "fire_line ?v h \<noteq> None" if "- 51 * DT \<le> s" "s \<le> 50 * DT" "at_time g' s h" for s h using assms(5) that unfolding on_horizon_def by blast
  note t0 = at_time_zero [OF g']
  have dt: "0 < (DT :: real)" by (simp add: DT_def)
  obtain a q1 where a: "planner_aim real_libm g' ?v p = Some (a, q1)" "same_aimer p q1" "a = None \<longleftrightarrow> fire_line ?v g' = Some Unsolvable"
    using planner_aim_total [OF reach [OF _ _ t0], of p] dt by auto
  have ok: "planner_ok q" if "same_aimer p q" for q using that assms(1) same_aimer_fields [OF that] by (simp add: planner_ok_def)
  obtain d x y z w where n: "nearest_of real_libm g = Some (d, (x, y, z, w))" "new_trajectory real_libm ?v d z = Some (Solvable fly elevation)"
    using assms(3) by (auto simp: fire_line_def split: Option.bind_splits)
  have e: "plan_target real_libm fl g v p = (case a of None \<Rightarrow> Some (no_plan fl, q1) | Some (yaw0, _) \<Rightarrow> do {
         (traj, p) \<leftarrow> get_trajectory real_libm g' yaw0 ?v q1;
         case traj of None \<Rightarrow> Some (no_plan fl, p)
         | Some traj \<Rightarrow> do {
             Y \<leftarrow> solve_axis (map (take 2) traj) (pl_yaw_solver p);
             let p = p\<lparr>pl_yaw_solver := Y\<rparr>;
             P \<leftarrow> solve_axis (map (drop 2) traj) (pl_pitch_solver p);
             let p = p\<lparr>pl_pitch_solver := P\<rparr>;
             c \<leftarrow> plan_from real_libm fl yaw0 traj p;
             Some (c, p) } })"
    unfolding plan_target_def Let_def n(1) by (simp add: n(2) assms(4) a(1))
  show thesis
  proof (cases a)
    case None
    then have "\<not> on_horizon g' (\<lambda>h. fire_line ?v h \<noteq> Some Unsolvable)" using a(3) t0 dt unfolding on_horizon_def by (intro notI) (auto dest!: spec [of _ 0])
    moreover have "plan_target real_libm fl g v p = Some (no_plan fl, q1)" by (simp add: e None)
    ultimately show thesis using refused ok [OF a(2)] by blast
  next
    case (Some yp)
    obtain yaw0 pitch0 where yp: "yp = (yaw0, pitch0)" by (metis surj_pair)
    obtain cols q2 where t: "get_trajectory real_libm g' yaw0 ?v q1 = Some (cols, q2)" "same_aimer q1 q2"
      "on_horizon g' (\<lambda>h. fire_line ?v h \<noteq> Some Unsolvable) \<longrightarrow> cols \<noteq> None"
      using get_trajectory_total [OF g' assms(5)] by blast
    note q2 = ok [OF same_aimer_trans [OF a(2) t(2)]]
    show thesis
    proof (cases cols)
      case None
      then show thesis using refused [of q2] t e q2 by (simp add: Some yp)
    next
      case (Some cs)
      note r = get_trajectory_shape(1) [OF g' t(1) [unfolded Some]] and m = get_trajectory_shape(2,3) [OF g' t(1) [unfolded Some]]
      obtain Y where Y: "solve_axis (map (take 2) cs) (pl_yaw_solver q2) = Some Y" "axis_ok Y" "wo_x (ts_work Y) ! 0 = take 2 (cs ! 0)"
        using solve_axis_ok [OF _ m(1), of "pl_yaw_solver q2"] q2 r(1) by (auto simp: planner_ok_def)
      obtain P where P: "solve_axis (map (drop 2) cs) (pl_pitch_solver q2) = Some P" "axis_ok P" "wo_x (ts_work P) ! 0 = drop 2 (cs ! 0)"
        using solve_axis_ok [OF _ m(2), of "pl_pitch_solver q2"] q2 r(1) by (auto simp: planner_ok_def)
      let ?p = "q2\<lparr>pl_yaw_solver := Y, pl_pitch_solver := P\<rparr>"
      obtain c where c: "plan_from real_libm fl yaw0 cs ?p = Some c" using plan_from_total by blast
      have "plan_target real_libm fl g v p = Some (c, ?p)"
        unfolding e by (simp add: \<open>a = Some yp\<close> yp t(1) Some Y(1) P(1) c Let_def)
      moreover have "planner_ok ?p" using Y(2) P(2) by (simp add: planner_ok_def)
      ultimately show thesis using plan [of c ?p yaw0 pitch0 q1 cs q2] a(1) t(1) c Y(3) P(3) \<open>a = Some yp\<close> yp Some by simp
    qed
  qed
qed

section \<open>The nearest plate\<close>

lemma nearest_fold:
  "fold (\<lambda>xyza (min_dist, found). let dist = horizontal M xyza in if dist < min_dist then (dist, Some xyza) else (min_dist, found)) plates (d0, f0) = (d, f) \<Longrightarrow>
     (\<forall>a \<in> set plates. d \<le> horizontal M a) \<and> d \<le> d0 \<and> (f = f0 \<and> d = d0 \<or> (\<exists>a \<in> set plates. f = Some a \<and> d = horizontal M a))"
proof (induction plates arbitrary: d0 f0)
  case (Cons a plates)
  show ?case
  proof (cases "horizontal M a < d0")
    case True
    then show ?thesis using Cons.IH [of "horizontal M a" "Some a"] Cons.prems by (auto simp: Let_def)
  next
    case False
    then show ?thesis using Cons.IH [of d0 f0] Cons.prems by (auto simp: Let_def)
  qed
qed simp

lemma nearest_plate_least:
  "nearest_plate M plates = Some (d, a) \<Longrightarrow> a \<in> set plates \<and> d = horizontal M a \<and> (\<forall>b \<in> set plates. d \<le> horizontal M b)"
  using nearest_fold [of M plates "10 ^ 10" None] by (auto simp: nearest_plate_def split: prod.splits option.splits)

lemma nearest_plate_found:
  assumes "a \<in> set plates" "horizontal M a < 10 ^ 10"
  shows "\<exists>d b. nearest_plate M plates = Some (d, b)"
proof -
  obtain d f where f: "fold (\<lambda>xyza (min_dist, found). let dist = horizontal M xyza in if dist < min_dist then (dist, Some xyza) else (min_dist, found)) plates (10 ^ 10, None) = (d, f)"
    by fastforce
  obtain b where "f = Some b" using nearest_fold [OF f] assms by (cases f) auto
  then have "nearest_plate M plates = Some (d, b)" unfolding nearest_plate_def f by simp
  then show ?thesis by blast
qed

text \<open>The nearest plate of a target, among all its plates.\<close>

definition is_nearest :: "real ekf target \<Rightarrow> real xyza \<Rightarrow> bool" where
  "is_nearest g a \<longleftrightarrow> (\<exists>plates. armor_xyza_list real_libm ((!) (ek_x (tg_ekf g))) (tg_armor_num g) = Some plates \<and> a \<in> set plates \<and>
     (\<forall>b \<in> set plates. horizontal real_libm a \<le> horizontal real_libm b))"

lemma nearest_of_least: "nearest_of real_libm g = Some (d, a) \<Longrightarrow> is_nearest g a \<and> d = horizontal real_libm a"
  by (auto simp: nearest_of_def is_nearest_def split: Option.bind_splits dest!: nearest_plate_least)

section \<open>What a plan aims at\<close>

lemma checked_speed_pos: "0 < (checked_speed v :: 'k :: linordered_field)"
  by (simp add: checked_speed_def)

lemma plan_target_control:
  assumes "plan_target real_libm fl g v p = Some (c, p')" "pn_control c"
  obtains fly e g' yaw0 pitch0 q1 cols q2 where "fire_line (checked_speed v) g = Some (Solvable fly e)" "target_predict_dt real_libm fly g = Some g'"
    "planner_aim real_libm g' (checked_speed v) p = Some (Some (yaw0, pitch0), q1)" "get_trajectory real_libm g' yaw0 (checked_speed v) q1 = Some (Some cols, q2)"
    "plan_from real_libm fl yaw0 cols p' = Some c"
proof -
  obtain d x y z w where n: "nearest_of real_libm g = Some (d, (x, y, z, w))" using assms(1) by (auto simp: plan_target_def Let_def split: Option.bind_splits)
  obtain fly e where j: "new_trajectory real_libm (checked_speed v) d z = Some (Solvable fly e)"
    using assms(1) by (auto simp: plan_target_def Let_def n split: Option.bind_splits trajectory.splits)
  obtain g' where g': "target_predict_dt real_libm fly g = Some g'" using assms(1) by (auto simp: plan_target_def Let_def n j split: Option.bind_splits)
  obtain yaw0 pitch0 q1 where a: "planner_aim real_libm g' (checked_speed v) p = Some (Some (yaw0, pitch0), q1)"
    using assms by (auto simp: plan_target_def Let_def n j g' no_plan_def split: Option.bind_splits option.splits)
  obtain cols q2 where t: "get_trajectory real_libm g' yaw0 (checked_speed v) q1 = Some (Some cols, q2)"
    using assms by (auto simp: plan_target_def Let_def n j g' a no_plan_def split: Option.bind_splits option.splits)
  have "plan_from real_libm fl yaw0 cols p' = Some c"
    using assms by (auto simp: plan_target_def Let_def n j g' a t split: Option.bind_splits)
  moreover have "fire_line (checked_speed v) g = Some (Solvable fly e)" by (simp add: fire_line_def n j)
  ultimately show thesis using that g' a t by blast
qed

lemma aim_range:
  assumes "planner_aim real_libm g v p = Some (Some (yaw, pitch), q)"
  shows "limit_rad real_libm yaw = Some yaw"
proof -
  obtain a where "limit_rad real_libm a = Some yaw" using assms by (auto simp: planner_aim_def Let_def split: Option.bind_splits trajectory.splits)
  with limit_rad_real [of a] show ?thesis by (auto intro: limit_rad_inside)
qed

lemma aim_strikes:
  assumes "planner_aim real_libm g v p = Some (Some (yaw, pitch), q)" "0 < v"
  shows "\<exists>x y z w t. is_nearest g (x, y, z, w) \<and> limit_rad real_libm (real_atan2 y x + pl_yaw_offset p) = Some yaw \<and>
    strikes v (- pitch - pl_pitch_offset p) t (sqrt (x * x + y * y)) z"
proof -
  obtain d x y z w where n: "nearest_of real_libm g = Some (d, (x, y, z, w))" using assms(1) by (auto simp: planner_aim_def Let_def split: Option.bind_splits)
  obtain t e where j: "new_trajectory real_libm v d z = Some (Solvable t e)" and y: "limit_rad real_libm (real_atan2 y x + pl_yaw_offset p) = Some yaw" and e: "pitch = - e - pl_pitch_offset p"
    using assms(1) by (auto simp: planner_aim_def Let_def n split: Option.bind_splits trajectory.splits)
  have d: "is_nearest g (x, y, z, w)" "d = sqrt (x * x + y * y)" using nearest_of_least [OF n] by (auto simp: horizontal_def)
  have "d \<noteq> 0" using j assms(2) by (auto simp: new_trajectory_def fdiv_def Let_def)
  then have "0 < d" using d(2) by (simp add: order_less_le)
  from trajectory_real [OF assms(2) this, of z] j have "strikes v e t d z" by auto
  then show ?thesis using d y e by auto
qed

text \<open>The middle column is the aim itself.\<close>

lemma middle_column:
  assumes "settled g" "planner_aim real_libm g v p = Some (Some (yaw0, pitch0), q1)" "get_trajectory real_libm g yaw0 v q1 = Some (Some cols, q2)"
  shows "cols ! HALF_HORIZON ! 0 = 0" "cols ! HALF_HORIZON ! 2 = pitch0"
proof -
  obtain a b c where s: "shot q1 v g ((real HALF_HORIZON - 50) * DT) b" "cols ! HALF_HORIZON = reference_column yaw0 a b c"
    using get_trajectory_reference [OF assms(1,3), THEN conjunct2, THEN conjunct2, THEN spec [of _ HALF_HORIZON]] by auto
  then obtain h q where h: "target_predict_dt real_libm 0 g = Some h" "planner_aim real_libm h v q1 = Some (Some b, q)" by (auto simp: shot_def)
  have "ek_x (tg_ekf g) = ek_x (tg_ekf h)" "tg_armor_num g = tg_armor_num h"
    using at_time_predict [OF assms(1) h(1)] at_time_zero [OF assms(1)] by (simp_all add: at_time_def)
  from planner_aim_cong [OF h(2) same_aimer_sym [OF planner_aim_same [OF assms(2)]] this] assms(2) have "b = (yaw0, pitch0)" by auto
  then show "cols ! HALF_HORIZON ! 0 = 0" "cols ! HALF_HORIZON ! 2 = pitch0"
    using s(2) limit_rad_inside [of 0] by (simp_all add: reference_column_def wrapped_def numeral_2_eq_2)
qed

section \<open>Plans\<close>

text \<open>
  C10. A plan comes back: for a planner whose solvers are set up and a target whose nearest plate the bullet can reach now and has a trajectory computed for at every time of the
  horizon, planning returns, and the planner can be used again. The plan either refuses control, with every field zero, or asks for it; it asks for it when the bullet
  can reach the nearest plate at every time of the horizon.
\<close>

theorem plan_returns:
  assumes "planner_ok p" and "length (ek_x (tg_ekf g)) = STATES" and "fire_line (checked_speed v) g = Some (Solvable fly elevation)"
    and "target_predict_dt real_libm fly g = Some g'" and "on_horizon g' (\<lambda>h. fire_line (checked_speed v) h \<noteq> None)"
  shows "\<exists>c p'. plan_target real_libm fl g v p = Some (c, p') \<and> planner_ok p' \<and> (pn_control c \<or> c = no_plan fl) \<and>
    (on_horizon g' (\<lambda>h. fire_line (checked_speed v) h \<noteq> Some Unsolvable) \<longrightarrow> pn_control c)"
  using assms
proof (cases rule: plan_target_cases [where fl = fl])
  case (refused p')
  then show ?thesis by blast
next
  case (plan c p' yaw0 pitch0 q1 cols q2)
  then have "pn_control c" by (auto simp: plan_from_def Let_def split: Option.bind_splits)
  then show ?thesis using plan(1,2) by blast
qed

text \<open>
  C9. What a plan aims at: the target angles of a plan that asks for control belong to the target predicted by the time of flight to its nearest plate. There the yaw is the direction of the
  nearest plate with the offset, within a turn, and the pitch, without its offset and its sign, is an elevation at which a bullet of the checked speed strikes that plate.
\<close>

theorem plan_strikes_nearest_plate:
  assumes "plan_target real_libm fl g v p = Some (c, p')" and "pn_control c" and "length (ek_x (tg_ekf g)) = STATES"
  shows "\<exists>fly e g' x y z w yaw pitch t. fire_line (checked_speed v) g = Some (Solvable fly e) \<and> target_predict_dt real_libm fly g = Some g' \<and>
    is_nearest g' (x, y, z, w) \<and> pn_target_yaw c = fl yaw \<and> pn_target_pitch c = fl pitch \<and>
    limit_rad real_libm (real_atan2 y x + pl_yaw_offset p) = Some yaw \<and> strikes (checked_speed v) (- pitch - pl_pitch_offset p) t (sqrt (x * x + y * y)) z"
proof -
  from plan_target_control [OF assms(1,2)] obtain fly e g' yaw0 pitch0 q1 cols q2 where
    f: "fire_line (checked_speed v) g = Some (Solvable fly e)" and g': "target_predict_dt real_libm fly g = Some g'"
    and a: "planner_aim real_libm g' (checked_speed v) p = Some (Some (yaw0, pitch0), q1)"
    and t: "get_trajectory real_libm g' yaw0 (checked_speed v) q1 = Some (Some cols, q2)" and c: "plan_from real_libm fl yaw0 cols p' = Some c" .
  note m = middle_column [OF predict_settled(1) [OF assms(3) g'] a t]
  have "pn_target_yaw c = fl yaw0" "pn_target_pitch c = fl pitch0"
    using c by (auto simp: plan_from_def Let_def m aim_range [OF a] split: Option.bind_splits)
  then show ?thesis using aim_strikes [OF a checked_speed_pos] f g' by blast
qed

section \<open>Firing of the planning thread\<close>

text \<open>The distance of the planned angles from the reference, two steps after the middle of the horizon.\<close>

definition tracking_error :: "('k :: linordered_field) libm \<Rightarrow> 'k planner \<Rightarrow> 'k" where
  "tracking_error M p = (let Y = ts_work (pl_yaw_solver p); P = ts_work (pl_pitch_solver p);
     y = wo_Xref Y ! 52 ! 0 - wo_x Y ! 52 ! 0; q = wo_Xref P ! 52 ! 0 - wo_x P ! 52 ! 0 in lm_sqrt M (y * y + q * q))"

lemma iterate_Xref: "wo_Xref (iterate S) = wo_Xref (ts_work S)"
proof -
  have b: "wo_Xref (backward_loop c k w) = wo_Xref w" for c k and w :: "'a tiny_workspace"
    by (induction k arbitrary: w) (simp_all add: backward_step_def Let_def)
  have f: "wo_Xref (fold (forward_step c) ks w) = wo_Xref w" for c ks and w :: "'a tiny_workspace"
    by (induction ks arbitrary: w) (simp_all add: forward_step_def Let_def)
  show ?thesis by (simp add: iterate_def update_linear_cost_def update_dual_def update_slack_def forward_pass_def backward_pass_grad_def Let_def b f)
qed

lemma solve_loop_Xref: "solve_loop n S = Some (code, S') \<Longrightarrow> wo_Xref (ts_work S') = wo_Xref (ts_work S)"
proof (induction n arbitrary: S)
  case (Suc n)
  obtain d w where t: "termination_condition (ts_settings S) (ts_cache S) (iterate S) = Some (d, w)" using Suc.prems by (auto split: Option.bind_splits)
  then have "wo_Xref w = wo_Xref (ts_work S)" using iterate_Xref [of S] by (auto simp: termination_condition_def Let_def split: if_splits)
  then show ?case using Suc.prems Suc.IH by (cases d) (auto simp: t save_solution_def)
qed (auto simp: save_solution_def)

lemma solve_axis_Xref: "solve_axis ref S = Some S' \<Longrightarrow> wo_Xref (ts_work S') = ref"
  by (auto simp: solve_axis_def solve_def set_reference_def split: Option.bind_splits dest!: solve_loop_Xref)

lemma trajectory_loop_columns:
  "trajectory_loop M yaw0 v n before now g p = Some (Some cols, q) \<Longrightarrow> length cols = n \<and> (\<forall>c \<in> set cols. length c = 4) \<and> same_aimer p q"
proof (induction n arbitrary: before now g p cols)
  case 0
  then show ?case by (simp add: same_aimer_refl)
next
  case (Suc n)
  obtain g'' where g'': "target_predict_dt M DT g = Some g''" using Suc.prems by (auto split: Option.bind_splits)
  obtain after p'' where a: "planner_aim M g'' v p = Some (Some after, p'')"
    using Suc.prems by (auto simp: g'' split: Option.bind_splits option.splits)
  obtain rest where r: "trajectory_loop M yaw0 v n now after g'' p'' = Some (Some rest, q)" "length cols = Suc (length rest)" "\<exists>a b c d. cols = [a, b, c, d] # rest"
    using Suc.prems by (auto simp: g'' a Let_def split: Option.bind_splits)
  then show ?case using Suc.IH [OF r(1)] same_aimer_trans [OF planner_aim_same [OF a]] by auto
qed

lemma get_trajectory_columns:
  assumes "get_trajectory M g yaw0 v p = Some (Some cols, q)"
  shows "length cols = HORIZON" "\<And>c. c \<in> set cols \<Longrightarrow> length c = 4" "same_aimer p q"
proof -
  obtain g1 a1 p1 g2 a2 p2 where a: "planner_aim M g1 v p = Some (Some a1, p1)" "planner_aim M g2 v p1 = Some (Some a2, p2)"
    and l: "trajectory_loop M yaw0 v HORIZON a1 a2 g2 p2 = Some (Some cols, q)"
    using assms by (auto simp: get_trajectory_def simp del: trajectory_loop.simps split: Option.bind_splits option.splits)
  from trajectory_loop_columns [OF l] show "length cols = HORIZON" "\<And>c. c \<in> set cols \<Longrightarrow> length c = 4" by blast+
  from trajectory_loop_columns [OF l] show "same_aimer p q"
    using same_aimer_trans [OF planner_aim_same [OF a(1)] same_aimer_trans [OF planner_aim_same [OF a(2)]]] by blast
qed

lemma plan_target_fire:
  assumes "plan_target M fl g v p = Some (c, p')" and "pn_fire c"
  shows "pn_control c \<and> tracking_error M p' < pl_fire_thresh p"
proof -
  obtain g' yaw0 pitch0 q1 where a: "planner_aim M g' (checked_speed v) p = Some (Some (yaw0, pitch0), q1)"
    and r: "get_trajectory M g' yaw0 (checked_speed v) q1 \<bind> (\<lambda>(traj, p). case traj of None \<Rightarrow> Some (no_plan fl, p)
         | Some traj \<Rightarrow> solve_axis (map (take 2) traj) (pl_yaw_solver p) \<bind> (\<lambda>Y. solve_axis (map (drop 2) traj) (pl_pitch_solver (p\<lparr>pl_yaw_solver := Y\<rparr>)) \<bind> (\<lambda>P.
             plan_from M fl yaw0 traj (p\<lparr>pl_yaw_solver := Y, pl_pitch_solver := P\<rparr>) \<bind> (\<lambda>c. Some (c, p\<lparr>pl_yaw_solver := Y, pl_pitch_solver := P\<rparr>))))) = Some (c, p')"
    using assms by (auto simp: plan_target_def Let_def no_plan_def split: Option.bind_splits option.splits trajectory.splits)
  obtain cols q2 where t: "get_trajectory M g' yaw0 (checked_speed v) q1 = Some (Some cols, q2)"
    using r assms(2) by (auto simp: no_plan_def split: Option.bind_splits option.splits)
  obtain Y P where s: "solve_axis (map (take 2) cols) (pl_yaw_solver q2) = Some Y" "solve_axis (map (drop 2) cols) (pl_pitch_solver q2) = Some P"
    and p': "p' = q2\<lparr>pl_yaw_solver := Y, pl_pitch_solver := P\<rparr>" and c: "plan_from M fl yaw0 cols p' = Some c"
    using r by (auto simp: t split: Option.bind_splits)
  note k = get_trajectory_columns [OF t]
  have "length (cols ! 52) = 4" using k(1,2) by (simp add: nth_mem)
  then have x: "map (take 2) cols ! 52 ! 0 = cols ! 52 ! 0" "map (drop 2) cols ! 52 ! 0 = cols ! 52 ! 2" using k(1) by simp_all
  have th: "pl_fire_thresh p' = pl_fire_thresh p"
    using same_aimer_fields(5) [OF same_aimer_trans [OF planner_aim_same [OF a] k(3)]] by (simp add: p')
  show ?thesis
    using c assms(2) x th solve_axis_Xref [OF s(1)] solve_axis_Xref [OF s(2)]
    by (auto simp: plan_from_def Let_def tracking_error_def p' split: Option.bind_splits)
qed

lemma plan_maybe_fire:
  assumes "plan_maybe M fl now target v p = Some (c, p')" and "pn_fire c"
  shows "pn_control c \<and> target \<noteq> None \<and> tracking_error M p' < pl_fire_thresh p"
proof (cases target)
  case None
  then show ?thesis using assms by (auto simp: plan_maybe_def no_plan_def)
next
  case (Some g)
  then show ?thesis using assms by (auto simp: plan_maybe_def Let_def split: Option.bind_splits dest!: plan_target_fire)
qed


text \<open>The queue of the program always holds one element, which a round of the main loop replaces.\<close>

lemma mpc_round_queue:
  assumes "tq_max queue = 1" "length (tq_items queue) = 1" "mpc_round R q img t now_ns mode (queue, r) = Some (queue', r')"
  shows "tq_max queue' = 1 \<and> length (tq_items queue') = 1 \<and> \<not> tsq_empty queue' \<and>
    (mode = AUTO_AIM \<longrightarrow> (tsq_front queue' = Some None \<longleftrightarrow> tk_state (ro_tracker r') = Lost))"
proof (cases "mode = AUTO_AIM")
  case True
  obtain x where x: "tq_items queue = [x]" using assms(2) by (auto simp: length_Suc_conv)
  let ?k = "update_enemy_color now_ns (from_io (board_referee (ro_board r))) (ro_tracker r)"
  obtain targets as k where k: "track (rg_vision R q) (rg_detect R img) t True ?k = Some (targets, as, k)"
    using assms(3) True by (auto simp: mpc_round_def Let_def split: Option.bind_splits)
  have "targets = [] \<longleftrightarrow> tk_state k = Lost" using k unfolding track_def Let_def by (auto split: Option.bind_splits if_split_asm)
  then show ?thesis using assms(1,3) True x by (auto simp: mpc_round_def Let_def k tsq_push_def tsq_empty_def tsq_front_def split: list.splits)
next
  case False
  then show ?thesis using assms by (auto simp: mpc_round_def tsq_empty_def split: Option.bind_splits)
qed

text \<open>Before a plan tests whether the target can be reached, it reads the time of flight of a trajectory that may not have one.\<close>

lemma plan_undefined_without_solution:
  "nearest_of M g = Some (d, (x, y, z, w)) \<Longrightarrow> new_trajectory M (checked_speed v) d z = Some Unsolvable \<Longrightarrow> plan_target M fl g v p = None"
  by (simp add: plan_target_def)

section \<open>Witnesses\<close>

definition waiting_target :: "real ekf target" where
  "waiting_target = \<lparr>tg_name = Three, tg_type = Small, tg_priority = First, tg_jumped = True, tg_last_id = 0, tg_armor_num = 4, tg_switch_count = 0,
     tg_update_count = 0, tg_is_switch = False, tg_is_converged = False, tg_ekf = front_filter (replicate 11 1), tg_nis_failures = [0], tg_t = 0\<rparr>"

text \<open>A target that stands still in front of the robot.\<close>

definition waiting :: "real ekf target \<Rightarrow> bool" where
  "waiting h \<longleftrightarrow> ek_x (tg_ekf h) = [16 / 5, 0, 0, 0, 0, 0, 0, 0, 1 / 5, 0, 0] \<and> tg_armor_num h = 4"

lemma waiting_waits: "waiting waiting_target"
  by (simp add: waiting_def waiting_target_def front_filter_def filter_init_def front_pose_def new_ekf_def)

lemma waiting_at_time: "waiting g \<Longrightarrow> at_time g t h \<Longrightarrow> waiting h"
  using next_state_real [of "ek_x (tg_ekf g)" t] limit_rad_inside [of 0] by (auto simp: waiting_def at_time_def numeral_eq_Suc)

lemma waiting_predict:
  assumes "waiting g" "tg_name g = Three" "target_predict_dt real_libm t g = Some h"
  shows "waiting h"
proof -
  have l: "length (ek_x (tg_ekf g)) = STATES" using assms(1) by (simp add: waiting_def)
  have "spun g = ek_x (tg_ekf g)" using assms(2) by (simp add: spun_def spin_limited_def)
  then show ?thesis
    using predict_settled(2,3) [OF l assms(3)] next_state_real [OF l, of t] limit_rad_inside [of 0] assms(1) by (auto simp: waiting_def numeral_eq_Suc)
qed

lemma near_trajectory:
  assumes "0 < d" "d < 4"
  shows "\<exists>t e. new_trajectory real_libm 22 d 0 = Some (Solvable t e)"
proof -
  let ?a = "gravity * d * d / (2 * 22 * 22)"
  have a: "0 < ?a" using assms(1) gravity_pos by simp
  have "2 * ?a \<le> d" using assms mult_strict_left_mono [of d 4 d] by (simp add: gravity_def field_simps)
  then have "(2 * ?a) * (2 * ?a) \<le> d * d" using a assms(1) by (intro mult_mono) simp_all
  then have D: "\<not> (- d) * (- d) - 4 * ?a * (?a + 0) < 0" by (simp add: algebra_simps)
  have c: "cos (arctan x) \<noteq> 0" for x using cos_arctan_pos [of x] by simp
  have f: "fdiv x (2 * ?a) = Some (x / (2 * ?a))" "fdiv x (22 * cos (arctan y)) = Some (x / (22 * cos (arctan y)))" for x y
    using a c [of y] by (simp_all only: fdiv_Some)
  show ?thesis
    using D f unfolding new_trajectory_def Let_def by (auto simp: fdiv_def)
qed

lemma waiting_plates:
  assumes "waiting h"
  shows "\<exists>plates. armor_xyza_list real_libm ((!) (ek_x (tg_ekf h))) 4 = Some plates \<and> length plates = 4 \<and>
    (\<forall>i < 4. \<exists>w. plates ! i = (16 / 5 - 1 / 5 * cos (raw_angle ((!) (ek_x (tg_ekf h))) 4 i), - (1 / 5 * sin (raw_angle ((!) (ek_x (tg_ekf h))) 4 i)), 0, w))"
proof -
  let ?X = "(!) (ek_x (tg_ekf h))"
  let ?f = "\<lambda>i. do { angle \<leftarrow> plate_angle real_libm ?X 4 i; (a, b, c) \<leftarrow> h_armor_xyz real_libm ?X 4 i; Some (a, b, c, angle) }"
  have X: "?X 0 = 16 / 5" "?X 2 = 0" "?X 4 = 0" "?X 8 = 1 / 5" "?X 9 = 0" "?X 10 = 0" using assms by (simp_all add: waiting_def numeral_eq_Suc)
  have p: "\<exists>w. ?f i = Some (16 / 5 - 1 / 5 * cos (raw_angle ?X 4 i), - (1 / 5 * sin (raw_angle ?X 4 i)), 0, w)" for i
  proof -
    obtain w where "limit_rad real_libm (raw_angle ?X 4 i) = Some w" using limit_rad_real by blast
    then show ?thesis by (simp add: plate_angle_real h_armor_xyz_real X)
  qed
  obtain plates where pl: "map_opt ?f [0..<4] = Some plates" "length plates = 4" "\<forall>i < 4. ?f i = Some (plates ! i)"
    using map_opt_total [of "[0..<4]" ?f] p by fastforce
  have "\<exists>w. plates ! i = (16 / 5 - 1 / 5 * cos (raw_angle ?X 4 i), - (1 / 5 * sin (raw_angle ?X 4 i)), 0, w)" if "i < 4" for i
    using pl(3) that p [of i] by (metis option.inject)
  then show ?thesis using pl(1,2) by (auto simp: armor_xyza_list_def)
qed

lemma waiting_line:
  assumes "waiting h"
  shows "\<exists>t e. fire_line 22 h = Some (Solvable t e)"
proof -
  let ?X = "(!) (ek_x (tg_ekf h))"
  obtain plates where pl: "armor_xyza_list real_libm ?X 4 = Some plates" "length plates = 4"
    and each: "\<forall>i < 4. \<exists>w. plates ! i = (16 / 5 - 1 / 5 * cos (raw_angle ?X 4 i), - (1 / 5 * sin (raw_angle ?X 4 i)), 0, w)"
    using waiting_plates [OF assms] by blast
  have reach: "0 < horizontal real_libm b \<and> horizontal real_libm b < 4 \<and> fst (snd (snd b)) = 0" if mem: "b \<in> set plates" for b
  proof -
    obtain i where i: "i < 4" "b = plates ! i" using mem pl(2) by (auto simp: in_set_conv_nth)
    then obtain w where b: "b = (16 / 5 - 1 / 5 * cos (raw_angle ?X 4 i), - (1 / 5 * sin (raw_angle ?X 4 i)), 0, w)" using each by blast
    let ?c = "16 / 5 - 1 / 5 * cos (raw_angle ?X 4 i)" and ?s = "1 / 5 * sin (raw_angle ?X 4 i)"
    have "cos (raw_angle ?X 4 i) \<le> 1" "- 1 \<le> cos (raw_angle ?X 4 i)" "\<bar>sin (raw_angle ?X 4 i)\<bar> \<le> 1" by simp_all
    then have "3 \<le> ?c" "?c \<le> 17 / 5" "\<bar>?s\<bar> \<le> 1 / 5" by linarith+
    then have "9 \<le> ?c * ?c" "?c * ?c \<le> 17 / 5 * (17 / 5)" "?s * ?s \<le> 1 / 5 * (1 / 5)" "0 \<le> ?s * ?s"
      using mult_mono [of 3 ?c 3 ?c] mult_mono [of ?c "17 / 5" ?c "17 / 5"] mult_mono [of "\<bar>?s\<bar>" "1 / 5" "\<bar>?s\<bar>" "1 / 5"] by (simp_all only: abs_mult_self zero_le_square) auto
    then have "0 < ?c * ?c + ?s * ?s" "?c * ?c + ?s * ?s < 4 * 4" by linarith+
    then have "0 < sqrt (?c * ?c + ?s * ?s)" "sqrt (?c * ?c + ?s * ?s) < 4" by (simp_all add: real_less_lsqrt power2_eq_square)
    then show ?thesis by (simp add: b horizontal_def)
  qed
  have "plates ! 0 \<in> set plates" using pl(2) by simp
  moreover from reach [OF this] have "horizontal real_libm (plates ! 0) < 10 ^ 10" by simp
  ultimately obtain d a where n: "nearest_plate real_libm plates = Some (d, a)" using nearest_plate_found by blast
  from nearest_plate_least [OF n] reach have d: "0 < d" "d < 4" "fst (snd (snd a)) = 0" by auto
  obtain x y z w where a: "a = (x, y, z, w)" by (metis surj_pair)
  from near_trajectory [OF d(1,2)] d(3) assms pl(1) n show ?thesis by (auto simp: fire_line_def nearest_of_def waiting_def a)
qed

definition demo_config :: "('k :: linordered_field) planner_config" where
  "demo_config = \<lparr>pc_yaw_offset = Value 0, pc_pitch_offset = Value 0, pc_fire_thresh = Value (1 / 100), pc_decision_speed = Value 8,
     pc_high_speed_delay_time = Value (1 / 50), pc_low_speed_delay_time = Value (1 / 50), pc_max_yaw_acc = Value 50, pc_Q_yaw = Value [9000000, 0], pc_R_yaw = Value [1],
     pc_max_pitch_acc = Value 100, pc_Q_pitch = Value [9000000, 0], pc_R_pitch = Value [1]\<rparr>"

definition demo_planner :: "('k :: linordered_field) planner" where
  "demo_planner = the (new_planner (0, 0, 0, 0) (\<lambda>M. Some (mat_identity (length M))) demo_config)"

lemma demo_planner_ok: "planner_ok demo_planner"
proof -
  let ?I = "\<lambda>M :: 'a mat. Some (mat_identity (length M))"
  have s: "\<exists>S. setup_axis_solver ?I (Value m) (Value [9000000, 0]) (Value [1]) = Some S" for m
  proof -
    have "tiny_setup ?I [[1, DT], [0, 1]] [[0], [DT]] [0, 0] (mat_diag (take 2 [9000000, 0])) (mat_diag (take 1 [1])) 1 2 1 HORIZON \<noteq> None"
      by (rule tiny_setup_total) simp
    then obtain T where "tiny_setup ?I [[1, DT], [0, 1]] [[0], [DT]] [0, 0] (mat_diag (take 2 [9000000, 0])) (mat_diag (take 1 [1])) 1 2 1 HORIZON = Some T" by blast
    then show ?thesis unfolding setup_axis_solver_def yaml_as_def Let_def by simp
  qed
  obtain Y P where "setup_axis_solver ?I (Value 50) (Value [9000000, 0]) (Value [1]) = Some Y" "setup_axis_solver ?I (Value 100) (Value [9000000, 0]) (Value [1]) = Some P"
    using s by blast
  then obtain p where p: "new_planner (0, 0, 0, 0) ?I demo_config = Some p" by (simp add: new_planner_def demo_config_def yaml_as_def)
  have "planner_ok p"
    by (rule new_planner_ok [OF p, of 50 100]) (auto simp: demo_config_def is_mat_length mat_identity_shape)
  then show ?thesis by (simp add: demo_planner_def p)
qed

lemma waiting_plan:
  obtains t e g' where "fire_line (checked_speed 22) waiting_target = Some (Solvable t e)" "target_predict_dt real_libm t waiting_target = Some g'"
    "on_horizon g' (\<lambda>h. fire_line (checked_speed 22) h \<noteq> None)" "on_horizon g' (\<lambda>h. fire_line (checked_speed 22) h \<noteq> Some Unsolvable)"
    "length (ek_x (tg_ekf waiting_target)) = STATES"
proof -
  have v: "checked_speed 22 = (22 :: real)" by (simp add: checked_speed_def)
  obtain t e where l: "fire_line 22 waiting_target = Some (Solvable t e)" using waiting_line [OF waiting_waits] by blast
  have x: "length (ek_x (tg_ekf waiting_target)) = STATES" using waiting_waits by (simp add: waiting_def)
  obtain g' where g': "target_predict_dt real_libm t waiting_target = Some g'" using predict_real [OF x] by blast
  have "waiting g'" by (rule waiting_predict [OF waiting_waits _ g']) (simp add: waiting_target_def)
  then have "on_horizon g' (\<lambda>h. \<exists>t e. fire_line 22 h = Some (Solvable t e))"
    using waiting_at_time waiting_line unfolding on_horizon_def by blast
  then have "on_horizon g' (\<lambda>h. fire_line 22 h \<noteq> None)" "on_horizon g' (\<lambda>h. fire_line 22 h \<noteq> Some Unsolvable)"
    unfolding on_horizon_def by fastforce+
  then show thesis using that l g' x by (simp add: v)
qed

theorem plan_returns_witness: "\<exists>c p'. plan_target real_libm id waiting_target 22 demo_planner = Some (c, p') \<and> pn_control c \<and> planner_ok p'"
proof -
  obtain t e g' where w: "fire_line (checked_speed 22) waiting_target = Some (Solvable t e)" "target_predict_dt real_libm t waiting_target = Some g'"
    "on_horizon g' (\<lambda>h. fire_line (checked_speed 22) h \<noteq> None)" "on_horizon g' (\<lambda>h. fire_line (checked_speed 22) h \<noteq> Some Unsolvable)"
    "length (ek_x (tg_ekf waiting_target)) = STATES" by (rule waiting_plan)
  show ?thesis using plan_returns [OF demo_planner_ok w(5,1-3), of id] w(4) by blast
qed

theorem plan_strikes_nearest_plate_witness:
  "\<exists>c p' g' x y z w t. plan_target real_libm id waiting_target 22 demo_planner = Some (c, p') \<and> is_nearest g' (x, y, z, w) \<and>
     limit_rad real_libm (real_atan2 y x + pl_yaw_offset demo_planner) = Some (pn_target_yaw c) \<and>
     strikes (checked_speed 22) (- pn_target_pitch c - pl_pitch_offset demo_planner) t (sqrt (x * x + y * y)) z"
proof -
  obtain t e g' where w: "fire_line (checked_speed 22) waiting_target = Some (Solvable t e)" "target_predict_dt real_libm t waiting_target = Some g'"
    "on_horizon g' (\<lambda>h. fire_line (checked_speed 22) h \<noteq> None)" "on_horizon g' (\<lambda>h. fire_line (checked_speed 22) h \<noteq> Some Unsolvable)"
    "length (ek_x (tg_ekf waiting_target)) = STATES" by (rule waiting_plan)
  obtain c p' where c: "plan_target real_libm id waiting_target 22 demo_planner = Some (c, p')" "pn_control c"
  proof (cases rule: plan_target_cases [OF demo_planner_ok w(5,1-3), where fl = id])
    case 1
    then show thesis using w(4) by blast
  next
    case (2 c p')
    then show thesis using that by (auto simp: plan_from_def Let_def split: Option.bind_splits)
  qed
  from plan_strikes_nearest_plate [OF c w(5)] obtain g1 x y z w yaw pitch s where
    "is_nearest g1 (x, y, z, w)" "pn_target_yaw c = id yaw" "pn_target_pitch c = id pitch" "limit_rad real_libm (real_atan2 y x + pl_yaw_offset demo_planner) = Some yaw"
    "strikes (checked_speed 22) (- pitch - pl_pitch_offset demo_planner) s (sqrt (x * x + y * y)) z" by blast
  then show ?thesis using c(1) unfolding id_apply by blast
qed

definition mpc_rig :: "(rat ekf, unit, rat, int, int, pipe, unit) rig" where
  "mpc_rig = \<lparr>rg_arith = rat_arith, rg_link = wire_env, rg_libm = coarse_libm,
     rg_vision = (\<lambda>q. \<lparr>vi_init = (\<lambda>a r p. new_ekf [] []), vi_predict = (\<lambda>dt v1 v2 e. e), vi_fast_spin = fast_spin, vi_limit_spin = limit_spin, vi_r_ok = r_ok,
       vi_l_ok = l_ok, vi_order = (\<lambda>e n. [0..<n]), vi_error = (\<lambda>e n a i. 0), vi_huge = 100, vi_update = (\<lambda>n a i e. (e, False)),
       vi_solve = am_geometry, vi_from_center = (\<lambda>g. 0), vi_zero = 0\<rparr>),
     rg_state = (\<lambda>e. (!) (ek_x e)), rg_detect = (\<lambda>i. []), rg_gimbal_pos = (\<lambda>q. (0, 0, 0)), rg_sort = (\<lambda>xs. xs)\<rparr>"


end
