(* ===== verification/Spec2Isabelle.thy ===== *)
theory Spec2Isabelle
  imports Host_Link Ordered_Queue Tools_Crc Sentry Uproto_Txn Planner
begin

text \<open>
  Verification of the sp\_vision robot: the link protocol between the vision host and the DM-02 gimbal controller, the host side of that
  link, the tracking, aiming and shooting decisions on top of it, and the loops of the robot programs.

  \<^bold>\<open>The program.\<close> A camera picture is searched for armor plates; the tracker (\<^verbatim>\<open>tasks/auto_aim/tracker.cpp\<close>, \<^verbatim>\<open>target.cpp\<close>) keeps one
  enemy robot over the frames with a Kalman filter; the decider (\<^verbatim>\<open>tasks/omniperception/decider.cpp\<close>) ranks what further cameras see;
  the aimer (\<^verbatim>\<open>aimer.cpp\<close>, \<^verbatim>\<open>tools/trajectory.cpp\<close>) turns the predicted target into gimbal angles and the shooter (\<^verbatim>\<open>shooter.cpp\<close>) decides about fire; or a planner (\<^verbatim>\<open>planner.cpp\<close>) does
  both by model-predictive control.
  The programs (\<^verbatim>\<open>src/*.cpp\<close>) run this once per picture and pass the command to \<^verbatim>\<open>io::Dm02\<close>. Its implementation \<^verbatim>\<open>LinkImpl\<close> (\<^verbatim>\<open>io/dm02/impl/link_impl.cpp\<close>) keeps a thread that
  drives \<^verbatim>\<open>Driver\<close> (\<^verbatim>\<open>dm02_driver.cpp\<close>) over a serial port. Driver and device speak the same stack: MUX packets of
  channels (\<^verbatim>\<open>protocol/core/comm.c\<close>) inside the frames of the protocol engine (\<^verbatim>\<open>protocol/core/uproto.c\<close>), with a CRC16. On the device three channels answer:
  camera trigger events, gimbal commands and states, and time synchronisation (\<^verbatim>\<open>protocol/channel\<close>).

  \<^bold>\<open>Conventions.\<close> C integers are words of their width, and the arithmetic wraps as the C types do; signed arithmetic that may overflow is checked. A C object accessed by bytes is its list of
  bytes, from the pointer to the end of the object, and accesses are checked. \<open>None\<close> stands for everything that has no defined outcome: an access outside
  an object, a call of a null pointer, a signed overflow, a division by zero, a conversion out of range, a loop that does not end. A theorem that says that an operation is \<open>Some\<close> says that none of this happens.
  State is passed explicitly: the engine threads a pair of its own context and the rest of the world. Function pointers
  are numbers that an environment record resolves; callbacks that the repository itself registers are resolved to their models.

  \<^bold>\<open>Parameters.\<close> Code outside the repository is an argument: the transport behind \<^verbatim>\<open>Transport\<close> and the clocks (records \<open>uproto_env\<close>, \<open>driver_env\<close>, \<open>link_env\<close>), the
  conversions between doubles, floats and integers and the quaternions (\<open>arith\<close>), \<^verbatim>\<open>libm\<close> (record \<open>libm\<close>, with the real functions as the instance \<open>real_libm\<close>), the filter of a target and the pose solver (\<open>vision\<close>, with the Kalman filter as the instance \<open>kalman_vision\<close>), the inverse of a matrix (\<open>minv\<close>), the detector,
  \<^verbatim>\<open>std::sort\<close>, the YAML reader (values \<open>yaml_value\<close>), and \<^verbatim>\<open>auto_aim.h\<close> of the device firmware. What a theorem needs of them is a named hypothesis
  such as \<open>carries\<close> (a transport delivers what is written) or \<open>clock_runs\<close>, and each has an instance in a witness. Numeric code is stated over an arbitrary ordered field, with division by zero undefined; the theorems about it
  are theorems about exact arithmetic, not about rounding.

  \<^bold>\<open>The theories\<close>, in the order of the layers.

  \<^item> \<open>Dm02_Prelude\<close>: words, checked byte memory, the output cursor, and the collections of rewrite rules. \<open>Le_Bytes\<close>: \<^verbatim>\<open>comm_utils.h\<close> and the
    integer helpers of \<^verbatim>\<open>uproto.c\<close>, with a locale for a codec of fixed width that every pair of reader and writer interprets. \<open>Platform\<close>: \<^verbatim>\<open>platform.h\<close>, \<^verbatim>\<open>platform_posix.cpp\<close>.

  \<^item> \<open>Crc\<close>: \<^verbatim>\<open>CRC8_CRC16.c\<close>. The table-driven sums equal bitwise division, and no error burst of up to two bytes is missed. \<open>Tools_Crc\<close>: \<^verbatim>\<open>tools/crc.cpp\<close> agrees with it.

  \<^item> \<open>Uproto_Frame\<close>, \<open>Uproto\<close>, \<open>Uproto_Stream\<close>: \<^verbatim>\<open>uproto.c\<close>, every function. Frames survive encoding and decoding and corrupted ones are rejected; every operation keeps
    the context well-formed and stays inside its arrays; the receiver loop ends on every input; and a stream of frames cut anyhow is
    dispatched frame by frame, garbage in front being skipped. \<open>Uproto_Txn\<close>: requests over time: the tick as a function of each slot, the retransmissions and the final
    time-out of a request that nobody answers, and that every accepted request is answered exactly once or still outstanding.

  \<^item> \<open>Comm\<close>, \<open>Comm_Link\<close>, \<open>Comm_Props\<close>: \<^verbatim>\<open>comm.c\<close>, every function: channels, manager, MUX codec, and the arbiter with its ageing. The arbiter's choice is characterised, and what one side queues
    reaches the hook of the same channel on the other.

  \<^item> \<open>Camera_Channel\<close>, \<open>Gimbal_Channel\<close>, \<open>Gimbal_Mailbox\<close>, \<open>Time_Sync\<close>: the three channels, every function; the mailbox also under preemption, access by access; the clock offset with its error bound and the convergence of its filter. \<open>Link\<close>: the device as
    a whole, with every hook resolved: any sequence of its entry points returns.

  \<^item> \<open>Host_Driver\<close>, \<open>Host_Driver_Props\<close>: \<^verbatim>\<open>Driver\<close> and \<^verbatim>\<open>TimeSync\<close>. Received bytes never break it, reports arrive in its records field by field, and its commands arrive at the hooks of
    the device. \<open>Endpoint\<close>: the endpoint strings of both transports. \<open>Thread_Safe_Queue\<close>: \<^verbatim>\<open>tools/thread_safe_queue.hpp\<close> as a step relation of any number of threads. \<open>Host_Link\<close>: \<^verbatim>\<open>LinkImpl\<close> and \<^verbatim>\<open>Dm02\<close>: the
    thread, reconnection, the referee's fire interlock, and the interpolation of orientations.

  \<^item> \<open>Armor\<close>, \<open>Tracker\<close>, \<open>Decider\<close>, \<open>Ordered_Queue\<close>: plates and the voter, the tracker with both forms of \<^verbatim>\<open>track\<close>, the decider, and \<^verbatim>\<open>OrderedQueue\<close> of \<^verbatim>\<open>tools/thread_pool.hpp\<close>.

  \<^item> \<open>Math_Tools\<close>, \<open>Target_Geometry\<close>, \<open>Aimer\<close>: \<^verbatim>\<open>tools/math_tools.cpp\<close>, \<^verbatim>\<open>tools/trajectory.cpp\<close>, the geometry of \<^verbatim>\<open>target.cpp\<close>, \<^verbatim>\<open>aimer.cpp\<close> and \<^verbatim>\<open>shooter.cpp\<close>. The trajectory strikes and is the fastest one; the
    Jacobians are the derivatives; the angles of an orientation are recovered; a command of the aimer strikes a plate of the predicted target.

  \<^item> \<open>Matrices\<close>: vectors and matrices of any size, the operations of Eigen that the next theories use, with the laws of quadratic forms. \<open>Kalman\<close>: \<^verbatim>\<open>tools/extended_kalman_filter.cpp\<close>
    and the model and the measurement of \<^verbatim>\<open>target.cpp\<close>. The covariance stays positive semidefinite, that of an outpost is singular, and predictions in steps add up.

  \<^item> \<open>Mpc\<close>, \<open>Lqr\<close>, \<open>Planner\<close>: \<^verbatim>\<open>tasks/auto_aim/planner\<close>. \<open>Mpc\<close> is the solver \<^verbatim>\<open>tinympc\<close>, set-up and iteration: every solve of a solver that was set up answers, with inputs inside their bounds. \<open>Lqr\<close>: with
    the cache at the fixed point its two passes are optimal, by dynamic programming. \<open>Planner\<close>: the planner over the target and the two solvers, and the two threads of \<^verbatim>\<open>src/standard_mpc.cpp\<close>: the
    reference is the aim at every time of the horizon, plans come back, their target is struck, and fire needs a permission and a small tracking error.

  \<^item> \<open>Program\<close>: \<^verbatim>\<open>src/referee_runtime.hpp\<close> and a round of the loops of \<^verbatim>\<open>standard.cpp\<close>, \<^verbatim>\<open>uav.cpp\<close>, \<^verbatim>\<open>sentry_multithread.cpp\<close>, \<^verbatim>\<open>mt_standard.cpp\<close> and \<^verbatim>\<open>commandgener.cpp\<close>, over
    all of the above. When fire is asked for, and that only the enemy matters. \<open>Sentry\<close>: \<^verbatim>\<open>src/sentry.cpp\<close> and \<^verbatim>\<open>sentry_bp.cpp\<close>, which talk to \<^verbatim>\<open>Driver\<close> through a worker thread of their own: the thread,
    the loop over the pictures, the orders that pass between them, and both forms of \<^verbatim>\<open>Decider::decide\<close> on the further cameras.

  \<^bold>\<open>Loops and bounds.\<close> The receiver loop of the engine and the release loop of the reordering queue are functions with a measure. The reading loop of \<^verbatim>\<open>poll\<close> and the two loops of
  \<^verbatim>\<open>limit_rad\<close> are partial functions, and that they return is proved. Reconnection makes at most ten attempts, the iteration on the flight time at most ten rounds, the Riccati recursion at most 1000 and a solve as many as its settings say, all as in the source. The link thread and the programs
  run for any given number of rounds. No other fuel is used.

  \<^bold>\<open>Not modelled\<close>: image processing, neural networks, and pose estimation (OpenCV, OpenVINO); cone and linear constraints and the penalty adaptation of the solver,
  which the planner leaves switched off; the calls of serial ports, cameras, ROS and web sockets; vendored
  and generated code (\<^verbatim>\<open>io/serial\<close>, camera SDK headers, message packages); calibration, tests, plotting and recording.
\<close>

end
